(* ===== verification/Prelude.thy ===== *)
theory Prelude
  imports Main "HOL-Library.List_Lexorder" "HOL-Library.Multiset" "HOL-Library.Code_Target_Nat"
begin

text \<open>
  What every component of the development shares: the type of JavaScript strings, thrown
  errors as the left side of a sum, the collections of facts the component proofs use, and
  generic lemmas on lists and on guarded step functions.
\<close>

section \<open>Strings\<close>

text \<open>
  A JavaScript string is a sequence of UTF-16 code units. A code unit is a natural number
  here; no lemma needs the bound 65536 unless it says so. \<open>js\<close> turns an ASCII literal of
  the source into such a string.
\<close>

type_synonym jsstring = "nat list"

definition js :: "string \<Rightarrow> jsstring" where
  "js s = List.map of_char s"

lemma js_Nil [simp]: "js [] = []"
  by (simp add: js_def)

lemma js_Cons [simp]: "js (c # s) = of_char c # js s"
  by (simp add: js_def)

section \<open>Shared collections of facts\<close>

named_theorems throw_simps \<open>how thrown errors propagate\<close>
named_theorems valid_simps \<open>what it means for a validator to report nothing\<close>
named_theorems inv_intros \<open>preservation of the component invariants\<close>

section \<open>Values that may be missing\<close>

text \<open>The source's \<open>x ?? d\<close>.\<close>

definition default_to :: "'a \<Rightarrow> 'a option \<Rightarrow> 'a" where
  "default_to d x = (case x of None \<Rightarrow> d | Some a \<Rightarrow> a)"

lemma default_to_simps [simp]: "default_to d None = d" "default_to d (Some a) = a"
  by (simp_all add: default_to_def)

section \<open>Thrown errors\<close>

text \<open>
  A function that may throw returns a sum: \<open>Inl\<close> carries the error, \<open>Inr\<close> the value.
  \<open>andThen\<close> is sequencing: an error ends the computation.
\<close>

definition andThen :: "'e + 'a \<Rightarrow> ('a \<Rightarrow> 'e + 'b) \<Rightarrow> 'e + 'b" where
  "andThen r f = (case r of Inl e \<Rightarrow> Inl e | Inr a \<Rightarrow> f a)"

lemma andThen_simps [simp, throw_simps]:
  "andThen (Inl e) f = Inl e"
  "andThen (Inr a) f = f a"
  by (simp_all add: andThen_def)

lemma andThen_Inr_iff [throw_simps]:
  "andThen r f = Inr b \<longleftrightarrow> (\<exists>a. r = Inr a \<and> f a = Inr b)"
  by (cases r) auto

definition guard :: "bool \<Rightarrow> 'e \<Rightarrow> 'e + 'a \<Rightarrow> 'e + 'a" where
  "guard bad e r = (if bad then Inl e else r)"

lemma guard_Inr_iff [simp, throw_simps]: "guard bad e r = Inr a \<longleftrightarrow> \<not> bad \<and> r = Inr a"
  by (simp add: guard_def)

text \<open>The results of a list of computations, or the error of the first that throws.\<close>

fun collect :: "('e + 'a) list \<Rightarrow> 'e + 'a list" where
  "collect [] = Inr []"
| "collect (Inl e # rs) = Inl e"
| "collect (Inr a # rs) = (case collect rs of Inl e \<Rightarrow> Inl e | Inr as \<Rightarrow> Inr (a # as))"

lemma collect_Inr_iff: "collect rs = Inr as \<longleftrightarrow> rs = List.map Inr as"
proof (induction rs arbitrary: as rule: collect.induct)
  case (3 a rs)
  show ?case
  proof (cases as)
    case Nil
    then show ?thesis by (simp split: sum.splits)
  next
    case (Cons b bs)
    with "3.IH" [of bs] show ?thesis by (auto split: sum.splits)
  qed
qed auto

lemma collect_map_Inr: "(\<And>x. x \<in> set xs \<Longrightarrow> f x = Inr (g x)) \<Longrightarrow> collect (List.map f xs) = Inr (List.map g xs)"
  by (auto simp: collect_Inr_iff)

section \<open>Guarded machines\<close>

text \<open>
  Many components are a state with an operation that either throws, leaving the caller
  without a new state, or returns the next state. \<open>run_steps\<close> performs a list of such
  operations and stops at the first error, as an uncaught exception does.
\<close>

fun run_steps :: "('s \<Rightarrow> 'op \<Rightarrow> 'e + 's) \<Rightarrow> 's \<Rightarrow> 'op list \<Rightarrow> 'e + 's" where
  "run_steps step s [] = Inr s"
| "run_steps step s (x # xs) = (case step s x of Inl e \<Rightarrow> Inl e | Inr s' \<Rightarrow> run_steps step s' xs)"

lemma run_steps_append:
  "run_steps step s (xs @ ys) =
     (case run_steps step s xs of Inl e \<Rightarrow> Inl e | Inr s' \<Rightarrow> run_steps step s' ys)"
  by (induction xs arbitrary: s) (auto split: sum.splits)

lemma run_steps_snoc_Inr_iff:
  "run_steps step s (xs @ [x]) = Inr u \<longleftrightarrow> (\<exists>m. run_steps step s xs = Inr m \<and> step m x = Inr u)"
  by (auto simp: run_steps_append split: sum.splits)

text \<open>
  The contract of such a machine: an invariant that every successful step keeps. A client
  gets the invariant after any run, and for every state the run passes through.
\<close>

locale guarded_machine =
  fixes step :: "'s \<Rightarrow> 'op \<Rightarrow> 'e + 's"
    and inv :: "'s \<Rightarrow> bool"
  assumes step_inv: "inv s \<Longrightarrow> step s x = Inr s' \<Longrightarrow> inv s'"
begin

lemma run_inv: "inv s \<Longrightarrow> run_steps step s xs = Inr s' \<Longrightarrow> inv s'"
  by (induction xs arbitrary: s) (auto split: sum.splits dest: step_inv)

lemma run_prefix_inv:
  "inv s \<Longrightarrow> run_steps step s (xs @ ys) = Inr u \<Longrightarrow> \<exists>m. run_steps step s xs = Inr m \<and> inv m"
  by (auto simp: run_steps_append split: sum.splits dest: run_inv)

end

section \<open>Lists\<close>

lemma sort_key_set_distinct_unique:
  assumes "mset xs = mset ys" and "inj_on f (set xs)"
  shows "sort_key f xs = sort_key f ys"
proof (rule properties_for_sort_key)
  show "mset (sort_key f ys) = mset xs" using assms(1) by simp
next
  fix k assume "k \<in> set (sort_key f ys)"
  then have k: "k \<in> set xs" using assms(1) by (metis set_mset_mset set_sort)
  have eq: "filter (\<lambda>x. f k = f x) zs = filter (\<lambda>x. x = k) zs" if "set zs = set xs" for zs
    using that k assms(2) by (intro filter_cong) (auto dest: inj_onD)
  have s: "set ys = set xs" using assms(1) by (metis set_mset_mset)
  have f: "filter (\<lambda>x. x = k) zs = replicate (count_list zs k) k" for zs :: "'a list"
    by (induction zs) auto
  have c: "count_list xs k = count_list ys k" 
    using assms(1) by (metis count_mset)
  have "count_list (sort_key f ys) k = count_list ys k" 
    by (metis count_mset mset_sort)
  then show "filter (\<lambda>x. f k = f x) (sort_key f ys) = filter (\<lambda>x. f k = f x) xs"
    using eq[of xs] eq[of "sort_key f ys"] s c f by simp
qed simp

end
