(* ===== verification/Js_Value.thy ===== *)
theory Js_Value
  imports Prelude
begin

text \<open>
  The JavaScript values the program handles before it knows their type: numbers as far as
  the source can tell them apart, JSON values with \<open>undefined\<close>, UTF-16 strings read as
  Unicode code points, and decimal printing of integers.
\<close>

section \<open>Numbers\<close>

text \<open>
  The source only compares numbers with integers and asks whether they are integers, so a
  double is an integer, negative zero, a fraction strictly between \<open>n\<close> and \<open>n + 1\<close>, an
  infinity or NaN. The printing function below gives all digits of an integer, as JavaScript does for
  safe integers, of magnitude below \<open>2 ^ 53\<close>: larger ones it prints in the shortest form that reads back, from
  \<open>10 ^ 21\<close> on with an exponent. Every number that the program prints has been checked to be a safe integer.
\<close>

datatype jsnum = JInt int | JNegZero | JFrac int | JInfinite bool | JNaN

fun num_int :: "jsnum \<Rightarrow> int option" where
  "num_int (JInt i) = Some i"
| "num_int JNegZero = Some 0"
| "num_int _ = None"

text \<open>\<open>Number.isFinite\<close>, \<open>Number.isInteger\<close>, and the comparisons \<open>x <= n\<close> and \<open>x < n\<close> with an integer.\<close>

fun is_finite :: "jsnum \<Rightarrow> bool" where
  "is_finite (JInfinite _) = False"
| "is_finite JNaN = False"
| "is_finite _ = True"

definition is_integer :: "jsnum \<Rightarrow> bool" where
  "is_integer x = (num_int x \<noteq> None)"

fun num_le :: "jsnum \<Rightarrow> int \<Rightarrow> bool" where
  "num_le (JInt i) n = (i \<le> n)"
| "num_le JNegZero n = (0 \<le> n)"
| "num_le (JFrac i) n = (i < n)"
| "num_le (JInfinite neg) n = neg"
| "num_le JNaN n = False"

text \<open>\<open>x === n\<close> for an integer \<open>n\<close>: negative zero equals zero.\<close>

definition num_eq :: "jsnum \<Rightarrow> int \<Rightarrow> bool" where
  "num_eq x n = (num_int x = Some n)"

lemma num_le_integer: "num_int x = Some i \<Longrightarrow> num_le x n \<longleftrightarrow> i \<le> n"
  by (cases x) auto

section \<open>JSON values\<close>

datatype json =
    JUndefined
  | JNull
  | JBool bool
  | JNum jsnum
  | JStr jsstring
  | JArr "json list"
  | JObj "(jsstring \<times> json) list"

text \<open>
  An object is the list of its own enumerable fields; reading a field that is not there gives
  \<open>undefined\<close>. The keys of a real object are distinct.
\<close>

fun isPlainObject :: "json \<Rightarrow> bool" where
  "isPlainObject (JObj _) = True"
| "isPlainObject _ = False"

fun own_fields :: "json \<Rightarrow> (jsstring \<times> json) list" where
  "own_fields (JObj es) = es"
| "own_fields _ = []"

definition field :: "json \<Rightarrow> string \<Rightarrow> json" where
  "field v k = (case map_of (own_fields v) (js k) of None \<Rightarrow> JUndefined | Some x \<Rightarrow> x)"

definition has_field :: "json \<Rightarrow> string \<Rightarrow> bool" where
  "has_field v k = (map_of (own_fields v) (js k) \<noteq> None)"

section \<open>Code points\<close>

definition high :: "nat \<Rightarrow> bool" where
  "high code = (code \<ge> 0xd800 \<and> code \<le> 0xdbff)"

definition low :: "nat \<Rightarrow> bool" where
  "low code = (code \<ge> 0xdc00 \<and> code \<le> 0xdfff)"

text \<open>
  \<open>Array.from\<close> over a string, with \<open>codePointAt\<close>: a high surrogate followed by a low one is
  one code point, anything else stands for itself.
\<close>

fun codepoints :: "jsstring \<Rightarrow> nat list" where
  "codepoints (h # l # r) =
     (if high h \<and> low l then (0x10000 + (h - 0xd800) * 0x400 + (l - 0xdc00)) # codepoints r
      else h # codepoints (l # r))"
| "codepoints us = us"

definition codepointLength :: "jsstring \<Rightarrow> nat" where
  "codepointLength s = length (codepoints s)"

lemma codepoints_no_high: "(\<And>u. u \<in> set s \<Longrightarrow> \<not> high u) \<Longrightarrow> codepoints s = s"
  by (induction s rule: codepoints.induct) auto

lemma codepoints_eq_Nil_iff [simp]: "codepoints s = [] \<longleftrightarrow> s = []"
  by (cases s rule: codepoints.cases) auto

lemma codepointLength_le: "codepointLength s \<le> length s"
  unfolding codepointLength_def by (induction s rule: codepoints.induct) auto

section \<open>Decimal printing\<close>

fun dec_nat :: "nat \<Rightarrow> jsstring" where
  "dec_nat n = (if n < 10 then [48 + n] else dec_nat (n div 10) @ [48 + n mod 10])"

declare dec_nat.simps [simp del]

definition dec_int :: "int \<Rightarrow> jsstring" where
  "dec_int i = (if i < 0 then 45 # dec_nat (nat (- i)) else dec_nat (nat i))"

definition is_digit :: "nat \<Rightarrow> bool" where
  "is_digit c = (48 \<le> c \<and> c \<le> 57)"

definition digits_value :: "jsstring \<Rightarrow> nat" where
  "digits_value ds = foldl (\<lambda>acc d. 10 * acc + (d - 48)) 0 ds"

lemma dec_nat_neq_Nil [simp]: "dec_nat n \<noteq> []"
  by (subst dec_nat.simps) simp

lemma dec_nat_digits: "d \<in> set (dec_nat n) \<Longrightarrow> is_digit d"
proof (induction n rule: dec_nat.induct)
  case (1 n)
  then show ?case
    by (cases "n < 10") (auto simp: dec_nat.simps [of n] is_digit_def)
qed

lemma digits_value_dec_nat: "digits_value (dec_nat n) = n"
proof (induction n rule: dec_nat.induct)
  case (1 n)
  show ?case
  proof (cases "n < 10")
    case True
    then show ?thesis by (simp add: dec_nat.simps [of n] digits_value_def)
  next
    case False
    then have "digits_value (dec_nat (n div 10)) = n div 10" using 1 by simp
    with False show ?thesis by (simp add: dec_nat.simps [of n] digits_value_def)
  qed
qed

lemma dec_nat_hd: "\<exists>d ds. dec_nat n = d # ds \<and> is_digit d"
  using dec_nat_digits [of "hd (dec_nat n)" n] by (cases "dec_nat n") auto

lemma dec_int_ascii: "u \<in> set (dec_int i) \<Longrightarrow> is_digit u \<or> u = 45"
  by (auto simp: dec_int_def dest: dec_nat_digits split: if_splits)

end
