(* ===== verification/Format_Types.thy ===== *)
theory Format_Types
  imports Js_Value
begin

text \<open>
  The data of the record format (\<open>packages/format/src/index.ts\<close>): operations, sources,
  capabilities and versions as enumerations, buffer mutations, text bindings, producers and
  manifests as records, the constants that bound them, and the two regular expressions for
  hashes and session ids.
\<close>

section \<open>Bounds\<close>

definition MAX_TIME_FIELD_VALUE :: int where
  "MAX_TIME_FIELD_VALUE = 9007199254740991"

definition MAX_INTEGER_FIELD_VALUE :: int where
  "MAX_INTEGER_FIELD_VALUE = 2147483647"

definition MAX_ATTESTATION_COUNT :: nat where "MAX_ATTESTATION_COUNT = 16"
definition MAX_ATTESTATION_FIELD_COUNT :: nat where "MAX_ATTESTATION_FIELD_COUNT = 16"
definition MAX_ATTESTATION_STRING_LENGTH :: nat where "MAX_ATTESTATION_STRING_LENGTH = 512"
definition MAX_PRODUCER_STRING_LENGTH :: nat where "MAX_PRODUCER_STRING_LENGTH = 128"
definition MAX_ATTESTATION_KEY_LENGTH :: nat where "MAX_ATTESTATION_KEY_LENGTH = 64"

section \<open>Enumerations\<close>

datatype operation = OpInsert | OpDelete | OpReplace

datatype source = Typing | Paste | Cut | Drop | Ime | Autocomplete | Programmatic | UnknownSource

datatype capability = Timing | SourceAttribution | Selection | PauseFidelity | KeystrokeLevel

datatype format_version = V0_1 | V0_2 | V0_3

fun op_name :: "operation \<Rightarrow> string" where
  "op_name OpInsert = ''insert''"
| "op_name OpDelete = ''delete''"
| "op_name OpReplace = ''replace''"

fun source_name :: "source \<Rightarrow> string" where
  "source_name Typing = ''typing''"
| "source_name Paste = ''paste''"
| "source_name Cut = ''cut''"
| "source_name Drop = ''drop''"
| "source_name Ime = ''ime''"
| "source_name Autocomplete = ''autocomplete''"
| "source_name Programmatic = ''programmatic''"
| "source_name UnknownSource = ''unknown''"

fun capability_name :: "capability \<Rightarrow> string" where
  "capability_name Timing = ''timing''"
| "capability_name SourceAttribution = ''source_attribution''"
| "capability_name Selection = ''selection''"
| "capability_name PauseFidelity = ''pause_fidelity''"
| "capability_name KeystrokeLevel = ''keystroke_level''"

fun version_name :: "format_version \<Rightarrow> string" where
  "version_name V0_1 = ''0.1''"
| "version_name V0_2 = ''0.2''"
| "version_name V0_3 = ''0.3''"

definition OPERATIONS :: "operation list" where
  "OPERATIONS = [OpInsert, OpDelete, OpReplace]"

definition SOURCES :: "source list" where
  "SOURCES = [Typing, Paste, Cut, Drop, Ime, Autocomplete, Programmatic, UnknownSource]"

definition CAPABILITIES :: "capability list" where
  "CAPABILITIES = [Timing, SourceAttribution, Selection, PauseFidelity, KeystrokeLevel]"

definition FORMAT_VERSIONS :: "format_version list" where
  "FORMAT_VERSIONS = [V0_1, V0_2, V0_3]"

text \<open>The member of an enumeration with a given name, as the \<open>..._SET.has\<close> tests look it up.\<close>

definition parse_enum :: "('a \<Rightarrow> string) \<Rightarrow> 'a list \<Rightarrow> json \<Rightarrow> 'a option" where
  "parse_enum name all v = (case v of JStr s \<Rightarrow> List.find (\<lambda>a. js (name a) = s) all | _ \<Rightarrow> None)"

lemma set_SOURCES: "set SOURCES = UNIV"
  using source.exhaust by (auto simp: SOURCES_def)

lemma js_inj: "js s = js s' \<longleftrightarrow> s = s'"
proof -
  have "inj (of_char :: char \<Rightarrow> nat)" by (rule injI) simp
  then show ?thesis by (simp add: js_def inj_map_eq_map)
qed

lemma parse_enum_Some_name: "parse_enum name all v = Some a \<Longrightarrow> v = JStr (js (name a)) \<and> a \<in> set all"
  by (auto simp: parse_enum_def find_Some_iff split: json.splits)

lemma parse_op_name [simp]: "parse_enum op_name OPERATIONS (JStr (js (op_name x))) = Some x"
  by (cases x) (simp_all add: parse_enum_def OPERATIONS_def)

lemma parse_source_name [simp]: "parse_enum source_name SOURCES (JStr (js (source_name x))) = Some x"
  by (cases x) (simp_all add: parse_enum_def SOURCES_def)

lemma parse_capability_name [simp]:
  "parse_enum capability_name CAPABILITIES (JStr (js (capability_name x))) = Some x"
  by (cases x) (simp_all add: parse_enum_def CAPABILITIES_def)

lemma parse_version_name [simp]:
  "parse_enum version_name FORMAT_VERSIONS (JStr (js (version_name x))) = Some x"
  by (cases x) (simp_all add: parse_enum_def FORMAT_VERSIONS_def)

lemma op_name_inj [simp]: "op_name x = op_name y \<longleftrightarrow> x = y"
  by (cases x; cases y) auto

lemma source_name_inj [simp]: "source_name x = source_name y \<longleftrightarrow> x = y"
  by (cases x; cases y) auto

lemma version_name_inj [simp]: "version_name x = version_name y \<longleftrightarrow> x = y"
  by (cases x; cases y) auto

instance source :: finite
  by standard (metis finite_set set_SOURCES)

section \<open>Records\<close>

record mutation =
  ev_seq :: int
  ev_t :: int
  ev_op :: operation
  ev_pos :: "int option"
  ev_del_len :: "int option"
  ev_ins_len :: "int option"
  ev_source :: source

type_synonym event_log = "mutation list"

record producer_info =
  pr_id :: jsstring
  pr_version :: jsstring
  pr_capabilities :: "capability list"

type_synonym attestation = "(jsstring \<times> jsstring) list"

record text_binding =
  tb_scheme :: jsstring
  tb_canonical_length :: int
  tb_commitment :: jsstring

text \<open>
  An optional field of the manifest that is absent or \<open>null\<close> is \<open>None\<close>. Only the presence of
  \<open>text_binding\<close> matters to the source.
\<close>

record manifest =
  mf_format_version :: format_version
  mf_record_hash :: jsstring
  mf_session_id :: jsstring
  mf_producer :: producer_info
  mf_text_binding :: "text_binding option"
  mf_event_count :: int
  mf_duration_ms :: int
  mf_created_client_t :: "jsstring option"
  mf_ingested_server_t :: "jsstring option"
  mf_parent_record :: "jsstring option"
  mf_attestations :: "attestation list"

record writing_record =
  wr_manifest :: manifest
  wr_events :: event_log

definition TEXT_BINDING_SCHEME :: jsstring where
  "TEXT_BINDING_SCHEME = js ''canon-letters/0.1''"

section \<open>The JSON of the records\<close>

fun nullable_int :: "int option \<Rightarrow> json" where
  "nullable_int None = JNull"
| "nullable_int (Some i) = JNum (JInt i)"

fun nullable_str :: "jsstring option \<Rightarrow> json" where
  "nullable_str None = JNull"
| "nullable_str (Some s) = JStr s"

definition event_json :: "mutation \<Rightarrow> json" where
  "event_json e = JObj
     [(js ''seq'', JNum (JInt (ev_seq e))),
      (js ''t'', JNum (JInt (ev_t e))),
      (js ''op'', JStr (js (op_name (ev_op e)))),
      (js ''pos'', nullable_int (ev_pos e)),
      (js ''del_len'', nullable_int (ev_del_len e)),
      (js ''ins_len'', nullable_int (ev_ins_len e)),
      (js ''source'', JStr (js (source_name (ev_source e))))]"

definition text_binding_json :: "text_binding \<Rightarrow> json" where
  "text_binding_json b = JObj
     [(js ''scheme'', JStr (tb_scheme b)),
      (js ''canonical_length'', JNum (JInt (tb_canonical_length b))),
      (js ''commitment'', JStr (tb_commitment b))]"

definition producer_json :: "producer_info \<Rightarrow> json" where
  "producer_json p = JObj
     [(js ''id'', JStr (pr_id p)),
      (js ''version'', JStr (pr_version p)),
      (js ''capabilities'', JArr (List.map (\<lambda>c. JStr (js (capability_name c))) (pr_capabilities p)))]"

definition attestation_json :: "attestation \<Rightarrow> json" where
  "attestation_json a = JObj (List.map (\<lambda>(k, v). (k, JStr v)) a)"

definition manifest_json :: "manifest \<Rightarrow> json" where
  "manifest_json m = JObj
     ([(js ''format_version'', JStr (js (version_name (mf_format_version m)))),
       (js ''record_hash'', JStr (mf_record_hash m)),
       (js ''session_id'', JStr (mf_session_id m)),
       (js ''producer'', producer_json (mf_producer m))]
      @ (case mf_text_binding m of None \<Rightarrow> [] | Some b \<Rightarrow> [(js ''text_binding'', text_binding_json b)])
      @ [(js ''event_count'', JNum (JInt (mf_event_count m))),
         (js ''duration_ms'', JNum (JInt (mf_duration_ms m))),
         (js ''created_client_t'', nullable_str (mf_created_client_t m)),
         (js ''ingested_server_t'', nullable_str (mf_ingested_server_t m)),
         (js ''parent_record'', nullable_str (mf_parent_record m)),
         (js ''attestations'', JArr (List.map attestation_json (mf_attestations m)))])"

section \<open>Hashes and session ids\<close>

definition is_hex :: "nat \<Rightarrow> bool" where
  "is_hex c = ((48 \<le> c \<and> c \<le> 57) \<or> (97 \<le> c \<and> c \<le> 102))"

text \<open>\<open>/^b3:[0-9a-f]{64}$/\<close>\<close>

definition is_b3_hash :: "jsstring \<Rightarrow> bool" where
  "is_b3_hash s = (length s = 67 \<and> take 3 s = js ''b3:'' \<and> list_all is_hex (drop 3 s))"

fun isB3Hash :: "json \<Rightarrow> bool" where
  "isB3Hash (JStr s) = is_b3_hash s"
| "isB3Hash _ = False"

text \<open>
  \<open>/^[0-9a-f]{8}-[0-9a-f]{4}-4[0-9a-f]{3}-[89ab][0-9a-f]{3}-[0-9a-f]{12}$/\<close>, position by
  position: \<open>uuid_shape\<close> lists the test each of the 36 characters has to pass.
\<close>

definition uuid_shape :: "(nat \<Rightarrow> bool) list" where
  "uuid_shape = replicate 8 is_hex @ [\<lambda>c. c = 45] @ replicate 4 is_hex @ [\<lambda>c. c = 45]
     @ [\<lambda>c. c = 52] @ replicate 3 is_hex @ [\<lambda>c. c = 45]
     @ [\<lambda>c. c = 56 \<or> c = 57 \<or> c = 97 \<or> c = 98] @ replicate 3 is_hex @ [\<lambda>c. c = 45]
     @ replicate 12 is_hex"

definition isUuid :: "jsstring \<Rightarrow> bool" where
  "isUuid s = list_all2 (\<lambda>p c. p c) uuid_shape s"

lemma isUuid_length: "isUuid s \<Longrightarrow> length s = 36"
  by (auto simp: isUuid_def uuid_shape_def dest!: list_all2_lengthD)

lemma isUuid_chars: "isUuid s \<Longrightarrow> c \<in> set s \<Longrightarrow> is_hex c \<or> c = 45"
proof -
  assume u: "isUuid s" and "c \<in> set s"
  then obtain i where i: "i < length s" "s ! i = c" by (auto simp: in_set_conv_nth)
  then have "(uuid_shape ! i) c"
    using u by (auto simp: isUuid_def dest: list_all2_nthD2)
  moreover have "uuid_shape ! i \<in> set uuid_shape"
    using i u by (auto simp: isUuid_def dest: list_all2_lengthD)
  moreover have "p c \<Longrightarrow> is_hex c \<or> c = 45" if "p \<in> set uuid_shape" for p
    using that by (auto simp: uuid_shape_def is_hex_def split: if_splits)
  ultimately show ?thesis by blast
qed

end
