(* ===== verification/Validation.thy ===== *)
theory Validation
  imports Format_Types
begin

text \<open>
  The validators of \<open>packages/format/src/index.ts\<close> on values of unknown type: each returns the
  list of errors it found. The second half states what an empty list means: a valid event is
  exactly the JSON of a well-formed mutation, up to the sign of zero.
\<close>

datatype verror =
    NotAnObject string
  | NotAnArray string
  | UnknownField string jsstring
  | ForbiddenField string
  | NotBoundedInt string
  | NotBoundedIntOrNull string
  | NotSafeMs string
  | NotAString string
  | EmptyString string
  | TooLong string
  | TooMany string
  | NotOneOf string
  | NotB3 string
  | NotUuid string
  | NotTimestamp string
  | SeqGap int
  | InconsistentSizes operation
  | MustBePositive string
  | TimeDecreases nat
  | At nat verror
  | InField jsstring verror

section \<open>Primitive checks\<close>

fun isBoundedNonNegativeInteger :: "json \<Rightarrow> bool" where
  "isBoundedNonNegativeInteger (JNum x) =
     (case num_int x of Some i \<Rightarrow> 0 \<le> i \<and> i \<le> MAX_INTEGER_FIELD_VALUE | None \<Rightarrow> False)"
| "isBoundedNonNegativeInteger _ = False"

text \<open>\<open>Number.isSafeInteger(value) && value >= 0\<close>\<close>

fun isSafeNonNegative :: "json \<Rightarrow> bool" where
  "isSafeNonNegative (JNum x) =
     (case num_int x of Some i \<Rightarrow> 0 \<le> i \<and> i \<le> MAX_TIME_FIELD_VALUE | None \<Rightarrow> False)"
| "isSafeNonNegative _ = False"

definition validateElapsedMilliseconds :: "json \<Rightarrow> string \<Rightarrow> verror list" where
  "validateElapsedMilliseconds v name = (if isSafeNonNegative v then [] else [NotSafeMs name])"

definition validateNonNegativeInteger :: "json \<Rightarrow> string \<Rightarrow> verror list" where
  "validateNonNegativeInteger v name = (if isBoundedNonNegativeInteger v then [] else [NotBoundedInt name])"

definition validateNullableNonNegativeInteger :: "json \<Rightarrow> string \<Rightarrow> verror list" where
  "validateNullableNonNegativeInteger v name =
     (if v \<noteq> JNull \<and> \<not> isBoundedNonNegativeInteger v then [NotBoundedIntOrNull name] else [])"

definition validateBoundedString :: "json \<Rightarrow> string \<Rightarrow> nat \<Rightarrow> verror list" where
  "validateBoundedString v name maxLength = (case v of
      JStr s \<Rightarrow> (if length s > maxLength then [TooLong name] else [])
    | _ \<Rightarrow> [NotAString name])"

text \<open>
  \<open>Date.parse\<close> belongs to the platform: \<open>parses\<close> says which strings it accepts, that is, for
  which it does not return NaN.
\<close>

definition validateNullableTimestamp :: "(jsstring \<Rightarrow> bool) \<Rightarrow> json \<Rightarrow> string \<Rightarrow> verror list" where
  "validateNullableTimestamp parses v name = (case v of
      JUndefined \<Rightarrow> [] | JNull \<Rightarrow> []
    | JStr s \<Rightarrow> (if parses s then [] else [NotTimestamp name])
    | _ \<Rightarrow> [NotTimestamp name])"

definition validateNullableB3 :: "json \<Rightarrow> string \<Rightarrow> verror list" where
  "validateNullableB3 v name = (if v \<noteq> JUndefined \<and> v \<noteq> JNull \<and> \<not> isB3Hash v then [NotB3 name] else [])"

fun isUuidJson :: "json \<Rightarrow> bool" where
  "isUuidJson (JStr s) = isUuid s"
| "isUuidJson _ = False"

section \<open>Events\<close>

definition EVENT_KEYS :: "string list" where
  "EVENT_KEYS = [''seq'', ''t'', ''op'', ''pos'', ''del_len'', ''ins_len'', ''source'']"

definition unknown_fields :: "string \<Rightarrow> string list \<Rightarrow> json \<Rightarrow> verror list" where
  "unknown_fields name allowed v =
     List.map (\<lambda>e. UnknownField name (fst e)) (filter (\<lambda>e. fst e \<notin> set (List.map js allowed)) (own_fields v))"

text \<open>\<open>typeof v === "number" && v !== 0\<close> and \<open>typeof v === "number" && v <= 0\<close>\<close>

fun number_nonzero :: "json \<Rightarrow> bool" where
  "number_nonzero (JNum x) = (\<not> num_eq x 0)"
| "number_nonzero _ = False"

fun number_nonpositive :: "json \<Rightarrow> bool" where
  "number_nonpositive (JNum x) = num_le x 0"
| "number_nonpositive _ = False"

fun json_equals_int :: "json \<Rightarrow> int \<Rightarrow> bool" where
  "json_equals_int (JNum x) n = num_eq x n"
| "json_equals_int _ n = False"

text \<open>An unknown position or size does not excuse a contradictory known size.\<close>

definition validateSizes :: "operation option \<Rightarrow> json \<Rightarrow> json \<Rightarrow> verror list" where
  "validateSizes op delLen insLen =
     (if op = Some OpInsert \<and> (number_nonzero delLen \<or> number_nonpositive insLen)
      then [InconsistentSizes OpInsert] else [])
     @ (if op = Some OpDelete \<and> (number_nonpositive delLen \<or> number_nonzero insLen)
        then [InconsistentSizes OpDelete] else [])
     @ (if op = Some OpReplace \<and> (number_nonpositive delLen \<or> number_nonpositive insLen)
        then [InconsistentSizes OpReplace] else [])"

definition validateEvent :: "json \<Rightarrow> int option \<Rightarrow> verror list" where
  "validateEvent event expectedSeq =
     (if \<not> isPlainObject event then [NotAnObject ''event'']
      else
        unknown_fields ''event'' EVENT_KEYS event
        @ validateNonNegativeInteger (field event ''seq'') ''seq''
        @ validateElapsedMilliseconds (field event ''t'') ''t''
        @ validateNullableNonNegativeInteger (field event ''pos'') ''pos''
        @ validateNullableNonNegativeInteger (field event ''del_len'') ''del_len''
        @ validateNullableNonNegativeInteger (field event ''ins_len'') ''ins_len''
        @ (case expectedSeq of None \<Rightarrow> []
           | Some n \<Rightarrow> if json_equals_int (field event ''seq'') n then [] else [SeqGap n])
        @ (if parse_enum op_name OPERATIONS (field event ''op'') = None then [NotOneOf ''op''] else [])
        @ (if parse_enum source_name SOURCES (field event ''source'') = None then [NotOneOf ''source''] else [])
        @ validateSizes (parse_enum op_name OPERATIONS (field event ''op''))
            (field event ''del_len'') (field event ''ins_len''))"

text \<open>
  \<open>validateEventLog\<close>: \<open>index\<close> and \<open>previousT\<close> are the loop's state. Only an integer \<open>t\<close> is
  compared and remembered.
\<close>

definition event_time :: "json \<Rightarrow> int option" where
  "event_time v = (if isPlainObject v then (case field v ''t'' of JNum x \<Rightarrow> num_int x | _ \<Rightarrow> None) else None)"

fun validate_events_from :: "nat \<Rightarrow> int \<Rightarrow> json list \<Rightarrow> verror list" where
  "validate_events_from index previousT [] = []"
| "validate_events_from index previousT (event # events) =
     List.map (At index) (validateEvent event (Some (int index)))
     @ (case event_time event of
          None \<Rightarrow> validate_events_from (Suc index) previousT events
        | Some t \<Rightarrow> (if t < previousT then [TimeDecreases index] else [])
                    @ validate_events_from (Suc index) t events)"

definition validateEventLog :: "json \<Rightarrow> verror list" where
  "validateEventLog events = (case events of
      JArr es \<Rightarrow> validate_events_from 0 (-1) es
    | _ \<Rightarrow> [NotAnArray ''event log''])"

section \<open>Text bindings, attestations, manifests\<close>

definition validateTextBinding :: "json \<Rightarrow> verror list" where
  "validateTextBinding binding =
     (if \<not> isPlainObject binding then [NotAnObject ''text_binding'']
      else
        unknown_fields ''text_binding'' [''scheme'', ''canonical_length'', ''commitment''] binding
        @ (if field binding ''scheme'' \<noteq> JStr TEXT_BINDING_SCHEME then [NotOneOf ''text_binding.scheme''] else [])
        @ validateNonNegativeInteger (field binding ''canonical_length'') ''text_binding.canonical_length''
        @ (if json_equals_int (field binding ''canonical_length'') 0
           then [MustBePositive ''text_binding.canonical_length''] else [])
        @ (if isB3Hash (field binding ''commitment'') then [] else [NotB3 ''text_binding.commitment'']))"

fun nonempty_string :: "json \<Rightarrow> bool" where
  "nonempty_string (JStr s) = (s \<noteq> [])"
| "nonempty_string _ = False"

definition validateAttestation :: "nat \<Rightarrow> json \<Rightarrow> verror list" where
  "validateAttestation index attestation = List.map (At index)
     (if \<not> isPlainObject attestation then [NotAnObject ''attestation'']
      else
        (if nonempty_string (field attestation ''type'') then [] else [EmptyString ''type''])
        @ (if length (own_fields attestation) > MAX_ATTESTATION_FIELD_COUNT then [TooMany ''fields''] else [])
        @ concat (List.map (\<lambda>(key, v).
              if length key > MAX_ATTESTATION_KEY_LENGTH then [TooLong ''field name'']
              else List.map (InField key) (validateBoundedString v ''value'' MAX_ATTESTATION_STRING_LENGTH))
            (own_fields attestation)))"

fun validate_attestations_from :: "nat \<Rightarrow> json list \<Rightarrow> verror list" where
  "validate_attestations_from index [] = []"
| "validate_attestations_from index (a # as) =
     validateAttestation index a @ validate_attestations_from (Suc index) as"

definition validateAttestations :: "json \<Rightarrow> verror list" where
  "validateAttestations attestations = (case attestations of
      JArr as \<Rightarrow> (if length as > MAX_ATTESTATION_COUNT then [TooMany ''attestations''] else [])
                  @ validate_attestations_from 0 as
    | _ \<Rightarrow> [NotAnArray ''attestations''])"

definition validateProducer :: "json \<Rightarrow> verror list" where
  "validateProducer producer =
     (if \<not> isPlainObject producer then [NotAnObject ''producer'']
      else
        unknown_fields ''producer'' [''id'', ''version'', ''capabilities''] producer
        @ validateBoundedString (field producer ''id'') ''producer.id'' MAX_PRODUCER_STRING_LENGTH
        @ validateBoundedString (field producer ''version'') ''producer.version'' MAX_PRODUCER_STRING_LENGTH
        @ (if nonempty_string (field producer ''id'') then [] else [EmptyString ''producer.id''])
        @ (if nonempty_string (field producer ''version'') then [] else [EmptyString ''producer.version''])
        @ (case field producer ''capabilities'' of
             JArr cs \<Rightarrow> (if length cs > length CAPABILITIES then [TooMany ''capabilities''] else [])
               @ concat (List.map (\<lambda>c. if parse_enum capability_name CAPABILITIES c = None
                                     then [NotOneOf ''producer capability''] else []) cs)
           | _ \<Rightarrow> [NotAnArray ''producer.capabilities'']))"

definition validateManifest :: "(jsstring \<Rightarrow> bool) \<Rightarrow> json \<Rightarrow> verror list" where
  "validateManifest parses m =
     (if \<not> isPlainObject m then [NotAnObject ''manifest'']
      else
        (let version = parse_enum version_name FORMAT_VERSIONS (field m ''format_version'') in
        (if version = None then [NotOneOf ''format_version''] else [])
        @ (if isB3Hash (field m ''record_hash'') then [] else [NotB3 ''record_hash''])
        @ (if isUuidJson (field m ''session_id'') then [] else [NotUuid ''session_id''])
        @ validateProducer (field m ''producer'')
        @ (if has_field m ''capture_context'' then [ForbiddenField ''capture_context''] else [])
        @ (if version = Some V0_1 \<and> has_field m ''text_binding'' then [ForbiddenField ''text_binding''] else [])
        @ (if (version = Some V0_2 \<or> version = Some V0_3) \<and> field m ''text_binding'' \<noteq> JUndefined
           then validateTextBinding (field m ''text_binding'') else [])
        @ validateNonNegativeInteger (field m ''event_count'') ''event_count''
        @ validateElapsedMilliseconds (field m ''duration_ms'') ''duration_ms''
        @ (if has_field m ''final_text_hash'' then [ForbiddenField ''final_text_hash''] else [])
        @ (if has_field m ''final_text_length'' then [ForbiddenField ''final_text_length''] else [])
        @ validateNullableTimestamp parses (field m ''created_client_t'') ''created_client_t''
        @ validateNullableTimestamp parses (field m ''ingested_server_t'') ''ingested_server_t''
        @ (if has_field m ''parent_record_hash'' then [ForbiddenField ''parent_record_hash''] else [])
        @ validateNullableB3 (field m ''parent_record'') ''parent_record''
        @ validateAttestations (field m ''attestations'')))"

section \<open>What acceptance means for typed values\<close>

definition in_int_range :: "int \<Rightarrow> bool" where
  "in_int_range i \<longleftrightarrow> 0 \<le> i \<and> i \<le> MAX_INTEGER_FIELD_VALUE"

definition in_ms_range :: "int \<Rightarrow> bool" where
  "in_ms_range i \<longleftrightarrow> 0 \<le> i \<and> i \<le> MAX_TIME_FIELD_VALUE"

definition nullable_range :: "int option \<Rightarrow> bool" where
  "nullable_range x \<longleftrightarrow> (\<forall>i \<in> set_option x. in_int_range i)"

fun consistent_sizes :: "operation \<Rightarrow> int option \<Rightarrow> int option \<Rightarrow> bool" where
  "consistent_sizes OpInsert d i \<longleftrightarrow> (\<forall>n \<in> set_option d. n = 0) \<and> (\<forall>n \<in> set_option i. 0 < n)"
| "consistent_sizes OpDelete d i \<longleftrightarrow> (\<forall>n \<in> set_option d. 0 < n) \<and> (\<forall>n \<in> set_option i. n = 0)"
| "consistent_sizes OpReplace d i \<longleftrightarrow> (\<forall>n \<in> set_option d. 0 < n) \<and> (\<forall>n \<in> set_option i. 0 < n)"

definition valid_event :: "mutation \<Rightarrow> bool" where
  "valid_event e \<longleftrightarrow> in_int_range (ev_seq e) \<and> in_ms_range (ev_t e)
     \<and> nullable_range (ev_pos e) \<and> nullable_range (ev_del_len e) \<and> nullable_range (ev_ins_len e)
     \<and> consistent_sizes (ev_op e) (ev_del_len e) (ev_ins_len e)"

text \<open>A valid log numbers its events from 0 without gaps and never goes back in time.\<close>

fun valid_from :: "nat \<Rightarrow> int \<Rightarrow> event_log \<Rightarrow> bool" where
  "valid_from n t0 [] = True"
| "valid_from n t0 (e # es) =
     (valid_event e \<and> ev_seq e = int n \<and> t0 \<le> ev_t e \<and> valid_from (Suc n) (ev_t e) es)"

definition valid_log :: "event_log \<Rightarrow> bool" where
  "valid_log es = valid_from 0 (-1) es"

lemma event_json_fields [simp]:
  "isPlainObject (event_json e)"
  "field (event_json e) ''seq'' = JNum (JInt (ev_seq e))"
  "field (event_json e) ''t'' = JNum (JInt (ev_t e))"
  "field (event_json e) ''op'' = JStr (js (op_name (ev_op e)))"
  "field (event_json e) ''pos'' = nullable_int (ev_pos e)"
  "field (event_json e) ''del_len'' = nullable_int (ev_del_len e)"
  "field (event_json e) ''ins_len'' = nullable_int (ev_ins_len e)"
  "field (event_json e) ''source'' = JStr (js (source_name (ev_source e)))"
  "unknown_fields ''event'' EVENT_KEYS (event_json e) = []"
  by (simp_all add: event_json_def field_def unknown_fields_def EVENT_KEYS_def)

lemma check_simps [valid_simps]:
  "validateNonNegativeInteger (JNum (JInt i)) n = [] \<longleftrightarrow> in_int_range i"
  "validateElapsedMilliseconds (JNum (JInt i)) n = [] \<longleftrightarrow> in_ms_range i"
  "validateNullableNonNegativeInteger (nullable_int x) n = [] \<longleftrightarrow> nullable_range x"
  by (cases x; simp add: validateNonNegativeInteger_def validateElapsedMilliseconds_def in_int_range_def
      in_ms_range_def validateNullableNonNegativeInteger_def nullable_range_def)+

lemma size_check_simps [simp]:
  "number_nonzero (nullable_int x) \<longleftrightarrow> \<not> (\<forall>n \<in> set_option x. n = 0)"
  "number_nonpositive (nullable_int x) \<longleftrightarrow> \<not> (\<forall>n \<in> set_option x. 0 < n)"
  by (cases x; simp add: num_eq_def; linarith?)+

lemma validateSizes_typed:
  "validateSizes (Some op) (nullable_int d) (nullable_int i) = [] \<longleftrightarrow> consistent_sizes op d i"
  by (cases op) (auto simp: validateSizes_def)

lemma validateEvent_Nil_iff:
  "validateEvent v expected = [] \<longleftrightarrow>
     isPlainObject v \<and> unknown_fields ''event'' EVENT_KEYS v = []
     \<and> validateNonNegativeInteger (field v ''seq'') ''seq'' = []
     \<and> validateElapsedMilliseconds (field v ''t'') ''t'' = []
     \<and> validateNullableNonNegativeInteger (field v ''pos'') ''pos'' = []
     \<and> validateNullableNonNegativeInteger (field v ''del_len'') ''del_len'' = []
     \<and> validateNullableNonNegativeInteger (field v ''ins_len'') ''ins_len'' = []
     \<and> (\<forall>n. expected = Some n \<longrightarrow> json_equals_int (field v ''seq'') n)
     \<and> (\<exists>op src. parse_enum op_name OPERATIONS (field v ''op'') = Some op
          \<and> parse_enum source_name SOURCES (field v ''source'') = Some src
          \<and> validateSizes (Some op) (field v ''del_len'') (field v ''ins_len'') = [])"
proof -
  have o: "(case expected of None \<Rightarrow> [] | Some n \<Rightarrow> if json_equals_int (field v ''seq'') n then [] else [SeqGap n]) = []
     \<longleftrightarrow> (\<forall>n. expected = Some n \<longrightarrow> json_equals_int (field v ''seq'') n)"
    by (cases expected) auto
  show ?thesis
    unfolding validateEvent_def by (simp only: append_is_Nil_conv o if_split_eq1) fastforce
qed

lemma validateEvent_typed [valid_simps]:
  "validateEvent (event_json e) expected = []
     \<longleftrightarrow> valid_event e \<and> (\<forall>n. expected = Some n \<longrightarrow> ev_seq e = n)"
  by (auto simp: validateEvent_Nil_iff valid_event_def check_simps num_eq_def validateSizes_typed)

lemma event_time_typed [simp]: "event_time (event_json e) = Some (ev_t e)"
  by (simp add: event_time_def)

lemma validate_events_from_typed:
  "validate_events_from n t0 (List.map event_json es) = [] \<longleftrightarrow> valid_from n t0 es"
  by (induction es arbitrary: n t0) (auto simp: validateEvent_typed)

lemma validateEventLog_typed [valid_simps]:
  "validateEventLog (JArr (List.map event_json es)) = [] \<longleftrightarrow> valid_log es"
  by (simp add: validateEventLog_def valid_log_def validate_events_from_typed)

lemma valid_from_append:
  "valid_from n t0 (es @ fs) \<longleftrightarrow> valid_from n t0 es \<and>
     valid_from (n + length es) (if es = [] then t0 else ev_t (last es)) fs"
  by (induction es arbitrary: n t0) auto

lemma valid_from_nth:
  "valid_from n t0 es \<Longrightarrow> i < length es \<Longrightarrow> valid_event (es ! i) \<and> ev_seq (es ! i) = int (n + i)"
  by (induction es arbitrary: n t0 i) (auto simp: nth_Cons split: nat.splits)

lemma valid_from_times:
  "valid_from n t0 es \<Longrightarrow> sorted_wrt (\<le>) (t0 # List.map ev_t es)"
  by (induction es arbitrary: n t0) (auto intro: order_trans)

lemma valid_log_nth:
  "valid_log es \<Longrightarrow> i < length es \<Longrightarrow> valid_event (es ! i) \<and> ev_seq (es ! i) = int i"
  using valid_from_nth [of 0 "-1" es i] by (simp add: valid_log_def)

lemma valid_from_iff:
  "valid_from n t0 es \<longleftrightarrow> (\<forall>i < length es. valid_event (es ! i) \<and> ev_seq (es ! i) = int (n + i))
     \<and> sorted_wrt (\<le>) (t0 # List.map ev_t es)"
proof (induction es arbitrary: n t0)
  case (Cons e es)
  then show ?case by (auto simp: All_less_Suc2 intro: order_trans)
qed simp

lemma valid_log_iff:
  "valid_log es \<longleftrightarrow> (\<forall>i < length es. valid_event (es ! i) \<and> ev_seq (es ! i) = int i)
     \<and> sorted_wrt (\<le>) (List.map ev_t es)"
proof -
  have "-1 \<le> ev_t e" if "valid_event e" for e using that by (simp add: valid_event_def in_ms_range_def)
  then show ?thesis by (auto simp: valid_log_def valid_from_iff in_set_conv_nth)
qed

section \<open>Parsing: what acceptance means for unknown values\<close>

fun nullable_of_json :: "json \<Rightarrow> int option" where
  "nullable_of_json (JNum x) = num_int x"
| "nullable_of_json _ = None"

definition int_of_json :: "json \<Rightarrow> int" where
  "int_of_json v = (case nullable_of_json v of Some i \<Rightarrow> i | None \<Rightarrow> 0)"

text \<open>The mutation an accepted object is read as, through its typed fields.\<close>

definition event_of_json :: "json \<Rightarrow> mutation option" where
  "event_of_json v = (case (parse_enum op_name OPERATIONS (field v ''op''),
                            parse_enum source_name SOURCES (field v ''source'')) of
      (Some op, Some src) \<Rightarrow> Some \<lparr>
        ev_seq = int_of_json (field v ''seq''), ev_t = int_of_json (field v ''t''), ev_op = op,
        ev_pos = nullable_of_json (field v ''pos''), ev_del_len = nullable_of_json (field v ''del_len''),
        ev_ins_len = nullable_of_json (field v ''ins_len''), ev_source = src\<rparr>
    | _ \<Rightarrow> None)"

lemma event_of_event_json: "event_of_json (event_json e) = Some e"
proof -
  have "nullable_of_json (nullable_int x) = x" for x by (cases x) auto
  then show ?thesis by (simp add: event_of_json_def int_of_json_def)
qed

lemma accepted_int:
  "validateNonNegativeInteger v n = [] \<Longrightarrow>
     \<exists>x i. v = JNum x \<and> num_int x = Some i \<and> int_of_json v = i \<and> in_int_range i"
  by (cases v) (auto simp: validateNonNegativeInteger_def int_of_json_def in_int_range_def
      split: if_splits option.splits)

lemma accepted_ms:
  "validateElapsedMilliseconds v n = [] \<Longrightarrow>
     \<exists>x i. v = JNum x \<and> num_int x = Some i \<and> int_of_json v = i \<and> in_ms_range i"
  by (cases v) (auto simp: validateElapsedMilliseconds_def int_of_json_def in_ms_range_def
      split: if_splits option.splits)

lemma accepted_nullable:
  "validateNullableNonNegativeInteger v n = [] \<Longrightarrow>
     nullable_range (nullable_of_json v) \<and>
     number_nonzero v = number_nonzero (nullable_int (nullable_of_json v)) \<and>
     number_nonpositive v = number_nonpositive (nullable_int (nullable_of_json v))"
  by (cases v) (auto simp: validateNullableNonNegativeInteger_def nullable_range_def in_int_range_def
      num_eq_def num_le_integer split: if_splits option.splits)

lemma accepted_sizes:
  assumes "validateNullableNonNegativeInteger d n = []" and "validateNullableNonNegativeInteger i m = []"
    and "validateSizes (Some op) d i = []"
  shows "consistent_sizes op (nullable_of_json d) (nullable_of_json i)"
proof -
  have "validateSizes (Some op) (nullable_int (nullable_of_json d)) (nullable_int (nullable_of_json i)) = []"
    using assms(3) accepted_nullable [OF assms(1)] accepted_nullable [OF assms(2)]
    by (simp add: validateSizes_def)
  then show ?thesis by (simp add: validateSizes_typed)
qed

lemma accepted_event:
  assumes "validateEvent v expected = []"
  shows "\<exists>e. event_of_json v = Some e \<and> valid_event e \<and> (\<forall>n. expected = Some n \<longrightarrow> ev_seq e = n)"
proof -
  note a = assms [unfolded validateEvent_Nil_iff]
  from a have seq: "validateNonNegativeInteger (field v ''seq'') ''seq'' = []"
    and t: "validateElapsedMilliseconds (field v ''t'') ''t'' = []"
    and pos: "validateNullableNonNegativeInteger (field v ''pos'') ''pos'' = []"
    and dl: "validateNullableNonNegativeInteger (field v ''del_len'') ''del_len'' = []"
    and il: "validateNullableNonNegativeInteger (field v ''ins_len'') ''ins_len'' = []"
    and gap: "\<And>n. expected = Some n \<Longrightarrow> json_equals_int (field v ''seq'') n"
    by blast+
  from a obtain op src where op: "parse_enum op_name OPERATIONS (field v ''op'') = Some op"
    and src: "parse_enum source_name SOURCES (field v ''source'') = Some src"
    and sz: "validateSizes (Some op) (field v ''del_len'') (field v ''ins_len'') = []" by blast
  show ?thesis
    using accepted_int [OF seq] accepted_ms [OF t] accepted_nullable [OF pos] accepted_nullable [OF dl]
      accepted_nullable [OF il] accepted_sizes [OF dl il sz] op src gap
    by (auto simp: event_of_json_def valid_event_def num_eq_def)
qed

lemma accepted_event_time:
  assumes "validateEvent v expected = []" and "event_of_json v = Some e"
  shows "event_time v = Some (ev_t e)"
proof -
  from assms(1) have plain: "isPlainObject v" and t: "validateElapsedMilliseconds (field v ''t'') ''t'' = []"
    by (simp_all add: validateEvent_Nil_iff)
  obtain x i where "field v ''t'' = JNum x" "num_int x = Some i" "int_of_json (field v ''t'') = i"
    using accepted_ms [OF t] by auto
  with plain assms(2) show ?thesis
    by (auto simp: event_time_def event_of_json_def split: option.splits)
qed

lemma accepted_events_from:
  "validate_events_from n t0 vs = [] \<Longrightarrow> \<exists>es. List.map event_of_json vs = List.map Some es \<and> valid_from n t0 es"
proof (induction vs arbitrary: n t0)
  case (Cons v vs)
  from Cons.prems have ok: "validateEvent v (Some (int n)) = []" by simp
  from accepted_event [OF ok] obtain e where e: "event_of_json v = Some e" "valid_event e" "ev_seq e = int n" by auto
  from Cons.prems accepted_event_time [OF ok e(1)] have t: "t0 \<le> ev_t e" "validate_events_from (Suc n) (ev_t e) vs = []"
    by (auto split: if_splits)
  from Cons.IH [OF t(2)] obtain es where "List.map event_of_json vs = List.map Some es" "valid_from (Suc n) (ev_t e) es"
    by blast
  with e t(1) show ?case by (intro exI [of _ "e # es"]) simp
qed simp

section \<open>Properties\<close>

text \<open>The event log validator is exact on well-typed logs: it reports no error exactly when every
  event has its fields in range and sizes consistent with its operation, the sequence numbers
  count up from 0 without a gap, and time never goes back.\<close>

theorem event_log_validator_exact:
  "validateEventLog (JArr (List.map event_json es)) = [] \<longleftrightarrow>
     list_all valid_event es \<and> List.map ev_seq es = List.map int [0..<length es] \<and> sorted_wrt (\<le>) (List.map ev_t es)"
  unfolding validateEventLog_typed valid_log_iff list_all_length list_eq_iff_nth_eq [of "List.map ev_seq es"]
  by auto

text \<open>C37: Accepted input is well typed. Whatever JSON value \<open>validateEventLog\<close> accepts is an array each
  of whose entries reads as a mutation, and the log so read is valid.\<close>

theorem accepted_log_decodes:
  assumes "validateEventLog v = []"
  shows "\<exists>vs es. v = JArr vs \<and> List.map event_of_json vs = List.map Some es \<and> valid_log es"
  using assms accepted_events_from [of 0 "-1"]
  by (cases v) (auto simp: validateEventLog_def valid_log_def)

definition sample_raw_event :: json where
  "sample_raw_event = JObj [(js ''t'', JNum JNegZero), (js ''seq'', JNum (JInt 0)), (js ''op'', JStr (js ''delete'')),
     (js ''pos'', JNull), (js ''del_len'', JNum (JInt 2)), (js ''ins_len'', JNull), (js ''source'', JStr (js ''cut''))]"

lemma accepted_log_decodes_witness:
  "\<exists>vs es. JArr [sample_raw_event] = JArr vs \<and> List.map event_of_json vs = List.map Some es \<and> valid_log es"
proof (rule accepted_log_decodes)
  show "validateEventLog (JArr [sample_raw_event]) = []" by code_simp
qed

end
