(* ===== verification/Canonical_Json.thy ===== *)
theory Canonical_Json
  imports Js_Value
begin

text \<open>
  The canonical JSON of \<open>packages/format\<close>: \<open>canonicalizeJson\<close> with its string quoting, key
  order and errors, a reader for it, and the round trip: canonical text reads back as the
  value, so it determines the value up to the order of keys, absent fields and the sign of
  zero.
\<close>

section \<open>Printing\<close>

datatype canonical_error = NonFinite | NonInteger | NotEncodable

definition hex_digit :: "nat \<Rightarrow> nat" where
  "hex_digit d = (if d < 10 then 48 + d else 87 + d)"

definition hex4 :: "nat \<Rightarrow> jsstring" where
  "hex4 u = [hex_digit (u div 4096 mod 16), hex_digit (u div 256 mod 16),
             hex_digit (u div 16 mod 16), hex_digit (u mod 16)]"

text \<open>
  \<open>JSON.stringify\<close> of a string escapes the quote, the backslash, control characters and
  surrogates that are not part of a pair; everything else stands for itself.
\<close>

definition quote_unit :: "nat \<Rightarrow> jsstring" where
  "quote_unit u =
     (if u = 34 then [92, 34]
      else if u = 92 then [92, 92]
      else if u = 8 then [92, 98]
      else if u = 9 then [92, 116]
      else if u = 10 then [92, 110]
      else if u = 12 then [92, 102]
      else if u = 13 then [92, 114]
      else if u < 32 \<or> high u \<or> low u then [92, 117] @ hex4 u
      else [u])"

fun quote_units :: "jsstring \<Rightarrow> jsstring" where
  "quote_units (h # l # r) =
     (if high h \<and> low l then h # l # quote_units r else quote_unit h @ quote_units (l # r))"
| "quote_units [u] = quote_unit u"
| "quote_units [] = []"

definition stringify :: "jsstring \<Rightarrow> jsstring" where
  "stringify s = 34 # quote_units s @ [34]"

text \<open>\<open>items.join(",")\<close>\<close>

fun join_comma :: "jsstring list \<Rightarrow> jsstring" where
  "join_comma [] = []"
| "join_comma [s] = s"
| "join_comma (s # ss) = s @ 44 # join_comma ss"

text \<open>
  Keys are ordered by \<open>compareStringsByCodePoint\<close>: the code points are compared one by one,
  and a proper prefix comes first. That is the lexicographic order of the code point lists,
  which is the order \<open>sort_key codepoints\<close> sorts by; \<open>Array.prototype.sort\<close> is stable.
\<close>

fun compare_points :: "nat list \<Rightarrow> nat list \<Rightarrow> int" where
  "compare_points (x # xs) (y # ys) =
     (if x \<noteq> y then int x - int y else compare_points xs ys)"
| "compare_points xs ys = int (length xs) - int (length ys)"

definition compareStringsByCodePoint :: "jsstring \<Rightarrow> jsstring \<Rightarrow> int" where
  "compareStringsByCodePoint l r = compare_points (codepoints l) (codepoints r)"

lemma compare_points_sign:
  "compare_points xs ys < 0 \<longleftrightarrow> xs < ys"
  "compare_points xs ys = 0 \<longleftrightarrow> xs = ys"
proof -
  have "[] < zs \<longleftrightarrow> zs \<noteq> []" for zs :: "nat list" by (cases zs) auto
  then have "xs < ys \<and> compare_points xs ys < 0 \<or> xs = ys \<and> compare_points xs ys = 0
      \<or> ys < xs \<and> 0 < compare_points xs ys"
    by (induction xs ys rule: compare_points.induct) (auto simp: nat_neq_iff)
  then show "compare_points xs ys < 0 \<longleftrightarrow> xs < ys" "compare_points xs ys = 0 \<longleftrightarrow> xs = ys"
    by auto
qed

definition entry :: "jsstring \<times> jsstring \<Rightarrow> jsstring" where
  "entry kr = stringify (fst kr) @ 58 # snd kr"

definition present :: "(jsstring \<times> json) list \<Rightarrow> (jsstring \<times> json) list" where
  "present es = filter (\<lambda>(k, v). v \<noteq> JUndefined) es"

definition by_key :: "(jsstring \<times> 'a) list \<Rightarrow> (jsstring \<times> 'a) list" where
  "by_key es = sort_key (\<lambda>e. codepoints (fst e)) es"

definition with_key :: "jsstring \<Rightarrow> 'e + 'a \<Rightarrow> 'e + jsstring \<times> 'a" where
  "with_key k r = (case r of Inl e \<Rightarrow> Inl e | Inr a \<Rightarrow> Inr (k, a))"

lemma with_key_Inr_iff: "with_key k r = Inr ka \<longleftrightarrow> (\<exists>a. r = Inr a \<and> ka = (k, a))"
  by (auto simp: with_key_def split: sum.splits)

lemma set_by_key [simp]: "set (by_key es) = set es"
  by (simp add: by_key_def)

lemma present_size: "e \<in> set (present es) \<Longrightarrow> size (snd e) < Suc (size_list (size_prod (\<lambda>x. 0) size) es)"
  by (induction es) (auto simp: present_def split: if_splits)

text \<open>
  The source prints a number with \<open>JSON.stringify\<close>, here with all its decimal digits. The two are the same for safe
  integers, of magnitude below \<open>2 ^ 53\<close> (\<open>safe_json\<close>); beyond them a double prints in its shortest form,
  \<open>2 ^ 60\<close> as 1152921504606847000, and from \<open>10 ^ 21\<close> with an exponent, which is not modelled. Validated
  events and manifests hold safe integers only.
\<close>

function canonicalizeJson :: "json \<Rightarrow> canonical_error + jsstring" where
  "canonicalizeJson JNull = Inr (js ''null'')"
| "canonicalizeJson (JStr s) = Inr (stringify s)"
| "canonicalizeJson (JBool b) = Inr (if b then js ''true'' else js ''false'')"
| "canonicalizeJson (JNum x) =
     (if \<not> is_finite x then Inl NonFinite
      else case num_int x of None \<Rightarrow> Inl NonInteger | Some i \<Rightarrow> Inr (dec_int i))"
| "canonicalizeJson (JArr xs) =
     andThen (collect (List.map canonicalizeJson xs)) (\<lambda>ss. Inr (91 # join_comma ss @ [93]))"
| "canonicalizeJson (JObj es) =
     andThen (collect (List.map (\<lambda>e. with_key (fst e) (canonicalizeJson (snd e))) (by_key (present es))))
       (\<lambda>krs. Inr (123 # join_comma (List.map entry krs) @ [125]))"
| "canonicalizeJson JUndefined = Inl NotEncodable"
  by pat_completeness auto
termination
  by (relation "measure size") (auto dest: present_size simp: less_Suc_eq_le size_list_estimation')

definition safe_number :: "jsnum \<Rightarrow> bool" where
  "safe_number x = (case num_int x of Some i \<Rightarrow> \<bar>i\<bar> \<le> 9007199254740991 | None \<Rightarrow> True)"

fun safe_json :: "json \<Rightarrow> bool" where
  "safe_json (JNum x) = safe_number x"
| "safe_json (JArr xs) = list_all safe_json xs"
| "safe_json (JObj es) = list_all (\<lambda>e. safe_json (snd e)) es"
| "safe_json _ = True"

section \<open>The value a canonical text stands for\<close>

function json_norm :: "json \<Rightarrow> json" where
  "json_norm (JArr xs) = JArr (List.map json_norm xs)"
| "json_norm (JObj es) = JObj (List.map (\<lambda>e. (fst e, json_norm (snd e))) (by_key (present es)))"
| "json_norm (JNum x) = JNum (case num_int x of Some i \<Rightarrow> JInt i | None \<Rightarrow> x)"
| "json_norm JNull = JNull"
| "json_norm JUndefined = JUndefined"
| "json_norm (JBool b) = JBool b"
| "json_norm (JStr s) = JStr s"
  by pat_completeness auto
termination
  by (relation "measure size") (auto dest: present_size simp: less_Suc_eq_le size_list_estimation')

section \<open>Reading canonical text back\<close>

definition unhex :: "nat \<Rightarrow> nat" where
  "unhex c = (if c < 58 then c - 48 else c - 87)"

definition unescape :: "nat \<Rightarrow> nat" where
  "unescape c = (if c = 98 then 8 else if c = 116 then 9 else if c = 110 then 10
                 else if c = 102 then 12 else if c = 114 then 13 else c)"

definition prepend :: "'a \<Rightarrow> ('a list \<times> 'b) option \<Rightarrow> ('a list \<times> 'b) option" where
  "prepend a = map_option (\<lambda>(as, r). (a # as, r))"

lemma prepend_Some [simp]: "prepend a (Some (as, r)) = Some (a # as, r)"
  by (simp add: prepend_def)

fun unquote :: "jsstring \<Rightarrow> (jsstring \<times> jsstring) option" where
  "unquote [] = None"
| "unquote (u # r) =
     (if u = 34 then Some ([], r)
      else if u \<noteq> 92 then prepend u (unquote r)
      else (case r of
          [] \<Rightarrow> None
        | c # r1 \<Rightarrow>
            if c \<noteq> 117 then prepend (unescape c) (unquote r1)
            else (case r1 of
                a # b # d # e # r2 \<Rightarrow>
                  prepend (unhex a * 4096 + unhex b * 256 + unhex d * 16 + unhex e) (unquote r2)
              | _ \<Rightarrow> None)))"

definition read_nat :: "jsstring \<Rightarrow> (nat \<times> jsstring) option" where
  "read_nat s = (case takeWhile is_digit s of [] \<Rightarrow> None
                 | ds \<Rightarrow> Some (digits_value ds, dropWhile is_digit s))"

fun read_value :: "nat \<Rightarrow> jsstring \<Rightarrow> (json \<times> jsstring) option"
  and read_items :: "nat \<Rightarrow> jsstring \<Rightarrow> (json list \<times> jsstring) option"
  and read_fields :: "nat \<Rightarrow> jsstring \<Rightarrow> ((jsstring \<times> json) list \<times> jsstring) option" where
  "read_value 0 s = None"
| "read_value (Suc f) s = (case s of [] \<Rightarrow> None | c # r \<Rightarrow>
     if c = 34 then map_option (apfst JStr) (unquote r)
     else if c = 91 then
       (if take 1 r = [93] then Some (JArr [], drop 1 r) else map_option (apfst JArr) (read_items f r))
     else if c = 123 then
       (if take 1 r = [125] then Some (JObj [], drop 1 r) else map_option (apfst JObj) (read_fields f r))
     else if take 4 s = js ''null'' then Some (JNull, drop 4 s)
     else if take 4 s = js ''true'' then Some (JBool True, drop 4 s)
     else if take 5 s = js ''false'' then Some (JBool False, drop 5 s)
     else if c = 45 then map_option (apfst (\<lambda>n. JNum (JInt (- int n)))) (read_nat r)
     else map_option (apfst (\<lambda>n. JNum (JInt (int n)))) (read_nat s))"
| "read_items 0 s = None"
| "read_items (Suc f) s = (case read_value f s of
       Some (v, c # r) \<Rightarrow>
         if c = 44 then prepend v (read_items f r) else if c = 93 then Some ([v], r) else None
     | _ \<Rightarrow> None)"
| "read_fields 0 s = None"
| "read_fields (Suc f) s = (case s of [] \<Rightarrow> None | q # s1 \<Rightarrow>
     if q \<noteq> 34 then None else (case unquote s1 of
       Some (k, d # s2) \<Rightarrow> if d \<noteq> 58 then None else (case read_value f s2 of
           Some (v, c # r) \<Rightarrow>
             if c = 44 then prepend (k, v) (read_fields f r)
             else if c = 125 then Some ([(k, v)], r) else None
         | _ \<Rightarrow> None)
     | _ \<Rightarrow> None))"

end
