(* ===== verification/Canonical_Roundtrip.thy ===== *)
theory Canonical_Roundtrip
  imports Canonical_Json
begin

text \<open>
  The reader inverts the printer: quoting, numbers, and by induction over the value whole
  canonical texts. Injectivity of \<open>canonicalizeJson\<close> up to \<open>json_norm\<close> follows, and its
  converse: values with the same normal form print the same text.
\<close>

section \<open>Quoting\<close>

lemma unhex_hex_digit: "d < 16 \<Longrightarrow> unhex (hex_digit d) = d"
  by (auto simp: unhex_def hex_digit_def)

lemma unhex_hex4:
  assumes "u < 65536"
  shows "unhex (hex_digit (u div 4096 mod 16)) * 4096 + unhex (hex_digit (u div 256 mod 16)) * 256
         + unhex (hex_digit (u div 16 mod 16)) * 16 + unhex (hex_digit (u mod 16)) = u"
proof -
  define a b c where "a = u div 16" and "b = a div 16" and "c = b div 16"
  have e: "u div 256 = b" "u div 4096 = c" by (simp_all add: a_def b_def c_def flip: div_mult2_eq)
  have m: "c mod 16 = c" using assms by (simp add: a_def b_def c_def flip: div_mult2_eq)
  have "u = 16 * a + u mod 16" "a = 16 * b + a mod 16" "b = 16 * c + b mod 16"
    by (simp_all add: a_def b_def c_def)
  then have "u div 4096 mod 16 * 4096 + u div 256 mod 16 * 256 + u div 16 mod 16 * 16 + u mod 16 = u"
    unfolding e m a_def [symmetric] by linarith
  moreover have "unhex (hex_digit (x mod 16)) = x mod 16" for x by (simp add: unhex_hex_digit)
  ultimately show ?thesis by (simp only:)
qed

lemma unquote_quote_unit: "unquote (quote_unit u @ r) = prepend u (unquote r)"
proof (cases "u < 32 \<or> high u \<or> low u")
  case True
  then have "u < 65536" by (auto simp: high_def low_def)
  note h = unhex_hex4 [OF this]
  show ?thesis
  proof (cases "u \<in> {8, 9, 10, 12, 13}")
    case False
    with True have "quote_unit u = [92, 117] @ hex4 u"
      by (auto simp: quote_unit_def high_def low_def)
    then show ?thesis by (simp add: hex4_def h)
  qed (auto simp: quote_unit_def unescape_def)
next
  case False
  then have "quote_unit u = (if u = 34 then [92, 34] else if u = 92 then [92, 92] else [u])"
    by (auto simp: quote_unit_def)
  then show ?thesis by (simp add: unescape_def)
qed

lemma unquote_pair: "high h \<Longrightarrow> low l \<Longrightarrow> unquote (h # l # r) = prepend h (prepend l (unquote r))"
  by (auto simp: high_def low_def)

lemma unquote_quote_units: "unquote (quote_units s @ 34 # r) = Some (s, r)"
proof (induction s rule: quote_units.induct)
  case (1 h l s)
  then show ?case by (cases "high h \<and> low l") (auto simp: unquote_pair unquote_quote_unit simp del: unquote.simps)
qed (simp_all add: unquote_quote_unit)

text \<open>Quoting never leaves a lone surrogate behind, and escapes every quote and control character.\<close>

lemma quote_units_inj: "quote_units s = quote_units s' \<Longrightarrow> s = s'"
  by (metis unquote_quote_units option.inject prod.inject)

section \<open>Numbers\<close>

definition ends_number :: "jsstring \<Rightarrow> bool" where
  "ends_number r = (case r of [] \<Rightarrow> True | c # _ \<Rightarrow> \<not> is_digit c)"

lemma ends_number_simps [simp]:
  "ends_number []"
  "ends_number (c # r) \<longleftrightarrow> \<not> is_digit c"
  by (simp_all add: ends_number_def)

lemma read_nat_dec_nat: "ends_number r \<Longrightarrow> read_nat (dec_nat n @ r) = Some (n, r)"
proof -
  assume r: "ends_number r"
  have d: "\<And>d. d \<in> set (dec_nat n) \<Longrightarrow> is_digit d" by (rule dec_nat_digits)
  have "takeWhile is_digit (dec_nat n @ r) = dec_nat n" "dropWhile is_digit (dec_nat n @ r) = r"
    using d r by (cases r; auto simp: takeWhile_append dropWhile_append)+
  then have "read_nat (dec_nat n @ r) = (case dec_nat n of [] \<Rightarrow> None | ds \<Rightarrow> Some (digits_value ds, r))"
    by (simp only: read_nat_def)
  moreover obtain d ds where "dec_nat n = d # ds" using dec_nat_hd by blast
  moreover from this have "digits_value (d # ds) = n" using digits_value_dec_nat [of n] by simp
  ultimately show ?thesis by simp
qed

lemmas read_simps = read_value.simps read_items.simps read_fields.simps
declare read_simps [simp del]

lemma entry_simp [simp]: "entry (k, s) = 34 # quote_units k @ 34 # 58 # s"
  by (simp add: entry_def stringify_def)

lemma read_value_array:
  "read_value (Suc f) (91 # r) =
     (if take 1 r = [93] then Some (JArr [], drop 1 r) else map_option (apfst JArr) (read_items f r))"
  by (simp add: read_value.simps)

lemma read_value_object:
  "read_value (Suc f) (123 # r) =
     (if take 1 r = [125] then Some (JObj [], drop 1 r) else map_option (apfst JObj) (read_fields f r))"
  by (simp add: read_value.simps)

lemma read_value_literals:
  "read_value (Suc f) (js ''null'' @ r) = Some (JNull, r)"
  "read_value (Suc f) (js ''true'' @ r) = Some (JBool True, r)"
  "read_value (Suc f) (js ''false'' @ r) = Some (JBool False, r)"
  by (simp_all add: read_value.simps)

lemma read_items_last:
  "read_value f t = Some (v, 93 # r) \<Longrightarrow> read_items (Suc f) t = Some ([v], r)"
  by (simp add: read_items.simps)

lemma read_items_more:
  "read_value f t = Some (v, 44 # t') \<Longrightarrow> read_items (Suc f) t = prepend v (read_items f t')"
  by (simp add: read_items.simps)

lemma read_fields_last:
  "read_value f t = Some (v, 125 # r)
     \<Longrightarrow> read_fields (Suc f) (34 # quote_units k @ 34 # 58 # t) = Some ([(k, v)], r)"
  by (simp add: read_fields.simps unquote_quote_units del: unquote.simps)

lemma read_fields_more:
  "read_value f t = Some (v, 44 # t')
     \<Longrightarrow> read_fields (Suc f) (34 # quote_units k @ 34 # 58 # t) = prepend (k, v) (read_fields f t')"
  by (simp add: read_fields.simps unquote_quote_units del: unquote.simps)

section \<open>First characters\<close>

lemma stringify_hd: "stringify s = 34 # quote_units s @ [34]"
  by (simp add: stringify_def)

lemma read_value_Suc_stringify: "read_value (Suc f) (stringify s @ r) = Some (JStr s, r)"
  by (simp add: read_value.simps stringify_def unquote_quote_units del: unquote.simps)

lemma read_value_Suc_dec_int:
  assumes "ends_number r"
  shows "read_value (Suc f) (dec_int i @ r) = Some (JNum (JInt i), r)"
proof (cases "i < 0")
  case True
  then show ?thesis using assms
    by (simp add: read_value.simps dec_int_def read_nat_dec_nat)
next
  case False
  obtain d ds where n: "dec_nat (nat i) = d # ds" and d: "is_digit d" using dec_nat_hd by blast
  have "read_nat (d # ds @ r) = Some (nat i, r)"
    using read_nat_dec_nat [OF assms, of "nat i"] n by simp
  with False n d show ?thesis
    by (auto simp: read_value.simps dec_int_def is_digit_def)
qed

lemma dec_int_hd: "\<exists>c cs. dec_int i = c # cs \<and> (is_digit c \<or> c = 45)"
  using dec_nat_hd [of "nat i"] by (auto simp: dec_int_def)

lemma canonicalizeJson_hd:
  "canonicalizeJson v = Inr s \<Longrightarrow> \<exists>c cs. s = c # cs \<and> c \<noteq> 93 \<and> c \<noteq> 125"
proof (cases v)
  case (JNum x)
  assume "canonicalizeJson v = Inr s"
  with JNum obtain i where "s = dec_int i" by (auto split: if_splits option.splits)
  then show ?thesis using dec_int_hd [of i] by (auto simp: is_digit_def)
qed (auto simp: stringify_def andThen_Inr_iff split: if_splits)

section \<open>Whole values\<close>

lemma join_comma_Cons2: "ss \<noteq> [] \<Longrightarrow> join_comma (s # ss) = s @ 44 # join_comma ss"
  by (cases ss) auto

lemma read_items_join:
  assumes "\<And>x s r f. x \<in> set xs \<Longrightarrow> canonicalizeJson x = Inr s \<Longrightarrow> ends_number r
             \<Longrightarrow> 2 * length s \<le> f \<Longrightarrow> read_value f (s @ r) = Some (json_norm x, r)"
    and "List.map canonicalizeJson xs = List.map Inr ss" and "xs \<noteq> []"
    and "2 * length (join_comma ss) + 1 \<le> f"
  shows "read_items f (join_comma ss @ 93 # r) = Some (List.map json_norm xs, r)"
  using assms
proof (induction xs arbitrary: ss f)
  case (Cons x xs)
  obtain s ss' where ss: "ss = s # ss'" and s: "canonicalizeJson x = Inr s"
    and m: "List.map canonicalizeJson xs = List.map Inr ss'"
    using Cons.prems(2) by (cases ss) auto
  obtain f' where f: "f = Suc f'" using Cons.prems(4) by (cases f) auto
  show ?case
  proof (cases "xs = []")
    case True
    then have "ss' = []" using m by simp
    moreover have "2 * length s \<le> f'" using Cons.prems(4) ss f \<open>ss' = []\<close> by simp
    moreover from this have "read_value f' (s @ 93 # r) = Some (json_norm x, 93 # r)"
      using Cons.prems(1) [OF _ s, of "93 # r" f'] by (simp add: is_digit_def)
    ultimately show ?thesis using ss f True by (simp add: read_items_last)
  next
    case False
    then have ne: "ss' \<noteq> []" using m by auto
    have len: "2 * length s \<le> f'" "2 * length (join_comma ss') + 1 \<le> f'"
      using Cons.prems(4) ss f ne by (auto simp: join_comma_Cons2)
    have "read_value f' (s @ 44 # join_comma ss' @ 93 # r) = Some (json_norm x, 44 # join_comma ss' @ 93 # r)"
      using Cons.prems(1) [OF _ s, of "44 # join_comma ss' @ 93 # r" f'] len by (simp add: is_digit_def)
    moreover have "read_items f' (join_comma ss' @ 93 # r) = Some (List.map json_norm xs, r)"
      using Cons.IH [OF _ m False len(2)] Cons.prems(1) by auto
    ultimately show ?thesis using ss f ne by (simp add: join_comma_Cons2 read_items_more)
  qed
qed simp

lemma read_fields_join:
  assumes "\<And>e s r f. e \<in> set es \<Longrightarrow> canonicalizeJson (snd e) = Inr s \<Longrightarrow> ends_number r
             \<Longrightarrow> 2 * length s \<le> f \<Longrightarrow> read_value f (s @ r) = Some (json_norm (snd e), r)"
    and "List.map (\<lambda>e. with_key (fst e) (canonicalizeJson (snd e))) es = List.map Inr krs" and "es \<noteq> []"
    and "2 * length (join_comma (List.map entry krs)) + 1 \<le> f"
  shows "read_fields f (join_comma (List.map entry krs) @ 125 # r)
           = Some (List.map (\<lambda>e. (fst e, json_norm (snd e))) es, r)"
  using assms
proof (induction es arbitrary: krs f)
  case (Cons e es)
  obtain s krs' where krs: "krs = (fst e, s) # krs'" and s: "canonicalizeJson (snd e) = Inr s"
    and m: "List.map (\<lambda>e. with_key (fst e) (canonicalizeJson (snd e))) es = List.map Inr krs'"
    using Cons.prems(2) by (cases krs) (auto simp: with_key_Inr_iff)
  obtain f' where f: "f = Suc f'" using Cons.prems(4) by (cases f) auto
  show ?case
  proof (cases "es = []")
    case True
    then have "krs' = []" using m by simp
    moreover have "2 * length s \<le> f'" using Cons.prems(4) krs f \<open>krs' = []\<close> by simp
    moreover from this have "read_value f' (s @ 125 # r) = Some (json_norm (snd e), 125 # r)"
      using Cons.prems(1) [OF _ s, of "125 # r" f'] by (simp add: is_digit_def)
    ultimately show ?thesis using krs f True by (simp add: read_fields_last)
  next
    case False
    then have ne: "List.map entry krs' \<noteq> []" using m by auto
    let ?t = "join_comma (List.map entry krs')"
    have len: "2 * length s \<le> f'" "2 * length ?t + 1 \<le> f'"
      using Cons.prems(4) krs f ne by (auto simp: join_comma_Cons2)
    have "read_value f' (s @ 44 # ?t @ 125 # r) = Some (json_norm (snd e), 44 # ?t @ 125 # r)"
      using Cons.prems(1) [OF _ s, of "44 # ?t @ 125 # r" f'] len by (simp add: is_digit_def)
    moreover have "read_fields f' (?t @ 125 # r) = Some (List.map (\<lambda>e. (fst e, json_norm (snd e))) es, r)"
      using Cons.IH [OF _ m False len(2)] Cons.prems(1) by auto
    ultimately show ?thesis using krs f ne by (simp add: join_comma_Cons2 read_fields_more)
  qed
qed simp

lemma join_comma_hd:
  "ss \<noteq> [] \<Longrightarrow> hd ss = c # cs \<Longrightarrow> \<exists>t. join_comma ss = c # t"
  by (cases ss rule: join_comma.cases) auto

theorem read_canonicalizeJson:
  "canonicalizeJson v = Inr s \<Longrightarrow> ends_number r \<Longrightarrow> 2 * length s \<le> f
     \<Longrightarrow> read_value f (s @ r) = Some (json_norm v, r)"
proof (induction v arbitrary: s r f rule: canonicalizeJson.induct)
  case (5 xs)
  then obtain ss where ss: "List.map canonicalizeJson xs = List.map Inr ss"
    and s: "s = 91 # join_comma ss @ [93]"
    by (auto simp: andThen_Inr_iff collect_Inr_iff)
  obtain f' where f: "f = Suc f'" using "5.prems"(3) s by (cases f) auto
  show ?case
  proof (cases "xs = []")
    case False
    have rd: "read_items f' (join_comma ss @ 93 # r) = Some (List.map json_norm xs, r)"
      using "5.IH" "5.prems"(3) s f by (intro read_items_join [OF _ ss False]) auto
    obtain x xs' where xs: "xs = x # xs'" using False by (cases xs) auto
    then obtain a ss' where a: "ss = a # ss'" "canonicalizeJson x = Inr a" using ss by (cases ss) auto
    obtain c cs where c: "a = c # cs" "c \<noteq> 93" using canonicalizeJson_hd [OF a(2)] by blast
    obtain t where t: "join_comma ss = c # t" using join_comma_hd [of ss c cs] a c by auto
    from rd t c s f show ?thesis by (simp add: read_value_array)
  qed (use ss s f in \<open>simp add: read_value_array\<close>)
next
  case (6 es)
  let ?es = "by_key (present es)"
  from "6.prems"(1) obtain krs
    where krs: "List.map (\<lambda>e. with_key (fst e) (canonicalizeJson (snd e))) ?es = List.map Inr krs"
      and s: "s = 123 # join_comma (List.map entry krs) @ [125]"
    by (auto simp: andThen_Inr_iff collect_Inr_iff)
  obtain f' where f: "f = Suc f'" using "6.prems"(3) s by (cases f) auto
  show ?case
  proof (cases "?es = []")
    case False
    have rd: "read_fields f' (join_comma (List.map entry krs) @ 125 # r)
                = Some (List.map (\<lambda>e. (fst e, json_norm (snd e))) ?es, r)"
      using "6.IH" "6.prems"(3) s f by (intro read_fields_join [OF _ krs False]) auto
    obtain kr krs' where k: "krs = kr # krs'" using krs False by (cases krs) auto
    obtain t where t: "join_comma (List.map entry krs) = 34 # t"
      using join_comma_hd [of "List.map entry krs"] k by (cases kr) auto
    from rd t s f show ?thesis by (simp add: read_value_object)
  qed (use krs s f in \<open>simp add: read_value_object\<close>)
next
  case (2 x)
  then obtain f' where "f = Suc f'" by (cases f) (auto simp: stringify_def)
  with "2.prems"(1) show ?case by (auto simp: read_value_Suc_stringify)
next
  case (4 x)
  then obtain i where i: "num_int x = Some i" and s: "s = dec_int i"
    by (auto split: if_splits option.splits)
  then have "s \<noteq> []" using dec_int_hd [of i] by auto
  then obtain f' where "f = Suc f'" using "4.prems"(3) by (cases f) auto
  then show ?case using i s "4.prems"(2) by (simp add: read_value_Suc_dec_int)
next
  case (3 b)
  then have "f \<noteq> 0" by (auto split: if_splits)
  then obtain f' where "f = Suc f'" by (cases f) auto
  with "3.prems"(1) show ?case
    using read_value_literals(2,3) [of f' r] by (auto split: if_splits)
next
  case 1
  then have "f \<noteq> 0" by auto
  then obtain f' where "f = Suc f'" by (cases f) auto
  with "1.prems"(1) show ?case using read_value_literals(1) [of f' r] by auto
qed simp

corollary read_back: "canonicalizeJson v = Inr s \<Longrightarrow> read_value (2 * length s) s = Some (json_norm v, [])"
  using read_canonicalizeJson [of v s "[]" "2 * length s"] by simp

corollary canonicalizeJson_inj_norm:
  assumes "canonicalizeJson v = Inr s" and "canonicalizeJson w = Inr s"
  shows "json_norm v = json_norm w"
  using read_back [OF assms(1)] read_back [OF assms(2)] by simp

section \<open>What can be encoded\<close>

text \<open>Absent fields of an object are left out; anywhere else \<open>undefined\<close> cannot be encoded.\<close>

function encodable :: "json \<Rightarrow> bool" where
  "encodable (JArr xs) = list_all encodable xs"
| "encodable (JObj es) = list_all (\<lambda>e. encodable (snd e)) (present es)"
| "encodable (JNum x) = is_integer x"
| "encodable JUndefined = False"
| "encodable JNull = True"
| "encodable (JBool b) = True"
| "encodable (JStr s) = True"
  by pat_completeness auto
termination
  by (relation "measure size") (auto dest: present_size simp: less_Suc_eq_le size_list_estimation')

lemma collect_total_iff: "(\<exists>as. collect rs = Inr as) \<longleftrightarrow> (\<forall>r \<in> set rs. \<exists>a. r = Inr a)"
  by (induction rs rule: collect.induct) (auto split: sum.splits)

lemma with_key_total: "(\<exists>kr. with_key k r = Inr kr) \<longleftrightarrow> (\<exists>a. r = Inr a)"
  by (cases r) (auto simp: with_key_def)

lemma canonicalizeJson_total_iff: "(\<exists>s. canonicalizeJson v = Inr s) \<longleftrightarrow> encodable v"
proof (induction v rule: canonicalizeJson.induct)
  case (4 x)
  then show ?case by (cases x) (auto simp: is_integer_def)
next
  case (5 xs)
  have "(\<exists>s. canonicalizeJson (JArr xs) = Inr s) \<longleftrightarrow> (\<exists>as. collect (List.map canonicalizeJson xs) = Inr as)"
    by (auto simp: andThen_Inr_iff)
  with 5 show ?case by (auto simp: collect_total_iff list_all_iff)
next
  case (6 es)
  have "(\<exists>s. canonicalizeJson (JObj es) = Inr s) \<longleftrightarrow>
     (\<exists>as. collect (List.map (\<lambda>e. with_key (fst e) (canonicalizeJson (snd e))) (by_key (present es))) = Inr as)"
    by (auto simp: andThen_Inr_iff)
  also have "\<dots> \<longleftrightarrow> (\<forall>e \<in> set (present es). \<exists>a. canonicalizeJson (snd e) = Inr a)"
    by (simp only: collect_total_iff set_map ball_simps set_by_key with_key_total)
  also have "\<dots> \<longleftrightarrow> (\<forall>e \<in> set (present es). encodable (snd e))"
    using 6 by (simp only: set_by_key cong: ball_cong)
  finally show ?case by (simp only: encodable.simps list_all_iff)
qed auto

section \<open>Normal forms\<close>

lemma by_key_norm:
  assumes "\<And>e. e \<in> set es \<Longrightarrow> f (snd e) \<noteq> JUndefined"
  shows "by_key (present (List.map (\<lambda>e. (fst e, f (snd e))) (by_key es))) = List.map (\<lambda>e. (fst e, f (snd e))) (by_key es)"
proof -
  have "present (List.map (\<lambda>e. (fst e, f (snd e))) (by_key es)) = List.map (\<lambda>e. (fst e, f (snd e))) (by_key es)"
    using assms by (auto simp: present_def filter_id_conv)
  moreover have "sorted (List.map (\<lambda>e. codepoints (fst e)) (List.map (\<lambda>e. (fst e, f (snd e))) (by_key es)))"
    by (simp add: by_key_def comp_def)
  ultimately show ?thesis by (simp add: by_key_def sort_key_id_if_sorted)
qed

lemma json_norm_defined: "v \<noteq> JUndefined \<Longrightarrow> json_norm v \<noteq> JUndefined"
  by (cases v) auto

lemma canonicalizeJson_norm: "canonicalizeJson (json_norm v) = canonicalizeJson v"
proof (induction v rule: canonicalizeJson.induct)
  case (4 x)
  then show ?case by (cases x) auto
next
  case (5 xs)
  then show ?case by (simp add: comp_def cong: map_cong)
next
  case (6 es)
  let ?es = "by_key (present es)" and ?g = "\<lambda>e. (fst e, json_norm (snd e))"
  have "by_key (present (List.map ?g ?es)) = List.map ?g ?es"
    by (rule by_key_norm) (auto simp: present_def dest: json_norm_defined)
  moreover have "List.map (\<lambda>e. with_key (fst e) (canonicalizeJson (snd e))) (List.map ?g ?es)
      = List.map (\<lambda>e. with_key (fst e) (canonicalizeJson (snd e))) ?es"
    using 6 by (simp add: comp_def)
  ultimately show ?case by (simp only: json_norm.simps canonicalizeJson.simps)
qed auto

lemma safe_norm: "safe_json v \<Longrightarrow> safe_json (json_norm v)"
proof (induction v rule: json_norm.induct)
  case (2 es)
  then show ?case by (auto simp: list_all_iff present_def)
next
  case (3 x)
  then show ?case by (cases x) (auto simp: safe_number_def)
qed (auto simp: list_all_iff)

lemma same_text_iff:
  "(\<exists>s. canonicalizeJson v = Inr s \<and> canonicalizeJson w = Inr s) \<longleftrightarrow> encodable v \<and> json_norm v = json_norm w"
  using canonicalizeJson_total_iff [of v] canonicalizeJson_norm [of v] canonicalizeJson_norm [of w]
    canonicalizeJson_inj_norm [of v _ w] by metis

text \<open>C39: Canonical JSON round trip. The text that \<open>canonicalizeJson\<close> returns for a value whose integers are safe
  reads back, with nothing left over, as the value's normal form (keys in code point order, absent fields
  dropped, negative zero as zero), whose integers are safe again and which has the same canonical text.\<close>

theorem canonical_text_reads_back:
  assumes "canonicalizeJson v = Inr s" and "safe_json v"
  shows "\<exists>w. read_value (2 * length s) s = Some (w, []) \<and> w = json_norm v \<and> safe_json w \<and> canonicalizeJson w = Inr s"
  using read_back [OF assms(1)] assms safe_norm [OF assms(2)] by (simp add: canonicalizeJson_norm)

definition sample_value :: json where
  "sample_value = JObj [(js ''b'', JArr [JNum JNegZero, JNull]), (js ''c'', JUndefined), (js ''a'', JStr [10, 34])]"

lemma canonical_text_reads_back_witness:
  "canonicalizeJson sample_value = Inr (js ''{'' @ [34, 97, 34, 58, 34, 92, 110, 92, 34, 34, 44, 34, 98, 34] @ js '':[0,null]}'') \<and>
   (\<exists>w. read_value (2 * length (js ''{'' @ [34, 97, 34, 58, 34, 92, 110, 92, 34, 34, 44, 34, 98, 34] @ js '':[0,null]}''))
        (js ''{'' @ [34, 97, 34, 58, 34, 92, 110, 92, 34, 34, 44, 34, 98, 34] @ js '':[0,null]}'') = Some (w, [])
     \<and> w = json_norm sample_value
     \<and> canonicalizeJson w = Inr (js ''{'' @ [34, 97, 34, 58, 34, 92, 110, 92, 34, 34, 44, 34, 98, 34] @ js '':[0,null]}''))"
proof -
  have "canonicalizeJson sample_value = Inr (js ''{'' @ [34, 97, 34, 58, 34, 92, 110, 92, 34, 34, 44, 34, 98, 34] @ js '':[0,null]}'')"
    by code_simp
  moreover have "safe_json sample_value" by code_simp
  ultimately show ?thesis using canonical_text_reads_back by blast
qed

text \<open>Canonical texts identify values. Two values have a canonical text in common exactly when
  the first can be encoded and their normal forms agree: key order, absent fields and the sign
  of zero are all that the text forgets. As above this is about the printing of safe integers.\<close>

theorem canonical_text_identifies:
  "(\<exists>s. canonicalizeJson v = Inr s \<and> canonicalizeJson w = Inr s) \<longleftrightarrow> encodable v \<and> json_norm v = json_norm w"
  by (rule same_text_iff)

end
