(* ===== verification/Hash_Chain.thy ===== *)
theory Hash_Chain
  imports Validation Canonical_Roundtrip
begin

text \<open>
  The event hash chain and the record seal of \<open>packages/format/src/index.ts\<close>. BLAKE3 and the
  byte conversions come from the \<open>@noble/hashes\<close> package; they are the fields of a record
  \<open>noble\<close> that every hashing definition takes as its argument, and \<open>noble_ok\<close> collects what
  that package documents about them.
\<close>

section \<open>The hashing library\<close>

record noble =
  blake3 :: "nat list \<Rightarrow> nat list"
  bytesToHex :: "nat list \<Rightarrow> jsstring"
  hexToBytes :: "jsstring \<Rightarrow> nat list"
  utf8ToBytes :: "jsstring \<Rightarrow> nat list"

definition bytes32 :: "nat list \<Rightarrow> bool" where
  "bytes32 bs \<longleftrightarrow> length bs = 32 \<and> (\<forall>b \<in> set bs. b < 256)"

definition hex64 :: "jsstring \<Rightarrow> bool" where
  "hex64 h \<longleftrightarrow> length h = 64 \<and> list_all is_hex h"

definition ascii :: "jsstring \<Rightarrow> bool" where
  "ascii s \<longleftrightarrow> (\<forall>c \<in> set s. c < 128)"

text \<open>
  A BLAKE3 digest is 32 bytes; the hexadecimal conversions are inverse to each other between
  32 bytes and 64 lowercase digits; UTF-8 leaves ASCII text as it is.
\<close>

definition noble_ok :: "noble \<Rightarrow> bool" where
  "noble_ok nb \<longleftrightarrow> (\<forall>bs. bytes32 (blake3 nb bs))
     \<and> (\<forall>bs. bytes32 bs \<longrightarrow> hex64 (bytesToHex nb bs) \<and> hexToBytes nb (bytesToHex nb bs) = bs)
     \<and> (\<forall>h. hex64 h \<longrightarrow> bytes32 (hexToBytes nb h) \<and> bytesToHex nb (hexToBytes nb h) = h)
     \<and> (\<forall>s. ascii s \<longrightarrow> utf8ToBytes nb s = s)"

section \<open>Hashing\<close>

datatype format_error =
    InvalidEvent "verror list"
  | InvalidEventLog "verror list"
  | InvalidTextBinding "verror list"
  | InvalidFinalization "verror list"
  | InvalidManifest "verror list"
  | NotCanonical canonical_error
  | InvalidHash
  | InvalidTip
  | InvalidSessionId
  | ChainBoundary
  | EmptyLog
  | EmptyBinding

definition HASH_PREFIX :: jsstring where
  "HASH_PREFIX = js ''b3:''"

definition b3HashBytes :: "noble \<Rightarrow> nat list \<Rightarrow> jsstring" where
  "b3HashBytes nb input = HASH_PREFIX @ bytesToHex nb (blake3 nb input)"

definition b3HashToBytes :: "noble \<Rightarrow> jsstring \<Rightarrow> format_error + nat list" where
  "b3HashToBytes nb h = (if \<not> is_b3_hash h then Inl InvalidHash
                         else Inr (hexToBytes nb (drop (length HASH_PREFIX) h)))"

definition canonical :: "json \<Rightarrow> format_error + jsstring" where
  "canonical v = (case canonicalizeJson v of Inl c \<Rightarrow> Inl (NotCanonical c) | Inr s \<Rightarrow> Inr s)"

definition canonicalizeEvent :: "mutation \<Rightarrow> format_error + jsstring" where
  "canonicalizeEvent event =
     guard (validateEvent (event_json event) None \<noteq> []) (InvalidEvent (validateEvent (event_json event) None))
       (canonical (event_json event))"

definition canonicalizeEventBytes :: "noble \<Rightarrow> mutation \<Rightarrow> format_error + nat list" where
  "canonicalizeEventBytes nb event = andThen (canonicalizeEvent event) (\<lambda>s. Inr (utf8ToBytes nb s))"

definition eventChainFormatVersion :: "format_version \<Rightarrow> format_version" where
  "eventChainFormatVersion v = (if v = V0_3 then V0_2 else v)"

definition advanceEventHash ::
  "noble \<Rightarrow> jsstring option \<Rightarrow> mutation \<Rightarrow> jsstring \<Rightarrow> format_version \<Rightarrow> format_error + jsstring" where
  "advanceEventHash nb previousTip event sessionId formatVersion =
     guard (validateEvent (event_json event) None \<noteq> []) (InvalidEvent (validateEvent (event_json event) None))
     (guard (\<not> isUuid sessionId) InvalidSessionId
     (guard ((previousTip = None) \<noteq> (ev_seq event = 0)) ChainBoundary
       (andThen (case previousTip of
            None \<Rightarrow> Inr (utf8ToBytes nb (js (version_name (eventChainFormatVersion formatVersion)))
                         @ utf8ToBytes nb sessionId)
          | Some h \<Rightarrow> b3HashToBytes nb h)
       (\<lambda>prefix. andThen (canonicalizeEventBytes nb event)
       (\<lambda>bytes. Inr (b3HashBytes nb (prefix @ bytes)))))))"

text \<open>The loop of \<open>computeEventHashChain\<close>: \<open>previousTip\<close> is \<open>chain.at(-1) ?? null\<close>.\<close>

fun chain_from ::
  "noble \<Rightarrow> jsstring option \<Rightarrow> event_log \<Rightarrow> jsstring \<Rightarrow> format_version \<Rightarrow> format_error + jsstring list" where
  "chain_from nb previousTip [] sessionId v = Inr []"
| "chain_from nb previousTip (e # es) sessionId v =
     andThen (advanceEventHash nb previousTip e sessionId v)
       (\<lambda>h. andThen (chain_from nb (Some h) es sessionId v) (\<lambda>hs. Inr (h # hs)))"

definition log_errors :: "event_log \<Rightarrow> verror list" where
  "log_errors es = validateEventLog (JArr (List.map event_json es))"

definition computeEventHashChain ::
  "noble \<Rightarrow> event_log \<Rightarrow> jsstring \<Rightarrow> format_version \<Rightarrow> format_error + jsstring list" where
  "computeEventHashChain nb es sessionId v =
     guard (es = []) EmptyLog
     (guard (log_errors es \<noteq> []) (InvalidEventLog (log_errors es))
       (chain_from nb None es sessionId v))"

section \<open>Sealing\<close>

text \<open>
  \<open>finalization\<close> is the optional pair of \<open>duration_ms\<close> and \<open>parent_record\<close>; a missing pair reads
  as an undefined duration.
\<close>

type_synonym finalization = "(int \<times> jsstring option) option"

definition duration_of :: "finalization \<Rightarrow> json" where
  "duration_of fin = (case fin of None \<Rightarrow> JUndefined | Some (d, _) \<Rightarrow> JNum (JInt d))"

definition parent_of :: "finalization \<Rightarrow> jsstring option" where
  "parent_of fin = (case fin of None \<Rightarrow> None | Some (_, p) \<Rightarrow> p)"

definition nullable_binding :: "text_binding option \<Rightarrow> json" where
  "nullable_binding b = (case b of None \<Rightarrow> JNull | Some b \<Rightarrow> text_binding_json b)"

definition seal_json :: "finalization \<Rightarrow> text_binding option \<Rightarrow> json" where
  "seal_json fin textBinding = JObj
     [(js ''format_version'', JStr (js (version_name V0_3))),
      (js ''duration_ms'', duration_of fin),
      (js ''parent_record'', nullable_str (parent_of fin)),
      (js ''text_binding'', nullable_binding textBinding)]"

definition finalization_errors :: "finalization \<Rightarrow> text_binding option \<Rightarrow> verror list" where
  "finalization_errors fin textBinding =
     validateElapsedMilliseconds (duration_of fin) ''duration_ms''
     @ (case parent_of fin of None \<Rightarrow> [] | Some p \<Rightarrow> if is_b3_hash p then [] else [NotB3 ''parent_record''])
     @ (case textBinding of None \<Rightarrow> [] | Some b \<Rightarrow> validateTextBinding (text_binding_json b))"

definition canonicalizeTextBinding :: "text_binding \<Rightarrow> format_error + jsstring" where
  "canonicalizeTextBinding binding =
     guard (validateTextBinding (text_binding_json binding) \<noteq> [])
       (InvalidTextBinding (validateTextBinding (text_binding_json binding)))
       (canonical (text_binding_json binding))"

definition hash_after_tip :: "noble \<Rightarrow> jsstring \<Rightarrow> format_error + jsstring \<Rightarrow> format_error + jsstring" where
  "hash_after_tip nb eventTip text =
     andThen (b3HashToBytes nb eventTip)
       (\<lambda>prefix. andThen text (\<lambda>s. Inr (b3HashBytes nb (prefix @ utf8ToBytes nb s))))"

definition sealRecordHash ::
  "noble \<Rightarrow> jsstring \<Rightarrow> format_version \<Rightarrow> text_binding option \<Rightarrow> finalization \<Rightarrow> format_error + jsstring" where
  "sealRecordHash nb eventTip formatVersion textBinding fin =
     guard (\<not> is_b3_hash eventTip) InvalidTip
       (if formatVersion = V0_3
        then guard (finalization_errors fin textBinding \<noteq> [])
               (InvalidFinalization (finalization_errors fin textBinding))
               (hash_after_tip nb eventTip (canonical (seal_json fin textBinding)))
        else case textBinding of
            None \<Rightarrow> Inr eventTip
          | Some b \<Rightarrow> if formatVersion = V0_1 then Inr eventTip
                      else hash_after_tip nb eventTip (canonicalizeTextBinding b))"

definition computeRecordHash ::
  "noble \<Rightarrow> event_log \<Rightarrow> jsstring \<Rightarrow> format_version \<Rightarrow> text_binding option \<Rightarrow> finalization \<Rightarrow> format_error + jsstring" where
  "computeRecordHash nb es sessionId formatVersion textBinding fin =
     andThen (computeEventHashChain nb es sessionId formatVersion)
       (\<lambda>chain. sealRecordHash nb (last chain) formatVersion textBinding fin)"

section \<open>ASCII texts\<close>

fun ascii_json :: "json \<Rightarrow> bool" where
  "ascii_json (JStr s) = ascii s"
| "ascii_json (JArr xs) = list_all ascii_json xs"
| "ascii_json (JObj es) = list_all (\<lambda>e. ascii (fst e) \<and> ascii_json (snd e)) es"
| "ascii_json _ = True"

lemma ascii_simps [simp]:
  "ascii []" "ascii (c # s) \<longleftrightarrow> c < 128 \<and> ascii s" "ascii (s @ s') \<longleftrightarrow> ascii s \<and> ascii s'"
  by (auto simp: ascii_def)

lemma ascii_dec_nat [simp]: "ascii (dec_nat n)"
  using dec_nat_digits by (fastforce simp: ascii_def is_digit_def)

lemma ascii_dec_int [simp]: "ascii (dec_int i)"
  by (simp add: dec_int_def)

lemma ascii_quote_unit: "c < 128 \<Longrightarrow> ascii (quote_unit c)"
  by (auto simp: quote_unit_def hex4_def hex_digit_def)

lemma ascii_quote_units: "ascii s \<Longrightarrow> ascii (quote_units s)"
  by (induction s rule: quote_units.induct) (auto simp: ascii_quote_unit)

lemma ascii_join_comma: "\<forall>s \<in> set ss. ascii s \<Longrightarrow> ascii (join_comma ss)"
  by (induction ss rule: join_comma.induct) auto

lemma ascii_canonicalizeJson: "ascii_json v \<Longrightarrow> canonicalizeJson v = Inr s \<Longrightarrow> ascii s"
proof (induction v arbitrary: s rule: canonicalizeJson.induct)
  case (5 xs)
  then obtain ss where ss: "List.map canonicalizeJson xs = List.map Inr ss" and s: "s = 91 # join_comma ss @ [93]"
    by (auto simp: andThen_Inr_iff collect_Inr_iff)
  have "ascii a" if "a \<in> set ss" for a
  proof -
    from that have "Inr a \<in> canonicalizeJson ` set xs" using ss by (metis image_eqI list.set_map)
    then obtain x where "x \<in> set xs" "canonicalizeJson x = Inr a" by auto
    with "5.IH" "5.prems"(1) show ?thesis by (auto simp: list_all_iff)
  qed
  with s show ?case by (simp add: ascii_join_comma)
next
  case (6 es)
  let ?f = "\<lambda>e. with_key (fst e) (canonicalizeJson (snd e))"
  from "6.prems" obtain krs where krs: "List.map ?f (by_key (present es)) = List.map Inr krs"
    and s: "s = 123 # join_comma (List.map entry krs) @ [125]"
    by (auto simp: andThen_Inr_iff collect_Inr_iff)
  have "ascii (entry kr)" if "kr \<in> set krs" for kr
  proof -
    from that have "Inr kr \<in> ?f ` set (by_key (present es))" using krs by (metis image_eqI list.set_map)
    then obtain e a where e: "e \<in> set (by_key (present es))" "canonicalizeJson (snd e) = Inr a" "kr = (fst e, a)"
      by (auto simp: with_key_Inr_iff dest!: sym [of "Inr kr"])
    then have "ascii a" "ascii (fst e)" using "6.IH" "6.prems"(1)
      by (auto simp: list_all_iff present_def)
    with e show ?thesis by (simp add: ascii_quote_units)
  qed
  with s show ?case by (simp add: ascii_join_comma)
qed (auto simp: stringify_def ascii_quote_units split: if_splits option.splits)

end
