(* ===== verification/Hash_Binding.thy ===== *)
theory Hash_Binding
  imports Hash_Chain
begin

text \<open>
  What a record hash commits to. Canonical texts determine their events and seals; the byte
  strings the chain and the seal hash are separated from each other by their shape; so two
  records with the same hash have the same content, or two of the byte strings that were
  hashed collide.
\<close>

section \<open>Canonical texts of events and seals\<close>

lemma event_normal_form:
  "json_norm (event_json e) = JObj
     [(js ''del_len'', nullable_int (ev_del_len e)),
      (js ''ins_len'', nullable_int (ev_ins_len e)),
      (js ''op'', JStr (js (op_name (ev_op e)))),
      (js ''pos'', nullable_int (ev_pos e)),
      (js ''seq'', JNum (JInt (ev_seq e))),
      (js ''source'', JStr (js (source_name (ev_source e)))),
      (js ''t'', JNum (JInt (ev_t e)))]"
proof -
  have n: "json_norm (nullable_int x) = nullable_int x" "nullable_int x \<noteq> JUndefined" for x
    by (cases x; simp)+
  show ?thesis
    by (simp add: event_json_def present_def n by_key_def codepoints_no_high high_def)
qed

lemma nullable_int_inj [simp]: "nullable_int x = nullable_int y \<longleftrightarrow> x = y"
  by (cases x; cases y) auto

lemma nullable_str_inj [simp]: "nullable_str x = nullable_str y \<longleftrightarrow> x = y"
  by (cases x; cases y) auto

lemma event_json_norm_inj: "json_norm (event_json e) = json_norm (event_json f) \<Longrightarrow> e = f"
  by (cases e; cases f) (simp add: event_normal_form js_inj)

lemma canonical_Inr [simp]: "canonical v = Inr s \<longleftrightarrow> canonicalizeJson v = Inr s"
  by (simp add: canonical_def split: sum.splits)

lemma canonicalizeEvent_Inr_iff:
  "canonicalizeEvent e = Inr s \<longleftrightarrow> valid_event e \<and> canonicalizeJson (event_json e) = Inr s"
  by (auto simp: canonicalizeEvent_def validateEvent_typed)

lemma canonicalizeJson_nullable_int [simp]:
  "canonicalizeJson (nullable_int x) = Inr (case x of None \<Rightarrow> js ''null'' | Some i \<Rightarrow> dec_int i)"
  by (cases x) auto

lemma canonicalizeJson_event_total: "\<exists>s. canonicalizeJson (event_json e) = Inr s"
proof -
  have "nullable_int x \<noteq> JUndefined" for x by (cases x) auto
  then show ?thesis
    by (simp add: event_json_def present_def by_key_def codepoints_no_high high_def with_key_def)
qed

lemma canonical_object_head: "canonicalizeJson (JObj es) = Inr s \<Longrightarrow> \<exists>t. s = 123 # t"
  by (auto simp: andThen_Inr_iff)

lemma ascii_js_op_name [simp]: "ascii (js (op_name x))"
  by (cases x) auto

lemma ascii_js_source_name [simp]: "ascii (js (source_name x))"
  by (cases x) auto

lemma ascii_js_version_name [simp]: "ascii (js (version_name x))"
  by (cases x) auto

lemma ascii_event_json [simp]: "ascii_json (event_json e)"
proof -
  have "ascii_json (nullable_int x)" for x by (cases x) auto
  then show ?thesis by (simp add: event_json_def)
qed

text \<open>The canonical text of an event; empty only for what is not an event.\<close>

definition event_text :: "mutation \<Rightarrow> jsstring" where
  "event_text e = (case canonicalizeJson (event_json e) of Inr s \<Rightarrow> s | Inl _ \<Rightarrow> [])"

lemma canonicalizeJson_event: "canonicalizeJson (event_json e) = Inr (event_text e)"
  using canonicalizeJson_event_total [of e] by (auto simp: event_text_def)

lemma event_text_inj: "event_text e = event_text f \<longleftrightarrow> e = f"
proof
  assume "event_text e = event_text f"
  then have "canonicalizeJson (event_json f) = Inr (event_text e)" using canonicalizeJson_event [of f] by simp
  then show "e = f" using canonicalizeJson_inj_norm [OF canonicalizeJson_event [of e]] event_json_norm_inj by blast
qed simp

lemma event_text_head: "\<exists>t. event_text e = 123 # t"
  using canonicalizeJson_event [of e] canonical_object_head by (auto simp: event_json_def)

lemma event_text_ascii: "ascii (event_text e)"
  using ascii_canonicalizeJson [OF ascii_event_json canonicalizeJson_event] .

lemma event_text_neq_object:
  assumes "canonicalizeJson v = Inr (event_text e)" and "json_norm v = JObj ((k, x) # es)"
  shows "k = js ''del_len''"
  using canonicalizeJson_inj_norm [OF assms(1) canonicalizeJson_event] assms(2)
  by (simp add: event_normal_form)

section \<open>Consequences of the library's documented behaviour\<close>

lemma is_b3_hash_iff: "is_b3_hash h \<longleftrightarrow> (\<exists>d. h = HASH_PREFIX @ d \<and> hex64 d)"
proof
  assume h: "is_b3_hash h"
  then have "h = HASH_PREFIX @ drop 3 h"
    using append_take_drop_id [of 3 h] by (simp add: is_b3_hash_def HASH_PREFIX_def)
  moreover have "hex64 (drop 3 h)" using h by (simp add: is_b3_hash_def hex64_def)
  ultimately show "\<exists>d. h = HASH_PREFIX @ d \<and> hex64 d" by blast
qed (auto simp: is_b3_hash_def HASH_PREFIX_def hex64_def)

lemma noble_digest:
  "noble_ok nb \<Longrightarrow> bytes32 (blake3 nb bs)"
  by (simp add: noble_ok_def)

lemma noble_hash:
  assumes "noble_ok nb"
  shows "is_b3_hash (b3HashBytes nb bs)"
    and "b3HashToBytes nb (b3HashBytes nb bs) = Inr (blake3 nb bs)"
    and "b3HashBytes nb x = b3HashBytes nb y \<longleftrightarrow> blake3 nb x = blake3 nb y"
proof -
  have h: "hex64 (bytesToHex nb (blake3 nb b)) \<and> hexToBytes nb (bytesToHex nb (blake3 nb b)) = blake3 nb b" for b
    using assms by (auto simp: noble_ok_def)
  from h [of bs] show 1: "is_b3_hash (b3HashBytes nb bs)" by (auto simp: is_b3_hash_iff b3HashBytes_def)
  from h [of bs] 1 show "b3HashToBytes nb (b3HashBytes nb bs) = Inr (blake3 nb bs)"
    by (simp add: b3HashToBytes_def b3HashBytes_def)
  show "b3HashBytes nb x = b3HashBytes nb y \<longleftrightarrow> blake3 nb x = blake3 nb y"
    using h by (metis b3HashBytes_def same_append_eq)
qed

lemma noble_utf8: "noble_ok nb \<Longrightarrow> ascii s \<Longrightarrow> utf8ToBytes nb s = s"
  by (simp add: noble_ok_def)

lemma b3HashToBytes_Inr:
  "noble_ok nb \<Longrightarrow> b3HashToBytes nb h = Inr bs \<Longrightarrow> length bs = 32 \<and> h = HASH_PREFIX @ bytesToHex nb bs"
  by (auto simp: b3HashToBytes_def is_b3_hash_iff noble_ok_def bytes32_def split: if_splits)

lemma b3HashToBytes_inj:
  "noble_ok nb \<Longrightarrow> b3HashToBytes nb h = Inr bs \<Longrightarrow> b3HashToBytes nb h' = Inr bs \<Longrightarrow> h = h'"
  by (auto dest: b3HashToBytes_Inr)

lemma b3HashToBytes_total: "is_b3_hash h \<Longrightarrow> \<exists>bs. b3HashToBytes nb h = Inr bs"
  by (simp add: b3HashToBytes_def)

lemma isUuid_ascii: "isUuid s \<Longrightarrow> ascii s"
  using isUuid_chars by (fastforce simp: ascii_def is_hex_def)

section \<open>The hashed byte strings of a chain\<close>

definition tip_bytes :: "noble \<Rightarrow> jsstring \<Rightarrow> nat list" where
  "tip_bytes nb h = (case b3HashToBytes nb h of Inr bs \<Rightarrow> bs | Inl _ \<Rightarrow> [])"

definition event_preimage ::
  "noble \<Rightarrow> jsstring \<Rightarrow> format_version \<Rightarrow> jsstring option \<Rightarrow> mutation \<Rightarrow> nat list" where
  "event_preimage nb sessionId v prev e =
     (case prev of None \<Rightarrow> js (version_name (eventChainFormatVersion v)) @ sessionId
                 | Some h \<Rightarrow> tip_bytes nb h) @ event_text e"

definition next_tip :: "noble \<Rightarrow> jsstring \<Rightarrow> format_version \<Rightarrow> jsstring option \<Rightarrow> mutation \<Rightarrow> jsstring option" where
  "next_tip nb sessionId v prev e = Some (b3HashBytes nb (event_preimage nb sessionId v prev e))"

definition tip_after :: "noble \<Rightarrow> jsstring \<Rightarrow> format_version \<Rightarrow> event_log \<Rightarrow> jsstring option" where
  "tip_after nb sessionId v es = foldl (next_tip nb sessionId v) None es"

fun inputs_from :: "noble \<Rightarrow> jsstring \<Rightarrow> format_version \<Rightarrow> jsstring option \<Rightarrow> event_log \<Rightarrow> nat list list" where
  "inputs_from nb sessionId v prev [] = []"
| "inputs_from nb sessionId v prev (e # es) =
     event_preimage nb sessionId v prev e # inputs_from nb sessionId v (next_tip nb sessionId v prev e) es"

definition chain_inputs :: "noble \<Rightarrow> jsstring \<Rightarrow> format_version \<Rightarrow> event_log \<Rightarrow> nat list list" where
  "chain_inputs nb sessionId v es = inputs_from nb sessionId v None es"

lemma tip_after_simps [simp]:
  "tip_after nb sid v [] = None"
  "tip_after nb sid v (es @ [e]) = next_tip nb sid v (tip_after nb sid v es) e"
  by (simp_all add: tip_after_def)

lemma inputs_from_snoc:
  "inputs_from nb sid v prev (es @ [e]) =
     inputs_from nb sid v prev es @ [event_preimage nb sid v (foldl (next_tip nb sid v) prev es) e]"
  by (induction es arbitrary: prev) auto

lemma chain_inputs_snoc [simp]:
  "chain_inputs nb sid v [] = []"
  "chain_inputs nb sid v (es @ [e]) = chain_inputs nb sid v es @ [event_preimage nb sid v (tip_after nb sid v es) e]"
  by (simp_all add: chain_inputs_def tip_after_def inputs_from_snoc)

lemma tip_bytes_hash: "noble_ok nb \<Longrightarrow> tip_bytes nb (b3HashBytes nb bs) = blake3 nb bs"
  by (simp add: tip_bytes_def noble_hash)

lemma tip_after_hash: "es \<noteq> [] \<Longrightarrow> \<exists>bs. bs \<in> set (chain_inputs nb sid v es) \<and> tip_after nb sid v es = Some (b3HashBytes nb bs)"
  by (cases es rule: rev_cases) (auto simp: next_tip_def)

text \<open>Position 32 tells a first input, which starts with version and session id, from all others.\<close>

lemma first_input_char:
  assumes "isUuid sid"
  shows "(js (version_name v) @ sid @ t) ! 32 \<noteq> 123"
proof -
  have "length (js (version_name v)) = 3" by (cases v) auto
  then have "(js (version_name v) @ sid @ t) ! 32 = sid ! 29"
    using isUuid_length [OF assms] by (simp add: nth_append)
  moreover have "sid ! 29 \<in> set sid" using isUuid_length [OF assms] by simp
  ultimately show ?thesis using isUuid_chars [OF assms, of "sid ! 29"] by (auto simp: is_hex_def)
qed

lemma later_input_char: "length p = 32 \<Longrightarrow> s = 123 # t \<Longrightarrow> (p @ s) ! 32 = 123"
  by (simp add: nth_append)

lemma event_preimage_inj:
  assumes "noble_ok nb" and "isUuid sid" and "isUuid sid'"
    and "\<And>h. prev = Some h \<Longrightarrow> \<exists>bs. h = b3HashBytes nb bs"
    and "\<And>h. prev' = Some h \<Longrightarrow> \<exists>bs. h = b3HashBytes nb bs"
    and "event_preimage nb sid v prev e = event_preimage nb sid' v' prev' e'"
  shows "e = e' \<and> prev = prev' \<and>
     (prev = None \<longrightarrow> sid = sid' \<and> eventChainFormatVersion v = eventChainFormatVersion v')"
proof -
  have len: "length (tip_bytes nb (b3HashBytes nb bs)) = 32" for bs
    using noble_digest [OF assms(1)] by (simp add: tip_bytes_hash [OF assms(1)] bytes32_def)
  have vlen: "length (js (version_name w)) = 3" for w by (cases w) auto
  obtain t t' where t: "event_text e = 123 # t" "event_text e' = 123 # t'" using event_text_head by blast
  consider (first) "prev = None" "prev' = None" | (later) h h' where "prev = Some h" "prev' = Some h'"
    | (mixed) h where "prev = None" "prev' = Some h" | (mixed') h where "prev = Some h" "prev' = None"
    by (cases prev; cases prev') auto
  then show ?thesis
  proof cases
    case first
    with assms(6) have "js (version_name (eventChainFormatVersion v)) = js (version_name (eventChainFormatVersion v'))"
      and "sid @ event_text e = sid' @ event_text e'"
      by (simp_all add: event_preimage_def vlen)
    then show ?thesis
      using first isUuid_length [OF assms(2)] isUuid_length [OF assms(3)] by (simp add: js_inj event_text_inj)
  next
    case later
    then obtain x y where h: "h = b3HashBytes nb x" "h' = b3HashBytes nb y" using assms(4,5) by blast
    with later assms(6) have "tip_bytes nb h = tip_bytes nb h'" "event_text e = event_text e'"
      by (simp_all add: event_preimage_def len)
    then show ?thesis using later h noble_hash(3) [OF assms(1)]
      by (simp add: tip_bytes_hash [OF assms(1)] event_text_inj)
  next
    case mixed
    then obtain y where "h = b3HashBytes nb y" using assms(5) by blast
    then have "event_preimage nb sid' v' prev' e' ! 32 = 123"
      using mixed t by (simp add: event_preimage_def nth_append len)
    moreover have "event_preimage nb sid v prev e ! 32 \<noteq> 123"
      using mixed first_input_char [OF assms(2)] by (simp add: event_preimage_def)
    ultimately show ?thesis using assms(6) by simp
  next
    case mixed'
    then obtain y where "h = b3HashBytes nb y" using assms(4) by blast
    then have "event_preimage nb sid v prev e ! 32 = 123"
      using mixed' t by (simp add: event_preimage_def nth_append len)
    moreover have "event_preimage nb sid' v' prev' e' ! 32 \<noteq> 123"
      using mixed' first_input_char [OF assms(3)] by (simp add: event_preimage_def)
    ultimately show ?thesis using assms(6) by simp
  qed
qed

end
