(* ===== verification/Sample_Library.thy ===== *)
theory Sample_Library
  imports Hash_Binding
begin

text \<open>
  A concrete instance of the hashing library on which the hypotheses of the hashing theorems
  can be evaluated: the real hexadecimal conversions, UTF-8 on ASCII text, and a digest that
  keeps the last 32 bytes of its input. It also holds a small record used as an example.
\<close>

definition sample_digest :: "nat list \<Rightarrow> nat list" where
  "sample_digest bs = take 32 (rev (List.map (\<lambda>b. b mod 256) bs) @ replicate 32 0)"

definition hex_of :: "nat \<Rightarrow> nat" where
  "hex_of d = (if d < 10 then 48 + d else 87 + d)"

definition hex_value :: "nat \<Rightarrow> nat" where
  "hex_value c = (if c < 58 then c - 48 else c - 87)"

fun sample_to_hex :: "nat list \<Rightarrow> jsstring" where
  "sample_to_hex [] = []"
| "sample_to_hex (b # bs) = hex_of (b div 16) # hex_of (b mod 16) # sample_to_hex bs"

fun sample_from_hex :: "jsstring \<Rightarrow> nat list" where
  "sample_from_hex (a # b # s) = (16 * hex_value a + hex_value b) # sample_from_hex s"
| "sample_from_hex _ = []"

definition sample_noble :: noble where
  "sample_noble = \<lparr>blake3 = sample_digest, bytesToHex = sample_to_hex,
     hexToBytes = sample_from_hex, utf8ToBytes = \<lambda>s. s\<rparr>"

lemma hex_of_inverse: "d < 16 \<Longrightarrow> is_hex (hex_of d) \<and> hex_value (hex_of d) = d"
  by (auto simp: hex_of_def hex_value_def is_hex_def)

lemma hex_value_inverse: "is_hex c \<Longrightarrow> hex_value c < 16 \<and> hex_of (hex_value c) = c"
  by (auto simp: hex_of_def hex_value_def is_hex_def)

lemma sample_to_hex_digits:
  "\<forall>b \<in> set bs. b < 256 \<Longrightarrow>
     length (sample_to_hex bs) = 2 * length bs \<and> list_all is_hex (sample_to_hex bs) \<and>
     sample_from_hex (sample_to_hex bs) = bs"
proof (induction bs)
  case (Cons b bs)
  then have "b div 16 < 16" by auto
  with Cons hex_of_inverse [of "b div 16"] hex_of_inverse [of "b mod 16"] show ?case by simp
qed simp

lemma sample_from_hex_digits:
  "length h = 2 * n \<Longrightarrow> list_all is_hex h \<Longrightarrow>
     length (sample_from_hex h) = n \<and> (\<forall>b \<in> set (sample_from_hex h). b < 256) \<and>
     sample_to_hex (sample_from_hex h) = h"
proof (induction h arbitrary: n rule: sample_from_hex.induct)
  case (1 a b s)
  then have "hex_value a < 16" "hex_value b < 16" "hex_of (hex_value a) = a" "hex_of (hex_value b) = b"
    using hex_value_inverse by auto
  moreover from this have "(16 * hex_value a + hex_value b) div 16 = hex_value a"
    "(16 * hex_value a + hex_value b) mod 16 = hex_value b" "16 * hex_value a + hex_value b < 256" by auto
  moreover obtain m where n: "n = Suc m" using 1(2) by (cases n) auto
  moreover have "length (sample_from_hex s) = m \<and> (\<forall>b \<in> set (sample_from_hex s). b < 256) \<and>
     sample_to_hex (sample_from_hex s) = s" using 1 n by simp
  ultimately show ?case by simp
qed auto

lemma sample_noble_ok: "noble_ok sample_noble"
proof -
  have "bytes32 (sample_digest bs)" for bs
    by (auto simp: bytes32_def sample_digest_def dest!: in_set_takeD)
  moreover have "hex64 (sample_to_hex bs) \<and> sample_from_hex (sample_to_hex bs) = bs" if "bytes32 bs" for bs
    using that sample_to_hex_digits [of bs] by (simp add: bytes32_def hex64_def)
  moreover have "bytes32 (sample_from_hex h) \<and> sample_to_hex (sample_from_hex h) = h" if "hex64 h" for h
    using that sample_from_hex_digits [of h 32] by (simp add: bytes32_def hex64_def)
  ultimately show ?thesis by (simp add: noble_ok_def sample_noble_def)
qed

definition sample_session :: jsstring where
  "sample_session = js ''12345678-1234-4abc-8def-123456789abc''"

definition sample_event :: mutation where
  "sample_event = \<lparr>ev_seq = 0, ev_t = 0, ev_op = OpInsert, ev_pos = Some 0, ev_del_len = Some 0,
     ev_ins_len = Some 3, ev_source = Typing\<rparr>"

definition sample_paste :: mutation where
  "sample_paste = \<lparr>ev_seq = 1, ev_t = 40, ev_op = OpReplace, ev_pos = Some 1, ev_del_len = Some 2,
     ev_ins_len = Some 5, ev_source = Paste\<rparr>"

lemma sample_log_valid: "valid_log [sample_event, sample_paste]" "isUuid sample_session"
  by code_simp+

end
