(* ===== verification/Record_Commitment.thy ===== *)
theory Record_Commitment
  imports Hash_Binding Sample_Library
begin

text \<open>
  The chain computed by \<open>computeEventHashChain\<close> in closed form, when it and the seal succeed,
  and what equal record hashes mean.
\<close>

section \<open>The chain in closed form\<close>

fun tips_from :: "noble \<Rightarrow> jsstring \<Rightarrow> format_version \<Rightarrow> jsstring option \<Rightarrow> event_log \<Rightarrow> jsstring list" where
  "tips_from nb sid v prev [] = []"
| "tips_from nb sid v prev (e # es) =
     (let h = b3HashBytes nb (event_preimage nb sid v prev e) in h # tips_from nb sid v (Some h) es)"

lemma length_tips_from [simp]: "length (tips_from nb sid v prev es) = length es"
  by (induction es arbitrary: prev) (auto simp: Let_def)

lemma tips_from_append:
  "tips_from nb sid v prev (es @ fs) =
     tips_from nb sid v prev es @ tips_from nb sid v (foldl (next_tip nb sid v) prev es) fs"
  by (induction es arbitrary: prev) (auto simp: Let_def next_tip_def)

lemma last_tips_from:
  "es \<noteq> [] \<Longrightarrow> Some (last (tips_from nb sid v None es)) = tip_after nb sid v es"
  by (cases es rule: rev_cases) (auto simp: tips_from_append tip_after_def next_tip_def Let_def)

lemma tips_from_take: "tips_from nb sid v prev (take n es) = take n (tips_from nb sid v prev es)"
  by (induction es arbitrary: prev n) (auto simp: Let_def take_Cons split: nat.splits)

text \<open>The tip recorded at position \<open>i\<close> is the tip of the prefix of \<open>i + 1\<close> events.\<close>

lemma tips_from_nth:
  "i < length es \<Longrightarrow> Some (tips_from nb sid v None es ! i) = tip_after nb sid v (take (Suc i) es)"
proof -
  assume i: "i < length es"
  then have "last (tips_from nb sid v None (take (Suc i) es)) = tips_from nb sid v None es ! i"
    by (simp add: tips_from_take last_conv_nth) (simp add: last_conv_nth take_Suc_conv_app_nth)
  moreover have "take (Suc i) es \<noteq> []" using i by (cases es) auto
  ultimately show ?thesis using last_tips_from by metis
qed

definition tip_prefix :: "noble \<Rightarrow> jsstring \<Rightarrow> format_version \<Rightarrow> jsstring option \<Rightarrow> format_error + nat list" where
  "tip_prefix nb sid v prev = (case prev of
      None \<Rightarrow> Inr (utf8ToBytes nb (js (version_name (eventChainFormatVersion v))) @ utf8ToBytes nb sid)
    | Some h \<Rightarrow> b3HashToBytes nb h)"

lemma canonicalizeEventBytes_valid:
  "noble_ok nb \<Longrightarrow> valid_event e \<Longrightarrow> canonicalizeEventBytes nb e = Inr (event_text e)"
  using canonicalizeEvent_Inr_iff [of e "event_text e"]
  by (auto simp: canonicalizeEventBytes_def canonicalizeJson_event noble_utf8 event_text_ascii)

lemma advanceEventHash_eq:
  assumes "noble_ok nb"
  shows "advanceEventHash nb prev e sid v =
     guard (validateEvent (event_json e) None \<noteq> []) (InvalidEvent (validateEvent (event_json e) None))
     (guard (\<not> isUuid sid) InvalidSessionId
     (guard ((prev = None) \<noteq> (ev_seq e = 0)) ChainBoundary
     (guard (\<exists>h. prev = Some h \<and> \<not> is_b3_hash h) InvalidHash
       (Inr (b3HashBytes nb (event_preimage nb sid v prev e))))))"
proof (cases "valid_event e \<and> isUuid sid")
  case True
  then have "canonicalizeEventBytes nb e = Inr (event_text e)"
    using canonicalizeEventBytes_valid [OF assms] by blast
  with True show ?thesis
    using noble_utf8 [OF assms] isUuid_ascii [of sid]
    by (cases prev) (auto simp: advanceEventHash_def event_preimage_def tip_bytes_def b3HashToBytes_def guard_def)
next
  case False
  have "validateEvent (event_json e) None = [] \<longleftrightarrow> valid_event e" by (simp add: validateEvent_typed)
  with False show ?thesis by (auto simp: advanceEventHash_def guard_def)
qed

lemma advanceEventHash_Inr_iff:
  assumes "noble_ok nb"
  shows "advanceEventHash nb prev e sid v = Inr h \<longleftrightarrow>
     valid_event e \<and> isUuid sid \<and> (prev = None \<longleftrightarrow> ev_seq e = 0) \<and> (\<forall>p. prev = Some p \<longrightarrow> is_b3_hash p)
     \<and> h = b3HashBytes nb (event_preimage nb sid v prev e)"
  by (auto simp: advanceEventHash_eq [OF assms] validateEvent_typed)

lemma chain_from_valid:
  assumes "noble_ok nb" and "isUuid sid" and "valid_from n t0 es" and "prev = None \<longleftrightarrow> n = 0"
    and "\<forall>p. prev = Some p \<longrightarrow> is_b3_hash p"
  shows "chain_from nb prev es sid v = Inr (tips_from nb sid v prev es)"
  using assms(3-)
proof (induction es arbitrary: n t0 prev)
  case (Cons e es)
  let ?h = "b3HashBytes nb (event_preimage nb sid v prev e)"
  have "advanceEventHash nb prev e sid v = Inr ?h"
    using Cons.prems assms(1,2) by (auto simp: advanceEventHash_Inr_iff)
  moreover have "chain_from nb (Some ?h) es sid v = Inr (tips_from nb sid v (Some ?h) es)"
    using Cons.prems noble_hash(1) [OF assms(1)] by (intro Cons.IH [of "Suc n" "ev_t e"]) auto
  ultimately show ?case by (simp add: Let_def)
qed simp

lemma chain_from_Inr_uuid:
  "noble_ok nb \<Longrightarrow> chain_from nb prev es sid v = Inr c \<Longrightarrow> es \<noteq> [] \<Longrightarrow> isUuid sid"
  by (cases es) (auto simp: andThen_Inr_iff advanceEventHash_Inr_iff)

lemma log_errors_Nil [simp]: "log_errors es = [] \<longleftrightarrow> valid_log es"
  by (simp add: log_errors_def validateEventLog_typed)

lemma computeEventHashChain_Inr_iff:
  assumes "noble_ok nb"
  shows "computeEventHashChain nb es sid v = Inr c \<longleftrightarrow>
     es \<noteq> [] \<and> valid_log es \<and> isUuid sid \<and> c = tips_from nb sid v None es"
proof -
  have "chain_from nb None es sid v = Inr (tips_from nb sid v None es)" if "valid_log es" "isUuid sid"
    using chain_from_valid [OF assms that(2), of 0 "-1" es None] that(1) by (simp add: valid_log_def)
  then show ?thesis
    using chain_from_Inr_uuid [OF assms] by (auto simp: computeEventHashChain_def)
qed

section \<open>The seal in closed form\<close>

definition seal_text :: "format_version \<Rightarrow> text_binding option \<Rightarrow> finalization \<Rightarrow> jsstring option" where
  "seal_text v tb fin =
     (if v = V0_3 then (case canonicalizeJson (seal_json fin tb) of Inr s \<Rightarrow> Some s | Inl _ \<Rightarrow> None)
      else if v = V0_1 then None
      else case tb of None \<Rightarrow> None
        | Some b \<Rightarrow> (case canonicalizeJson (text_binding_json b) of Inr s \<Rightarrow> Some s | Inl _ \<Rightarrow> None))"

definition seal_inputs :: "noble \<Rightarrow> jsstring \<Rightarrow> format_version \<Rightarrow> text_binding option \<Rightarrow> finalization \<Rightarrow> nat list list" where
  "seal_inputs nb tip v tb fin = (case seal_text v tb fin of None \<Rightarrow> [] | Some s \<Rightarrow> [tip_bytes nb tip @ s])"

lemma valid_binding_ascii:
  "validateTextBinding (text_binding_json b) = [] \<Longrightarrow> ascii_json (text_binding_json b)"
proof -
  assume "validateTextBinding (text_binding_json b) = []"
  then have "tb_scheme b = TEXT_BINDING_SCHEME" "is_b3_hash (tb_commitment b)"
    by (auto simp: validateTextBinding_def text_binding_json_def field_def split: if_splits)
  moreover have "ascii h" if "is_b3_hash h" for h
    using that by (fastforce simp: is_b3_hash_iff hex64_def list_all_iff is_hex_def HASH_PREFIX_def ascii_def)
  ultimately show ?thesis by (simp add: text_binding_json_def TEXT_BINDING_SCHEME_def)
qed

lemma is_b3_hash_ascii: "is_b3_hash h \<Longrightarrow> ascii h"
  by (fastforce simp: is_b3_hash_iff hex64_def list_all_iff is_hex_def HASH_PREFIX_def ascii_def)

lemma finalization_errors_Nil:
  "finalization_errors fin tb = [] \<Longrightarrow> (\<exists>d p. fin = Some (d, p) \<and> in_ms_range d \<and> (\<forall>h. p = Some h \<longrightarrow> is_b3_hash h))
     \<and> (\<forall>b. tb = Some b \<longrightarrow> validateTextBinding (text_binding_json b) = [])"
  by (cases fin; cases tb)
     (auto simp: finalization_errors_def duration_of_def parent_of_def check_simps
        validateElapsedMilliseconds_def in_ms_range_def split: option.splits if_splits)

lemma ascii_nullable_str: "\<forall>h. p = Some h \<longrightarrow> is_b3_hash h \<Longrightarrow> ascii_json (nullable_str p)"
  by (cases p) (auto intro: is_b3_hash_ascii)

lemma finalization_ascii: "finalization_errors fin tb = [] \<Longrightarrow> ascii_json (seal_json fin tb)"
  using finalization_errors_Nil [of fin tb] valid_binding_ascii ascii_nullable_str
  by (auto simp: seal_json_def duration_of_def parent_of_def nullable_binding_def split: option.splits)

lemma hash_after_tip_Inr:
  assumes "noble_ok nb" and "is_b3_hash tip" and "ascii_json v"
  shows "hash_after_tip nb tip (canonical v) = Inr h \<longleftrightarrow>
     (\<exists>s. canonicalizeJson v = Inr s \<and> h = b3HashBytes nb (tip_bytes nb tip @ s))"
proof -
  obtain bs where "b3HashToBytes nb tip = Inr bs" using b3HashToBytes_total [OF assms(2)] by blast
  then show ?thesis
    using ascii_canonicalizeJson [OF assms(3)] noble_utf8 [OF assms(1)]
    by (auto simp: hash_after_tip_def tip_bytes_def andThen_Inr_iff)
qed

lemma sealRecordHash_Inr:
  assumes "noble_ok nb" and "sealRecordHash nb tip v tb fin = Inr h"
  shows "is_b3_hash tip \<and> (case seal_text v tb fin of
      None \<Rightarrow> h = tip \<and> (v = V0_1 \<or> v = V0_2 \<and> tb = None)
    | Some s \<Rightarrow> h = b3HashBytes nb (tip_bytes nb tip @ s))"
proof -
  have tip: "is_b3_hash tip" using assms(2) by (simp add: sealRecordHash_def)
  show ?thesis
  proof (cases "v = V0_3")
    case True
    with assms(2) have ok: "finalization_errors fin tb = []"
      and "hash_after_tip nb tip (canonical (seal_json fin tb)) = Inr h"
      by (simp_all add: sealRecordHash_def)
    then obtain s where "canonicalizeJson (seal_json fin tb) = Inr s" "h = b3HashBytes nb (tip_bytes nb tip @ s)"
      using hash_after_tip_Inr [OF assms(1) tip finalization_ascii [OF ok]] by blast
    with True tip show ?thesis by (simp add: seal_text_def)
  next
    case v: False
    show ?thesis
    proof (cases "v = V0_1 \<or> tb = None")
      case True
      with v tip assms(2) show ?thesis
        by (cases v) (auto simp: sealRecordHash_def seal_text_def split: option.splits)
    next
      case False
      then obtain b where b: "tb = Some b" "v = V0_2" using v by (cases v) auto
      with v assms(2) have ok: "validateTextBinding (text_binding_json b) = []"
        and "hash_after_tip nb tip (canonical (text_binding_json b)) = Inr h"
        by (auto simp: sealRecordHash_def canonicalizeTextBinding_def hash_after_tip_def andThen_Inr_iff)
      then obtain s where "canonicalizeJson (text_binding_json b) = Inr s" "h = b3HashBytes nb (tip_bytes nb tip @ s)"
        using hash_after_tip_Inr [OF assms(1) tip valid_binding_ascii [OF ok]] by blast
      with b tip show ?thesis by (simp add: seal_text_def)
    qed
  qed
qed

section \<open>What a record hash determines\<close>

text \<open>What the seal of each format version covers, besides the event chain.\<close>

definition sealed_content ::
  "format_version \<Rightarrow> text_binding option \<Rightarrow> finalization \<Rightarrow> format_version \<times> text_binding option \<times> finalization" where
  "sealed_content v tb fin = (v, if v = V0_1 then None else tb, if v = V0_3 then fin else None)"

text \<open>Every byte string that \<open>computeRecordHash\<close> hashes, in order.\<close>

definition hashed_inputs ::
  "noble \<Rightarrow> event_log \<Rightarrow> jsstring \<Rightarrow> format_version \<Rightarrow> text_binding option \<Rightarrow> finalization \<Rightarrow> nat list list" where
  "hashed_inputs nb es sid v tb fin =
     chain_inputs nb sid v es @ (case tip_after nb sid v es of None \<Rightarrow> [] | Some tip \<Rightarrow> seal_inputs nb tip v tb fin)"

definition collide :: "noble \<Rightarrow> nat list list \<Rightarrow> nat list list \<Rightarrow> bool" where
  "collide nb xs ys \<longleftrightarrow> (\<exists>x \<in> set xs. \<exists>y \<in> set ys. x \<noteq> y \<and> blake3 nb x = blake3 nb y)"

lemma collide_append [intro]:
  "collide nb xs ys \<Longrightarrow> collide nb (xs @ xs') (ys @ ys')"
  by (auto simp: collide_def)

lemma collideI: "x \<in> set xs \<Longrightarrow> y \<in> set ys \<Longrightarrow> blake3 nb x = blake3 nb y \<Longrightarrow> x \<noteq> y \<Longrightarrow> collide nb xs ys"
  by (auto simp: collide_def)

lemma chain_tip_binding:
  assumes "noble_ok nb" and "isUuid sid" and "isUuid sid'"
    and "tip_after nb sid v es = tip_after nb sid' v' es'"
  shows "collide nb (chain_inputs nb sid v es) (chain_inputs nb sid' v' es')
     \<or> es = es' \<and> (es \<noteq> [] \<longrightarrow> sid = sid' \<and> eventChainFormatVersion v = eventChainFormatVersion v')"
  using assms(4)
proof (induction es arbitrary: es' rule: rev_induct)
  case Nil
  then show ?case by (cases es' rule: rev_cases) (auto simp: next_tip_def)
next
  case (snoc e es)
  then obtain e' fs where es': "es' = fs @ [e']"
    by (cases es' rule: rev_cases) (auto simp: next_tip_def)
  let ?x = "event_preimage nb sid v (tip_after nb sid v es) e"
  let ?y = "event_preimage nb sid' v' (tip_after nb sid' v' fs) e'"
  have eq: "blake3 nb ?x = blake3 nb ?y"
    using snoc.prems es' noble_hash(3) [OF assms(1)] by (simp add: next_tip_def)
  show ?case
  proof (cases "?x = ?y")
    case False
    with eq es' show ?thesis by (auto intro!: collideI [where x = ?x and y = ?y])
  next
    case True
    have tips: "\<exists>bs. h = b3HashBytes nb bs" if "tip_after nb s w xs = Some h" for h s w xs
      using that tip_after_hash [of xs nb s w] by (cases xs) auto
    have e: "e = e' \<and> tip_after nb sid v es = tip_after nb sid' v' fs \<and>
      (tip_after nb sid v es = None \<longrightarrow> sid = sid' \<and> eventChainFormatVersion v = eventChainFormatVersion v')"
      by (rule event_preimage_inj [OF assms(1-3) _ _ True]) (erule tips)+
    then have "tip_after nb sid v es = tip_after nb sid' v' fs" by blast
    from snoc.IH [OF this] show ?thesis
    proof
      assume "collide nb (chain_inputs nb sid v es) (chain_inputs nb sid' v' fs)"
      with es' show ?thesis by auto
    next
      assume "es = fs \<and> (es \<noteq> [] \<longrightarrow> sid = sid' \<and> eventChainFormatVersion v = eventChainFormatVersion v')"
      with e es' show ?thesis by (cases "es = []") auto
    qed
  qed
qed

lemma binding_normal_form:
  "json_norm (text_binding_json b) = JObj
     [(js ''canonical_length'', JNum (JInt (tb_canonical_length b))),
      (js ''commitment'', JStr (tb_commitment b)),
      (js ''scheme'', JStr (tb_scheme b))]"
  by (simp add: text_binding_json_def present_def by_key_def codepoints_no_high high_def)

lemma text_binding_json_norm_inj: "json_norm (text_binding_json b) = json_norm (text_binding_json c) \<Longrightarrow> b = c"
  by (cases b; cases c) (simp add: binding_normal_form)

lemma nullable_binding_norm_inj:
  "json_norm (nullable_binding b) = json_norm (nullable_binding c) \<Longrightarrow> b = c"
  using text_binding_json_norm_inj
  by (cases b; cases c) (auto simp: nullable_binding_def binding_normal_form)

lemma seal_normal_form:
  "json_norm (seal_json (Some (d, p)) tb) = JObj
     [(js ''duration_ms'', JNum (JInt d)),
      (js ''format_version'', JStr (js (version_name V0_3))),
      (js ''parent_record'', nullable_str p),
      (js ''text_binding'', json_norm (nullable_binding tb))]"
proof -
  have "json_norm (nullable_str p) = nullable_str p" "nullable_str p \<noteq> JUndefined" by (cases p; simp)+
  moreover have "nullable_binding tb \<noteq> JUndefined" by (cases tb) (auto simp: nullable_binding_def text_binding_json_def)
  ultimately show ?thesis
    by (simp add: seal_json_def duration_of_def parent_of_def present_def by_key_def codepoints_no_high high_def)
qed

lemma seal_text_canonical [consumes 2]:
  assumes "seal_text v tb fin = Some s" and "v = V0_3 \<longrightarrow> fin \<noteq> None"
  obtains (binding) b where "v = V0_2" "tb = Some b" "canonicalizeJson (text_binding_json b) = Inr s"
  | (seal) d p where "v = V0_3" "fin = Some (d, p)" "canonicalizeJson (seal_json (Some (d, p)) tb) = Inr s"
  using assms by (cases v) (auto simp: seal_text_def split: option.splits sum.splits)

lemma seal_text_inj:
  assumes "seal_text v tb fin = Some s" "v = V0_3 \<longrightarrow> fin \<noteq> None"
    and "seal_text v' tb' fin' = Some s" "v' = V0_3 \<longrightarrow> fin' \<noteq> None"
  shows "sealed_content v tb fin = sealed_content v' tb' fin'"
  using assms(1,2)
proof (cases rule: seal_text_canonical)
  case b: (binding b)
  from assms(3,4) show ?thesis
  proof (cases rule: seal_text_canonical)
    case (binding c)
    with b canonicalizeJson_inj_norm [OF b(3) binding(3)] text_binding_json_norm_inj [of b c]
    show ?thesis by (simp add: sealed_content_def)
  next
    case (seal d p)
    from canonicalizeJson_inj_norm [OF b(3) seal(3)] show ?thesis
      by (simp add: binding_normal_form seal_normal_form)
  qed
next
  case s: (seal d p)
  from assms(3,4) show ?thesis
  proof (cases rule: seal_text_canonical)
    case (binding c)
    from canonicalizeJson_inj_norm [OF s(3) binding(3)] show ?thesis
      by (simp add: binding_normal_form seal_normal_form)
  next
    case (seal d' p')
    with s canonicalizeJson_inj_norm [OF s(3) seal(3)] nullable_binding_norm_inj [of tb tb']
    show ?thesis by (simp add: sealed_content_def seal_normal_form)
  qed
qed

lemma seal_text_neq_event:
  assumes "seal_text v tb fin = Some s" "v = V0_3 \<longrightarrow> fin \<noteq> None"
  shows "s \<noteq> event_text e"
  using assms
proof (cases rule: seal_text_canonical)
  case (binding b)
  with event_text_neq_object [of "text_binding_json b" e] show ?thesis
    by (auto simp: binding_normal_form)
next
  case (seal d p)
  with event_text_neq_object [of "seal_json (Some (d, p)) tb" e] show ?thesis
    by (auto simp: seal_normal_form)
qed

lemma seal_text_head:
  assumes "seal_text v tb fin = Some s"
  shows "\<exists>t. s = 123 # t"
  using assms canonical_object_head
  by (auto simp: seal_text_def seal_json_def text_binding_json_def simp del: canonicalizeJson.simps
      split: if_splits option.splits sum.splits)

text \<open>A computed record hash is the digest of the last input that was hashed.\<close>

lemma computeRecordHash_Inr:
  assumes "noble_ok nb" and "computeRecordHash nb es sid v tb fin = Inr h"
  obtains tip where "isUuid sid" "valid_log es" "es \<noteq> []" "tip_after nb sid v es = Some tip"
    "sealRecordHash nb tip v tb fin = Inr h"
proof -
  from assms(2) obtain chain where c: "computeEventHashChain nb es sid v = Inr chain"
    and s: "sealRecordHash nb (last chain) v tb fin = Inr h"
    by (auto simp: computeRecordHash_def andThen_Inr_iff)
  from c have "es \<noteq> []" "valid_log es" "isUuid sid" "chain = tips_from nb sid v None es"
    by (simp_all add: computeEventHashChain_Inr_iff [OF assms(1)])
  with that s last_tips_from [of es nb sid v] show thesis by metis
qed

lemma sealRecordHash_finalized:
  "sealRecordHash nb tip V0_3 tb fin = Inr h \<Longrightarrow> fin \<noteq> None"
  by (cases fin) (auto simp: sealRecordHash_def finalization_errors_def duration_of_def
      validateElapsedMilliseconds_def guard_def split: if_splits)

lemma chain_input_shape:
  "z \<in> set (chain_inputs nb s w xs) \<Longrightarrow>
     \<exists>e p. z = event_preimage nb s w p e \<and> (p = None \<or> (\<exists>bs. p = Some (b3HashBytes nb bs)))"
proof (induction xs rule: rev_induct)
  case (snoc e xs)
  show ?case
  proof (cases "xs = []")
    case True
    with snoc.prems show ?thesis by (auto simp: chain_inputs_def)
  next
    case False
    with snoc tip_after_hash [of xs nb s w] show ?thesis by auto
  qed
qed simp

text \<open>The byte string of a seal is never the byte string of an event.\<close>

lemma seal_input_apart:
  assumes "noble_ok nb" and "z \<in> set (chain_inputs nb sid w xs)" and "isUuid sid"
    and "length (tip_bytes nb t) = 32"
    and "seal_text u b f = Some txt" and "u = V0_3 \<longrightarrow> f \<noteq> None"
  shows "tip_bytes nb t @ txt \<noteq> z"
proof -
  obtain e p where z: "z = event_preimage nb sid w p e"
    and p: "p = None \<or> (\<exists>bs. p = Some (b3HashBytes nb bs))" using chain_input_shape [OF assms(2)] by blast
  have c: "(tip_bytes nb t @ txt) ! 32 = 123"
    using seal_text_head [OF assms(5)] assms(4) later_input_char by blast
  show ?thesis
  proof (cases p)
    case None
    with z c first_input_char [OF assms(3)] show ?thesis by (auto simp: event_preimage_def)
  next
    case (Some q)
    with p noble_digest [OF assms(1)] have "length (tip_bytes nb q) = 32"
      by (auto simp: tip_bytes_hash [OF assms(1)] bytes32_def)
    with Some z assms(4) seal_text_neq_event [OF assms(5,6)] show ?thesis by (auto simp: event_preimage_def)
  qed
qed

lemma same_sealed_hash:
  assumes nb: "noble_ok nb" and uuid: "isUuid sid" "isUuid sid'"
    and es: "es \<noteq> []" "es' \<noteq> []"
    and tip: "tip_after nb sid v es = Some tip" "tip_after nb sid' v' es' = Some tip'"
    and seal: "sealRecordHash nb tip v tb fin = Inr h" "sealRecordHash nb tip' v' tb' fin' = Inr h"
  shows "collide nb (hashed_inputs nb es sid v tb fin) (hashed_inputs nb es' sid' v' tb' fin')
     \<or> tip = tip' \<and> sealed_content v tb fin = sealed_content v' tb' fin'
     \<or> tip = tip' \<and> seal_text v tb fin = None \<and> seal_text v' tb' fin' = None"
proof -
  obtain x where x: "x \<in> set (chain_inputs nb sid v es)" "tip = b3HashBytes nb x"
    using tip_after_hash [OF es(1), of nb sid v] tip(1) by auto
  obtain y where y: "y \<in> set (chain_inputs nb sid' v' es')" "tip' = b3HashBytes nb y"
    using tip_after_hash [OF es(2), of nb sid' v'] tip(2) by auto
  have len: "length (tip_bytes nb tip) = 32" "length (tip_bytes nb tip') = 32"
    using noble_digest [OF nb] x y by (simp_all add: tip_bytes_hash [OF nb] bytes32_def)
  have fin: "v = V0_3 \<longrightarrow> fin \<noteq> None" "v' = V0_3 \<longrightarrow> fin' \<noteq> None"
    using seal sealRecordHash_finalized by blast+
  note s1 = sealRecordHash_Inr [OF nb seal(1)] and s2 = sealRecordHash_Inr [OF nb seal(2)]
  note apart = seal_input_apart [OF nb]
  consider (none) "seal_text v tb fin = None" "seal_text v' tb' fin' = None"
    | (left) s where "seal_text v tb fin = Some s" "seal_text v' tb' fin' = None"
    | (right) s where "seal_text v tb fin = None" "seal_text v' tb' fin' = Some s"
    | (both) s s' where "seal_text v tb fin = Some s" "seal_text v' tb' fin' = Some s'"
    by (cases "seal_text v tb fin"; cases "seal_text v' tb' fin'") auto
  then show ?thesis
  proof cases
    case none
    with s1 s2 show ?thesis by simp
  next
    case left
    with s1 s2 y have "blake3 nb (tip_bytes nb tip @ s) = blake3 nb y" using noble_hash(3) [OF nb] by simp
    with left apart [OF y(1) uuid(2) len(1) left(1) fin(1)] tip y(1) have
      "collide nb (hashed_inputs nb es sid v tb fin) (hashed_inputs nb es' sid' v' tb' fin')"
      by (intro collideI [where x = "tip_bytes nb tip @ s" and y = y]) (auto simp: hashed_inputs_def seal_inputs_def)
    then show ?thesis by simp
  next
    case right
    with s1 s2 x have "blake3 nb x = blake3 nb (tip_bytes nb tip' @ s)" using noble_hash(3) [OF nb] by simp
    with right apart [OF x(1) uuid(1) len(2) right(2) fin(2)] tip x(1) have
      "collide nb (hashed_inputs nb es sid v tb fin) (hashed_inputs nb es' sid' v' tb' fin')"
      by (intro collideI [where x = x and y = "tip_bytes nb tip' @ s"]) (auto simp: hashed_inputs_def seal_inputs_def)
    then show ?thesis by simp
  next
    case both
    then have eq: "blake3 nb (tip_bytes nb tip @ s) = blake3 nb (tip_bytes nb tip' @ s')"
      using s1 s2 noble_hash(3) [OF nb] by simp
    show ?thesis
    proof (cases "tip_bytes nb tip @ s = tip_bytes nb tip' @ s'")
      case True
      with len have "tip_bytes nb tip = tip_bytes nb tip'" "s = s'" by auto
      with x y noble_hash(3) [OF nb] have "tip = tip'" by (simp add: tip_bytes_hash [OF nb])
      moreover have "sealed_content v tb fin = sealed_content v' tb' fin'"
        using seal_text_inj [of v tb fin s v' tb' fin'] both fin \<open>s = s'\<close> by simp
      ultimately show ?thesis by simp
    next
      case False
      with eq both tip have "collide nb (hashed_inputs nb es sid v tb fin) (hashed_inputs nb es' sid' v' tb' fin')"
        by (intro collideI [OF _ _ eq False]) (auto simp: hashed_inputs_def seal_inputs_def)
      then show ?thesis by simp
    qed
  qed
qed

lemma sealed_contents_agree:
  assumes "noble_ok nb" and "sealRecordHash nb tip v tb fin = Inr h" and "sealRecordHash nb tip' v' tb' fin' = Inr h'"
    and "seal_text v tb fin = None" and "seal_text v' tb' fin' = None"
    and "eventChainFormatVersion v = eventChainFormatVersion v'"
  shows "sealed_content v tb fin = sealed_content v' tb' fin'"
  using sealRecordHash_Inr [OF assms(1,2)] sealRecordHash_Inr [OF assms(1,3)] assms(4-)
  by (auto simp: sealed_content_def eventChainFormatVersion_def)

lemma computeRecordHash_V0_1:
  assumes "noble_ok nb" and "es \<noteq> []" and "valid_log es" and "isUuid sid"
  shows "computeRecordHash nb es sid V0_1 tb fin = Inr (last (tips_from nb sid V0_1 None es))"
proof -
  from last_tips_from [OF assms(2), of nb sid V0_1] tip_after_hash [OF assms(2), of nb sid V0_1]
  obtain bs where "last (tips_from nb sid V0_1 None es) = b3HashBytes nb bs" by auto
  then have "is_b3_hash (last (tips_from nb sid V0_1 None es))" using noble_hash(1) [OF assms(1)] by simp
  moreover have "computeEventHashChain nb es sid V0_1 = Inr (tips_from nb sid V0_1 None es)"
    using assms by (simp add: computeEventHashChain_Inr_iff)
  ultimately show ?thesis
    by (auto simp: computeRecordHash_def sealRecordHash_def split: option.splits)
qed

lemma binding_of_hashes:
  assumes "noble_ok nb"
    and "computeRecordHash nb es sid v tb fin = Inr h"
    and "computeRecordHash nb es' sid' v' tb' fin' = Inr h"
  shows "es = es' \<and> sid = sid' \<and> sealed_content v tb fin = sealed_content v' tb' fin'
     \<or> collide nb (hashed_inputs nb es sid v tb fin) (hashed_inputs nb es' sid' v' tb' fin')"
proof -
  from computeRecordHash_Inr [OF assms(1,2)] obtain tip where a: "isUuid sid" "es \<noteq> []"
    "tip_after nb sid v es = Some tip" "sealRecordHash nb tip v tb fin = Inr h" by metis
  from computeRecordHash_Inr [OF assms(1,3)] obtain tip' where b: "isUuid sid'" "es' \<noteq> []"
    "tip_after nb sid' v' es' = Some tip'" "sealRecordHash nb tip' v' tb' fin' = Inr h" by metis
  note binding = chain_tip_binding [OF assms(1) a(1) b(1), of v es v' es']
  from same_sealed_hash [OF assms(1) a(1) b(1) a(2) b(2) a(3) b(3) a(4) b(4)] binding show ?thesis
    using a b sealed_contents_agree [OF assms(1) a(4) b(4)]
    by (auto simp: hashed_inputs_def)
qed

text \<open>C10: The record hash is binding. When two records get the same hash, either they have the same
  events, session id, format version and sealed content (text binding from 0.2 on, duration and
  parent record from 0.3 on), or two different byte strings that were hashed on the way, one for
  each record, have the same BLAKE3 digest.\<close>

theorem record_hash_binding:
  assumes "noble_ok nb"
    and "computeRecordHash nb es sid v tb fin = Inr h"
    and "computeRecordHash nb es' sid' v' tb' fin' = Inr h"
  shows "es = es' \<and> sid = sid' \<and> sealed_content v tb fin = sealed_content v' tb' fin'
     \<or> collide nb (hashed_inputs nb es sid v tb fin) (hashed_inputs nb es' sid' v' tb' fin')"
  by (rule binding_of_hashes [OF assms])

lemma record_hash_binding_witness:
  "\<exists>h. computeRecordHash sample_noble [sample_event, sample_paste] sample_session V0_1 None None = Inr h \<and>
     computeRecordHash sample_noble [sample_event, sample_paste] sample_session V0_1 None (Some (7, None)) = Inr h \<and>
     ([sample_event, sample_paste] = [sample_event, sample_paste] \<and> sample_session = sample_session \<and>
        sealed_content V0_1 None None = sealed_content V0_1 None (Some (7, None))
      \<or> collide sample_noble
          (hashed_inputs sample_noble [sample_event, sample_paste] sample_session V0_1 None None)
          (hashed_inputs sample_noble [sample_event, sample_paste] sample_session V0_1 None (Some (7, None))))"
proof -
  obtain h where h: "computeRecordHash sample_noble [sample_event, sample_paste] sample_session V0_1 tb fin = Inr h"
    for tb fin using computeRecordHash_V0_1 [OF sample_noble_ok _ sample_log_valid] by blast
  show ?thesis
    by (intro exI [of _ h] conjI h record_hash_binding [OF sample_noble_ok h [of None None] h [of None "Some (7, None)"]])
qed

end
