(* ===== verification/Text_Binding.thy ===== *)
theory Text_Binding
  imports Record_Commitment Casefold
begin

text \<open>
  Binding a record to a text without storing it (\<open>packages/format/src/index.ts\<close>): the canonical
  form of a text, the commitment to it, and the check of a candidate text, which tries the
  windows near both edges of the candidate. Unicode normalization and the test for letters,
  numbers and marks belong to the platform and are the fields of a record \<open>unicode\<close>.
\<close>

section \<open>The canonical form\<close>

record unicode =
  nfkc :: "jsstring \<Rightarrow> jsstring"
  letter_number_mark :: "nat \<Rightarrow> bool"

text \<open>Surrogates are no letters, numbers or marks, and normalization returns 16-bit units.\<close>

definition unicode_ok :: "unicode \<Rightarrow> bool" where
  "unicode_ok u \<longleftrightarrow> (\<forall>p. letter_number_mark u p \<longrightarrow> \<not> surrogate p)
     \<and> (\<forall>s. list_all (\<lambda>c. c < 0x10000) s \<longrightarrow> list_all (\<lambda>c. c < 0x10000) (nfkc u s))"

text \<open>Different well-formed strings have different UTF-8 encodings.\<close>

definition utf8_injective :: "noble \<Rightarrow> bool" where
  "utf8_injective nb \<longleftrightarrow> (\<forall>ps qs. list_all (\<lambda>p. \<not> surrogate p \<and> p < 0x110000) ps \<longrightarrow>
      list_all (\<lambda>p. \<not> surrogate p \<and> p < 0x110000) qs \<longrightarrow>
      utf8ToBytes nb (encode_points ps) = utf8ToBytes nb (encode_points qs) \<longrightarrow> ps = qs)"

definition canonicalizeTextForBinding :: "unicode \<Rightarrow> jsstring \<Rightarrow> jsstring" where
  "canonicalizeTextForBinding u input =
     encode_points (filter (letter_number_mark u) (codepoints (unicodeFullCasefold (nfkc u input))))"

definition computeTextBindingCommitment :: "noble \<Rightarrow> jsstring \<Rightarrow> jsstring \<Rightarrow> format_error + jsstring" where
  "computeTextBindingCommitment nb sessionId canonicalForm =
     guard (\<not> isUuid sessionId) InvalidSessionId
     (guard (canonicalForm = []) EmptyBinding
       (Inr (b3HashBytes nb (utf8ToBytes nb sessionId @ utf8ToBytes nb canonicalForm))))"

definition createTextBinding :: "noble \<Rightarrow> unicode \<Rightarrow> jsstring \<Rightarrow> jsstring \<Rightarrow> format_error + text_binding" where
  "createTextBinding nb u input sessionId =
     (let canonicalForm = canonicalizeTextForBinding u input in
      andThen (computeTextBindingCommitment nb sessionId canonicalForm) (\<lambda>c.
        Inr \<lparr>tb_scheme = TEXT_BINDING_SCHEME, tb_canonical_length = int (codepointLength canonicalForm),
             tb_commitment = c\<rparr>))"

section \<open>Checking a candidate\<close>

definition TEXT_BINDING_EDGE_WINDOW_CANONICAL_LENGTH :: int where
  "TEXT_BINDING_EDGE_WINDOW_CANONICAL_LENGTH = 160"

definition textBindingCandidateWindowOffsets :: "int \<Rightarrow> int \<Rightarrow> int list" where
  "textBindingCandidateWindowOffsets candidateLength bindingLength =
     (if candidateLength < bindingLength \<or> bindingLength \<le> 0 then []
      else let maxStart = candidateLength - bindingLength;
               leadingLimit = min TEXT_BINDING_EDGE_WINDOW_CANONICAL_LENGTH maxStart;
               trailingStart = max 0 (maxStart - TEXT_BINDING_EDGE_WINDOW_CANONICAL_LENGTH)
           in sort (remdups ([0..leadingLimit] @ [trailingStart..maxStart])))"

datatype binding_error =
    BindingInvalid verror
  | BadSession
  | TooShort int int
  | CommitmentMismatch

record binding_result =
  br_valid :: bool
  br_canonicalLength :: int
  br_candidateCanonicalLength :: int
  br_matchStart :: "int option"
  br_leading :: "int option"
  br_trailing :: "int option"
  br_checkedWindowCount :: int
  br_errors :: "binding_error list"

definition window_at :: "nat list \<Rightarrow> int \<Rightarrow> int \<Rightarrow> nat list" where
  "window_at ps offset n = take (nat n) (drop (nat offset) ps)"

text \<open>The loop over the offsets: the first whose window has the commitment.\<close>

fun find_window ::
  "noble \<Rightarrow> jsstring \<Rightarrow> nat list \<Rightarrow> text_binding \<Rightarrow> int list \<Rightarrow> format_error + int option" where
  "find_window nb sessionId ps b [] = Inr None"
| "find_window nb sessionId ps b (offset # offsets) =
     andThen (computeTextBindingCommitment nb sessionId (encode_points (window_at ps offset (tb_canonical_length b))))
       (\<lambda>c. if c = tb_commitment b then Inr (Some offset) else find_window nb sessionId ps b offsets)"

definition verifyTextBindingCandidate ::
  "noble \<Rightarrow> unicode \<Rightarrow> text_binding \<Rightarrow> jsstring \<Rightarrow> jsstring \<Rightarrow> format_error + binding_result" where
  "verifyTextBindingCandidate nb u b candidateText sessionId =
     (let errors = List.map BindingInvalid (validateTextBinding (text_binding_json b))
            @ (if isUuid sessionId then [] else [BadSession]);
          ps = codepoints (canonicalizeTextForBinding u candidateText);
          available = int (length ps); n = tb_canonical_length b;
          result = (\<lambda>errs match count. \<lparr>br_valid = (match \<noteq> None), br_canonicalLength = n,
             br_candidateCanonicalLength = available, br_matchStart = match, br_leading = match,
             br_trailing = map_option (\<lambda>off. available - off - n) match, br_checkedWindowCount = count, br_errors = errs\<rparr>)
      in if errors \<noteq> [] then Inr (result errors None 0)
         else if available < n then Inr (result [TooShort n available] None 0)
         else let offsets = textBindingCandidateWindowOffsets available n in
              andThen (find_window nb sessionId ps b offsets) (\<lambda>match.
                Inr (result (if match = None then [CommitmentMismatch] else []) match (int (length offsets)))))"

section \<open>Lemmas\<close>

lemma window_offsets_set:
  "set (textBindingCandidateWindowOffsets c n) =
     (if c < n \<or> n \<le> 0 then {} else {off. 0 \<le> off \<and> off \<le> c - n \<and> (off \<le> 160 \<or> c - n - 160 \<le> off)})"
  by (auto simp: textBindingCandidateWindowOffsets_def Let_def TEXT_BINDING_EDGE_WINDOW_CANONICAL_LENGTH_def)

lemma window_offsets_sorted: "sorted (textBindingCandidateWindowOffsets c n) \<and> distinct (textBindingCandidateWindowOffsets c n)"
  by (simp add: textBindingCandidateWindowOffsets_def Let_def)

text \<open>Canonical forms consist of code points outside the surrogate range.\<close>

definition plain :: "nat list \<Rightarrow> bool" where
  "plain ps \<longleftrightarrow> list_all (\<lambda>p. \<not> surrogate p \<and> p < 0x110000) ps"

lemma plain_readable: "plain ps \<Longrightarrow> readable ps"
  by (induction ps) (auto simp: plain_def readable_Cons surrogate_iff)

lemma readable_bound: "readable ps \<Longrightarrow> list_all (\<lambda>p. p < 0x110000) ps"
  by (induction ps) (auto simp: readable_Cons)

definition canonical_points :: "unicode \<Rightarrow> jsstring \<Rightarrow> nat list" where
  "canonical_points u input = filter (letter_number_mark u) (casefold_points (codepoints (nfkc u input)))"

lemma canonical_form_points:
  assumes "unicode_ok u" and "list_all (\<lambda>c. c < 0x10000) input"
  shows "canonicalizeTextForBinding u input = encode_points (canonical_points u input)"
    and "codepoints (canonicalizeTextForBinding u input) = canonical_points u input"
    and "plain (canonical_points u input)"
proof -
  have units: "list_all (\<lambda>c. c < 0x10000) (nfkc u input)" using assms by (simp add: unicode_ok_def)
  show form: "canonicalizeTextForBinding u input = encode_points (canonical_points u input)"
    by (simp add: canonicalizeTextForBinding_def canonical_points_def codepoints_casefold [OF units])
  have "list_all (\<lambda>p. p < 0x110000) (casefold_points (codepoints (nfkc u input)))"
    using units by (intro readable_bound readable_casefold readable_codepoints)
  then show plain: "plain (canonical_points u input)"
    using assms(1) by (auto simp: plain_def canonical_points_def list_all_iff unicode_ok_def)
  show "codepoints (canonicalizeTextForBinding u input) = canonical_points u input"
    using plain by (simp add: form codepoints_encode plain_readable)
qed

lemma encode_points_Nil [simp]: "encode_points ps = [] \<longleftrightarrow> ps = []"
  by (cases ps) (auto simp: encode_point_def)

definition commitment_input :: "noble \<Rightarrow> jsstring \<Rightarrow> nat list \<Rightarrow> nat list" where
  "commitment_input nb sessionId ps = utf8ToBytes nb sessionId @ utf8ToBytes nb (encode_points ps)"

lemma commitment_points:
  "isUuid sid \<Longrightarrow> ps \<noteq> [] \<Longrightarrow> computeTextBindingCommitment nb sid (encode_points ps) = Inr (b3HashBytes nb (commitment_input nb sid ps))"
  by (simp add: computeTextBindingCommitment_def commitment_input_def)

lemma find_window_spec:
  assumes "isUuid sid" and "\<forall>off \<in> set offs. window_at ps off (tb_canonical_length b) \<noteq> []"
  shows "find_window nb sid ps b offs = Inr (List.find
     (\<lambda>off. b3HashBytes nb (commitment_input nb sid (window_at ps off (tb_canonical_length b))) = tb_commitment b) offs)"
  using assms(2) by (induction offs) (auto simp: commitment_points [OF assms(1)])

lemma window_nonempty:
  assumes "off \<in> set (textBindingCandidateWindowOffsets (int (length ps)) n)"
  shows "length (window_at ps off n) = nat n" "window_at ps off n \<noteq> []"
proof -
  from assms have "0 < n" "0 \<le> off" "off \<le> int (length ps) - n" by (auto simp: window_offsets_set split: if_splits)
  then show "length (window_at ps off n) = nat n" by (simp add: window_at_def)
  with \<open>0 < n\<close> show "window_at ps off n \<noteq> []" by auto
qed

lemma created_binding:
  assumes "unicode_ok u" and "list_all (\<lambda>c. c < 0x10000) input" and "createTextBinding nb u input sid = Inr b"
  shows "isUuid sid" and "canonical_points u input \<noteq> []"
    and "b = \<lparr>tb_scheme = TEXT_BINDING_SCHEME, tb_canonical_length = int (length (canonical_points u input)),
           tb_commitment = b3HashBytes nb (commitment_input nb sid (canonical_points u input))\<rparr>"
  using assms(3) canonical_form_points [OF assms(1,2)]
  by (auto simp: createTextBinding_def Let_def andThen_Inr_iff computeTextBindingCommitment_def guard_Inr_iff
      codepointLength_def commitment_input_def)

lemma created_binding_valid:
  assumes "noble_ok nb" and "0 < n" and "n \<le> MAX_INTEGER_FIELD_VALUE"
  shows "validateTextBinding (text_binding_json \<lparr>tb_scheme = TEXT_BINDING_SCHEME, tb_canonical_length = n,
           tb_commitment = b3HashBytes nb x\<rparr>) = []"
  using assms noble_hash(1) [OF assms(1), of x]
  by (simp add: validateTextBinding_def text_binding_json_def field_def unknown_fields_def check_simps
      in_int_range_def num_eq_def)

lemma commitment_input_inj:
  assumes "utf8_injective nb" and "plain ps" and "plain qs"
  shows "commitment_input nb sid ps = commitment_input nb sid qs \<longleftrightarrow> ps = qs"
  using assms by (auto simp: commitment_input_def utf8_injective_def plain_def)

lemma plain_window: "plain ps \<Longrightarrow> plain (window_at ps off n)"
  by (auto simp: plain_def window_at_def list_all_iff dest: in_set_takeD in_set_dropD)

text \<open>The windows that the check considers, by their offset in the candidate's canonical form.\<close>

definition candidate_windows :: "nat list \<Rightarrow> int \<Rightarrow> (int \<times> nat list) set" where
  "candidate_windows ps n = (\<lambda>off. (off, window_at ps off n)) ` set (textBindingCandidateWindowOffsets (int (length ps)) n)"

lemma find_exists: "(\<exists>x. List.find P xs = Some x) \<longleftrightarrow> (\<exists>x \<in> set xs. P x)"
  by (induction xs) auto

lemma text_binding_check:
  assumes "noble_ok nb" and "unicode_ok u" and "utf8_injective nb"
    and "list_all (\<lambda>c. c < 0x10000) input" and "list_all (\<lambda>c. c < 0x10000) candidate"
    and "createTextBinding nb u input sid = Inr b" and "tb_canonical_length b \<le> MAX_INTEGER_FIELD_VALUE"
  shows "\<exists>r. verifyTextBindingCandidate nb u b candidate sid = Inr r \<and>
     (br_valid r \<longleftrightarrow> (\<exists>(off, w) \<in> candidate_windows (canonical_points u candidate) (tb_canonical_length b).
         blake3 nb (commitment_input nb sid w) = blake3 nb (commitment_input nb sid (canonical_points u input))))"
proof -
  let ?form = "canonical_points u input" and ?ps = "canonical_points u candidate"
  note made = created_binding [OF assms(2,4,6)]
  have b: "tb_canonical_length b = int (length ?form)"
    "tb_commitment b = b3HashBytes nb (commitment_input nb sid ?form)" by (simp_all add: made(3))
  have pos: "0 < int (length ?form)" using made(2) by simp
  have valid: "validateTextBinding (text_binding_json b) = []"
    using created_binding_valid [OF assms(1) pos] assms(7) b(1) by (simp add: made(3))
  let ?offs = "textBindingCandidateWindowOffsets (int (length ?ps)) (int (length ?form))"
  have nonempty: "\<forall>off \<in> set ?offs. window_at ?ps off (tb_canonical_length b) \<noteq> []"
    using window_nonempty(2) b(1) by simp
  have find: "find_window nb sid ?ps b ?offs = Inr (List.find (\<lambda>off.
      blake3 nb (commitment_input nb sid (window_at ?ps off (int (length ?form)))) =
      blake3 nb (commitment_input nb sid ?form)) ?offs)"
    using find_window_spec [OF made(1) nonempty] by (simp add: b noble_hash(3) [OF assms(1)])
  have points: "codepoints (canonicalizeTextForBinding u candidate) = ?ps"
    by (rule canonical_form_points(2) [OF assms(2,5)])
  show ?thesis
  proof (cases "length ?ps < length ?form")
    case True
    then have "candidate_windows ?ps (int (length ?form)) = {}" by (auto simp: candidate_windows_def window_offsets_set)
    with True made(1) valid points b show ?thesis by (simp add: verifyTextBindingCandidate_def Let_def)
  next
    case False
    with made(1) valid points b find show ?thesis
      by (auto simp: verifyTextBindingCandidate_def Let_def candidate_windows_def find_exists)
  qed
qed

section \<open>Properties\<close>

text \<open>Which windows a candidate check tries: exactly the offsets at which a window of the bound length
  fits into the candidate and starts at most 160 code points from the first or the last such
  offset, each once and in increasing order.\<close>

theorem window_offsets_exact:
  "set (textBindingCandidateWindowOffsets c n) =
     (if c < n \<or> n \<le> 0 then {} else {off. 0 \<le> off \<and> off \<le> c - n \<and> (off \<le> 160 \<or> c - n - 160 \<le> off)})
   \<and> sorted (textBindingCandidateWindowOffsets c n) \<and> distinct (textBindingCandidateWindowOffsets c n)"
  by (intro conjI window_offsets_set conjunct1 [OF window_offsets_sorted] conjunct2 [OF window_offsets_sorted])

text \<open>C38: The text binding check is exact. For a binding created from a text, the check of a candidate
  returns, and finds it valid exactly when one of the windows it tries is the canonical form of
  the bound text, or differs from it and is hashed to the same digest.\<close>

theorem text_binding_exact:
  assumes "noble_ok nb" and "unicode_ok u" and "utf8_injective nb"
    and "list_all (\<lambda>c. c < 0x10000) input" and "list_all (\<lambda>c. c < 0x10000) candidate"
    and "createTextBinding nb u input sid = Inr b" and "tb_canonical_length b \<le> MAX_INTEGER_FIELD_VALUE"
  shows "\<exists>r. verifyTextBindingCandidate nb u b candidate sid = Inr r \<and>
     (br_valid r \<longleftrightarrow>
        (\<exists>off. (off, canonical_points u input) \<in> candidate_windows (canonical_points u candidate) (tb_canonical_length b))
      \<or> (\<exists>off w. (off, w) \<in> candidate_windows (canonical_points u candidate) (tb_canonical_length b) \<and>
           commitment_input nb sid w \<noteq> commitment_input nb sid (canonical_points u input) \<and>
           blake3 nb (commitment_input nb sid w) = blake3 nb (commitment_input nb sid (canonical_points u input))))"
proof -
  have inj: "commitment_input nb sid w = commitment_input nb sid (canonical_points u input) \<longleftrightarrow> w = canonical_points u input"
    if "(off, w) \<in> candidate_windows (canonical_points u candidate) n" for off w n
    using that commitment_input_inj [OF assms(3)] plain_window canonical_form_points(3) [OF assms(2,4)]
      canonical_form_points(3) [OF assms(2,5)] by (auto simp: candidate_windows_def)
  from text_binding_check [OF assms] inj show ?thesis by fastforce
qed

definition sample_unicode :: unicode where
  "sample_unicode = \<lparr>nfkc = (\<lambda>s. s), letter_number_mark = (\<lambda>p. 97 \<le> p \<and> p \<le> 122)\<rparr>"

lemma sample_unicode_ok: "unicode_ok sample_unicode"
  by (auto simp: unicode_ok_def sample_unicode_def surrogate_def)

lemma sample_utf8: "utf8_injective sample_noble"
proof -
  have "ps = qs" if "plain ps" "plain qs" "encode_points ps = encode_points qs" for ps qs
    using that codepoints_encode [OF plain_readable] by metis
  then show ?thesis by (simp add: utf8_injective_def sample_noble_def plain_def)
qed

lemma text_binding_exact_witness:
  "\<exists>b r. createTextBinding sample_noble sample_unicode (js ''ab'') sample_session = Inr b \<and>
     verifyTextBindingCandidate sample_noble sample_unicode b (js ''xab'') sample_session = Inr r \<and> br_valid r"
proof -
  have "folded 97" "folded 98" "folded 120" by code_simp+
  then have pts: "canonical_points sample_unicode (js ''ab'') = [97, 98]"
    "canonical_points sample_unicode (js ''xab'') = [120, 97, 98]"
    by (simp_all add: canonical_points_def sample_unicode_def fold_point_folded codepoints_lone high_def)
  obtain b where b: "createTextBinding sample_noble sample_unicode (js ''ab'') sample_session = Inr b"
    "tb_canonical_length b = 2"
    using canonical_form_points [OF sample_unicode_ok, of "js ''ab''"] sample_log_valid(2) pts(1)
    by (simp add: createTextBinding_def computeTextBindingCommitment_def codepointLength_def Let_def guard_def encode_point_def)
  have "set (textBindingCandidateWindowOffsets 3 2) = {0, 1}" by code_simp
  then have "(1, [97, 98]) \<in> candidate_windows [120, 97, 98] 2"
    by (auto simp: candidate_windows_def window_at_def)
  with text_binding_exact [OF sample_noble_ok sample_unicode_ok sample_utf8 _ _ b(1), of "js ''xab''"] b pts
  show ?thesis by (auto simp: MAX_INTEGER_FIELD_VALUE_def)
qed

end
