(* ===== verification/Observed_Length.thy ===== *)
theory Observed_Length
  imports Validation
begin

text \<open>
  The document length that an event log establishes (\<open>computeObservedLength\<close> of \<open>packages/format/src/index.ts\<close>), and its meaning: the log can be played on a document of
  the starting length exactly when the computed length is known, and every play then ends
  with a document of that length.
\<close>

text \<open>One turn of the loop of \<open>computeObservedLength\<close>.\<close>

definition observe_event :: "int option \<Rightarrow> mutation \<Rightarrow> int option" where
  "observe_event len e = (case (ev_pos e, ev_del_len e, ev_ins_len e, len) of
      (Some p, Some d, Some i, Some n) \<Rightarrow> if p > n \<or> p + d > n then None else Some (n - d + i)
    | _ \<Rightarrow> None)"

definition computeObservedLength :: "event_log \<Rightarrow> int option \<Rightarrow> verror list + int option" where
  "computeObservedLength es start =
     (let errors = validateEventLog (JArr (List.map event_json es)) in
      guard (errors \<noteq> []) errors (Inr (foldl observe_event start es)))"

section \<open>Playing a log on a document\<close>

text \<open>An edit with a known place and known sizes removes a slice and puts other content in its place.\<close>

definition edits :: "mutation \<Rightarrow> 'a list \<Rightarrow> 'a list \<Rightarrow> bool" where
  "edits e doc doc' \<longleftrightarrow> (\<exists>p d i new. ev_pos e = Some (int p) \<and> ev_del_len e = Some (int d)
     \<and> ev_ins_len e = Some (int i) \<and> p + d \<le> length doc \<and> length new = i
     \<and> doc' = take p doc @ new @ drop (p + d) doc)"

fun plays :: "event_log \<Rightarrow> 'a list \<Rightarrow> 'a list \<Rightarrow> bool" where
  "plays [] doc doc' \<longleftrightarrow> doc' = doc"
| "plays (e # es) doc doc' \<longleftrightarrow> (\<exists>mid. edits e doc mid \<and> plays es mid doc')"

lemma observe_event_None [simp]: "observe_event None e = None"
  by (simp add: observe_event_def split: option.splits)

lemma observe_None [simp]: "foldl observe_event None es = None"
  by (induction es) auto

lemma edits_observe: "edits e doc doc' \<Longrightarrow> observe_event (Some (int (length doc))) e = Some (int (length doc'))"
  by (auto simp: edits_def observe_event_def)

lemma observe_edits:
  assumes "valid_event e" and "observe_event (Some (int (length doc))) e = Some k"
  shows "\<exists>doc'. edits e doc doc'"
proof -
  from assms(2) obtain p d i where e: "ev_pos e = Some p" "ev_del_len e = Some d" "ev_ins_len e = Some i"
    and fits: "p + d \<le> int (length doc)"
    by (auto simp: observe_event_def split: option.splits if_splits)
  have nonneg: "0 \<le> p" "0 \<le> d" "0 \<le> i"
    using assms(1) e by (auto simp: valid_event_def nullable_range_def in_int_range_def)
  let ?new = "replicate (nat i) (undefined :: 'a)"
  have "edits e doc (take (nat p) doc @ ?new @ drop (nat p + nat d) doc)"
    unfolding edits_def using e nonneg fits
    by (intro exI [of _ "nat p"] exI [of _ "nat d"] exI [of _ "nat i"] exI [of _ ?new]) auto
  then show ?thesis ..
qed

lemma plays_observe:
  "plays es doc doc' \<Longrightarrow> foldl observe_event (Some (int (length doc))) es = Some (int (length doc'))"
  by (induction es arbitrary: doc) (auto dest: edits_observe)

lemma observe_plays:
  "list_all valid_event es \<Longrightarrow> foldl observe_event (Some (int (length doc))) es = Some k \<Longrightarrow> \<exists>doc'. plays es doc doc'"
proof (induction es arbitrary: doc)
  case (Cons e es)
  show ?case
  proof (cases "observe_event (Some (int (length doc))) e")
    case None
    with Cons.prems(2) show ?thesis by simp
  next
    case (Some n)
    with Cons.prems observe_edits [of e doc n] obtain mid where mid: "edits e doc mid" by auto
    with Some have "n = int (length mid)" using edits_observe by fastforce
    with Some Cons.prems have "foldl observe_event (Some (int (length mid))) es = Some k" by simp
    with Cons.IH [of mid] Cons.prems(1) mid show ?thesis by auto
  qed
next
  case Nil
  show ?case by (intro exI [of _ doc]) simp
qed

lemma valid_log_events: "valid_log es \<Longrightarrow> list_all valid_event es"
  using valid_log_nth [of es] by (auto simp: list_all_length)

lemma computeObservedLength_valid:
  "computeObservedLength es start = Inr r \<longleftrightarrow> valid_log es \<and> r = foldl observe_event start es"
  by (auto simp: computeObservedLength_def Let_def validateEventLog_typed)

lemma computeObservedLength_total: "valid_log es \<Longrightarrow> computeObservedLength es start = Inr (foldl observe_event start es)"
  by (simp add: computeObservedLength_valid)

lemma observe_append:
  "foldl observe_event start (es @ fs) = foldl observe_event (foldl observe_event start es) fs"
  by simp

text \<open>C12: The observed length is sound and complete. For a valid log, \<open>computeObservedLength\<close>
  from the length of a document returns a length exactly when the log can be played on that
  document, whatever the document holds; every play ends with a document of that length.\<close>

theorem observed_length_plays:
  assumes "valid_log es"
  shows "computeObservedLength es (Some (int (length doc))) = Inr (Some k)
     \<longleftrightarrow> (\<exists>doc'. plays es doc doc') \<and> (\<forall>doc'. plays es doc doc' \<longrightarrow> int (length doc') = k)"
proof
  assume "computeObservedLength es (Some (int (length doc))) = Inr (Some k)"
  then have f: "foldl observe_event (Some (int (length doc))) es = Some k"
    by (simp add: computeObservedLength_valid)
  with observe_plays [OF valid_log_events [OF assms] f] plays_observe [of es doc]
  show "(\<exists>doc'. plays es doc doc') \<and> (\<forall>doc'. plays es doc doc' \<longrightarrow> int (length doc') = k)" by fastforce
next
  assume "(\<exists>doc'. plays es doc doc') \<and> (\<forall>doc'. plays es doc doc' \<longrightarrow> int (length doc') = k)"
  then show "computeObservedLength es (Some (int (length doc))) = Inr (Some k)"
    using plays_observe [of es doc] assms by (auto simp: computeObservedLength_valid)
qed

definition sample_insert :: mutation where
  "sample_insert = \<lparr>ev_seq = 0, ev_t = 0, ev_op = OpInsert, ev_pos = Some 1, ev_del_len = Some 0,
     ev_ins_len = Some 3, ev_source = Typing\<rparr>"

lemma observed_length_plays_witness:
  "computeObservedLength [sample_insert] (Some (int (length ''ab''))) = Inr (Some 5)
     \<longleftrightarrow> (\<exists>doc'. plays [sample_insert] ''ab'' doc') \<and> (\<forall>doc'. plays [sample_insert] ''ab'' doc' \<longrightarrow> int (length doc') = 5)"
proof (rule observed_length_plays)
  show "valid_log [sample_insert]" by code_simp
qed

end
