(* ===== verification/Analysis.thy ===== *)
theory Analysis
  imports Observed_Length "HOL-Library.Option_ord"
begin

text \<open>
  The measurements of \<open>packages/analyzers\<close>: the fixed-size accumulator that a log is streamed
  through, the statistics and signals read off it, and the size totals of
  \<open>packages/format\<close>. Explanations are kept as data (the facts a sentence quotes), and a rounded
  quotient \<open>round(a / b)\<close> as the pair it is computed from.
\<close>

section \<open>Size totals\<close>

definition add_known :: "int option \<Rightarrow> int option \<Rightarrow> int option" where
  "add_known acc len = (case (acc, len) of (Some a, Some b) \<Rightarrow> Some (a + b) | _ \<Rightarrow> None)"

definition max_known :: "int option \<Rightarrow> int option \<Rightarrow> int option" where
  "max_known largest len = (case (largest, len) of (Some a, Some b) \<Rightarrow> Some (max a b) | _ \<Rightarrow> None)"

record size_totals =
  st_inserted :: "int option"
  st_deleted :: "int option"
  st_largest :: "int option"

definition add_sizes :: "size_totals \<Rightarrow> mutation \<Rightarrow> size_totals" where
  "add_sizes s e = \<lparr>st_inserted = add_known (st_inserted s) (ev_ins_len e),
     st_deleted = add_known (st_deleted s) (ev_del_len e),
     st_largest = max_known (st_largest s) (ev_ins_len e)\<rparr>"

definition aggregateMutationSizes :: "event_log \<Rightarrow> size_totals" where
  "aggregateMutationSizes es =
     foldl add_sizes \<lparr>st_inserted = Some 0, st_deleted = Some 0, st_largest = Some 0\<rparr> es"

section \<open>The accumulator\<close>

definition DEFAULT_IDLE_THRESHOLD_MS :: int where "DEFAULT_IDLE_THRESHOLD_MS = 30000"
definition DEFAULT_LARGE_ATOMIC_INSERT_CODEPOINTS :: int where "DEFAULT_LARGE_ATOMIC_INSERT_CODEPOINTS = 50"
definition DEFAULT_SMALL_EDIT_CODEPOINTS :: int where "DEFAULT_SMALL_EDIT_CODEPOINTS = 5"

text \<open>
  The fields \<open>starting_length\<close> and \<open>measured_*\<close> are absent in uploads begun before they were
  kept; absence is the outer \<open>None\<close>.
\<close>

record accumulator =
  ac_version :: int
  ac_small_threshold :: int
  ac_large_threshold :: int
  ac_count :: int
  ac_first_t :: "int option"
  ac_last_t :: "int option"
  ac_idle_threshold_ms :: int
  ac_starting_length :: "int option option"
  ac_observed_length :: "int option"
  ac_inserted :: "int option"
  ac_deleted :: "int option"
  ac_largest :: "int option"
  ac_measured_inserted :: "int option"
  ac_measured_deleted :: "int option"
  ac_measured_largest :: "int option"
  ac_inserts :: int
  ac_deletes :: int
  ac_replaces :: int
  ac_sources :: "source \<Rightarrow> int"
  ac_source_order :: "source list"
  ac_known_sizes :: int
  ac_unknown_measurements :: int
  ac_small :: int
  ac_large :: int
  ac_deletion_events :: int
  ac_deletion_clusters :: int
  ac_previous_deletion :: bool
  ac_min_delay :: "int option"
  ac_max_delay :: "int option"
  ac_active :: int
  ac_idle :: int
  ac_long_pauses :: int
  ac_histogram :: "int list"

datatype analysis_error =
    InvalidIdleThreshold
  | UnsupportedVersion
  | NotContiguous
  | DoesNotCover

text \<open>\<open>None\<close> for an option the caller leaves out; \<open>startingLength\<close> may also be given as \<open>null\<close>.\<close>

record analysis_options =
  ao_idle :: "int option"
  ao_small :: "int option"
  ao_large :: "int option"
  ao_start :: "int option option"

definition createAnalysisAccumulator :: "int \<Rightarrow> analysis_options \<Rightarrow> analysis_error + accumulator" where
  "createAnalysisAccumulator idleThresholdMs opts =
     guard (idleThresholdMs < 0 \<or> idleThresholdMs > MAX_TIME_FIELD_VALUE) InvalidIdleThreshold
     (Inr \<lparr>ac_version = 1,
       ac_small_threshold = default_to DEFAULT_SMALL_EDIT_CODEPOINTS (ao_small opts),
       ac_large_threshold = default_to DEFAULT_LARGE_ATOMIC_INSERT_CODEPOINTS (ao_large opts),
       ac_count = 0, ac_first_t = None, ac_last_t = None, ac_idle_threshold_ms = idleThresholdMs,
       ac_starting_length = Some (default_to (Some 0) (ao_start opts)),
       ac_observed_length = default_to (Some 0) (ao_start opts),
       ac_inserted = Some 0, ac_deleted = Some 0, ac_largest = Some 0,
       ac_measured_inserted = Some 0, ac_measured_deleted = Some 0, ac_measured_largest = Some 0,
       ac_inserts = 0, ac_deletes = 0, ac_replaces = 0, ac_sources = (\<lambda>_. 0), ac_source_order = [],
       ac_known_sizes = 0, ac_unknown_measurements = 0, ac_small = 0, ac_large = 0,
       ac_deletion_events = 0, ac_deletion_clusters = 0, ac_previous_deletion = False,
       ac_min_delay = None, ac_max_delay = None, ac_active = 0, ac_idle = 0, ac_long_pauses = 0,
       ac_histogram = [0, 0, 0, 0, 0]\<rparr>)"

text \<open>The upper bounds of \<open>HISTOGRAM\<close>; the last bucket has no bound.\<close>

definition bucket_index :: "int \<Rightarrow> nat" where
  "bucket_index delay = (if delay \<le> 999 then 0 else if delay \<le> 4999 then 1
     else if delay \<le> 29999 then 2 else if delay \<le> 299999 then 3 else 4)"

definition add_delay :: "accumulator \<Rightarrow> int \<Rightarrow> accumulator" where
  "add_delay s delay =
     (let s1 = s\<lparr>ac_min_delay := Some (min (default_to delay (ac_min_delay s)) delay),
                 ac_max_delay := Some (max (default_to delay (ac_max_delay s)) delay)\<rparr>;
          s2 = (if delay \<ge> ac_idle_threshold_ms s
                then s1\<lparr>ac_idle := ac_idle s + delay, ac_long_pauses := ac_long_pauses s + 1\<rparr>
                else s1\<lparr>ac_active := ac_active s + delay\<rparr>)
      in s2\<lparr>ac_histogram := (ac_histogram s)[bucket_index delay := ac_histogram s ! bucket_index delay + 1]\<rparr>)"

definition add_time :: "accumulator \<Rightarrow> int \<Rightarrow> accumulator" where
  "add_time s t =
     (let s1 = (case ac_last_t s of None \<Rightarrow> s | Some l \<Rightarrow> add_delay s (t - l))
      in s1\<lparr>ac_first_t := Some (default_to t (ac_first_t s)), ac_last_t := Some t, ac_count := ac_count s + 1\<rparr>)"

definition add_kind :: "accumulator \<Rightarrow> mutation \<Rightarrow> accumulator" where
  "add_kind s e =
     (let s1 = s\<lparr>ac_sources := (ac_sources s)(ev_source e := ac_sources s (ev_source e) + 1),
                 ac_source_order := (if ac_sources s (ev_source e) = 0
                    then ac_source_order s @ [ev_source e] else ac_source_order s)\<rparr>
      in case ev_op e of
          OpInsert \<Rightarrow> s1\<lparr>ac_inserts := ac_inserts s + 1\<rparr>
        | OpDelete \<Rightarrow> s1\<lparr>ac_deletes := ac_deletes s + 1\<rparr>
        | OpReplace \<Rightarrow> s1\<lparr>ac_replaces := ac_replaces s + 1\<rparr>)"

definition add_measured :: "accumulator \<Rightarrow> mutation \<Rightarrow> accumulator" where
  "add_measured s e =
     (let s1 = (case (ev_ins_len e, ac_measured_inserted s, ac_measured_largest s) of
            (Some i, Some mi, Some ml) \<Rightarrow>
               s\<lparr>ac_measured_inserted := Some (mi + i), ac_measured_largest := Some (max ml i)\<rparr>
          | _ \<Rightarrow> s);
          s2 = (case (ev_del_len e, ac_measured_deleted s) of
            (Some d, Some md) \<Rightarrow> s1\<lparr>ac_measured_deleted := Some (md + d)\<rparr>
          | _ \<Rightarrow> s1)
      in s2)"

definition add_totals :: "accumulator \<Rightarrow> mutation \<Rightarrow> accumulator" where
  "add_totals s e = s\<lparr>ac_inserted := add_known (ac_inserted s) (ev_ins_len e),
     ac_deleted := add_known (ac_deleted s) (ev_del_len e),
     ac_largest := max_known (ac_largest s) (ev_ins_len e)\<rparr>"

definition is_deletion :: "mutation \<Rightarrow> bool" where
  "is_deletion e = (case ev_del_len e of None \<Rightarrow> False | Some d \<Rightarrow> d > 0)"

definition add_shape :: "accumulator \<Rightarrow> mutation \<Rightarrow> accumulator" where
  "add_shape s e =
     (let s1 = (case (ev_ins_len e, ev_del_len e) of
            (Some i, Some d) \<Rightarrow> s\<lparr>ac_known_sizes := ac_known_sizes s + 1,
               ac_small := (if i + d \<le> ac_small_threshold s then ac_small s + 1 else ac_small s)\<rparr>
          | _ \<Rightarrow> s);
          s2 = (if ev_pos e = None \<or> ev_ins_len e = None \<or> ev_del_len e = None
                then s1\<lparr>ac_unknown_measurements := ac_unknown_measurements s + 1\<rparr> else s1);
          s3 = (case ev_ins_len e of
            Some i \<Rightarrow> (if i \<ge> ac_large_threshold s then s2\<lparr>ac_large := ac_large s + 1\<rparr> else s2)
          | None \<Rightarrow> s2);
          s4 = (if is_deletion e
                then s3\<lparr>ac_deletion_events := ac_deletion_events s + 1,
                        ac_deletion_clusters := (if ac_previous_deletion s then ac_deletion_clusters s
                                                 else ac_deletion_clusters s + 1)\<rparr>
                else s3)
      in s4\<lparr>ac_previous_deletion := is_deletion e\<rparr>)"

text \<open>Unlike \<open>computeObservedLength\<close>, the accumulator only tests the end of the removed range.\<close>

definition add_length :: "accumulator \<Rightarrow> mutation \<Rightarrow> accumulator" where
  "add_length s e = s\<lparr>ac_observed_length :=
     (case (ac_observed_length s, ev_pos e, ev_del_len e, ev_ins_len e) of
         (Some n, Some p, Some d, Some i) \<Rightarrow> if p + d > n then None else Some (n - d + i)
       | _ \<Rightarrow> None)\<rparr>"

definition appendAnalysisEvent :: "accumulator \<Rightarrow> mutation \<Rightarrow> analysis_error + accumulator" where
  "appendAnalysisEvent s e =
     guard (ac_version s \<noteq> 1) UnsupportedVersion
     (guard (ev_seq e \<noteq> ac_count s \<or> (\<exists>l \<in> set_option (ac_last_t s). ev_t e < l)) NotContiguous
       (Inr (add_length (add_shape (add_measured (add_totals (add_kind (add_time s (ev_t e)) e) e) e) e) e)))"

section \<open>Statistics and signals\<close>

text \<open>A quotient that the source rounds to four digits is kept as the pair it is computed from.\<close>

datatype measure_value = VNull | VInt int | VRatio int int | VBool bool | VStr jsstring

fun nullable_value :: "int option \<Rightarrow> measure_value" where
  "nullable_value None = VNull"
| "nullable_value (Some i) = VInt i"

text \<open>The facts that an explanation quotes.\<close>

datatype explanation =
    TimingMeasured int int "int option" int
  | NoTimingCapability
  | TooFewEvents
  | TopologyMeasured int int int int int "(source \<times> int) list option"
  | NeedsOneEvent
  | AnalyzerFailed jsstring
  | AnalyzerUnavailable jsstring
  | LegacyCorrected

record signal =
  sg_analyzer_id :: string
  sg_analyzer_version :: string
  sg_applicable :: bool
  sg_measures :: "(string \<times> measure_value \<times> string option) list"
  sg_explanation :: explanation

record percentiles =
  p50 :: "int option"
  p90 :: "int option"
  p95 :: "int option"
  p99 :: "int option"

record record_stats =
  rs_record_hash :: jsstring
  rs_event_count :: int
  rs_duration_ms :: int
  rs_starting_length :: "int option"
  rs_observed_final_length :: "int option"
  rs_insert_op_count :: int
  rs_delete_op_count :: int
  rs_replace_op_count :: int
  rs_source_counts :: "source \<Rightarrow> int"
  rs_inserted_codepoints_total :: "int option"
  rs_deleted_codepoints_total :: "int option"
  rs_largest_atomic_insert_codepoints :: "int option"
  rs_measured_inserted_codepoints :: "int option"
  rs_measured_deleted_codepoints :: "int option"
  rs_measured_largest_insert_codepoints :: "int option"
  rs_unknown_size_edit_count :: int
  rs_delay_min_ms :: "int option"
  rs_delay_max_ms :: "int option"
  rs_delay_percentiles :: percentiles
  rs_active_time_ms :: int
  rs_idle_time_ms :: int
  rs_long_pause_count :: int
  rs_delay_histogram :: "(string \<times> int) list"

definition HISTOGRAM_BUCKETS :: "string list" where
  "HISTOGRAM_BUCKETS = [''0-999ms'', ''1s-4.999s'', ''5s-29.999s'', ''30s-299.999s'', ''5m+'']"

definition TIMING_DISTRIBUTION_ANALYZER_ID :: string where
  "TIMING_DISTRIBUTION_ANALYZER_ID = ''timing-distribution''"
definition EDIT_TOPOLOGY_ANALYZER_ID :: string where
  "EDIT_TOPOLOGY_ANALYZER_ID = ''edit-topology''"
definition TIMING_ANALYZER_VERSION :: string where "TIMING_ANALYZER_VERSION = ''0.1.1''"
definition EDIT_TOPOLOGY_ANALYZER_VERSION :: string where "EDIT_TOPOLOGY_ANALYZER_VERSION = ''0.2.0''"

definition stats_of :: "accumulator \<Rightarrow> manifest \<Rightarrow> percentiles \<Rightarrow> record_stats" where
  "stats_of s m ps = \<lparr>rs_record_hash = mf_record_hash m, rs_event_count = ac_count s,
     rs_duration_ms = mf_duration_ms m,
     rs_starting_length = default_to (Some 0) (ac_starting_length s),
     rs_observed_final_length = ac_observed_length s,
     rs_insert_op_count = ac_inserts s, rs_delete_op_count = ac_deletes s, rs_replace_op_count = ac_replaces s,
     rs_source_counts = ac_sources s,
     rs_inserted_codepoints_total = ac_inserted s, rs_deleted_codepoints_total = ac_deleted s,
     rs_largest_atomic_insert_codepoints = ac_largest s,
     rs_measured_inserted_codepoints = ac_measured_inserted s,
     rs_measured_deleted_codepoints = ac_measured_deleted s,
     rs_measured_largest_insert_codepoints = ac_measured_largest s,
     rs_unknown_size_edit_count = ac_count s - ac_known_sizes s,
     rs_delay_min_ms = ac_min_delay s, rs_delay_max_ms = ac_max_delay s, rs_delay_percentiles = ps,
     rs_active_time_ms = ac_active s, rs_idle_time_ms = ac_idle s, rs_long_pause_count = ac_long_pauses s,
     rs_delay_histogram = zip HISTOGRAM_BUCKETS (ac_histogram s)\<rparr>"

definition ms :: "string option" where "ms = Some ''ms''"
definition cps :: "string option" where "cps = Some ''codepoints''"

definition timing_signal :: "accumulator \<Rightarrow> manifest \<Rightarrow> percentiles \<Rightarrow> signal" where
  "timing_signal s m ps =
     (let hasTiming = Timing \<in> set (pr_capabilities (mf_producer m));
          applicable = (hasTiming \<and> ac_count s \<ge> 2)
      in \<lparr>sg_analyzer_id = TIMING_DISTRIBUTION_ANALYZER_ID, sg_analyzer_version = TIMING_ANALYZER_VERSION,
          sg_applicable = applicable,
          sg_measures = (if applicable then
            [(''event_count'', VInt (ac_count s), None), (''interval_count'', VInt (ac_count s - 1), None),
             (''inter_event_delay_min_ms'', nullable_value (ac_min_delay s), ms),
             (''inter_event_delay_p50_ms'', nullable_value (p50 ps), ms),
             (''inter_event_delay_p90_ms'', nullable_value (p90 ps), ms),
             (''inter_event_delay_p95_ms'', nullable_value (p95 ps), ms),
             (''inter_event_delay_max_ms'', nullable_value (ac_max_delay s), ms),
             (''active_time_ms'', VInt (ac_active s), ms), (''idle_time_ms'', VInt (ac_idle s), ms),
             (''long_pause_count'', VInt (ac_long_pauses s), None)] else []),
          sg_explanation = (if applicable
            then TimingMeasured (ac_count s - 1) (ac_idle_threshold_ms s) (ac_max_delay s) (ac_long_pauses s)
            else if \<not> hasTiming then NoTimingCapability else TooFewEvents)\<rparr>)"

text \<open>\<open>revisionRatio\<close>, and its inline copy in \<open>finalizeAnalysis\<close>.\<close>

definition revisionRatio :: "int option \<Rightarrow> int option \<Rightarrow> measure_value" where
  "revisionRatio inserted deleted = (case (inserted, deleted) of
      (Some i, Some d) \<Rightarrow> if i = 0 then VNull else VRatio d i
    | _ \<Rightarrow> VNull)"

definition edit_signal :: "accumulator \<Rightarrow> manifest \<Rightarrow> signal" where
  "edit_signal s m =
     (let small = (if ac_known_sizes s = ac_count s then Some (ac_small s) else None)
      in \<lparr>sg_analyzer_id = EDIT_TOPOLOGY_ANALYZER_ID, sg_analyzer_version = EDIT_TOPOLOGY_ANALYZER_VERSION,
          sg_applicable = True,
          sg_measures =
            [(''event_count'', VInt (ac_count s), None), (''small_edit_count'', nullable_value small, None),
             (''small_edit_ratio'', (case small of None \<Rightarrow> VNull | Some n \<Rightarrow> VRatio n (ac_count s)), None),
             (''unknown_process_measurement_count'', VInt (ac_unknown_measurements s), None),
             (''small_edit_threshold_codepoints'', VInt (ac_small_threshold s), cps),
             (''large_atomic_insert_threshold_codepoints'', VInt (ac_large_threshold s), cps),
             (''large_atomic_insert_count'', (if ac_inserted s = None then VNull else VInt (ac_large s)), None),
             (''atomic_insert_max_len'', nullable_value (ac_largest s), cps),
             (''deletion_count'', (if ac_deleted s = None then VNull else VInt (ac_deletion_events s)), None),
             (''deletion_cluster_count'', (if ac_deleted s = None then VNull else VInt (ac_deletion_clusters s)), None),
             (''replacement_count'', VInt (ac_replaces s), None),
             (''inserted_codepoints_total'', nullable_value (ac_inserted s), cps),
             (''deleted_codepoints_total'', nullable_value (ac_deleted s), cps),
             (''revision_deleted_codepoint_ratio'', revisionRatio (ac_inserted s) (ac_deleted s), None)],
          sg_explanation = TopologyMeasured (ac_count s) (ac_known_sizes s) (ac_unknown_measurements s)
            (ac_small_threshold s) (ac_large_threshold s)
            (if SourceAttribution \<in> set (pr_capabilities (mf_producer m))
             then Some (List.map (\<lambda>x. (x, ac_sources s x)) (ac_source_order s)) else None)\<rparr>)"

definition finalizeAnalysis ::
  "accumulator \<Rightarrow> manifest \<Rightarrow> percentiles \<Rightarrow> analysis_error + record_stats \<times> signal list" where
  "finalizeAnalysis s m ps =
     guard (ac_version s \<noteq> 1) UnsupportedVersion
     (guard (ac_count s \<noteq> mf_event_count m) DoesNotCover
       (Inr (stats_of s m ps, [timing_signal s m ps, edit_signal s m])))"

text \<open>
  \<open>rank p n\<close> is \<open>Math.ceil(n * p)\<close> as doubles compute it, for \<open>p\<close> one of 50, 90, 95 and 99 per
  cent; every use asks for an index from 1 to \<open>n\<close>.
\<close>

type_synonym rank_fun = "nat \<Rightarrow> nat \<Rightarrow> nat"

definition rank_ok :: "rank_fun \<Rightarrow> bool" where
  "rank_ok rank \<longleftrightarrow> (\<forall>p \<in> {50, 90, 95, 99}. \<forall>n > 0. 1 \<le> rank p n \<and> rank p n \<le> n)"

definition percentile_at :: "rank_fun \<Rightarrow> int list \<Rightarrow> nat \<Rightarrow> int option" where
  "percentile_at rank delays p = (if delays = [] then None else Some (sort delays ! (rank p (length delays) - 1)))"

definition percentiles_of :: "rank_fun \<Rightarrow> int list \<Rightarrow> percentiles" where
  "percentiles_of rank delays = \<lparr>p50 = percentile_at rank delays 50, p90 = percentile_at rank delays 90,
     p95 = percentile_at rank delays 95, p99 = percentile_at rank delays 99\<rparr>"

text \<open>The loop of \<open>analyzeEventLog\<close> with its array of delays.\<close>

fun analyze_from :: "accumulator \<Rightarrow> int list \<Rightarrow> event_log \<Rightarrow> analysis_error + accumulator \<times> int list" where
  "analyze_from s delays [] = Inr (s, delays)"
| "analyze_from s delays (e # es) =
     andThen (appendAnalysisEvent s e) (\<lambda>s'.
       analyze_from s' (case ac_last_t s of None \<Rightarrow> delays | Some l \<Rightarrow> delays @ [ev_t e - l]) es)"

definition analyzeEventLog ::
  "rank_fun \<Rightarrow> event_log \<Rightarrow> manifest \<Rightarrow> analysis_options \<Rightarrow> analysis_error + record_stats \<times> signal list" where
  "analyzeEventLog rank es m opts =
     andThen (createAnalysisAccumulator (default_to DEFAULT_IDLE_THRESHOLD_MS (ao_idle opts)) opts) (\<lambda>s0.
     andThen (analyze_from s0 [] es) (\<lambda>(s, delays).
       finalizeAnalysis s (m\<lparr>mf_event_count := int (length es)\<rparr>) (percentiles_of rank delays)))"

end
