(* ===== verification/Analysis_Spec.thy ===== *)
theory Analysis_Spec
  imports Analysis
begin

text \<open>
  What the streamed accumulator contains: a closed form of every one of its fields over the
  whole log, and the proof that appending event by event reaches it.
\<close>

section \<open>Measurements of a whole log\<close>

fun delays_of :: "event_log \<Rightarrow> int list" where
  "delays_of (a # b # es) = (ev_t b - ev_t a) # delays_of (b # es)"
| "delays_of es = []"

definition has_known_sizes :: "mutation \<Rightarrow> bool" where
  "has_known_sizes e \<longleftrightarrow> ev_del_len e \<noteq> None \<and> ev_ins_len e \<noteq> None"

definition small_edit :: "int \<Rightarrow> mutation \<Rightarrow> bool" where
  "small_edit limit e = (case (ev_ins_len e, ev_del_len e) of (Some i, Some d) \<Rightarrow> i + d \<le> limit | _ \<Rightarrow> False)"

definition large_insert :: "int \<Rightarrow> mutation \<Rightarrow> bool" where
  "large_insert limit e = (case ev_ins_len e of Some i \<Rightarrow> limit \<le> i | None \<Rightarrow> False)"

definition unmeasured :: "mutation \<Rightarrow> bool" where
  "unmeasured e \<longleftrightarrow> ev_pos e = None \<or> ev_ins_len e = None \<or> ev_del_len e = None"

definition tally :: "('a \<Rightarrow> bool) \<Rightarrow> 'a list \<Rightarrow> int" where
  "tally P xs = int (length (filter P xs))"

lemma tally_simps [simp]:
  "tally P [] = 0" "tally P (x # xs) = (if P x then 1 else 0) + tally P xs"
  "tally P (xs @ ys) = tally P xs + tally P ys"
  by (simp_all add: tally_def)

lemma tally_nonneg [simp]: "0 \<le> tally P xs"
  by (simp add: tally_def)

lemma tally_le: "tally P xs \<le> int (length xs)"
  by (simp add: tally_def)

lemma tally_cong_le: "(\<And>x. x \<in> set xs \<Longrightarrow> P x \<Longrightarrow> Q x) \<Longrightarrow> tally P xs \<le> tally Q xs"
  by (induction xs) auto

definition known :: "int option list \<Rightarrow> int list" where
  "known xs = List.map the (filter (\<lambda>x. x \<noteq> None) xs)"

lemma known_simps [simp]:
  "known [] = []" "known (xs @ [x]) = known xs @ (case x of None \<Rightarrow> [] | Some a \<Rightarrow> [a])"
  by (auto simp: known_def split: option.splits)

text \<open>The loop of \<open>countDeletionClusters\<close>: clusters so far, and whether the previous event deleted.\<close>

fun clusters_from :: "bool \<Rightarrow> event_log \<Rightarrow> int" where
  "clusters_from previousWasDeletion [] = 0"
| "clusters_from previousWasDeletion (e # es) =
     (if is_deletion e \<and> \<not> previousWasDeletion then 1 else 0) + clusters_from (is_deletion e) es"

definition countDeletionClusters :: "event_log \<Rightarrow> int" where
  "countDeletionClusters es = clusters_from False es"

lemma clusters_from_snoc:
  "clusters_from p (es @ [e]) = clusters_from p es +
     (if is_deletion e \<and> \<not> (if es = [] then p else is_deletion (last es)) then 1 else 0)"
  by (induction es arbitrary: p) auto

lemma delays_of_snoc [simp]:
  "delays_of [e] = []"
  "es \<noteq> [] \<Longrightarrow> delays_of (es @ [e]) = delays_of es @ [ev_t e - ev_t (last es)]"
  by simp (induction es rule: delays_of.induct; simp)

definition aggregate_max :: "int list \<Rightarrow> int option" where
  "aggregate_max xs = (if xs = [] then None else Some (Max (set xs)))"

definition aggregate_min :: "int list \<Rightarrow> int option" where
  "aggregate_min xs = (if xs = [] then None else Some (Min (set xs)))"

lemma aggregate_snoc [simp]:
  "aggregate_max [] = None" "aggregate_min [] = None"
  "aggregate_max (xs @ [x]) = Some (max (default_to x (aggregate_max xs)) x)"
  "aggregate_min (xs @ [x]) = Some (min (default_to x (aggregate_min xs)) x)"
  by (auto simp: aggregate_max_def aggregate_min_def default_to_def)

definition histogram_of :: "int list \<Rightarrow> int list" where
  "histogram_of ds = List.map (\<lambda>i. tally (\<lambda>d. bucket_index d = i) ds) [0..<5]"

definition measured_of :: "int option list \<Rightarrow> int" where
  "measured_of xs = sum_list (known xs)"

definition measured_max :: "int option list \<Rightarrow> int" where
  "measured_max xs = Max (insert 0 (set (known xs)))"

text \<open>The accumulator that the events \<open>es\<close> ought to leave behind.\<close>

definition measurement :: "int \<Rightarrow> analysis_options \<Rightarrow> event_log \<Rightarrow> accumulator" where
  "measurement idle opts es =
     (let ds = delays_of es; totals = aggregateMutationSizes es;
          small = default_to DEFAULT_SMALL_EDIT_CODEPOINTS (ao_small opts);
          large = default_to DEFAULT_LARGE_ATOMIC_INSERT_CODEPOINTS (ao_large opts) in
      \<lparr>ac_version = 1, ac_small_threshold = small, ac_large_threshold = large,
       ac_count = int (length es),
       ac_first_t = (if es = [] then None else Some (ev_t (hd es))),
       ac_last_t = (if es = [] then None else Some (ev_t (last es))),
       ac_idle_threshold_ms = idle,
       ac_starting_length = Some (default_to (Some 0) (ao_start opts)),
       ac_observed_length = foldl observe_event (default_to (Some 0) (ao_start opts)) es,
       ac_inserted = st_inserted totals, ac_deleted = st_deleted totals, ac_largest = st_largest totals,
       ac_measured_inserted = Some (measured_of (List.map ev_ins_len es)),
       ac_measured_deleted = Some (measured_of (List.map ev_del_len es)),
       ac_measured_largest = Some (measured_max (List.map ev_ins_len es)),
       ac_inserts = tally (\<lambda>e. ev_op e = OpInsert) es,
       ac_deletes = tally (\<lambda>e. ev_op e = OpDelete) es,
       ac_replaces = tally (\<lambda>e. ev_op e = OpReplace) es,
       ac_sources = (\<lambda>x. tally (\<lambda>e. ev_source e = x) es),
       ac_source_order = rev (remdups (rev (List.map ev_source es))),
       ac_known_sizes = tally has_known_sizes es,
       ac_unknown_measurements = tally unmeasured es,
       ac_small = tally (small_edit small) es, ac_large = tally (large_insert large) es,
       ac_deletion_events = tally is_deletion es,
       ac_deletion_clusters = countDeletionClusters es,
       ac_previous_deletion = (es \<noteq> [] \<and> is_deletion (last es)),
       ac_min_delay = aggregate_min ds, ac_max_delay = aggregate_max ds,
       ac_active = sum_list (filter (\<lambda>d. d < idle) ds),
       ac_idle = sum_list (filter (\<lambda>d. idle \<le> d) ds),
       ac_long_pauses = tally (\<lambda>d. idle \<le> d) ds,
       ac_histogram = histogram_of ds\<rparr>)"

section \<open>The parts of one append as single updates\<close>

lemma add_delay_eq:
  "add_delay s d = s\<lparr>ac_min_delay := Some (min (default_to d (ac_min_delay s)) d),
     ac_max_delay := Some (max (default_to d (ac_max_delay s)) d),
     ac_active := ac_active s + (if d < ac_idle_threshold_ms s then d else 0),
     ac_idle := ac_idle s + (if ac_idle_threshold_ms s \<le> d then d else 0),
     ac_long_pauses := ac_long_pauses s + (if ac_idle_threshold_ms s \<le> d then 1 else 0),
     ac_histogram := (ac_histogram s)[bucket_index d := ac_histogram s ! bucket_index d + 1]\<rparr>"
  by (simp add: add_delay_def Let_def)

lemma add_kind_eq:
  "add_kind s e = s\<lparr>ac_sources := (ac_sources s)(ev_source e := ac_sources s (ev_source e) + 1),
     ac_source_order := (if ac_sources s (ev_source e) = 0
       then ac_source_order s @ [ev_source e] else ac_source_order s),
     ac_inserts := ac_inserts s + (if ev_op e = OpInsert then 1 else 0),
     ac_deletes := ac_deletes s + (if ev_op e = OpDelete then 1 else 0),
     ac_replaces := ac_replaces s + (if ev_op e = OpReplace then 1 else 0)\<rparr>"
  by (cases "ev_op e") (simp_all add: add_kind_def Let_def)

lemma add_shape_eq:
  "add_shape s e = s\<lparr>ac_known_sizes := ac_known_sizes s + (if has_known_sizes e then 1 else 0),
     ac_small := ac_small s + (if small_edit (ac_small_threshold s) e then 1 else 0),
     ac_unknown_measurements := ac_unknown_measurements s + (if unmeasured e then 1 else 0),
     ac_large := ac_large s + (if large_insert (ac_large_threshold s) e then 1 else 0),
     ac_deletion_events := ac_deletion_events s + (if is_deletion e then 1 else 0),
     ac_deletion_clusters := ac_deletion_clusters s + (if is_deletion e \<and> \<not> ac_previous_deletion s then 1 else 0),
     ac_previous_deletion := is_deletion e\<rparr>"
  by (cases "ev_ins_len e"; cases "ev_del_len e"; cases "ev_pos e")
     (simp_all add: add_shape_def Let_def has_known_sizes_def small_edit_def unmeasured_def large_insert_def)

lemma add_measured_eq:
  assumes "ac_measured_inserted s = Some mi" "ac_measured_deleted s = Some md" "ac_measured_largest s = Some ml"
  shows "add_measured s e = s\<lparr>ac_measured_inserted := Some (mi + default_to 0 (ev_ins_len e)),
     ac_measured_largest := Some (case ev_ins_len e of None \<Rightarrow> ml | Some i \<Rightarrow> max ml i),
     ac_measured_deleted := Some (md + default_to 0 (ev_del_len e))\<rparr>"
  using assms by (cases "ev_ins_len e"; cases "ev_del_len e") (simp_all add: add_measured_def Let_def default_to_def)

lemma measured_snoc [simp]:
  "measured_of (xs @ [x]) = measured_of xs + default_to 0 x"
  "measured_max (xs @ [x]) = (case x of None \<Rightarrow> measured_max xs | Some i \<Rightarrow> max (measured_max xs) i)"
  by (cases x; simp add: measured_of_def measured_max_def default_to_def Max_insert2 insert_commute max.commute)+

lemma bucket_index_less [simp]: "bucket_index d < 5"
  by (simp add: bucket_index_def)

lemma histogram_snoc [simp]:
  "histogram_of (ds @ [d]) = (histogram_of ds)[bucket_index d := histogram_of ds ! bucket_index d + 1]"
  by (rule nth_equalityI) (auto simp: histogram_of_def nth_list_update simp del: upt_Suc)

lemma aggregateMutationSizes_snoc [simp]:
  "aggregateMutationSizes (es @ [e]) = add_sizes (aggregateMutationSizes es) e"
  by (simp add: aggregateMutationSizes_def)

lemma source_order_snoc:
  "rev (remdups (rev (xs @ [x]))) = (if x \<in> set xs then rev (remdups (rev xs)) else rev (remdups (rev xs)) @ [x])"
  by simp

lemma tally_zero_iff: "tally P xs = 0 \<longleftrightarrow> (\<forall>x \<in> set xs. \<not> P x)"
  by (induction xs) (auto simp: add_nonneg_eq_0_iff)

lemma add_length_eq:
  assumes "valid_event e"
  shows "add_length s e = s\<lparr>ac_observed_length := observe_event (ac_observed_length s) e\<rparr>"
  using assms by (auto simp: add_length_def observe_event_def valid_event_def nullable_range_def in_int_range_def
      split: option.splits)

lemma sources_snoc:
  "(\<lambda>x. tally (\<lambda>e'. ev_source e' = x) es)(ev_source e := tally (\<lambda>e'. ev_source e' = ev_source e) es + 1)
     = (\<lambda>x. tally (\<lambda>e'. ev_source e' = x) (es @ [e]))"
  by auto

lemma first_source_iff:
  "tally (\<lambda>e'. ev_source e' = x) es = 0 \<longleftrightarrow> x \<notin> set (List.map ev_source es)"
  by (auto simp: tally_zero_iff)

lemma countDeletionClusters_snoc:
  "countDeletionClusters (es @ [e]) = countDeletionClusters es +
     (if is_deletion e \<and> \<not> (es \<noteq> [] \<and> is_deletion (last es)) then 1 else 0)"
  by (auto simp: countDeletionClusters_def clusters_from_snoc)

lemmas append_parts = add_kind_eq add_measured_eq add_shape_eq add_totals_def add_sizes_def
  countDeletionClusters_snoc source_order_snoc sources_snoc first_source_iff

lemma append_step_measurement:
  assumes "valid_event e"
  shows "add_length (add_shape (add_measured (add_totals (add_kind (add_time (measurement idle opts es) (ev_t e)) e) e) e) e) e
     = measurement idle opts (es @ [e])"
proof (cases "es = []")
  case True
  then show ?thesis
    by (simp add: add_length_eq [OF assms] measurement_def Let_def add_time_def append_parts default_to_def)
       (simp add: fun_eq_iff aggregateMutationSizes_def add_sizes_def histogram_of_def measured_of_def measured_max_def
         countDeletionClusters_def upt_rec known_def split: option.split)
next
  case False
  then show ?thesis
    by (simp add: add_length_eq [OF assms] measurement_def Let_def add_time_def add_delay_eq append_parts default_to_def)
qed

lemma append_measurement:
  assumes "valid_event e"
  shows "appendAnalysisEvent (measurement idle opts es) e =
     guard (ev_seq e \<noteq> int (length es) \<or> es \<noteq> [] \<and> ev_t e < ev_t (last es)) NotContiguous
       (Inr (measurement idle opts (es @ [e])))"
  unfolding appendAnalysisEvent_def append_step_measurement [OF assms]
  by (simp add: measurement_def Let_def guard_def)

section \<open>Whole runs\<close>

definition ordered_log :: "event_log \<Rightarrow> bool" where
  "ordered_log es \<longleftrightarrow> List.map ev_seq es = List.map int [0..<length es] \<and> sorted_wrt (\<le>) (List.map ev_t es)"

lemma sorted_wrt_snoc_last:
  "sorted_wrt (\<le>) (xs @ [x]) \<longleftrightarrow> sorted_wrt (\<le>) xs \<and> (xs \<noteq> [] \<longrightarrow> last xs \<le> (x :: int))"
proof (induction xs rule: rev_induct)
  case (snoc y ys)
  then show ?case by (fastforce simp: sorted_wrt_append)
qed simp

lemma ordered_log_snoc:
  "ordered_log (es @ [e]) \<longleftrightarrow> ordered_log es \<and> ev_seq e = int (length es) \<and> (es \<noteq> [] \<longrightarrow> ev_t (last es) \<le> ev_t e)"
  by (auto simp: ordered_log_def sorted_wrt_snoc_last last_map)

lemma run_analysis:
  assumes "list_all valid_event es"
  shows "run_steps appendAnalysisEvent (measurement idle opts []) es = Inr s \<longleftrightarrow>
     ordered_log es \<and> s = measurement idle opts es"
  using assms
proof (induction es arbitrary: s rule: rev_induct)
  case Nil
  then show ?case by (auto simp: ordered_log_def)
next
  case (snoc e es)
  then show ?case
    by (auto simp: run_steps_snoc_Inr_iff append_measurement guard_Inr_iff ordered_log_snoc)
qed

lemma create_measurement:
  "createAnalysisAccumulator idle opts = guard (idle < 0 \<or> idle > MAX_TIME_FIELD_VALUE) InvalidIdleThreshold
     (Inr (measurement idle opts []))"
proof -
  have "histogram_of [] = [0, 0, 0, 0, 0]" by (simp add: histogram_of_def upt_rec)
  then show ?thesis
    by (simp add: createAnalysisAccumulator_def measurement_def Let_def aggregateMutationSizes_def measured_of_def
        measured_max_def countDeletionClusters_def)
qed

lemma valid_log_ordered: "valid_log es \<Longrightarrow> ordered_log es"
  using valid_log_iff [of es] by (auto simp: ordered_log_def intro!: nth_equalityI)

section \<open>Accounting\<close>

lemma delays_telescope:
  "es \<noteq> [] \<Longrightarrow> sum_list (delays_of es) = ev_t (last es) - ev_t (hd es)"
  by (induction es rule: delays_of.induct) auto

lemma sum_list_partition: "sum_list (filter P ds) + sum_list (filter (\<lambda>d. \<not> P d) ds) = sum_list (ds :: int list)"
  by (induction ds) auto

lemma length_delays [simp]: "length (delays_of es) = length es - 1"
  by (induction es rule: delays_of.induct) auto

lemma tally_split: "sum f UNIV = int (length xs)" if "\<And>k. f k = tally (\<lambda>x. g x = k) xs" for f :: "'k::finite \<Rightarrow> int"
proof -
  have "(\<Sum>k\<in>UNIV. tally (\<lambda>x. g x = k) xs) = int (length xs)"
    by (induction xs) (simp_all add: sum.distrib)
  then show ?thesis using that by simp
qed

lemma histogram_total: "sum_list (histogram_of ds) = int (length ds)"
proof (induction ds)
  case (Cons d ds)
  have "bucket_index d \<in> {0, 1, 2, 3, 4}" by (simp add: bucket_index_def)
  with Cons show ?case by (auto simp: histogram_of_def upt_rec)
qed (simp add: histogram_of_def upt_rec)

lemma clusters_le: "clusters_from p es \<le> tally is_deletion es"
proof (induction es arbitrary: p)
  case (Cons e es)
  from Cons.IH [of "is_deletion e"] show ?case by (cases "is_deletion e"; simp)
qed simp

lemma delays_nonneg: "sorted_wrt (\<le>) (List.map ev_t es) \<Longrightarrow> d \<in> set (delays_of es) \<Longrightarrow> 0 \<le> d"
  by (induction es rule: delays_of.induct) auto

section \<open>Properties\<close>

text \<open>C40: The streaming accumulator measures the whole log. For a log of valid events, creating an
  accumulator and appending every event succeeds exactly when the thresholds are valid and the
  sequence numbers and times are in order; every field then holds its closed form over the log
  (counts, delay statistics, size totals, histogram, clusters, observed length).\<close>

theorem accumulator_measures_log:
  assumes "list_all valid_event es"
  shows "andThen (createAnalysisAccumulator idle opts) (\<lambda>s0. run_steps appendAnalysisEvent s0 es) = Inr s \<longleftrightarrow>
     0 \<le> idle \<and> idle \<le> MAX_TIME_FIELD_VALUE \<and> ordered_log es \<and> s = measurement idle opts es"
  by (auto simp: create_measurement guard_def run_analysis [OF assms])

definition sample_options :: analysis_options where
  "sample_options = \<lparr>ao_idle = None, ao_small = None, ao_large = None, ao_start = Some (Some 4)\<rparr>"

lemma accumulator_measures_log_witness:
  "andThen (createAnalysisAccumulator 30000 sample_options) (\<lambda>s0. run_steps appendAnalysisEvent s0 [sample_insert])
     = Inr (measurement 30000 sample_options [sample_insert])"
proof -
  have "list_all valid_event [sample_insert]" by code_simp
  note t = accumulator_measures_log [OF this]
  show ?thesis unfolding t by (simp add: ordered_log_def sample_insert_def MAX_TIME_FIELD_VALUE_def)
qed

text \<open>The statistics add up. In the accumulator of a valid log with at least one event, active and
  idle time sum to the time between the first and the last event, the histogram counts every
  interval once, the per-source and per-operation counts each sum to the number of events, no
  more clusters than deletions are counted, and the observed length is the one
  \<open>computeObservedLength\<close> establishes.\<close>

theorem statistics_add_up:
  assumes "valid_log es" and "es \<noteq> []"
    and "andThen (createAnalysisAccumulator idle opts) (\<lambda>s0. run_steps appendAnalysisEvent s0 es) = Inr s"
  shows "ac_active s + ac_idle s = ev_t (last es) - ev_t (hd es)
     \<and> sum_list (ac_histogram s) = int (length es) - 1
     \<and> (\<Sum>x\<in>UNIV. ac_sources s x) = int (length es)
     \<and> ac_inserts s + ac_deletes s + ac_replaces s = int (length es)
     \<and> ac_deletion_clusters s \<le> ac_deletion_events s \<and> ac_deletion_events s \<le> ac_count s
     \<and> computeObservedLength es (default_to (Some 0) (ao_start opts)) = Inr (ac_observed_length s)
     \<and> (ac_inserted s, ac_deleted s, ac_largest s) =
         (let t = aggregateMutationSizes es in (st_inserted t, st_deleted t, st_largest t))"
proof -
  have s: "s = measurement idle opts es"
    using assms(3) run_analysis [OF valid_log_events [OF assms(1)], of idle opts s]
    by (simp add: create_measurement guard_def split: if_splits)
  have "tally (\<lambda>e. ev_op e = OpInsert) xs + tally (\<lambda>e. ev_op e = OpDelete) xs + tally (\<lambda>e. ev_op e = OpReplace) xs
      = int (length xs)" for xs
  proof (induction xs)
    case (Cons e xs)
    then show ?case by (cases "ev_op e") auto
  qed simp
  moreover have "sum_list (filter (\<lambda>d. d < idle) ds) + sum_list (filter (\<lambda>d. idle \<le> d) ds) = sum_list ds" for ds
    using sum_list_partition [of "\<lambda>d. d < idle" ds] by (simp add: not_less)
  moreover have "(\<Sum>x\<in>UNIV. tally (\<lambda>e. ev_source e = x) es) = int (length es)" by (rule tally_split) simp
  ultimately show ?thesis
    using assms(2) clusters_le [of False es] tally_le [of is_deletion es] computeObservedLength_total [OF assms(1)]
      delays_telescope [OF assms(2)] histogram_total [of "delays_of es"]
    by (simp add: s measurement_def Let_def countDeletionClusters_def of_nat_diff Suc_leI)
qed

lemma statistics_add_up_witness:
  "ac_active (measurement 30000 sample_options [sample_insert]) + ac_idle (measurement 30000 sample_options [sample_insert]) = 0
   \<and> sum_list (ac_histogram (measurement 30000 sample_options [sample_insert])) = 0"
proof -
  have valid: "valid_log [sample_insert]" by code_simp
  have run: "andThen (createAnalysisAccumulator 30000 sample_options) (\<lambda>s0. run_steps appendAnalysisEvent s0 [sample_insert])
     = Inr (measurement 30000 sample_options [sample_insert])"
    using run_analysis [OF valid_log_events [OF valid], of 30000 sample_options] valid_log_ordered [OF valid]
    by (simp add: create_measurement guard_def MAX_TIME_FIELD_VALUE_def)
  from statistics_add_up [OF valid _ run] show ?thesis by simp
qed

end
