(* ===== verification/Stream_Verifier.thy ===== *)
theory Stream_Verifier
  imports Record_Commitment Observed_Length
begin

text \<open>
  \<open>verifyRecord\<close>, \<open>verifyEventHashChain\<close> and the bounded-memory \<open>EventStreamVerifier\<close> of
  \<open>packages/format/src/index.ts\<close>. The streaming verifier keeps only a count, a time and a tip;
  the last section shows that it accepts exactly the records that \<open>verifyRecord\<close> accepts.
\<close>

section \<open>Results\<close>

datatype check_error =
    Invalid verror
  | EmptyLogError
  | CountMismatch int int
  | DurationTooShort int int
  | HashMismatch jsstring jsstring
  | CountExceeds
  | PriorFailure "check_error list"
  | LengthFailure "verror list"

record verification_result =
  vr_errors :: "check_error list"
  vr_hash :: "jsstring option"
  vr_chain :: "jsstring list option"

definition vr_valid :: "verification_result \<Rightarrow> bool" where
  "vr_valid r \<longleftrightarrow> vr_errors r = []"

definition finalization_of :: "manifest \<Rightarrow> finalization" where
  "finalization_of m = Some (mf_duration_ms m, mf_parent_record m)"

section \<open>Whole-record verification\<close>

text \<open>The part of both verifiers that runs when no error was found so far.\<close>

definition check_hash ::
  "noble \<Rightarrow> writing_record \<Rightarrow> check_error list \<Rightarrow> format_error + verification_result" where
  "check_hash nb r errors =
     (let m = wr_manifest r in
      if errors \<noteq> [] then Inr \<lparr>vr_errors = errors, vr_hash = None, vr_chain = None\<rparr>
      else andThen (computeEventHashChain nb (wr_events r) (mf_session_id m) (mf_format_version m)) (\<lambda>chain.
           andThen (computeRecordHash nb (wr_events r) (mf_session_id m) (mf_format_version m)
                     (mf_text_binding m) (finalization_of m)) (\<lambda>h.
           Inr \<lparr>vr_errors = (if mf_record_hash m \<noteq> h then [HashMismatch (mf_record_hash m) h] else []),
                vr_hash = Some h, vr_chain = Some chain\<rparr>)))"

definition record_errors :: "(jsstring \<Rightarrow> bool) \<Rightarrow> writing_record \<Rightarrow> check_error list" where
  "record_errors parses r =
     List.map Invalid (validateManifest parses (manifest_json (wr_manifest r)))
     @ List.map Invalid (log_errors (wr_events r))
     @ (if wr_events r = [] then [EmptyLogError] else [])"

definition verifyEventHashChain ::
  "(jsstring \<Rightarrow> bool) \<Rightarrow> noble \<Rightarrow> writing_record \<Rightarrow> format_error + verification_result" where
  "verifyEventHashChain parses nb r = check_hash nb r (record_errors parses r)"

definition verifyRecord ::
  "(jsstring \<Rightarrow> bool) \<Rightarrow> noble \<Rightarrow> writing_record \<Rightarrow> format_error + verification_result" where
  "verifyRecord parses nb r =
     (let m = wr_manifest r; es = wr_events r;
          errors = record_errors parses r
            @ (if mf_event_count m \<noteq> int (length es) then [CountMismatch (mf_event_count m) (int (length es))] else [])
            @ (if es \<noteq> [] \<and> mf_duration_ms m < ev_t (last es)
               then [DurationTooShort (mf_duration_ms m) (ev_t (last es))] else [])
      in andThen (check_hash nb r errors) (\<lambda>res.
         Inr (case computeObservedLength es (Some 0) of
             Inl e \<Rightarrow> res\<lparr>vr_errors := vr_errors res @ [LengthFailure e]\<rparr>
           | Inr _ \<Rightarrow> res)))"

section \<open>The streaming verifier\<close>

record verifier =
  vf_manifest :: manifest
  vf_count :: nat
  vf_lastTime :: int
  vf_tip :: "jsstring option"
  vf_failure :: "check_error list option"

datatype stream_error =
    BadManifest "verror list"
  | Rejected "check_error list"
  | Hashing format_error

definition new_verifier :: "(jsstring \<Rightarrow> bool) \<Rightarrow> manifest \<Rightarrow> stream_error + verifier" where
  "new_verifier parses m =
     (let errors = validateManifest parses (manifest_json m) in
      guard (errors \<noteq> []) (BadManifest errors)
        (Inr \<lparr>vf_manifest = m, vf_count = 0, vf_lastTime = -1, vf_tip = None, vf_failure = None\<rparr>))"

definition append_errors :: "verifier \<Rightarrow> mutation \<Rightarrow> check_error list" where
  "append_errors v event =
     List.map Invalid (validateEvent (event_json event) (Some (int (vf_count v))))
     @ (if ev_t event < vf_lastTime v then [Invalid (TimeDecreases (vf_count v))] else [])
     @ (if int (vf_count v) \<ge> mf_event_count (vf_manifest v) then [CountExceeds] else [])"

text \<open>\<open>append\<close> changes the verifier also when it throws: the failure is kept. The second component is what it throws.\<close>

definition append_event :: "noble \<Rightarrow> verifier \<Rightarrow> mutation \<Rightarrow> verifier \<times> stream_error option" where
  "append_event nb v event = (case vf_failure v of
      Some f \<Rightarrow> (v, Some (Rejected [PriorFailure f]))
    | None \<Rightarrow>
       (if append_errors v event \<noteq> []
        then (v\<lparr>vf_failure := Some (append_errors v event)\<rparr>, Some (Rejected (append_errors v event)))
        else case advanceEventHash nb (vf_tip v) event (mf_session_id (vf_manifest v)) (mf_format_version (vf_manifest v)) of
            Inl e \<Rightarrow> (v, Some (Hashing e))
          | Inr tip \<Rightarrow> (v\<lparr>vf_tip := Some tip, vf_lastTime := ev_t event, vf_count := vf_count v + 1\<rparr>, None)))"

definition finish_verifier :: "noble \<Rightarrow> verifier \<Rightarrow> format_error + verification_result" where
  "finish_verifier nb v =
     (let m = vf_manifest v;
          errors = (case vf_failure v of Some f \<Rightarrow> [PriorFailure f] | None \<Rightarrow> [])
            @ (if int (vf_count v) \<noteq> mf_event_count m then [CountMismatch (mf_event_count m) (int (vf_count v))] else [])
            @ (if vf_tip v = None then [EmptyLogError] else [])
            @ (if vf_lastTime v > mf_duration_ms m then [DurationTooShort (mf_duration_ms m) (vf_lastTime v)] else [])
      in case vf_tip v of
          None \<Rightarrow> Inr \<lparr>vr_errors = errors, vr_hash = None, vr_chain = None\<rparr>
        | Some tip \<Rightarrow> andThen (sealRecordHash nb tip (mf_format_version m) (mf_text_binding m) (finalization_of m)) (\<lambda>h.
            Inr \<lparr>vr_errors = errors @ (if h \<noteq> mf_record_hash m then [HashMismatch (mf_record_hash m) h] else []),
                 vr_hash = Some h, vr_chain = None\<rparr>))"

text \<open>A caller that lets the exception through: it has a next state only when \<open>append\<close> returned.\<close>

definition append_step :: "noble \<Rightarrow> verifier \<Rightarrow> mutation \<Rightarrow> stream_error + verifier" where
  "append_step nb v event = (case append_event nb v event of (v', None) \<Rightarrow> Inr v' | (_, Some e) \<Rightarrow> Inl e)"

definition stream_verify ::
  "(jsstring \<Rightarrow> bool) \<Rightarrow> noble \<Rightarrow> writing_record \<Rightarrow> stream_error + verification_result" where
  "stream_verify parses nb r =
     andThen (new_verifier parses (wr_manifest r)) (\<lambda>v0.
     andThen (run_steps (append_step nb) v0 (wr_events r)) (\<lambda>v.
       case finish_verifier nb v of Inl e \<Rightarrow> Inl (Hashing e) | Inr res \<Rightarrow> Inr res))"

section \<open>Valid manifests\<close>

definition manifest_ok :: "manifest \<Rightarrow> bool" where
  "manifest_ok m \<longleftrightarrow> is_b3_hash (mf_record_hash m) \<and> isUuid (mf_session_id m)
     \<and> in_int_range (mf_event_count m) \<and> in_ms_range (mf_duration_ms m)
     \<and> (\<forall>p. mf_parent_record m = Some p \<longrightarrow> is_b3_hash p)
     \<and> (\<forall>b. mf_text_binding m = Some b \<longrightarrow>
          mf_format_version m \<noteq> V0_1 \<and> validateTextBinding (text_binding_json b) = [])"

lemma manifest_json_fields [simp]:
  "isPlainObject (manifest_json m)"
  "field (manifest_json m) ''format_version'' = JStr (js (version_name (mf_format_version m)))"
  "field (manifest_json m) ''record_hash'' = JStr (mf_record_hash m)"
  "field (manifest_json m) ''session_id'' = JStr (mf_session_id m)"
  "field (manifest_json m) ''producer'' = producer_json (mf_producer m)"
  "field (manifest_json m) ''event_count'' = JNum (JInt (mf_event_count m))"
  "field (manifest_json m) ''duration_ms'' = JNum (JInt (mf_duration_ms m))"
  "field (manifest_json m) ''parent_record'' = nullable_str (mf_parent_record m)"
  "field (manifest_json m) ''text_binding'' =
     (case mf_text_binding m of None \<Rightarrow> JUndefined | Some b \<Rightarrow> text_binding_json b)"
  "has_field (manifest_json m) ''text_binding'' \<longleftrightarrow> mf_text_binding m \<noteq> None"
  by (cases "mf_text_binding m"; simp add: manifest_json_def field_def has_field_def)+

lemma validateNullableB3_typed:
  "validateNullableB3 (nullable_str p) n = [] \<longleftrightarrow> (\<forall>h. p = Some h \<longrightarrow> is_b3_hash h)"
  by (cases p) (auto simp: validateNullableB3_def)

lemma validateManifest_ok:
  assumes "validateManifest parses (manifest_json m) = []"
  shows "manifest_ok m"
proof -
  have i: "(if c then [] else [x]) = [] \<longleftrightarrow> c" "(if c then [x] else []) = [] \<longleftrightarrow> \<not> c"
    "(if c then ys else []) = [] \<longleftrightarrow> (c \<longrightarrow> ys = [])" for c and x :: verror and ys by auto
  have "\<forall>b. mf_text_binding m = Some b \<longrightarrow>
      mf_format_version m \<noteq> V0_1 \<and> validateTextBinding (text_binding_json b) = []"
    using assms by (cases "mf_format_version m")
      (auto simp: validateManifest_def Let_def i text_binding_json_def simp del: version_name.simps)
  moreover have "is_b3_hash (mf_record_hash m) \<and> isUuid (mf_session_id m) \<and> in_int_range (mf_event_count m)
      \<and> in_ms_range (mf_duration_ms m) \<and> (\<forall>p. mf_parent_record m = Some p \<longrightarrow> is_b3_hash p)"
    using assms by (simp add: validateManifest_def Let_def i check_simps validateNullableB3_typed)
  ultimately show ?thesis by (simp add: manifest_ok_def)
qed

text \<open>Sealing never throws for a tip of the chain of a valid manifest.\<close>

lemma encodable_nullable_str [simp]: "encodable (nullable_str p)" "nullable_str p \<noteq> JUndefined"
  by (cases p; simp)+

lemma encodable_binding [simp]: "encodable (text_binding_json b)" "text_binding_json b \<noteq> JUndefined"
  by (simp_all add: text_binding_json_def present_def is_integer_def)

lemma encodable_seal [simp]: "encodable (seal_json (finalization_of m) tb)"
proof -
  have "encodable (nullable_binding tb)" "nullable_binding tb \<noteq> JUndefined"
    by (cases tb; simp add: nullable_binding_def)+
  then show ?thesis
    by (simp add: seal_json_def finalization_of_def duration_of_def parent_of_def present_def is_integer_def)
qed

lemma hash_after_tip_total:
  assumes "is_b3_hash tip" and "encodable v"
  shows "\<exists>h. hash_after_tip nb tip (canonical v) = Inr h"
proof -
  obtain s where "canonical v = Inr s" using assms(2) canonicalizeJson_total_iff [of v] by auto
  moreover obtain bs where "b3HashToBytes nb tip = Inr bs" using b3HashToBytes_total [OF assms(1)] by blast
  ultimately show ?thesis by (simp add: hash_after_tip_def canonical_def)
qed

lemma sealRecordHash_total:
  assumes "manifest_ok m" and "is_b3_hash tip"
  shows "\<exists>h. sealRecordHash nb tip (mf_format_version m) (mf_text_binding m) (finalization_of m) = Inr h"
proof -
  have fin: "finalization_errors (finalization_of m) (mf_text_binding m) = []"
    using assms(1)
    by (auto simp: finalization_errors_def finalization_of_def duration_of_def parent_of_def manifest_ok_def
        check_simps split: option.splits)
  show ?thesis
    using assms(2) fin hash_after_tip_total [OF assms(2) encodable_seal]
      hash_after_tip_total [OF assms(2) encodable_binding(1)] assms(1)
    by (auto simp: sealRecordHash_def canonicalizeTextBinding_def manifest_ok_def guard_def split: option.splits)
qed

section \<open>Runs of the streaming verifier\<close>

text \<open>What every reachable state satisfies that has not failed.\<close>

definition stream_inv :: "manifest \<Rightarrow> verifier \<Rightarrow> bool" where
  "stream_inv m v \<longleftrightarrow> vf_manifest v = m \<and> vf_failure v = None
     \<and> (vf_tip v = None \<longleftrightarrow> vf_count v = 0) \<and> (\<forall>h. vf_tip v = Some h \<longrightarrow> is_b3_hash h)
     \<and> (vf_count v = 0 \<or> int (vf_count v) \<le> mf_event_count m) \<and> -1 \<le> vf_lastTime v"

text \<open>The state after the valid events \<open>es\<close>.\<close>

definition stream_state :: "noble \<Rightarrow> manifest \<Rightarrow> event_log \<Rightarrow> verifier" where
  "stream_state nb m es = \<lparr>vf_manifest = m, vf_count = length es,
     vf_lastTime = (if es = [] then -1 else ev_t (last es)),
     vf_tip = tip_after nb (mf_session_id m) (mf_format_version m) es, vf_failure = None\<rparr>"

lemma append_errors_Nil:
  "append_errors v e = [] \<longleftrightarrow> valid_event e \<and> ev_seq e = int (vf_count v) \<and> vf_lastTime v \<le> ev_t e
     \<and> int (vf_count v) < mf_event_count (vf_manifest v)"
  by (auto simp: append_errors_def validateEvent_typed)

lemma append_step_Inr_iff:
  assumes "noble_ok nb"
  shows "append_step nb v e = Inr v' \<longleftrightarrow>
     vf_failure v = None \<and> append_errors v e = [] \<and> isUuid (mf_session_id (vf_manifest v))
     \<and> (vf_tip v = None \<longleftrightarrow> ev_seq e = 0) \<and> (\<forall>p. vf_tip v = Some p \<longrightarrow> is_b3_hash p)
     \<and> v' = v\<lparr>vf_tip := next_tip nb (mf_session_id (vf_manifest v)) (mf_format_version (vf_manifest v)) (vf_tip v) e,
             vf_lastTime := ev_t e, vf_count := vf_count v + 1\<rparr>"
proof (cases "vf_failure v = None \<and> append_errors v e = []")
  case True
  let ?m = "vf_manifest v"
  let ?adv = "advanceEventHash nb (vf_tip v) e (mf_session_id ?m) (mf_format_version ?m)"
  have ok: "valid_event e" using True by (simp add: append_errors_Nil)
  have step: "append_step nb v e = (case ?adv of Inl x \<Rightarrow> Inl (Hashing x)
     | Inr tip \<Rightarrow> Inr (v\<lparr>vf_tip := Some tip, vf_lastTime := ev_t e, vf_count := vf_count v + 1\<rparr>))"
    using True by (simp add: append_step_def append_event_def split: sum.splits)
  show ?thesis
  proof (cases ?adv)
    case (Inl x)
    then have "\<not> (isUuid (mf_session_id ?m) \<and> (vf_tip v = None \<longleftrightarrow> ev_seq e = 0)
        \<and> (\<forall>p. vf_tip v = Some p \<longrightarrow> is_b3_hash p))"
      using ok advanceEventHash_Inr_iff [OF assms, of "vf_tip v" e "mf_session_id ?m" "mf_format_version ?m"] by force
    with Inl step show ?thesis by auto
  next
    case (Inr h)
    with step ok True advanceEventHash_Inr_iff [OF assms, of "vf_tip v" e "mf_session_id ?m" "mf_format_version ?m" h]
    show ?thesis by (auto simp: next_tip_def)
  qed
qed (auto simp: append_step_def append_event_def split: option.splits)

text \<open>The streaming verifier keeps its invariant through every run that does not throw.\<close>

interpretation stream: guarded_machine "append_step nb" "\<lambda>v. noble_ok nb \<and> stream_inv m v"
proof
  fix v e v' assume inv: "noble_ok nb \<and> stream_inv m v" and step: "append_step nb v e = Inr v'"
  have t: "- 1 \<le> ev_t e" if "valid_event e" using that by (simp add: valid_event_def in_ms_range_def)
  show "noble_ok nb \<and> stream_inv m v'"
    using inv step [unfolded append_step_Inr_iff [OF conjunct1 [OF inv]]] t noble_hash(1) [OF conjunct1 [OF inv]]
    by (simp add: stream_inv_def append_errors_Nil next_tip_def)
qed

lemma stream_inv_start:
  "new_verifier parses m = Inr v \<Longrightarrow> stream_inv m v"
  by (auto simp: new_verifier_def stream_inv_def Let_def)

text \<open>A run succeeds exactly on a valid log that fits the declared count, and ends in \<open>stream_state\<close>.\<close>

lemma stream_run_iff:
  assumes "noble_ok nb" and "isUuid (mf_session_id m)"
  shows "run_steps (append_step nb) (stream_state nb m []) es = Inr v \<longleftrightarrow>
     valid_log es \<and> (es = [] \<or> int (length es) \<le> mf_event_count m) \<and> v = stream_state nb m es"
proof (induction es arbitrary: v rule: rev_induct)
  case Nil
  then show ?case by (auto simp: valid_log_def)
next
  case (snoc e es)
  have tip: "vf_tip (stream_state nb m es) = None \<longleftrightarrow> es = []" "\<forall>p. vf_tip (stream_state nb m es) = Some p \<longrightarrow> is_b3_hash p"
    using tip_after_hash [of es nb "mf_session_id m" "mf_format_version m"] noble_hash(1) [OF assms(1)]
    by (cases "es = []"; auto simp: stream_state_def)+
  have "append_step nb (stream_state nb m es) e = Inr v \<longleftrightarrow>
      append_errors (stream_state nb m es) e = [] \<and> v = stream_state nb m (es @ [e])"
    using tip assms(2)
    by (auto simp: append_step_Inr_iff [OF assms(1)] append_errors_Nil) (auto simp: stream_state_def tip_after_def)
  moreover have "append_errors (stream_state nb m es) e = [] \<longleftrightarrow>
      valid_from (length es) (if es = [] then -1 else ev_t (last es)) [e] \<and> int (length es) < mf_event_count m"
    by (auto simp: append_errors_Nil stream_state_def)
  ultimately show ?case
    by (auto simp: run_steps_snoc_Inr_iff snoc.IH valid_log_def valid_from_append)
qed

section \<open>What both verifiers accept\<close>

definition sealed_hash :: "noble \<Rightarrow> writing_record \<Rightarrow> jsstring \<Rightarrow> bool" where
  "sealed_hash nb r h = (let m = wr_manifest r in
     computeRecordHash nb (wr_events r) (mf_session_id m) (mf_format_version m) (mf_text_binding m)
       (finalization_of m) = Inr h)"

definition record_ok :: "(jsstring \<Rightarrow> bool) \<Rightarrow> noble \<Rightarrow> writing_record \<Rightarrow> bool" where
  "record_ok parses nb r \<longleftrightarrow> (let m = wr_manifest r; es = wr_events r in
     validateManifest parses (manifest_json m) = [] \<and> valid_log es \<and> es \<noteq> []
     \<and> mf_event_count m = int (length es) \<and> ev_t (last es) \<le> mf_duration_ms m
     \<and> sealed_hash nb r (mf_record_hash m))"

lemma computeRecordHash_tip:
  assumes "noble_ok nb" and "isUuid sid" and "valid_log es" and "es \<noteq> []"
  shows "\<exists>tip. tip_after nb sid v es = Some tip \<and> is_b3_hash tip
     \<and> computeEventHashChain nb es sid v = Inr (tips_from nb sid v None es)
     \<and> computeRecordHash nb es sid v tb fin = sealRecordHash nb tip v tb fin"
proof -
  have c: "computeEventHashChain nb es sid v = Inr (tips_from nb sid v None es)"
    using assms by (simp add: computeEventHashChain_Inr_iff)
  obtain bs where tip: "tip_after nb sid v es = Some (b3HashBytes nb bs)"
    using tip_after_hash [OF assms(4)] by blast
  with last_tips_from [OF assms(4), of nb sid v] c show ?thesis
    using noble_hash(1) [OF assms(1)] by (auto simp: computeRecordHash_def)
qed

lemma check_hash_spec:
  assumes "noble_ok nb" and "manifest_ok (wr_manifest r)" and "valid_log (wr_events r)" and "wr_events r \<noteq> []"
  shows "\<exists>h chain. sealed_hash nb r h \<and> check_hash nb r [] = Inr \<lparr>vr_errors =
       (if mf_record_hash (wr_manifest r) \<noteq> h then [HashMismatch (mf_record_hash (wr_manifest r)) h] else []),
       vr_hash = Some h, vr_chain = Some chain\<rparr>"
proof -
  let ?m = "wr_manifest r"
  have u: "isUuid (mf_session_id ?m)" using assms(2) by (simp add: manifest_ok_def)
  from computeRecordHash_tip [OF assms(1) u assms(3,4)] obtain tip where "is_b3_hash tip"
    and c: "computeEventHashChain nb (wr_events r) (mf_session_id ?m) (mf_format_version ?m)
      = Inr (tips_from nb (mf_session_id ?m) (mf_format_version ?m) None (wr_events r))"
    and "computeRecordHash nb (wr_events r) (mf_session_id ?m) (mf_format_version ?m) (mf_text_binding ?m)
      (finalization_of ?m) = sealRecordHash nb tip (mf_format_version ?m) (mf_text_binding ?m) (finalization_of ?m)"
    by blast
  with sealRecordHash_total [OF assms(2), of tip nb] show ?thesis
    by (auto simp: check_hash_def sealed_hash_def Let_def)
qed

lemma verifyRecord_spec:
  assumes "noble_ok nb"
  shows "\<exists>res. verifyRecord parses nb r = Inr res \<and> (vr_valid res \<longleftrightarrow> record_ok parses nb r)
     \<and> (vr_valid res \<longrightarrow> vr_hash res = Some (mf_record_hash (wr_manifest r)))"
proof -
  let ?m = "wr_manifest r" and ?es = "wr_events r"
  let ?errors = "record_errors parses r
            @ (if mf_event_count ?m \<noteq> int (length ?es) then [CountMismatch (mf_event_count ?m) (int (length ?es))] else [])
            @ (if ?es \<noteq> [] \<and> mf_duration_ms ?m < ev_t (last ?es)
               then [DurationTooShort (mf_duration_ms ?m) (ev_t (last ?es))] else [])"
  have Nil: "?errors = [] \<longleftrightarrow> validateManifest parses (manifest_json ?m) = [] \<and> valid_log ?es \<and> ?es \<noteq> []
     \<and> mf_event_count ?m = int (length ?es) \<and> ev_t (last ?es) \<le> mf_duration_ms ?m"
    by (auto simp: record_errors_def)
  show ?thesis
  proof (cases "?errors = []")
    case True
    then have ok: "manifest_ok ?m" "valid_log ?es" "?es \<noteq> []" using Nil validateManifest_ok by auto
    from check_hash_spec [OF assms ok] obtain h chain where h: "sealed_hash nb r h"
      and c: "check_hash nb r [] = Inr \<lparr>vr_errors =
       (if mf_record_hash ?m \<noteq> h then [HashMismatch (mf_record_hash ?m) h] else []),
       vr_hash = Some h, vr_chain = Some chain\<rparr>" by blast
    have uniq: "sealed_hash nb r k \<longleftrightarrow> k = h" for k using h by (auto simp: sealed_hash_def Let_def)
    from True c ok(2) have "verifyRecord parses nb r = Inr \<lparr>vr_errors =
       (if mf_record_hash ?m \<noteq> h then [HashMismatch (mf_record_hash ?m) h] else []),
       vr_hash = Some h, vr_chain = Some chain\<rparr>"
      by (simp only: verifyRecord_def Let_def computeObservedLength_total andThen_simps sum.case)
    with True Nil uniq show ?thesis by (auto simp: vr_valid_def record_ok_def Let_def)
  next
    case False
    then have "\<not> record_ok parses nb r" using Nil by (auto simp: record_ok_def Let_def)
    moreover have "check_hash nb r ?errors = Inr \<lparr>vr_errors = ?errors, vr_hash = None, vr_chain = None\<rparr>"
      using False unfolding check_hash_def Let_def by (rule if_P)
    then have v: "verifyRecord parses nb r = Inr (case computeObservedLength ?es (Some 0) of
        Inl e \<Rightarrow> \<lparr>vr_errors = ?errors @ [LengthFailure e], vr_hash = None, vr_chain = None\<rparr>
      | Inr _ \<Rightarrow> \<lparr>vr_errors = ?errors, vr_hash = None, vr_chain = None\<rparr>)"
      by (simp only: verifyRecord_def Let_def andThen_simps verification_result.simps)
    have "vr_errors (case computeObservedLength ?es (Some 0) of
        Inl e \<Rightarrow> \<lparr>vr_errors = errs @ [LengthFailure e], vr_hash = None, vr_chain = None\<rparr>
      | Inr _ \<Rightarrow> \<lparr>vr_errors = errs, vr_hash = None, vr_chain = None\<rparr>) \<noteq> []" if "errs \<noteq> []" for errs
      using that by (simp split: sum.split)
    from v this [OF False] have "\<exists>res. verifyRecord parses nb r = Inr res \<and> vr_errors res \<noteq> []" by blast
    ultimately show ?thesis by (auto simp: vr_valid_def)
  qed
qed

lemma finish_stream_state:
  assumes "noble_ok nb" and "manifest_ok m" and "valid_log es"
  shows "\<exists>res. finish_verifier nb (stream_state nb m es) = Inr res \<and>
     (vr_valid res \<longleftrightarrow> es \<noteq> [] \<and> mf_event_count m = int (length es) \<and> ev_t (last es) \<le> mf_duration_ms m
        \<and> sealed_hash nb \<lparr>wr_manifest = m, wr_events = es\<rparr> (mf_record_hash m))
     \<and> (vr_valid res \<longrightarrow> vr_hash res = Some (mf_record_hash m))"
proof (cases "es = []")
  case True
  then show ?thesis by (simp add: finish_verifier_def stream_state_def vr_valid_def Let_def)
next
  case False
  have u: "isUuid (mf_session_id m)" using assms(2) by (simp add: manifest_ok_def)
  from computeRecordHash_tip [OF assms(1) u assms(3) False] obtain tip where
    tip: "tip_after nb (mf_session_id m) (mf_format_version m) es = Some tip" "is_b3_hash tip"
    and h: "computeRecordHash nb es (mf_session_id m) (mf_format_version m) (mf_text_binding m) (finalization_of m)
      = sealRecordHash nb tip (mf_format_version m) (mf_text_binding m) (finalization_of m)" by blast
  from sealRecordHash_total [OF assms(2) tip(2), of nb] obtain x where
    "sealRecordHash nb tip (mf_format_version m) (mf_text_binding m) (finalization_of m) = Inr x" by blast
  with tip h False show ?thesis
    by (auto simp: finish_verifier_def stream_state_def vr_valid_def Let_def sealed_hash_def)
qed

lemma stream_verify_spec:
  assumes "noble_ok nb"
  shows "(\<exists>res. stream_verify parses nb r = Inr res \<and> vr_valid res \<and> vr_hash res = h)
     \<longleftrightarrow> record_ok parses nb r \<and> h = Some (mf_record_hash (wr_manifest r))"
proof -
  let ?m = "wr_manifest r" and ?es = "wr_events r"
  have r: "\<lparr>wr_manifest = ?m, wr_events = ?es\<rparr> = r" by simp
  show ?thesis
  proof (cases "validateManifest parses (manifest_json ?m) = []")
    case True
    then have m: "manifest_ok ?m" using validateManifest_ok by blast
    then have u: "isUuid (mf_session_id ?m)" by (simp add: manifest_ok_def)
    have new: "new_verifier parses ?m = Inr (stream_state nb ?m [])"
      using True by (simp add: new_verifier_def stream_state_def)
    show ?thesis
    proof (cases "valid_log ?es \<and> (?es = [] \<or> int (length ?es) \<le> mf_event_count ?m)")
      case ok: True
      then have "run_steps (append_step nb) (stream_state nb ?m []) ?es = Inr (stream_state nb ?m ?es)"
        using stream_run_iff [OF assms u] by blast
      with finish_stream_state [OF assms m conjunct1 [OF ok], unfolded r] new True ok show ?thesis
        by (auto simp: stream_verify_def record_ok_def Let_def)
    next
      case no: False
      then have "\<nexists>v. run_steps (append_step nb) (stream_state nb ?m []) ?es = Inr v"
        using stream_run_iff [OF assms u] by blast
      then obtain e where "run_steps (append_step nb) (stream_state nb ?m []) ?es = Inl e"
        by (cases "run_steps (append_step nb) (stream_state nb ?m []) ?es") auto
      with no new show ?thesis by (auto simp: stream_verify_def record_ok_def Let_def)
    qed
  next
    case False
    then show ?thesis by (auto simp: stream_verify_def new_verifier_def record_ok_def Let_def guard_def)
  qed
qed

section \<open>A record that verifies\<close>

definition sample_hash :: jsstring where
  "sample_hash = last (tips_from sample_noble sample_session V0_1 None [sample_event, sample_paste])"

definition sample_producer :: producer_info where
  "sample_producer = \<lparr>pr_id = js ''p'', pr_version = js ''1'', pr_capabilities = []\<rparr>"

definition sample_record :: writing_record where
  "sample_record = \<lparr>wr_manifest = \<lparr>mf_format_version = V0_1, mf_record_hash = sample_hash,
       mf_session_id = sample_session, mf_producer = sample_producer, mf_text_binding = None,
       mf_event_count = 2, mf_duration_ms = 50, mf_created_client_t = None, mf_ingested_server_t = None,
       mf_parent_record = None, mf_attestations = []\<rparr>,
     wr_events = [sample_event, sample_paste]\<rparr>"

lemma sample_hash_b3: "is_b3_hash sample_hash"
  by (simp add: sample_hash_def Let_def noble_hash(1) [OF sample_noble_ok])

lemma sample_producer_ok: "validateProducer (producer_json sample_producer) = []"
  by code_simp

lemma sample_manifest_ok: "validateManifest (\<lambda>_. True) (manifest_json (wr_manifest sample_record)) = []"
  using sample_hash_b3 sample_log_valid(2) sample_producer_ok
  by (simp add: validateManifest_def sample_record_def Let_def check_simps in_int_range_def in_ms_range_def
      validateNullableB3_def validateNullableTimestamp_def validateAttestations_def)
     (simp add: manifest_json_def field_def has_field_def parse_enum_def FORMAT_VERSIONS_def
      MAX_INTEGER_FIELD_VALUE_def MAX_TIME_FIELD_VALUE_def)

lemma sample_record_ok: "record_ok (\<lambda>_. True) sample_noble sample_record"
  using sample_manifest_ok sample_log_valid computeRecordHash_V0_1 [OF sample_noble_ok _ sample_log_valid]
  by (simp add: record_ok_def sealed_hash_def sample_hash_def sample_record_def finalization_of_def
      sample_paste_def Let_def)

text \<open>C11: The bounded-memory verifier is exact. Constructing an \<open>EventStreamVerifier\<close>, appending every
  event and finishing succeeds with a valid result exactly when \<open>verifyRecord\<close>, which always
  returns, finds the whole record valid, and both then report the manifest's record hash.\<close>

theorem streaming_verifier_exact:
  assumes "noble_ok nb"
  shows "\<exists>res. verifyRecord parses nb r = Inr res \<and>
     (\<forall>h. (vr_valid res \<and> vr_hash res = Some h) =
          (\<exists>sres. stream_verify parses nb r = Inr sres \<and> vr_valid sres \<and> vr_hash sres = Some h))"
proof -
  obtain res where res: "verifyRecord parses nb r = Inr res" "vr_valid res \<longleftrightarrow> record_ok parses nb r"
    "vr_valid res \<longrightarrow> vr_hash res = Some (mf_record_hash (wr_manifest r))"
    using verifyRecord_spec [OF assms] by blast
  then show ?thesis by (intro exI [of _ res]) (auto simp: stream_verify_spec [OF assms])
qed

lemma streaming_verifier_exact_witness:
  "\<exists>res. verifyRecord (\<lambda>_. True) sample_noble sample_record = Inr res \<and>
     (\<forall>h. (vr_valid res \<and> vr_hash res = Some h) =
          (\<exists>sres. stream_verify (\<lambda>_. True) sample_noble sample_record = Inr sres \<and> vr_valid sres \<and> vr_hash sres = Some h))"
  by (rule streaming_verifier_exact [OF sample_noble_ok])

text \<open>Verification is tamper evident. Two records that \<open>verifyRecord\<close> accepts with the same record
  hash have the same session, version, events and sealed fields, unless two different byte
  strings hashed on the way have the same digest.\<close>

theorem verified_records_bound:
  assumes "noble_ok nb"
    and "verifyRecord parses nb r = Inr res" and "vr_valid res"
    and "verifyRecord parses nb r' = Inr res'" and "vr_valid res'"
    and "mf_record_hash (wr_manifest r) = mf_record_hash (wr_manifest r')"
  shows "wr_events r = wr_events r' \<and> mf_session_id (wr_manifest r) = mf_session_id (wr_manifest r')
       \<and> mf_format_version (wr_manifest r) = mf_format_version (wr_manifest r')
       \<and> mf_text_binding (wr_manifest r) = mf_text_binding (wr_manifest r')
       \<and> (mf_format_version (wr_manifest r) = V0_3 \<longrightarrow>
            mf_duration_ms (wr_manifest r) = mf_duration_ms (wr_manifest r')
            \<and> mf_parent_record (wr_manifest r) = mf_parent_record (wr_manifest r'))
     \<or> collide nb
         (hashed_inputs nb (wr_events r) (mf_session_id (wr_manifest r)) (mf_format_version (wr_manifest r))
            (mf_text_binding (wr_manifest r)) (finalization_of (wr_manifest r)))
         (hashed_inputs nb (wr_events r') (mf_session_id (wr_manifest r')) (mf_format_version (wr_manifest r'))
            (mf_text_binding (wr_manifest r')) (finalization_of (wr_manifest r')))"
proof -
  have ok: "record_ok parses nb r" "record_ok parses nb r'"
    using verifyRecord_spec [OF assms(1), of parses r] verifyRecord_spec [OF assms(1), of parses r'] assms(2-5)
    by auto
  then have tb: "mf_format_version (wr_manifest x) = V0_1 \<longrightarrow> mf_text_binding (wr_manifest x) = None" if "x = r \<or> x = r'" for x
    using that validateManifest_ok [of parses "wr_manifest x"]
    by (cases "mf_text_binding (wr_manifest x)") (auto simp: record_ok_def Let_def manifest_ok_def)
  from ok assms(6) have "sealed_hash nb r (mf_record_hash (wr_manifest r))" "sealed_hash nb r' (mf_record_hash (wr_manifest r))"
    by (simp_all add: record_ok_def Let_def)
  from binding_of_hashes [OF assms(1) this [unfolded sealed_hash_def Let_def]] tb [of r] tb [of r']
  show ?thesis by (auto simp: sealed_content_def finalization_of_def)
qed

lemma verified_records_bound_witness:
  "\<exists>res. verifyRecord (\<lambda>_. True) sample_noble sample_record = Inr res \<and> vr_valid res \<and>
     (wr_events sample_record = wr_events sample_record \<or>
      collide sample_noble
        (hashed_inputs sample_noble (wr_events sample_record) sample_session V0_1 None (Some (50, None)))
        (hashed_inputs sample_noble (wr_events sample_record) sample_session V0_1 None (Some (50, None))))"
proof -
  obtain res where res: "verifyRecord (\<lambda>_. True) sample_noble sample_record = Inr res" "vr_valid res"
    using verifyRecord_spec [OF sample_noble_ok, of "\<lambda>_. True" sample_record] sample_record_ok by blast
  from verified_records_bound [OF sample_noble_ok res res refl] res show ?thesis
    by (intro exI [of _ res] conjI) (auto simp: sample_record_def finalization_of_def)
qed

end
