(* ===== verification/Analyzers.thy ===== *)
theory Analyzers
  imports Analysis_Spec Stream_Verifier
begin

text \<open>
  The analyzers of \<open>packages/analyzers/src/index.ts\<close> around the accumulator: the registry and its
  error isolation, the two default analyzers, the correction of legacy signals, and the exact
  percentiles computed from a table of delay counts (\<open>packages/storage/src/chunked.ts\<close>).
\<close>

section \<open>Percentiles from counts\<close>

text \<open>
  The loop of \<open>percentileValues\<close> for one fraction: the first delay, in increasing order, whose
  cumulative count reaches the rank.
\<close>

fun first_reaching :: "nat \<Rightarrow> nat \<Rightarrow> (int \<times> nat) list \<Rightarrow> int option" where
  "first_reaching cumulative r [] = None"
| "first_reaching cumulative r ((delay, n) # entries) =
     (if cumulative + n \<ge> r then Some delay else first_reaching (cumulative + n) r entries)"

definition percentileValues :: "rank_fun \<Rightarrow> (int \<times> nat) list \<Rightarrow> percentiles" where
  "percentileValues rank entries =
     (let total = sum_list (List.map snd entries); sorted = sort_key fst entries;
          at = (\<lambda>p. first_reaching 0 (rank p total) sorted)
      in \<lparr>p50 = at 50, p90 = at 90, p95 = at 95, p99 = at 99\<rparr>)"

text \<open>The delays that a table of counts stands for.\<close>

definition expand :: "(int \<times> nat) list \<Rightarrow> int list" where
  "expand entries = concat (List.map (\<lambda>(d, n). replicate n d) entries)"

lemma expand_simps [simp]:
  "expand [] = []" "expand ((d, n) # es) = replicate n d @ expand es"
  by (simp_all add: expand_def)

lemma length_expand: "length (expand entries) = sum_list (List.map snd entries)"
  by (induction entries) auto

lemma first_reaching_expand:
  assumes "cumulative < r" and "r \<le> cumulative + length (expand entries)"
  shows "first_reaching cumulative r entries = Some (expand entries ! (r - 1 - cumulative))"
  using assms
proof (induction cumulative r entries rule: first_reaching.induct)
  case (2 cumulative r delay n entries)
  show ?case
  proof (cases "cumulative + n \<ge> r")
    case True
    with 2 show ?thesis by (auto simp: nth_append)
  next
    case False
    with 2 have "first_reaching (cumulative + n) r entries = Some (expand entries ! (r - 1 - (cumulative + n)))"
      by simp
    moreover have "(replicate n delay @ expand entries) ! (r - 1 - cumulative) = expand entries ! (r - 1 - (cumulative + n))"
    proof -
      have "\<not> r - 1 - cumulative < n" "r - 1 - cumulative - n = r - 1 - (cumulative + n)" using False by auto
      then show ?thesis by (simp only: nth_append length_replicate if_False)
    qed
    ultimately show ?thesis using False by simp
  qed
qed simp

lemma sorted_expand: "sorted (List.map fst entries) \<Longrightarrow> sorted (expand entries)"
  by (induction entries) (auto simp: sorted_append expand_def)

lemma mset_expand_sum: "mset (expand es) = (\<Sum>(d, n)\<in>#mset es. replicate_mset n d)"
proof (induction es)
  case (Cons e es)
  then show ?case by (cases e) simp
qed simp

lemma mset_expand: "mset entries = mset entries' \<Longrightarrow> mset (expand entries) = mset (expand entries')"
  by (simp only: mset_expand_sum)

lemma sort_expand: "sort (expand entries) = expand (sort_key fst entries)"
proof (rule properties_for_sort)
  show "mset (expand (sort_key fst entries)) = mset (expand entries)" by (rule mset_expand) simp
  show "sorted (expand (sort_key fst entries))" by (rule sorted_expand) simp
qed

lemma percentileValues_expand:
  assumes "rank_ok rank" and "\<forall>e \<in> set entries. 0 < snd e"
  shows "percentileValues rank entries = percentiles_of rank (expand entries)"
proof -
  have "first_reaching 0 (rank p (sum_list (List.map snd entries))) (sort_key fst entries)
      = percentile_at rank (expand entries) p" if "p \<in> {50, 90, 95, 99}" for p
  proof (cases "expand entries = []")
    case True
    with assms(2) have "entries = []" by (cases entries) auto
    then show ?thesis by (simp add: percentile_at_def)
  next
    case False
    then have pos: "0 < length (expand entries)" by simp
    have r: "1 \<le> rank p (length (expand entries))" "rank p (length (expand entries)) \<le> length (expand entries)"
      using assms that pos by (auto simp: rank_ok_def)
    have "length (expand (sort_key fst entries)) = length (expand entries)"
      using sort_expand [of entries] by (metis length_sort)
    with r first_reaching_expand [of 0 "rank p (length (expand entries))" "sort_key fst entries"] False
    show ?thesis by (simp add: percentile_at_def sort_expand length_expand)
  qed
  then show ?thesis by (simp add: percentileValues_def percentiles_of_def Let_def)
qed

text \<open>\<open>counts.set(delay, (counts.get(delay) ?? 0) + 1)\<close>; a new key goes to the end.\<close>

fun count_delay :: "(int \<times> nat) list \<Rightarrow> int \<Rightarrow> (int \<times> nat) list" where
  "count_delay [] d = [(d, 1)]"
| "count_delay ((k, n) # table) d = (if k = d then (k, n + 1) # table else (k, n) # count_delay table d)"

lemma expand_count_delay: "mset (expand (count_delay table d)) = add_mset d (mset (expand table))"
  by (induction table d rule: count_delay.induct) auto

lemma count_delay_positive: "\<forall>e \<in> set table. 0 < snd e \<Longrightarrow> \<forall>e \<in> set (count_delay table d). 0 < snd e"
  by (induction table d rule: count_delay.induct) auto

lemma count_delays:
  "\<forall>e \<in> set table. 0 < snd e \<Longrightarrow>
     mset (expand (foldl count_delay table ds)) = mset (expand table) + mset ds \<and>
     (\<forall>e \<in> set (foldl count_delay table ds). 0 < snd e)"
proof (induction ds arbitrary: table)
  case (Cons d ds)
  from Cons.IH [OF count_delay_positive [OF Cons.prems, of d]] show ?case by (simp add: expand_count_delay)
qed simp

lemma percentiles_of_mset: "mset ds = mset ds' \<Longrightarrow> percentiles_of rank ds = percentiles_of rank ds'"
proof -
  assume m: "mset ds = mset ds'"
  have "sort ds = sort ds'"
    using arg_cong [OF m, of sorted_list_of_multiset] by simp
  moreover have "length ds = length ds'" using m by (rule mset_eq_length)
  moreover from this have "ds = [] \<longleftrightarrow> ds' = []" by auto
  ultimately have "percentile_at rank ds = percentile_at rank ds'"
    by (intro ext) (simp add: percentile_at_def)
  then show ?thesis by (simp add: percentiles_of_def)
qed

lemma percentiles_counted:
  assumes "rank_ok rank"
  shows "percentileValues rank (foldl count_delay [] ds) = percentiles_of rank ds"
proof -
  have c: "mset (expand (foldl count_delay [] ds)) = mset ds" "\<forall>e \<in> set (foldl count_delay [] ds). 0 < snd e"
    using count_delays [of "[]" ds] by simp_all
  show ?thesis
    using percentileValues_expand [OF assms c(2)] percentiles_of_mset [OF c(1)] by (rule trans)
qed

section \<open>Analyzers and their registry\<close>

text \<open>An analyzer returns a signal or throws; only the name of what it throws is used.\<close>

record analyzer =
  an_id :: string
  an_version :: string
  an_analyze :: "event_log \<times> manifest \<Rightarrow> jsstring + signal"

type_synonym registry = "analyzer list"

datatype registry_error = AlreadyRegistered

definition register :: "registry \<Rightarrow> analyzer \<Rightarrow> registry_error + registry" where
  "register reg a = guard (an_id a \<in> an_id ` set reg) AlreadyRegistered (Inr (reg @ [a]))"

definition analyzerErrorSignal :: "analyzer \<Rightarrow> jsstring \<Rightarrow> signal" where
  "analyzerErrorSignal a name = \<lparr>sg_analyzer_id = an_id a, sg_analyzer_version = an_version a,
     sg_applicable = False,
     sg_measures = [(''analyzer_error'', VBool True, None), (''error_type'', VStr name, None)],
     sg_explanation = AnalyzerFailed (js (an_id a))\<rparr>"

text \<open>The analyzer gets a frozen deep copy of the input, so it can change nothing the others see.\<close>

definition runAnalyzerSafely :: "event_log \<times> manifest \<Rightarrow> analyzer \<Rightarrow> signal" where
  "runAnalyzerSafely input a = (case an_analyze a input of
      Inl name \<Rightarrow> analyzerErrorSignal a name | Inr s \<Rightarrow> s)"

definition runAnalyzers :: "event_log \<times> manifest \<Rightarrow> analyzer list \<Rightarrow> signal list" where
  "runAnalyzers input as = List.map (runAnalyzerSafely input) as"

definition no_options :: analysis_options where
  "no_options = \<lparr>ao_idle = None, ao_small = None, ao_large = None, ao_start = None\<rparr>"

definition type_error :: "analysis_error + 'a \<Rightarrow> jsstring + 'a" where
  "type_error r = (case r of Inl _ \<Rightarrow> Inl (js ''TypeError'') | Inr a \<Rightarrow> Inr a)"

definition timingDistributionAnalyzer :: "rank_fun \<Rightarrow> int option \<Rightarrow> analyzer" where
  "timingDistributionAnalyzer rank idle = \<lparr>an_id = TIMING_DISTRIBUTION_ANALYZER_ID,
     an_version = TIMING_ANALYZER_VERSION,
     an_analyze = (\<lambda>(es, m). andThen (type_error (analyzeEventLog rank es m
         (no_options\<lparr>ao_idle := Some (default_to DEFAULT_IDLE_THRESHOLD_MS idle)\<rparr>)))
       (\<lambda>(stats, signals). Inr (signals ! 0)))\<rparr>"

definition notApplicable :: "string \<Rightarrow> explanation \<Rightarrow> signal" where
  "notApplicable analyzerId expl = \<lparr>sg_analyzer_id = analyzerId,
     sg_analyzer_version = (if analyzerId = TIMING_DISTRIBUTION_ANALYZER_ID
        then TIMING_ANALYZER_VERSION else EDIT_TOPOLOGY_ANALYZER_VERSION),
     sg_applicable = False, sg_measures = [], sg_explanation = expl\<rparr>"

definition editTopologyAnalyzer :: "rank_fun \<Rightarrow> int option \<Rightarrow> int option \<Rightarrow> analyzer" where
  "editTopologyAnalyzer rank large small = \<lparr>an_id = EDIT_TOPOLOGY_ANALYZER_ID,
     an_version = EDIT_TOPOLOGY_ANALYZER_VERSION,
     an_analyze = (\<lambda>(es, m).
       if es = [] then Inr (notApplicable EDIT_TOPOLOGY_ANALYZER_ID NeedsOneEvent)
       else andThen (type_error (analyzeEventLog rank es m (no_options
           \<lparr>ao_large := Some (default_to DEFAULT_LARGE_ATOMIC_INSERT_CODEPOINTS large),
            ao_small := Some (default_to DEFAULT_SMALL_EDIT_CODEPOINTS small)\<rparr>)))
         (\<lambda>(stats, signals). Inr (signals ! 1)))\<rparr>"

definition createDefaultAnalyzerRegistry :: "rank_fun \<Rightarrow> int option \<Rightarrow> registry_error + registry" where
  "createDefaultAnalyzerRegistry rank idle =
     andThen (register [] (timingDistributionAnalyzer rank idle))
       (\<lambda>reg. register reg (editTopologyAnalyzer rank None None))"

definition runDefaultAnalyzers ::
  "rank_fun \<Rightarrow> event_log \<times> manifest \<Rightarrow> int option \<Rightarrow> registry_error + signal list" where
  "runDefaultAnalyzers rank input idle =
     andThen (createDefaultAnalyzerRegistry rank idle) (\<lambda>reg. Inr (runAnalyzers input reg))"

section \<open>Legacy signals\<close>

definition legacy_corrections :: "event_log \<Rightarrow> (string \<times> measure_value) list" where
  "legacy_corrections es =
     (let sizes = aggregateMutationSizes es in
      [(''inserted_codepoints_total'', nullable_value (st_inserted sizes)),
       (''deleted_codepoints_total'', nullable_value (st_deleted sizes)),
       (''atomic_insert_max_len'', nullable_value (st_largest sizes)),
       (''revision_deleted_codepoint_ratio'', revisionRatio (st_inserted sizes) (st_deleted sizes)),
       (''deletion_count'', if st_deleted sizes = None then VNull else VInt (tally is_deletion es)),
       (''deletion_cluster_count'', if st_deleted sizes = None then VNull else VInt (countDeletionClusters es))]
      @ (if \<exists>e \<in> set es. \<not> has_known_sizes e
         then [(''small_edit_count'', VNull), (''small_edit_ratio'', VNull), (''large_atomic_insert_count'', VNull)]
         else []))"

definition upgradeLegacyEditTopologySignal :: "signal \<Rightarrow> event_log \<Rightarrow> signal" where
  "upgradeLegacyEditTopologySignal s es =
     (if sg_analyzer_id s \<noteq> EDIT_TOPOLOGY_ANALYZER_ID \<or> sg_analyzer_version s \<noteq> ''0.1.0'' \<or> \<not> sg_applicable s
      then s
      else s\<lparr>sg_analyzer_version := EDIT_TOPOLOGY_ANALYZER_VERSION,
             sg_measures := List.map (\<lambda>(k, v, u). (k, default_to v (map_of (legacy_corrections es) k), u)) (sg_measures s),
             sg_explanation := LegacyCorrected\<rparr>)"

section \<open>Batch analysis\<close>

lemma analyze_from_run:
  assumes "list_all valid_event es"
  shows "analyze_from (measurement idle opts us) (delays_of us) es =
     (case run_steps appendAnalysisEvent (measurement idle opts us) es of
        Inl x \<Rightarrow> Inl x | Inr s \<Rightarrow> Inr (s, delays_of (us @ es)))"
  using assms
proof (induction es arbitrary: us)
  case (Cons e es)
  have last: "ac_last_t (measurement idle opts us) = (if us = [] then None else Some (ev_t (last us)))"
    by (simp add: measurement_def Let_def)
  have d: "(case ac_last_t (measurement idle opts us) of None \<Rightarrow> delays_of us | Some l \<Rightarrow> delays_of us @ [ev_t e - l])
      = delays_of (us @ [e])"
    by (auto simp: last)
  have app: "appendAnalysisEvent (measurement idle opts us) e =
     guard (ev_seq e \<noteq> int (length us) \<or> us \<noteq> [] \<and> ev_t e < ev_t (last us)) NotContiguous
       (Inr (measurement idle opts (us @ [e])))" using append_measurement Cons.prems by simp
  have eq: "(us @ [e]) @ es = us @ e # es" by simp
  from Cons.IH [of "us @ [e]", unfolded eq] Cons.prems show ?case
    by (simp only: analyze_from.simps run_steps.simps app d) (auto simp: guard_def)
qed simp

lemma analyzeEventLog_valid:
  assumes "valid_log es" and "0 \<le> default_to DEFAULT_IDLE_THRESHOLD_MS (ao_idle opts)"
    and "default_to DEFAULT_IDLE_THRESHOLD_MS (ao_idle opts) \<le> MAX_TIME_FIELD_VALUE"
  shows "analyzeEventLog rank es m opts =
     (let s = measurement (default_to DEFAULT_IDLE_THRESHOLD_MS (ao_idle opts)) opts es;
          ps = percentiles_of rank (delays_of es); m' = m\<lparr>mf_event_count := int (length es)\<rparr>
      in Inr (stats_of s m' ps, [timing_signal s m' ps, edit_signal s m']))"
proof -
  let ?idle = "default_to DEFAULT_IDLE_THRESHOLD_MS (ao_idle opts)"
  have "run_steps appendAnalysisEvent (measurement ?idle opts []) es = Inr (measurement ?idle opts es)"
    using run_analysis [OF valid_log_events [OF assms(1)]] valid_log_ordered [OF assms(1)] by blast
  with analyze_from_run [OF valid_log_events [OF assms(1)], of ?idle opts "[]"] assms(2,3)
  show ?thesis
    by (simp add: analyzeEventLog_def create_measurement guard_def finalizeAnalysis_def Let_def)
       (simp add: measurement_def Let_def)
qed

lemma analyzeEventLog_signals:
  "analyzeEventLog rank es m opts = Inr (stats, signals) \<Longrightarrow>
     \<exists>s m' ps. signals = [timing_signal s m' ps, edit_signal s m']"
  by (auto simp: analyzeEventLog_def finalizeAnalysis_def andThen_Inr_iff guard_Inr_iff split: prod.splits)

lemma default_analyzer_ids:
  "sg_analyzer_id (runAnalyzerSafely (es, m) (timingDistributionAnalyzer rank idle)) = TIMING_DISTRIBUTION_ANALYZER_ID"
  "sg_analyzer_id (runAnalyzerSafely (es, m) (editTopologyAnalyzer rank large small)) = EDIT_TOPOLOGY_ANALYZER_ID"
proof -
  show "sg_analyzer_id (runAnalyzerSafely (es, m) (timingDistributionAnalyzer rank idle)) = TIMING_DISTRIBUTION_ANALYZER_ID"
    by (auto simp: runAnalyzerSafely_def timingDistributionAnalyzer_def analyzerErrorSignal_def type_error_def
        timing_signal_def Let_def dest!: analyzeEventLog_signals split: sum.splits)
  show "sg_analyzer_id (runAnalyzerSafely (es, m) (editTopologyAnalyzer rank large small)) = EDIT_TOPOLOGY_ANALYZER_ID"
    by (auto simp: runAnalyzerSafely_def editTopologyAnalyzer_def analyzerErrorSignal_def type_error_def notApplicable_def
        edit_signal_def Let_def dest!: analyzeEventLog_signals split: sum.splits if_splits)
qed

lemma measurement_options:
  "measurement idle (no_options\<lparr>ao_idle := x\<rparr>) es = measurement idle no_options es"
  "measurement idle (no_options\<lparr>ao_large := Some DEFAULT_LARGE_ATOMIC_INSERT_CODEPOINTS,
     ao_small := Some DEFAULT_SMALL_EDIT_CODEPOINTS\<rparr>) es = measurement idle no_options es"
  by (simp_all add: measurement_def no_options_def default_to_def)

lemma signals_count_irrelevant:
  "timing_signal s (m\<lparr>mf_event_count := n\<rparr>) ps = timing_signal s m ps"
  "edit_signal s (m\<lparr>mf_event_count := n\<rparr>) = edit_signal s m"
  by (simp_all add: timing_signal_def edit_signal_def)

lemma default_signals:
  assumes "valid_log es" and "es \<noteq> []" and "0 \<le> default_to DEFAULT_IDLE_THRESHOLD_MS idle"
    and "default_to DEFAULT_IDLE_THRESHOLD_MS idle \<le> MAX_TIME_FIELD_VALUE"
  shows "runAnalyzerSafely (es, m) (timingDistributionAnalyzer rank idle) =
       timing_signal (measurement (default_to DEFAULT_IDLE_THRESHOLD_MS idle) no_options es) m
         (percentiles_of rank (delays_of es))"
    and "runAnalyzerSafely (es, m) (editTopologyAnalyzer rank None None) =
       edit_signal (measurement DEFAULT_IDLE_THRESHOLD_MS no_options es) m"
proof -
  let ?t = "no_options\<lparr>ao_idle := Some (default_to DEFAULT_IDLE_THRESHOLD_MS idle)\<rparr>"
  let ?e = "no_options\<lparr>ao_large := Some DEFAULT_LARGE_ATOMIC_INSERT_CODEPOINTS,
     ao_small := Some DEFAULT_SMALL_EDIT_CODEPOINTS\<rparr>"
  have d: "default_to x (ao_idle ?t) = default_to DEFAULT_IDLE_THRESHOLD_MS idle" "default_to x (ao_idle ?e) = x" for x
    by (simp_all add: no_options_def)
  show "runAnalyzerSafely (es, m) (timingDistributionAnalyzer rank idle) =
       timing_signal (measurement (default_to DEFAULT_IDLE_THRESHOLD_MS idle) no_options es) m
         (percentiles_of rank (delays_of es))"
    using analyzeEventLog_valid [OF assms(1), of ?t] assms(3,4)
    by (simp add: runAnalyzerSafely_def timingDistributionAnalyzer_def type_error_def d Let_def
        measurement_options signals_count_irrelevant)
  have "ao_idle no_options = None" by (simp add: no_options_def)
  moreover have "0 \<le> DEFAULT_IDLE_THRESHOLD_MS" "DEFAULT_IDLE_THRESHOLD_MS \<le> MAX_TIME_FIELD_VALUE"
    by (simp_all add: DEFAULT_IDLE_THRESHOLD_MS_def MAX_TIME_FIELD_VALUE_def)
  ultimately show "runAnalyzerSafely (es, m) (editTopologyAnalyzer rank None None) =
       edit_signal (measurement DEFAULT_IDLE_THRESHOLD_MS no_options es) m"
    using analyzeEventLog_valid [OF assms(1), of ?e] assms(2)
    by (simp add: runAnalyzerSafely_def editTopologyAnalyzer_def type_error_def d Let_def
        measurement_options signals_count_irrelevant)
qed

section \<open>Properties\<close>

text \<open>Percentiles from counts are exact. Counting the delays of a log one by one in a table and
  reading percentiles off the cumulative counts gives the same four values as sorting all the
  delays and indexing the sorted array, whatever rank the quotient rounds to.\<close>

theorem counted_percentiles_exact:
  assumes "rank_ok rank"
  shows "percentileValues rank (foldl count_delay [] ds) = percentiles_of rank ds"
  by (rule percentiles_counted [OF assms])

definition sample_rank :: rank_fun where
  "sample_rank p n = (p * n + 99) div 100"

lemma sample_rank_ok: "rank_ok sample_rank"
  by (auto simp: rank_ok_def sample_rank_def)

lemma counted_percentiles_exact_witness:
  "percentileValues sample_rank (foldl count_delay [] [40, 7, 40, 1000]) = percentiles_of sample_rank [40, 7, 40, 1000]"
  by (rule counted_percentiles_exact [OF sample_rank_ok])

text \<open>The default analyzers always answer. For every log and manifest \<open>runDefaultAnalyzers\<close> returns
  exactly two signals, the timing signal and then the topology signal; on a valid non-empty log
  with a valid idle threshold they are the signals of the accumulator that measured the log.\<close>

theorem default_analyzers_answer:
  "\<exists>t e. runDefaultAnalyzers rank (es, m) idle = Inr [t, e]
     \<and> sg_analyzer_id t = TIMING_DISTRIBUTION_ANALYZER_ID \<and> sg_analyzer_id e = EDIT_TOPOLOGY_ANALYZER_ID
     \<and> (valid_log es \<and> es \<noteq> [] \<and> 0 \<le> default_to DEFAULT_IDLE_THRESHOLD_MS idle
          \<and> default_to DEFAULT_IDLE_THRESHOLD_MS idle \<le> MAX_TIME_FIELD_VALUE
        \<longrightarrow> t = timing_signal (measurement (default_to DEFAULT_IDLE_THRESHOLD_MS idle) no_options es) m
                 (percentiles_of rank (delays_of es))
          \<and> e = edit_signal (measurement DEFAULT_IDLE_THRESHOLD_MS no_options es) m)"
proof -
  let ?reg = "[timingDistributionAnalyzer rank idle, editTopologyAnalyzer rank None None]"
  have reg: "runDefaultAnalyzers rank (es, m) idle = Inr (List.map (runAnalyzerSafely (es, m)) ?reg)"
    by (simp add: runDefaultAnalyzers_def createDefaultAnalyzerRegistry_def register_def runAnalyzers_def guard_def
        timingDistributionAnalyzer_def editTopologyAnalyzer_def TIMING_DISTRIBUTION_ANALYZER_ID_def
        EDIT_TOPOLOGY_ANALYZER_ID_def)
  have ids: "sg_analyzer_id (runAnalyzerSafely (es, m) (timingDistributionAnalyzer rank idle)) = TIMING_DISTRIBUTION_ANALYZER_ID"
    "sg_analyzer_id (runAnalyzerSafely (es, m) (editTopologyAnalyzer rank None None)) = EDIT_TOPOLOGY_ANALYZER_ID"
    by (rule default_analyzer_ids)+
  show ?thesis
    unfolding reg using ids default_signals [of es idle m rank] by auto
qed

lemma default_analyzers_answer_witness:
  "\<exists>t e. runDefaultAnalyzers sample_rank ([sample_insert], wr_manifest sample_record) None = Inr [t, e]
     \<and> sg_analyzer_id t = TIMING_DISTRIBUTION_ANALYZER_ID \<and> sg_analyzer_id e = EDIT_TOPOLOGY_ANALYZER_ID
     \<and> e = edit_signal (measurement DEFAULT_IDLE_THRESHOLD_MS no_options [sample_insert]) (wr_manifest sample_record)"
proof -
  have "valid_log [sample_insert]" by code_simp
  moreover have "0 \<le> DEFAULT_IDLE_THRESHOLD_MS" "DEFAULT_IDLE_THRESHOLD_MS \<le> MAX_TIME_FIELD_VALUE"
    by (simp_all add: DEFAULT_IDLE_THRESHOLD_MS_def MAX_TIME_FIELD_VALUE_def)
  ultimately show ?thesis
    using default_analyzers_answer [of sample_rank "[sample_insert]" "wr_manifest sample_record" None] by auto
qed

lemma analyzeEventLog_edit:
  assumes "valid_log es" and "analyzeEventLog rank es m opts = Inr (stats, [t, e])"
  shows "\<exists>idle m'. e = edit_signal (measurement idle opts es) m'"
proof -
  let ?idle = "default_to DEFAULT_IDLE_THRESHOLD_MS (ao_idle opts)"
  have "0 \<le> ?idle \<and> ?idle \<le> MAX_TIME_FIELD_VALUE"
    using assms(2) by (auto simp: analyzeEventLog_def andThen_Inr_iff create_measurement guard_Inr_iff)
  with assms analyzeEventLog_valid [OF assms(1), of opts rank m] show ?thesis by (auto simp: Let_def)
qed

definition corrected_keys :: "string list" where
  "corrected_keys = [''inserted_codepoints_total'', ''deleted_codepoints_total'', ''atomic_insert_max_len'',
     ''revision_deleted_codepoint_ratio'', ''deletion_count'', ''deletion_cluster_count'']"

lemma legacy_correction_values:
  "map_of (legacy_corrections es) ''inserted_codepoints_total'' = Some (nullable_value (st_inserted (aggregateMutationSizes es)))"
  "map_of (legacy_corrections es) ''deleted_codepoints_total'' = Some (nullable_value (st_deleted (aggregateMutationSizes es)))"
  "map_of (legacy_corrections es) ''atomic_insert_max_len'' = Some (nullable_value (st_largest (aggregateMutationSizes es)))"
  "map_of (legacy_corrections es) ''revision_deleted_codepoint_ratio'' =
     Some (revisionRatio (st_inserted (aggregateMutationSizes es)) (st_deleted (aggregateMutationSizes es)))"
  "map_of (legacy_corrections es) ''deletion_count'' =
     Some (if st_deleted (aggregateMutationSizes es) = None then VNull else VInt (tally is_deletion es))"
  "map_of (legacy_corrections es) ''deletion_cluster_count'' =
     Some (if st_deleted (aggregateMutationSizes es) = None then VNull else VInt (countDeletionClusters es))"
  by (simp_all add: legacy_corrections_def Let_def)

lemma edit_signal_values:
  "map_of (sg_measures (edit_signal s m)) ''inserted_codepoints_total'' = Some (nullable_value (ac_inserted s), cps)"
  "map_of (sg_measures (edit_signal s m)) ''deleted_codepoints_total'' = Some (nullable_value (ac_deleted s), cps)"
  "map_of (sg_measures (edit_signal s m)) ''atomic_insert_max_len'' = Some (nullable_value (ac_largest s), cps)"
  "map_of (sg_measures (edit_signal s m)) ''revision_deleted_codepoint_ratio'' =
     Some (revisionRatio (ac_inserted s) (ac_deleted s), None)"
  "map_of (sg_measures (edit_signal s m)) ''deletion_count'' =
     Some (if ac_deleted s = None then VNull else VInt (ac_deletion_events s), None)"
  "map_of (sg_measures (edit_signal s m)) ''deletion_cluster_count'' =
     Some (if ac_deleted s = None then VNull else VInt (ac_deletion_clusters s), None)"
  by (simp_all add: edit_signal_def Let_def)

lemma measurement_sizes:
  "ac_inserted (measurement idle opts es) = st_inserted (aggregateMutationSizes es)"
  "ac_deleted (measurement idle opts es) = st_deleted (aggregateMutationSizes es)"
  "ac_largest (measurement idle opts es) = st_largest (aggregateMutationSizes es)"
  "ac_deletion_events (measurement idle opts es) = tally is_deletion es"
  "ac_deletion_clusters (measurement idle opts es) = countDeletionClusters es"
  by (simp_all add: measurement_def Let_def)

lemma corrected_keys_cases:
  assumes "k \<in> set corrected_keys"
  obtains "k = ''inserted_codepoints_total''" | "k = ''deleted_codepoints_total''" | "k = ''atomic_insert_max_len''"
  | "k = ''revision_deleted_codepoint_ratio''" | "k = ''deletion_count''" | "k = ''deletion_cluster_count''"
  using assms unfolding corrected_keys_def list.set insert_iff empty_iff
  by (elim disjE FalseE) (erule that)+

lemma corrections_defined: "k \<in> set corrected_keys \<Longrightarrow> \<exists>v. map_of (legacy_corrections es) k = Some v"
  by (erule corrected_keys_cases) (simp_all only: legacy_correction_values option.inject ex_simps simp_thms)

lemma fresh_measures:
  assumes "k \<in> set corrected_keys" and "map_of (legacy_corrections es) k = Some v"
  shows "\<exists>u'. map_of (sg_measures (edit_signal (measurement idle opts es) m')) k = Some (v, u')"
  using assms(1)
  by (cases rule: corrected_keys_cases)
     (use assms(2) in \<open>simp_all only: legacy_correction_values edit_signal_values measurement_sizes option.inject, simp_all\<close>)

text \<open>Legacy signals are corrected to today's measurements. After
  \<open>upgradeLegacyEditTopologySignal\<close>, every total, maximum, ratio and deletion count of an applicable
  0.1.0 topology signal has exactly the value that analyzing the same valid log now gives it.\<close>

theorem legacy_upgrade_agrees:
  assumes "valid_log es" and "analyzeEventLog rank es m opts = Inr (stats, [t, e])"
    and "sg_analyzer_id s = EDIT_TOPOLOGY_ANALYZER_ID" and "sg_analyzer_version s = ''0.1.0''" and "sg_applicable s"
    and "k \<in> set corrected_keys" and "(k, v, u) \<in> set (sg_measures (upgradeLegacyEditTopologySignal s es))"
  shows "\<exists>u'. (k, v, u') \<in> set (sg_measures e)"
proof -
  obtain idle m' where e: "e = edit_signal (measurement idle opts es) m'"
    using analyzeEventLog_edit [OF assms(1,2)] by blast
  have up: "sg_measures (upgradeLegacyEditTopologySignal s es) =
      List.map (\<lambda>(k, v, u). (k, default_to v (map_of (legacy_corrections es) k), u)) (sg_measures s)"
    using assms(3-5) by (simp add: upgradeLegacyEditTopologySignal_def)
  obtain w where w: "map_of (legacy_corrections es) k = Some w"
    using corrections_defined [OF assms(6)] by blast
  from assms(7) obtain v0 where "v = default_to v0 (map_of (legacy_corrections es) k)"
    unfolding up by auto
  with w have m: "map_of (legacy_corrections es) k = Some v" by simp
  obtain u' where "map_of (sg_measures e) k = Some (v, u')"
    using fresh_measures [OF assms(6) m] e by blast
  then show ?thesis by (blast dest: map_of_SomeD)
qed

definition sample_legacy :: signal where
  "sample_legacy = \<lparr>sg_analyzer_id = EDIT_TOPOLOGY_ANALYZER_ID, sg_analyzer_version = ''0.1.0'', sg_applicable = True,
     sg_measures = [(''deletion_count'', VInt 7, None)], sg_explanation = NeedsOneEvent\<rparr>"

lemma legacy_upgrade_agrees_witness:
  "\<exists>stats t e u'. analyzeEventLog sample_rank [sample_insert] (wr_manifest sample_record) no_options = Inr (stats, [t, e])
     \<and> (''deletion_count'', VInt 0, u') \<in> set (sg_measures e)"
proof -
  have valid: "valid_log [sample_insert]" by code_simp
  have "0 \<le> DEFAULT_IDLE_THRESHOLD_MS" "DEFAULT_IDLE_THRESHOLD_MS \<le> MAX_TIME_FIELD_VALUE" "ao_idle no_options = None"
    by (simp_all add: DEFAULT_IDLE_THRESHOLD_MS_def MAX_TIME_FIELD_VALUE_def no_options_def)
  then obtain stats t e where run: "analyzeEventLog sample_rank [sample_insert] (wr_manifest sample_record) no_options = Inr (stats, [t, e])"
    using analyzeEventLog_valid [OF valid, of no_options sample_rank "wr_manifest sample_record"] by (auto simp: Let_def)
  have "(''deletion_count'', VInt 0, None) \<in> set (sg_measures (upgradeLegacyEditTopologySignal sample_legacy [sample_insert]))"
    by code_simp
  with legacy_upgrade_agrees [OF valid run, of sample_legacy "''deletion_count''" "VInt 0" None] run show ?thesis
    by (auto simp: sample_legacy_def corrected_keys_def)
qed

end
