(* ===== verification/Observation.thy ===== *)
theory Observation
  imports Stream_Verifier "HOL-Library.AList"
begin

text \<open>
  Server observation of a writing session (\<open>packages/storage/src/index.ts\<close>, the in-memory store):
  a session collects checkpoints, each an event count with the chain tip at that count, and a
  record is bound to the session when every checkpoint is the tip of one of its prefixes.
\<close>

section \<open>Sessions and observations\<close>

record commitment =
  cm_checkpoint_id :: jsstring
  cm_event_count :: int
  cm_chain_tip :: jsstring
  cm_observed_at :: jsstring

datatype observation_state = Observed | Partial | Unobserved | NotRequested

record observed_session =
  os_id :: jsstring
  os_token_hash :: jsstring
  os_finalized :: "jsstring option"
  os_state :: "observation_state option"
  os_created_at :: jsstring
  os_finalized_at :: "jsstring option"
  os_checkpoints :: "commitment list"

record record_observation =
  ro_state :: observation_state
  ro_session :: "jsstring option"
  ro_commitments :: "commitment list"
  ro_checkpoint_count :: int
  ro_first_observed_at :: "jsstring option"
  ro_last_observed_at :: "jsstring option"
  ro_server_span_ms :: "int option"

datatype observation_error =
    SessionNotFound
  | TokenRequired
  | InvalidToken
  | SessionFinalized
  | TipConflict
  | NotMonotonic
  | ObservationMismatch string
  | ChainFailure format_error

text \<open>
  What the platform supplies: the stable sort by \<open>localeCompare\<close> of the observation times, the
  milliseconds of a server timestamp, fresh identifiers and the current time.
\<close>

record clock =
  by_locale :: "commitment list \<Rightarrow> commitment list"
  epoch_ms :: "jsstring \<Rightarrow> int"
  now_iso :: jsstring
  new_uuid :: jsstring

definition clock_ok :: "clock \<Rightarrow> bool" where
  "clock_ok ck \<longleftrightarrow> (\<forall>cs. mset (by_locale ck cs) = mset cs)"

text \<open>Sorting by event count and then by time is a stable sort by count of what is sorted by time.\<close>

definition sort_checkpoints :: "clock \<Rightarrow> commitment list \<Rightarrow> commitment list" where
  "sort_checkpoints ck cs = sort_key cm_event_count (by_locale ck cs)"

text \<open>A string that the source tests for truth counts when it is not empty.\<close>

definition truthy :: "jsstring option \<Rightarrow> bool" where
  "truthy s \<longleftrightarrow> s \<noteq> None \<and> s \<noteq> Some []"

definition observationFromCheckpoints ::
  "clock \<Rightarrow> jsstring \<Rightarrow> observation_state \<Rightarrow> commitment list \<Rightarrow> record_observation" where
  "observationFromCheckpoints ck sessionId state checkpoints =
     (let commitments = sort_checkpoints ck checkpoints;
          first = (case commitments of [] \<Rightarrow> None | c # _ \<Rightarrow> Some (cm_observed_at c));
          last = (if commitments = [] then None else Some (cm_observed_at (last commitments)))
      in \<lparr>ro_state = state, ro_session = Some sessionId, ro_commitments = commitments,
          ro_checkpoint_count = int (length commitments),
          ro_first_observed_at = first, ro_last_observed_at = last,
          ro_server_span_ms = (if truthy first \<and> truthy last
             then Some (max 0 (epoch_ms ck (the last) - epoch_ms ck (the first))) else None)\<rparr>)"

definition empty_observation :: "observation_state \<Rightarrow> record_observation" where
  "empty_observation state = \<lparr>ro_state = state, ro_session = None, ro_commitments = [], ro_checkpoint_count = 0,
     ro_first_observed_at = None, ro_last_observed_at = None, ro_server_span_ms = None\<rparr>"

definition unobservedObservation :: record_observation where
  "unobservedObservation = empty_observation Unobserved"

definition notRequestedObservation :: record_observation where
  "notRequestedObservation = empty_observation NotRequested"

definition assertObservedToken :: "observed_session \<Rightarrow> jsstring option \<Rightarrow> observation_error + unit" where
  "assertObservedToken s tokenHash =
     guard (\<not> truthy tokenHash) TokenRequired
     (guard (tokenHash \<noteq> Some (os_token_hash s)) InvalidToken (Inr ()))"

section \<open>Appending a checkpoint\<close>

type_synonym sessions = "(jsstring \<times> observed_session) list"

record checkpoint_input =
  ci_session_id :: jsstring
  ci_token_hash :: "jsstring option"
  ci_new_token_hash :: jsstring
  ci_event_count :: int
  ci_chain_tip :: jsstring
  ci_observed_at :: "jsstring option"

record checkpoint_result =
  cr_session_id :: jsstring
  cr_checkpoint :: commitment
  cr_session_created :: bool
  cr_checkpoint_created :: bool

definition max_event_count :: "commitment list \<Rightarrow> int" where
  "max_event_count cs = foldr max (List.map cm_event_count cs) 0"

definition add_checkpoint ::
  "clock \<Rightarrow> observed_session \<Rightarrow> bool \<Rightarrow> checkpoint_input \<Rightarrow> jsstring \<Rightarrow> observation_error + observed_session \<times> checkpoint_result" where
  "add_checkpoint ck session sessionCreated input observedAt =
     (case List.find (\<lambda>c. cm_event_count c = ci_event_count input) (os_checkpoints session) of
        Some existing \<Rightarrow>
          guard (cm_chain_tip existing \<noteq> ci_chain_tip input) TipConflict
            (Inr (session, \<lparr>cr_session_id = os_id session, cr_checkpoint = existing,
                            cr_session_created = sessionCreated, cr_checkpoint_created = False\<rparr>))
      | None \<Rightarrow>
          guard (ci_event_count input < max_event_count (os_checkpoints session)) NotMonotonic
            (let c = \<lparr>cm_checkpoint_id = new_uuid ck, cm_event_count = ci_event_count input,
                      cm_chain_tip = ci_chain_tip input, cm_observed_at = observedAt\<rparr>
             in Inr (session\<lparr>os_checkpoints := sort_checkpoints ck (os_checkpoints session @ [c])\<rparr>,
                     \<lparr>cr_session_id = os_id session, cr_checkpoint = c,
                      cr_session_created = sessionCreated, cr_checkpoint_created = True\<rparr>)))"

text \<open>
  A new session is entered in the map before its checkpoint is added, so it stays there when the
  checkpoint is refused.
\<close>

definition appendObservedCheckpoint ::
  "clock \<Rightarrow> sessions \<Rightarrow> checkpoint_input \<Rightarrow> sessions \<times> (observation_error + checkpoint_result)" where
  "appendObservedCheckpoint ck ss input =
     (let observedAt = (case ci_observed_at input of Some t \<Rightarrow> t | None \<Rightarrow> now_iso ck);
          k = ci_session_id input;
          store = (\<lambda>ss session created. case add_checkpoint ck session created input observedAt of
              Inl e \<Rightarrow> (ss, Inl e)
            | Inr (session', r) \<Rightarrow> (AList.update k session' ss, Inr r))
      in case map_of ss k of
          None \<Rightarrow>
            if truthy (ci_token_hash input) then (ss, Inl SessionNotFound)
            else let session = \<lparr>os_id = k, os_token_hash = ci_new_token_hash input, os_finalized = None,
                       os_state = None, os_created_at = observedAt, os_finalized_at = None, os_checkpoints = []\<rparr>
                 in store (AList.update k session ss) session True
        | Some session \<Rightarrow>
            (case assertObservedToken session (ci_token_hash input) of
               Inl e \<Rightarrow> (ss, Inl e)
             | Inr _ \<Rightarrow> if truthy (os_finalized session) then (ss, Inl SessionFinalized)
                        else store ss session False))"

definition getObservedSessionForBinding ::
  "sessions \<Rightarrow> jsstring \<Rightarrow> jsstring \<Rightarrow> int option \<Rightarrow> observation_error + observed_session" where
  "getObservedSessionForBinding ss sessionId tokenHash maximum =
     (case map_of ss sessionId of
        None \<Rightarrow> Inl SessionNotFound
      | Some s \<Rightarrow> andThen (assertObservedToken s (Some tokenHash)) (\<lambda>_.
          guard (\<exists>n \<in> set_option maximum. \<exists>c \<in> set (os_checkpoints s). cm_event_count c > n)
            (ObservationMismatch ''checkpoint event_count exceeds final record'') (Inr s)))"

section \<open>Binding a record\<close>

fun check_commitments :: "jsstring list \<Rightarrow> commitment list \<Rightarrow> observation_error + unit" where
  "check_commitments chain [] = Inr ()"
| "check_commitments chain (c # cs) =
     guard (cm_event_count c < 1 \<or> cm_event_count c > int (length chain))
       (ObservationMismatch ''checkpoint event_count does not match final record'')
     (guard (chain ! nat (cm_event_count c - 1) \<noteq> cm_chain_tip c)
       (ObservationMismatch ''checkpoint does not match final record prefix'')
       (check_commitments chain cs))"

definition validateRecordObservation ::
  "noble \<Rightarrow> clock \<Rightarrow> writing_record \<Rightarrow> jsstring \<Rightarrow> commitment list \<Rightarrow> observation_error + record_observation" where
  "validateRecordObservation nb ck r sessionId checkpoints =
     (let commitments = sort_checkpoints ck checkpoints; m = wr_manifest r in
      guard (commitments = []) (ObservationMismatch ''observed session has no commitments'')
      (case computeEventHashChain nb (wr_events r) (mf_session_id m) (mf_format_version m) of
         Inl e \<Rightarrow> Inl (ChainFailure e)
       | Inr chain \<Rightarrow> andThen (check_commitments chain commitments) (\<lambda>_.
           Inr (observationFromCheckpoints ck sessionId
             (if cm_event_count (last commitments) = int (length (wr_events r)) then Observed else Partial)
             commitments))))"

section \<open>What checkpoints promise\<close>

definition session_ok :: "observed_session \<Rightarrow> bool" where
  "session_ok s \<longleftrightarrow> sorted_wrt (<) (List.map cm_event_count (os_checkpoints s))
     \<and> (\<forall>c \<in> set (os_checkpoints s). 0 \<le> cm_event_count c)"

definition sessions_ok :: "sessions \<Rightarrow> bool" where
  "sessions_ok ss \<longleftrightarrow> (\<forall>k s. map_of ss k = Some s \<longrightarrow> session_ok s)"

text \<open>Nothing recorded about a session is lost, and a finalized session does not change.\<close>

definition extends :: "observed_session \<Rightarrow> observed_session \<Rightarrow> bool" where
  "extends s s' \<longleftrightarrow> os_id s' = os_id s \<and> os_token_hash s' = os_token_hash s \<and> os_finalized s' = os_finalized s
     \<and> set (os_checkpoints s) \<subseteq> set (os_checkpoints s') \<and> (truthy (os_finalized s) \<longrightarrow> s' = s)"

lemma extends_refl [simp]: "extends s s"
  by (simp add: extends_def)

lemma extends_trans: "extends a b \<Longrightarrow> extends b c \<Longrightarrow> extends a c"
  by (auto simp: extends_def)

lemma set_sort_checkpoints: "clock_ok ck \<Longrightarrow> set (sort_checkpoints ck cs) = set cs"
  by (simp add: sort_checkpoints_def clock_ok_def flip: set_mset_mset)

lemma mset_sort_checkpoints: "clock_ok ck \<Longrightarrow> mset (sort_checkpoints ck cs) = mset cs"
  by (simp add: sort_checkpoints_def clock_ok_def)

lemma sort_checkpoints_strict:
  assumes "clock_ok ck" and "distinct (List.map cm_event_count cs)"
  shows "sorted_wrt (<) (List.map cm_event_count (sort_checkpoints ck cs))"
proof -
  have "mset (List.map cm_event_count (sort_checkpoints ck cs)) = mset (List.map cm_event_count cs)"
    using mset_sort_checkpoints [OF assms(1), of cs] by simp
  then have "distinct (List.map cm_event_count (sort_checkpoints ck cs))"
    using assms(2) mset_eq_imp_distinct_iff by blast
  then show ?thesis by (simp add: sort_checkpoints_def strict_sorted_iff)
qed

lemma find_None_notin: "List.find P xs = None \<Longrightarrow> x \<in> set xs \<Longrightarrow> \<not> P x"
  by (auto simp: find_None_iff)

lemma add_checkpoint_ok:
  assumes "clock_ok ck" and "session_ok s" and "0 \<le> ci_event_count input"
    and "add_checkpoint ck s created input t = Inr (s', r)" and "\<not> truthy (os_finalized s)"
  shows "session_ok s' \<and> extends s s'"
proof (cases "List.find (\<lambda>c. cm_event_count c = ci_event_count input) (os_checkpoints s)")
  case (Some c)
  with assms show ?thesis by (auto simp: add_checkpoint_def guard_Inr_iff)
next
  case None
  define c where "c = \<lparr>cm_checkpoint_id = new_uuid ck, cm_event_count = ci_event_count input,
     cm_chain_tip = ci_chain_tip input, cm_observed_at = t\<rparr>"
  have c: "cm_event_count c = ci_event_count input" by (simp add: c_def)
  have s': "s' = s\<lparr>os_checkpoints := sort_checkpoints ck (os_checkpoints s @ [c])\<rparr>"
    using assms(4) None by (simp add: add_checkpoint_def guard_Inr_iff c_def Let_def)
  have "distinct (List.map cm_event_count (os_checkpoints s))"
    using assms(2) by (simp add: session_ok_def strict_sorted_iff)
  then have "distinct (List.map cm_event_count (os_checkpoints s @ [c]))"
    using None c by (auto dest: find_None_notin)
  from sort_checkpoints_strict [OF assms(1) this] show ?thesis
    using assms set_sort_checkpoints [OF assms(1), of "os_checkpoints s @ [c]"] c
    by (auto simp: s' session_ok_def extends_def)
qed

lemma append_checkpoint_ok:
  assumes "clock_ok ck" and "sessions_ok ss" and "0 \<le> ci_event_count input"
  shows "sessions_ok (fst (appendObservedCheckpoint ck ss input)) \<and>
     (\<forall>k s. map_of ss k = Some s \<longrightarrow>
        (\<exists>s'. map_of (fst (appendObservedCheckpoint ck ss input)) k = Some s' \<and> extends s s'))"
proof (cases "map_of ss (ci_session_id input)")
  case None
  define s where "s = \<lparr>os_id = ci_session_id input, os_token_hash = ci_new_token_hash input, os_finalized = None,
     os_state = None, os_created_at = (case ci_observed_at input of Some t \<Rightarrow> t | None \<Rightarrow> now_iso ck),
     os_finalized_at = None, os_checkpoints = []\<rparr>"
  have s: "session_ok s" "\<not> truthy (os_finalized s)" by (simp_all add: s_def session_ok_def truthy_def)
  from None show ?thesis
    using assms(2) s add_checkpoint_ok [OF assms(1) s(1) assms(3) _ s(2)]
    by (auto simp: appendObservedCheckpoint_def Let_def s_def [symmetric] sessions_ok_def update_conv'
        split: sum.splits prod.splits if_splits)
next
  case (Some s)
  then have s: "session_ok s" using assms(2) by (simp add: sessions_ok_def)
  with Some show ?thesis
    using assms(2) add_checkpoint_ok [OF assms(1) s assms(3)]
    by (auto simp: appendObservedCheckpoint_def Let_def sessions_ok_def update_conv'
        split: sum.splits prod.splits if_splits)
qed

definition serve :: "sessions \<Rightarrow> clock \<times> checkpoint_input \<Rightarrow> sessions" where
  "serve ss request = fst (appendObservedCheckpoint (fst request) ss (snd request))"

definition request_ok :: "clock \<times> checkpoint_input \<Rightarrow> bool" where
  "request_ok request \<longleftrightarrow> clock_ok (fst request) \<and> 0 \<le> ci_event_count (snd request)"

lemma serve_all:
  assumes "list_all request_ok requests" and "sessions_ok ss"
  shows "sessions_ok (foldl serve ss requests) \<and>
     (\<forall>k s. map_of ss k = Some s \<longrightarrow> (\<exists>s'. map_of (foldl serve ss requests) k = Some s' \<and> extends s s'))"
  using assms
proof (induction requests arbitrary: ss)
  case (Cons q qs)
  have q: "sessions_ok (serve ss q) \<and>
     (\<forall>k s. map_of ss k = Some s \<longrightarrow> (\<exists>s'. map_of (serve ss q) k = Some s' \<and> extends s s'))"
    using append_checkpoint_ok [of "fst q" ss "snd q"] Cons.prems by (simp add: serve_def request_ok_def)
  with Cons.IH [of "serve ss q"] Cons.prems show ?case
    by simp (meson extends_trans)
qed simp

text \<open>Observation is append-only. However checkpoint requests arrive, refused ones included, a session
  that exists keeps its identity, token and every checkpoint it ever had; its checkpoints have
  strictly increasing event counts; and once finalized it never changes.\<close>

theorem checkpoints_append_only:
  assumes "list_all request_ok (requests @ later)" and "map_of (foldl serve [] requests) k = Some s"
  shows "\<exists>s'. map_of (foldl serve [] (requests @ later)) k = Some s' \<and> extends s s'
     \<and> sorted_wrt (<) (List.map cm_event_count (os_checkpoints s'))"
proof -
  have "sessions_ok []" by (simp add: sessions_ok_def)
  then have ok: "sessions_ok (foldl serve [] requests)" using serve_all assms(1) by simp
  with serve_all [of later "foldl serve [] requests"] assms obtain s' where
    "map_of (foldl serve [] (requests @ later)) k = Some s'" "extends s s'" "sessions_ok (foldl serve [] (requests @ later))"
    by auto
  then show ?thesis by (auto simp: sessions_ok_def session_ok_def)
qed

definition sample_clock :: clock where
  "sample_clock = \<lparr>by_locale = (\<lambda>cs. cs), epoch_ms = (\<lambda>_. 0), now_iso = js ''t'', new_uuid = js ''id''\<rparr>"

definition sample_request :: "int \<Rightarrow> clock \<times> checkpoint_input" where
  "sample_request n = (sample_clock, \<lparr>ci_session_id = js ''s'', ci_token_hash = (if n = 0 then None else Some (js ''h'')),
     ci_new_token_hash = js ''h'', ci_event_count = n, ci_chain_tip = js ''x'', ci_observed_at = None\<rparr>)"

lemma checkpoints_append_only_witness:
  "\<exists>s s'. map_of (foldl serve [] [sample_request 0]) (js ''s'') = Some s \<and>
     map_of (foldl serve [] ([sample_request 0] @ [sample_request 2])) (js ''s'') = Some s' \<and> extends s s'"
proof -
  have ok: "list_all request_ok ([sample_request 0] @ [sample_request 2])"
    by (simp add: request_ok_def sample_request_def sample_clock_def clock_ok_def)
  obtain s where s: "map_of (foldl serve [] [sample_request 0]) (js ''s'') = Some s"
    by (simp add: serve_def appendObservedCheckpoint_def add_checkpoint_def sample_request_def truthy_def guard_def
        max_event_count_def Let_def)
  from checkpoints_append_only [OF ok s] s show ?thesis by blast
qed

section \<open>What a bound record shares with its session\<close>

lemma check_commitments_Inr:
  "check_commitments chain cs = Inr u \<longleftrightarrow> (\<forall>c \<in> set cs. 1 \<le> cm_event_count c \<and> cm_event_count c \<le> int (length chain)
     \<and> chain ! nat (cm_event_count c - 1) = cm_chain_tip c)"
  by (induction cs) (auto simp: guard_Inr_iff)

lemma validateRecordObservation_Inr:
  assumes "noble_ok nb" and "clock_ok ck"
  shows "validateRecordObservation nb ck r sessionId checkpoints = Inr obs \<longleftrightarrow>
     checkpoints \<noteq> [] \<and> wr_events r \<noteq> [] \<and> valid_log (wr_events r) \<and> isUuid (mf_session_id (wr_manifest r))
     \<and> (\<forall>c \<in> set checkpoints. 1 \<le> cm_event_count c \<and> cm_event_count c \<le> int (length (wr_events r))
          \<and> tip_after nb (mf_session_id (wr_manifest r)) (mf_format_version (wr_manifest r))
              (take (nat (cm_event_count c)) (wr_events r)) = Some (cm_chain_tip c))
     \<and> obs = observationFromCheckpoints ck sessionId
         (if cm_event_count (last (sort_checkpoints ck checkpoints)) = int (length (wr_events r)) then Observed else Partial)
         (sort_checkpoints ck checkpoints)"
proof -
  let ?sid = "mf_session_id (wr_manifest r)" and ?v = "mf_format_version (wr_manifest r)" and ?es = "wr_events r"
  have tips: "tips_from nb ?sid ?v None ?es ! nat (n - 1) = tip \<longleftrightarrow> tip_after nb ?sid ?v (take (nat n) ?es) = Some tip"
    if "1 \<le> n" "n \<le> int (length ?es)" for n tip
  proof -
    from that have "nat (n - 1) < length ?es" "Suc (nat (n - 1)) = nat n" by auto
    with tips_from_nth [of "nat (n - 1)" ?es nb ?sid ?v] show ?thesis by auto
  qed
  have nil: "sort_checkpoints ck checkpoints = [] \<longleftrightarrow> checkpoints = []"
    using mset_sort_checkpoints [OF assms(2), of checkpoints] by auto
  have check: "check_commitments (tips_from nb ?sid ?v None ?es) (sort_checkpoints ck checkpoints) = Inr u \<longleftrightarrow>
      (\<forall>c \<in> set checkpoints. 1 \<le> cm_event_count c \<and> cm_event_count c \<le> int (length ?es)
          \<and> tip_after nb ?sid ?v (take (nat (cm_event_count c)) ?es) = Some (cm_chain_tip c))" for u
    using tips by (auto simp: check_commitments_Inr set_sort_checkpoints [OF assms(2)])
  show ?thesis
  proof (cases "?es \<noteq> [] \<and> valid_log ?es \<and> isUuid ?sid")
    case True
    then have "computeEventHashChain nb ?es ?sid ?v = Inr (tips_from nb ?sid ?v None ?es)"
      by (simp add: computeEventHashChain_Inr_iff [OF assms(1)])
    with True show ?thesis
      by (auto simp: validateRecordObservation_def Let_def nil guard_Inr_iff andThen_Inr_iff check)
  next
    case False
    then have "computeEventHashChain nb ?es ?sid ?v \<noteq> Inr c" for c
      by (auto simp: computeEventHashChain_Inr_iff [OF assms(1)])
    then obtain e where "computeEventHashChain nb ?es ?sid ?v = Inl e"
      by (cases "computeEventHashChain nb ?es ?sid ?v") auto
    with False show ?thesis by (auto simp: validateRecordObservation_def Let_def guard_Inr_iff)
  qed
qed

text \<open>C35: Observed prefixes are fixed. Two records of the same session that are both bound to a session
  with a checkpoint at \<open>n\<close> events have the same first \<open>n\<close> events, unless two different byte strings
  hashed for those prefixes have the same digest.\<close>

theorem observed_prefix_agreement:
  assumes "noble_ok nb" and "clock_ok ck"
    and "validateRecordObservation nb ck r sessionId checkpoints = Inr obs"
    and "validateRecordObservation nb ck r' sessionId' checkpoints' = Inr obs'"
    and "c \<in> set checkpoints" and "c \<in> set checkpoints'" and "nat (cm_event_count c) = n"
  shows "take n (wr_events r) = take n (wr_events r') \<and> mf_session_id (wr_manifest r) = mf_session_id (wr_manifest r')
     \<or> collide nb
         (chain_inputs nb (mf_session_id (wr_manifest r)) (mf_format_version (wr_manifest r)) (take n (wr_events r)))
         (chain_inputs nb (mf_session_id (wr_manifest r')) (mf_format_version (wr_manifest r')) (take n (wr_events r')))"
proof -
  note a = assms(3) [unfolded validateRecordObservation_Inr [OF assms(1,2)]]
    and b = assms(4) [unfolded validateRecordObservation_Inr [OF assms(1,2)]]
  from a b assms(5-7) have tips: "tip_after nb (mf_session_id (wr_manifest r)) (mf_format_version (wr_manifest r)) (take n (wr_events r))
      = tip_after nb (mf_session_id (wr_manifest r')) (mf_format_version (wr_manifest r')) (take n (wr_events r'))" by auto
  from a assms(5,7) have "n \<noteq> 0" by auto
  with a have "take n (wr_events r) \<noteq> []" by simp
  with chain_tip_binding [OF assms(1) _ _ tips] a b show ?thesis by auto
qed

definition sample_commitment :: commitment where
  "sample_commitment = \<lparr>cm_checkpoint_id = js ''c'', cm_event_count = 1,
     cm_chain_tip = hd (tips_from sample_noble sample_session V0_1 None [sample_event]), cm_observed_at = js ''t''\<rparr>"

lemma observed_prefix_agreement_witness:
  "\<exists>obs. validateRecordObservation sample_noble sample_clock sample_record (js ''s'') [sample_commitment] = Inr obs \<and>
     (take 1 (wr_events sample_record) = take 1 (wr_events sample_record) \<and>
        mf_session_id (wr_manifest sample_record) = mf_session_id (wr_manifest sample_record)
      \<or> collide sample_noble (chain_inputs sample_noble sample_session V0_1 [sample_event])
          (chain_inputs sample_noble sample_session V0_1 [sample_event]))"
proof -
  have ck: "clock_ok sample_clock" by (simp add: clock_ok_def sample_clock_def)
  have "tip_after sample_noble sample_session V0_1 [sample_event] = Some (cm_chain_tip sample_commitment)"
    by (simp add: sample_commitment_def tip_after_def next_tip_def Let_def)
  then obtain obs where obs: "validateRecordObservation sample_noble sample_clock sample_record (js ''s'') [sample_commitment] = Inr obs"
    using validateRecordObservation_Inr [OF sample_noble_ok ck, of sample_record "js ''s''" "[sample_commitment]"]
      sample_log_valid by (auto simp: sample_record_def sample_commitment_def)
  from observed_prefix_agreement [OF sample_noble_ok ck obs obs, of sample_commitment 1] obs show ?thesis
    by (auto simp: sample_commitment_def sample_record_def)
qed

end
