(* ===== verification/Chunked_Store.thy ===== *)
theory Chunked_Store
  imports Observation Analyzers
begin

text \<open>
  The resumable upload store of \<open>packages/storage/src/chunked.ts\<close> (\<open>InMemoryChunkedStore\<close>): uploads,
  their chunks of events and tips in insertion order, the delay counts, and the records that were
  published from chunks. A JavaScript \<open>Map\<close> is an association list in insertion order;
  \<open>AList.update\<close> is \<open>Map.set\<close>. An operation that throws leaves the store as it was.
\<close>

section \<open>State\<close>

datatype upload_error =
    UploadError int string
  | UploadHash format_error
  | UploadAnalysis analysis_error
  | UploadTypeError

datatype upload_observation = UnobservedUpload | BoundUpload jsstring jsstring

record upload_state =
  us_upload_id :: jsstring
  us_manifest :: manifest
  us_observation :: "upload_observation option"
  us_next_seq :: int
  us_chain_tip :: "jsstring option"
  us_last_t :: "int option"
  us_received_bytes :: int
  us_observed_length :: "int option"
  us_analysis :: accumulator
  us_finalized :: "jsstring option"
  us_published_owner :: bool

record chunk_transition =
  ct_state :: upload_state
  ct_tips :: "jsstring list"
  ct_delays :: "int list"

record stored_record =
  sr_manifest :: manifest
  sr_events :: event_log
  sr_chunked :: bool
  sr_short_signature :: jsstring
  sr_stats :: record_stats
  sr_signals :: "signal list"
  sr_observation :: record_observation
  sr_created_at :: jsstring

record event_page =
  ep_events :: event_log
  ep_next_offset :: "int option"
  ep_total_events :: int
  ep_chain_tip_before :: "jsstring option"
  ep_chain_tip_after :: "jsstring option"

record finalize_data =
  fd_short_signature :: jsstring
  fd_stats :: record_stats
  fd_signals :: "signal list"

record published =
  pb_record_hash :: jsstring
  pb_short_signature :: jsstring
  pb_created :: bool

type_synonym stored_chunk = "event_log \<times> jsstring list"

record chunk_store =
  cs_uploads :: "(jsstring \<times> upload_state) list"
  cs_chunks :: "(jsstring \<times> (int \<times> stored_chunk) list) list"
  cs_delays :: "(jsstring \<times> (int \<times> nat) list) list"
  cs_completed :: "(jsstring \<times> stored_record) list"
  cs_sessions :: sessions

section \<open>Operations\<close>

definition get_or :: "'v \<Rightarrow> ('k \<times> 'v) list \<Rightarrow> 'k \<Rightarrow> 'v" where
  "get_or d al k = (case map_of al k of None \<Rightarrow> d | Some v \<Rightarrow> v)"

definition findCompleted :: "chunk_store \<Rightarrow> jsstring \<Rightarrow> stored_record option" where
  "findCompleted st k = (case map_of (cs_completed st) k of
      Some r \<Rightarrow> Some r
    | None \<Rightarrow> List.find (\<lambda>r. sr_short_signature r = k) (List.map snd (cs_completed st)))"

text \<open>Two manifests are the same upload when they differ at most in the server's time stamp.\<close>

definition same_manifest :: "manifest \<Rightarrow> manifest \<Rightarrow> bool" where
  "same_manifest a b \<longleftrightarrow> canonicalizeJson (manifest_json (a\<lparr>mf_ingested_server_t := None\<rparr>))
     = canonicalizeJson (manifest_json (b\<lparr>mf_ingested_server_t := None\<rparr>))"

definition store_begin :: "chunk_store \<Rightarrow> upload_state \<Rightarrow> upload_error + chunk_store \<times> upload_state" where
  "store_begin st state = (case map_of (cs_uploads st) (us_upload_id state) of
      Some existing \<Rightarrow>
        guard (\<not> same_manifest (us_manifest existing) (us_manifest state)) (UploadError 409 ''upload_manifest_conflict'')
          (let existing' = (if truthy (us_finalized existing) then existing
                            else existing\<lparr>us_observation := us_observation state\<rparr>)
           in Inr (st\<lparr>cs_uploads := AList.update (us_upload_id state) existing' (cs_uploads st)\<rparr>, existing'))
    | None \<Rightarrow> Inr (st\<lparr>cs_uploads := AList.update (us_upload_id state) state (cs_uploads st),
                      cs_chunks := AList.update (us_upload_id state) [] (cs_chunks st),
                      cs_delays := AList.update (us_upload_id state) [] (cs_delays st)\<rparr>, state))"

definition assertAppend :: "upload_state \<Rightarrow> int \<Rightarrow> int \<Rightarrow> upload_error + unit" where
  "assertAppend state offset n =
     guard (truthy (us_finalized state)) (UploadError 409 ''upload_already_finalized'')
     (guard (offset \<noteq> us_next_seq state) (UploadError 409 ''upload_offset_conflict'')
     (guard (offset + n > mf_event_count (us_manifest state)) (UploadError 400 ''upload_event_count_exceeded'')
       (Inr ())))"

definition store_append ::
  "chunk_store \<Rightarrow> jsstring \<Rightarrow> int \<Rightarrow> event_log \<Rightarrow> (upload_state \<Rightarrow> upload_error + chunk_transition) \<Rightarrow>
     upload_error + chunk_store \<times> upload_state" where
  "store_append st k offset es transition =
     (case map_of (cs_uploads st) k of
        None \<Rightarrow> Inl (UploadError 404 ''upload_not_found'')
      | Some state \<Rightarrow> (case map_of (cs_chunks st) k of
          None \<Rightarrow> Inl (UploadError 409 ''upload_already_finalized'')
        | Some chunks \<Rightarrow> (case map_of chunks offset of
            Some prior \<Rightarrow>
              guard (canonicalizeJson (JArr (List.map event_json (fst prior))) \<noteq> canonicalizeJson (JArr (List.map event_json es)))
                (UploadError 409 ''upload_chunk_conflict'') (Inr (st, state))
          | None \<Rightarrow> andThen (assertAppend state offset (int (length es))) (\<lambda>_.
              andThen (transition state) (\<lambda>next.
                Inr (st\<lparr>cs_chunks := AList.update k (AList.update offset (es, ct_tips next) chunks) (cs_chunks st),
                        cs_delays := AList.update k (foldl count_delay (get_or [] (cs_delays st) k) (ct_delays next)) (cs_delays st),
                        cs_uploads := AList.update k (ct_state next) (cs_uploads st)\<rparr>, ct_state next))))))"

text \<open>The tip recorded for an event index: the first chunk in insertion order that covers it.\<close>

fun tip_at :: "(int \<times> stored_chunk) list \<Rightarrow> int \<Rightarrow> jsstring option" where
  "tip_at [] i = None"
| "tip_at ((start, es, tips) # chunks) i =
     (if i \<ge> start \<and> i < start + int (length tips) then Some (tips ! nat (i - start)) else tip_at chunks i)"

definition observationView ::
  "clock \<Rightarrow> upload_state \<Rightarrow> observed_session option \<Rightarrow> (int \<Rightarrow> jsstring option) \<Rightarrow> upload_error + record_observation" where
  "observationView ck state session tipAt = (case us_observation state of
      None \<Rightarrow> Inr notRequestedObservation
    | Some UnobservedUpload \<Rightarrow> Inr unobservedObservation
    | Some (BoundUpload sid token) \<Rightarrow> (case session of
        None \<Rightarrow> Inl (UploadError 404 ''observation_unavailable'')
      | Some s \<Rightarrow>
          guard (os_token_hash s \<noteq> token) (UploadError 404 ''observation_unavailable'')
          (guard (truthy (os_finalized s) \<and> os_finalized s \<noteq> Some (mf_record_hash (us_manifest state)))
             (UploadError 409 ''observed_session_finalized'')
          (guard (os_checkpoints s = [] \<or>
                  (\<exists>c \<in> set (os_checkpoints s). tipAt (cm_event_count c - 1) \<noteq> Some (cm_chain_tip c)))
             (UploadError 409 ''observation_mismatch'')
            (Inr (observationFromCheckpoints ck (os_id s)
               (if cm_event_count (last (os_checkpoints s)) = us_next_seq state then Observed else Partial)
               (os_checkpoints s)))))))"

definition bound_session :: "chunk_store \<Rightarrow> upload_state \<Rightarrow> (jsstring \<times> observed_session) option" where
  "bound_session st state = (case us_observation state of
      Some (BoundUpload sid token) \<Rightarrow> map_option (Pair sid) (map_of (cs_sessions st) sid)
    | _ \<Rightarrow> None)"

text \<open>A delay table that an earlier duplicate publication removed is read as an iterable: a TypeError.\<close>

definition store_finalize ::
  "rank_fun \<Rightarrow> clock \<Rightarrow> (jsstring \<Rightarrow> stored_record option) \<Rightarrow> chunk_store \<Rightarrow> jsstring \<Rightarrow>
     (upload_state \<Rightarrow> percentiles \<Rightarrow> upload_error + finalize_data) \<Rightarrow> upload_error + chunk_store \<times> published" where
  "store_finalize rank ck lookup st k derive =
     (case map_of (cs_uploads st) k of
        None \<Rightarrow> Inl (UploadError 404 ''upload_not_found'')
      | Some state \<Rightarrow>
          (let h = mf_record_hash (us_manifest state);
               existing = (case lookup h of Some r \<Rightarrow> Some r | None \<Rightarrow> findCompleted st h) in
           case existing of
             Some r \<Rightarrow> Inr (st\<lparr>cs_uploads := AList.update k (state\<lparr>us_finalized := Some (mf_record_hash (sr_manifest r))\<rparr>) (cs_uploads st),
                               cs_delays := AList.delete k (cs_delays st),
                               cs_chunks := (if us_published_owner state then cs_chunks st else AList.delete k (cs_chunks st))\<rparr>,
                            \<lparr>pb_record_hash = mf_record_hash (sr_manifest r), pb_short_signature = sr_short_signature r, pb_created = False\<rparr>)
           | None \<Rightarrow> (case map_of (cs_delays st) k of None \<Rightarrow> Inl UploadTypeError | Some table \<Rightarrow>
               andThen (derive state (percentileValues rank table)) (\<lambda>data.
               andThen (observationView ck state (map_option snd (bound_session st state)) (tip_at (get_or [] (cs_chunks st) k))) (\<lambda>obs.
                 let sessions' = (case bound_session st state of
                        Some (sid, s) \<Rightarrow> if truthy (ro_session obs)
                          then AList.update sid (s\<lparr>os_finalized := Some h, os_state := Some (ro_state obs)\<rparr>) (cs_sessions st)
                          else cs_sessions st
                      | None \<Rightarrow> cs_sessions st);
                     stored = \<lparr>sr_manifest = us_manifest state, sr_events = [], sr_chunked = True,
                        sr_short_signature = fd_short_signature data, sr_stats = fd_stats data, sr_signals = fd_signals data,
                        sr_observation = obs,
                        sr_created_at = (case mf_ingested_server_t (us_manifest state) of Some t \<Rightarrow> t | None \<Rightarrow> [])\<rparr>
                 in Inr (st\<lparr>cs_completed := AList.update h stored (cs_completed st), cs_sessions := sessions',
                           cs_uploads := AList.update k (state\<lparr>us_finalized := Some h, us_published_owner := True\<rparr>) (cs_uploads st),
                           cs_delays := AList.delete k (cs_delays st)\<rparr>,
                         \<lparr>pb_record_hash = h, pb_short_signature = fd_short_signature data, pb_created = True\<rparr>))))))"

text \<open>One turn of the loop of \<open>page\<close>: the events so far and the tips around them.\<close>

definition page_chunk ::
  "int \<Rightarrow> int \<Rightarrow> event_log \<times> jsstring option \<times> jsstring option \<Rightarrow> int \<times> stored_chunk \<Rightarrow>
     event_log \<times> jsstring option \<times> jsstring option" where
  "page_chunk offset limit acc ch =
     (let (out, before, after) = acc;
          (start, es, tips) = ch;
          before' = (if offset > start \<and> offset \<le> start + int (length tips) then Some (tips ! nat (offset - start - 1)) else before);
          lo = nat (max 0 (offset - start));
          hi = min (length es) (nat (offset + limit - start));
          sel = drop lo (take hi es)
      in (out @ sel, before', if sel = [] then after else Some (tips ! (hi - 1))))"

definition store_page :: "chunk_store \<Rightarrow> stored_record \<Rightarrow> int \<Rightarrow> int \<Rightarrow> upload_error + event_page" where
  "store_page st r offset limit =
     (case List.find (\<lambda>u. us_published_owner u \<and> us_finalized u = Some (mf_record_hash (sr_manifest r))
              \<and> us_next_seq u = mf_event_count (sr_manifest r)) (List.map snd (cs_uploads st)) of
        None \<Rightarrow> Inl (UploadError 404 ''record_not_found'')
      | Some u \<Rightarrow>
          (let (out, before, after) = foldl (page_chunk offset limit) ([], None, None) (get_or [] (cs_chunks st) (us_upload_id u));
               upto = offset + int (length out)
           in Inr \<lparr>ep_events = out, ep_next_offset = (if upto < us_next_seq u then Some upto else None),
                   ep_total_events = us_next_seq u, ep_chain_tip_before = before,
                   ep_chain_tip_after = (case after of Some t \<Rightarrow> Some t | None \<Rightarrow> before)\<rparr>))"

end
