(* ===== verification/Record_Store.thy ===== *)
theory Record_Store
  imports Chunked_Store
begin

text \<open>
  The in-memory record store of \<open>packages/storage/src/index.ts\<close>: records published whole, records
  published from chunks and the observed sessions that both share. The sessions are the field
  \<open>cs_sessions\<close> of the chunk store, which holds the same \<open>Map\<close> object.
\<close>

section \<open>State and operations\<close>

record record_store =
  rst_by_hash :: "(jsstring \<times> stored_record) list"
  rst_by_short :: "(jsstring \<times> jsstring) list"
  rst_chunked :: chunk_store

datatype save_error =
    ShortSignatureChanged
  | ShortSignatureTaken
  | SaveObservation observation_error

record save_input =
  sv_record :: writing_record
  sv_short_signature :: jsstring
  sv_stats :: record_stats
  sv_signals :: "signal list option"
  sv_observation :: "record_observation option"
  sv_created_at :: "jsstring option"

record save_result =
  sa_stored :: stored_record
  sa_created :: bool

abbreviation rst_sessions :: "record_store \<Rightarrow> sessions" where
  "rst_sessions st \<equiv> cs_sessions (rst_chunked st)"

definition set_sessions :: "sessions \<Rightarrow> record_store \<Rightarrow> record_store" where
  "set_sessions ss st = st\<lparr>rst_chunked := (rst_chunked st)\<lparr>cs_sessions := ss\<rparr>\<rparr>"

definition findByRecordHash :: "record_store \<Rightarrow> jsstring \<Rightarrow> stored_record option" where
  "findByRecordHash st h = (case map_of (rst_by_hash st) h of
      Some r \<Rightarrow> Some r | None \<Rightarrow> findCompleted (rst_chunked st) h)"

definition findByShortSignature :: "record_store \<Rightarrow> jsstring \<Rightarrow> stored_record option" where
  "findByShortSignature st s = (let h = map_of (rst_by_short st) s in
     if truthy h then findByRecordHash st (the h) else findCompleted (rst_chunked st) s)"

definition is_hash_id :: "jsstring \<Rightarrow> bool" where
  "is_hash_id k \<longleftrightarrow> take 3 k = js ''b3:''"

definition findByShortSignatureOrHash :: "record_store \<Rightarrow> jsstring \<Rightarrow> stored_record option" where
  "findByShortSignatureOrHash st k =
     (if is_hash_id k then findByRecordHash st k else findByShortSignature st k)"

definition shortSignatureExists :: "record_store \<Rightarrow> jsstring \<Rightarrow> bool" where
  "shortSignatureExists st s \<longleftrightarrow> map_of (rst_by_short st) s \<noteq> None \<or> findCompleted (rst_chunked st) s \<noteq> None"

definition finalLength :: "record_store \<Rightarrow> jsstring \<Rightarrow> int option" where
  "finalLength st h = (case findByRecordHash st h of
      None \<Rightarrow> None | Some r \<Rightarrow> rs_observed_final_length (sr_stats r))"

definition recordExists :: "record_store \<Rightarrow> jsstring \<Rightarrow> bool" where
  "recordExists st k \<longleftrightarrow> findCompleted (rst_chunked st) k \<noteq> None
     \<or> (if is_hash_id k then map_of (rst_by_hash st) k \<noteq> None else map_of (rst_by_short st) k \<noteq> None)"

text \<open>Binding the record to its observed session marks the session finalized.\<close>

definition bind_session ::
  "noble \<Rightarrow> clock \<Rightarrow> record_store \<Rightarrow> save_input \<Rightarrow> observation_error + record_store \<times> record_observation option" where
  "bind_session nb ck st input =
     (let m = wr_manifest (sv_record input); h = mf_record_hash m;
          sid = (case sv_observation input of None \<Rightarrow> None | Some obs \<Rightarrow> ro_session obs) in
      if \<not> truthy sid then Inr (st, sv_observation input)
      else case map_of (rst_sessions st) (the sid) of
          None \<Rightarrow> Inl SessionNotFound
        | Some s \<Rightarrow>
            guard (truthy (os_finalized s) \<and> os_finalized s \<noteq> Some h) SessionFinalized
            (andThen (validateRecordObservation nb ck (sv_record input) (os_id s) (os_checkpoints s)) (\<lambda>obs.
              Inr (set_sessions (AList.update (the sid)
                     (s\<lparr>os_finalized := Some h, os_state := Some (ro_state obs),
                        os_finalized_at := Some (default_to (default_to (now_iso ck) (sv_created_at input)) (mf_ingested_server_t m))\<rparr>)
                     (rst_sessions st)) st, Some obs))))"

definition stored_of :: "clock \<Rightarrow> save_input \<Rightarrow> record_observation option \<Rightarrow> stored_record" where
  "stored_of ck input obs = \<lparr>sr_manifest = wr_manifest (sv_record input), sr_events = wr_events (sv_record input),
     sr_chunked = False, sr_short_signature = sv_short_signature input, sr_stats = sv_stats input,
     sr_signals = default_to [] (sv_signals input), sr_observation = default_to notRequestedObservation obs,
     sr_created_at = default_to (now_iso ck) (sv_created_at input)\<rparr>"

definition saveRecord ::
  "noble \<Rightarrow> clock \<Rightarrow> record_store \<Rightarrow> save_input \<Rightarrow> save_error + record_store \<times> save_result" where
  "saveRecord nb ck st input =
     (let h = mf_record_hash (wr_manifest (sv_record input)); s = sv_short_signature input in
      case findCompleted (rst_chunked st) h of
        Some r \<Rightarrow> Inr (st, \<lparr>sa_stored = r, sa_created = False\<rparr>)
      | None \<Rightarrow> (case map_of (rst_by_hash st) h of
          Some r \<Rightarrow> guard (sr_short_signature r \<noteq> s) ShortSignatureChanged
            (Inr (st, \<lparr>sa_stored = r, sa_created = False\<rparr>))
        | None \<Rightarrow>
            (let owner = map_of (rst_by_short st) s in
             guard (truthy owner \<and> owner \<noteq> Some h) ShortSignatureTaken
             (case bind_session nb ck st input of
                Inl e \<Rightarrow> Inl (SaveObservation e)
              | Inr (st', obs) \<Rightarrow>
                  (let r = stored_of ck input obs in
                   Inr (st'\<lparr>rst_by_hash := AList.update h r (rst_by_hash st'),
                            rst_by_short := AList.update s h (rst_by_short st')\<rparr>,
                        \<lparr>sa_stored = r, sa_created = True\<rparr>))))))"

section \<open>Requests to the store\<close>

datatype store_request =
    Save clock save_input
  | Begin upload_state
  | Append jsstring int event_log "upload_state \<Rightarrow> upload_error + chunk_transition"
  | Finalize clock jsstring "upload_state \<Rightarrow> percentiles \<Rightarrow> upload_error + finalize_data"
  | Checkpoint clock checkpoint_input

definition set_chunked :: "chunk_store \<Rightarrow> record_store \<Rightarrow> record_store" where
  "set_chunked cs st = st\<lparr>rst_chunked := cs\<rparr>"

definition finalize_upload ::
  "rank_fun \<Rightarrow> clock \<Rightarrow> record_store \<Rightarrow> jsstring \<Rightarrow>
     (upload_state \<Rightarrow> percentiles \<Rightarrow> upload_error + finalize_data) \<Rightarrow> upload_error + chunk_store \<times> published" where
  "finalize_upload rank ck st k derive =
     store_finalize rank ck (findByShortSignatureOrHash st) (rst_chunked st) k derive"

text \<open>The store after a request; a request that throws changes nothing but what a checkpoint enters.\<close>

fun store_step :: "noble \<Rightarrow> rank_fun \<Rightarrow> record_store \<Rightarrow> store_request \<Rightarrow> record_store" where
  "store_step nb rank st (Save ck input) =
     (case saveRecord nb ck st input of Inl _ \<Rightarrow> st | Inr (st', _) \<Rightarrow> st')"
| "store_step nb rank st (Begin u) =
     (case store_begin (rst_chunked st) u of Inl _ \<Rightarrow> st | Inr (cs, _) \<Rightarrow> set_chunked cs st)"
| "store_step nb rank st (Append k offset es transition) =
     (case store_append (rst_chunked st) k offset es transition of Inl _ \<Rightarrow> st | Inr (cs, _) \<Rightarrow> set_chunked cs st)"
| "store_step nb rank st (Finalize ck k derive) =
     (case finalize_upload rank ck st k derive of Inl _ \<Rightarrow> st | Inr (cs, _) \<Rightarrow> set_chunked cs st)"
| "store_step nb rank st (Checkpoint ck input) =
     set_sessions (fst (appendObservedCheckpoint ck (rst_sessions st) input)) st"

definition empty_store :: record_store where
  "empty_store = \<lparr>rst_by_hash = [], rst_by_short = [],
     rst_chunked = \<lparr>cs_uploads = [], cs_chunks = [], cs_delays = [], cs_completed = [], cs_sessions = []\<rparr>\<rparr>"

section \<open>The published records\<close>

abbreviation hash_of :: "stored_record \<Rightarrow> jsstring" where
  "hash_of r \<equiv> mf_record_hash (sr_manifest r)"

text \<open>The store stands for the list of records that were published; its maps are indexes of it.\<close>

definition published_records :: "record_store \<Rightarrow> stored_record list" where
  "published_records st = List.map snd (rst_by_hash st) @ List.map snd (cs_completed (rst_chunked st))"

definition ids_ok :: "stored_record list \<Rightarrow> bool" where
  "ids_ok rs \<longleftrightarrow> distinct (List.map hash_of rs) \<and> distinct (List.map sr_short_signature rs)
     \<and> (\<forall>r \<in> set rs. is_hash_id (hash_of r) \<and> \<not> is_hash_id (sr_short_signature r))"

definition indexes :: "('k \<times> 'v) list \<Rightarrow> ('r \<Rightarrow> 'k) \<Rightarrow> ('r \<Rightarrow> 'v) \<Rightarrow> 'r list \<Rightarrow> bool" where
  "indexes al f g rs \<longleftrightarrow> al = List.map (\<lambda>r. (f r, g r)) rs"

definition store_ok :: "record_store \<Rightarrow> bool" where
  "store_ok st \<longleftrightarrow> (let inline = List.map snd (rst_by_hash st); chunked = List.map snd (cs_completed (rst_chunked st)) in
     indexes (rst_by_hash st) hash_of id inline
     \<and> indexes (rst_by_short st) sr_short_signature hash_of inline
     \<and> indexes (cs_completed (rst_chunked st)) hash_of id chunked
     \<and> ids_ok (published_records st)
     \<and> (\<forall>u \<in> snd ` set (cs_uploads (rst_chunked st)). is_hash_id (mf_record_hash (us_manifest u))))"

text \<open>
  What the callers of the store keep to: record hashes start with \<open>b3:\<close>, short signatures do not,
  and a short signature is free or belongs to the same record (\<open>generateShortSignature\<close>).
\<close>

definition signature_free :: "record_store \<Rightarrow> jsstring \<Rightarrow> jsstring \<Rightarrow> bool" where
  "signature_free st h s \<longleftrightarrow> (\<forall>r \<in> set (published_records st). sr_short_signature r = s \<longrightarrow> hash_of r = h)"

fun request_allowed :: "record_store \<Rightarrow> store_request \<Rightarrow> bool" where
  "request_allowed st (Save ck input) \<longleftrightarrow>
     (let h = mf_record_hash (wr_manifest (sv_record input)); s = sv_short_signature input in
      is_hash_id h \<and> \<not> is_hash_id s \<and> signature_free st h s)"
| "request_allowed st (Begin u) \<longleftrightarrow> is_hash_id (mf_record_hash (us_manifest u))"
| "request_allowed st (Append k offset es transition) \<longleftrightarrow>
     (\<forall>u ct. transition u = Inr ct \<longrightarrow> us_manifest (ct_state ct) = us_manifest u)"
| "request_allowed st (Finalize ck k derive) \<longleftrightarrow>
     (\<forall>u ps d. map_of (cs_uploads (rst_chunked st)) k = Some u \<and> derive u ps = Inr d \<longrightarrow>
        \<not> is_hash_id (fd_short_signature d) \<and> signature_free st (mf_record_hash (us_manifest u)) (fd_short_signature d))"
| "request_allowed st (Checkpoint ck input) \<longleftrightarrow> True"

lemma update_fresh: "k \<notin> fst ` set al \<Longrightarrow> AList.update k v al = al @ [(k, v)]"
  by (induction al) auto

lemma snd_update_subset: "snd ` set (AList.update k v al) \<subseteq> insert v (snd ` set al)"
  by (induction al) auto

lemma map_of_indexed:
  assumes "indexes al f g rs"
  shows "map_of al k = map_option g (List.find (\<lambda>r. f r = k) rs)"
proof -
  have "map_of (List.map (\<lambda>r. (f r, g r)) rs) k = map_option g (List.find (\<lambda>r. f r = k) rs)"
    by (induction rs) auto
  then show ?thesis using assms by (simp add: indexes_def)
qed

lemma indexes_update:
  assumes "indexes al f g rs" and "f r \<notin> f ` set rs"
  shows "indexes (AList.update (f r) (g r) al) f g (rs @ [r])"
  using assms update_fresh [of "f r" al "g r"] by (auto simp: indexes_def image_image)

lemma indexes_values: "indexes al f id rs \<Longrightarrow> List.map snd al = rs"
  by (simp add: indexes_def comp_def)

lemma find_unique:
  assumes "distinct (List.map f rs)"
  shows "List.find (\<lambda>r. f r = k) rs = Some r \<longleftrightarrow> r \<in> set rs \<and> f r = k"
  using assms by (induction rs) (auto simp: image_iff)

lemma find_none: "List.find (\<lambda>r. f r = k) rs = None \<longleftrightarrow> k \<notin> f ` set rs"
  by (auto simp: find_None_iff)

lemma is_hash_id_truthy: "is_hash_id k \<Longrightarrow> k \<noteq> []"
  by (auto simp: is_hash_id_def js_def)

lemma store_ok_lookup:
  assumes "store_ok st"
  defines "inline \<equiv> List.map snd (rst_by_hash st)" and "chunked \<equiv> List.map snd (cs_completed (rst_chunked st))"
  shows "map_of (rst_by_hash st) k = List.find (\<lambda>r. hash_of r = k) inline"
    and "map_of (rst_by_short st) k = map_option hash_of (List.find (\<lambda>r. sr_short_signature r = k) inline)"
    and "map_of (cs_completed (rst_chunked st)) k = List.find (\<lambda>r. hash_of r = k) chunked"
    and "distinct (List.map hash_of (inline @ chunked))" "distinct (List.map sr_short_signature (inline @ chunked))"
    and "r \<in> set (inline @ chunked) \<Longrightarrow> is_hash_id (hash_of r) \<and> \<not> is_hash_id (sr_short_signature r)"
proof -
  note ok = assms(1) [unfolded store_ok_def Let_def ids_ok_def published_records_def, folded inline_def chunked_def]
  show "map_of (rst_by_hash st) k = List.find (\<lambda>r. hash_of r = k) inline"
    using ok map_of_indexed [of "rst_by_hash st" hash_of id inline k] by (simp add: option.map_id)
  show "map_of (rst_by_short st) k = map_option hash_of (List.find (\<lambda>r. sr_short_signature r = k) inline)"
    using ok map_of_indexed [of "rst_by_short st" sr_short_signature hash_of inline k] by simp
  show "map_of (cs_completed (rst_chunked st)) k = List.find (\<lambda>r. hash_of r = k) chunked"
    using ok map_of_indexed [of "cs_completed (rst_chunked st)" hash_of id chunked k] by (simp add: option.map_id)
  show "distinct (List.map hash_of (inline @ chunked))" "distinct (List.map sr_short_signature (inline @ chunked))"
    "r \<in> set (inline @ chunked) \<Longrightarrow> is_hash_id (hash_of r) \<and> \<not> is_hash_id (sr_short_signature r)"
    using ok by auto
qed

text \<open>Looking up an identifier finds exactly the published record that has it as hash or signature.\<close>

lemma findCompleted_spec:
  assumes "store_ok st"
  shows "findCompleted (rst_chunked st) k = Some r \<longleftrightarrow>
     r \<in> set (List.map snd (cs_completed (rst_chunked st))) \<and> (hash_of r = k \<or> sr_short_signature r = k)"
proof -
  define c where "c = List.map snd (cs_completed (rst_chunked st))"
  note l = store_ok_lookup [OF assms, folded c_def]
  have d: "distinct (List.map hash_of c)" "distinct (List.map sr_short_signature c)" using l(4,5) by simp_all
  have sep: "hash_of a \<noteq> sr_short_signature b" if "a \<in> set c" "b \<in> set c" for a b
    using l(6) [of a] l(6) [of b] that by auto
  have "findCompleted (rst_chunked st) k = Some r \<longleftrightarrow> r \<in> set c \<and> (hash_of r = k \<or> sr_short_signature r = k)"
  proof (cases "List.find (\<lambda>r. hash_of r = k) c")
    case None
    then have nh: "hash_of a \<noteq> k" if "a \<in> set c" for a using that by (auto simp: find_none)
    have "findCompleted (rst_chunked st) k = List.find (\<lambda>r. sr_short_signature r = k) c"
      using None by (simp add: findCompleted_def l(3) c_def)
    with find_unique [OF d(2), of k r] nh show ?thesis by auto
  next
    case (Some a)
    then have a: "a \<in> set c" "hash_of a = k" using find_unique [OF d(1)] by auto
    have one: "r = a" if "r \<in> set c" "hash_of r = k" for r
      using that a d(1) by (simp add: distinct_map inj_on_def)
    have "r \<in> set c \<and> (hash_of r = k \<or> sr_short_signature r = k) \<longleftrightarrow> r = a"
      using a one sep [OF a(1), of r] by blast
    moreover have "findCompleted (rst_chunked st) k = Some a" using Some by (simp add: findCompleted_def l(3))
    ultimately show ?thesis by auto
  qed
  then show ?thesis by (simp only: c_def)
qed

lemma find_published:
  assumes "store_ok st"
  shows "findByShortSignatureOrHash st k = Some r \<longleftrightarrow>
     r \<in> set (published_records st) \<and> (hash_of r = k \<or> sr_short_signature r = k)"
proof -
  define i c where "i = List.map snd (rst_by_hash st)" and "c = List.map snd (cs_completed (rst_chunked st))"
  note l = store_ok_lookup [OF assms, folded i_def c_def]
  have p: "set (published_records st) = set i \<union> set c" by (simp add: published_records_def i_def c_def)
  have compl: "findCompleted (rst_chunked st) k = Some r \<longleftrightarrow> r \<in> set c \<and> (hash_of r = k \<or> sr_short_signature r = k)" for k
    using findCompleted_spec [OF assms] by (simp only: c_def)
  have d: "distinct (List.map hash_of i)" "distinct (List.map sr_short_signature i)" using l(4,5) by simp_all
  have ids: "is_hash_id (hash_of a) \<and> \<not> is_hash_id (sr_short_signature a)" if "a \<in> set i \<or> a \<in> set c" for a
    using l(6) [of a] that by simp
  have disj: "hash_of a \<noteq> hash_of b" "sr_short_signature a \<noteq> sr_short_signature b"
    if "a \<in> set i" "b \<in> set c" for a b using l(4,5) that by auto
  have inj: "hash_of a = hash_of b \<longleftrightarrow> a = b" "sr_short_signature a = sr_short_signature b \<longleftrightarrow> a = b"
    if "a \<in> set i" "b \<in> set i" for a b using d that by (auto simp: distinct_map inj_on_def)
  have by_hash: "findByRecordHash st h = Some r \<longleftrightarrow>
      r \<in> set i \<union> set c \<and> (hash_of r = h \<or> sr_short_signature r = h)" if h: "is_hash_id h" for h
  proof (cases "List.find (\<lambda>r. hash_of r = h) i")
    case None
    then have "a \<in> set i \<Longrightarrow> hash_of a \<noteq> h" for a by (auto simp: find_none)
    moreover have "a \<in> set i \<Longrightarrow> sr_short_signature a \<noteq> h" for a using ids [of a] that by auto
    ultimately show ?thesis
      using None by (auto simp: findByRecordHash_def l(1) compl)
  next
    case (Some a)
    then have a: "a \<in> set i" "hash_of a = h" using find_unique [OF d(1)] by auto
    have "r = a" if r: "r \<in> set i \<union> set c" "hash_of r = h \<or> sr_short_signature r = h" for r
      using r a ids [of r] disj(1) [OF a(1), of r] inj(1) [OF a(1), of r] h by blast
    with Some a show ?thesis by (auto simp: findByRecordHash_def l(1))
  qed
  show ?thesis
  proof (cases "is_hash_id k")
    case True
    then show ?thesis
      by (auto simp: findByShortSignatureOrHash_def by_hash p)
  next
    case False
    then have nh: "hash_of a \<noteq> k" if "a \<in> set i \<union> set c" for a using ids [of a] that by auto
    show ?thesis
    proof (cases "List.find (\<lambda>r. sr_short_signature r = k) i")
      case None
      then have "findByShortSignatureOrHash st k = findCompleted (rst_chunked st) k"
        using False by (simp add: findByShortSignatureOrHash_def findByShortSignature_def l(2) truthy_def)
      moreover have "sr_short_signature a \<noteq> k" if "a \<in> set i" for a using that None by (auto simp: find_none)
      ultimately show ?thesis using nh by (auto simp: compl p)
    next
      case (Some a)
      then have a: "a \<in> set i" "sr_short_signature a = k" using find_unique [OF d(2)] by auto
      have "findByShortSignatureOrHash st k = findByRecordHash st (hash_of a)"
        using False Some ids [of a] a is_hash_id_truthy [of "hash_of a"]
        by (simp add: findByShortSignatureOrHash_def findByShortSignature_def l(2) truthy_def)
      moreover have "is_hash_id (hash_of a)" using ids a by auto
      moreover have "r \<in> set i \<union> set c \<and> (hash_of r = hash_of a \<or> sr_short_signature r = hash_of a) \<longleftrightarrow> r = a"
        using a disj [OF a(1), of r] inj(1) [of r a] ids [of a] ids [of r] by auto
      moreover have "r \<in> set i \<union> set c \<and> sr_short_signature r = k \<longleftrightarrow> r = a"
        using a disj [OF a(1), of r] inj(2) [of r a] by auto
      ultimately show ?thesis using by_hash [of "hash_of a"] nh [of r]
        by (auto simp: p)
    qed
  qed
qed

section \<open>Every request keeps the store in order\<close>

text \<open>A state whose uploads still carry record hashes and whose indexes did not change is in order.\<close>

lemma store_ok_frame:
  assumes "store_ok st" and "rst_by_hash st' = rst_by_hash st" and "rst_by_short st' = rst_by_short st"
    and "cs_completed (rst_chunked st') = cs_completed (rst_chunked st)"
    and "\<forall>u \<in> snd ` set (cs_uploads (rst_chunked st')). is_hash_id (mf_record_hash (us_manifest u))"
  shows "store_ok st' \<and> published_records st' = published_records st"
  using assms by (auto simp: store_ok_def published_records_def Let_def)

lemma store_ok_uploads:
  assumes "store_ok st" and "map_of (cs_uploads (rst_chunked st)) k = Some u"
  shows "is_hash_id (mf_record_hash (us_manifest u))"
  using assms map_of_SomeD [OF assms(2)] by (force simp: store_ok_def Let_def)

lemma uploads_update_ok:
  assumes "store_ok st" and "is_hash_id (mf_record_hash (us_manifest u))"
    and "w \<in> snd ` set (AList.update k u (cs_uploads (rst_chunked st)))"
  shows "is_hash_id (mf_record_hash (us_manifest w))"
proof -
  have "w = u \<or> w \<in> snd ` set (cs_uploads (rst_chunked st))"
    using assms(3) snd_update_subset [of k u "cs_uploads (rst_chunked st)"] by blast
  with assms(1,2) show ?thesis by (auto simp: store_ok_def Let_def)
qed

lemma ids_ok_insert:
  assumes "ids_ok (xs @ ys)" and "is_hash_id (hash_of r)" and "\<not> is_hash_id (sr_short_signature r)"
    and "\<forall>x \<in> set (xs @ ys). hash_of x \<noteq> hash_of r \<and> sr_short_signature x \<noteq> sr_short_signature r"
  shows "ids_ok (xs @ r # ys)"
  using assms unfolding ids_ok_def by (auto simp: image_iff)

text \<open>A record is new when its hash is not found; with a free signature, its signature is new too.\<close>

definition unpublished :: "record_store \<Rightarrow> stored_record \<Rightarrow> bool" where
  "unpublished st r \<longleftrightarrow> is_hash_id (hash_of r) \<and> \<not> is_hash_id (sr_short_signature r)
     \<and> (\<forall>x \<in> set (published_records st). hash_of x \<noteq> hash_of r \<and> sr_short_signature x \<noteq> sr_short_signature r)"

lemma unpublishedI:
  assumes "store_ok st" and "findByShortSignatureOrHash st (hash_of r) = None"
    and "is_hash_id (hash_of r)" and "\<not> is_hash_id (sr_short_signature r)"
    and "signature_free st (hash_of r) (sr_short_signature r)"
  shows "unpublished st r"
  using assms find_published [OF assms(1), of "hash_of r"] by (auto simp: unpublished_def signature_free_def)

lemma publish_inline:
  assumes "store_ok st" and "unpublished st r"
    and "rst_by_hash st' = AList.update (hash_of r) r (rst_by_hash st)"
    and "rst_by_short st' = AList.update (sr_short_signature r) (hash_of r) (rst_by_short st)"
    and "cs_completed (rst_chunked st') = cs_completed (rst_chunked st)"
    and "cs_uploads (rst_chunked st') = cs_uploads (rst_chunked st)"
  shows "store_ok st' \<and> set (published_records st') = insert r (set (published_records st))"
proof -
  define i c where "i = List.map snd (rst_by_hash st)" and "c = List.map snd (cs_completed (rst_chunked st))"
  have st: "indexes (rst_by_hash st) hash_of id i" "indexes (rst_by_short st) sr_short_signature hash_of i"
    "indexes (cs_completed (rst_chunked st)) hash_of id c" "ids_ok (i @ c)" "published_records st = i @ c"
    using assms(1) by (simp_all add: store_ok_def Let_def i_def c_def published_records_def)
  have new: "hash_of r \<notin> hash_of ` set i" "sr_short_signature r \<notin> sr_short_signature ` set i"
    using assms(2) unfolding unpublished_def st by force+
  have ix: "indexes (rst_by_hash st') hash_of id (i @ [r])"
    "indexes (rst_by_short st') sr_short_signature hash_of (i @ [r])"
    using indexes_update [OF st(1) new(1)] indexes_update [OF st(2) new(2)] by (simp_all add: assms(3,4))
  note p = indexes_values [OF ix(1)]
  have "ids_ok (i @ r # c)"
    by (rule ids_ok_insert [OF st(4)]) (use assms(2) in \<open>simp_all add: unpublished_def st(5)\<close>)
  then show ?thesis
    using assms(1) st ix p by (simp add: store_ok_def Let_def published_records_def assms(5,6) c_def [symmetric])
qed

lemma publish_chunked:
  assumes "store_ok st" and "unpublished st r"
    and "rst_by_hash st' = rst_by_hash st" and "rst_by_short st' = rst_by_short st"
    and "cs_completed (rst_chunked st') = AList.update (hash_of r) r (cs_completed (rst_chunked st))"
    and "\<forall>u \<in> snd ` set (cs_uploads (rst_chunked st')). is_hash_id (mf_record_hash (us_manifest u))"
  shows "store_ok st' \<and> set (published_records st') = insert r (set (published_records st))"
proof -
  define i c where "i = List.map snd (rst_by_hash st)" and "c = List.map snd (cs_completed (rst_chunked st))"
  have st: "indexes (rst_by_hash st) hash_of id i" "indexes (rst_by_short st) sr_short_signature hash_of i"
    "indexes (cs_completed (rst_chunked st)) hash_of id c" "ids_ok (i @ c)" "published_records st = i @ c"
    using assms(1) by (simp_all add: store_ok_def Let_def i_def c_def published_records_def)
  have new: "hash_of r \<notin> hash_of ` set c"
    using assms(2) unfolding unpublished_def st by force
  have ix: "indexes (cs_completed (rst_chunked st')) hash_of id (c @ [r])"
    using indexes_update [OF st(3) new] by (simp add: assms(5))
  note p = indexes_values [OF ix]
  have "ids_ok ((i @ c) @ r # [])"
    by (rule ids_ok_insert) (use assms(2) st(4) in \<open>simp_all add: unpublished_def st(5)\<close>)
  then show ?thesis
    using st ix p assms(6) by (simp add: store_ok_def Let_def published_records_def assms(3,4) i_def [symmetric])
qed

lemma bind_session_frame:
  assumes "bind_session nb ck st input = Inr (st', obs)"
  shows "rst_by_hash st' = rst_by_hash st" "rst_by_short st' = rst_by_short st"
    "cs_completed (rst_chunked st') = cs_completed (rst_chunked st)"
    "cs_uploads (rst_chunked st') = cs_uploads (rst_chunked st)"
  using assms by (auto simp: bind_session_def Let_def set_sessions_def guard_Inr_iff andThen_Inr_iff
      split: if_splits option.splits)

definition save_hash :: "save_input \<Rightarrow> jsstring" where
  "save_hash input = mf_record_hash (wr_manifest (sv_record input))"

lemma stored_of_ids [simp]:
  "hash_of (stored_of ck input obs) = save_hash input"
  "sr_short_signature (stored_of ck input obs) = sv_short_signature input"
  by (simp_all add: stored_of_def save_hash_def)

lemma store_ok_save:
  assumes "store_ok st" and "request_allowed st (Save ck input)" and "saveRecord nb ck st input = Inr (st', res)"
  shows "store_ok st' \<and> set (published_records st) \<subseteq> set (published_records st')
     \<and> sa_stored res \<in> set (published_records st') \<and> hash_of (sa_stored res) = save_hash input"
proof -
  let ?h = "save_hash input" and ?s = "sv_short_signature input"
  have req: "is_hash_id ?h" "\<not> is_hash_id ?s" "signature_free st ?h ?s"
    using assms(2) by (auto simp: save_hash_def Let_def)
  show ?thesis
  proof (cases "findByShortSignatureOrHash st ?h")
    case (Some r)
    have hash: "hash_of a = ?h" if "a \<in> set (published_records st)" "hash_of a = ?h \<or> sr_short_signature a = ?h" for a
      using that req store_ok_lookup(6) [OF assms(1), of a] by (auto simp: published_records_def)
    show ?thesis
    proof (cases "findCompleted (rst_chunked st) ?h")
      case (Some a)
      then have a: "a \<in> set (published_records st)" "hash_of a = ?h \<or> sr_short_signature a = ?h"
        using findCompleted_spec [OF assms(1), of ?h a] by (auto simp: published_records_def)
      have "saveRecord nb ck st input = Inr (st, \<lparr>sa_stored = a, sa_created = False\<rparr>)"
        using Some by (simp add: saveRecord_def Let_def save_hash_def)
      with assms(1,3) hash [OF a] a(1) show ?thesis by auto
    next
      case None
      then have r: "map_of (rst_by_hash st) ?h = Some r"
        using Some req(1) by (simp add: findByShortSignatureOrHash_def findByRecordHash_def split: option.splits)
      then have "saveRecord nb ck st input = guard (sr_short_signature r \<noteq> ?s) ShortSignatureChanged
          (Inr (st, \<lparr>sa_stored = r, sa_created = False\<rparr>))"
        using None by (simp add: saveRecord_def Let_def save_hash_def)
      with assms(3) have "st' = st" "sa_stored res = r" by (auto simp: guard_Inr_iff)
      moreover have p: "r \<in> set (published_records st)" "hash_of r = ?h \<or> sr_short_signature r = ?h"
        using Some find_published [OF assms(1)] by blast+
      ultimately show ?thesis using assms(1) hash [OF p] by simp
    qed
  next
    case None
    have absent: "findCompleted (rst_chunked st) ?h = None" "map_of (rst_by_hash st) ?h = None"
      using None req by (auto simp: findByShortSignatureOrHash_def findByRecordHash_def split: option.splits)
    then obtain st1 obs where b: "bind_session nb ck st input = Inr (st1, obs)"
      and st': "st' = st1\<lparr>rst_by_hash := AList.update ?h (stored_of ck input obs) (rst_by_hash st1),
                          rst_by_short := AList.update ?s ?h (rst_by_short st1)\<rparr>"
      and res: "sa_stored res = stored_of ck input obs"
      using assms(3) by (auto simp: saveRecord_def Let_def save_hash_def guard_Inr_iff split: sum.splits)
    have "unpublished st (stored_of ck input obs)" using unpublishedI [OF assms(1)] None req by simp
    from publish_inline [OF assms(1) this, of st'] bind_session_frame [OF b] show ?thesis
      by (auto simp: st' res)
  qed
qed

lemma store_ok_upload:
  assumes "store_ok st" and "is_hash_id (mf_record_hash (us_manifest u))"
    and "cs_completed cs = cs_completed (rst_chunked st)" and "cs_uploads cs = AList.update k u (cs_uploads (rst_chunked st))"
  shows "store_ok (set_chunked cs st) \<and> published_records (set_chunked cs st) = published_records st"
proof (rule store_ok_frame [OF assms(1)])
  show "\<forall>w \<in> snd ` set (cs_uploads (rst_chunked (set_chunked cs st))). is_hash_id (mf_record_hash (us_manifest w))"
    using uploads_update_ok [OF assms(1,2), of _ k] assms(4) by (simp add: set_chunked_def)
qed (simp_all add: set_chunked_def assms(3))

lemma store_ok_finalize:
  assumes "store_ok st" and "request_allowed st (Finalize ck k derive)"
    and "finalize_upload rank ck st k derive = Inr (cs, p)"
  shows "store_ok (set_chunked cs st) \<and> set (published_records st) \<subseteq> set (published_records (set_chunked cs st))
     \<and> (\<exists>r \<in> set (published_records (set_chunked cs st)). hash_of r = pb_record_hash p
          \<and> sr_short_signature r = pb_short_signature p)"
proof -
  obtain u where u: "map_of (cs_uploads (rst_chunked st)) k = Some u"
    using assms(3) by (auto simp: finalize_upload_def store_finalize_def split: option.splits)
  note h = store_ok_uploads [OF assms(1) u]
  let ?h = "mf_record_hash (us_manifest u)"
  define found where "found = (case findByShortSignatureOrHash st ?h of
      Some r \<Rightarrow> Some r | None \<Rightarrow> findCompleted (rst_chunked st) ?h)"
  show ?thesis
  proof (cases found)
    case (Some r)
    then have r: "r \<in> set (published_records st)"
      using find_published [OF assms(1), of ?h r] findCompleted_spec [OF assms(1), of ?h r]
      by (auto simp: found_def published_records_def split: option.splits)
    have up: "cs_uploads cs = AList.update k (u\<lparr>us_finalized := Some (hash_of r)\<rparr>) (cs_uploads (rst_chunked st))"
      and same: "cs_completed cs = cs_completed (rst_chunked st)"
      and p: "pb_record_hash p = hash_of r" "pb_short_signature p = sr_short_signature r"
      using assms(3) u Some by (auto simp: finalize_upload_def store_finalize_def Let_def found_def [symmetric])
    have "store_ok (set_chunked cs st) \<and> published_records (set_chunked cs st) = published_records st"
      by (rule store_ok_upload [OF assms(1) _ same up]) (simp add: h)
    with r p show ?thesis by auto
  next
    case None
    then have absent: "findByShortSignatureOrHash st ?h = None" by (auto simp: found_def split: option.splits)
    from assms(3) u None obtain table d obs where
      d: "derive u (percentileValues rank table) = Inr d" and
      up: "cs_uploads cs = AList.update k (u\<lparr>us_finalized := Some ?h, us_published_owner := True\<rparr>) (cs_uploads (rst_chunked st))" and
      co: "cs_completed cs = AList.update ?h \<lparr>sr_manifest = us_manifest u, sr_events = [], sr_chunked = True,
           sr_short_signature = fd_short_signature d, sr_stats = fd_stats d, sr_signals = fd_signals d,
           sr_observation = obs, sr_created_at = (case mf_ingested_server_t (us_manifest u) of Some t \<Rightarrow> t | None \<Rightarrow> [])\<rparr>
           (cs_completed (rst_chunked st))" and
      p: "pb_record_hash p = ?h" "pb_short_signature p = fd_short_signature d"
      by (auto simp: finalize_upload_def store_finalize_def Let_def found_def [symmetric] andThen_Inr_iff
          split: option.splits)
    define r where "r = \<lparr>sr_manifest = us_manifest u, sr_events = [], sr_chunked = True,
           sr_short_signature = fd_short_signature d, sr_stats = fd_stats d, sr_signals = fd_signals d,
           sr_observation = obs, sr_created_at = (case mf_ingested_server_t (us_manifest u) of Some t \<Rightarrow> t | None \<Rightarrow> [])\<rparr>"
    have ids: "hash_of r = ?h" "sr_short_signature r = fd_short_signature d" by (simp_all add: r_def)
    have "unpublished st r"
      by (rule unpublishedI [OF assms(1)]) (use absent h u d assms(2) ids in auto)
    then have "store_ok (set_chunked cs st) \<and>
        set (published_records (set_chunked cs st)) = insert r (set (published_records st))"
      by (rule publish_chunked [OF assms(1)])
        (use uploads_update_ok [OF assms(1), of "u\<lparr>us_finalized := Some ?h, us_published_owner := True\<rparr>" _ k] h
          in \<open>auto simp: set_chunked_def up co ids r_def\<close>)
    with ids p show ?thesis by auto
  qed
qed

lemma store_ok_begin:
  assumes "store_ok st" and "is_hash_id (mf_record_hash (us_manifest u))" and "store_begin (rst_chunked st) u = Inr (cs, w)"
  shows "store_ok (set_chunked cs st) \<and> published_records (set_chunked cs st) = published_records st"
proof -
  have "is_hash_id (mf_record_hash (us_manifest w)) \<and> cs_completed cs = cs_completed (rst_chunked st)
      \<and> cs_uploads cs = AList.update (us_upload_id u) w (cs_uploads (rst_chunked st))"
    using assms(2,3) store_ok_uploads [OF assms(1), of "us_upload_id u"]
    by (auto simp: store_begin_def Let_def guard_Inr_iff split: option.splits if_splits)
  then show ?thesis using store_ok_upload [OF assms(1)] by blast
qed

lemma store_ok_append:
  assumes "store_ok st" and "request_allowed st (Append k offset es transition)"
    and "store_append (rst_chunked st) k offset es transition = Inr (cs, w)"
  shows "store_ok (set_chunked cs st) \<and> published_records (set_chunked cs st) = published_records st"
proof -
  obtain u where u: "map_of (cs_uploads (rst_chunked st)) k = Some u"
    using assms(3) by (auto simp: store_append_def split: option.splits)
  note h = store_ok_uploads [OF assms(1) u]
  have "cs = rst_chunked st \<or> (is_hash_id (mf_record_hash (us_manifest w)) \<and> cs_completed cs = cs_completed (rst_chunked st)
      \<and> cs_uploads cs = AList.update k w (cs_uploads (rst_chunked st)))"
    using assms(2,3) u h
    by (auto simp: store_append_def guard_Inr_iff andThen_Inr_iff split: option.splits)
  then show ?thesis
  proof
    assume "cs = rst_chunked st"
    then show ?thesis using assms(1) by (simp add: set_chunked_def)
  next
    assume "is_hash_id (mf_record_hash (us_manifest w)) \<and> cs_completed cs = cs_completed (rst_chunked st)
      \<and> cs_uploads cs = AList.update k w (cs_uploads (rst_chunked st))"
    then show ?thesis using store_ok_upload [OF assms(1)] by blast
  qed
qed

lemma store_ok_sessions:
  "store_ok st \<Longrightarrow> store_ok (set_sessions ss st) \<and> published_records (set_sessions ss st) = published_records st"
  by (rule store_ok_frame) (auto simp: set_sessions_def store_ok_def Let_def)

lemma store_step_ok:
  assumes "store_ok st" and "request_allowed st q"
  shows "store_ok (store_step nb rank st q) \<and> set (published_records st) \<subseteq> set (published_records (store_step nb rank st q))"
proof (cases q)
  case (Save ck input)
  with assms store_ok_save [OF assms(1)] show ?thesis
    by (auto split: sum.splits simp del: request_allowed.simps)
next
  case (Begin u)
  with assms store_ok_begin [OF assms(1)] show ?thesis by (auto split: sum.splits)
next
  case (Append k offset es transition)
  with assms store_ok_append [OF assms(1)] show ?thesis
    by (auto split: sum.splits simp del: request_allowed.simps)
next
  case (Finalize ck k derive)
  with assms store_ok_finalize [OF assms(1)] show ?thesis
    by (auto split: sum.splits simp del: request_allowed.simps)
next
  case (Checkpoint ck input)
  with store_ok_sessions [OF assms(1)] show ?thesis by auto
qed

section \<open>Runs of requests\<close>

text \<open>Every request of the list is allowed in the state it meets.\<close>

fun all_allowed :: "('s \<Rightarrow> 'q \<Rightarrow> bool) \<Rightarrow> ('s \<Rightarrow> 'q \<Rightarrow> 's) \<Rightarrow> 's \<Rightarrow> 'q list \<Rightarrow> bool" where
  "all_allowed allowed step st [] \<longleftrightarrow> True"
| "all_allowed allowed step st (q # qs) \<longleftrightarrow> allowed st q \<and> all_allowed allowed step (step st q) qs"

lemma all_allowed_append:
  "all_allowed allowed step st (qs @ rs) \<longleftrightarrow>
     all_allowed allowed step st qs \<and> all_allowed allowed step (foldl step st qs) rs"
  by (induction qs arbitrary: st) auto

text \<open>
  What a reader of published records relies on: records are only added, and a lookup by an
  identifier returns exactly the record that answers to it.
\<close>

locale record_registry =
  fixes step :: "'s \<Rightarrow> 'q \<Rightarrow> 's"
    and allowed :: "'s \<Rightarrow> 'q \<Rightarrow> bool"
    and good :: "'s \<Rightarrow> bool"
    and records :: "'s \<Rightarrow> 'r set"
    and lookup :: "'s \<Rightarrow> 'k \<Rightarrow> 'r option"
    and answers :: "'r \<Rightarrow> 'k \<Rightarrow> bool"
  assumes step_good: "good st \<Longrightarrow> allowed st q \<Longrightarrow> good (step st q)"
    and step_keeps: "good st \<Longrightarrow> allowed st q \<Longrightarrow> records st \<subseteq> records (step st q)"
    and lookup_iff: "good st \<Longrightarrow> lookup st k = Some r \<longleftrightarrow> r \<in> records st \<and> answers r k"
begin

lemma run_good: "good st \<Longrightarrow> all_allowed allowed step st qs \<Longrightarrow> good (foldl step st qs)"
  by (induction qs arbitrary: st) (auto intro: step_good)

lemma run_keeps: "good st \<Longrightarrow> all_allowed allowed step st qs \<Longrightarrow> records st \<subseteq> records (foldl step st qs)"
  by (induction qs arbitrary: st) (auto dest: step_keeps intro: step_good)

lemma lookup_forever:
  "good st \<Longrightarrow> all_allowed allowed step st qs \<Longrightarrow> lookup st k = Some r \<Longrightarrow> lookup (foldl step st qs) k = Some r"
  using run_good [of st qs] run_keeps [of st qs] by (auto simp: lookup_iff)

lemma lookup_one_record:
  "good st \<Longrightarrow> answers r k \<Longrightarrow> answers r' k \<Longrightarrow> r \<in> records st \<Longrightarrow> r' \<in> records st \<Longrightarrow> r = r'"
  using lookup_iff [of st k r] lookup_iff [of st k r'] by simp

end

definition has_id :: "stored_record \<Rightarrow> jsstring \<Rightarrow> bool" where
  "has_id r k \<longleftrightarrow> hash_of r = k \<or> sr_short_signature r = k"

interpretation inmem: record_registry "store_step nb rank" request_allowed store_ok
  "\<lambda>st. set (published_records st)" findByShortSignatureOrHash has_id
  by unfold_locales (auto simp: store_step_ok find_published has_id_def dest: store_step_ok)

lemma empty_store_ok: "store_ok empty_store"
  by (simp add: store_ok_def empty_store_def indexes_def ids_ok_def published_records_def)

definition sample_stats :: record_stats where
  "sample_stats = stats_of (measurement 30000 no_options (wr_events sample_record)) (wr_manifest sample_record)
     \<lparr>p50 = None, p90 = None, p95 = None, p99 = None\<rparr>"

definition sample_save :: save_input where
  "sample_save = \<lparr>sv_record = sample_record, sv_short_signature = js ''2abc'', sv_stats = sample_stats,
     sv_signals = None, sv_observation = None, sv_created_at = None\<rparr>"

lemma sample_save_allowed: "request_allowed empty_store (Save sample_clock sample_save)"
proof -
  have "is_hash_id sample_hash" using sample_hash_b3 by (auto simp: is_b3_hash_def is_hash_id_def js_def)
  then show ?thesis
    by (simp add: sample_save_def sample_record_def signature_free_def published_records_def empty_store_def Let_def
        is_hash_id_def js_def)
qed

lemma sample_save_stored:
  "saveRecord nb sample_clock empty_store sample_save = Inr
     (store_step nb rank empty_store (Save sample_clock sample_save),
      \<lparr>sa_stored = stored_of sample_clock sample_save None, sa_created = True\<rparr>)"
  by (simp add: saveRecord_def empty_store_def sample_save_def findCompleted_def bind_session_def truthy_def guard_def Let_def)

text \<open>Published records are permanent. However requests to save, upload, finalize and observe are
  interleaved, an identifier under which a record was ever found is found with the same record,
  unchanged, after any later requests.\<close>

theorem published_records_permanent:
  assumes "all_allowed request_allowed (store_step nb rank) empty_store (requests @ later)"
    and "findByShortSignatureOrHash (foldl (store_step nb rank) empty_store requests) k = Some r"
  shows "findByShortSignatureOrHash (foldl (store_step nb rank) empty_store (requests @ later)) k = Some r"
  using assms inmem.lookup_forever [OF inmem.run_good [OF empty_store_ok]] by (auto simp: all_allowed_append)

lemma published_records_permanent_witness:
  "findByShortSignatureOrHash (foldl (store_step sample_noble sample_rank) empty_store
     ([Save sample_clock sample_save] @ [Checkpoint sample_clock (snd (sample_request 1))])) (js ''2abc'')
   = Some (stored_of sample_clock sample_save None)"
proof -
  let ?st = "store_step sample_noble sample_rank empty_store (Save sample_clock sample_save)"
  have found: "findByShortSignatureOrHash ?st (js ''2abc'') = Some (stored_of sample_clock sample_save None)"
    using store_ok_save [OF empty_store_ok sample_save_allowed sample_save_stored [of sample_noble sample_rank]]
    by (simp add: find_published sample_save_def)
  show ?thesis
    by (rule published_records_permanent) (use sample_save_allowed found in \<open>simp_all del: store_step.simps(1) request_allowed.simps(1)\<close>)
qed

text \<open>C34: Lookup is exact. In every state that requests can reach, the store finds a record under an
  identifier exactly when it published a record whose hash or short signature is that identifier,
  and no two published records share a hash or a short signature.\<close>

theorem store_lookup_exact:
  assumes "all_allowed request_allowed (store_step nb rank) empty_store requests"
  defines "st \<equiv> foldl (store_step nb rank) empty_store requests"
  shows "(findByShortSignatureOrHash st k = Some r) = (r \<in> set (published_records st) \<and> has_id r k)
     \<and> distinct (List.map hash_of (published_records st))
     \<and> distinct (List.map sr_short_signature (published_records st))"
proof -
  have "store_ok st" using inmem.run_good [OF empty_store_ok assms(1)] by (simp add: st_def)
  then show ?thesis using find_published [of st] by (auto simp: has_id_def store_ok_def ids_ok_def Let_def)
qed

lemma store_lookup_exact_witness:
  "(findByShortSignatureOrHash (store_step sample_noble sample_rank empty_store (Save sample_clock sample_save)) (js ''2abc'')
       = Some (stored_of sample_clock sample_save None))
     = (stored_of sample_clock sample_save None
          \<in> set (published_records (store_step sample_noble sample_rank empty_store (Save sample_clock sample_save)))
        \<and> has_id (stored_of sample_clock sample_save None) (js ''2abc''))"
  using store_lookup_exact [of sample_noble sample_rank "[Save sample_clock sample_save]" "js ''2abc''"
      "stored_of sample_clock sample_save None"] sample_save_allowed
  by (simp del: store_step.simps(1) request_allowed.simps(1))

end
