(* ===== verification/Short_Signature.thy ===== *)
theory Short_Signature
  imports Record_Store
begin

text \<open>
  Short signatures (\<open>apps/ingest-api/src/index.ts\<close>): the base 58 text of a record hash, cut to the
  shortest prefix that is neither a reserved route nor the signature of another record.
\<close>

section \<open>Base 58\<close>

definition BASE58_ALPHABET :: jsstring where
  "BASE58_ALPHABET = js ''123456789ABCDEFGHJKLMNPQRSTUVWXYZabcdefghijkmnopqrstuvwxyz''"

definition bytes_value :: "nat list \<Rightarrow> nat" where
  "bytes_value bytes = foldl (\<lambda>v b. 256 * v + b) 0 bytes"

fun base58_loop :: "nat \<Rightarrow> jsstring \<Rightarrow> jsstring" where
  "base58_loop v output = (if v > 0 then base58_loop (v div 58) (BASE58_ALPHABET ! (v mod 58) # output) else output)"

declare base58_loop.simps [simp del]

definition base58Encode :: "nat list \<Rightarrow> jsstring" where
  "base58Encode bytes =
     (let output = replicate (length (takeWhile (\<lambda>b. b = 0) bytes)) (BASE58_ALPHABET ! 0)
            @ base58_loop (bytes_value bytes) []
      in if output = [] then [BASE58_ALPHABET ! 0] else output)"

section \<open>Choosing a signature\<close>

definition DEFAULT_SHORT_SIGNATURE_LENGTH :: nat where "DEFAULT_SHORT_SIGNATURE_LENGTH = 10"

definition RESERVED_ROUTE_PREFIXES :: "jsstring list" where
  "RESERVED_ROUTE_PREFIXES = List.map js [''api'', ''docs'', ''blog'', ''write'', ''assets'', ''record-assets'',
     ''images'', ''health'', ''ready'', ''live'']"

text \<open>\<open>toLowerCase\<close> on the ASCII text that candidates are made of.\<close>

definition lower_char :: "nat \<Rightarrow> nat" where
  "lower_char c = (if 65 \<le> c \<and> c \<le> 90 then c + 32 else c)"

definition isReservedShortSignature :: "jsstring \<Rightarrow> bool" where
  "isReservedShortSignature candidate \<longleftrightarrow>
     (let lower = List.map lower_char candidate in
      \<exists>reserved \<in> set RESERVED_ROUTE_PREFIXES. take (length reserved) lower = reserved)"

datatype signature_error = SignatureHash format_error | NoUniqueSignature

definition candidate_sources :: "jsstring \<Rightarrow> jsstring list" where
  "candidate_sources encoded = [encoded, 88 # encoded]"

definition prefixes_from :: "nat \<Rightarrow> jsstring \<Rightarrow> jsstring list" where
  "prefixes_from initialLength source = List.map (\<lambda>n. take n source) [initialLength..<Suc (length source)]"

definition usable :: "(jsstring \<Rightarrow> stored_record option) \<Rightarrow> jsstring \<Rightarrow> jsstring \<Rightarrow> bool" where
  "usable look recordHash candidate \<longleftrightarrow> \<not> isReservedShortSignature candidate
     \<and> (case look candidate of None \<Rightarrow> True | Some r \<Rightarrow> hash_of r = recordHash)"

definition generateShortSignature ::
  "noble \<Rightarrow> (jsstring \<Rightarrow> stored_record option) \<Rightarrow> jsstring \<Rightarrow> nat \<Rightarrow> signature_error + jsstring" where
  "generateShortSignature nb look recordHash initialLength =
     (case b3HashToBytes nb recordHash of
        Inl e \<Rightarrow> Inl (SignatureHash e)
      | Inr bytes \<Rightarrow>
          (case List.find (usable look recordHash)
                  (concat (List.map (prefixes_from initialLength) (candidate_sources (base58Encode bytes)))) of
             Some candidate \<Rightarrow> Inr candidate
           | None \<Rightarrow> Inl NoUniqueSignature))"

section \<open>Base 58 identifies byte strings\<close>

definition char_value :: "nat \<Rightarrow> nat" where
  "char_value c = length (takeWhile (\<lambda>x. x \<noteq> c) BASE58_ALPHABET)"

definition text_value :: "jsstring \<Rightarrow> nat" where
  "text_value s = foldl (\<lambda>v c. 58 * v + char_value c) 0 s"

lemma alphabet_codes:
  "BASE58_ALPHABET =
    [49, 50, 51, 52, 53, 54, 55, 56, 57, 65, 66, 67, 68, 69, 70, 71, 72, 74, 75, 76, 77, 78, 80, 81,
     82, 83, 84, 85, 86, 87, 88, 89, 90, 97, 98, 99, 100, 101, 102, 103, 104, 105, 106, 107, 109,
     110, 111, 112, 113, 114, 115, 116, 117, 118, 119, 120, 121, 122]"
  by (simp add: BASE58_ALPHABET_def js_def)

lemma alphabet_distinct: "distinct BASE58_ALPHABET" "length BASE58_ALPHABET = 58"
  by (simp_all add: alphabet_codes)

lemma takeWhile_index:
  "distinct xs \<Longrightarrow> d < length xs \<Longrightarrow> length (takeWhile (\<lambda>x. x \<noteq> xs ! d) xs) = d"
proof (induction xs arbitrary: d)
  case (Cons x xs)
  then show ?case by (cases d) auto
qed simp

lemma char_value_alphabet: "d < 58 \<Longrightarrow> char_value (BASE58_ALPHABET ! d) = d"
  using takeWhile_index [OF alphabet_distinct(1)] alphabet_distinct(2) by (simp add: char_value_def)

lemma foldl_positional: "foldl (\<lambda>v c. b * v + f c) a s = a * b ^ length s + foldl (\<lambda>v c. b * v + f c) (0::nat) s"
proof (induction s arbitrary: a)
  case (Cons c s)
  from Cons [of "b * a + f c"] Cons [of "f c"] show ?case by (simp add: algebra_simps)
qed simp

lemma text_value_Cons: "text_value (c # s) = char_value c * 58 ^ length s + text_value s"
  using foldl_positional [of 58 char_value "char_value c" s] by (simp add: text_value_def)

lemma base58_loop_value: "text_value (base58_loop v s) = v * 58 ^ length s + text_value s"
proof (induction v s rule: base58_loop.induct)
  case (1 v s)
  show ?case
  proof (cases "v > 0")
    case True
    have "v div 58 * (58 * 58 ^ length s) + v mod 58 * 58 ^ length s = (v div 58 * 58 + v mod 58) * 58 ^ length s"
      by (simp only: add_mult_distrib mult.assoc)
    also have "\<dots> = v * 58 ^ length s" by (simp only: div_mult_mod_eq)
    finally have "v div 58 * (58 * 58 ^ length s) + v mod 58 * 58 ^ length s = v * 58 ^ length s" .
    then show ?thesis using 1 True
      by (subst base58_loop.simps) (simp add: text_value_Cons char_value_alphabet)
  qed (simp add: base58_loop.simps)
qed

lemma text_value_ones: "text_value (replicate n (BASE58_ALPHABET ! 0) @ s) = text_value s"
  by (induction n) (simp_all add: text_value_Cons char_value_alphabet)

lemma base58Encode_value: "text_value (base58Encode bytes) = bytes_value bytes"
proof -
  let ?out = "replicate (length (takeWhile (\<lambda>b. b = 0) bytes)) (BASE58_ALPHABET ! 0) @ base58_loop (bytes_value bytes) []"
  have "text_value ?out = bytes_value bytes"
    using base58_loop_value [of "bytes_value bytes" "[]"] by (simp add: text_value_ones) (simp add: text_value_def)
  moreover have "text_value [BASE58_ALPHABET ! 0] = text_value []"
    using text_value_ones [of 1 "[]"] by simp
  ultimately show ?thesis by (auto simp: base58Encode_def Let_def)
qed

lemma bytes_value_Cons: "bytes_value (b # bs) = b * 256 ^ length bs + bytes_value bs"
  using foldl_positional [of 256 "\<lambda>b. b" b bs] by (simp add: bytes_value_def)

lemma bytes_value_less: "list_all (\<lambda>b. b < 256) bs \<Longrightarrow> bytes_value bs < 256 ^ length bs"
proof (induction bs)
  case (Cons b bs)
  then have "b * 256 ^ length bs + bytes_value bs < (b + 1) * 256 ^ length bs" by simp
  also have "\<dots> \<le> 256 * 256 ^ length bs" using Cons by (intro mult_right_mono) auto
  finally show ?case by (simp add: bytes_value_Cons)
qed (simp add: bytes_value_def)

lemma bytes_value_inj:
  assumes "length bs = length bs'" and "list_all (\<lambda>b. b < 256) bs" and "list_all (\<lambda>b. b < 256) bs'"
    and "bytes_value bs = bytes_value bs'"
  shows "bs = bs'"
  using assms
proof (induction bs bs' rule: list_induct2)
  case (Cons b bs b' bs')
  let ?n = "256 ^ length bs"
  have v: "bytes_value bs < ?n" "bytes_value bs' < ?n"
    using Cons bytes_value_less [of bs] bytes_value_less [of bs'] by auto
  have e: "b * ?n + bytes_value bs = b' * ?n + bytes_value bs'"
    using Cons by (simp add: bytes_value_Cons)
  have "b = b'" using arg_cong [OF e, of "\<lambda>x. x div ?n"] v by simp
  with Cons e show ?case by simp
qed simp

text \<open>Base 58 signatures identify hashes: byte strings of the same length have the same base 58 text
  only if they are equal.\<close>

theorem base58_identifies:
  assumes "length bytes = length bytes'" and "list_all (\<lambda>b. b < 256) bytes" and "list_all (\<lambda>b. b < 256) bytes'"
  shows "(base58Encode bytes = base58Encode bytes') = (bytes = bytes')"
  using base58Encode_value [of bytes] base58Encode_value [of bytes'] bytes_value_inj [OF assms] by auto

lemma base58_identifies_witness:
  "(base58Encode [0, 7, 255] = base58Encode [0, 8, 0]) = ([0, 7, 255 :: nat] = [0, 8, 0])"
  by (rule base58_identifies) simp_all

section \<open>Allocated signatures\<close>

lemma base58_loop_chars: "set (base58_loop v s) \<subseteq> set BASE58_ALPHABET \<union> set s"
proof (induction v s rule: base58_loop.induct)
  case (1 v s)
  have "BASE58_ALPHABET ! (v mod 58) \<in> set BASE58_ALPHABET" by (rule nth_mem) (simp add: alphabet_distinct(2))
  with 1 show ?case by (subst base58_loop.simps) auto
qed

lemma base58Encode_chars: "set (base58Encode bytes) \<subseteq> set BASE58_ALPHABET"
proof -
  have "BASE58_ALPHABET ! 0 \<in> set BASE58_ALPHABET" by (rule nth_mem) (simp add: alphabet_distinct(2))
  then show ?thesis
    using base58_loop_chars [of "bytes_value bytes" "[]"] by (auto simp: base58Encode_def Let_def)
qed

lemma alphabet_members: "88 \<in> set BASE58_ALPHABET" "58 \<notin> set BASE58_ALPHABET"
  by (simp_all add: alphabet_codes)

lemma alphabet_not_hash_id: "set s \<subseteq> set BASE58_ALPHABET \<Longrightarrow> \<not> is_hash_id s"
proof
  assume s: "set s \<subseteq> set BASE58_ALPHABET" and "is_hash_id s"
  then have "58 \<in> set (take 3 s)" by (simp add: is_hash_id_def js_def)
  then show False using s set_take_subset [of 3 s] alphabet_members(2) by blast
qed

text \<open>No reserved route starts with \<open>x\<close>: a candidate with a leading \<open>X\<close> is never reserved.\<close>

lemma X_not_reserved: "\<not> isReservedShortSignature (take n (88 # s))"
proof
  assume "isReservedShortSignature (take n (88 # s))"
  then obtain reserved where r: "reserved \<in> set RESERVED_ROUTE_PREFIXES"
    "take (length reserved) (List.map lower_char (take n (88 # s))) = reserved"
    by (auto simp: isReservedShortSignature_def Let_def)
  have "\<forall>w \<in> set RESERVED_ROUTE_PREFIXES. w \<noteq> [] \<and> hd w \<noteq> 120"
    by (simp add: RESERVED_ROUTE_PREFIXES_def js_def)
  with r(1) have "reserved \<noteq> []" "hd reserved \<noteq> 120" by auto
  then show False using r(2) by (cases n; cases reserved) (auto simp: lower_char_def)
qed

definition encoded_hash :: "noble \<Rightarrow> jsstring \<Rightarrow> jsstring" where
  "encoded_hash nb h = base58Encode (hexToBytes nb (drop (length HASH_PREFIX) h))"

lemma generate_unfold:
  assumes "is_b3_hash h"
  shows "generateShortSignature nb look h n0 =
    (case List.find (usable look h) (prefixes_from n0 (encoded_hash nb h) @ prefixes_from n0 (88 # encoded_hash nb h)) of
       Some candidate \<Rightarrow> Inr candidate | None \<Rightarrow> Inl NoUniqueSignature)"
  using assms by (simp add: generateShortSignature_def b3HashToBytes_def encoded_hash_def candidate_sources_def)

lemma generated_signature:
  assumes "is_b3_hash h" and "generateShortSignature nb look h n0 = Inr s"
  shows "usable look h s" and "\<not> is_hash_id s"
proof -
  let ?cs = "prefixes_from n0 (encoded_hash nb h) @ prefixes_from n0 (88 # encoded_hash nb h)"
  have "List.find (usable look h) ?cs = Some s"
    using assms by (simp add: generate_unfold split: option.splits)
  then obtain i where "i < length ?cs" "s = ?cs ! i" "usable look h s" by (auto simp only: find_Some_iff)
  then have "s \<in> set ?cs" "usable look h s" by (simp_all only: nth_mem)
  then show "usable look h s" by simp
  from \<open>s \<in> set ?cs\<close> have "set s \<subseteq> set (88 # encoded_hash nb h)"
    by (auto simp: prefixes_from_def dest: in_set_takeD split: if_splits simp del: upt_Suc)
  then show "\<not> is_hash_id s"
    using base58Encode_chars alphabet_members(1) by (intro alphabet_not_hash_id) (auto simp: encoded_hash_def)
qed

lemma generated_signature_free:
  assumes "store_ok st" and "is_b3_hash h" and "generateShortSignature nb (findByShortSignature st) h n0 = Inr s"
  shows "signature_free st h s"
proof -
  note g = generated_signature [OF assms(2,3)]
  have "findByShortSignature st s = findByShortSignatureOrHash st s"
    using g(2) by (simp add: findByShortSignatureOrHash_def)
  then have eq: "findByShortSignature st s = Some r" if "r \<in> set (published_records st)" "sr_short_signature r = s" for r
    using find_published [OF assms(1), of s r] that by simp
  show ?thesis unfolding signature_free_def
  proof (intro ballI impI)
    fix r assume "r \<in> set (published_records st)" "sr_short_signature r = s"
    from eq [OF this] g(1) show "hash_of r = h" by (simp add: usable_def)
  qed
qed

lemma no_signature_left:
  assumes "store_ok st" and "is_b3_hash h" and "generateShortSignature nb (findByShortSignature st) h n0 = Inl e"
    and "n0 \<le> n" and "n \<le> Suc (length (encoded_hash nb h))"
  shows "\<exists>r \<in> set (published_records st). sr_short_signature r = take n (88 # encoded_hash nb h) \<and> hash_of r \<noteq> h"
proof -
  let ?c = "take n (88 # encoded_hash nb h)"
  have "?c \<in> set (prefixes_from n0 (88 # encoded_hash nb h))"
    using assms(4,5) unfolding prefixes_from_def by (auto simp del: upt_Suc simp: image_iff intro!: bexI [of _ n])
  then have "\<not> usable (findByShortSignature st) h ?c"
    using assms(3) by (auto simp: generate_unfold [OF assms(2)] find_None_iff split: option.splits)
  then obtain r where r: "findByShortSignature st ?c = Some r" "hash_of r \<noteq> h"
    using X_not_reserved by (auto simp: usable_def split: option.splits)
  have "set ?c \<subseteq> set BASE58_ALPHABET"
    using base58Encode_chars alphabet_members(1) set_take_subset [of n "88 # encoded_hash nb h"]
    by (auto simp: encoded_hash_def)
  then have "\<not> is_hash_id ?c" by (rule alphabet_not_hash_id)
  then have "findByShortSignatureOrHash st ?c = Some r" using r(1) by (simp add: findByShortSignatureOrHash_def)
  then show ?thesis
    using find_published [OF assms(1), of ?c r] r(2) \<open>\<not> is_hash_id ?c\<close> store_ok_lookup(6) [OF assms(1), of r]
    by (auto simp: published_records_def)
qed

text \<open>C36: Signature allocation. In every state that requests reach, the signature generated for a hash is
  no reserved route, cannot be read as a hash and is the signature of no other record; generation
  fails only when other records hold every prefix, from the initial length up, of \<open>X\<close> followed by
  the whole base 58 text.\<close>

theorem signature_allocation:
  assumes "all_allowed request_allowed (store_step nb rank) empty_store requests" and "is_b3_hash h"
  defines "st \<equiv> foldl (store_step nb rank) empty_store requests"
  shows "case generateShortSignature nb (findByShortSignature st) h n0 of
      Inr s \<Rightarrow> \<not> isReservedShortSignature s \<and> \<not> is_hash_id s \<and> signature_free st h s
    | Inl e \<Rightarrow> (\<lambda>n. take n (88 # encoded_hash nb h)) ` {n0..Suc (length (encoded_hash nb h))}
        \<subseteq> sr_short_signature ` {r \<in> set (published_records st). hash_of r \<noteq> h}"
proof -
  have ok: "store_ok st" using inmem.run_good [OF empty_store_ok assms(1)] by (simp add: st_def)
  show ?thesis
  proof (cases "generateShortSignature nb (findByShortSignature st) h n0")
    case (Inl e)
    with no_signature_left [OF ok assms(2) Inl] show ?thesis by (fastforce simp: image_iff)
  next
    case (Inr s)
    with generated_signature [OF assms(2) Inr] generated_signature_free [OF ok assms(2) Inr]
    show ?thesis by (simp add: usable_def)
  qed
qed

lemma signature_allocation_witness:
  "case generateShortSignature sample_noble (findByShortSignature empty_store) sample_hash 10 of
      Inr s \<Rightarrow> \<not> isReservedShortSignature s \<and> \<not> is_hash_id s \<and> signature_free empty_store sample_hash s
    | Inl e \<Rightarrow> (\<lambda>n. take n (88 # encoded_hash sample_noble sample_hash)) ` {10..Suc (length (encoded_hash sample_noble sample_hash))}
        \<subseteq> sr_short_signature ` {r \<in> set (published_records empty_store). hash_of r \<noteq> sample_hash}"
  using signature_allocation [of sample_noble sample_rank "[]" sample_hash 10] sample_hash_b3
  by (simp only: all_allowed.simps foldl.simps simp_thms True_implies_equals)

end
