(* ===== verification/Chunked_Api.thy ===== *)
theory Chunked_Api
  imports Short_Signature
begin

text \<open>
  Publication in chunks (\<open>apps/ingest-api/src/chunked-api.ts\<close>): an upload is begun with its signed
  manifest, receives its events in order and is finalized when the sealed hash agrees. The bodies
  of the requests are taken in their typed form; the byte length of a chunk, the clock and the
  library that hashes are parameters.
\<close>

section \<open>Options and errors\<close>

record api_options =
  op_now :: clock
  op_rank :: rank_fun
  op_parses :: "jsstring \<Rightarrow> bool"
  op_idle :: int
  op_initial_length :: nat
  op_analyzers :: "analyzer list option"
  op_max_events :: int
  op_max_bytes :: int
  op_bytes :: "event_log \<Rightarrow> int"

datatype api_error = ApiUpload upload_error | ApiSignature signature_error

definition upload_failure :: "upload_error + 'a \<Rightarrow> api_error + 'a" where
  "upload_failure r = (case r of Inl e \<Rightarrow> Inl (ApiUpload e) | Inr a \<Rightarrow> Inr a)"

definition MAX_EVENT_CHUNK :: nat where "MAX_EVENT_CHUNK = 4096"

definition invalid :: "string \<Rightarrow> upload_error" where "invalid code = UploadError 400 code"

record publish_reply =
  rp_record_hash :: jsstring
  rp_short_signature :: jsstring
  rp_created :: bool

record status_view =
  sv_upload_id :: jsstring
  sv_next_seq :: int
  sv_completed :: "publish_reply option"

section \<open>Beginning an upload\<close>

definition startingLength :: "manifest \<Rightarrow> int option \<Rightarrow> int option" where
  "startingLength m parentFinalLength =
     (if mf_format_version m = V0_3 \<and> truthy (mf_parent_record m) then parentFinalLength else Some 0)"

definition statusView :: "record_store \<Rightarrow> upload_state \<Rightarrow> status_view" where
  "statusView st u = \<lparr>sv_upload_id = us_upload_id u, sv_next_seq = us_next_seq u,
     sv_completed = map_option (\<lambda>r. \<lparr>rp_record_hash = hash_of r, rp_short_signature = sr_short_signature r, rp_created = False\<rparr>)
       (findByRecordHash st (mf_record_hash (us_manifest u)))\<rparr>"

definition begin_state ::
  "api_options \<Rightarrow> jsstring \<Rightarrow> manifest \<Rightarrow> upload_observation option \<Rightarrow> int option \<Rightarrow> upload_error + upload_state" where
  "begin_state op k m obs starting =
     (case createAnalysisAccumulator (op_idle op) (no_options\<lparr>ao_start := Some starting\<rparr>) of
        Inl e \<Rightarrow> Inl (UploadAnalysis e)
      | Inr acc \<Rightarrow> Inr \<lparr>us_upload_id = k, us_manifest = m\<lparr>mf_ingested_server_t := Some (now_iso (op_now op))\<rparr>,
          us_observation = obs, us_next_seq = 0, us_chain_tip = None, us_last_t = None, us_received_bytes = 0,
          us_observed_length = starting, us_analysis = acc, us_finalized = None, us_published_owner = False\<rparr>)"

definition api_begin ::
  "api_options \<Rightarrow> record_store \<Rightarrow> jsstring \<Rightarrow> manifest \<Rightarrow> upload_observation option \<Rightarrow>
     upload_error + record_store \<times> status_view" where
  "api_begin op st k m obs =
     guard (\<not> isUuid k) (invalid ''invalid_payload'')
     (guard (validateManifest (op_parses op) (manifest_json m) \<noteq> []) (invalid ''invalid_manifest'')
     (guard (mf_event_count m = 0) (invalid ''invalid_manifest'')
     (guard (mf_event_count m > op_max_events op) (UploadError 413 ''upload_too_large'')
     (guard (truthy (mf_parent_record m) \<and> \<not> recordExists st (the (mf_parent_record m))) (invalid ''invalid_manifest'')
     (andThen (begin_state op k m obs (startingLength m
         (if truthy (mf_parent_record m) then finalLength st (the (mf_parent_record m)) else None))) (\<lambda>u0.
      andThen (store_begin (rst_chunked st) u0) (\<lambda>(cs, u).
        Inr (set_chunked cs st, statusView (set_chunked cs st) u))))))))"

section \<open>Appending events\<close>

record append_progress =
  pg_state :: upload_state
  pg_tips :: "jsstring list"
  pg_delays :: "int list"

definition api_event :: "noble \<Rightarrow> append_progress \<Rightarrow> mutation \<Rightarrow> upload_error + append_progress" where
  "api_event nb pg e =
     (let u = pg_state pg; m = us_manifest u in
      guard (validateEvent (event_json e) (Some (us_next_seq u)) \<noteq> []) (invalid ''verification_failed'')
      (guard (\<exists>l \<in> set_option (us_last_t u). ev_t e < l) (invalid ''verification_failed'')
      (guard (ev_t e > mf_duration_ms m) (invalid ''verification_failed'')
      (case advanceEventHash nb (us_chain_tip u) e (mf_session_id m) (mf_format_version m) of
         Inl x \<Rightarrow> Inl (UploadHash x)
       | Inr tip \<Rightarrow> (case appendAnalysisEvent (us_analysis u) e of
           Inl x \<Rightarrow> Inl (UploadAnalysis x)
         | Inr acc \<Rightarrow>
             guard (\<exists>n \<in> set_option (ac_observed_length acc). n > MAX_INTEGER_FIELD_VALUE) (invalid ''verification_failed'')
             (Inr \<lparr>pg_state = u\<lparr>us_chain_tip := Some tip, us_analysis := acc, us_next_seq := us_next_seq u + 1,
                     us_last_t := Some (ev_t e), us_observed_length := ac_observed_length acc\<rparr>,
                   pg_tips = pg_tips pg @ [tip],
                   pg_delays = pg_delays pg @ (case us_last_t u of None \<Rightarrow> [] | Some l \<Rightarrow> [ev_t e - l])\<rparr>))))))"

definition api_transition ::
  "noble \<Rightarrow> api_options \<Rightarrow> event_log \<Rightarrow> upload_state \<Rightarrow> upload_error + chunk_transition" where
  "api_transition nb op es u =
     guard (us_received_bytes u + op_bytes op es > op_max_bytes op) (UploadError 413 ''upload_too_large'')
     (andThen (run_steps (api_event nb)
         \<lparr>pg_state = u\<lparr>us_received_bytes := us_received_bytes u + op_bytes op es\<rparr>, pg_tips = [], pg_delays = []\<rparr> es) (\<lambda>pg.
       Inr \<lparr>ct_state = pg_state pg, ct_tips = pg_tips pg, ct_delays = pg_delays pg\<rparr>))"

definition api_append ::
  "noble \<Rightarrow> api_options \<Rightarrow> record_store \<Rightarrow> jsstring \<Rightarrow> int \<Rightarrow> event_log \<Rightarrow> upload_error + record_store \<times> int" where
  "api_append nb op st k start es =
     guard (\<not> isUuid k) (UploadError 404 ''upload_not_found'')
     (guard (start < 0 \<or> es = [] \<or> length es > MAX_EVENT_CHUNK) (invalid ''invalid_payload'')
     (andThen (store_append (rst_chunked st) k start es (api_transition nb op es)) (\<lambda>(cs, u).
       Inr (set_chunked cs st, us_next_seq u))))"

section \<open>Finalizing\<close>

text \<open>The numeric statistics, each with whether its key ends in \<open>_ms\<close>; \<open>null\<close> is no number.\<close>

definition stats_numbers :: "record_stats \<Rightarrow> (bool \<times> int option) list" where
  "stats_numbers s = [(False, Some (rs_event_count s)), (True, Some (rs_duration_ms s)),
     (False, rs_starting_length s), (False, rs_observed_final_length s),
     (False, Some (rs_insert_op_count s)), (False, Some (rs_delete_op_count s)), (False, Some (rs_replace_op_count s))]
   @ List.map (\<lambda>src. (False, Some (rs_source_counts s src))) SOURCES
   @ [(False, rs_inserted_codepoints_total s), (False, rs_deleted_codepoints_total s),
      (False, rs_largest_atomic_insert_codepoints s), (False, rs_measured_inserted_codepoints s),
      (False, rs_measured_deleted_codepoints s), (False, rs_measured_largest_insert_codepoints s),
      (False, Some (rs_unknown_size_edit_count s)), (True, rs_delay_min_ms s),
      (True, p50 (rs_delay_percentiles s)), (True, p90 (rs_delay_percentiles s)),
      (True, p95 (rs_delay_percentiles s)), (True, p99 (rs_delay_percentiles s)), (True, rs_delay_max_ms s),
      (True, Some (rs_active_time_ms s)), (True, Some (rs_idle_time_ms s)), (False, Some (rs_long_pause_count s))]"

definition out_of_range :: "bool \<times> int option \<Rightarrow> bool" where
  "out_of_range x = (case snd x of None \<Rightarrow> False | Some v \<Rightarrow>
     \<bar>v\<bar> > 9007199254740991 \<or> v < 0 \<or> v > (if fst x then MAX_TIME_FIELD_VALUE else MAX_INTEGER_FIELD_VALUE))"

definition assertStats :: "record_stats \<Rightarrow> upload_error + unit" where
  "assertStats s = guard (\<exists>x \<in> set (stats_numbers s). out_of_range x) (invalid ''invalid_record'') (Inr ())"

definition unavailable_signal :: "analyzer \<Rightarrow> signal" where
  "unavailable_signal a = (analyzerErrorSignal a (js ''Error''))\<lparr>sg_explanation := AnalyzerUnavailable (js (an_id a))\<rparr>"

definition api_derive ::
  "noble \<Rightarrow> api_options \<Rightarrow> jsstring \<Rightarrow> upload_state \<Rightarrow> percentiles \<Rightarrow> upload_error + finalize_data" where
  "api_derive nb op signature u ps =
     (let m = us_manifest u in
      guard (us_next_seq u \<noteq> mf_event_count m \<or> \<not> truthy (us_chain_tip u)) (UploadError 409 ''upload_incomplete'')
      (case sealRecordHash nb (the (us_chain_tip u)) (mf_format_version m) (mf_text_binding m) (finalization_of m) of
         Inl x \<Rightarrow> Inl (UploadHash x)
       | Inr h \<Rightarrow>
          guard (h \<noteq> mf_record_hash m) (invalid ''verification_failed'')
          (case finalizeAnalysis (us_analysis u) m ps of
             Inl x \<Rightarrow> Inl (UploadAnalysis x)
           | Inr (stats, signals) \<Rightarrow>
               andThen (assertStats stats) (\<lambda>_.
                 Inr \<lparr>fd_short_signature = signature, fd_stats = stats,
                      fd_signals = (case op_analyzers op of None \<Rightarrow> signals
                                    | Some as \<Rightarrow> List.map unavailable_signal as)\<rparr>))))"

text \<open>Without a database there is no unique violation to retry, so one attempt decides.\<close>

definition api_finalize ::
  "noble \<Rightarrow> api_options \<Rightarrow> record_store \<Rightarrow> jsstring \<Rightarrow> api_error + record_store \<times> publish_reply" where
  "api_finalize nb op st k =
     guard (\<not> isUuid k) (ApiUpload (UploadError 404 ''upload_not_found''))
     (case map_of (cs_uploads (rst_chunked st)) k of
        None \<Rightarrow> Inl (ApiUpload (UploadError 404 ''upload_not_found''))
      | Some u \<Rightarrow>
         (case generateShortSignature nb (findByShortSignature st) (mf_record_hash (us_manifest u)) (op_initial_length op) of
            Inl x \<Rightarrow> Inl (ApiSignature x)
          | Inr signature \<Rightarrow>
              andThen (upload_failure (finalize_upload (op_rank op) (op_now op) st k (api_derive nb op signature)))
                (\<lambda>(cs, p). Inr (set_chunked cs st, \<lparr>rp_record_hash = pb_record_hash p,
                    rp_short_signature = pb_short_signature p, rp_created = pb_created p\<rparr>))))"

section \<open>Reading pages\<close>

definition chain_nth :: "jsstring list \<Rightarrow> int \<Rightarrow> jsstring option" where
  "chain_nth tips i = (if 0 \<le> i \<and> i < int (length tips) then Some (tips ! nat i) else None)"

definition eventPage :: "noble \<Rightarrow> record_store \<Rightarrow> stored_record \<Rightarrow> int \<Rightarrow> int \<Rightarrow> upload_error + event_page" where
  "eventPage nb st r offset limit =
     (if sr_chunked r then store_page (rst_chunked st) r offset limit
      else let m = sr_manifest r in
        case computeEventHashChain nb (sr_events r) (mf_session_id m) (mf_format_version m) of
          Inl x \<Rightarrow> Inl (UploadHash x)
        | Inr tips \<Rightarrow>
           (let es = take (nat limit) (drop (nat offset) (sr_events r));
                upto = offset + int (length es)
            in Inr \<lparr>ep_events = es, ep_next_offset = (if upto < int (length (sr_events r)) then Some upto else None),
                    ep_total_events = int (length (sr_events r)),
                    ep_chain_tip_before = chain_nth tips (offset - 1),
                    ep_chain_tip_after = chain_nth tips (upto - 1)\<rparr>))"

definition api_page ::
  "noble \<Rightarrow> record_store \<Rightarrow> jsstring \<Rightarrow> int \<Rightarrow> int \<Rightarrow> upload_error + event_page" where
  "api_page nb st k offset limit =
     guard (offset < 0 \<or> limit < 1 \<or> limit > int MAX_EVENT_CHUNK) (invalid ''invalid_pagination'')
     (case findByShortSignatureOrHash st k of
        None \<Rightarrow> Inl (UploadError 404 ''record_not_found'')
      | Some r \<Rightarrow> guard (offset > mf_event_count (sr_manifest r)) (invalid ''invalid_pagination'')
          (eventPage nb st r offset limit))"

end
