(* ===== verification/Chunked_Publish.thy ===== *)
theory Chunked_Publish
  imports Chunked_Api
begin

text \<open>
  What publication in chunks achieves: the state of an upload in closed form after any chunks, and
  the proof that an upload is published exactly as \<open>verifyRecord\<close> and \<open>analyzeEventLog\<close> treat the
  whole record.
\<close>

section \<open>The state of an upload in closed form\<close>

fun lengths_fit :: "int option \<Rightarrow> event_log \<Rightarrow> bool" where
  "lengths_fit start [] \<longleftrightarrow> True"
| "lengths_fit start (e # es) \<longleftrightarrow>
     (\<forall>n \<in> set_option (observe_event start e). n \<le> MAX_INTEGER_FIELD_VALUE) \<and> lengths_fit (observe_event start e) es"

lemma lengths_fit_append:
  "lengths_fit start (es @ fs) \<longleftrightarrow> lengths_fit start es \<and> lengths_fit (foldl observe_event start es) fs"
  by (induction es arbitrary: start) auto

definition log_fits :: "manifest \<Rightarrow> int option \<Rightarrow> event_log \<Rightarrow> bool" where
  "log_fits m start es \<longleftrightarrow> valid_log es \<and> (\<forall>e \<in> set es. ev_t e \<le> mf_duration_ms m) \<and> lengths_fit start es"

definition started :: "int option \<Rightarrow> analysis_options" where
  "started start = no_options\<lparr>ao_start := Some start\<rparr>"

text \<open>The upload \<open>u0\<close> as it was begun, after the events \<open>es\<close> in chunks of \<open>bytes\<close> bytes.\<close>

definition uploaded :: "noble \<Rightarrow> int \<Rightarrow> upload_state \<Rightarrow> int \<Rightarrow> event_log \<Rightarrow> upload_state" where
  "uploaded nb idle u0 bytes es = (let m = us_manifest u0; start = us_observed_length u0 in
     u0\<lparr>us_next_seq := int (length es),
        us_chain_tip := tip_after nb (mf_session_id m) (mf_format_version m) es,
        us_last_t := (if es = [] then None else Some (ev_t (last es))),
        us_received_bytes := bytes,
        us_observed_length := foldl observe_event start es,
        us_analysis := measurement idle (started start) es\<rparr>)"

abbreviation chain_of :: "noble \<Rightarrow> manifest \<Rightarrow> event_log \<Rightarrow> jsstring list" where
  "chain_of nb m es \<equiv> tips_from nb (mf_session_id m) (mf_format_version m) None es"

lemma uploaded_fields [simp]:
  "us_upload_id (uploaded nb idle u0 bytes es) = us_upload_id u0"
  "us_manifest (uploaded nb idle u0 bytes es) = us_manifest u0"
  "us_observation (uploaded nb idle u0 bytes es) = us_observation u0"
  "us_finalized (uploaded nb idle u0 bytes es) = us_finalized u0"
  "us_published_owner (uploaded nb idle u0 bytes es) = us_published_owner u0"
  "us_next_seq (uploaded nb idle u0 bytes es) = int (length es)"
  "us_chain_tip (uploaded nb idle u0 bytes es) =
     tip_after nb (mf_session_id (us_manifest u0)) (mf_format_version (us_manifest u0)) es"
  "us_last_t (uploaded nb idle u0 bytes es) = (if es = [] then None else Some (ev_t (last es)))"
  "us_received_bytes (uploaded nb idle u0 bytes es) = bytes"
  "us_analysis (uploaded nb idle u0 bytes es) = measurement idle (started (us_observed_length u0)) es"
  "uploaded nb idle u0 bytes es\<lparr>us_received_bytes := bytes'\<rparr> = uploaded nb idle u0 bytes' es"
  by (simp_all add: uploaded_def Let_def)

lemma uploaded_start:
  assumes "us_next_seq u0 = 0" "us_chain_tip u0 = None" "us_last_t u0 = None" "us_received_bytes u0 = 0"
    and "us_analysis u0 = measurement idle (started (us_observed_length u0)) []"
  shows "uploaded nb idle u0 0 [] = u0"
  using assms by (simp add: uploaded_def Let_def)

lemma measurement_observed [simp]:
  "ac_observed_length (measurement idle (started start) es) = foldl observe_event start es"
  by (simp add: measurement_def Let_def started_def)

lemma tip_after_b3:
  assumes "noble_ok nb" and "tip_after nb sid v es = Some h"
  shows "is_b3_hash h"
proof -
  have "es \<noteq> []" using assms(2) by auto
  with tip_after_hash [of es nb sid v] assms noble_hash(1) [OF assms(1)] show ?thesis by auto
qed

lemma tip_after_None: "tip_after nb sid v es = None \<longleftrightarrow> es = []"
  using tip_after_hash [of es nb sid v] by (cases "es = []") auto

text \<open>One turn of the loop over a chunk, from the state after \<open>es\<close>.\<close>

lemma api_event_iff:
  assumes "noble_ok nb" and "isUuid (mf_session_id (us_manifest u0))" and "log_fits (us_manifest u0) (us_observed_length u0) es"
    and "pg_state pg = uploaded nb idle u0 bytes es"
  shows "api_event nb pg e = Inr pg' \<longleftrightarrow> log_fits (us_manifest u0) (us_observed_length u0) (es @ [e])
     \<and> pg' = \<lparr>pg_state = uploaded nb idle u0 bytes (es @ [e]),
           pg_tips = pg_tips pg @ [the (tip_after nb (mf_session_id (us_manifest u0)) (mf_format_version (us_manifest u0)) (es @ [e]))],
           pg_delays = pg_delays pg @ (if es = [] then [] else [ev_t e - ev_t (last es)])\<rparr>"
proof -
  let ?m = "us_manifest u0" and ?start = "us_observed_length u0"
  let ?sid = "mf_session_id ?m" and ?v = "mf_format_version ?m"
  note defs = api_event_def assms(4) uploaded_fields Let_def validateEvent_typed
  show ?thesis
  proof (cases "valid_event e \<and> ev_seq e = int (length es) \<and> (es \<noteq> [] \<longrightarrow> ev_t (last es) \<le> ev_t e) \<and> ev_t e \<le> mf_duration_ms ?m")
    case True
    have tip: "advanceEventHash nb (tip_after nb ?sid ?v es) e ?sid ?v = Inr (the (tip_after nb ?sid ?v (es @ [e])))"
      using True assms(2) tip_after_None [of nb ?sid ?v es] tip_after_b3 [OF assms(1)]
      by (auto simp: advanceEventHash_Inr_iff [OF assms(1)] next_tip_def)
    have acc: "appendAnalysisEvent (measurement idle (started ?start) es) e = Inr (measurement idle (started ?start) (es @ [e]))"
      using True by (auto simp: append_measurement guard_def)
    have up: "(uploaded nb idle u0 bytes es)\<lparr>us_chain_tip := Some (the (tip_after nb ?sid ?v (es @ [e]))),
         us_analysis := measurement idle (started ?start) (es @ [e]), us_next_seq := int (length es) + 1,
         us_last_t := Some (ev_t e), us_observed_length := foldl observe_event ?start (es @ [e])\<rparr>
        = uploaded nb idle u0 bytes (es @ [e])"
      by (simp add: uploaded_def Let_def next_tip_def)
    have fits: "log_fits ?m ?start (es @ [e]) \<longleftrightarrow>
        (\<forall>n \<in> set_option (foldl observe_event ?start (es @ [e])). n \<le> MAX_INTEGER_FIELD_VALUE)"
    proof -
      have "0 \<le> ev_t e" using True by (simp add: valid_event_def in_ms_range_def)
      then show ?thesis using True assms(3)
        by (auto simp: log_fits_def valid_log_def valid_from_append lengths_fit_append)
    qed
    have "api_event nb pg e = guard (\<exists>n \<in> set_option (foldl observe_event ?start (es @ [e])). n > MAX_INTEGER_FIELD_VALUE)
        (invalid ''verification_failed'')
        (Inr \<lparr>pg_state = uploaded nb idle u0 bytes (es @ [e]),
           pg_tips = pg_tips pg @ [the (tip_after nb ?sid ?v (es @ [e]))],
           pg_delays = pg_delays pg @ (if es = [] then [] else [ev_t e - ev_t (last es)])\<rparr>)"
      using True by (simp only: defs tip acc sum.case up measurement_observed) (auto simp: guard_def)
    then show ?thesis unfolding fits by (auto simp: not_less)
  next
    case False
    then have "\<not> log_fits ?m ?start (es @ [e])"
      by (auto simp: log_fits_def valid_log_def valid_from_append)
    moreover have "api_event nb pg e \<noteq> Inr pg'"
      using False by (auto simp: defs guard_def)
    ultimately show ?thesis by blast
  qed
qed

text \<open>A whole chunk: it is accepted exactly when the log still fits with it.\<close>

lemma tips_from_snoc:
  "tips_from nb sid v None (es @ [e]) = tips_from nb sid v None es @ [the (tip_after nb sid v (es @ [e]))]"
  by (simp add: tips_from_append next_tip_def Let_def flip: tip_after_def)

lemma log_fits_append: "log_fits m start (es @ ds) \<Longrightarrow> log_fits m start es"
  by (simp add: log_fits_def valid_log_def valid_from_append lengths_fit_append)

definition chunk_delays :: "event_log \<Rightarrow> event_log \<Rightarrow> int list" where
  "chunk_delays es ds = drop (length es - 1) (delays_of (es @ ds))"

lemma chunk_delays_snoc:
  "chunk_delays es (ds @ [e]) = chunk_delays es ds @ (if es @ ds = [] then [] else [ev_t e - ev_t (last (es @ ds))])"
proof (cases "es @ ds = []")
  case False
  then have "delays_of (es @ ds @ [e]) = delays_of (es @ ds) @ [ev_t e - ev_t (last (es @ ds))]"
    using delays_of_snoc(2) [of "es @ ds" e] by simp
  with False show ?thesis by (simp add: chunk_delays_def del: last_append)
qed (simp add: chunk_delays_def)

lemma delays_of_chunks: "delays_of (es @ ds) = delays_of es @ chunk_delays es ds"
proof (induction ds rule: rev_induct)
  case Nil
  show ?case by (simp add: chunk_delays_def)
next
  case (snoc d ds)
  show ?case
  proof (cases "es @ ds = []")
    case False
    then have "delays_of (es @ ds @ [d]) = delays_of (es @ ds) @ [ev_t d - ev_t (last (es @ ds))]"
      using delays_of_snoc(2) [of "es @ ds" d] by simp
    with snoc False show ?thesis by (simp add: chunk_delays_snoc del: last_append)
  qed (simp add: chunk_delays_def)
qed

lemma api_events_iff:
  assumes "noble_ok nb" and "isUuid (mf_session_id (us_manifest u0))" and "log_fits (us_manifest u0) (us_observed_length u0) es"
  shows "run_steps (api_event nb) \<lparr>pg_state = uploaded nb idle u0 bytes es, pg_tips = [], pg_delays = []\<rparr> ds = Inr pg \<longleftrightarrow>
     log_fits (us_manifest u0) (us_observed_length u0) (es @ ds)
     \<and> pg = \<lparr>pg_state = uploaded nb idle u0 bytes (es @ ds),
           pg_tips = drop (length es) (chain_of nb (us_manifest u0) (es @ ds)),
           pg_delays = chunk_delays es ds\<rparr>"
proof (induction ds arbitrary: pg rule: rev_induct)
  case Nil
  show ?case using assms(3) by (auto simp: chunk_delays_def)
next
  case (snoc e ds)
  let ?after = "\<lambda>ds. \<lparr>pg_state = uploaded nb idle u0 bytes (es @ ds),
           pg_tips = drop (length es) (chain_of nb (us_manifest u0) (es @ ds)), pg_delays = chunk_delays es ds\<rparr>"
  have step: "api_event nb (?after ds) e = Inr pg \<longleftrightarrow>
      log_fits (us_manifest u0) (us_observed_length u0) (es @ ds @ [e]) \<and> pg = ?after (ds @ [e])"
    if "log_fits (us_manifest u0) (us_observed_length u0) (es @ ds)"
    using api_event_iff [OF assms(1,2) that, of "?after ds" idle bytes e pg]
      tips_from_snoc [of nb _ _ "es @ ds" e] by (simp add: chunk_delays_snoc del: last_append)
  show ?case unfolding run_steps_snoc_Inr_iff snoc.IH
    using step log_fits_append [of "us_manifest u0" "us_observed_length u0" "es @ ds" "[e]"] by auto
qed

lemma api_transition_iff:
  assumes "noble_ok nb" and "isUuid (mf_session_id (us_manifest u0))" and "log_fits (us_manifest u0) (us_observed_length u0) es"
  shows "api_transition nb op ds (uploaded nb idle u0 bytes es) = Inr ct \<longleftrightarrow>
     bytes + op_bytes op ds \<le> op_max_bytes op \<and> log_fits (us_manifest u0) (us_observed_length u0) (es @ ds)
     \<and> ct = \<lparr>ct_state = uploaded nb idle u0 (bytes + op_bytes op ds) (es @ ds),
           ct_tips = drop (length es) (chain_of nb (us_manifest u0) (es @ ds)), ct_delays = chunk_delays es ds\<rparr>"
  unfolding api_transition_def guard_Inr_iff andThen_Inr_iff uploaded_fields api_events_iff [OF assms]
  by auto

section \<open>The chunks of an upload\<close>

text \<open>The table of chunks after the chunks \<open>cs\<close>, the first of them at the end of \<open>es\<close>.\<close>

fun chunk_table :: "noble \<Rightarrow> manifest \<Rightarrow> event_log \<Rightarrow> event_log list \<Rightarrow> (int \<times> stored_chunk) list" where
  "chunk_table nb m es [] = []"
| "chunk_table nb m es (c # cs) =
     (int (length es), c, drop (length es) (chain_of nb m (es @ c))) # chunk_table nb m (es @ c) cs"

lemma chunk_table_snoc:
  "chunk_table nb m es (cs @ [c]) = chunk_table nb m es cs
     @ [(int (length (es @ concat cs)), c, drop (length (es @ concat cs)) (chain_of nb m (es @ concat cs @ c)))]"
  by (induction cs arbitrary: es) (auto simp: add.assoc)

lemma chunk_table_keys:
  "[] \<notin> set cs \<Longrightarrow> k \<in> fst ` set (chunk_table nb m es cs) \<Longrightarrow>
     int (length es) \<le> k \<and> k < int (length (es @ concat cs))"
proof (induction cs arbitrary: es)
  case (Cons c cs)
  from Cons.prems have c: "0 < int (length c)" by auto
  from Cons.prems(2) have "k = int (length es) \<or> k \<in> fst ` set (chunk_table nb m (es @ c) cs)" by auto
  then show ?case
  proof
    assume "k = int (length es)"
    then show ?thesis using c by (simp add: add_pos_nonneg)
  next
    assume "k \<in> fst ` set (chunk_table nb m (es @ c) cs)"
    with Cons.IH [of "es @ c"] Cons.prems(1) c show ?thesis by simp
  qed
qed simp

text \<open>The tip found for an index is the one of the whole chain.\<close>

lemma tip_at_table:
  "tip_at (chunk_table nb m es cs) i =
     (if int (length es) \<le> i \<and> i < int (length (es @ concat cs)) then Some (chain_of nb m (es @ concat cs) ! nat i) else None)"
proof (induction cs arbitrary: es)
  case (Cons c cs)
  have hit: "drop (length es) (chain_of nb m (es @ c)) ! nat (i - int (length es)) = chain_of nb m (es @ c @ concat cs) ! nat i"
    if "int (length es) \<le> i" "i < int (length es) + int (length c)"
  proof -
    have "length es + nat (i - int (length es)) = nat i" using that by simp
    moreover have "nat i < length (chain_of nb m (es @ c))" using that by simp
    ultimately show ?thesis
      using that tips_from_append [of nb _ _ None "es @ c" "concat cs"] by (simp add: nth_append)
  qed
  show ?case using hit Cons.IH [of "es @ c"] by auto
qed simp

definition upload_holds :: "noble \<Rightarrow> int \<Rightarrow> upload_state \<Rightarrow> chunk_store \<Rightarrow> jsstring \<Rightarrow> int \<Rightarrow> event_log list \<Rightarrow> bool" where
  "upload_holds nb idle u0 cs k bytes chunks \<longleftrightarrow> [] \<notin> set chunks
     \<and> log_fits (us_manifest u0) (us_observed_length u0) (concat chunks)
     \<and> map_of (cs_uploads cs) k = Some (uploaded nb idle u0 bytes (concat chunks))
     \<and> map_of (cs_chunks cs) k = Some (chunk_table nb (us_manifest u0) [] chunks)
     \<and> map_of (cs_delays cs) k = Some (foldl count_delay [] (delays_of (concat chunks)))"

definition chunk_accepted :: "api_options \<Rightarrow> upload_state \<Rightarrow> int \<Rightarrow> event_log \<Rightarrow> event_log \<Rightarrow> bool" where
  "chunk_accepted op u0 bytes es ds \<longleftrightarrow> ds \<noteq> [] \<and> length ds \<le> MAX_EVENT_CHUNK
     \<and> int (length (es @ ds)) \<le> mf_event_count (us_manifest u0)
     \<and> bytes + op_bytes op ds \<le> op_max_bytes op \<and> log_fits (us_manifest u0) (us_observed_length u0) (es @ ds)"

lemma store_append_fresh:
  assumes "noble_ok nb" and "isUuid (mf_session_id (us_manifest u0))" and "\<not> truthy (us_finalized u0)"
    and "upload_holds nb idle u0 cs k bytes chunks" and "ds \<noteq> []" and "length ds \<le> MAX_EVENT_CHUNK"
  shows "store_append cs k (int (length (concat chunks))) ds (api_transition nb op ds) = Inr (cs', u) \<longleftrightarrow>
     chunk_accepted op u0 bytes (concat chunks) ds
     \<and> u = uploaded nb idle u0 (bytes + op_bytes op ds) (concat chunks @ ds)
     \<and> cs' = cs\<lparr>cs_chunks := AList.update k (chunk_table nb (us_manifest u0) [] (chunks @ [ds])) (cs_chunks cs),
           cs_delays := AList.update k (foldl count_delay [] (delays_of (concat chunks @ ds))) (cs_delays cs),
           cs_uploads := AList.update k u (cs_uploads cs)\<rparr>"
proof -
  let ?es = "concat chunks" and ?m = "us_manifest u0"
  note h = assms(4) [unfolded upload_holds_def]
  have notin: "int (length ?es) \<notin> fst ` set (chunk_table nb ?m [] chunks)"
    using chunk_table_keys [of chunks "int (length ?es)" nb ?m "[]"] h by auto
  then have new: "map_of (chunk_table nb ?m [] chunks) (int (length ?es)) = None" by (simp add: map_of_eq_None_iff)
  have table: "AList.update (int (length ?es)) (ds, drop (length ?es) (chain_of nb ?m (?es @ ds))) (chunk_table nb ?m [] chunks)
      = chunk_table nb ?m [] (chunks @ [ds])"
    using update_fresh [OF notin] by (simp add: chunk_table_snoc)
  have delays: "foldl count_delay (get_or [] (cs_delays cs) k) (chunk_delays ?es ds)
      = foldl count_delay [] (delays_of (?es @ ds))"
    using h by (simp add: get_or_def delays_of_chunks)
  have fits: "log_fits ?m (us_observed_length u0) ?es" using h by simp
  have "store_append cs k (int (length ?es)) ds (api_transition nb op ds) = Inr (cs', u) \<longleftrightarrow>
      int (length ?es) + int (length ds) \<le> mf_event_count ?m \<and>
      (\<exists>ct. api_transition nb op ds (uploaded nb idle u0 bytes ?es) = Inr ct \<and> u = ct_state ct \<and>
         cs' = cs\<lparr>cs_chunks := AList.update k (AList.update (int (length ?es)) (ds, ct_tips ct) (chunk_table nb ?m [] chunks)) (cs_chunks cs),
                  cs_delays := AList.update k (foldl count_delay (get_or [] (cs_delays cs) k) (ct_delays ct)) (cs_delays cs),
                  cs_uploads := AList.update k (ct_state ct) (cs_uploads cs)\<rparr>)"
    using h new assms(3) by (auto simp: store_append_def andThen_Inr_iff assertAppend_def)
  then show ?thesis
    using assms(5,6) by (auto simp: api_transition_iff [OF assms(1,2) fits] chunk_accepted_def table delays)
qed

section \<open>The interface asks the store only for what it allows\<close>

lemma api_event_manifest: "api_event nb pg e = Inr pg' \<Longrightarrow> us_manifest (pg_state pg') = us_manifest (pg_state pg)"
  by (auto simp: api_event_def Let_def guard_Inr_iff split: sum.splits)

interpretation append_loop: guarded_machine "api_event nb" "\<lambda>pg. us_manifest (pg_state pg) = m"
  by unfold_locales (simp add: api_event_manifest)

lemma api_append_allowed: "request_allowed st (Append k at ds (api_transition nb op ds))"
  by (auto simp: api_transition_def guard_Inr_iff andThen_Inr_iff dest!: append_loop.run_inv [rotated])

lemma api_finalize_allowed:
  assumes "store_ok st" and "map_of (cs_uploads (rst_chunked st)) k = Some u" and "is_b3_hash (mf_record_hash (us_manifest u))"
    and "generateShortSignature nb (findByShortSignature st) (mf_record_hash (us_manifest u)) n = Inr signature"
  shows "request_allowed st (Finalize ck k (api_derive nb op signature))"
  using assms(2) generated_signature [OF assms(3,4)] generated_signature_free [OF assms(1,3,4)]
  by (auto simp: api_derive_def Let_def guard_Inr_iff andThen_Inr_iff split: sum.splits prod.splits)

section \<open>Sending the chunks in turn\<close>

text \<open>A client that sends its chunks one after the other, each at the sequence number it was told.\<close>

definition send_chunk :: "noble \<Rightarrow> api_options \<Rightarrow> jsstring \<Rightarrow> record_store \<times> int \<Rightarrow> event_log \<Rightarrow> upload_error + record_store \<times> int" where
  "send_chunk nb op k s ds = api_append nb op (fst s) k (snd s) ds"

definition publish_in_chunks ::
  "noble \<Rightarrow> api_options \<Rightarrow> record_store \<Rightarrow> jsstring \<Rightarrow> manifest \<Rightarrow> upload_observation option \<Rightarrow> event_log list \<Rightarrow>
     api_error + record_store \<times> publish_reply" where
  "publish_in_chunks nb op st k m obs chunks =
     andThen (upload_failure (api_begin op st k m obs)) (\<lambda>s1.
     andThen (upload_failure (run_steps (send_chunk nb op k) (fst s1, 0) chunks)) (\<lambda>s2.
       api_finalize nb op (fst s2) k))"

text \<open>The store \<open>st\<close> is as \<open>st0\<close> but for its uploads.\<close>

definition same_records :: "record_store \<Rightarrow> record_store \<Rightarrow> bool" where
  "same_records st0 st \<longleftrightarrow> rst_by_hash st = rst_by_hash st0 \<and> rst_by_short st = rst_by_short st0
     \<and> cs_completed (rst_chunked st) = cs_completed (rst_chunked st0)
     \<and> cs_sessions (rst_chunked st) = cs_sessions (rst_chunked st0)"

lemma same_records_trans: "same_records a b \<Longrightarrow> same_records b c \<Longrightarrow> same_records a c"
  by (simp add: same_records_def)

fun chunks_accepted :: "api_options \<Rightarrow> upload_state \<Rightarrow> int \<Rightarrow> event_log \<Rightarrow> event_log list \<Rightarrow> bool" where
  "chunks_accepted op u0 bytes es [] \<longleftrightarrow> True"
| "chunks_accepted op u0 bytes es (c # cs) \<longleftrightarrow>
     chunk_accepted op u0 bytes es c \<and> chunks_accepted op u0 (bytes + op_bytes op c) (es @ c) cs"

lemma send_chunk_iff:
  assumes "noble_ok nb" and "isUuid (mf_session_id (us_manifest u0))" and "\<not> truthy (us_finalized u0)" and "isUuid k"
    and "upload_holds nb idle u0 (rst_chunked st) k bytes chunks"
  shows "(\<exists>s'. send_chunk nb op k (st, int (length (concat chunks))) ds = Inr s')
       \<longleftrightarrow> chunk_accepted op u0 bytes (concat chunks) ds"
    and "send_chunk nb op k (st, int (length (concat chunks))) ds = Inr s' \<Longrightarrow>
       snd s' = int (length (concat (chunks @ [ds]))) \<and> same_records st (fst s') \<and> (store_ok st \<longrightarrow> store_ok (fst s'))
       \<and> upload_holds nb idle u0 (rst_chunked (fst s')) k (bytes + op_bytes op ds) (chunks @ [ds])"
proof -
  let ?at = "int (length (concat chunks))"
  note fresh = store_append_fresh [OF assms(1-3,5)]
  have eq: "send_chunk nb op k (st, ?at) ds = Inr s' \<longleftrightarrow> ds \<noteq> [] \<and> length ds \<le> MAX_EVENT_CHUNK \<and>
      (\<exists>cs u. store_append (rst_chunked st) k ?at ds (api_transition nb op ds) = Inr (cs, u) \<and>
         s' = (set_chunked cs st, us_next_seq u))" for s'
    using assms(4) by (auto simp: send_chunk_def api_append_def andThen_Inr_iff)
  show "(\<exists>s'. send_chunk nb op k (st, ?at) ds = Inr s') \<longleftrightarrow> chunk_accepted op u0 bytes (concat chunks) ds"
    unfolding eq using fresh by (auto simp: chunk_accepted_def)
  assume sent: "send_chunk nb op k (st, ?at) ds = Inr s'"
  then obtain cs u where ds: "ds \<noteq> []" "length ds \<le> MAX_EVENT_CHUNK" and
    app: "store_append (rst_chunked st) k ?at ds (api_transition nb op ds) = Inr (cs, u)" and
    s': "s' = (set_chunked cs st, us_next_seq u)" unfolding eq by blast
  from app have a: "chunk_accepted op u0 bytes (concat chunks) ds"
     "u = uploaded nb idle u0 (bytes + op_bytes op ds) (concat chunks @ ds)"
     "cs = (rst_chunked st)\<lparr>cs_chunks := AList.update k (chunk_table nb (us_manifest u0) [] (chunks @ [ds])) (cs_chunks (rst_chunked st)),
           cs_delays := AList.update k (foldl count_delay [] (delays_of (concat chunks @ ds))) (cs_delays (rst_chunked st)),
           cs_uploads := AList.update k u (cs_uploads (rst_chunked st))\<rparr>"
    unfolding fresh [OF ds] by blast+
  have "store_ok st \<longrightarrow> store_ok (set_chunked cs st)"
    using store_ok_append [OF _ api_append_allowed app] by blast
  moreover have "upload_holds nb idle u0 cs k (bytes + op_bytes op ds) (chunks @ [ds])"
    using assms(5) a(1) ds(1) by (simp add: upload_holds_def a(2,3) chunk_accepted_def update_conv')
  moreover have "same_records st (set_chunked cs st)" by (simp add: same_records_def set_chunked_def a(3))
  ultimately show "snd s' = int (length (concat (chunks @ [ds]))) \<and> same_records st (fst s') \<and> (store_ok st \<longrightarrow> store_ok (fst s'))
       \<and> upload_holds nb idle u0 (rst_chunked (fst s')) k (bytes + op_bytes op ds) (chunks @ [ds])"
    by (simp add: s' a(2) set_chunked_def)
qed

lemma send_chunks_iff:
  assumes "noble_ok nb" and "isUuid (mf_session_id (us_manifest u0))" and "\<not> truthy (us_finalized u0)" and "isUuid k"
    and "upload_holds nb idle u0 (rst_chunked st) k bytes sent"
  shows "(\<exists>s'. run_steps (send_chunk nb op k) (st, int (length (concat sent))) chunks = Inr s')
       \<longleftrightarrow> chunks_accepted op u0 bytes (concat sent) chunks"
    and "run_steps (send_chunk nb op k) (st, int (length (concat sent))) chunks = Inr s' \<Longrightarrow>
       same_records st (fst s') \<and> (store_ok st \<longrightarrow> store_ok (fst s'))
       \<and> (\<exists>b. upload_holds nb idle u0 (rst_chunked (fst s')) k b (sent @ chunks))"
proof -
  have "((\<exists>s'. run_steps (send_chunk nb op k) (st, int (length (concat sent))) chunks = Inr s')
       \<longleftrightarrow> chunks_accepted op u0 bytes (concat sent) chunks) \<and>
     (\<forall>s'. run_steps (send_chunk nb op k) (st, int (length (concat sent))) chunks = Inr s' \<longrightarrow>
       same_records st (fst s') \<and> (store_ok st \<longrightarrow> store_ok (fst s'))
       \<and> (\<exists>b. upload_holds nb idle u0 (rst_chunked (fst s')) k b (sent @ chunks)))"
    using assms(5)
  proof (induction chunks arbitrary: st bytes sent)
    case Nil
    then show ?case by (auto simp: same_records_def)
  next
    case (Cons c cs)
    note one = send_chunk_iff [OF assms(1-4) Cons.prems, of op c]
    show ?case
    proof (cases "send_chunk nb op k (st, int (length (concat sent))) c")
      case (Inl e)
      then show ?thesis using one(1) by auto
    next
      case (Inr s1)
      obtain st1 n where s1: "s1 = (st1, n)" by (cases s1)
      from one(2) [OF Inr] have n: "n = int (length (concat (sent @ [c])))" and sr: "same_records st st1"
        and ok: "store_ok st \<longrightarrow> store_ok st1"
        and h: "upload_holds nb idle u0 (rst_chunked st1) k (bytes + op_bytes op c) (sent @ [c])"
        by (simp_all add: s1)
      from Inr one(1) have "chunk_accepted op u0 bytes (concat sent) c" by blast
      then have acc: "chunks_accepted op u0 bytes (concat sent) (c # cs) \<longleftrightarrow>
          chunks_accepted op u0 (bytes + op_bytes op c) (concat (sent @ [c])) cs" by simp
      have step: "run_steps (send_chunk nb op k) (st, int (length (concat sent))) (c # cs)
          = run_steps (send_chunk nb op k) (st1, int (length (concat (sent @ [c])))) cs"
        by (simp only: run_steps.simps Inr sum.case s1 n)
      have sent: "(sent @ [c]) @ cs = sent @ c # cs" by simp
      show ?thesis unfolding step acc
        using Cons.IH [OF h, unfolded sent] ok same_records_trans [OF sr] by blast
    qed
  qed
  then show "(\<exists>s'. run_steps (send_chunk nb op k) (st, int (length (concat sent))) chunks = Inr s')
       \<longleftrightarrow> chunks_accepted op u0 bytes (concat sent) chunks"
    and "run_steps (send_chunk nb op k) (st, int (length (concat sent))) chunks = Inr s' \<Longrightarrow>
       same_records st (fst s') \<and> (store_ok st \<longrightarrow> store_ok (fst s'))
       \<and> (\<exists>b. upload_holds nb idle u0 (rst_chunked (fst s')) k b (sent @ chunks))"
    by blast+
qed

section \<open>Beginning and finalizing\<close>

definition start_of :: "record_store \<Rightarrow> manifest \<Rightarrow> int option" where
  "start_of st m = startingLength m (if truthy (mf_parent_record m) then finalLength st (the (mf_parent_record m)) else None)"

definition begun :: "api_options \<Rightarrow> record_store \<Rightarrow> jsstring \<Rightarrow> manifest \<Rightarrow> upload_observation option \<Rightarrow> upload_state" where
  "begun op st k m obs = \<lparr>us_upload_id = k, us_manifest = m\<lparr>mf_ingested_server_t := Some (now_iso (op_now op))\<rparr>,
     us_observation = obs, us_next_seq = 0, us_chain_tip = None, us_last_t = None, us_received_bytes = 0,
     us_observed_length = start_of st m, us_analysis = measurement (op_idle op) (started (start_of st m)) [],
     us_finalized = None, us_published_owner = False\<rparr>"

lemma begun_fields [simp]:
  "us_manifest (begun op st k m obs) = m\<lparr>mf_ingested_server_t := Some (now_iso (op_now op))\<rparr>"
  "us_observation (begun op st k m obs) = obs" "us_finalized (begun op st k m obs) = None"
  "us_observed_length (begun op st k m obs) = start_of st m" "us_upload_id (begun op st k m obs) = k"
  "us_published_owner (begun op st k m obs) = False"
  by (simp_all add: begun_def)

text \<open>What a manifest must satisfy for an upload of it to begin.\<close>

definition may_begin :: "api_options \<Rightarrow> record_store \<Rightarrow> jsstring \<Rightarrow> manifest \<Rightarrow> bool" where
  "may_begin op st k m \<longleftrightarrow> isUuid k \<and> validateManifest (op_parses op) (manifest_json m) = []
     \<and> mf_event_count m \<noteq> 0 \<and> mf_event_count m \<le> op_max_events op
     \<and> (truthy (mf_parent_record m) \<longrightarrow> recordExists st (the (mf_parent_record m)))
     \<and> 0 \<le> op_idle op \<and> op_idle op \<le> MAX_TIME_FIELD_VALUE"

lemma api_begin_fresh:
  assumes "map_of (cs_uploads (rst_chunked st)) k = None"
  shows "(\<exists>s. api_begin op st k m obs = Inr s) \<longleftrightarrow> may_begin op st k m"
    and "api_begin op st k m obs = Inr s \<Longrightarrow> same_records st (fst s) \<and> (store_ok st \<longrightarrow> store_ok (fst s))
       \<and> upload_holds nb (op_idle op) (begun op st k m obs) (rst_chunked (fst s)) k 0 []
       \<and> cs_uploads (rst_chunked (fst s)) = AList.update k (begun op st k m obs) (cs_uploads (rst_chunked st))"
proof -
  let ?u = "begun op st k m obs"
  have state: "begin_state op k m obs (start_of st m) =
      guard (op_idle op < 0 \<or> op_idle op > MAX_TIME_FIELD_VALUE) (UploadAnalysis InvalidIdleThreshold) (Inr ?u)"
    by (simp add: begin_state_def create_measurement started_def guard_def begun_def)
  have eq: "api_begin op st k m obs = Inr s \<longleftrightarrow> may_begin op st k m \<and>
      (\<exists>cs u. store_begin (rst_chunked st) ?u = Inr (cs, u) \<and> s = (set_chunked cs st, statusView (set_chunked cs st) u))" for s
    unfolding api_begin_def start_of_def [symmetric] state by (auto simp: andThen_Inr_iff may_begin_def)
  have entered: "store_begin (rst_chunked st) ?u = Inr ((rst_chunked st)\<lparr>cs_uploads := AList.update k ?u (cs_uploads (rst_chunked st)),
      cs_chunks := AList.update k [] (cs_chunks (rst_chunked st)), cs_delays := AList.update k [] (cs_delays (rst_chunked st))\<rparr>, ?u)"
    using assms by (simp add: store_begin_def)
  show "(\<exists>s. api_begin op st k m obs = Inr s) \<longleftrightarrow> may_begin op st k m"
    unfolding eq entered by auto
  assume s: "api_begin op st k m obs = Inr s"
  then obtain cs u where m: "may_begin op st k m" and b: "store_begin (rst_chunked st) ?u = Inr (cs, u)"
    and f: "fst s = set_chunked cs st" unfolding eq by auto
  have "is_hash_id (mf_record_hash m)"
    using m validateManifest_ok [of "op_parses op" m] by (auto simp: may_begin_def manifest_ok_def is_b3_hash_def is_hash_id_def)
  then have "store_ok st \<longrightarrow> store_ok (set_chunked cs st)"
    using store_ok_begin [OF _ _ b] by simp
  moreover have "same_records st (set_chunked cs st)"
    using b entered by (auto simp: same_records_def set_chunked_def)
  moreover have "uploaded nb (op_idle op) ?u 0 [] = ?u"
    by (rule uploaded_start) (simp_all add: begun_def)
  then have "upload_holds nb (op_idle op) ?u cs k 0 []"
    using b entered by (auto simp: upload_holds_def update_conv' log_fits_def valid_log_def)
  ultimately show "same_records st (fst s) \<and> (store_ok st \<longrightarrow> store_ok (fst s))
       \<and> upload_holds nb (op_idle op) ?u (rst_chunked (fst s)) k 0 []
       \<and> cs_uploads (rst_chunked (fst s)) = AList.update k ?u (cs_uploads (rst_chunked st))"
    using b entered by (auto simp: f set_chunked_def)
qed

text \<open>The published data depend on the log and the signed manifest only.\<close>

lemma stats_of_ingested [simp]:
  "stats_of s (m\<lparr>mf_ingested_server_t := t\<rparr>) ps = stats_of s m ps"
  "timing_signal s (m\<lparr>mf_ingested_server_t := t\<rparr>) ps = timing_signal s m ps"
  "edit_signal s (m\<lparr>mf_ingested_server_t := t\<rparr>) = edit_signal s m"
  "finalization_of (m\<lparr>mf_ingested_server_t := t\<rparr>) = finalization_of m"
  by (simp_all add: stats_of_def timing_signal_def edit_signal_def finalization_of_def Let_def)

definition published_data :: "api_options \<Rightarrow> int option \<Rightarrow> manifest \<Rightarrow> event_log \<Rightarrow> analysis_error + record_stats \<times> signal list" where
  "published_data op start m es = andThen (analyzeEventLog (op_rank op) es m ((started start)\<lparr>ao_idle := Some (op_idle op)\<rparr>))
     (\<lambda>r. Inr (fst r, (case op_analyzers op of None \<Rightarrow> snd r | Some as \<Rightarrow> List.map unavailable_signal as)))"

lemma measurement_idle: "measurement i (opts\<lparr>ao_idle := x\<rparr>) es = measurement i opts es"
  by (simp add: measurement_def)

lemma published_data_eq:
  assumes "valid_log es" and "0 \<le> op_idle op" and "op_idle op \<le> MAX_TIME_FIELD_VALUE"
    and "mf_event_count m = int (length es)"
  shows "published_data op start m es = Inr (let s = measurement (op_idle op) (started start) es; ps = percentiles_of (op_rank op) (delays_of es)
     in (stats_of s m ps, case op_analyzers op of None \<Rightarrow> [timing_signal s m ps, edit_signal s m] | Some as \<Rightarrow> List.map unavailable_signal as))"
proof -
  have "m\<lparr>mf_event_count := int (length es)\<rparr> = m" using assms(4) by simp
  then show ?thesis
    using analyzeEventLog_valid [OF assms(1), of "(started start)\<lparr>ao_idle := Some (op_idle op)\<rparr>" "op_rank op" m] assms(2,3)
    by (simp add: published_data_def measurement_idle Let_def split: option.split)
qed

lemma finalize_measurement:
  assumes "mf_event_count m = int (length es)"
  shows "finalizeAnalysis (measurement idle opts es) (m\<lparr>mf_ingested_server_t := t\<rparr>) ps =
     Inr (stats_of (measurement idle opts es) m ps, [timing_signal (measurement idle opts es) m ps, edit_signal (measurement idle opts es) m])"
proof -
  have "ac_version (measurement idle opts es) = 1" "ac_count (measurement idle opts es) = int (length es)"
    by (simp_all add: measurement_def Let_def)
  with assms show ?thesis by (simp add: finalizeAnalysis_def guard_def)
qed

lemma derive_iff:
  assumes "noble_ok nb" and "isUuid (mf_session_id m)" and "us_manifest u0 = m\<lparr>mf_ingested_server_t := t\<rparr>"
    and "log_fits m (us_observed_length u0) es" and "0 \<le> op_idle op" and "op_idle op \<le> MAX_TIME_FIELD_VALUE"
  shows "api_derive nb op signature (uploaded nb (op_idle op) u0 bytes es) (percentiles_of (op_rank op) (delays_of es)) = Inr d \<longleftrightarrow>
     es \<noteq> [] \<and> mf_event_count m = int (length es) \<and> sealed_hash nb \<lparr>wr_manifest = m, wr_events = es\<rparr> (mf_record_hash m)
     \<and> (\<exists>stats signals. published_data op (us_observed_length u0) m es = Inr (stats, signals)
          \<and> (\<forall>x \<in> set (stats_numbers stats). \<not> out_of_range x)
          \<and> d = \<lparr>fd_short_signature = signature, fd_stats = stats, fd_signals = signals\<rparr>)"
proof (cases "es \<noteq> [] \<and> mf_event_count m = int (length es)")
  case True
  have log: "valid_log es" using assms(4) by (simp add: log_fits_def)
  obtain tip where tip: "tip_after nb (mf_session_id m) (mf_format_version m) es = Some tip" "is_b3_hash tip"
    and seal: "computeRecordHash nb es (mf_session_id m) (mf_format_version m) (mf_text_binding m) (finalization_of m)
      = sealRecordHash nb tip (mf_format_version m) (mf_text_binding m) (finalization_of m)"
    using computeRecordHash_tip [OF assms(1,2) log] True by blast
  have "tip \<noteq> []" using tip(2) by (auto simp: is_b3_hash_def)
  with True tip seal show ?thesis
    by (auto simp: api_derive_def Let_def assms(3) truthy_def sealed_hash_def guard_Inr_iff andThen_Inr_iff assertStats_def
        published_data_eq [OF log assms(5,6)] finalize_measurement split: sum.splits)
next
  case False
  then show ?thesis
    using tip_after_None [of nb "mf_session_id m" "mf_format_version m" es]
    by (auto simp: api_derive_def Let_def assms(3) truthy_def guard_Inr_iff)
qed

lemma upload_failure_Inr [simp]: "upload_failure r = Inr a \<longleftrightarrow> r = Inr a" "upload_failure (Inr a) = Inr a"
  by (auto simp: upload_failure_def split: sum.splits)

text \<open>
  An observation that an upload may ask for. One that is bound to a session needs the session with its token, not
  yet finalized for another record, with at least one checkpoint, and every checkpoint has to be a tip of the chain of the log.
\<close>

definition checkpoints_match :: "noble \<Rightarrow> manifest \<Rightarrow> event_log \<Rightarrow> commitment list \<Rightarrow> bool" where
  "checkpoints_match nb m es cs \<longleftrightarrow> cs \<noteq> [] \<and> (\<forall>c \<in> set cs. 1 \<le> cm_event_count c \<and> cm_event_count c \<le> int (length es)
     \<and> chain_of nb m es ! nat (cm_event_count c - 1) = cm_chain_tip c)"

definition observable :: "noble \<Rightarrow> record_store \<Rightarrow> manifest \<Rightarrow> event_log \<Rightarrow> upload_observation option \<Rightarrow> bool" where
  "observable nb st m es obs = (case obs of
      Some (BoundUpload sid token) \<Rightarrow> (case map_of (rst_sessions st) sid of
          None \<Rightarrow> False
        | Some s \<Rightarrow> os_token_hash s = token \<and> (truthy (os_finalized s) \<longrightarrow> os_finalized s = Some (mf_record_hash m))
            \<and> checkpoints_match nb m es (os_checkpoints s))
    | _ \<Rightarrow> True)"

text \<open>The observation that a record of the log is then published with.\<close>

definition observation_stored :: "clock \<Rightarrow> record_store \<Rightarrow> event_log \<Rightarrow> upload_observation option \<Rightarrow> record_observation" where
  "observation_stored ck st es obs = (case obs of
      None \<Rightarrow> notRequestedObservation
    | Some UnobservedUpload \<Rightarrow> unobservedObservation
    | Some (BoundUpload sid token) \<Rightarrow> (case map_of (rst_sessions st) sid of
          None \<Rightarrow> notRequestedObservation
        | Some s \<Rightarrow> observationFromCheckpoints ck (os_id s)
            (if cm_event_count (last (os_checkpoints s)) = int (length es) then Observed else Partial) (os_checkpoints s)))"

lemma tip_at_whole:
  "tip_at (chunk_table nb m [] chunks) i =
     (if 0 \<le> i \<and> i < int (length (concat chunks)) then Some (chain_of nb m (concat chunks) ! nat i) else None)"
  using tip_at_table [of nb m "[]" chunks i] by simp

lemma checkpoints_match_tips:
  "checkpoints_match nb m (concat chunks) cs \<longleftrightarrow> cs \<noteq> []
     \<and> \<not> (\<exists>c \<in> set cs. tip_at (chunk_table nb m [] chunks) (cm_event_count c - 1) \<noteq> Some (cm_chain_tip c))"
proof -
  have "tip_at (chunk_table nb m [] chunks) (cm_event_count c - 1) = Some (cm_chain_tip c) \<longleftrightarrow> 1 \<le> cm_event_count c
      \<and> cm_event_count c \<le> int (length (concat chunks)) \<and> chain_of nb m (concat chunks) ! nat (cm_event_count c - 1) = cm_chain_tip c" for c
    unfolding tip_at_whole by auto
  then show ?thesis unfolding checkpoints_match_def by blast
qed

lemma observation_exact:
  assumes "mf_record_hash (us_manifest u) = mf_record_hash m" and "us_next_seq u = int (length (concat chunks))"
  shows "observationView ck u (map_option snd (bound_session (rst_chunked st) u)) (tip_at (chunk_table nb m [] chunks)) = Inr obs
     \<longleftrightarrow> observable nb st m (concat chunks) (us_observation u) \<and> obs = observation_stored ck st (concat chunks) (us_observation u)"
proof (cases "us_observation u")
  case None
  then show ?thesis by (auto simp: observationView_def observable_def observation_stored_def)
next
  case (Some o')
  show ?thesis
  proof (cases o')
    case UnobservedUpload
    with Some show ?thesis by (auto simp: observationView_def observable_def observation_stored_def)
  next
    case (BoundUpload sid token)
    with Some show ?thesis
      by (cases "map_of (rst_sessions st) sid")
        (auto simp: observationView_def observable_def observation_stored_def bound_session_def checkpoints_match_tips
           guard_Inr_iff assms)
  qed
qed

definition unknown_hash :: "record_store \<Rightarrow> jsstring \<Rightarrow> bool" where
  "unknown_hash st h \<longleftrightarrow> findByShortSignatureOrHash st h = None \<and> findCompleted (rst_chunked st) h = None"

lemma finalize_created:
  assumes "upload_holds nb idle u0 (rst_chunked st) k bytes chunks" and "is_hash_id (mf_record_hash (us_manifest u0))"
    and "api_finalize nb op st k = Inr (st', reply)" and "rp_created reply"
  shows "\<exists>signature d r. api_derive nb op signature (uploaded nb idle u0 bytes (concat chunks))
          (percentileValues (op_rank op) (foldl count_delay [] (delays_of (concat chunks)))) = Inr d
     \<and> findByShortSignatureOrHash st' (mf_record_hash (us_manifest u0)) = Some r \<and> sr_manifest r = us_manifest u0
     \<and> sr_chunked r \<and> sr_stats r = fd_stats d \<and> sr_signals r = fd_signals d \<and> sr_short_signature r = fd_short_signature d
     \<and> reply = \<lparr>rp_record_hash = mf_record_hash (us_manifest u0), rp_short_signature = fd_short_signature d, rp_created = True\<rparr>"
proof -
  let ?u = "uploaded nb idle u0 bytes (concat chunks)" and ?h = "mf_record_hash (us_manifest u0)"
  let ?table = "foldl count_delay [] (delays_of (concat chunks))"
  have u: "map_of (cs_uploads (rst_chunked st)) k = Some ?u" "map_of (cs_delays (rst_chunked st)) k = Some ?table"
    using assms(1) by (simp_all add: upload_holds_def)
  from assms(3,4) u obtain signature cs p where
    f: "finalize_upload (op_rank op) (op_now op) st k (api_derive nb op signature) = Inr (cs, p)" and
    st': "st' = set_chunked cs st" and
    reply: "reply = \<lparr>rp_record_hash = pb_record_hash p, rp_short_signature = pb_short_signature p, rp_created = True\<rparr>" and
    new: "pb_created p"
    by (auto simp: api_finalize_def guard_Inr_iff andThen_Inr_iff upload_failure_def split: sum.splits)
  have none: "findByShortSignatureOrHash st ?h = None" "findCompleted (rst_chunked st) ?h = None"
    using f u new by (auto simp: finalize_upload_def store_finalize_def Let_def split: option.splits)
  from f u none obtain d obs where
    d: "api_derive nb op signature ?u (percentileValues (op_rank op) ?table) = Inr d" and
    co: "cs_completed cs = AList.update ?h \<lparr>sr_manifest = us_manifest u0, sr_events = [], sr_chunked = True,
         sr_short_signature = fd_short_signature d, sr_stats = fd_stats d, sr_signals = fd_signals d,
         sr_observation = obs, sr_created_at = (case mf_ingested_server_t (us_manifest u0) of Some t \<Rightarrow> t | None \<Rightarrow> [])\<rparr>
         (cs_completed (rst_chunked st))" and
    p: "pb_record_hash p = ?h" "pb_short_signature p = fd_short_signature d"
    by (auto simp: finalize_upload_def store_finalize_def Let_def andThen_Inr_iff)
  have "map_of (rst_by_hash st) ?h = None"
    using none(1) assms(2) by (auto simp: findByShortSignatureOrHash_def findByRecordHash_def split: option.splits)
  then have "findByShortSignatureOrHash st' ?h = map_of (cs_completed cs) ?h"
    using assms(2) by (auto simp: findByShortSignatureOrHash_def findByRecordHash_def st' set_chunked_def
        findCompleted_def co update_conv' split: option.splits)
  with d p reply show ?thesis
    by (intro exI [of _ signature] exI [of _ d]) (auto simp: co update_conv')
qed

lemma finalize_succeeds:
  assumes "upload_holds nb idle u0 (rst_chunked st) k bytes chunks" and "isUuid k"
    and "observable nb st (us_manifest u0) (concat chunks) (us_observation u0)"
    and "unknown_hash st (mf_record_hash (us_manifest u0))"
    and "generateShortSignature nb (findByShortSignature st) (mf_record_hash (us_manifest u0)) (op_initial_length op) = Inr signature"
    and "api_derive nb op signature (uploaded nb idle u0 bytes (concat chunks))
          (percentileValues (op_rank op) (foldl count_delay [] (delays_of (concat chunks)))) = Inr d"
  shows "\<exists>s. api_finalize nb op st k = Inr s \<and> rp_created (snd s)"
proof -
  let ?u = "uploaded nb idle u0 bytes (concat chunks)"
  have "observationView (op_now op) ?u (map_option snd (bound_session (rst_chunked st) ?u)) (tip_at (chunk_table nb (us_manifest u0) [] chunks))
      = Inr (observation_stored (op_now op) st (concat chunks) (us_observation u0))"
    using assms(3) observation_exact [of ?u "us_manifest u0" chunks "op_now op" st nb] by simp
  with assms show ?thesis
    by (auto simp: api_finalize_def upload_holds_def unknown_hash_def finalize_upload_def store_finalize_def Let_def
        guard_def upload_failure_def get_or_def)
qed

text \<open>The observation and the session of a record that an upload creates.\<close>

lemma finalize_observed:
  assumes "upload_holds nb idle u0 (rst_chunked st) k bytes chunks" and "is_hash_id (mf_record_hash (us_manifest u0))"
    and "api_finalize nb op st k = Inr (st', reply)" and "rp_created reply"
    and "findByShortSignatureOrHash st' (mf_record_hash (us_manifest u0)) = Some r"
  shows "observable nb st (us_manifest u0) (concat chunks) (us_observation u0)"
    and "sr_observation r = observation_stored (op_now op) st (concat chunks) (us_observation u0)"
    and "rst_sessions st' = (case bound_session (rst_chunked st) u0 of
        Some (sid, s) \<Rightarrow> if truthy (ro_session (sr_observation r))
          then AList.update sid (s\<lparr>os_finalized := Some (mf_record_hash (us_manifest u0)), os_state := Some (ro_state (sr_observation r))\<rparr>) (rst_sessions st)
          else rst_sessions st
      | None \<Rightarrow> rst_sessions st)"
proof -
  let ?u = "uploaded nb idle u0 bytes (concat chunks)" and ?h = "mf_record_hash (us_manifest u0)"
  have u: "map_of (cs_uploads (rst_chunked st)) k = Some ?u"
    and table: "get_or [] (cs_chunks (rst_chunked st)) k = chunk_table nb (us_manifest u0) [] chunks"
    and delays: "map_of (cs_delays (rst_chunked st)) k = Some (foldl count_delay [] (delays_of (concat chunks)))"
    using assms(1) by (simp_all add: upload_holds_def get_or_def)
  from assms(3,4) u obtain signature cs p where
    f: "finalize_upload (op_rank op) (op_now op) st k (api_derive nb op signature) = Inr (cs, p)" and
    st': "st' = set_chunked cs st" and new: "pb_created p"
    by (auto simp: api_finalize_def guard_Inr_iff andThen_Inr_iff upload_failure_def split: sum.splits)
  have none: "findByShortSignatureOrHash st ?h = None" "findCompleted (rst_chunked st) ?h = None"
    using f u new by (auto simp: finalize_upload_def store_finalize_def Let_def split: option.splits)
  define stored where "stored d obs = \<lparr>sr_manifest = us_manifest u0, sr_events = [], sr_chunked = True,
     sr_short_signature = fd_short_signature d, sr_stats = fd_stats d, sr_signals = fd_signals d, sr_observation = obs,
     sr_created_at = (case mf_ingested_server_t (us_manifest u0) of Some t \<Rightarrow> t | None \<Rightarrow> [])\<rparr>" for d :: finalize_data and obs
  define sess where "sess obs = (case bound_session (rst_chunked st) u0 of
        Some (sid, s) \<Rightarrow> if truthy (ro_session obs)
          then AList.update sid (s\<lparr>os_finalized := Some ?h, os_state := Some (ro_state obs)\<rparr>) (rst_sessions st)
          else rst_sessions st
      | None \<Rightarrow> rst_sessions st)" for obs :: record_observation
  have bound: "bound_session (rst_chunked st) ?u = bound_session (rst_chunked st) u0" by (simp add: bound_session_def)
  note f' = f [unfolded finalize_upload_def store_finalize_def Let_def u option.case uploaded_fields none delays table]
  from f' obtain d obs where
    v: "observationView (op_now op) ?u (map_option snd (bound_session (rst_chunked st) ?u)) (tip_at (chunk_table nb (us_manifest u0) [] chunks)) = Inr obs"
    and cs: "(rst_chunked st)\<lparr>cs_completed := AList.update ?h (stored d obs) (cs_completed (rst_chunked st)), cs_sessions := sess obs,
      cs_uploads := AList.update k (?u\<lparr>us_finalized := Some ?h, us_published_owner := True\<rparr>) (cs_uploads (rst_chunked st)),
      cs_delays := AList.delete k (cs_delays (rst_chunked st))\<rparr> = cs"
    unfolding bound andThen_Inr_iff stored_def sess_def by (elim exE conjE) (simp only: sum.inject prod.inject prod.case, blast)
  have co: "cs_completed cs = AList.update ?h (stored d obs) (cs_completed (rst_chunked st))" and ss: "cs_sessions cs = sess obs"
    by (simp_all flip: cs)
  define rec where "rec = stored d obs"
  have rec: "sr_observation rec = obs" by (simp add: rec_def stored_def)
  have "map_of (rst_by_hash st) ?h = None"
    using none(1) assms(2) by (auto simp: findByShortSignatureOrHash_def findByRecordHash_def split: option.splits)
  then have "r = rec"
    using assms(2,5) by (auto simp: findByShortSignatureOrHash_def findByRecordHash_def st' set_chunked_def
        findCompleted_def co rec_def update_conv' split: option.splits)
  then have r: "sr_observation r = obs" using rec by simp
  show "observable nb st (us_manifest u0) (concat chunks) (us_observation u0)"
    "sr_observation r = observation_stored (op_now op) st (concat chunks) (us_observation u0)"
    using v observation_exact [of ?u "us_manifest u0" chunks "op_now op" st nb obs] r by simp_all
  have "rst_sessions st' = sess obs" using ss by (simp add: st' set_chunked_def)
  then show "rst_sessions st' = (case bound_session (rst_chunked st) u0 of
        Some (sid, s) \<Rightarrow> if truthy (ro_session (sr_observation r))
          then AList.update sid (s\<lparr>os_finalized := Some ?h, os_state := Some (ro_state (sr_observation r))\<rparr>) (rst_sessions st)
          else rst_sessions st
      | None \<Rightarrow> rst_sessions st)"
    unfolding sess_def r .
qed

lemma unknown_hash_same:
  "same_records st st' \<Longrightarrow> unknown_hash st' h \<longleftrightarrow> unknown_hash st h"
  "same_records st st' \<Longrightarrow> findByShortSignature st' = findByShortSignature st"
proof -
  assume s: "same_records st st'"
  then have e: "cs_completed (rst_chunked st') = cs_completed (rst_chunked st)" by (simp add: same_records_def)
  have c: "findCompleted (rst_chunked st') = findCompleted (rst_chunked st)"
    unfolding findCompleted_def fun_eq_iff e by simp
  have r: "rst_by_hash st' = rst_by_hash st" "rst_by_short st' = rst_by_short st" using s by (simp_all add: same_records_def)
  have h: "findByRecordHash st' = findByRecordHash st"
    unfolding findByRecordHash_def fun_eq_iff r c by simp
  show "findByShortSignature st' = findByShortSignature st"
    unfolding findByShortSignature_def fun_eq_iff r c h by simp
  with c h show "unknown_hash st' h \<longleftrightarrow> unknown_hash st h"
    by (simp add: unknown_hash_def findByShortSignatureOrHash_def)
qed

lemma observable_same:
  assumes "same_records st st'"
  shows "observable nb st' (m\<lparr>mf_ingested_server_t := t\<rparr>) es obs \<longleftrightarrow> observable nb st m es obs"
    and "observation_stored ck st' es obs = observation_stored ck st es obs"
proof -
  have ss: "rst_sessions st' = rst_sessions st" using assms by (simp add: same_records_def)
  have "checkpoints_match nb (m\<lparr>mf_ingested_server_t := t\<rparr>) es cs \<longleftrightarrow> checkpoints_match nb m es cs" for cs
    by (simp add: checkpoints_match_def)
  then show "observable nb st' (m\<lparr>mf_ingested_server_t := t\<rparr>) es obs \<longleftrightarrow> observable nb st m es obs"
    unfolding observable_def ss by (simp split: option.split upload_observation.split)
  show "observation_stored ck st' es obs = observation_stored ck st es obs" unfolding observation_stored_def ss ..
qed

section \<open>Publication in chunks against verification of the whole\<close>

lemma publish_complete:
  assumes "noble_ok nb" and "rank_ok (op_rank op)" and "map_of (cs_uploads (rst_chunked st)) k = None"
    and "may_begin op st k m"
    and "verifyRecord (op_parses op) nb \<lparr>wr_manifest = m, wr_events = concat chunks\<rparr> = Inr res" and "vr_valid res"
    and "chunks_accepted op (begun op st k m obs) 0 [] chunks"
    and "published_data op (start_of st m) m (concat chunks) = Inr (stats, signals)"
    and "assertStats stats = Inr ()" and "unknown_hash st (mf_record_hash m)"
    and "generateShortSignature nb (findByShortSignature st) (mf_record_hash m) (op_initial_length op) = Inr signature"
    and "observable nb st m (concat chunks) obs"
  shows "\<exists>st' reply. publish_in_chunks nb op st k m obs chunks = Inr (st', reply) \<and> rp_created reply"
proof -
  let ?es = "concat chunks" and ?u0 = "begun op st k m obs"
  have may: "isUuid k" "validateManifest (op_parses op) (manifest_json m) = []"
     "0 \<le> op_idle op" "op_idle op \<le> MAX_TIME_FIELD_VALUE" using assms(4) by (simp_all add: may_begin_def)
  have sid: "isUuid (mf_session_id m)" using validateManifest_ok [OF may(2)] by (simp add: manifest_ok_def)
  obtain s1 where b: "api_begin op st k m obs = Inr s1" using assms(4) api_begin_fresh(1) [OF assms(3)] by blast
  note b' = api_begin_fresh(2) [OF assms(3) b, of nb]
  have h1: "upload_holds nb (op_idle op) ?u0 (rst_chunked (fst s1)) k 0 []" using b' by blast
  have u: "isUuid (mf_session_id (us_manifest ?u0))" "\<not> truthy (us_finalized ?u0)" using sid by (simp_all add: truthy_def)
  note sends = send_chunks_iff [OF assms(1) u may(1) h1, of op chunks, simplified]
  obtain s2 where r: "run_steps (send_chunk nb op k) (fst s1, 0) chunks = Inr s2"
    using sends(1) assms(7) by (cases "run_steps (send_chunk nb op k) (fst s1, 0) chunks") auto
  obtain bytes where h2: "upload_holds nb (op_idle op) ?u0 (rst_chunked (fst s2)) k bytes chunks"
    and same: "same_records (fst s1) (fst s2)" using sends(2) [of s2] r by auto
  have same0: "same_records st (fst s2)" using same_records_trans [OF _ same] b' by blast
  have ok: "record_ok (op_parses op) nb \<lparr>wr_manifest = m, wr_events = ?es\<rparr>"
    using verifyRecord_spec [OF assms(1), of "op_parses op" "\<lparr>wr_manifest = m, wr_events = ?es\<rparr>"] assms(5,6) by auto
  have fits: "log_fits m (start_of st m) ?es" using h2 by (simp add: upload_holds_def log_fits_def)
  have "\<forall>x \<in> set (stats_numbers stats). \<not> out_of_range x" using assms(9) by (auto simp: assertStats_def guard_Inr_iff)
  then have "api_derive nb op signature (uploaded nb (op_idle op) ?u0 bytes ?es)
      (percentiles_of (op_rank op) (delays_of ?es)) = Inr \<lparr>fd_short_signature = signature, fd_stats = stats, fd_signals = signals\<rparr>"
    using derive_iff [OF assms(1) sid _ _ may(3,4), where ?u0.0 = ?u0 and es = ?es and signature = signature and bytes = bytes] fits ok assms(8)
    by (auto simp: record_ok_def Let_def)
  then have "\<exists>s. api_finalize nb op (fst s2) k = Inr s \<and> rp_created (snd s)"
    using finalize_succeeds [OF h2 may(1)] observable_same [OF same0] assms(10-12) unknown_hash_same [OF same0]
    by (simp add: percentiles_counted [OF assms(2)])
  then show ?thesis
    by (auto simp: publish_in_chunks_def b r)
qed

lemma publish_sound:
  assumes "noble_ok nb" and "rank_ok (op_rank op)" and "map_of (cs_uploads (rst_chunked st)) k = None"
    and "publish_in_chunks nb op st k m obs chunks = Inr (st', reply)" and "rp_created reply"
  shows "\<exists>res r. verifyRecord (op_parses op) nb \<lparr>wr_manifest = m, wr_events = concat chunks\<rparr> = Inr res \<and> vr_valid res
     \<and> rp_record_hash reply = mf_record_hash m \<and> findByShortSignatureOrHash st' (mf_record_hash m) = Some r
     \<and> sr_short_signature r = rp_short_signature reply
     \<and> published_data op (start_of st m) m (concat chunks) = Inr (sr_stats r, sr_signals r)"
proof -
  let ?es = "concat chunks" and ?u0 = "begun op st k m obs"
  from assms(4) obtain s1 s2 where
    b: "api_begin op st k m obs = Inr s1" and
    r: "run_steps (send_chunk nb op k) (fst s1, 0) chunks = Inr s2" and
    f: "api_finalize nb op (fst s2) k = Inr (st', reply)"
    by (auto simp: publish_in_chunks_def andThen_Inr_iff)
  have may: "may_begin op st k m" using b api_begin_fresh(1) [OF assms(3)] by blast
  then have valid: "validateManifest (op_parses op) (manifest_json m) = []" and k: "isUuid k"
    and idle: "0 \<le> op_idle op" "op_idle op \<le> MAX_TIME_FIELD_VALUE" by (simp_all add: may_begin_def)
  note mok = validateManifest_ok [OF valid]
  have sid: "isUuid (mf_session_id m)" and hid: "is_hash_id (mf_record_hash m)"
    using mok by (auto simp: manifest_ok_def is_b3_hash_def is_hash_id_def)
  have h1: "upload_holds nb (op_idle op) ?u0 (rst_chunked (fst s1)) k 0 []"
    using api_begin_fresh(2) [OF assms(3) b] by blast
  obtain bytes where h2: "upload_holds nb (op_idle op) ?u0 (rst_chunked (fst s2)) k bytes chunks"
    using send_chunks_iff(2) [OF assms(1) _ _ k h1, of op chunks s2] sid r by (auto simp: truthy_def)
  from finalize_created [OF h2 _ f assms(5)] hid obtain signature d rec where
    d: "api_derive nb op signature (uploaded nb (op_idle op) ?u0 bytes ?es)
          (percentileValues (op_rank op) (foldl count_delay [] (delays_of ?es))) = Inr d" and
    rec: "findByShortSignatureOrHash st' (mf_record_hash m) = Some rec" "sr_stats rec = fd_stats d"
      "sr_signals rec = fd_signals d" "sr_short_signature rec = fd_short_signature d"
      "reply = \<lparr>rp_record_hash = mf_record_hash m, rp_short_signature = fd_short_signature d, rp_created = True\<rparr>"
    by auto
  have fits: "log_fits m (start_of st m) ?es" using h2 by (simp add: upload_holds_def log_fits_def)
  then have d': "?es \<noteq> []" "mf_event_count m = int (length ?es)"
     "sealed_hash nb \<lparr>wr_manifest = m, wr_events = ?es\<rparr> (mf_record_hash m)"
     "published_data op (start_of st m) m ?es = Inr (fd_stats d, fd_signals d)"
    using d derive_iff [OF assms(1) sid _ _ idle, where ?u0.0 = ?u0 and es = ?es and signature = signature and bytes = bytes and d = d]
    by (auto simp: percentiles_counted [OF assms(2)])
  have "ev_t (last ?es) \<le> mf_duration_ms m"
    using fits last_in_set [OF d'(1)] by (simp only: log_fits_def)
  with fits valid d' have ok: "record_ok (op_parses op) nb \<lparr>wr_manifest = m, wr_events = ?es\<rparr>"
    by (simp add: record_ok_def Let_def log_fits_def)
  with verifyRecord_spec [OF assms(1), of "op_parses op" "\<lparr>wr_manifest = m, wr_events = ?es\<rparr>"] d'(4) rec
  show ?thesis by auto
qed

text \<open>C14: Only verified records are published in chunks. Whenever an upload of a manifest in chunks
  creates a record, \<open>verifyRecord\<close> accepts the manifest with the concatenation of the chunks, and
  the record found under its hash carries the statistics and signals that analyzing the whole log
  at once computes.\<close>

theorem chunked_publication_sound:
  assumes "noble_ok nb" and "rank_ok (op_rank op)" and "map_of (cs_uploads (rst_chunked st)) k = None"
    and "publish_in_chunks nb op st k m obs chunks = Inr (st', reply)" and "rp_created reply"
  shows "\<exists>res r. verifyRecord (op_parses op) nb \<lparr>wr_manifest = m, wr_events = concat chunks\<rparr> = Inr res \<and> vr_valid res
     \<and> rp_record_hash reply = mf_record_hash m \<and> findByShortSignatureOrHash st' (mf_record_hash m) = Some r
     \<and> sr_short_signature r = rp_short_signature reply
     \<and> published_data op (start_of st m) m (concat chunks) = Inr (sr_stats r, sr_signals r)"
  by (rule publish_sound [OF assms])

definition sample_api :: api_options where
  "sample_api = \<lparr>op_now = sample_clock, op_rank = sample_rank, op_parses = (\<lambda>_. True), op_idle = 30000,
     op_initial_length = 1, op_analyzers = None, op_max_events = 10, op_max_bytes = 1000, op_bytes = (\<lambda>_. 100)\<rparr>"

lemma sample_signature: "\<exists>s. generateShortSignature sample_noble (findByShortSignature empty_store) sample_hash 1 = Inr s"
proof (cases "generateShortSignature sample_noble (findByShortSignature empty_store) sample_hash 1")
  case (Inl e)
  from no_signature_left [OF empty_store_ok sample_hash_b3 Inl, of 1] show ?thesis
    by (simp add: published_records_def empty_store_def)
qed auto

lemma sample_stats_in_range:
  "list_all (\<lambda>x. \<not> out_of_range x) (stats_numbers (stats_of (measurement 30000 (started (Some 0)) [sample_event, sample_paste])
     ((wr_manifest sample_record)\<lparr>mf_record_hash := []\<rparr>) (percentiles_of sample_rank (delays_of [sample_event, sample_paste]))))"
  by code_simp

lemma stats_numbers_hash: "stats_numbers (stats_of s (m\<lparr>mf_record_hash := h\<rparr>) ps) = stats_numbers (stats_of s m ps)"
  by (simp add: stats_numbers_def stats_of_def)

abbreviation sample_chunks :: "event_log list" where
  "sample_chunks \<equiv> [[sample_event], [sample_paste]]"

lemma sample_publication:
  shows "map_of (cs_uploads (rst_chunked empty_store)) sample_session = None"
    and "may_begin sample_api empty_store sample_session (wr_manifest sample_record)"
    and "\<exists>res. verifyRecord (op_parses sample_api) sample_noble \<lparr>wr_manifest = wr_manifest sample_record, wr_events = concat sample_chunks\<rparr>
        = Inr res \<and> vr_valid res"
    and "chunks_accepted sample_api (begun sample_api empty_store sample_session (wr_manifest sample_record) None) 0 [] sample_chunks"
    and "\<exists>stats signals. published_data sample_api (start_of empty_store (wr_manifest sample_record)) (wr_manifest sample_record)
        (concat sample_chunks) = Inr (stats, signals) \<and> assertStats stats = Inr ()"
    and "unknown_hash empty_store (mf_record_hash (wr_manifest sample_record))"
    and "rank_ok (op_rank sample_api)" and "op_initial_length sample_api = 1"
proof -
  let ?m = "wr_manifest sample_record"
  have m: "mf_event_count ?m = 2" "mf_parent_record ?m = None" "mf_duration_ms ?m = 50" "mf_session_id ?m = sample_session"
    "mf_format_version ?m = V0_1" "mf_record_hash ?m = sample_hash" by (simp_all add: sample_record_def)
  have start: "start_of empty_store ?m = Some 0" by (simp add: start_of_def startingLength_def m)
  have valid: "valid_log [sample_event, sample_paste]" by (rule sample_log_valid(1))
  have whole: "\<lparr>wr_manifest = ?m, wr_events = concat sample_chunks\<rparr> = sample_record" by (simp add: sample_record_def)
  show "map_of (cs_uploads (rst_chunked empty_store)) sample_session = None" by (simp add: empty_store_def)
  show "may_begin sample_api empty_store sample_session ?m"
    using sample_manifest_ok sample_log_valid(2) by (simp add: may_begin_def sample_api_def m truthy_def MAX_TIME_FIELD_VALUE_def)
  show "\<exists>res. verifyRecord (op_parses sample_api) sample_noble \<lparr>wr_manifest = ?m, wr_events = concat sample_chunks\<rparr> = Inr res \<and> vr_valid res"
    unfolding whole using verifyRecord_spec [OF sample_noble_ok, of "op_parses sample_api" sample_record] sample_record_ok
    by (auto simp: sample_api_def)
  have "lengths_fit (Some 0) [sample_event, sample_paste]" "\<forall>e \<in> set [sample_event, sample_paste]. ev_t e \<le> 50"
    by code_simp+
  then have fits: "log_fits ?m (Some 0) ([sample_event] @ [sample_paste])" using valid by (simp add: log_fits_def m)
  from log_fits_append [OF fits] fits
  show "chunks_accepted sample_api (begun sample_api empty_store sample_session ?m None) 0 [] sample_chunks"
    by (simp add: chunk_accepted_def start m MAX_EVENT_CHUNK_def sample_api_def log_fits_def)
  let ?s = "measurement 30000 (started (Some 0)) [sample_event, sample_paste]"
  let ?ps = "percentiles_of sample_rank (delays_of [sample_event, sample_paste])"
  have "published_data sample_api (Some 0) ?m [sample_event, sample_paste] = Inr (stats_of ?s ?m ?ps, [timing_signal ?s ?m ?ps, edit_signal ?s ?m])"
    using published_data_eq [OF valid, of sample_api ?m "Some 0"] m(1) by (simp add: sample_api_def Let_def MAX_TIME_FIELD_VALUE_def)
  moreover have "assertStats (stats_of ?s ?m ?ps) = Inr ()"
    using sample_stats_in_range by (simp add: assertStats_def stats_numbers_hash guard_def list_all_iff)
  ultimately show "\<exists>stats signals. published_data sample_api (start_of empty_store ?m) ?m (concat sample_chunks) = Inr (stats, signals)
      \<and> assertStats stats = Inr ()" by (simp add: start)
  show "unknown_hash empty_store (mf_record_hash ?m)"
    by (simp add: unknown_hash_def empty_store_def findByShortSignatureOrHash_def findByRecordHash_def findByShortSignature_def
        findCompleted_def truthy_def)
  show "rank_ok (op_rank sample_api)" "op_initial_length sample_api = 1" using sample_rank_ok by (simp_all add: sample_api_def)
qed

lemma sample_generated: "\<exists>s. generateShortSignature sample_noble (findByShortSignature empty_store)
   (mf_record_hash (wr_manifest sample_record)) (op_initial_length sample_api) = Inr s"
  using sample_signature sample_publication(8) by (simp add: sample_record_def)

lemma sample_published:
  "\<exists>st' reply. publish_in_chunks sample_noble sample_api empty_store sample_session (wr_manifest sample_record) None sample_chunks
       = Inr (st', reply) \<and> rp_created reply"
proof -
  note p = sample_publication
  from p(3,5) sample_generated obtain res stats signals signature where
    v: "verifyRecord (op_parses sample_api) sample_noble \<lparr>wr_manifest = wr_manifest sample_record, wr_events = concat sample_chunks\<rparr> = Inr res"
       "vr_valid res"
    and d: "published_data sample_api (start_of empty_store (wr_manifest sample_record)) (wr_manifest sample_record)
        (concat sample_chunks) = Inr (stats, signals)" "assertStats stats = Inr ()"
    and g: "generateShortSignature sample_noble (findByShortSignature empty_store)
        (mf_record_hash (wr_manifest sample_record)) (op_initial_length sample_api) = Inr signature" by blast
  from publish_complete [OF sample_noble_ok p(7,1,2) v p(4) d p(6) g] show ?thesis by (simp add: observable_def)
qed

lemma chunked_publication_sound_witness:
  "\<exists>st' reply r res. publish_in_chunks sample_noble sample_api empty_store sample_session (wr_manifest sample_record) None sample_chunks
       = Inr (st', reply) \<and> rp_created reply
     \<and> verifyRecord (op_parses sample_api) sample_noble \<lparr>wr_manifest = wr_manifest sample_record, wr_events = concat sample_chunks\<rparr> = Inr res
     \<and> vr_valid res \<and> findByShortSignatureOrHash st' (mf_record_hash (wr_manifest sample_record)) = Some r"
proof -
  from sample_published obtain st' reply where
    c: "publish_in_chunks sample_noble sample_api empty_store sample_session (wr_manifest sample_record) None sample_chunks = Inr (st', reply)"
      "rp_created reply" by blast
  from chunked_publication_sound [OF sample_noble_ok sample_publication(7,1) c] c show ?thesis by blast
qed

text \<open>C20: What verifies and fits can be published in chunks. When \<open>verifyRecord\<close> accepts the record of the chunks,
  a fresh upload of it is accepted to its end and creates the record, provided that the interface takes its manifest
  (\<open>may_begin\<close>: within the limit of events, its parent record stored), each chunk is within the limits on events,
  bytes and lengths, the statistics of the log are in the range that is stored, no record is stored under
  its hash, a short signature is left for it, and the observation it asks for, if any, is unobserved or bound to a
  session whose checkpoints are those of the log.\<close>

theorem chunked_publication_complete:
  assumes "noble_ok nb" and "rank_ok (op_rank op)" and "map_of (cs_uploads (rst_chunked st)) k = None"
    and "may_begin op st k m"
    and "verifyRecord (op_parses op) nb \<lparr>wr_manifest = m, wr_events = concat chunks\<rparr> = Inr res" and "vr_valid res"
    and "chunks_accepted op (begun op st k m obs) 0 [] chunks"
    and "published_data op (start_of st m) m (concat chunks) = Inr (stats, signals)"
    and "assertStats stats = Inr ()" and "unknown_hash st (mf_record_hash m)"
    and "generateShortSignature nb (findByShortSignature st) (mf_record_hash m) (op_initial_length op) = Inr signature"
    and "observable nb st m (concat chunks) obs"
  shows "\<exists>st' reply. publish_in_chunks nb op st k m obs chunks = Inr (st', reply) \<and> rp_created reply"
  by (rule publish_complete [OF assms])

lemma chunked_publication_complete_witness:
  "\<exists>st' reply. publish_in_chunks sample_noble sample_api empty_store sample_session (wr_manifest sample_record) None sample_chunks
       = Inr (st', reply) \<and> rp_created reply"
proof -
  note p = sample_publication
  from p(3,5) sample_generated obtain res stats signals signature where
    v: "verifyRecord (op_parses sample_api) sample_noble \<lparr>wr_manifest = wr_manifest sample_record, wr_events = concat sample_chunks\<rparr> = Inr res"
       "vr_valid res"
    and d: "published_data sample_api (start_of empty_store (wr_manifest sample_record)) (wr_manifest sample_record)
        (concat sample_chunks) = Inr (stats, signals)" "assertStats stats = Inr ()"
    and g: "generateShortSignature sample_noble (findByShortSignature empty_store)
        (mf_record_hash (wr_manifest sample_record)) (op_initial_length sample_api) = Inr signature" by blast
  from chunked_publication_complete [OF sample_noble_ok p(7,1,2) v p(4) d p(6) g] show ?thesis by (simp add: observable_def)
qed

end
