(* ===== verification/Chunked_Pages.thy ===== *)
theory Chunked_Pages
  imports Chunked_Publish
begin

text \<open>
  Reading a record that was published in chunks: its pages are those of the whole log, and the
  checkpoints of an observed session are compared with the tips of the whole chain.
\<close>

section \<open>Tips and pages of a table of chunks\<close>

lemma chain_of_append: "chain_of nb m (es @ fs) = chain_of nb m es @ drop (length es) (chain_of nb m (es @ fs))"
  by (simp add: tips_from_append)

definition page_of :: "noble \<Rightarrow> manifest \<Rightarrow> nat \<Rightarrow> nat \<Rightarrow> event_log \<Rightarrow> event_log \<times> jsstring option \<times> jsstring option" where
  "page_of nb m off lim es = (take lim (drop off es),
     if 0 < off \<and> off \<le> length es then Some (chain_of nb m es ! (off - 1)) else None,
     if off < length es then Some (chain_of nb m es ! (min (off + lim) (length es) - 1)) else None)"

lemma chain_of_nth_append:
  "i < length es \<Longrightarrow> chain_of nb m (es @ fs) ! i = chain_of nb m es ! i"
  by (simp add: tips_from_append nth_append)

lemma page_chunk_step:
  assumes "0 < lim" and "c \<noteq> []"
  shows "page_chunk (int off) (int lim) (page_of nb m off lim es) (int (length es), c, drop (length es) (chain_of nb m (es @ c)))
     = page_of nb m off lim (es @ c)"
proof -
  let ?n = "length es" and ?tips = "drop (length es) (chain_of nb m (es @ c))"
  define lo hi where "lo = off - ?n" and "hi = min (length c) (off + lim - ?n)"
  have nat_eqs: "nat (max 0 (int off - int ?n)) = lo" "nat (int off + int lim - int ?n) = off + lim - ?n"
    by (simp_all add: lo_def nat_diff_distrib' max_def)
  have tip: "?tips ! i = chain_of nb m (es @ c) ! (?n + i)" if "i < length c" for i using that by simp
  have out: "take lim (drop off es) @ drop lo (take hi c) = take lim (drop off (es @ c))"
  proof (cases "off \<le> ?n")
    case True
    then have "lo = 0" "off + lim - ?n = lim - (?n - off)" by (simp_all add: lo_def)
    with True show ?thesis by (simp add: hi_def min_def)
  next
    case False
    then have "off + lim - ?n - lo = lim" by (simp add: lo_def)
    with False show ?thesis by (simp add: hi_def lo_def drop_take min_def)
  qed
  have pos: "0 < length c" using assms(2) by simp
  have sel: "drop lo (take hi c) = [] \<longleftrightarrow> \<not> (off < ?n + length c \<and> ?n < off + lim)"
    using assms(1) pos by (simp only: lo_def hi_def drop_eq_Nil length_take) arith
  have before: "(if int off > int ?n \<and> int off \<le> int ?n + int (length ?tips)
       then Some (?tips ! nat (int off - int ?n - 1))
       else if 0 < off \<and> off \<le> ?n then Some (chain_of nb m es ! (off - 1)) else None)
     = (if 0 < off \<and> off \<le> length (es @ c) then Some (chain_of nb m (es @ c) ! (off - 1)) else None)"
  proof -
    have "nat (int off - int ?n - 1) = off - ?n - 1" by simp
    moreover have "?tips ! (off - ?n - 1) = chain_of nb m (es @ c) ! (off - 1)" if "?n < off" "off \<le> ?n + length c"
      using that tip [of "off - ?n - 1"] by simp
    moreover have "chain_of nb m (es @ c) ! (off - 1) = chain_of nb m es ! (off - 1)" if "0 < off" "off \<le> ?n"
      using that by (intro chain_of_nth_append) simp
    ultimately show ?thesis by auto
  qed
  have after: "(if drop lo (take hi c) = []
       then (if off < ?n then Some (chain_of nb m es ! (min (off + lim) ?n - 1)) else None)
       else Some (?tips ! (hi - 1)))
     = (if off < length (es @ c) then Some (chain_of nb m (es @ c) ! (min (off + lim) (length (es @ c)) - 1)) else None)"
  proof (cases "off < ?n + length c \<and> ?n < off + lim")
    case True
    then have "hi - 1 < length c" "?n + (hi - 1) = min (off + lim) (?n + length c) - 1"
      using pos unfolding hi_def by arith+
    with True sel tip [of "hi - 1"] show ?thesis by simp
  next
    case False
    show ?thesis
    proof (cases "off < ?n")
      case True
      then have "off + lim \<le> ?n" using False by auto
      with True assms(1) sel False chain_of_nth_append [of "off + lim - 1" es nb m c] show ?thesis by (simp add: min_def)
    qed (use False sel assms in auto)
  qed
  show ?thesis
    unfolding page_chunk_def page_of_def Let_def prod.case nat_eqs hi_def [symmetric] out before after by (rule refl)
qed

lemma pages_of_table:
  assumes "0 < lim" and "[] \<notin> set cs"
  shows "foldl (page_chunk (int off) (int lim)) (page_of nb m off lim es) (chunk_table nb m es cs)
     = page_of nb m off lim (es @ concat cs)"
  using assms(2)
proof (induction cs arbitrary: es)
  case (Cons c cs)
  then have "c \<noteq> []" by auto
  with Cons page_chunk_step [OF assms(1), of c off nb m es] show ?case by simp
qed simp

lemma chunk_table_ingested: "chunk_table nb (m\<lparr>mf_ingested_server_t := t\<rparr>) es cs = chunk_table nb m es cs"
  by (induction cs arbitrary: es) simp_all

lemma page_of_ingested: "page_of nb (m\<lparr>mf_ingested_server_t := t\<rparr>) off lim es = page_of nb m off lim es"
  unfolding page_of_def by (rule arg_cong2 [where f = Pair]) simp_all

lemma page_ends:
  assumes "es \<noteq> []" and "off \<le> length es" and "0 < lim"
  shows "(case (if off < length es then Some (chain_of nb m es ! (min (off + lim) (length es) - 1)) else None) of
          None \<Rightarrow> if 0 < off \<and> off \<le> length es then Some (chain_of nb m es ! (off - 1)) else None | Some t \<Rightarrow> Some t)
        = chain_nth (chain_of nb m es) (int (min (off + lim) (length es)) - 1)"
    and "(if 0 < off \<and> off \<le> length es then Some (chain_of nb m es ! (off - 1)) else None)
        = chain_nth (chain_of nb m es) (int off - 1)"
proof -
  have pos: "0 < length es" using assms(1) by simp
  show "(if 0 < off \<and> off \<le> length es then Some (chain_of nb m es ! (off - 1)) else None)
        = chain_nth (chain_of nb m es) (int off - 1)"
    using assms(2) by (auto simp: chain_nth_def nat_diff_distrib')
  show "(case (if off < length es then Some (chain_of nb m es ! (min (off + lim) (length es) - 1)) else None) of
          None \<Rightarrow> if 0 < off \<and> off \<le> length es then Some (chain_of nb m es ! (off - 1)) else None | Some t \<Rightarrow> Some t)
        = chain_nth (chain_of nb m es) (int (min (off + lim) (length es)) - 1)"
  proof (cases "off < length es")
    case True
    have "0 < min (off + lim) (length es)" using pos assms(3) by simp
    moreover have "nat (int (min (off + lim) (length es)) - 1) = min (off + lim) (length es) - 1" by simp
    ultimately show ?thesis using True unfolding chain_nth_def by simp
  next
    case False
    then have "off = length es" using assms(2) by simp
    then show ?thesis using pos by (simp add: chain_nth_def nat_diff_distrib')
  qed
qed

lemma page_as_inline:
  assumes "es \<noteq> []" and "off \<le> length es" and "0 < lim"
    and "computeEventHashChain nb es (mf_session_id (sr_manifest r)) (mf_format_version (sr_manifest r)) = Inr (chain_of nb m es)"
  shows "(let (out, before, after) = page_of nb m off lim es; upto = int off + int (length out)
        in Inr \<lparr>ep_events = out, ep_next_offset = (if upto < int (length es) then Some upto else None),
             ep_total_events = int (length es), ep_chain_tip_before = before,
             ep_chain_tip_after = (case after of Some t \<Rightarrow> Some t | None \<Rightarrow> before)\<rparr>)
     = eventPage nb st (r\<lparr>sr_chunked := False, sr_events := es\<rparr>) (int off) (int lim)"
proof -
  have upto: "int off + int (length (take lim (drop off es))) = int (min (off + lim) (length es))"
    using assms(2) by auto
  have "eventPage nb st (r\<lparr>sr_chunked := False, sr_events := es\<rparr>) (int off) (int lim) =
      (let out = take lim (drop off es); upto = int off + int (length out)
       in Inr \<lparr>ep_events = out, ep_next_offset = (if upto < int (length es) then Some upto else None),
             ep_total_events = int (length es), ep_chain_tip_before = chain_nth (chain_of nb m es) (int off - 1),
             ep_chain_tip_after = chain_nth (chain_of nb m es) (upto - 1)\<rparr>)"
    by (simp add: eventPage_def assms(4))
  then show ?thesis
    unfolding page_of_def Let_def prod.case upto page_ends(1) [OF assms(1-3)]
    unfolding page_ends(2) [OF assms(1-3)] by (rule sym)
qed

section \<open>Observation of an upload\<close>

lemma sort_checkpoints_sorted:
  assumes "clock_ok ck" and "session_ok s"
  shows "sort_checkpoints ck (os_checkpoints s) = os_checkpoints s"
proof -
  let ?cs = "os_checkpoints s"
  have strict: "sorted_wrt (<) (List.map cm_event_count ?cs)" using assms(2) by (simp add: session_ok_def)
  then have "distinct (List.map cm_event_count ?cs)" "sorted (List.map cm_event_count ?cs)"
    by (simp_all add: strict_sorted_iff)
  moreover have m: "mset (by_locale ck ?cs) = mset ?cs" using assms(1) by (simp add: clock_ok_def)
  moreover have "set (by_locale ck ?cs) = set ?cs" using mset_eq_setD [OF m] .
  ultimately have "sort_key cm_event_count (by_locale ck ?cs) = sort_key cm_event_count ?cs"
    by (intro sort_key_set_distinct_unique) (simp_all add: distinct_map)
  also have "\<dots> = ?cs" using \<open>sorted (List.map cm_event_count ?cs)\<close> by (rule sort_key_id_if_sorted)
  finally show ?thesis by (simp add: sort_checkpoints_def)
qed

lemma validate_exact:
  assumes "noble_ok nb" and "clock_ok ck" and "session_ok s" and "valid_log es" and "isUuid (mf_session_id m)"
    and "checkpoints_match nb m es (os_checkpoints s)"
  shows "validateRecordObservation nb ck \<lparr>wr_manifest = m, wr_events = es\<rparr> (os_id s) (os_checkpoints s)
     = Inr (observationFromCheckpoints ck (os_id s)
         (if cm_event_count (last (os_checkpoints s)) = int (length es) then Observed else Partial) (os_checkpoints s))"
proof -
  let ?cs = "os_checkpoints s" and ?chain = "chain_of nb m es"
  obtain c where "c \<in> set ?cs" using assms(6) by (cases ?cs) (auto simp: checkpoints_match_def)
  then have "es \<noteq> []" using assms(6) by (fastforce simp: checkpoints_match_def)
  then have chain: "computeEventHashChain nb es (mf_session_id m) (mf_format_version m) = Inr ?chain"
    using assms(4,5) by (simp add: computeEventHashChain_Inr_iff [OF assms(1)])
  have "check_commitments ?chain ?cs = Inr ()" using assms(6) by (simp add: check_commitments_Inr checkpoints_match_def)
  with assms(6) chain sort_checkpoints_sorted [OF assms(2,3)] show ?thesis
    by (simp add: validateRecordObservation_def checkpoints_match_def guard_def Let_def)
qed

text \<open>C27: Chunked and whole uploads are observed alike. When an upload in chunks that is bound to an observed session
  creates a record, be the session open or finalized for this record before, the session was found with its
  token, the observation that the stored record carries is the one that \<open>validateRecordObservation\<close> computes from
  the manifest and the whole log, which therefore does not refuse them, and the session is finalized
  for the record in the state of this observation. (A store keeps its sessions in order of their checkpoints
  at all times.)\<close>

theorem chunked_observation_agrees:
  assumes "noble_ok nb" and "clock_ok (op_now op)" and "sessions_ok (rst_sessions st)" and "map_of (cs_uploads (rst_chunked st)) k = None"
    and "publish_in_chunks nb op st k m (Some (BoundUpload sid token)) chunks = Inr (st', reply)" and "rp_created reply"
  shows "\<exists>r s. findByShortSignatureOrHash st' (mf_record_hash m) = Some r \<and> map_of (rst_sessions st) sid = Some s \<and> os_token_hash s = token
     \<and> validateRecordObservation nb (op_now op) \<lparr>wr_manifest = m, wr_events = concat chunks\<rparr> (os_id s) (os_checkpoints s) = Inr (sr_observation r)
     \<and> map_of (rst_sessions st') sid = Some (if os_id s = [] then s
         else s\<lparr>os_finalized := Some (mf_record_hash m), os_state := Some (ro_state (sr_observation r))\<rparr>)"
proof -
  let ?es = "concat chunks" and ?obs = "Some (BoundUpload sid token)"
  let ?u0 = "begun op st k m ?obs"
  from assms(5) obtain s1 s2 where
    b: "api_begin op st k m ?obs = Inr s1" and
    r: "run_steps (send_chunk nb op k) (fst s1, 0) chunks = Inr s2" and
    f: "api_finalize nb op (fst s2) k = Inr (st', reply)"
    by (auto simp: publish_in_chunks_def andThen_Inr_iff)
  have may: "may_begin op st k m" using b api_begin_fresh(1) [OF assms(4)] by blast
  then have "validateManifest (op_parses op) (manifest_json m) = []" and k: "isUuid k" by (simp_all add: may_begin_def)
  then have sid: "isUuid (mf_session_id m)" and hid: "is_hash_id (mf_record_hash m)"
    using validateManifest_ok by (auto simp: manifest_ok_def is_b3_hash_def is_hash_id_def)
  note b' = api_begin_fresh(2) [OF assms(4) b, of nb]
  then have h1: "upload_holds nb (op_idle op) ?u0 (rst_chunked (fst s1)) k 0 []" by blast
  obtain bytes where h2: "upload_holds nb (op_idle op) ?u0 (rst_chunked (fst s2)) k bytes chunks" and same: "same_records (fst s1) (fst s2)"
    using send_chunks_iff(2) [OF assms(1) _ _ k h1, of op chunks s2] sid r by (auto simp: truthy_def)
  have same0: "same_records st (fst s2)" using same_records_trans [OF _ same] b' by blast
  then have ss: "rst_sessions (fst s2) = rst_sessions st" by (simp add: same_records_def)
  have hid0: "is_hash_id (mf_record_hash (us_manifest ?u0))" using hid by simp
  from finalize_created [OF h2 hid0 f assms(6)] obtain rec where found: "findByShortSignatureOrHash st' (mf_record_hash m) = Some rec" by auto
  note fin = finalize_observed [OF h2 hid0 f assms(6), of rec]
  have obs: "observable nb st m ?es ?obs" "sr_observation rec = observation_stored (op_now op) st ?es ?obs"
    using fin(1,2) found observable_same [OF same0] by simp_all
  then obtain s where s: "map_of (rst_sessions st) sid = Some s" "os_token_hash s = token"
    and match: "checkpoints_match nb m ?es (os_checkpoints s)" by (auto simp: observable_def split: option.splits)
  have "session_ok s" using assms(3) s(1) by (simp add: sessions_ok_def)
  moreover have "valid_log ?es" using h2 by (simp add: upload_holds_def log_fits_def)
  ultimately have "validateRecordObservation nb (op_now op) \<lparr>wr_manifest = m, wr_events = ?es\<rparr> (os_id s) (os_checkpoints s) = Inr (sr_observation rec)"
    using validate_exact [OF assms(1,2) _ _ sid match] obs(2) s(1) by (simp add: observation_stored_def)
  moreover have "ro_session (sr_observation rec) = Some (os_id s)"
    using obs(2) s(1) by (simp add: observation_stored_def observationFromCheckpoints_def Let_def)
  then have "map_of (rst_sessions st') sid = Some (if os_id s = [] then s
      else s\<lparr>os_finalized := Some (mf_record_hash m), os_state := Some (ro_state (sr_observation rec))\<rparr>)"
    using fin(3) found s(1) by (simp add: bound_session_def ss truthy_def update_conv')
  ultimately show ?thesis using found s by blast
qed

section \<open>Reading back what was uploaded\<close>

definition owned :: "jsstring \<Rightarrow> upload_state \<Rightarrow> bool" where
  "owned h u \<longleftrightarrow> us_published_owner u \<and> us_finalized u = Some h"

definition none_owned :: "record_store \<Rightarrow> jsstring \<Rightarrow> bool" where
  "none_owned st h \<longleftrightarrow> (\<forall>u \<in> snd ` set (cs_uploads (rst_chunked st)). \<not> owned h u)"

lemma find_update:
  assumes "\<forall>w \<in> snd ` set al. \<not> P w" and "P u"
  shows "List.find P (List.map snd (AList.update k u al)) = Some u"
  using assms by (induction al) auto

lemma none_owned_update:
  assumes "none_owned st h" and "\<not> owned h u" and "cs_uploads cs = AList.update k u (cs_uploads (rst_chunked st))"
  shows "none_owned (set_chunked cs st) h"
proof -
  have "w = u \<or> w \<in> snd ` set (cs_uploads (rst_chunked st))" if "w \<in> snd ` set (cs_uploads cs)" for w
    using that snd_update_subset [of k u "cs_uploads (rst_chunked st)"] unfolding assms(3) by blast
  with assms(1,2) show ?thesis unfolding none_owned_def set_chunked_def by force
qed

lemma append_none_owned:
  assumes "none_owned st h" and "send_chunk nb op k (st, at) ds = Inr s" and "map_of (cs_uploads (rst_chunked st)) k = Some u"
    and "\<not> us_published_owner u"
  shows "none_owned (fst s) h \<and> (\<exists>u'. map_of (cs_uploads (rst_chunked (fst s))) k = Some u' \<and> \<not> us_published_owner u')"
proof -
  from assms(2) obtain cs u' where a: "store_append (rst_chunked st) k at ds (api_transition nb op ds) = Inr (cs, u')"
    and s: "fst s = set_chunked cs st"
    by (auto simp: send_chunk_def api_append_def andThen_Inr_iff)
  have "cs = rst_chunked st \<or> (cs_uploads cs = AList.update k u' (cs_uploads (rst_chunked st)) \<and>
      (\<exists>ct. api_transition nb op ds u = Inr ct \<and> u' = ct_state ct))"
    using a assms(3) by (auto simp: store_append_def guard_Inr_iff andThen_Inr_iff split: option.splits)
  moreover have "\<not> us_published_owner (ct_state ct)" if "api_transition nb op ds u = Inr ct" for ct
  proof -
    have step: "us_published_owner (pg_state pg') = us_published_owner (pg_state pg)" if "api_event nb pg e = Inr pg'" for pg pg' e
      using that by (auto simp: api_event_def Let_def guard_Inr_iff split: sum.splits)
    have "us_published_owner (pg_state pg') = us_published_owner (pg_state pg)"
      if "run_steps (api_event nb) pg ds = Inr pg'" for pg pg'
      using that by (induction ds arbitrary: pg) (auto split: sum.splits dest: step)
    with that assms(4) show ?thesis by (auto simp: api_transition_def guard_Inr_iff andThen_Inr_iff)
  qed
  ultimately consider "cs = rst_chunked st"
    | "cs_uploads cs = AList.update k u' (cs_uploads (rst_chunked st))" "\<not> us_published_owner u'" by blast
  then show ?thesis
  proof cases
    case 1
    then show ?thesis using assms(1,3,4) by (simp add: s set_chunked_def)
  next
    case 2
    then have "none_owned (set_chunked cs st) h" by (intro none_owned_update [OF assms(1) _ 2(1)]) (simp add: owned_def)
    with 2 show ?thesis by (simp add: s set_chunked_def update_conv')
  qed
qed

lemma sends_none_owned:
  "run_steps (send_chunk nb op k) (st, at) chunks = Inr s \<Longrightarrow> none_owned st h \<Longrightarrow>
     map_of (cs_uploads (rst_chunked st)) k = Some u \<Longrightarrow> \<not> us_published_owner u \<Longrightarrow> none_owned (fst s) h"
proof (induction chunks arbitrary: st at u)
  case (Cons c cs)
  then obtain s1 where s1: "send_chunk nb op k (st, at) c = Inr s1" "run_steps (send_chunk nb op k) s1 cs = Inr s"
    by (auto split: sum.splits)
  from append_none_owned [OF Cons.prems(2) s1(1) Cons.prems(3,4)] obtain u' where
    "none_owned (fst s1) h" "map_of (cs_uploads (rst_chunked (fst s1))) k = Some u'" "\<not> us_published_owner u'" by blast
  with Cons.IH [of "fst s1" "snd s1" u'] s1(2) show ?case by simp
qed auto

lemma finalize_uploads:
  assumes "upload_holds nb idle u0 (rst_chunked st) k bytes chunks"
    and "api_finalize nb op st k = Inr (st', reply)" and "rp_created reply"
  shows "cs_uploads (rst_chunked st') = AList.update k ((uploaded nb idle u0 bytes (concat chunks))
       \<lparr>us_finalized := Some (mf_record_hash (us_manifest u0)), us_published_owner := True\<rparr>) (cs_uploads (rst_chunked st))
     \<and> cs_chunks (rst_chunked st') = cs_chunks (rst_chunked st)"
proof -
  have u: "map_of (cs_uploads (rst_chunked st)) k = Some (uploaded nb idle u0 bytes (concat chunks))"
    using assms(1) by (simp add: upload_holds_def)
  from assms(2,3) u obtain signature cs p where
    "finalize_upload (op_rank op) (op_now op) st k (api_derive nb op signature) = Inr (cs, p)" and
    "st' = set_chunked cs st" and "pb_created p"
    by (auto simp: api_finalize_def guard_Inr_iff andThen_Inr_iff split: sum.splits)
  with u show ?thesis
    by (auto simp: finalize_upload_def store_finalize_def Let_def set_chunked_def andThen_Inr_iff split: option.splits)
qed

text \<open>After a publication in chunks the upload that owns the record is found, with the table of its chunks.\<close>

lemma published_upload:
  assumes "noble_ok nb" and "map_of (cs_uploads (rst_chunked st)) k = None" and "none_owned st (mf_record_hash m)"
    and "publish_in_chunks nb op st k m obs chunks = Inr (st', reply)" and "rp_created reply"
  shows "\<exists>rec u. findByShortSignatureOrHash st' (mf_record_hash m) = Some rec
     \<and> sr_manifest rec = m\<lparr>mf_ingested_server_t := Some (now_iso (op_now op))\<rparr> \<and> sr_chunked rec
     \<and> List.find (\<lambda>u. us_published_owner u \<and> us_finalized u = Some (mf_record_hash m) \<and> us_next_seq u = mf_event_count m)
         (List.map snd (cs_uploads (rst_chunked st'))) = Some u
     \<and> us_upload_id u = k \<and> us_next_seq u = int (length (concat chunks)) \<and> mf_event_count m = int (length (concat chunks))
     \<and> get_or [] (cs_chunks (rst_chunked st')) k = chunk_table nb m [] chunks \<and> [] \<notin> set chunks \<and> concat chunks \<noteq> []
     \<and> computeEventHashChain nb (concat chunks) (mf_session_id m) (mf_format_version m) = Inr (chain_of nb m (concat chunks))"
proof -
  let ?es = "concat chunks" and ?u0 = "begun op st k m obs" and ?h = "mf_record_hash m"
  from assms(4) obtain s1 s2 where
    b: "api_begin op st k m obs = Inr s1" and
    r: "run_steps (send_chunk nb op k) (fst s1, 0) chunks = Inr s2" and
    f: "api_finalize nb op (fst s2) k = Inr (st', reply)"
    by (auto simp: publish_in_chunks_def andThen_Inr_iff)
  have may: "may_begin op st k m" using b api_begin_fresh(1) [OF assms(2)] by blast
  note mok = validateManifest_ok [of "op_parses op" m]
  have sid: "isUuid (mf_session_id m)" and hid: "is_hash_id ?h" and k: "isUuid k"
    using mok may by (auto simp: may_begin_def manifest_ok_def is_b3_hash_def is_hash_id_def)
  have h1: "upload_holds nb (op_idle op) ?u0 (rst_chunked (fst s1)) k 0 []"
    using api_begin_fresh(2) [OF assms(2) b] by blast
  obtain bytes where h2: "upload_holds nb (op_idle op) ?u0 (rst_chunked (fst s2)) k bytes chunks"
    using send_chunks_iff(2) [OF assms(1) _ _ k h1, of op chunks s2] sid r by (auto simp: truthy_def)
  from finalize_created [OF h2 _ f assms(5)] hid obtain rec signature d where
    rec: "findByShortSignatureOrHash st' ?h = Some rec" "sr_manifest rec = m\<lparr>mf_ingested_server_t := Some (now_iso (op_now op))\<rparr>"
      "sr_chunked rec" and
    d: "api_derive nb op signature (uploaded nb (op_idle op) ?u0 bytes ?es)
          (percentileValues (op_rank op) (foldl count_delay [] (delays_of ?es))) = Inr d"
    by auto
  have es: "?es \<noteq> []" "mf_event_count m = int (length ?es)"
    using d tip_after_None [of nb "mf_session_id m" "mf_format_version m" ?es]
    by (auto simp: api_derive_def Let_def truthy_def guard_Inr_iff)
  let ?final = "(uploaded nb (op_idle op) ?u0 bytes ?es)\<lparr>us_finalized := Some ?h, us_published_owner := True\<rparr>"
  have "none_owned (set_chunked (rst_chunked (fst s1)) st) ?h"
    using api_begin_fresh(2) [OF assms(2) b] by (intro none_owned_update [OF assms(3), of ?u0 _ k]) (auto simp: owned_def)
  then have "none_owned (fst s1) ?h" by (simp add: none_owned_def set_chunked_def)
  then have "none_owned (fst s2) ?h"
    using sends_none_owned [OF r] h1 by (auto simp: upload_holds_def)
  then have old: "\<forall>w \<in> snd ` set (cs_uploads (rst_chunked (fst s2))).
      \<not> (us_published_owner w \<and> us_finalized w = Some ?h \<and> us_next_seq w = mf_event_count m)"
    unfolding none_owned_def owned_def by blast
  have ups: "cs_uploads (rst_chunked st') = AList.update k ?final (cs_uploads (rst_chunked (fst s2)))"
    and chs: "cs_chunks (rst_chunked st') = cs_chunks (rst_chunked (fst s2))"
    using finalize_uploads [OF h2 f assms(5)] by simp_all
  have found: "List.find (\<lambda>u. us_published_owner u \<and> us_finalized u = Some ?h \<and> us_next_seq u = mf_event_count m)
      (List.map snd (cs_uploads (rst_chunked st'))) = Some ?final"
    unfolding ups by (rule find_update [OF old]) (simp add: es)
  have table: "get_or [] (cs_chunks (rst_chunked st')) k = chunk_table nb m [] chunks"
    using h2 by (simp add: chs get_or_def upload_holds_def chunk_table_ingested)
  have chain: "computeEventHashChain nb ?es (mf_session_id m) (mf_format_version m) = Inr (chain_of nb m ?es)"
    using h2 es(1) sid by (simp add: computeEventHashChain_Inr_iff [OF assms(1)] upload_holds_def log_fits_def)
  show ?thesis
    using rec found table chain es h2
    by (intro exI [of _ rec] exI [of _ ?final]) (simp add: upload_holds_def)
qed

lemma chunked_page_inline:
  assumes "noble_ok nb" and "map_of (cs_uploads (rst_chunked st)) k = None" and "none_owned st (mf_record_hash m)"
    and "publish_in_chunks nb op st k m obs chunks = Inr (st', reply)" and "rp_created reply"
    and "off \<le> length (concat chunks)" and "0 < lim" and "lim \<le> MAX_EVENT_CHUNK"
  shows "\<exists>r. findByShortSignatureOrHash st' (mf_record_hash m) = Some r
     \<and> sr_manifest r = m\<lparr>mf_ingested_server_t := Some (now_iso (op_now op))\<rparr>
     \<and> mf_event_count m = int (length (concat chunks))
     \<and> computeEventHashChain nb (concat chunks) (mf_session_id m) (mf_format_version m) = Inr (chain_of nb m (concat chunks))
     \<and> api_page nb st' (mf_record_hash m) (int off) (int lim)
         = eventPage nb st' (r\<lparr>sr_chunked := False, sr_events := concat chunks\<rparr>) (int off) (int lim)"
proof -
  let ?es = "concat chunks"
  from published_upload [OF assms(1-5)] obtain rec u where
    rec: "findByShortSignatureOrHash st' (mf_record_hash m) = Some rec"
      "sr_manifest rec = m\<lparr>mf_ingested_server_t := Some (now_iso (op_now op))\<rparr>" "sr_chunked rec"
    and found: "List.find (\<lambda>u. us_published_owner u \<and> us_finalized u = Some (mf_record_hash m) \<and> us_next_seq u = mf_event_count m)
         (List.map snd (cs_uploads (rst_chunked st'))) = Some u" "us_upload_id u = k" "us_next_seq u = int (length ?es)"
    and count: "mf_event_count m = int (length ?es)"
    and table: "get_or [] (cs_chunks (rst_chunked st')) k = chunk_table nb m [] chunks" "[] \<notin> set chunks" and es: "?es \<noteq> []"
    and chain: "computeEventHashChain nb ?es (mf_session_id m) (mf_format_version m) = Inr (chain_of nb m ?es)"
    by blast
  have "page_of nb m off lim [] = ([], None, None)" by (cases off) (simp_all add: page_of_def)
  then have page: "foldl (page_chunk (int off) (int lim)) ([], None, None) (chunk_table nb m [] chunks) = page_of nb m off lim ?es"
    using pages_of_table [OF assms(7) table(2), of off nb m "[]"] by simp
  have read: "store_page (rst_chunked st') rec (int off) (int lim) = (let (out, before, after) = page_of nb m off lim ?es;
         upto = int off + int (length out)
      in Inr \<lparr>ep_events = out, ep_next_offset = (if upto < int (length ?es) then Some upto else None),
           ep_total_events = int (length ?es), ep_chain_tip_before = before,
           ep_chain_tip_after = (case after of Some t \<Rightarrow> Some t | None \<Rightarrow> before)\<rparr>)"
    using found by (simp add: store_page_def rec(2) table(1) page)
  have chain': "computeEventHashChain nb ?es (mf_session_id (sr_manifest rec)) (mf_format_version (sr_manifest rec))
      = Inr (chain_of nb m ?es)" using chain by (simp add: rec(2))
  have "store_page (rst_chunked st') rec (int off) (int lim)
      = eventPage nb st' (rec\<lparr>sr_chunked := False, sr_events := ?es\<rparr>) (int off) (int lim)"
    unfolding read by (rule page_as_inline [OF es assms(6,7) chain'])
  then have "api_page nb st' (mf_record_hash m) (int off) (int lim)
      = eventPage nb st' (rec\<lparr>sr_chunked := False, sr_events := ?es\<rparr>) (int off) (int lim)"
    using rec assms(6-8) count by (simp add: api_page_def guard_def eventPage_def)
  with rec(1,2) count chain show ?thesis by blast
qed

text \<open>A record published in chunks reads back exactly. Any page of it, in the limits of the
  interface, is the page that the whole log as one inline record would give: the same events, next
  offset and total, and the same chain tips before and after.\<close>

theorem chunked_pages_exact:
  assumes "noble_ok nb" and "map_of (cs_uploads (rst_chunked st)) k = None" and "none_owned st (mf_record_hash m)"
    and "publish_in_chunks nb op st k m obs chunks = Inr (st', reply)" and "rp_created reply"
    and "off \<le> length (concat chunks)" and "0 < lim" and "lim \<le> MAX_EVENT_CHUNK"
  shows "\<exists>r. findByShortSignatureOrHash st' (mf_record_hash m) = Some r \<and>
     api_page nb st' (mf_record_hash m) (int off) (int lim)
       = eventPage nb st' (r\<lparr>sr_chunked := False, sr_events := concat chunks\<rparr>) (int off) (int lim)"
  using chunked_page_inline [OF assms] by blast

lemma chunked_pages_exact_witness:
  "\<exists>st' r. findByShortSignatureOrHash st' sample_hash = Some r \<and>
     api_page sample_noble st' sample_hash (int 1) (int 5)
       = eventPage sample_noble st' (r\<lparr>sr_chunked := False, sr_events := [sample_event, sample_paste]\<rparr>) (int 1) (int 5)"
proof -
  obtain st' reply where c: "publish_in_chunks sample_noble sample_api empty_store sample_session (wr_manifest sample_record) None
      sample_chunks = Inr (st', reply)" "rp_created reply" using sample_published by blast
  have none: "none_owned empty_store (mf_record_hash (wr_manifest sample_record))" by (simp add: none_owned_def empty_store_def)
  have h: "mf_record_hash (wr_manifest sample_record) = sample_hash" by (simp add: sample_record_def)
  from chunked_pages_exact [OF sample_noble_ok sample_publication(1) none c, of 1 5] show ?thesis
    by (simp add: h MAX_EVENT_CHUNK_def) blast
qed

definition sample_bound_session :: observed_session where
  "sample_bound_session = \<lparr>os_id = js ''s'', os_token_hash = js ''h'', os_finalized = None, os_state = None,
     os_created_at = js ''t'', os_finalized_at = None, os_checkpoints = [sample_commitment]\<rparr>"

definition sample_observing_store :: record_store where
  "sample_observing_store = set_chunked ((rst_chunked empty_store)\<lparr>cs_sessions := [(js ''s'', sample_bound_session)]\<rparr>) empty_store"

lemma sample_observing_published:
  "\<exists>st' reply. publish_in_chunks sample_noble sample_api sample_observing_store sample_session (wr_manifest sample_record)
       (Some (BoundUpload (js ''s'') (js ''h''))) sample_chunks = Inr (st', reply) \<and> rp_created reply"
proof -
  let ?obs = "Some (BoundUpload (js ''s'') (js ''h''))" and ?m = "wr_manifest sample_record" and ?st = sample_observing_store
  note p = sample_publication
  have same: "rst_by_hash ?st = rst_by_hash empty_store" "rst_by_short ?st = rst_by_short empty_store"
    "cs_completed (rst_chunked ?st) = cs_completed (rst_chunked empty_store)"
    and fresh: "map_of (cs_uploads (rst_chunked ?st)) sample_session = None"
    and ss: "rst_sessions ?st = [(js ''s'', sample_bound_session)]"
    by (simp_all add: sample_observing_store_def set_chunked_def empty_store_def)
  have found: "findCompleted (rst_chunked ?st) = findCompleted (rst_chunked empty_store)" by (rule ext) (simp only: findCompleted_def same)
  have found2: "findByRecordHash ?st = findByRecordHash empty_store" by (rule ext) (simp only: findByRecordHash_def same found)
  have look: "findByShortSignature ?st = findByShortSignature empty_store"
    by (rule ext) (simp only: findByShortSignature_def same found found2)
  have no_parent: "mf_parent_record ?m = None" by (simp add: sample_record_def)
  then have start: "start_of ?st ?m = start_of empty_store ?m" by (simp add: start_of_def truthy_def)
  have may: "may_begin sample_api ?st sample_session ?m" using p(2) no_parent by (simp add: may_begin_def truthy_def)
  have chunks: "chunks_accepted sample_api (begun sample_api ?st sample_session ?m ?obs) 0 [] sample_chunks"
    using p(4) by (simp add: chunk_accepted_def start)
  have hash: "unknown_hash ?st (mf_record_hash ?m)"
    using p(6) unfolding unknown_hash_def findByShortSignatureOrHash_def found found2 look .
  from p(3,5) sample_generated obtain res stats signals signature where
    v: "verifyRecord (op_parses sample_api) sample_noble \<lparr>wr_manifest = ?m, wr_events = concat sample_chunks\<rparr> = Inr res" "vr_valid res"
    and d: "published_data sample_api (start_of ?st ?m) ?m (concat sample_chunks) = Inr (stats, signals)" "assertStats stats = Inr ()"
    and g: "generateShortSignature sample_noble (findByShortSignature ?st) (mf_record_hash ?m) (op_initial_length sample_api) = Inr signature"
    unfolding start look by blast
  have "checkpoints_match sample_noble ?m (concat sample_chunks) [sample_commitment]"
    by (simp add: checkpoints_match_def sample_commitment_def sample_record_def Let_def)
  then have "observable sample_noble ?st ?m (concat sample_chunks) ?obs"
    by (simp add: observable_def ss sample_bound_session_def truthy_def)
  from publish_complete [OF sample_noble_ok p(7) fresh may v chunks d hash g this] show ?thesis .
qed

lemma chunked_observation_agrees_witness:
  "\<exists>st' reply r. publish_in_chunks sample_noble sample_api sample_observing_store sample_session (wr_manifest sample_record)
       (Some (BoundUpload (js ''s'') (js ''h''))) sample_chunks = Inr (st', reply) \<and> rp_created reply
     \<and> findByShortSignatureOrHash st' sample_hash = Some r
     \<and> validateRecordObservation sample_noble sample_clock sample_record (js ''s'') [sample_commitment] = Inr (sr_observation r)"
proof -
  from sample_observing_published obtain st' reply where
    c: "publish_in_chunks sample_noble sample_api sample_observing_store sample_session (wr_manifest sample_record)
       (Some (BoundUpload (js ''s'') (js ''h''))) sample_chunks = Inr (st', reply)" "rp_created reply" by blast
  have ck: "clock_ok (op_now sample_api)" by (simp add: clock_ok_def sample_api_def sample_clock_def)
  have ss: "rst_sessions sample_observing_store = [(js ''s'', sample_bound_session)]"
    and fresh: "map_of (cs_uploads (rst_chunked sample_observing_store)) sample_session = None"
    by (simp_all add: sample_observing_store_def set_chunked_def empty_store_def)
  then have ok: "sessions_ok (rst_sessions sample_observing_store)"
    by (simp add: sessions_ok_def session_ok_def sample_bound_session_def sample_commitment_def)
  have r: "\<lparr>wr_manifest = wr_manifest sample_record, wr_events = concat sample_chunks\<rparr> = sample_record"
    "mf_record_hash (wr_manifest sample_record) = sample_hash" "op_now sample_api = sample_clock"
    by (simp_all add: sample_record_def sample_api_def)
  from chunked_observation_agrees [OF sample_noble_ok ck ok fresh c] c show ?thesis
    unfolding r ss by (auto simp: sample_bound_session_def)
qed

end
