(* ===== verification/Paged_Reader.thy ===== *)
theory Paged_Reader
  imports Complex_Main Stream_Verifier Chunked_Pages
begin

text \<open>
  How the web page reads a published record (\<open>apps/web/src/stream-record.ts\<close>): page by page from a server it
  does not trust, verifying the events as they come and keeping an overview of fixed size. What the server
  answers is an arbitrary function of the offset and the limit; the quotient of a time and the duration, a
  double in the source, is a function \<open>share\<close>. Shown: a record that the reader finds valid is valid with
  exactly the events it was given, and a record published in chunks is found valid.
\<close>

section \<open>The reader\<close>

definition EVENT_PAGE_SIZE :: int where "EVENT_PAGE_SIZE = 4096"
definition OVERVIEW_BINS :: nat where "OVERVIEW_BINS = 128"

record overview_bin =
  ob_start :: rat
  ob_end :: rat
  ob_count :: nat
  ob_minimum :: "int option"
  ob_maximum :: "int option"

record record_overview =
  ov_bins :: "overview_bin list"
  ov_first_t :: "int option"
  ov_last_t :: "int option"
  ov_known :: nat

record reader =
  rd_verifier :: verifier
  rd_events :: "event_log option"
  rd_overview :: record_overview
  rd_length :: "int option"

datatype reader_error =
    PageFailed jsstring
  | InvalidPage
  | NotContinued
  | TipMismatch
  | CursorInconsistent
  | NoBin
  | StreamFault stream_error

definition read_duration :: "manifest \<Rightarrow> int" where
  "read_duration m = max 1 (mf_duration_ms m)"

definition new_overview :: "int \<Rightarrow> record_overview" where
  "new_overview duration = \<lparr>ov_bins = List.map (\<lambda>i. \<lparr>ob_start = of_int duration * of_nat i / of_nat OVERVIEW_BINS,
       ob_end = of_int duration * of_nat (i + 1) / of_nat OVERVIEW_BINS, ob_count = 0, ob_minimum = None, ob_maximum = None\<rparr>)
       [0..<OVERVIEW_BINS],
     ov_first_t = None, ov_last_t = None, ov_known = 0\<rparr>"

definition bin_index :: "(int \<Rightarrow> int \<Rightarrow> rat) \<Rightarrow> int \<Rightarrow> mutation \<Rightarrow> int" where
  "bin_index share duration e = min (int OVERVIEW_BINS - 1) \<lfloor>share (ev_t e) duration * of_nat OVERVIEW_BINS\<rfloor>"

definition length_after :: "int option \<Rightarrow> mutation \<Rightarrow> int option" where
  "length_after len e = (case (len, ev_pos e, ev_del_len e, ev_ins_len e) of
      (Some n, Some p, Some d, Some i) \<Rightarrow> if p + d \<le> n then Some (n + (i - d)) else None
    | _ \<Rightarrow> None)"

definition note_bin :: "int option \<Rightarrow> overview_bin \<Rightarrow> overview_bin" where
  "note_bin len b = (case len of
      None \<Rightarrow> b\<lparr>ob_count := ob_count b + 1\<rparr>
    | Some n \<Rightarrow> b\<lparr>ob_count := ob_count b + 1, ob_minimum := Some (min (default_to n (ob_minimum b)) n),
                  ob_maximum := Some (max (default_to n (ob_maximum b)) n)\<rparr>)"

definition note_event :: "nat \<Rightarrow> mutation \<Rightarrow> int option \<Rightarrow> record_overview \<Rightarrow> record_overview" where
  "note_event bin e len ov = ov\<lparr>
     ov_bins := (ov_bins ov)[bin := note_bin len (ov_bins ov ! bin)],
     ov_first_t := Some (default_to (ev_t e) (ov_first_t ov)), ov_last_t := Some (ev_t e),
     ov_known := (if len = None then ov_known ov else ov_known ov + 1)\<rparr>"

text \<open>An index below the bins finds no bin, which throws.\<close>

definition read_event ::
  "noble \<Rightarrow> (int \<Rightarrow> int \<Rightarrow> rat) \<Rightarrow> int \<Rightarrow> reader \<Rightarrow> mutation \<Rightarrow> reader_error + reader" where
  "read_event nb share duration rd e = (case append_step nb (rd_verifier rd) e of
      Inl x \<Rightarrow> Inl (StreamFault x)
    | Inr v \<Rightarrow>
        (let bin = bin_index share duration e; len = length_after (rd_length rd) e in
         if bin < 0 then Inl NoBin
         else Inr \<lparr>rd_verifier = v, rd_events = map_option (\<lambda>es. es @ [e]) (rd_events rd),
                   rd_overview = note_event (nat bin) e len (rd_overview rd), rd_length = len\<rparr>))"

lemma read_event_Inr_iff:
  "read_event nb share duration rd e = Inr rd' \<longleftrightarrow> (\<exists>v. append_step nb (rd_verifier rd) e = Inr v \<and> 0 \<le> bin_index share duration e
     \<and> rd' = \<lparr>rd_verifier = v, rd_events = map_option (\<lambda>es. es @ [e]) (rd_events rd),
         rd_overview = note_event (nat (bin_index share duration e)) e (length_after (rd_length rd) e) (rd_overview rd),
         rd_length = length_after (rd_length rd) e\<rparr>)"
  by (auto simp: read_event_def Let_def not_less split: sum.splits)

lemma append_step_count: "append_step nb v e = Inr v' \<Longrightarrow> vf_count v' = vf_count v + 1"
  by (auto simp: append_step_def append_event_def split: prod.splits option.splits if_splits sum.splits)

lemma read_count:
  "run_steps (read_event nb share duration) rd es = Inr rd' \<Longrightarrow> vf_count (rd_verifier rd') = vf_count (rd_verifier rd) + length es"
proof (induction es arbitrary: rd)
  case (Cons e es)
  then obtain rd1 where one: "read_event nb share duration rd e = Inr rd1" and rest: "run_steps (read_event nb share duration) rd1 es = Inr rd'"
    by (auto split: sum.splits)
  from one have "vf_count (rd_verifier rd1) = vf_count (rd_verifier rd) + 1" by (auto simp: read_event_Inr_iff append_step_count)
  with Cons.IH [OF rest] show ?case by simp
qed simp

function read_pages ::
  "noble \<Rightarrow> (int \<Rightarrow> int \<Rightarrow> rat) \<Rightarrow> manifest \<Rightarrow> (int \<Rightarrow> int \<Rightarrow> jsstring + event_page) \<Rightarrow> reader \<Rightarrow> reader_error + reader" where
  "read_pages nb share m readPage rd =
     (if int (vf_count (rd_verifier rd)) < mf_event_count m
      then (case readPage (int (vf_count (rd_verifier rd))) EVENT_PAGE_SIZE of
          Inl x \<Rightarrow> Inl (PageFailed x)
        | Inr page \<Rightarrow>
            if ep_events page = [] \<or> int (length (ep_events page)) > EVENT_PAGE_SIZE \<or> ep_total_events page \<noteq> mf_event_count m
            then Inl InvalidPage
            else if ep_chain_tip_before page \<noteq> vf_tip (rd_verifier rd) then Inl NotContinued
            else (case run_steps (read_event nb share (read_duration m)) rd (ep_events page) of
                Inl x \<Rightarrow> Inl x
              | Inr rd' \<Rightarrow>
                  if ep_chain_tip_after page \<noteq> vf_tip (rd_verifier rd') then Inl TipMismatch
                  else if ep_next_offset page \<noteq>
                      (if int (vf_count (rd_verifier rd')) = mf_event_count m then None else Some (int (vf_count (rd_verifier rd'))))
                  then Inl CursorInconsistent
                  else read_pages nb share m readPage rd'))
      else Inr rd)"
  by pat_completeness auto
termination
proof (relation "measure (\<lambda>(nb, share, m, readPage, rd). nat (mf_event_count m - int (vf_count (rd_verifier rd))))")
  fix nb :: noble and share m and readPage :: "int \<Rightarrow> int \<Rightarrow> jsstring + event_page" and rd page and rd' :: reader
  assume "int (vf_count (rd_verifier rd)) < mf_event_count m"
    and "\<not> (ep_events page = [] \<or> int (length (ep_events page)) > EVENT_PAGE_SIZE \<or> ep_total_events page \<noteq> mf_event_count m)"
    and "run_steps (read_event nb share (read_duration m)) rd (ep_events page) = Inr rd'"
  then show "((nb, share, m, readPage, rd'), (nb, share, m, readPage, rd))
      \<in> measure (\<lambda>(nb, share, m, readPage, rd). nat (mf_event_count m - int (vf_count (rd_verifier rd))))"
    using read_count [of nb share "read_duration m" rd "ep_events page" rd'] by auto
qed simp

declare read_pages.simps [simp del]

definition new_reader :: "manifest \<Rightarrow> int option \<Rightarrow> bool \<Rightarrow> verifier \<Rightarrow> reader" where
  "new_reader m start keepEvents v = \<lparr>rd_verifier = v, rd_events = (if keepEvents then Some [] else None),
     rd_overview = new_overview (read_duration m), rd_length = start\<rparr>"

definition verifyPagedRecord ::
  "(jsstring \<Rightarrow> bool) \<Rightarrow> noble \<Rightarrow> (int \<Rightarrow> int \<Rightarrow> rat) \<Rightarrow> manifest \<Rightarrow> (int \<Rightarrow> int \<Rightarrow> jsstring + event_page) \<Rightarrow> int option \<Rightarrow> bool \<Rightarrow>
     reader_error + verification_result \<times> record_overview \<times> event_log option" where
  "verifyPagedRecord parses nb share m readPage start keepEvents =
     (case new_verifier parses m of
        Inl x \<Rightarrow> Inl (StreamFault x)
      | Inr v \<Rightarrow> andThen (read_pages nb share m readPage (new_reader m start keepEvents v)) (\<lambda>rd.
          case finish_verifier nb (rd_verifier rd) of
            Inl x \<Rightarrow> Inl (StreamFault (Hashing x))
          | Inr res \<Rightarrow> Inr (res, rd_overview rd, rd_events rd)))"

section \<open>What was read\<close>

lemma read_pages_reached:
  fixes readPage :: "int \<Rightarrow> int \<Rightarrow> jsstring + event_page"
  assumes "read_pages nb share m readPage rd = Inr rd'"
    and "run_steps (read_event nb share (read_duration m)) rd0 es = Inr rd"
  shows "\<exists>es'. run_steps (read_event nb share (read_duration m)) rd0 (es @ es') = Inr rd'
     \<and> mf_event_count m \<le> int (vf_count (rd_verifier rd'))"
  using assms
proof (induction nb share m readPage rd arbitrary: es rule: read_pages.induct)
  case (1 nb share m readPage rd)
  show ?case
  proof (cases "int (vf_count (rd_verifier rd)) < mf_event_count m")
    case True
    from "1.prems"(1) True obtain page rd1 where
      page: "readPage (int (vf_count (rd_verifier rd))) EVENT_PAGE_SIZE = Inr page"
        "\<not> (ep_events page = [] \<or> int (length (ep_events page)) > EVENT_PAGE_SIZE \<or> ep_total_events page \<noteq> mf_event_count m)"
        "\<not> (ep_chain_tip_before page \<noteq> vf_tip (rd_verifier rd))"
      and run: "run_steps (read_event nb share (read_duration m)) rd (ep_events page) = Inr rd1"
      and ends: "\<not> (ep_chain_tip_after page \<noteq> vf_tip (rd_verifier rd1))"
        "\<not> (ep_next_offset page \<noteq> (if int (vf_count (rd_verifier rd1)) = mf_event_count m then None else Some (int (vf_count (rd_verifier rd1)))))"
      and rest: "read_pages nb share m readPage rd1 = Inr rd'"
      by (subst (asm) (1) read_pages.simps) (auto split: sum.splits if_splits)
    have "run_steps (read_event nb share (read_duration m)) rd0 (es @ ep_events page) = Inr rd1"
      using "1.prems"(2) run by (simp add: run_steps_append)
    from "1.IH" [OF True page run ends rest this] show ?thesis by auto
  next
    case False
    with "1.prems" have "rd' = rd" by (subst (asm) (1) read_pages.simps) simp
    with "1.prems"(2) False show ?thesis by (intro exI [of _ "[]"]) simp
  qed
qed

lemma read_run_verifier:
  "run_steps (read_event nb share d) rd es = Inr rd' \<Longrightarrow>
     run_steps (append_step nb) (rd_verifier rd) es = Inr (rd_verifier rd')
     \<and> rd_events rd' = map_option (\<lambda>fs. fs @ es) (rd_events rd)
     \<and> rd_length rd' = foldl length_after (rd_length rd) es"
proof (induction es arbitrary: rd)
  case (Cons e es)
  then obtain rd1 where one: "read_event nb share d rd e = Inr rd1" and rest: "run_steps (read_event nb share d) rd1 es = Inr rd'"
    by (auto split: sum.splits)
  from one Cons.IH [OF rest] show ?case by (cases "rd_events rd") (auto simp: read_event_Inr_iff)
qed (simp add: option.map_ident)

section \<open>The overview\<close>

lemma length_after_observe: "valid_event e \<Longrightarrow> length_after len e = observe_event len e"
  by (auto simp: length_after_def observe_event_def valid_event_def nullable_range_def in_int_range_def split: option.splits)

lemma length_after_log: "list_all valid_event es \<Longrightarrow> foldl length_after len es = foldl observe_event len es"
  by (induction es arbitrary: len) (simp_all add: length_after_observe)

text \<open>What an overview says of the events read: how many lie in each bin, the first and the last time, and
  for how many the length of the document is known.\<close>

definition overview_of :: "(int \<Rightarrow> int \<Rightarrow> rat) \<Rightarrow> int \<Rightarrow> int option \<Rightarrow> event_log \<Rightarrow> record_overview \<Rightarrow> bool" where
  "overview_of share d start es ov \<longleftrightarrow> length (ov_bins ov) = OVERVIEW_BINS
     \<and> (\<forall>i < OVERVIEW_BINS. ob_count (ov_bins ov ! i) = length (filter (\<lambda>e. bin_index share d e = int i) es))
     \<and> ov_first_t ov = (if es = [] then None else Some (ev_t (hd es)))
     \<and> ov_last_t ov = (if es = [] then None else Some (ev_t (last es)))
     \<and> ov_known ov = length (filter (\<lambda>n. foldl length_after start (take (Suc n) es) \<noteq> None) [0..<length es])"

lemma bin_index_less: "bin_index share d e < int OVERVIEW_BINS"
  by (auto simp: bin_index_def OVERVIEW_BINS_def)

lemma note_bin_count [simp]: "ob_count (note_bin len b) = ob_count b + 1"
  by (simp add: note_bin_def split: option.split)

lemma overview_snoc:
  assumes "overview_of share d start es ov" and "0 \<le> bin_index share d e"
  shows "overview_of share d start (es @ [e]) (note_event (nat (bin_index share d e)) e (foldl length_after start (es @ [e])) ov)"
proof -
  let ?ov = "note_event (nat (bin_index share d e)) e (foldl length_after start (es @ [e])) ov"
  have bins: "length (ov_bins ?ov) = OVERVIEW_BINS" using assms(1) by (simp add: overview_of_def note_event_def)
  have "ob_count (ov_bins ?ov ! i) = length (filter (\<lambda>e. bin_index share d e = int i) (es @ [e]))" if "i < OVERVIEW_BINS" for i
    using assms that bin_index_less [of share d e]
    by (cases "bin_index share d e = int i") (auto simp: overview_of_def note_event_def nth_list_update)
  moreover have "filter (\<lambda>n. foldl length_after start (take (Suc n) (es @ [e])) \<noteq> None) [0..<length es]
      = filter (\<lambda>n. foldl length_after start (take (Suc n) es) \<noteq> None) [0..<length es]"
    by (rule filter_cong) auto
  ultimately show ?thesis
    using assms(1) bins by (auto simp: overview_of_def note_event_def)
qed

lemma overview_read:
  assumes "run_steps (read_event nb share (read_duration m)) (new_reader m start keep v) es = Inr rd"
  shows "overview_of share (read_duration m) start es (rd_overview rd)"
  using assms
proof (induction es arbitrary: rd rule: rev_induct)
  case Nil
  then show ?case by (auto simp: new_reader_def overview_of_def new_overview_def)
next
  case (snoc e es)
  then obtain rd0 where
    r: "run_steps (read_event nb share (read_duration m)) (new_reader m start keep v) es = Inr rd0"
      "read_event nb share (read_duration m) rd0 e = Inr rd" by (auto simp: run_steps_snoc_Inr_iff)
  have "rd_length rd0 = foldl length_after start es" using read_run_verifier [OF r(1)] by (simp add: new_reader_def)
  with overview_snoc [OF snoc.IH [OF r(1)], of e] r(2) show ?case by (auto simp: read_event_Inr_iff)
qed

section \<open>Any server\<close>

text \<open>Whatever the server answers, the reader's verdict is that of the whole-record verification.\<close>

lemma paged_verdict:
  assumes "noble_ok nb" and "verifyPagedRecord parses nb share m readPage start keep = Inr (res, ov, kept)"
  shows "\<exists>es. kept = (if keep then Some es else None) \<and> overview_of share (read_duration m) start es ov \<and> valid_log es
     \<and> (vr_valid res \<longleftrightarrow> record_ok parses nb \<lparr>wr_manifest = m, wr_events = es\<rparr>)"
proof -
  from assms(2) obtain v where v: "new_verifier parses m = Inr v"
    by (cases "new_verifier parses m") (simp_all add: verifyPagedRecord_def)
  with assms(2) obtain rd where rd: "read_pages nb share m readPage (new_reader m start keep v) = Inr rd" and
    fin: "(case finish_verifier nb (rd_verifier rd) of Inl x \<Rightarrow> Inl (StreamFault (Hashing x))
      | Inr res \<Rightarrow> Inr (res, rd_overview rd, rd_events rd)) = Inr (res, ov, kept)"
    by (auto simp: verifyPagedRecord_def andThen_Inr_iff)
  from fin have res: "finish_verifier nb (rd_verifier rd) = Inr res" "ov = rd_overview rd" "kept = rd_events rd"
    by (cases "finish_verifier nb (rd_verifier rd)"; simp)+
  have m: "validateManifest parses (manifest_json m) = []" "v = stream_state nb m []"
    using v by (auto simp: new_verifier_def Let_def stream_state_def)
  then have mok: "manifest_ok m" using validateManifest_ok by blast
  then have u: "isUuid (mf_session_id m)" by (simp add: manifest_ok_def)
  from read_pages_reached [OF rd, of "new_reader m start keep v" "[]"] obtain es where
    run: "run_steps (read_event nb share (read_duration m)) (new_reader m start keep v) es = Inr rd" by auto
  note r = read_run_verifier [OF run]
  have st: "valid_log es" "rd_verifier rd = stream_state nb m es"
    using r stream_run_iff [OF assms(1) u, of es] by (auto simp: new_reader_def m(2))
  from finish_stream_state [OF assms(1) mok st(1)] res(1) st m(1)
  have "vr_valid res \<longleftrightarrow> record_ok parses nb \<lparr>wr_manifest = m, wr_events = es\<rparr>" by (auto simp: record_ok_def Let_def)
  moreover have "kept = (if keep then Some es else None)" using r res(3) by (simp add: new_reader_def)
  ultimately show ?thesis using overview_read [OF run] res(2) st(1) by blast
qed

section \<open>A server that has the record\<close>

definition whole_page :: "noble \<Rightarrow> manifest \<Rightarrow> event_log \<Rightarrow> nat \<Rightarrow> event_page" where
  "whole_page nb m es off = (let out = take (nat EVENT_PAGE_SIZE) (drop off es); upto = int off + int (length out) in
     \<lparr>ep_events = out, ep_next_offset = (if upto < int (length es) then Some upto else None),
      ep_total_events = int (length es), ep_chain_tip_before = chain_nth (chain_of nb m es) (int off - 1),
      ep_chain_tip_after = chain_nth (chain_of nb m es) (upto - 1)\<rparr>)"

lemma chain_nth_tip:
  assumes "n \<le> length es"
  shows "chain_nth (chain_of nb m es) (int n - 1) = tip_after nb (mf_session_id m) (mf_format_version m) (take n es)"
proof (cases n)
  case 0
  then show ?thesis by (simp add: chain_nth_def tip_after_def)
next
  case (Suc k)
  with assms tips_from_nth [of k es nb "mf_session_id m" "mf_format_version m"] show ?thesis by (simp add: chain_nth_def)
qed

lemma read_all:
  assumes "noble_ok nb" and "isUuid (mf_session_id m)" and "valid_log es" and "int (length es) \<le> mf_event_count m"
    and "\<And>t d. 0 \<le> t \<Longrightarrow> 0 < d \<Longrightarrow> 0 \<le> share t d"
  shows "\<exists>rd. run_steps (read_event nb share (read_duration m)) (new_reader m start keep (stream_state nb m [])) es = Inr rd
     \<and> rd_verifier rd = stream_state nb m es"
  using assms(3,4)
proof (induction es rule: rev_induct)
  case Nil
  then show ?case by (simp add: new_reader_def)
next
  case (snoc e es)
  have "valid_log es" using snoc.prems(1) by (simp add: valid_log_def valid_from_append)
  with snoc obtain rd where
    rd: "run_steps (read_event nb share (read_duration m)) (new_reader m start keep (stream_state nb m [])) es = Inr rd"
      "rd_verifier rd = stream_state nb m es" by auto
  have "run_steps (append_step nb) (stream_state nb m []) (es @ [e]) = Inr (stream_state nb m (es @ [e]))"
    using stream_run_iff [OF assms(1,2)] snoc.prems by simp
  moreover have "run_steps (append_step nb) (stream_state nb m []) es = Inr (stream_state nb m es)"
    using stream_run_iff [OF assms(1,2)] snoc.prems \<open>valid_log es\<close> by simp
  ultimately have "append_step nb (stream_state nb m es) e = Inr (stream_state nb m (es @ [e]))"
    by (simp add: run_steps_snoc_Inr_iff)
  moreover have "0 \<le> ev_t e" using snoc.prems(1) by (simp add: valid_log_def valid_from_append valid_event_def in_ms_range_def)
  then have "0 \<le> bin_index share (read_duration m) e"
    using assms(5) [of "ev_t e" "read_duration m"] by (simp add: bin_index_def OVERVIEW_BINS_def read_duration_def)
  ultimately have "\<exists>rd'. read_event nb share (read_duration m) rd e = Inr rd' \<and> rd_verifier rd' = stream_state nb m (es @ [e])"
    by (simp add: read_event_Inr_iff rd(2))
  with rd(1) show ?case by (auto simp: run_steps_snoc_Inr_iff)
qed

lemma read_pages_step:
  assumes "int (vf_count (rd_verifier rd)) < mf_event_count m"
    and "readPage (int (vf_count (rd_verifier rd))) EVENT_PAGE_SIZE = Inr page"
    and "ep_events page \<noteq> []" and "int (length (ep_events page)) \<le> EVENT_PAGE_SIZE" and "ep_total_events page = mf_event_count m"
    and "ep_chain_tip_before page = vf_tip (rd_verifier rd)"
    and "run_steps (read_event nb share (read_duration m)) rd (ep_events page) = Inr rd1"
    and "ep_chain_tip_after page = vf_tip (rd_verifier rd1)"
    and "ep_next_offset page = (if int (vf_count (rd_verifier rd1)) = mf_event_count m then None else Some (int (vf_count (rd_verifier rd1))))"
  shows "read_pages nb share m readPage rd = read_pages nb share m readPage rd1"
proof -
  have "\<not> EVENT_PAGE_SIZE < int (length (ep_events page))" using assms(4) by simp
  with assms show ?thesis by (subst read_pages.simps) simp
qed

lemma read_whole:
  assumes "noble_ok nb" and "isUuid (mf_session_id m)" and "valid_log es" and "mf_event_count m = int (length es)"
    and "\<And>t d. 0 \<le> t \<Longrightarrow> 0 < d \<Longrightarrow> 0 \<le> share t d"
    and "\<And>off. off < length es \<Longrightarrow> readPage (int off) EVENT_PAGE_SIZE = Inr (whole_page nb m es off)"
    and "run_steps (read_event nb share (read_duration m)) (new_reader m start keep (stream_state nb m [])) es = Inr rd'"
    and "n \<le> length es"
    and "run_steps (read_event nb share (read_duration m)) (new_reader m start keep (stream_state nb m [])) (take n es) = Inr rd"
  shows "read_pages nb share m readPage rd = Inr rd'"
  using assms(8,9)
proof (induction "length es - n" arbitrary: n rd rule: less_induct)
  case less
  let ?run = "run_steps (read_event nb share (read_duration m))" and ?r0 = "new_reader m start keep (stream_state nb m [])"
  have state: "rd_verifier r = stream_state nb m (take k es)" if "?run ?r0 (take k es) = Inr r" for k r
    using read_run_verifier [OF that] stream_run_iff [OF assms(1,2), of "take k es" "rd_verifier r"] by (simp add: new_reader_def)
  have v: "rd_verifier rd = stream_state nb m (take n es)" by (rule state [OF less.prems(2)])
  show ?case
  proof (cases "n < length es")
    case True
    let ?k = "min (n + nat EVENT_PAGE_SIZE) (length es)"
    let ?out = "take (nat EVENT_PAGE_SIZE) (drop n es)"
    have k: "take ?k es = take n es @ ?out" "length ?out = ?k - n" "n < ?k" "?k \<le> length es"
      using True by (auto simp: EVENT_PAGE_SIZE_def take_add [symmetric] min_def)
    have "?run ?r0 (take ?k es @ drop ?k es) = Inr rd'" using assms(7) by simp
    then obtain rd1 where rd1: "?run ?r0 (take ?k es) = Inr rd1"
      unfolding run_steps_append by (cases "?run ?r0 (take ?k es)") simp_all
    then have out: "?run rd ?out = Inr rd1" using less.prems(2) unfolding k(1) by (simp add: run_steps_append)
    have page: "ep_events (whole_page nb m es n) = ?out" "ep_total_events (whole_page nb m es n) = mf_event_count m"
      "ep_next_offset (whole_page nb m es n) = (if ?k = length es then None else Some (int ?k))"
      using k(2-4) assms(4) by (auto simp: whole_page_def Let_def)
    have before: "ep_chain_tip_before (whole_page nb m es n) = vf_tip (rd_verifier rd)"
      using chain_nth_tip [of n es nb m] True by (simp add: whole_page_def Let_def v stream_state_def)
    have "int n + int (length ?out) = int ?k" using k(2,3) by simp
    then have after: "ep_chain_tip_after (whole_page nb m es n) = vf_tip (rd_verifier rd1)"
      using chain_nth_tip [OF k(4), of nb m] unfolding whole_page_def Let_def by (simp add: state [OF rd1] stream_state_def)
    have count: "vf_count (rd_verifier rd) = n" "vf_count (rd_verifier rd1) = ?k"
      using True k(4) by (simp_all add: v state [OF rd1] stream_state_def)
    have size: "?out \<noteq> []" "int (length ?out) \<le> EVENT_PAGE_SIZE" using True by (simp_all add: EVENT_PAGE_SIZE_def)
    have "read_pages nb share m readPage rd = read_pages nb share m readPage rd1"
    proof (rule read_pages_step)
      show "int (vf_count (rd_verifier rd)) < mf_event_count m" using True by (simp only: count assms(4) of_nat_less_iff)
      show "readPage (int (vf_count (rd_verifier rd))) EVENT_PAGE_SIZE = Inr (whole_page nb m es n)"
        unfolding count by (rule assms(6) [OF True])
      show "ep_next_offset (whole_page nb m es n) = (if int (vf_count (rd_verifier rd1)) = mf_event_count m then None
          else Some (int (vf_count (rd_verifier rd1))))" unfolding page count assms(4) of_nat_eq_iff by (rule refl)
    qed (use size out page before after in \<open>simp_all only: page simp_thms\<close>)
    also have "\<dots> = Inr rd'" using less.hyps [OF _ k(4) rd1] k(3) True by linarith
    finally show ?thesis .
  next
    case False
    then have "rd = rd'" "n = length es" using less.prems assms(7) by simp_all
    then show ?thesis using v assms(4) by (subst read_pages.simps) (simp add: stream_state_def)
  qed
qed

lemma whole_record_read:
  assumes "noble_ok nb" and "record_ok parses nb \<lparr>wr_manifest = m, wr_events = es\<rparr>"
    and "\<And>t d. 0 \<le> t \<Longrightarrow> 0 < d \<Longrightarrow> 0 \<le> share t d"
    and "\<And>off. off < length es \<Longrightarrow> readPage (int off) EVENT_PAGE_SIZE = Inr (whole_page nb m es off)"
  shows "\<exists>res ov. verifyPagedRecord parses nb share m readPage start keep = Inr (res, ov, if keep then Some es else None)
     \<and> vr_valid res \<and> overview_of share (read_duration m) start es ov"
proof -
  let ?run = "run_steps (read_event nb share (read_duration m))" and ?r0 = "new_reader m start keep (stream_state nb m [])"
  have valid: "validateManifest parses (manifest_json m) = []" and log: "valid_log es" and count: "mf_event_count m = int (length es)"
    using assms(2) by (simp_all add: record_ok_def Let_def)
  then have mok: "manifest_ok m" using validateManifest_ok by blast
  then have u: "isUuid (mf_session_id m)" by (simp add: manifest_ok_def)
  obtain rd where rd: "?run ?r0 es = Inr rd" "rd_verifier rd = stream_state nb m es"
    using read_all [OF assms(1) u log _ assms(3)] count by fastforce
  have "read_pages nb share m readPage ?r0 = Inr rd"
    by (intro read_whole [where readPage = readPage and n = 0, OF assms(1) u log count assms(3,4) rd(1)]) simp_all
  moreover obtain res where res: "finish_verifier nb (stream_state nb m es) = Inr res" "vr_valid res"
    using finish_stream_state [OF assms(1) mok log] assms(2) by (auto simp: record_ok_def Let_def)
  moreover have "new_verifier parses m = Inr (stream_state nb m [])"
    using valid by (simp add: new_verifier_def stream_state_def)
  moreover have "rd_events rd = (if keep then Some es else None)"
    using read_run_verifier [OF rd(1)] by (simp add: new_reader_def)
  ultimately show ?thesis using overview_read [OF rd(1)] rd(2) by (simp add: verifyPagedRecord_def andThen_def)
qed

text \<open>C9: The paged reader trusts no server. Whatever pages come, when the reader returns, the events it read
  form a valid log, its verdict is the one \<open>verifyRecord\<close> gives for the manifest with these events, the events
  it keeps are all of them in order, and the overview counts each of them in exactly the bin of its time.\<close>

theorem paged_reading_sound:
  assumes "noble_ok nb" and "verifyPagedRecord parses nb share m readPage start keep = Inr (res, ov, kept)"
  shows "\<exists>es vres. kept = (if keep then Some es else None) \<and> valid_log es
     \<and> verifyRecord parses nb \<lparr>wr_manifest = m, wr_events = es\<rparr> = Inr vres \<and> (vr_valid res \<longleftrightarrow> vr_valid vres)
     \<and> overview_of share (read_duration m) start es ov"
  using paged_verdict [OF assms] verifyRecord_spec [OF assms(1)] by metis

section \<open>A published record\<close>

lemma manifest_json_stamped:
  assumes "js n \<noteq> js ''ingested_server_t''"
  shows "map_of (own_fields (manifest_json (m\<lparr>mf_ingested_server_t := t\<rparr>))) (js n) = map_of (own_fields (manifest_json m)) (js n)"
proof -
  have "js ''ingested_server_t'' \<noteq> js n" using assms by simp
  then show ?thesis by (cases "mf_text_binding m") (simp_all add: manifest_json_def map_of_append map_add_def)
qed

lemma validateManifest_stamped:
  assumes "validateManifest parses (manifest_json m) = []" and "parses t"
  shows "validateManifest parses (manifest_json (m\<lparr>mf_ingested_server_t := Some t\<rparr>)) = []"
proof -
  let ?m = "manifest_json (m\<lparr>mf_ingested_server_t := Some t\<rparr>)"
  have same: "field ?m n = field (manifest_json m) n" "has_field ?m n = has_field (manifest_json m) n"
    if "js n \<noteq> js ''ingested_server_t''" for n
    using manifest_json_stamped [OF that] by (simp_all add: field_def has_field_def)
  have none_of: "(if c then [] else [x]) = [] \<longleftrightarrow> c" "(if c then [x] else []) = [] \<longleftrightarrow> \<not> c"
    "(if c then ys else []) = [] \<longleftrightarrow> (c \<longrightarrow> ys = [])" for c and x :: verror and ys by auto
  have "field ?m ''ingested_server_t'' = JStr t"
    by (cases "mf_text_binding m") (simp_all add: field_def manifest_json_def)
  then have "validateNullableTimestamp parses (field ?m ''ingested_server_t'') ''ingested_server_t'' = []"
    using assms(2) by (simp add: validateNullableTimestamp_def)
  then show ?thesis
    using assms(1) unfolding validateManifest_def Let_def
    by (simp add: same none_of manifest_json_fields(1) del: manifest_json_fields(2-))
qed

text \<open>C8: What was published in chunks is found valid by its readers. After a publication in chunks that created a
  record, a page that reads it from the interface, page by page, finds the stored manifest, server time included,
  valid with exactly the events of the chunks, and returns the overview of exactly these events.\<close>

theorem published_record_read_valid:
  fixes readPage :: "int \<Rightarrow> int \<Rightarrow> jsstring + event_page"
  assumes "noble_ok nb" and "rank_ok (op_rank op)" and "map_of (cs_uploads (rst_chunked st)) k = None"
    and "none_owned st (mf_record_hash m)"
    and "publish_in_chunks nb op st k m obs chunks = Inr (st', reply)" and "rp_created reply"
    and "op_parses op (now_iso (op_now op))" and "\<And>t d. 0 \<le> t \<Longrightarrow> 0 < d \<Longrightarrow> 0 \<le> share t d"
    and "\<And>off page. api_page nb st' (mf_record_hash m) off EVENT_PAGE_SIZE = Inr page \<Longrightarrow> readPage off EVENT_PAGE_SIZE = Inr page"
  shows "\<exists>r res ov. findByShortSignatureOrHash st' (mf_record_hash m) = Some r
     \<and> verifyPagedRecord (op_parses op) nb share (sr_manifest r) readPage start keep
         = Inr (res, ov, if keep then Some (concat chunks) else None)
     \<and> vr_valid res \<and> overview_of share (read_duration m) start (concat chunks) ov"
proof -
  let ?es = "concat chunks" and ?m = "m\<lparr>mf_ingested_server_t := Some (now_iso (op_now op))\<rparr>"
  have "record_ok (op_parses op) nb \<lparr>wr_manifest = m, wr_events = ?es\<rparr>"
    using publish_sound [OF assms(1-3,5,6)] verifyRecord_spec [OF assms(1)] by (metis sum.inject(2))
  then have ok: "record_ok (op_parses op) nb \<lparr>wr_manifest = ?m, wr_events = ?es\<rparr>"
    using validateManifest_stamped [of "op_parses op" m, OF _ assms(7)]
    by (simp add: record_ok_def Let_def sealed_hash_def finalization_of_def)
  have lim: "(4096 :: nat) \<le> MAX_EVENT_CHUNK" by (simp add: MAX_EVENT_CHUNK_def)
  note inline = chunked_page_inline [OF assms(1,3-6) _ _ lim]
  obtain r where r: "findByShortSignatureOrHash st' (mf_record_hash m) = Some r" "sr_manifest r = ?m"
    using inline [of 0] by auto
  have "readPage (int off) EVENT_PAGE_SIZE = Inr (whole_page nb ?m ?es off)" if "off < length ?es" for off
  proof (rule assms(9))
    have "computeEventHashChain nb ?es (mf_session_id m) (mf_format_version m) = Inr (chain_of nb m ?es)"
      "api_page nb st' (mf_record_hash m) (int off) EVENT_PAGE_SIZE
         = eventPage nb st' (r\<lparr>sr_chunked := False, sr_events := ?es\<rparr>) (int off) EVENT_PAGE_SIZE"
      using inline [of off] that r(1) by (auto simp: EVENT_PAGE_SIZE_def)
    then show "api_page nb st' (mf_record_hash m) (int off) EVENT_PAGE_SIZE = Inr (whole_page nb ?m ?es off)"
      by (simp add: eventPage_def whole_page_def Let_def r(2))
  qed
  from whole_record_read [where readPage = readPage, OF assms(1) ok assms(8) this] r show ?thesis by (auto simp: read_duration_def)
qed

section \<open>Samples\<close>

definition sample_share :: "int \<Rightarrow> int \<Rightarrow> rat" where
  "sample_share t d = of_int t / of_int d"

lemma sample_share_nonneg: "0 \<le> t \<Longrightarrow> 0 < d \<Longrightarrow> 0 \<le> sample_share t d"
  by (simp add: sample_share_def)

definition sample_pages :: "int \<Rightarrow> int \<Rightarrow> jsstring + event_page" where
  "sample_pages off limit = Inr (whole_page sample_noble (wr_manifest sample_record) (wr_events sample_record) (nat off))"

lemma paged_reading_sound_witness:
  "\<exists>res ov es vres. verifyPagedRecord (\<lambda>_. True) sample_noble sample_share (wr_manifest sample_record) sample_pages (Some 0) True
       = Inr (res, ov, Some es)
     \<and> verifyRecord (\<lambda>_. True) sample_noble \<lparr>wr_manifest = wr_manifest sample_record, wr_events = es\<rparr> = Inr vres
     \<and> vr_valid res \<and> vr_valid vres"
proof -
  have "record_ok (\<lambda>_. True) sample_noble \<lparr>wr_manifest = wr_manifest sample_record, wr_events = wr_events sample_record\<rparr>"
    using sample_record_ok unfolding sample_record_def by simp
  then have "\<exists>res ov. verifyPagedRecord (\<lambda>_. True) sample_noble sample_share (wr_manifest sample_record) sample_pages (Some 0) True
       = Inr (res, ov, if True then Some (wr_events sample_record) else None) \<and> vr_valid res
       \<and> overview_of sample_share (read_duration (wr_manifest sample_record)) (Some 0) (wr_events sample_record) ov"
    by (rule whole_record_read [OF sample_noble_ok]) (simp_all add: sample_share_nonneg sample_pages_def)
  then obtain res ov where r: "verifyPagedRecord (\<lambda>_. True) sample_noble sample_share (wr_manifest sample_record) sample_pages (Some 0) True
       = Inr (res, ov, Some (wr_events sample_record))" "vr_valid res" by auto
  from paged_reading_sound [OF sample_noble_ok r(1)] r show ?thesis by auto
qed

lemma published_record_read_valid_witness:
  "\<exists>st' r res ov. findByShortSignatureOrHash st' sample_hash = Some r
     \<and> verifyPagedRecord (\<lambda>_. True) sample_noble sample_share (sr_manifest r)
         (\<lambda>off limit. case api_page sample_noble st' sample_hash off limit of Inl _ \<Rightarrow> Inl (js ''failed'') | Inr page \<Rightarrow> Inr page) (Some 0) True
         = Inr (res, ov, Some [sample_event, sample_paste])
     \<and> vr_valid res"
proof -
  obtain st' reply where c: "publish_in_chunks sample_noble sample_api empty_store sample_session (wr_manifest sample_record) None
      sample_chunks = Inr (st', reply)" "rp_created reply" using sample_published by blast
  have none: "none_owned empty_store (mf_record_hash (wr_manifest sample_record))" by (simp add: none_owned_def empty_store_def)
  have h: "mf_record_hash (wr_manifest sample_record) = sample_hash" by (simp add: sample_record_def)
  have p: "op_parses sample_api = (\<lambda>_. True)" by (simp add: sample_api_def)
  from published_record_read_valid [OF sample_noble_ok sample_publication(7,1) none c, where share = sample_share and readPage =
      "\<lambda>off limit. case api_page sample_noble st' sample_hash off limit of Inl _ \<Rightarrow> Inl (js ''failed'') | Inr page \<Rightarrow> Inr page" and keep = True and start = "Some 0"]
  show ?thesis by (simp add: h p sample_share_nonneg) blast
qed

end
