(* ===== verification/Ingest_Payload.thy ===== *)
theory Ingest_Payload
  imports Chunked_Publish
begin

text \<open>
  What the ingest interface accepts as a request body (\<open>apps/ingest-api/src/index.ts\<close>,
  \<open>capture-context.ts\<close> and \<open>chunked-api.ts\<close>): the bounded search for fields that would carry
  content, the public fields of a manifest, and the parsing of observation and checkpoint requests.
\<close>

section \<open>Searching for content\<close>

datatype path_step = PKey jsstring | PIndex nat

type_synonym path = "path_step list"

datatype payload_error =
    BodyNotObject
  | WorkLimit
  | TooDeep
  | TooManyEntries path nat
  | FieldLimit
  | ContentField path
  | UnexpectedField jsstring
  | BadEventCount
  | BadChainTip
  | BadToken
  | BadSessionId
  | NotAnObject

definition MAX_ERROR_DETAILS :: nat where "MAX_ERROR_DETAILS = 25"
definition MAX_PAYLOAD_DEPTH :: nat where "MAX_PAYLOAD_DEPTH = 32"
definition MAX_LEGACY_EVENTS :: nat where "MAX_LEGACY_EVENTS = 131072"
definition MAX_PAYLOAD_NODES :: nat where "MAX_PAYLOAD_NODES = 2000000"
definition MAX_PAYLOAD_OBJECT_FIELDS :: nat where "MAX_PAYLOAD_OBJECT_FIELDS = 64"
definition MAX_PAYLOAD_KEY_LENGTH :: nat where "MAX_PAYLOAD_KEY_LENGTH = 128"

definition CONTENT_BEARING_KEYS :: "jsstring list" where
  "CONTENT_BEARING_KEYS = List.map js [''text'', ''plaintext'', ''content'', ''ins_text'', ''ins_hash'',
     ''final_text'', ''final_text_hash'', ''final_text_length'']"

text \<open>The number of values visited so far and the errors, in the order they were pushed.\<close>

record walk =
  wk_visited :: nat
  wk_errors :: "payload_error list"

definition push_error :: "payload_error \<Rightarrow> walk \<Rightarrow> walk" where
  "push_error e w = w\<lparr>wk_errors := wk_errors w @ [e]\<rparr>"

text \<open>Only the path \<open>$.events\<close> may hold a long array.\<close>

definition array_limit :: "path \<Rightarrow> nat" where
  "array_limit p = (if p = [PKey (js ''events'')] then MAX_LEGACY_EVENTS else 16)"

text \<open>The three functions return the walk and whether the search goes on.\<close>

fun visit :: "path \<Rightarrow> nat \<Rightarrow> walk \<Rightarrow> json \<Rightarrow> walk \<times> bool"
  and visit_items :: "path \<Rightarrow> nat \<Rightarrow> nat \<Rightarrow> walk \<Rightarrow> json list \<Rightarrow> walk \<times> bool"
  and visit_fields :: "path \<Rightarrow> nat \<Rightarrow> nat \<Rightarrow> walk \<Rightarrow> (jsstring \<times> json) list \<Rightarrow> walk \<times> bool" where
  "visit p depth w v =
     (let w1 = w\<lparr>wk_visited := wk_visited w + 1\<rparr> in
      if wk_visited w1 > MAX_PAYLOAD_NODES then (push_error WorkLimit w1, False)
      else if depth > MAX_PAYLOAD_DEPTH then (push_error TooDeep w1, False)
      else case v of
          JArr vs \<Rightarrow> if length vs > array_limit p then (push_error (TooManyEntries p (array_limit p)) w1, False)
                     else visit_items p depth 0 w1 vs
        | JObj fs \<Rightarrow> visit_fields p depth 0 w1 fs
        | _ \<Rightarrow> (w1, True))"
| "visit_items p depth i w [] = (w, True)"
| "visit_items p depth i w (v # vs) =
     (case visit (p @ [PIndex i]) (depth + 1) w v of
        (w', False) \<Rightarrow> (w', False)
      | (w', True) \<Rightarrow> visit_items p depth (i + 1) w' vs)"
| "visit_fields p depth n w [] = (w, True)"
| "visit_fields p depth n w ((k, v) # fs) =
     (if n + 1 > MAX_PAYLOAD_OBJECT_FIELDS \<or> length k > MAX_PAYLOAD_KEY_LENGTH then (push_error FieldLimit w, False)
      else let w1 = (if k \<in> set CONTENT_BEARING_KEYS then push_error (ContentField (p @ [PKey k])) w else w) in
        if length (wk_errors w1) \<ge> MAX_ERROR_DETAILS then (w1, False)
        else (case visit (p @ [PKey k]) (depth + 1) w1 v of
            (w', False) \<Rightarrow> (w', False)
          | (w', True) \<Rightarrow> visit_fields p depth (n + 1) w' fs))"

definition findContentBearingFields :: "json \<Rightarrow> payload_error list" where
  "findContentBearingFields input =
     (if \<not> isPlainObject input then [BodyNotObject]
      else wk_errors (fst (visit [] 0 \<lparr>wk_visited = 0, wk_errors = []\<rparr> input)))"

section \<open>Public fields and parsed requests\<close>

definition withoutCaptureContext :: "json \<Rightarrow> json" where
  "withoutCaptureContext v = (case v of
      JObj fs \<Rightarrow> if js ''capture_context'' \<in> fst ` set fs
                 then JObj (filter (\<lambda>f. fst f \<noteq> js ''capture_context'') fs) else v
    | _ \<Rightarrow> v)"

definition PUBLIC_MANIFEST_FIELDS :: "string list" where
  "PUBLIC_MANIFEST_FIELDS = [''format_version'', ''record_hash'', ''session_id'', ''producer'', ''text_binding'',
     ''event_count'', ''duration_ms'', ''created_client_t'', ''ingested_server_t'', ''parent_record'', ''attestations'']"

definition unexpected_fields :: "string list \<Rightarrow> json \<Rightarrow> jsstring list" where
  "unexpected_fields names v = filter (\<lambda>k. k \<notin> set (List.map js names)) (List.map fst (own_fields v))"

definition validatePublicManifestFields :: "json \<Rightarrow> payload_error list" where
  "validatePublicManifestFields m =
     (if \<not> isPlainObject m then [NotAnObject] else List.map UnexpectedField (unexpected_fields PUBLIC_MANIFEST_FIELDS m))"

record ingest_input =
  ii_manifest :: json
  ii_events :: json
  ii_observation :: json

definition parseIngestInput :: "json \<Rightarrow> payload_error list + ingest_input" where
  "parseIngestInput v =
     (if \<not> isPlainObject v then Inl [BodyNotObject]
      else let unexpected = unexpected_fields [''manifest'', ''events'', ''observation''] v in
        if unexpected \<noteq> [] then Inl (List.map UnexpectedField unexpected)
        else Inr \<lparr>ii_manifest = withoutCaptureContext (field v ''manifest''), ii_events = field v ''events'',
                  ii_observation = field v ''observation''\<rparr>)"

fun str_of :: "json \<Rightarrow> jsstring option" where
  "str_of (JStr s) = Some s"
| "str_of _ = None"

definition is_token :: "json \<Rightarrow> bool" where
  "is_token v \<longleftrightarrow> (\<exists>s \<in> set_option (str_of v). length s \<ge> 32)"

fun int_of_num :: "json \<Rightarrow> int option" where
  "int_of_num (JNum x) = num_int x"
| "int_of_num _ = None"

record checkpoint_request =
  cq_event_count :: int
  cq_chain_tip :: jsstring
  cq_token :: "jsstring option"

definition parseCheckpointInput :: "json \<Rightarrow> payload_error list + checkpoint_request" where
  "parseCheckpointInput v =
     (if \<not> isPlainObject v then Inl [BodyNotObject]
      else let errors = List.map UnexpectedField (unexpected_fields [''event_count'', ''chain_tip'', ''token''] v)
            @ (case int_of_num (field v ''event_count'') of
                 Some n \<Rightarrow> if n < 1 \<or> n > MAX_INTEGER_FIELD_VALUE then [BadEventCount] else []
               | None \<Rightarrow> [BadEventCount])
            @ (if isB3Hash (field v ''chain_tip'') then [] else [BadChainTip])
            @ (if field v ''token'' \<noteq> JUndefined \<and> \<not> is_token (field v ''token'') then [BadToken] else [])
        in if errors \<noteq> [] then Inl errors
           else Inr \<lparr>cq_event_count = the (int_of_num (field v ''event_count'')),
                     cq_chain_tip = the (str_of (field v ''chain_tip'')), cq_token = str_of (field v ''token'')\<rparr>)"

definition validateObservationBinding :: "json \<Rightarrow> payload_error list" where
  "validateObservationBinding v =
     (if \<not> isPlainObject v then [NotAnObject]
      else List.map UnexpectedField (unexpected_fields [''observed_session_id'', ''token''] v)
        @ (if \<exists>s \<in> set_option (str_of (field v ''observed_session_id'')). isUuid s then [] else [BadSessionId])
        @ (if is_token (field v ''token'') then [] else [BadToken]))"

definition isUnobservedObservationRequest :: "json \<Rightarrow> bool" where
  "isUnobservedObservationRequest v \<longleftrightarrow> isPlainObject v \<and> has_field v ''state''
     \<and> field v ''state'' = JStr (js ''unobserved'') \<and> unexpected_fields [''state''] v = []"

text \<open>The observation of a chunked upload; \<open>sha\<close> is the hexadecimal SHA-256 of a string.\<close>

definition observation_of :: "(jsstring \<Rightarrow> jsstring) \<Rightarrow> json \<Rightarrow> upload_error + upload_observation option" where
  "observation_of sha v =
     (if v = JUndefined then Inr None
      else if \<not> isPlainObject v then Inl (invalid ''invalid_observation'')
      else if field v ''state'' = JStr (js ''unobserved'') \<and> length (own_fields v) = 1 then Inr (Some UnobservedUpload)
      else (case (str_of (field v ''observed_session_id''), str_of (field v ''token'')) of
          (Some sid, Some token) \<Rightarrow>
            guard (unexpected_fields [''observed_session_id'', ''token''] v \<noteq> [] \<or> \<not> isUuid sid
                   \<or> length token < 32 \<or> length token > 1024) (invalid ''invalid_observation'')
              (Inr (Some (BoundUpload sid (sha token))))
        | _ \<Rightarrow> Inl (invalid ''invalid_observation'')))"

section \<open>What the search establishes\<close>

fun content_free :: "json \<Rightarrow> bool" where
  "content_free (JArr vs) \<longleftrightarrow> (\<forall>v \<in> set vs. content_free v)"
| "content_free (JObj fs) \<longleftrightarrow> (\<forall>f \<in> set fs. fst f \<notin> set CONTENT_BEARING_KEYS \<and> content_free (snd f))"
| "content_free _ \<longleftrightarrow> True"

fun fits_depth :: "nat \<Rightarrow> json \<Rightarrow> bool" where
  "fits_depth d (JArr vs) \<longleftrightarrow> d \<le> MAX_PAYLOAD_DEPTH \<and> (\<forall>v \<in> set vs. fits_depth (d + 1) v)"
| "fits_depth d (JObj fs) \<longleftrightarrow> d \<le> MAX_PAYLOAD_DEPTH \<and> (\<forall>f \<in> set fs. fits_depth (d + 1) (snd f))"
| "fits_depth d _ \<longleftrightarrow> d \<le> MAX_PAYLOAD_DEPTH"

lemma push_error_simps [simp]:
  "wk_errors (push_error e w) = wk_errors w @ [e]" "wk_visited (push_error e w) = wk_visited w"
  by (simp_all add: push_error_def)

declare visit.simps [simp del]

text \<open>Errors are only added, and a search that stops has reported one.\<close>

definition grows :: "walk \<Rightarrow> walk \<times> bool \<Rightarrow> bool" where
  "grows w r \<longleftrightarrow> (\<exists>es. wk_errors (fst r) = wk_errors w @ es) \<and> (\<not> snd r \<longrightarrow> wk_errors (fst r) \<noteq> [])"

lemma grows_after: "grows w (w', True) \<Longrightarrow> grows w' r \<Longrightarrow> grows w r"
  by (auto simp: grows_def)

lemma grows_push [simp]: "grows w (push_error e w, b)"
  by (simp add: grows_def)

lemma grows_refl [simp]: "grows w (w, True)"
  by (simp add: grows_def)

lemma grows_visited [simp]: "grows (w\<lparr>wk_visited := n\<rparr>) r = grows w r"
  by (simp add: grows_def)

lemma visit_grows:
  "grows w (visit p d w v)" "grows w (visit_items p d i w vs)" "grows w (visit_fields p d n w fs)"
proof (induction p d w v and p d i w vs and p d n w fs rule: visit_visit_items_visit_fields.induct)
  case (1 p d w v)
  then show ?case by (subst visit.simps) (auto simp: grows_def Let_def split: json.splits)
next
  case (3 p d i w v vs)
  then show ?case
    by (cases "visit (p @ [PIndex i]) (d + 1) w v" rule: prod.exhaust)
      (auto split: bool.split intro: grows_after)
next
  case (5 p d n w k v fs)
  define w1 where "w1 = (if k \<in> set CONTENT_BEARING_KEYS then push_error (ContentField (p @ [PKey k])) w else w)"
  have w1: "grows w (w1, True)" by (simp add: w1_def)
  show ?case
  proof (cases "n + 1 > MAX_PAYLOAD_OBJECT_FIELDS \<or> length k > MAX_PAYLOAD_KEY_LENGTH")
    case False
    note IH = 5 [OF False w1_def]
    show ?thesis
    proof (cases "length (wk_errors w1) \<ge> MAX_ERROR_DETAILS")
      case True
      then have "grows w1 (w1, False)" by (auto simp: grows_def MAX_ERROR_DETAILS_def)
      then show ?thesis using False True w1 by (simp add: w1_def [symmetric] grows_after)
    next
      case more: False
      obtain w' b where v: "visit (p @ [PKey k]) (d + 1) w1 v = (w', b)" by (cases "visit (p @ [PKey k]) (d + 1) w1 v")
      have "grows w1 (w', b)" using IH(1) [OF more] v by simp
      then have "grows w (w', b)" using w1 by (rule grows_after [rotated])
      then show ?thesis using False more v IH(2) [OF more v [symmetric]]
        by (cases b) (auto simp: w1_def [symmetric] intro: grows_after)
    qed
  qed simp
qed simp_all

text \<open>A search that reported nothing visited everything: what it covers is content-free and shallow.\<close>

definition clean :: "walk \<times> bool \<Rightarrow> bool" where "clean r \<longleftrightarrow> wk_errors (fst r) = []"

lemma clean_continues: "grows w r \<Longrightarrow> clean r \<Longrightarrow> snd r"
  by (auto simp: grows_def clean_def)

lemma clean_start: "grows w r \<Longrightarrow> clean r \<Longrightarrow> wk_errors w = []"
  by (auto simp: grows_def clean_def)

lemma visit_clean:
  "clean (visit p d w v) \<Longrightarrow> content_free v \<and> fits_depth d v"
  "clean (visit_items p d i w vs) \<Longrightarrow> \<forall>v \<in> set vs. content_free v \<and> fits_depth (d + 1) v"
  "clean (visit_fields p d n w fs) \<Longrightarrow>
     \<forall>f \<in> set fs. fst f \<notin> set CONTENT_BEARING_KEYS \<and> content_free (snd f) \<and> fits_depth (d + 1) (snd f)"
proof (induction p d w v and p d i w vs and p d n w fs rule: visit_visit_items_visit_fields.induct)
  case (1 p d w v)
  from 1(3) have "\<not> wk_visited w + 1 > MAX_PAYLOAD_NODES" "\<not> d > MAX_PAYLOAD_DEPTH"
    by (auto simp: visit.simps [of p d w v] Let_def clean_def split: if_splits)
  with 1 show ?case
    by (cases v) (auto simp: visit.simps [of p d w] Let_def clean_def split: if_splits)
next
  case (3 p d i w v vs)
  obtain w' b where v: "visit (p @ [PIndex i]) (d + 1) w v = (w', b)" by (cases "visit (p @ [PIndex i]) (d + 1) w v")
  have g: "grows w (w', b)" using visit_grows(1) [of w "p @ [PIndex i]" "d + 1" v] v by simp
  have b: b using 3(3) v g by (cases b) (auto dest: clean_continues)
  have "clean (w', b)" using 3(3) v b visit_grows(2) [of w' p d "i + 1" vs]
    by (auto simp: clean_def dest!: clean_start [unfolded clean_def])
  then show ?case using 3 v b by auto
next
  case (5 p d n w k v fs)
  define w1 where "w1 = (if k \<in> set CONTENT_BEARING_KEYS then push_error (ContentField (p @ [PKey k])) w else w)"
  have fit: "\<not> (n + 1 > MAX_PAYLOAD_OBJECT_FIELDS \<or> length k > MAX_PAYLOAD_KEY_LENGTH)"
    using 5(3) by (auto simp: clean_def)
  have r: "clean (if length (wk_errors w1) \<ge> MAX_ERROR_DETAILS then (w1, False)
        else (case visit (p @ [PKey k]) (d + 1) w1 v of
            (w', False) \<Rightarrow> (w', False)
          | (w', True) \<Rightarrow> visit_fields p d (n + 1) w' fs))"
    using 5(3) by (simp only: visit_fields.simps if_not_P [OF fit] Let_def w1_def)
  have more: "\<not> length (wk_errors w1) \<ge> MAX_ERROR_DETAILS"
    using r by (auto simp: clean_def MAX_ERROR_DETAILS_def)
  obtain w' b where v: "visit (p @ [PKey k]) (d + 1) w1 v = (w', b)" by (cases "visit (p @ [PKey k]) (d + 1) w1 v")
  have g: "grows w1 (w', b)" using visit_grows(1) [of w1 "p @ [PKey k]" "d + 1" v] v by simp
  have b: b using r more v g by (cases b) (auto dest: clean_continues)
  have rest: "clean (visit_fields p d (n + 1) w' fs)" using r more v b by simp
  have here: "clean (w', b)" using clean_start [OF visit_grows(3) rest] by (simp add: clean_def)
  have "wk_errors w1 = []" using clean_start [OF g here] .
  then have key: "k \<notin> set CONTENT_BEARING_KEYS" by (auto simp: w1_def split: if_splits)
  have "content_free v \<and> fits_depth (d + 1) v"
    using 5(1) [OF fit w1_def more] here v by simp
  moreover have "\<forall>f \<in> set fs. fst f \<notin> set CONTENT_BEARING_KEYS \<and> content_free (snd f) \<and> fits_depth (d + 1) (snd f)"
    using 5(2) [OF fit w1_def more v [symmetric]] b rest by simp
  ultimately show ?case using key by auto
qed auto

text \<open>No search reports more than the bound, however large the body.\<close>

definition bounded :: "walk \<times> bool \<Rightarrow> bool" where
  "bounded r \<longleftrightarrow> length (wk_errors (fst r)) \<le> MAX_ERROR_DETAILS \<and> wk_visited (fst r) \<le> MAX_PAYLOAD_NODES + 1
     \<and> (snd r \<longrightarrow> length (wk_errors (fst r)) < MAX_ERROR_DETAILS \<and> wk_visited (fst r) \<le> MAX_PAYLOAD_NODES)"

lemma visit_bounded:
  "bounded (w, True) \<Longrightarrow> bounded (visit p d w v)"
  "bounded (w, True) \<Longrightarrow> bounded (visit_items p d i w vs)"
  "bounded (w, True) \<Longrightarrow> bounded (visit_fields p d n w fs)"
proof (induction p d w v and p d i w vs and p d n w fs rule: visit_visit_items_visit_fields.induct)
  case (1 p d w v)
  then show ?case
    by (cases v; cases "wk_visited w + 1 > MAX_PAYLOAD_NODES"; cases "d > MAX_PAYLOAD_DEPTH")
      (auto simp: visit.simps [of p d w] Let_def bounded_def)
next
  case (3 p d i w v vs)
  then show ?case by (cases "visit (p @ [PIndex i]) (d + 1) w v") (auto split: bool.split)
next
  case (5 p d n w k v fs)
  define w1 where "w1 = (if k \<in> set CONTENT_BEARING_KEYS then push_error (ContentField (p @ [PKey k])) w else w)"
  have w1: "bounded (w1, False)" using 5(3) by (auto simp: w1_def bounded_def)
  show ?case
  proof (cases "n + 1 > MAX_PAYLOAD_OBJECT_FIELDS \<or> length k > MAX_PAYLOAD_KEY_LENGTH")
    case True
    then show ?thesis using 5(3) by (auto simp: bounded_def)
  next
    case False
    show ?thesis
    proof (cases "length (wk_errors w1) \<ge> MAX_ERROR_DETAILS")
      case True
      then show ?thesis using False w1 by (simp add: w1_def [symmetric])
    next
      case more: False
      obtain w' b where v: "visit (p @ [PKey k]) (d + 1) w1 v = (w', b)" by (cases "visit (p @ [PKey k]) (d + 1) w1 v")
      have "bounded (w1, True)" using 5(3) more by (auto simp: w1_def bounded_def)
      then show ?thesis using False more v 5(1) [OF False w1_def more] 5(2) [OF False w1_def more v [symmetric]]
        by (cases b) (auto simp: w1_def [symmetric])
    qed
  qed
qed auto

text \<open>C22: A body the search finds nothing in has no field named like content at any depth, and is at most
  32 levels deep: what passes on to parsing, storage and publication carries no text.\<close>

theorem content_blind:
  assumes "findContentBearingFields body = []"
  shows "isPlainObject body \<and> content_free body \<and> fits_depth 0 body"
  using assms visit_clean(1) [of "[]" 0 "\<lparr>wk_visited = 0, wk_errors = []\<rparr>" body]
  by (auto simp: findContentBearingFields_def clean_def split: if_splits)

definition sample_body :: json where
  "sample_body = JObj [(js ''observation'', JObj [(js ''state'', JStr (js ''unobserved''))]), (js ''events'', JArr [JNull])]"

lemma sample_body_clean: "findContentBearingFields sample_body = []"
  by code_simp

lemma content_blind_witness:
  "findContentBearingFields sample_body = [] \<and> isPlainObject sample_body \<and> content_free sample_body \<and> fits_depth 0 sample_body"
  using content_blind [OF sample_body_clean] sample_body_clean by simp

text \<open>However large or hostile the body, the search reports at most 25 errors and stops after visiting
  at most one value more than its work limit.\<close>

theorem search_bounded:
  "length (findContentBearingFields body) \<le> MAX_ERROR_DETAILS \<and>
   wk_visited (fst (visit [] 0 \<lparr>wk_visited = 0, wk_errors = []\<rparr> body)) \<le> MAX_PAYLOAD_NODES + 1"
  using visit_bounded(1) [of "\<lparr>wk_visited = 0, wk_errors = []\<rparr>" "[]" 0 body]
  by (auto simp: findContentBearingFields_def bounded_def MAX_ERROR_DETAILS_def MAX_PAYLOAD_NODES_def)

end
