(* ===== verification/Ingest_Api.thy ===== *)
theory Ingest_Api
  imports Ingest_Payload
begin

text \<open>
  The ingest interface of \<open>apps/ingest-api/src/index.ts\<close>: publishing a whole record, requesting a
  checkpoint and reading a record. A request body is taken with its manifest and events typed and its
  observation as JSON; the clock, the token generator and the hashing libraries are parameters.
\<close>

section \<open>Failures\<close>

datatype detail =
    PayloadDetail payload_error
  | FieldDetail verror
  | CheckDetail check_error
  | StatDetail nat
  | TextDetail string
  | AndMore nat

record api_failure =
  fl_status :: int
  fl_error :: string
  fl_details :: "detail list"

definition failure :: "int \<Rightarrow> string \<Rightarrow> detail list \<Rightarrow> api_failure" where
  "failure status error details =
     (if length details \<le> MAX_ERROR_DETAILS
      then \<lparr>fl_status = status, fl_error = error, fl_details = details\<rparr>
      else \<lparr>fl_status = status, fl_error = error,
            fl_details = take MAX_ERROR_DETAILS details @ [AndMore (length details - MAX_ERROR_DETAILS)]\<rparr>)"

definition plain :: "int \<Rightarrow> string \<Rightarrow> api_failure" where
  "plain status error = \<lparr>fl_status = status, fl_error = error, fl_details = []\<rparr>"

text \<open>A request is answered, refused, or ends in an exception that the route does not handle.\<close>

datatype thrown = ThrownObservation observation_error | ThrownFormat format_error
  | ThrownAnalysis analysis_error | ThrownSignature signature_error | ThrownRegistry registry_error
  | ThrownUpload upload_error

datatype stop = Refused api_failure | Thrown thrown

definition observationUnavailableResult :: api_failure where
  "observationUnavailableResult = plain 404 ''observation_unavailable''"

text \<open>The two error classes of the session store, with the code each constructor carries.\<close>

fun is_token_error :: "observation_error \<Rightarrow> bool" where
  "is_token_error SessionNotFound = True"
| "is_token_error TokenRequired = True"
| "is_token_error InvalidToken = True"
| "is_token_error _ = False"

fun conflict_code :: "observation_error \<Rightarrow> string option" where
  "conflict_code SessionFinalized = Some ''observed_session_finalized''"
| "conflict_code TipConflict = Some ''checkpoint_chain_tip_conflict''"
| "conflict_code NotMonotonic = Some ''checkpoint_event_count_not_monotonic''"
| "conflict_code (ObservationMismatch _) = Some ''observation_mismatch''"
| "conflict_code _ = None"

definition conflict :: "string \<Rightarrow> api_failure" where
  "conflict code = \<lparr>fl_status = 409, fl_error = code, fl_details = [TextDetail code]\<rparr>"

definition renamed :: "string \<Rightarrow> string" where
  "renamed code = (if code = ''checkpoint_event_count_not_monotonic'' then ''checkpoint_stale'' else code)"

definition observedCheckpointErrorResult :: "observation_error \<Rightarrow> stop" where
  "observedCheckpointErrorResult e =
     (if is_token_error e then Refused observationUnavailableResult
      else case conflict_code e of
          Some code \<Rightarrow> Refused ((conflict code)\<lparr>fl_error := renamed code\<rparr>)
        | None \<Rightarrow> Thrown (ThrownObservation e))"

section \<open>Checkpoints\<close>

record ingest_options =
  in_api :: api_options
  in_sha :: "jsstring \<Rightarrow> jsstring"
  in_new_token :: jsstring

record checkpoint_reply =
  ck_status :: int
  ck_session :: jsstring
  ck_token :: jsstring
  ck_checkpoint :: commitment
  ck_created :: bool

definition bad_request :: "string \<Rightarrow> payload_error list \<Rightarrow> stop" where
  "bad_request error errors = Refused (failure 400 error (List.map PayloadDetail errors))"

definition checkpoint_of :: "ingest_options \<Rightarrow> jsstring \<Rightarrow> checkpoint_request \<Rightarrow> checkpoint_input" where
  "checkpoint_of op k q =
     \<lparr>ci_session_id = k, ci_token_hash = (if truthy (cq_token q) then Some (in_sha op (the (cq_token q))) else None),
      ci_new_token_hash = in_sha op (default_to (in_new_token op) (cq_token q)), ci_event_count = cq_event_count q,
      ci_chain_tip = cq_chain_tip q, ci_observed_at = Some (now_iso (op_now (in_api op)))\<rparr>"

definition postObservedCheckpoint ::
  "ingest_options \<Rightarrow> record_store \<Rightarrow> jsstring \<Rightarrow> json \<Rightarrow> record_store \<times> (stop + checkpoint_reply)" where
  "postObservedCheckpoint op st k input =
     (if \<not> isUuid k then (st, Inl (bad_request ''invalid_payload'' [BadSessionId]))
      else if findContentBearingFields input \<noteq> []
      then (st, Inl (bad_request ''content_not_allowed'' (findContentBearingFields input)))
      else case parseCheckpointInput input of
          Inl errors \<Rightarrow> (st, Inl (bad_request ''invalid_payload'' errors))
        | Inr q \<Rightarrow>
            (case appendObservedCheckpoint (op_now (in_api op)) (rst_sessions st) (checkpoint_of op k q) of
               (ss, Inl e) \<Rightarrow> (set_sessions ss st, Inl (observedCheckpointErrorResult e))
             | (ss, Inr r) \<Rightarrow> (set_sessions ss st,
                 Inr \<lparr>ck_status = (if cr_checkpoint_created r then 201 else 200), ck_session = cr_session_id r,
                      ck_token = default_to (in_new_token op) (cq_token q), ck_checkpoint = cr_checkpoint r,
                      ck_created = cr_checkpoint_created r\<rparr>)))"

definition fail_as :: "('e \<Rightarrow> stop) \<Rightarrow> 'e + 'a \<Rightarrow> stop + 'a" where
  "fail_as f r = (case r of Inl e \<Rightarrow> Inl (f e) | Inr a \<Rightarrow> Inr a)"

abbreviation or_throw :: "('e \<Rightarrow> thrown) \<Rightarrow> 'e + 'a \<Rightarrow> stop + 'a" where
  "or_throw f \<equiv> fail_as (\<lambda>e. Thrown (f e))"

section \<open>Binding a posted record to its session\<close>

fun check_prefixes :: "jsstring list \<Rightarrow> nat \<Rightarrow> commitment list \<Rightarrow> api_failure + unit" where
  "check_prefixes chain n [] = Inr ()"
| "check_prefixes chain n (c # cs) =
     guard (cm_event_count c < 1) (conflict ''observation_mismatch'')
     (guard (cm_event_count c > int n) (conflict ''observation_mismatch'')
     (guard (chain_nth chain (cm_event_count c - 1) \<noteq> Some (cm_chain_tip c)) (conflict ''observation_mismatch'')
     (check_prefixes chain n cs)))"

definition bindObservation ::
  "noble \<Rightarrow> ingest_options \<Rightarrow> record_store \<Rightarrow> json \<Rightarrow> writing_record \<Rightarrow> jsstring list option \<Rightarrow> stop + record_observation" where
  "bindObservation nb op st obs r computedChain =
     (let errors = validateObservationBinding obs; m = wr_manifest r; n = length (wr_events r); ck = op_now (in_api op) in
      guard (errors \<noteq> []) (bad_request ''invalid_payload'' errors)
      (case getObservedSessionForBinding (rst_sessions st) (the (str_of (field obs ''observed_session_id'')))
              (in_sha op (the (str_of (field obs ''token'')))) (Some (int n)) of
         Inl e \<Rightarrow>
           Inl (if is_token_error e then Refused observationUnavailableResult
                else case conflict_code e of Some code \<Rightarrow> Refused (conflict code) | None \<Rightarrow> Thrown (ThrownObservation e))
       | Inr s \<Rightarrow>
           guard (truthy (os_finalized s) \<and> os_finalized s \<noteq> Some (mf_record_hash m)) (Refused (conflict ''observed_session_finalized''))
           (guard (os_checkpoints s = []) (Refused (failure 400 ''invalid_observation'' [TextDetail ''observed session has no commitments'']))
           (case (case computedChain of Some chain \<Rightarrow> Inr chain
                  | None \<Rightarrow> computeEventHashChain nb (wr_events r) (mf_session_id m) (mf_format_version m)) of
              Inl e \<Rightarrow> Inl (Thrown (ThrownFormat e))
            | Inr chain \<Rightarrow>
                (let cs = sort_checkpoints ck (os_checkpoints s) in
                 andThen (fail_as Refused (check_prefixes chain n cs)) (\<lambda>_.
                   Inr (observationFromCheckpoints ck (os_id s)
                     (if cm_event_count (last cs) = int n then Observed else Partial) cs)))))))"

section \<open>Publishing a whole record\<close>

definition record_body :: "writing_record \<Rightarrow> json \<Rightarrow> json" where
  "record_body r obs = JObj ([(js ''manifest'', manifest_json (wr_manifest r)),
     (js ''events'', JArr (List.map event_json (wr_events r)))]
     @ (if obs = JUndefined then [] else [(js ''observation'', obs)]))"

text \<open>The diagnostics of malformed events stop once there are more than the limit.\<close>

fun event_errors :: "nat \<Rightarrow> verror list \<Rightarrow> event_log \<Rightarrow> verror list" where
  "event_errors i errors [] = errors"
| "event_errors i errors (e # es) =
     (let errors' = errors @ validateEvent (event_json e) (Some (int i)) in
      if length errors' > MAX_ERROR_DETAILS then errors' else event_errors (i + 1) errors' es)"

definition computeRecordStats ::
  "rank_fun \<Rightarrow> writing_record \<Rightarrow> int \<Rightarrow> int option \<Rightarrow> analysis_error + record_stats" where
  "computeRecordStats rank r idle starting =
     andThen (analyzeEventLog rank (wr_events r) (wr_manifest r) ((no_options\<lparr>ao_start := Some starting\<rparr>)\<lparr>ao_idle := Some idle\<rparr>))
       (\<lambda>(stats, signals). Inr stats)"

definition posted_signals :: "api_options \<Rightarrow> writing_record \<Rightarrow> registry_error + signal list" where
  "posted_signals op r = (case op_analyzers op of
      Some as \<Rightarrow> Inr (runAnalyzers (wr_events r, wr_manifest r) as)
    | None \<Rightarrow> runDefaultAnalyzers (op_rank op) (wr_events r, wr_manifest r) (Some (op_idle op)))"

definition stamped :: "api_options \<Rightarrow> writing_record \<Rightarrow> writing_record" where
  "stamped op r = r\<lparr>wr_manifest := (wr_manifest r)\<lparr>mf_ingested_server_t := Some (now_iso (op_now op))\<rparr>\<rparr>"

fun js_truthy :: "json \<Rightarrow> bool" where
  "js_truthy JUndefined = False"
| "js_truthy JNull = False"
| "js_truthy (JBool b) = b"
| "js_truthy (JNum x) = (x \<noteq> JInt 0 \<and> x \<noteq> JNegZero \<and> x \<noteq> JNaN)"
| "js_truthy (JStr s) = (s \<noteq> [])"
| "js_truthy _ = True"

definition requested_observation ::
  "noble \<Rightarrow> ingest_options \<Rightarrow> record_store \<Rightarrow> json \<Rightarrow> writing_record \<Rightarrow> jsstring list option \<Rightarrow> stop + record_observation option" where
  "requested_observation nb op st obs r chain =
     (if \<not> js_truthy obs then Inr None
      else if isUnobservedObservationRequest obs then Inr (Some unobservedObservation)
      else andThen (bindObservation nb op st obs r chain) (\<lambda>ob. Inr (Some ob)))"

definition save_failure :: "save_error \<Rightarrow> stop" where
  "save_failure e = (case e of
      ShortSignatureChanged \<Rightarrow> Refused (failure 409 ''immutable_record_conflict'' [TextDetail ''signature changed''])
    | ShortSignatureTaken \<Rightarrow> Refused (failure 409 ''immutable_record_conflict'' [TextDetail ''signature taken''])
    | SaveObservation x \<Rightarrow> (case conflict_code x of
          Some code \<Rightarrow> Refused ((conflict code)\<lparr>fl_error := renamed code\<rparr>)
        | None \<Rightarrow> Thrown (ThrownObservation x)))"

definition check_posted :: "noble \<Rightarrow> api_options \<Rightarrow> writing_record \<Rightarrow> json \<Rightarrow> stop + verification_result" where
  "check_posted nb op r obs =
     (let content = findContentBearingFields (record_body r obs); errors = event_errors 0 [] (wr_events r) in
      guard (content \<noteq> []) (bad_request ''content_not_allowed'' content)
      (case parseIngestInput (record_body r obs) of
         Inl errors \<Rightarrow> Inl (bad_request ''invalid_record'' errors)
       | Inr input \<Rightarrow>
          (let manifest_errors = validatePublicManifestFields (ii_manifest input) in
           guard (manifest_errors \<noteq> []) (bad_request ''invalid_manifest'' manifest_errors)
           (guard (errors \<noteq> []) (Refused (failure 400 ''verification_failed'' (List.map FieldDetail errors)))
           (andThen (or_throw ThrownFormat (verifyRecord (op_parses op) nb (stamped op r))) (\<lambda>res.
            guard (\<not> vr_valid res) (Refused (failure 400 ''verification_failed'' (List.map CheckDetail (vr_errors res))))
              (Inr res)))))))"

text \<open>The statistics out of range, each named by its place among the numbers of the statistics.\<close>

definition overflow :: "record_stats \<Rightarrow> detail list" where
  "overflow stats = List.map (\<lambda>x. StatDetail (fst x)) (filter (\<lambda>x. out_of_range (snd x)) (enumerate 0 (stats_numbers stats)))"

definition postRecord ::
  "noble \<Rightarrow> ingest_options \<Rightarrow> record_store \<Rightarrow> writing_record \<Rightarrow> json \<Rightarrow> stop + record_store \<times> publish_reply" where
  "postRecord nb op st r obs =
     (let api = in_api op; rec = stamped api r; m = wr_manifest rec; parent = mf_parent_record m in
      andThen (check_posted nb api r obs) (\<lambda>res.
      guard (truthy parent \<and> \<not> recordExists st (the parent))
        (Refused (failure 400 ''invalid_manifest'' [TextDetail ''parent_record does not refer to a stored record'']))
      (andThen (requested_observation nb op st obs rec (vr_chain res)) (\<lambda>observation.
       andThen (or_throw ThrownSignature (generateShortSignature nb (findByShortSignature st) (mf_record_hash m) (op_initial_length api))) (\<lambda>signature.
       andThen (or_throw ThrownAnalysis (computeRecordStats (op_rank api) rec (op_idle api)
           (startingLength m (if truthy parent then finalLength st (the parent) else None)))) (\<lambda>stats.
       guard (overflow stats \<noteq> []) (Refused (failure 400 ''invalid_record'' (overflow stats)))
       (andThen (or_throw ThrownRegistry (posted_signals api rec)) (\<lambda>signals.
        andThen (fail_as save_failure (saveRecord nb (op_now api) st
           \<lparr>sv_record = rec, sv_short_signature = signature, sv_stats = stats, sv_signals = Some signals,
            sv_observation = observation, sv_created_at = mf_ingested_server_t m\<rparr>)) (\<lambda>(st', saved).
          Inr (st', \<lparr>rp_record_hash = hash_of (sa_stored saved),
            rp_short_signature = sr_short_signature (sa_stored saved), rp_created = sa_created saved\<rparr>))))))))))"

section \<open>Reading a record\<close>

record get_response =
  gr_manifest :: manifest
  gr_events :: event_log
  gr_stats :: record_stats
  gr_signals :: "signal list"
  gr_observation :: record_observation

definition measured_span :: "event_log \<Rightarrow> int" where
  "measured_span es = (if length es > 1 then ev_t (last es) - ev_t (hd es) else 0)"

definition idle_measure :: "signal \<Rightarrow> int option" where
  "idle_measure s = (case map_of (sg_measures s) ''idle_time_ms'' of Some (VInt i, _) \<Rightarrow> Some i | _ \<Rightarrow> None)"

text \<open>Timing signals of version 0.1.0 counted waits at the ends of the session as active.\<close>

definition upgrade_timing :: "int \<Rightarrow> signal \<Rightarrow> signal" where
  "upgrade_timing span s =
     (if sg_analyzer_id s \<noteq> TIMING_DISTRIBUTION_ANALYZER_ID \<or> sg_analyzer_version s \<noteq> ''0.1.0'' then s
      else s\<lparr>sg_analyzer_version := TIMING_ANALYZER_VERSION,
             sg_measures := List.map (\<lambda>(k, v, u). case idle_measure s of
                 Some idle \<Rightarrow> if k = ''active_time_ms'' then (k, VInt (max 0 (span - idle)), u) else (k, v, u)
               | None \<Rightarrow> (k, v, u)) (sg_measures s)\<rparr>)"

definition toGetRecordResponse :: "stored_record \<Rightarrow> get_response" where
  "toGetRecordResponse r =
     (let es = sr_events r; span = measured_span es; sizes = aggregateMutationSizes es; stats = sr_stats r in
      \<lparr>gr_manifest = sr_manifest r, gr_events = es,
       gr_stats = stats\<lparr>rs_inserted_codepoints_total := st_inserted sizes, rs_deleted_codepoints_total := st_deleted sizes,
                         rs_largest_atomic_insert_codepoints := st_largest sizes,
                         rs_active_time_ms := max 0 (span - rs_idle_time_ms stats)\<rparr>,
       gr_signals = List.map (\<lambda>s. upgrade_timing span (upgradeLegacyEditTopologySignal s es)) (sr_signals r),
       gr_observation = sr_observation r\<rparr>)"

definition getRecord :: "noble \<Rightarrow> record_store \<Rightarrow> jsstring \<Rightarrow> stop + get_response" where
  "getRecord nb st k = (case findByShortSignatureOrHash st k of
      None \<Rightarrow> Inl (Refused (plain 404 ''record_not_found''))
    | Some r \<Rightarrow>
        if sr_chunked r
        then guard (mf_event_count (sr_manifest r) > 512) (Refused (plain 409 ''chunked_record_requires_pagination''))
          (andThen (or_throw ThrownUpload (eventPage nb st r 0 512)) (\<lambda>page. Inr (toGetRecordResponse (r\<lparr>sr_events := ep_events page\<rparr>))))
        else Inr (toGetRecordResponse r))"

text \<open>The summary of a record (\<open>chunked-api.ts\<close>): everything but the events, and their first and last times.\<close>

record summary_view =
  sm_manifest :: manifest
  sm_stats :: record_stats
  sm_signals :: "signal list"
  sm_observation :: record_observation
  sm_first_event_t :: "int option"
  sm_last_event_t :: "int option"

definition first_t :: "event_log \<Rightarrow> int option" where
  "first_t es = (case es of [] \<Rightarrow> None | e # _ \<Rightarrow> Some (ev_t e))"

definition last_t :: "event_log \<Rightarrow> int option" where
  "last_t es = (if es = [] then None else Some (ev_t (last es)))"

definition record_summary :: "record_store \<Rightarrow> jsstring \<Rightarrow> upload_error + summary_view" where
  "record_summary st k = (case findByShortSignatureOrHash st k of
      None \<Rightarrow> Inl (UploadError 404 ''record_not_found'')
    | Some r \<Rightarrow>
        if \<not> sr_chunked r
        then (let g = toGetRecordResponse r in
              Inr \<lparr>sm_manifest = gr_manifest g, sm_stats = gr_stats g, sm_signals = gr_signals g,
                   sm_observation = gr_observation g, sm_first_event_t = first_t (gr_events g), sm_last_event_t = last_t (gr_events g)\<rparr>)
        else andThen (store_page (rst_chunked st) r 0 1) (\<lambda>first.
             andThen (store_page (rst_chunked st) r (max 0 (mf_event_count (sr_manifest r) - 1)) 1) (\<lambda>last.
              Inr \<lparr>sm_manifest = sr_manifest r, sm_stats = sr_stats r, sm_signals = sr_signals r,
                   sm_observation = sr_observation r, sm_first_event_t = first_t (ep_events first),
                   sm_last_event_t = first_t (ep_events last)\<rparr>)))"

text \<open>The state of an upload (\<open>chunked-api.ts\<close>).\<close>

definition uploadStatus :: "record_store \<Rightarrow> jsstring \<Rightarrow> upload_error + status_view" where
  "uploadStatus st k = (case (if isUuid k then map_of (cs_uploads (rst_chunked st)) k else None) of
      None \<Rightarrow> Inl (UploadError 404 ''upload_not_found'')
    | Some u \<Rightarrow> Inr (statusView st u))"

end
