(* ===== verification/Ingest_Publish.thy ===== *)
theory Ingest_Publish
  imports Ingest_Api
begin

text \<open>
  What publishing a whole record establishes, how it agrees with publishing the same record in
  chunks, and what reading the record returns.
\<close>

section \<open>Posting a record\<close>

lemma fail_as_Inr [simp]: "fail_as f r = Inr a \<longleftrightarrow> r = Inr a"
  by (auto simp: fail_as_def split: sum.splits)

lemma check_posted_Inr:
  assumes "check_posted nb op r obs = Inr res"
  shows "findContentBearingFields (record_body r obs) = []"
    and "verifyRecord (op_parses op) nb (stamped op r) = Inr res" and "vr_valid res"
  using assms by (auto simp: check_posted_def Let_def guard_Inr_iff andThen_Inr_iff split: sum.splits)

text \<open>The input that a posted record is saved with.\<close>

definition post_input ::
  "ingest_options \<Rightarrow> writing_record \<Rightarrow> jsstring \<Rightarrow> record_stats \<Rightarrow> signal list \<Rightarrow> record_observation option \<Rightarrow> save_input" where
  "post_input op r signature stats signals observation =
     \<lparr>sv_record = stamped (in_api op) r, sv_short_signature = signature, sv_stats = stats,
      sv_signals = Some signals, sv_observation = observation, sv_created_at = Some (now_iso (op_now (in_api op)))\<rparr>"

definition parent_length :: "record_store \<Rightarrow> manifest \<Rightarrow> int option" where
  "parent_length st m = (if truthy (mf_parent_record m) then finalLength st (the (mf_parent_record m)) else None)"

lemma stamped_simps [simp]:
  "wr_events (stamped op r) = wr_events r"
  "wr_manifest (stamped op r) = (wr_manifest r)\<lparr>mf_ingested_server_t := Some (now_iso (op_now op))\<rparr>"
  by (simp_all add: stamped_def)

lemma startingLength_ingested [simp]: "startingLength (m\<lparr>mf_ingested_server_t := t\<rparr>) n = startingLength m n"
  by (simp add: startingLength_def)

lemma postRecord_Inr:
  "postRecord nb op st r obs = Inr (st', reply) \<longleftrightarrow>
     (\<exists>res observation signature stats signals saved.
        check_posted nb (in_api op) r obs = Inr res
        \<and> \<not> (truthy (mf_parent_record (wr_manifest r)) \<and> \<not> recordExists st (the (mf_parent_record (wr_manifest r))))
        \<and> requested_observation nb op st obs (stamped (in_api op) r) (vr_chain res) = Inr observation
        \<and> generateShortSignature nb (findByShortSignature st) (mf_record_hash (wr_manifest r)) (op_initial_length (in_api op)) = Inr signature
        \<and> computeRecordStats (op_rank (in_api op)) (stamped (in_api op) r) (op_idle (in_api op))
            (startingLength (wr_manifest r) (parent_length st (wr_manifest r))) = Inr stats
        \<and> overflow stats = [] \<and> posted_signals (in_api op) (stamped (in_api op) r) = Inr signals
        \<and> saveRecord nb (op_now (in_api op)) st (post_input op r signature stats signals observation) = Inr (st', saved)
        \<and> reply = \<lparr>rp_record_hash = hash_of (sa_stored saved), rp_short_signature = sr_short_signature (sa_stored saved),
                  rp_created = sa_created saved\<rparr>)"
  by (simp add: postRecord_def Let_def guard_Inr_iff andThen_Inr_iff post_input_def parent_length_def case_prod_beta)
    (auto simp: eq_commute [of _ reply])

lemma saveRecord_created:
  assumes "saveRecord nb ck st input = Inr (st', saved)" and "sa_created saved"
  shows "\<exists>obs st1. bind_session nb ck st input = Inr (st1, obs) \<and> sa_stored saved = stored_of ck input obs"
  using assms
  by (cases "findCompleted (rst_chunked st) (mf_record_hash (wr_manifest (sv_record input)))";
      cases "map_of (rst_by_hash st) (mf_record_hash (wr_manifest (sv_record input)))"; cases "bind_session nb ck st input")
    (auto simp: saveRecord_def Let_def guard_Inr_iff)

lemma save_hash_post [simp]: "save_hash (post_input op r signature stats signals obs) = mf_record_hash (wr_manifest r)"
  by (simp add: save_hash_def post_input_def)

lemma posted_allowed:
  assumes "noble_ok nb" and "store_ok st" and "check_posted nb (in_api op) r obs = Inr res"
    and "generateShortSignature nb (findByShortSignature st) (mf_record_hash (wr_manifest r)) n = Inr signature"
  shows "request_allowed st (Save ck (post_input op r signature stats signals observation))"
proof -
  note v = check_posted_Inr [OF assms(3)]
  have "record_ok (op_parses (in_api op)) nb (stamped (in_api op) r)"
    using verifyRecord_spec [OF assms(1), of "op_parses (in_api op)" "stamped (in_api op) r"] v by auto
  then have b3: "is_b3_hash (mf_record_hash (wr_manifest r))"
    using validateManifest_ok [of "op_parses (in_api op)" "wr_manifest (stamped (in_api op) r)"]
    by (simp add: record_ok_def Let_def manifest_ok_def)
  then show ?thesis
    using generated_signature [OF b3 assms(4)] generated_signature_free [OF assms(2) b3 assms(4)]
    by (simp add: post_input_def Let_def is_b3_hash_def is_hash_id_def)
qed

lemma post_input_signature [simp]: "sv_short_signature (post_input op r signature stats signals obs) = signature"
  by (simp add: post_input_def)

text \<open>A record that a post created is found by its hash and by its signature.\<close>

lemma post_created:
  assumes "noble_ok nb" and "store_ok st" and "postRecord nb op st r obs = Inr (st', reply)" and "rp_created reply"
  shows "\<exists>res stats signals signature observation stored.
     check_posted nb (in_api op) r obs = Inr res
     \<and> computeRecordStats (op_rank (in_api op)) (stamped (in_api op) r) (op_idle (in_api op))
            (startingLength (wr_manifest r) (parent_length st (wr_manifest r))) = Inr stats
     \<and> posted_signals (in_api op) (stamped (in_api op) r) = Inr signals
     \<and> stored = stored_of (op_now (in_api op)) (post_input op r signature stats signals observation) observation
     \<and> reply = \<lparr>rp_record_hash = mf_record_hash (wr_manifest r), rp_short_signature = signature, rp_created = True\<rparr>
     \<and> store_ok st' \<and> (\<forall>k. has_id stored k \<longrightarrow> findByShortSignatureOrHash st' k = Some stored)"
proof -
  let ?op = "in_api op" and ?h = "mf_record_hash (wr_manifest r)"
  from assms(3) obtain res observation0 signature stats signals saved where
    c: "check_posted nb ?op r obs = Inr res" and
    g: "generateShortSignature nb (findByShortSignature st) ?h (op_initial_length ?op) = Inr signature" and
    stats: "computeRecordStats (op_rank ?op) (stamped ?op r) (op_idle ?op)
            (startingLength (wr_manifest r) (parent_length st (wr_manifest r))) = Inr stats"
      "posted_signals ?op (stamped ?op r) = Inr signals" and
    s: "saveRecord nb (op_now ?op) st (post_input op r signature stats signals observation0) = Inr (st', saved)" and
    reply: "reply = \<lparr>rp_record_hash = hash_of (sa_stored saved), rp_short_signature = sr_short_signature (sa_stored saved),
                  rp_created = sa_created saved\<rparr>"
    unfolding postRecord_Inr by blast
  from reply assms(4) have "sa_created saved" by simp
  with saveRecord_created [OF s] obtain observation where
    stored: "sa_stored saved = stored_of (op_now ?op) (post_input op r signature stats signals observation0) observation" by blast
  from store_ok_save [OF assms(2) posted_allowed [OF assms(1,2) c g] s]
  have ok: "store_ok st'" "sa_stored saved \<in> set (published_records st')" by blast+
  then have "\<forall>k. has_id (sa_stored saved) k \<longrightarrow> findByShortSignatureOrHash st' k = Some (sa_stored saved)"
    by (simp add: find_published has_id_def)
  moreover have "sa_stored saved = stored_of (op_now ?op) (post_input op r signature stats signals observation) observation"
    unfolding stored by (simp add: stored_of_def post_input_def)
  ultimately show ?thesis using c stats ok(1) stored assms(4)
    by (intro exI conjI) (auto simp: reply)
qed

section \<open>Fresh statistics and signals\<close>

lemma signals_start:
  "timing_signal (measurement i (started s) es) m ps = timing_signal (measurement i no_options es) m ps"
  "edit_signal (measurement i (started s) es) m = edit_signal (measurement j no_options es) m"
  by (simp_all add: timing_signal_def edit_signal_def measurement_def started_def no_options_def Let_def)

lemma fresh_signals:
  assumes "valid_log es" and "es \<noteq> []" and "op_analyzers op = None" and "0 \<le> op_idle op" and "op_idle op \<le> MAX_TIME_FIELD_VALUE"
  shows "posted_signals op \<lparr>wr_manifest = m, wr_events = es\<rparr> =
     Inr [timing_signal (measurement (op_idle op) (started start) es) m (percentiles_of (op_rank op) (delays_of es)),
          edit_signal (measurement (op_idle op) (started start) es) m]"
proof -
  have "createDefaultAnalyzerRegistry (op_rank op) (Some (op_idle op)) = Inr
      [timingDistributionAnalyzer (op_rank op) (Some (op_idle op)), editTopologyAnalyzer (op_rank op) None None]"
    by (simp add: createDefaultAnalyzerRegistry_def register_def guard_def timingDistributionAnalyzer_def
        editTopologyAnalyzer_def TIMING_DISTRIBUTION_ANALYZER_ID_def EDIT_TOPOLOGY_ANALYZER_ID_def)
  with default_signals [OF assms(1,2), of "Some (op_idle op)" m "op_rank op"] assms(3-5) show ?thesis
    by (simp add: posted_signals_def runDefaultAnalyzers_def runAnalyzers_def signals_start(1)
        signals_start(2) [of _ _ _ _ DEFAULT_IDLE_THRESHOLD_MS])
qed

lemma fresh_stats:
  assumes "valid_log es" and "0 \<le> idle" and "idle \<le> MAX_TIME_FIELD_VALUE" and "mf_event_count m = int (length es)"
  shows "computeRecordStats rank \<lparr>wr_manifest = m, wr_events = es\<rparr> idle start =
     Inr (stats_of (measurement idle (started start) es) m (percentiles_of rank (delays_of es)))"
proof -
  have "m\<lparr>mf_event_count := int (length es)\<rparr> = m" using assms(4) by simp
  then show ?thesis
    using analyzeEventLog_valid [OF assms(1), of "(no_options\<lparr>ao_start := Some start\<rparr>)\<lparr>ao_idle := Some idle\<rparr>" rank m] assms(2,3)
    by (simp add: computeRecordStats_def started_def measurement_idle Let_def)
qed

lemma stats_idle:
  assumes "computeRecordStats rank r idle start = Inr stats"
  shows "0 \<le> idle" and "idle \<le> MAX_TIME_FIELD_VALUE"
  using assms by (auto simp: computeRecordStats_def analyzeEventLog_def createAnalysisAccumulator_def andThen_Inr_iff guard_Inr_iff)

text \<open>A fresh analysis is what the corrections of a read compute anyway.\<close>

lemma fresh_active:
  assumes "valid_log es"
  shows "max 0 (measured_span es - ac_idle (measurement idle opts es)) = ac_active (measurement idle opts es)"
proof (cases "es = []")
  case False
  have part: "ac_active (measurement idle opts es) + ac_idle (measurement idle opts es) = sum_list (delays_of es)"
    using sum_list_partition [of "\<lambda>d. d < idle" "delays_of es"] by (simp add: measurement_def Let_def not_less)
  have "0 \<le> d" if "d \<in> set (delays_of es)" for d
    using delays_nonneg [of es d] that valid_log_ordered [OF assms] by (simp add: ordered_log_def)
  then have "0 \<le> ac_active (measurement idle opts es)"
    by (auto simp: measurement_def Let_def intro: sum_list_nonneg)
  moreover have "sum_list (delays_of es) = measured_span es"
    using delays_telescope [OF False] False by (cases es) (auto simp: measured_span_def)
  ultimately show ?thesis using part by simp
qed (simp add: measurement_def measured_span_def Let_def)

lemma fresh_signal_unchanged:
  "upgrade_timing span (upgradeLegacyEditTopologySignal (timing_signal s m ps) es) = timing_signal s m ps"
  "upgrade_timing span (upgradeLegacyEditTopologySignal (edit_signal s m) es) = edit_signal s m"
  by (simp_all add: upgrade_timing_def upgradeLegacyEditTopologySignal_def timing_signal_def edit_signal_def Let_def
      TIMING_DISTRIBUTION_ANALYZER_ID_def EDIT_TOPOLOGY_ANALYZER_ID_def TIMING_ANALYZER_VERSION_def EDIT_TOPOLOGY_ANALYZER_VERSION_def)

lemma fresh_record_reads_back:
  assumes "valid_log (sr_events r)" and "sr_stats r = stats_of (measurement idle opts (sr_events r)) m ps"
    and "sr_signals r = [timing_signal (measurement idle opts (sr_events r)) m ps, edit_signal (measurement idle opts (sr_events r)) m]"
  shows "toGetRecordResponse r = \<lparr>gr_manifest = sr_manifest r, gr_events = sr_events r, gr_stats = sr_stats r,
     gr_signals = sr_signals r, gr_observation = sr_observation r\<rparr>"
proof -
  have idle: "rs_idle_time_ms (stats_of s m ps) = ac_idle s" for s by (simp add: stats_of_def)
  have sizes: "st_inserted (aggregateMutationSizes es) = ac_inserted (measurement idle opts es)"
    "st_deleted (aggregateMutationSizes es) = ac_deleted (measurement idle opts es)"
    "st_largest (aggregateMutationSizes es) = ac_largest (measurement idle opts es)" for es
    by (simp_all add: measurement_def Let_def)
  show ?thesis
    by (simp add: toGetRecordResponse_def Let_def assms(2,3) idle fresh_active [OF assms(1)] sizes fresh_signal_unchanged)
      (simp add: stats_of_def)
qed

text \<open>With the default analyzers, a created record carries the closed form of its analysis.\<close>

definition analyzed :: "api_options \<Rightarrow> int option \<Rightarrow> manifest \<Rightarrow> event_log \<Rightarrow> record_stats \<times> signal list" where
  "analyzed op start m es = (let s = measurement (op_idle op) (started start) es; ps = percentiles_of (op_rank op) (delays_of es)
     in (stats_of s m ps, [timing_signal s m ps, edit_signal s m]))"

lemma analyzed_ingested [simp]: "analyzed op start (m\<lparr>mf_ingested_server_t := t\<rparr>) es = analyzed op start m es"
  by (simp add: analyzed_def)

lemma post_values:
  assumes "noble_ok nb" and "store_ok st" and "postRecord nb op st r obs = Inr (st', reply)" and "rp_created reply"
    and "op_analyzers (in_api op) = None"
  defines "start \<equiv> startingLength (wr_manifest r) (parent_length st (wr_manifest r))"
  shows "\<exists>stored. (\<forall>k \<in> {rp_record_hash reply, rp_short_signature reply}. findByShortSignatureOrHash st' k = Some stored)
     \<and> rp_record_hash reply = mf_record_hash (wr_manifest r) \<and> \<not> sr_chunked stored \<and> sr_manifest stored = wr_manifest (stamped (in_api op) r)
     \<and> sr_events stored = wr_events r \<and> valid_log (wr_events r)
     \<and> 0 \<le> op_idle (in_api op) \<and> op_idle (in_api op) \<le> MAX_TIME_FIELD_VALUE \<and> mf_event_count (wr_manifest r) = int (length (wr_events r))
     \<and> (sr_stats stored, sr_signals stored) = analyzed (in_api op) start (wr_manifest r) (wr_events r)
     \<and> computeRecordStats (op_rank (in_api op)) (stamped (in_api op) r) (op_idle (in_api op)) start = Inr (sr_stats stored)
     \<and> posted_signals (in_api op) (stamped (in_api op) r) = Inr (sr_signals stored)"
proof -
  let ?op = "in_api op" and ?r = "stamped (in_api op) r"
  from post_created [OF assms(1-4)] obtain res stats signals signature observation stored where
    c: "check_posted nb ?op r obs = Inr res" and
    s: "computeRecordStats (op_rank ?op) ?r (op_idle ?op) start = Inr stats" "posted_signals ?op ?r = Inr signals" and
    stored: "stored = stored_of (op_now ?op) (post_input op r signature stats signals observation) observation" and
    reply: "reply = \<lparr>rp_record_hash = mf_record_hash (wr_manifest r), rp_short_signature = signature, rp_created = True\<rparr>" and
    f: "\<forall>k. has_id stored k \<longrightarrow> findByShortSignatureOrHash st' k = Some stored"
    unfolding start_def by blast
  note v = check_posted_Inr [OF c]
  have ok: "record_ok (op_parses ?op) nb ?r"
    using verifyRecord_spec [OF assms(1), of "op_parses ?op" ?r] v by auto
  then have log: "valid_log (wr_events r)" "wr_events r \<noteq> []" "mf_event_count (wr_manifest ?r) = int (length (wr_events r))"
    by (simp_all add: record_ok_def Let_def)
  have r: "\<lparr>wr_manifest = wr_manifest ?r, wr_events = wr_events r\<rparr> = ?r" by (simp add: stamped_def)
  note idle = stats_idle [OF s(1)]
  have "(stats, signals) = analyzed ?op start (wr_manifest ?r) (wr_events r)"
    using fresh_stats [OF log(1) idle log(3), of "op_rank ?op" start] s
      fresh_signals [OF log(1,2) assms(5) idle, of "wr_manifest ?r" start] unfolding r by (simp add: analyzed_def Let_def)
  moreover have "sr_manifest stored = wr_manifest ?r" "sr_events stored = wr_events r" "sr_stats stored = stats"
    "sr_signals stored = signals" "\<not> sr_chunked stored"
    by (simp_all add: stored stored_of_def post_input_def)
  moreover have "has_id stored (rp_record_hash reply)" "has_id stored (rp_short_signature reply)"
    by (simp_all add: has_id_def stored reply)
  ultimately show ?thesis using f log idle s reply by (intro exI [of _ stored]) simp
qed

section \<open>Properties\<close>

text \<open>C19: Only verified, content-free records are published. Whenever posting a record creates it,
  \<open>verifyRecord\<close> accepts the stamped record, the body named no content at any depth, and the
  record is found under its hash and under the signature returned, with the events that were
  posted and the statistics of those events.\<close>

theorem posted_record_sound:
  assumes "noble_ok nb" and "store_ok st" and "postRecord nb op st r obs = Inr (st', reply)" and "rp_created reply"
  shows "\<exists>res stored. verifyRecord (op_parses (in_api op)) nb (stamped (in_api op) r) = Inr res \<and> vr_valid res
     \<and> content_free (record_body r obs) \<and> rp_record_hash reply = mf_record_hash (wr_manifest r)
     \<and> (\<forall>k \<in> {rp_record_hash reply, rp_short_signature reply}. findByShortSignatureOrHash st' k = Some stored)
     \<and> sr_manifest stored = wr_manifest (stamped (in_api op) r) \<and> sr_events stored = wr_events r
     \<and> computeRecordStats (op_rank (in_api op)) (stamped (in_api op) r) (op_idle (in_api op))
         (startingLength (wr_manifest r) (parent_length st (wr_manifest r))) = Inr (sr_stats stored)"
proof -
  from post_created [OF assms] obtain res stats signals signature observation stored where
    c: "check_posted nb (in_api op) r obs = Inr res" and
    s: "computeRecordStats (op_rank (in_api op)) (stamped (in_api op) r) (op_idle (in_api op))
         (startingLength (wr_manifest r) (parent_length st (wr_manifest r))) = Inr stats" and
    stored: "stored = stored_of (op_now (in_api op)) (post_input op r signature stats signals observation) observation" and
    reply: "reply = \<lparr>rp_record_hash = mf_record_hash (wr_manifest r), rp_short_signature = signature, rp_created = True\<rparr>" and
    f: "\<forall>k. has_id stored k \<longrightarrow> findByShortSignatureOrHash st' k = Some stored"
    by blast
  note v = check_posted_Inr [OF c]
  have ids: "has_id stored (rp_record_hash reply)" "has_id stored (rp_short_signature reply)"
    by (simp_all add: has_id_def stored reply)
  have fields: "sr_manifest stored = wr_manifest (stamped (in_api op) r)" "sr_events stored = wr_events r" "sr_stats stored = stats"
    by (simp_all add: stored stored_of_def post_input_def)
  have "content_free (record_body r obs)"
    using v(1) visit_clean(1) [of "[]" 0 "\<lparr>wk_visited = 0, wk_errors = []\<rparr>" "record_body r obs"]
    by (auto simp: findContentBearingFields_def clean_def split: if_splits)
  with v f ids fields s reply show ?thesis by (intro exI [of _ res] exI [of _ stored]) auto
qed

text \<open>C24: A posted record reads back as posted. With the default analyzers, getting a record just created,
  by its hash or its signature, returns the stamped manifest, the posted events, and exactly the
  statistics and signals computed from them: the corrections made for old records change nothing.\<close>

theorem posted_record_reads_back:
  assumes "noble_ok nb" and "store_ok st" and "postRecord nb op st r obs = Inr (st', reply)" and "rp_created reply"
    and "op_analyzers (in_api op) = None" and "k \<in> {rp_record_hash reply, rp_short_signature reply}"
  shows "\<exists>g. getRecord nb st' k = Inr g \<and> gr_manifest g = wr_manifest (stamped (in_api op) r) \<and> gr_events g = wr_events r
     \<and> computeRecordStats (op_rank (in_api op)) (stamped (in_api op) r) (op_idle (in_api op))
         (startingLength (wr_manifest r) (parent_length st (wr_manifest r))) = Inr (gr_stats g)
     \<and> posted_signals (in_api op) (stamped (in_api op) r) = Inr (gr_signals g)"
proof -
  let ?s = "startingLength (wr_manifest r) (parent_length st (wr_manifest r))"
  from post_values [OF assms(1-5)] obtain stored where
    f: "\<forall>k \<in> {rp_record_hash reply, rp_short_signature reply}. findByShortSignatureOrHash st' k = Some stored" "\<not> sr_chunked stored" and
    fields: "sr_manifest stored = wr_manifest (stamped (in_api op) r)" "sr_events stored = wr_events r" "valid_log (wr_events r)" and
    a: "(sr_stats stored, sr_signals stored) = analyzed (in_api op) ?s (wr_manifest r) (wr_events r)" and
    s: "computeRecordStats (op_rank (in_api op)) (stamped (in_api op) r) (op_idle (in_api op)) ?s = Inr (sr_stats stored)"
      "posted_signals (in_api op) (stamped (in_api op) r) = Inr (sr_signals stored)"
    by blast
  have "getRecord nb st' k = Inr (toGetRecordResponse stored)"
    using f assms(6) by (auto simp: getRecord_def)
  also have "toGetRecordResponse stored = \<lparr>gr_manifest = sr_manifest stored, gr_events = sr_events stored, gr_stats = sr_stats stored,
     gr_signals = sr_signals stored, gr_observation = sr_observation stored\<rparr>"
    using fresh_record_reads_back [of stored] fields(2,3) a by (simp add: analyzed_def Let_def)
  finally show ?thesis using s fields by simp
qed

text \<open>C23: Publishing whole and publishing in chunks agree. From the same store, with the default
  analyzers, a record created by one post and a record created by an upload of the same manifest and
  events in any chunks carry the same statistics and the same signals.\<close>

theorem whole_chunked_agree:
  assumes "noble_ok nb" and "rank_ok (op_rank (in_api op))" and "store_ok st" and "op_analyzers (in_api op) = None"
    and "postRecord nb op st r obs = Inr (st1, reply1)" and "rp_created reply1"
    and "map_of (cs_uploads (rst_chunked st)) k = None" and "concat chunks = wr_events r"
    and "publish_in_chunks nb (in_api op) st k (wr_manifest r) obs' chunks = Inr (st2, reply2)" and "rp_created reply2"
  shows "\<exists>r1 r2. findByShortSignatureOrHash st1 (mf_record_hash (wr_manifest r)) = Some r1
     \<and> findByShortSignatureOrHash st2 (mf_record_hash (wr_manifest r)) = Some r2
     \<and> sr_stats r1 = sr_stats r2 \<and> sr_signals r1 = sr_signals r2"
proof -
  let ?m = "wr_manifest r" and ?s = "startingLength (wr_manifest r) (parent_length st (wr_manifest r))"
  from post_values [OF assms(1,3,5,6,4)] obtain r1 where
    r1: "findByShortSignatureOrHash st1 (mf_record_hash ?m) = Some r1"
      "(sr_stats r1, sr_signals r1) = analyzed (in_api op) ?s ?m (wr_events r)" and
    log: "valid_log (wr_events r)" "0 \<le> op_idle (in_api op)" "op_idle (in_api op) \<le> MAX_TIME_FIELD_VALUE" "mf_event_count ?m = int (length (wr_events r))"
    by auto
  from publish_sound [OF assms(1,2,7,9,10)] obtain r2 where
    r2: "findByShortSignatureOrHash st2 (mf_record_hash ?m) = Some r2"
      "published_data (in_api op) (start_of st ?m) ?m (wr_events r) = Inr (sr_stats r2, sr_signals r2)"
    using assms(8) by auto
  have "start_of st ?m = ?s" by (simp add: start_of_def parent_length_def)
  then have "(sr_stats r2, sr_signals r2) = analyzed (in_api op) ?s ?m (wr_events r)"
    using r2(2) published_data_eq [OF log, of ?s] assms(4) by (simp add: analyzed_def Let_def)
  then have "(sr_stats r1, sr_signals r1) = (sr_stats r2, sr_signals r2)" using r1(2) by (rule trans [OF _ sym, rotated])
  then show ?thesis using r1(1) r2(1) by blast
qed

section \<open>Posting again\<close>

lemma find_first_same:
  assumes "List.find P xs = Some x" and "\<And>y. y \<in> set xs \<Longrightarrow> \<not> P y \<Longrightarrow> \<not> Q y" and "Q x"
  shows "List.find Q xs = Some x"
  using assms by (induction xs) (auto split: if_splits)

lemma candidates_not_hash:
  assumes "c \<in> set (prefixes_from n (encoded_hash nb h) @ prefixes_from n (88 # encoded_hash nb h))"
  shows "\<not> is_hash_id c"
proof -
  have "set c \<subseteq> set (88 # encoded_hash nb h)"
    using assms by (auto simp: prefixes_from_def dest: in_set_takeD split: if_splits simp del: upt_Suc)
  then show ?thesis
    using base58Encode_chars alphabet_members(1) by (intro alphabet_not_hash_id) (auto simp: encoded_hash_def)
qed

text \<open>A signature that was generated is generated again once the record has it.\<close>

lemma signature_stable:
  assumes "is_b3_hash h" and "generateShortSignature nb look h n = Inr s"
    and "\<And>c x. \<not> is_hash_id c \<Longrightarrow> look c = Some x \<Longrightarrow> look' c = Some x" and "look' s = Some x" and "hash_of x = h"
  shows "generateShortSignature nb look' h n = Inr s"
proof -
  let ?cs = "prefixes_from n (encoded_hash nb h) @ prefixes_from n (88 # encoded_hash nb h)"
  have "List.find (usable look' h) ?cs = Some s"
  proof (rule find_first_same)
    show "List.find (usable look h) ?cs = Some s"
      using assms(2) by (simp add: generate_unfold [OF assms(1)] split: option.splits)
    show "\<not> usable look' h c" if "c \<in> set ?cs" "\<not> usable look h c" for c
      using that(2) assms(3) [OF candidates_not_hash [OF that(1)]] by (auto simp: usable_def split: option.splits)
    show "usable look' h s"
      using generated_signature(1) [OF assms(1,2)] assms(4,5) by (simp add: usable_def)
  qed
  then show ?thesis by (simp add: generate_unfold [OF assms(1)])
qed

lemma saveRecord_twice:
  assumes "saveRecord nb ck st input = Inr (st', saved)" and "sa_created saved"
    and "save_hash input' = save_hash input" and "sv_short_signature input' = sv_short_signature input"
  shows "saveRecord nb ck' st' input' = Inr (st', \<lparr>sa_stored = sa_stored saved, sa_created = False\<rparr>)"
proof -
  let ?h = "save_hash input"
  have absent: "findCompleted (rst_chunked st) ?h = None" "map_of (rst_by_hash st) ?h = None"
    using assms(1,2) by (auto simp: saveRecord_def Let_def save_hash_def guard_Inr_iff split: option.splits)
  with assms(1,2) obtain st1 obs where b: "bind_session nb ck st input = Inr (st1, obs)"
    and st': "st' = st1\<lparr>rst_by_hash := AList.update ?h (sa_stored saved) (rst_by_hash st1),
                          rst_by_short := AList.update (sv_short_signature input) ?h (rst_by_short st1)\<rparr>"
    and stored: "sa_stored saved = stored_of ck input obs"
    by (auto simp: saveRecord_def Let_def save_hash_def guard_Inr_iff split: sum.splits)
  have e: "cs_completed (rst_chunked st') = cs_completed (rst_chunked st)"
    using bind_session_frame(3) [OF b] by (simp add: st')
  have "findCompleted (rst_chunked st') ?h = None" using absent(1) unfolding findCompleted_def e .
  moreover have "map_of (rst_by_hash st') ?h = Some (sa_stored saved)" by (simp add: st' update_conv')
  ultimately show ?thesis
    using assms(3,4) by (simp add: saveRecord_def Let_def save_hash_def [symmetric] stored guard_def)
qed

lemma store_grows:
  assumes "store_ok st" and "store_ok st'" and "set (published_records st) \<subseteq> set (published_records st')"
    and "findByShortSignatureOrHash st k = Some x"
  shows "findByShortSignatureOrHash st' k = Some x"
  using assms find_published by blast

lemma recordExists_published:
  assumes "store_ok st" and "is_hash_id k"
  shows "recordExists st k \<longleftrightarrow> findByShortSignatureOrHash st k \<noteq> None"
  using assms(2) by (auto simp: recordExists_def findByShortSignatureOrHash_def findByRecordHash_def split: option.splits)

text \<open>Posting is idempotent. Posting a record again that a post just created, without binding an
  observed session, succeeds without creating anything: the store stays as it is and the same hash
  and the same short signature are returned.\<close>

theorem post_idempotent:
  assumes "noble_ok nb" and "store_ok st" and "postRecord nb op st r obs = Inr (st', reply)" and "rp_created reply"
    and "\<not> js_truthy obs \<or> isUnobservedObservationRequest obs"
  shows "postRecord nb op st' r obs = Inr (st', reply\<lparr>rp_created := False\<rparr>)"
proof -
  let ?op = "in_api op" and ?m = "wr_manifest r" and ?h = "mf_record_hash (wr_manifest r)"
  from assms(3) obtain res observation signature stats signals saved where
    c: "check_posted nb ?op r obs = Inr res" and
    parent: "\<not> (truthy (mf_parent_record ?m) \<and> \<not> recordExists st (the (mf_parent_record ?m)))" and
    o: "requested_observation nb op st obs (stamped ?op r) (vr_chain res) = Inr observation" and
    g: "generateShortSignature nb (findByShortSignature st) ?h (op_initial_length ?op) = Inr signature" and
    stats: "computeRecordStats (op_rank ?op) (stamped ?op r) (op_idle ?op) (startingLength ?m (parent_length st ?m)) = Inr stats"
      "overflow stats = []" "posted_signals ?op (stamped ?op r) = Inr signals" and
    s: "saveRecord nb (op_now ?op) st (post_input op r signature stats signals observation) = Inr (st', saved)" and
    reply: "reply = \<lparr>rp_record_hash = hash_of (sa_stored saved), rp_short_signature = sr_short_signature (sa_stored saved),
                  rp_created = sa_created saved\<rparr>"
    unfolding postRecord_Inr by blast
  note v = check_posted_Inr [OF c]
  have "record_ok (op_parses ?op) nb (stamped ?op r)"
    using verifyRecord_spec [OF assms(1), of "op_parses ?op" "stamped ?op r"] v by auto
  then have m: "is_b3_hash ?h" "\<forall>p. mf_parent_record ?m = Some p \<longrightarrow> is_b3_hash p"
    using validateManifest_ok [of "op_parses ?op" "wr_manifest (stamped ?op r)"]
    by (auto simp: record_ok_def Let_def manifest_ok_def)
  from store_ok_save [OF assms(2) posted_allowed [OF assms(1,2) c g] s]
  have ok: "store_ok st'" and grow: "set (published_records st) \<subseteq> set (published_records st')"
    and in': "sa_stored saved \<in> set (published_records st')" and hash: "hash_of (sa_stored saved) = ?h" by auto
  have created: "sa_created saved" using assms(4) reply by simp
  with saveRecord_created [OF s] have sig: "sr_short_signature (sa_stored saved) = signature" by auto
  have keep: "findByShortSignatureOrHash st k = Some x \<Longrightarrow> findByShortSignatureOrHash st' k = Some x" for k x
    by (rule store_grows [OF assms(2) ok grow])
  have short: "findByShortSignature x c = findByShortSignatureOrHash x c" if "\<not> is_hash_id c" for x c
    using that by (simp add: findByShortSignatureOrHash_def)
  have "findByShortSignatureOrHash st' signature = Some (sa_stored saved)"
    using in' sig by (simp add: find_published [OF ok])
  then have g': "generateShortSignature nb (findByShortSignature st') ?h (op_initial_length ?op) = Inr signature"
    using signature_stable [OF m(1) g] keep generated_signature(2) [OF m(1) g] hash by (simp add: short)
  have found: "\<exists>x. findByShortSignatureOrHash st p = Some x" if "mf_parent_record ?m = Some p" "p \<noteq> []" for p
    using that parent m(2) recordExists_published [OF assms(2), of p] by (auto simp: truthy_def is_b3_hash_def is_hash_id_def)
  have len: "finalLength x p = (case findByShortSignatureOrHash x p of None \<Rightarrow> None | Some r \<Rightarrow> rs_observed_final_length (sr_stats r))"
    if "is_b3_hash p" for x p
    using that by (simp add: finalLength_def findByShortSignatureOrHash_def is_b3_hash_def is_hash_id_def)
  have pl: "parent_length st' ?m = parent_length st ?m"
    using found keep m(2) by (fastforce simp: parent_length_def truthy_def len split: option.splits)
  have ex: "\<not> (truthy (mf_parent_record ?m) \<and> \<not> recordExists st' (the (mf_parent_record ?m)))"
    using found keep m(2) recordExists_published [OF ok] by (fastforce simp: truthy_def is_b3_hash_def is_hash_id_def)
  have o': "requested_observation nb op st' obs (stamped ?op r) (vr_chain res) = Inr observation"
    using o assms(5) by (auto simp: requested_observation_def split: if_splits)
  have s': "saveRecord nb (op_now ?op) st' (post_input op r signature stats signals observation)
      = Inr (st', \<lparr>sa_stored = sa_stored saved, sa_created = False\<rparr>)"
    by (rule saveRecord_twice [OF s created]) simp_all
  show ?thesis
    unfolding postRecord_Inr pl
    by (rule exI [of _ res], rule exI [of _ observation], rule exI [of _ signature], rule exI [of _ stats],
        rule exI [of _ signals], rule exI [of _ "\<lparr>sa_stored = sa_stored saved, sa_created = False\<rparr>"])
      (use c ex o' g' stats s' reply in simp)
qed

section \<open>A concrete record\<close>

definition sample_ingest :: ingest_options where
  "sample_ingest = \<lparr>in_api = sample_api, in_sha = (\<lambda>s. s), in_new_token = replicate 32 65\<rparr>"

lemma sample_body_content:
  "findContentBearingFields (record_body (sample_record\<lparr>wr_manifest := (wr_manifest sample_record)\<lparr>mf_record_hash := h\<rparr>\<rparr>) JUndefined) = []"
  by code_simp

lemma sample_parse:
  "\<exists>i. parseIngestInput (record_body (sample_record\<lparr>wr_manifest := (wr_manifest sample_record)\<lparr>mf_record_hash := h\<rparr>\<rparr>) JUndefined) = Inr i
     \<and> validatePublicManifestFields (ii_manifest i) = []"
proof -
  have "case parseIngestInput (record_body (sample_record\<lparr>wr_manifest := (wr_manifest sample_record)\<lparr>mf_record_hash := h\<rparr>\<rparr>) JUndefined) of
      Inl e \<Rightarrow> False | Inr i \<Rightarrow> validatePublicManifestFields (ii_manifest i) = []"
    by code_simp
  then show ?thesis by (simp split: sum.splits)
qed

lemma sample_event_errors: "event_errors 0 [] [sample_event, sample_paste] = []"
  by code_simp

lemma sample_stamped_ok: "record_ok (\<lambda>_. True) sample_noble (stamped sample_api sample_record)"
proof -
  have "validateManifest (\<lambda>_. True) (manifest_json (wr_manifest (stamped sample_api sample_record))) = []"
    using sample_hash_b3 sample_log_valid(2) sample_producer_ok
    by (simp add: validateManifest_def sample_record_def Let_def check_simps in_int_range_def in_ms_range_def
        validateNullableB3_def validateNullableTimestamp_def validateAttestations_def)
      (simp add: manifest_json_def field_def has_field_def parse_enum_def FORMAT_VERSIONS_def
        MAX_INTEGER_FIELD_VALUE_def MAX_TIME_FIELD_VALUE_def)
  then show ?thesis
    using sample_record_ok by (simp add: record_ok_def Let_def sealed_hash_def)
qed

lemma sample_checked: "\<exists>res. check_posted sample_noble sample_api sample_record JUndefined = Inr res"
proof -
  have h: "sample_record\<lparr>wr_manifest := (wr_manifest sample_record)\<lparr>mf_record_hash := sample_hash\<rparr>\<rparr> = sample_record"
    by (simp add: sample_record_def)
  obtain res where "verifyRecord (op_parses sample_api) sample_noble (stamped sample_api sample_record) = Inr res" "vr_valid res"
    using verifyRecord_spec [OF sample_noble_ok, of "op_parses sample_api" "stamped sample_api sample_record"] sample_stamped_ok
    by (auto simp: sample_api_def)
  moreover have "wr_events sample_record = [sample_event, sample_paste]" by (simp add: sample_record_def)
  ultimately show ?thesis
    using sample_body_content [of sample_hash] sample_parse [of sample_hash] sample_event_errors unfolding h
    by (auto simp: check_posted_def Let_def guard_def fail_as_def)
qed

lemma overflow_Nil_iff: "overflow stats = [] \<longleftrightarrow> (\<forall>x \<in> set (stats_numbers stats). \<not> out_of_range x)"
proof -
  have "set (stats_numbers stats) = snd ` set (enumerate 0 (stats_numbers stats))"
    using map_snd_enumerate [of 0 "stats_numbers stats"] by (metis set_map)
  then show ?thesis by (simp add: overflow_def filter_empty_conv)
qed

lemma sample_posted:
  "\<exists>st' reply. postRecord sample_noble sample_ingest empty_store sample_record JUndefined = Inr (st', reply) \<and> rp_created reply"
proof -
  let ?m = "wr_manifest sample_record" and ?es = "[sample_event, sample_paste]"
  have api: "in_api sample_ingest = sample_api" "op_idle sample_api = 30000" "op_rank sample_api = sample_rank" "op_analyzers sample_api = None"
    by (simp_all add: sample_ingest_def sample_api_def)
  have m: "mf_parent_record ?m = None" "mf_record_hash ?m = sample_hash" "mf_event_count ?m = 2" "wr_events sample_record = ?es"
    "mf_format_version ?m = V0_1"
    by (simp_all add: sample_record_def)
  have r: "\<lparr>wr_manifest = wr_manifest (stamped sample_api sample_record), wr_events = ?es\<rparr> = stamped sample_api sample_record"
    by (simp add: stamped_def m(4) [symmetric])
  obtain res where c: "check_posted sample_noble sample_api sample_record JUndefined = Inr res" using sample_checked by blast
  obtain signature where g: "generateShortSignature sample_noble (findByShortSignature empty_store) sample_hash (op_initial_length sample_api) = Inr signature"
    using sample_generated m(2) by auto
  let ?s = "stats_of (measurement 30000 (started (Some 0)) ?es) ?m (percentiles_of sample_rank (delays_of ?es))"
  have stats: "computeRecordStats sample_rank (stamped sample_api sample_record) 30000 (Some 0) = Inr ?s"
    using fresh_stats [OF sample_log_valid(1), of 30000 "wr_manifest (stamped sample_api sample_record)" sample_rank "Some 0"] m(3)
    unfolding r by (simp add: MAX_TIME_FIELD_VALUE_def)
  have over: "overflow ?s = []"
    using sample_stats_in_range by (simp add: overflow_Nil_iff list_all_iff stats_numbers_hash)
  obtain signals where signals: "posted_signals sample_api (stamped sample_api sample_record) = Inr signals"
    using fresh_signals [OF sample_log_valid(1) _ api(4), of "wr_manifest (stamped sample_api sample_record)" "Some 0"] api(2)
    unfolding r by (auto simp: MAX_TIME_FIELD_VALUE_def)
  let ?i = "post_input sample_ingest sample_record signature ?s signals None"
  obtain st' saved where s: "saveRecord sample_noble (op_now sample_api) empty_store ?i = Inr (st', saved)" "sa_created saved"
    by (simp add: saveRecord_def empty_store_def findCompleted_def bind_session_def truthy_def guard_def Let_def post_input_def)
  have "startingLength ?m (parent_length empty_store ?m) = Some 0" by (simp add: startingLength_def m)
  then have "postRecord sample_noble sample_ingest empty_store sample_record JUndefined = Inr (st', \<lparr>rp_record_hash = hash_of (sa_stored saved),
      rp_short_signature = sr_short_signature (sa_stored saved), rp_created = sa_created saved\<rparr>)"
    unfolding postRecord_Inr api
    by (intro exI [of _ res] exI [of _ None] exI [of _ signature] exI [of _ ?s] exI [of _ signals] exI [of _ saved])
      (use c g stats over signals s in \<open>simp add: m(1,2) truthy_def requested_observation_def\<close>)
  with s(2) show ?thesis by auto
qed

lemma posted_record_sound_witness:
  "\<exists>st' reply res stored. postRecord sample_noble sample_ingest empty_store sample_record JUndefined = Inr (st', reply) \<and> rp_created reply
     \<and> verifyRecord (op_parses sample_api) sample_noble (stamped sample_api sample_record) = Inr res \<and> vr_valid res
     \<and> findByShortSignatureOrHash st' (rp_short_signature reply) = Some stored"
proof -
  obtain st' reply where p: "postRecord sample_noble sample_ingest empty_store sample_record JUndefined = Inr (st', reply)" "rp_created reply"
    using sample_posted by blast
  have api: "in_api sample_ingest = sample_api" by (simp add: sample_ingest_def)
  from posted_record_sound [OF sample_noble_ok empty_store_ok p] p show ?thesis unfolding api by blast
qed

lemma posted_record_reads_back_witness:
  "\<exists>st' reply g. postRecord sample_noble sample_ingest empty_store sample_record JUndefined = Inr (st', reply) \<and> rp_created reply
     \<and> getRecord sample_noble st' (rp_short_signature reply) = Inr g \<and> gr_events g = [sample_event, sample_paste]"
proof -
  obtain st' reply where p: "postRecord sample_noble sample_ingest empty_store sample_record JUndefined = Inr (st', reply)" "rp_created reply"
    using sample_posted by blast
  have "op_analyzers (in_api sample_ingest) = None" by (simp add: sample_ingest_def sample_api_def)
  from posted_record_reads_back [OF sample_noble_ok empty_store_ok p this, of "rp_short_signature reply"] p
  show ?thesis by (auto simp: sample_record_def)
qed

lemma whole_chunked_agree_witness:
  "\<exists>st1 reply1 st2 reply2 r1 r2. postRecord sample_noble sample_ingest empty_store sample_record JUndefined = Inr (st1, reply1)
     \<and> publish_in_chunks sample_noble sample_api empty_store sample_session (wr_manifest sample_record) None sample_chunks = Inr (st2, reply2)
     \<and> findByShortSignatureOrHash st1 (mf_record_hash (wr_manifest sample_record)) = Some r1
     \<and> findByShortSignatureOrHash st2 (mf_record_hash (wr_manifest sample_record)) = Some r2
     \<and> sr_stats r1 = sr_stats r2 \<and> sr_signals r1 = sr_signals r2"
proof -
  obtain st1 reply1 where p: "postRecord sample_noble sample_ingest empty_store sample_record JUndefined = Inr (st1, reply1)" "rp_created reply1"
    using sample_posted by blast
  obtain st2 reply2 where c: "publish_in_chunks sample_noble sample_api empty_store sample_session (wr_manifest sample_record) None sample_chunks
       = Inr (st2, reply2)" "rp_created reply2"
    using sample_published by blast
  have api: "in_api sample_ingest = sample_api" "op_analyzers (in_api sample_ingest) = None"
    by (simp_all add: sample_ingest_def sample_api_def)
  have es: "concat sample_chunks = wr_events sample_record" by (simp add: sample_record_def)
  have rank: "rank_ok (op_rank (in_api sample_ingest))" using sample_publication(7) by (simp add: api)
  from whole_chunked_agree [OF sample_noble_ok rank empty_store_ok api(2) p sample_publication(1) es _ c(2)] c p
  show ?thesis unfolding api by blast
qed

lemma post_idempotent_witness:
  "\<exists>st' reply. postRecord sample_noble sample_ingest empty_store sample_record JUndefined = Inr (st', reply)
     \<and> postRecord sample_noble sample_ingest st' sample_record JUndefined = Inr (st', reply\<lparr>rp_created := False\<rparr>)"
proof -
  obtain st' reply where p: "postRecord sample_noble sample_ingest empty_store sample_record JUndefined = Inr (st', reply)" "rp_created reply"
    using sample_posted by blast
  from post_idempotent [OF sample_noble_ok empty_store_ok p] p show ?thesis by auto
qed

end
