(* ===== verification/Session_History.thy ===== *)
theory Session_History
  imports Record_Store
begin

text \<open>
  Observed sessions over the whole life of a store: saving a record and finalizing an upload bind
  sessions, checkpoint requests extend them, and nothing else touches them.
\<close>

section \<open>What a session keeps\<close>

text \<open>A finalized session keeps the record it was finalized for and takes no further checkpoint.\<close>

definition keeps :: "observed_session \<Rightarrow> observed_session \<Rightarrow> bool" where
  "keeps s s' \<longleftrightarrow> os_id s' = os_id s \<and> os_token_hash s' = os_token_hash s
     \<and> set (os_checkpoints s) \<subseteq> set (os_checkpoints s')
     \<and> (truthy (os_finalized s) \<longrightarrow> os_finalized s' = os_finalized s \<and> os_checkpoints s' = os_checkpoints s)"

definition all_keep :: "sessions \<Rightarrow> sessions \<Rightarrow> bool" where
  "all_keep ss ss' \<longleftrightarrow> (\<forall>k s. map_of ss k = Some s \<longrightarrow> (\<exists>s'. map_of ss' k = Some s' \<and> keeps s s'))"

lemma keeps_refl [simp]: "keeps s s"
  by (simp add: keeps_def)

lemma keeps_trans: "keeps a b \<Longrightarrow> keeps b c \<Longrightarrow> keeps a c"
  by (auto simp: keeps_def)

lemma extends_keeps: "extends s s' \<Longrightarrow> keeps s s'"
  by (auto simp: keeps_def extends_def)

lemma all_keep_refl [simp]: "all_keep ss ss"
  by (simp add: all_keep_def)

lemma all_keep_trans: "all_keep a b \<Longrightarrow> all_keep b c \<Longrightarrow> all_keep a c"
  unfolding all_keep_def by (meson keeps_trans)

text \<open>Finalizing a session that is open, or finalized for the same record, keeps it.\<close>

lemma finalize_session:
  assumes "map_of ss k = Some s" and "\<not> (truthy (os_finalized s) \<and> os_finalized s \<noteq> Some h)"
    and "s' = s\<lparr>os_finalized := Some h, os_state := x, os_finalized_at := y\<rparr>"
  shows "all_keep ss (AList.update k s' ss) \<and> (sessions_ok ss \<longrightarrow> sessions_ok (AList.update k s' ss))"
  using assms by (auto simp: all_keep_def keeps_def sessions_ok_def session_ok_def update_conv')

section \<open>Every request keeps the sessions\<close>

definition request_timed :: "store_request \<Rightarrow> bool" where
  "request_timed q = (case q of Checkpoint ck input \<Rightarrow> request_ok (ck, input) | _ \<Rightarrow> True)"

lemma save_sessions:
  assumes "saveRecord nb ck st input = Inr (st', r)"
  shows "all_keep (rst_sessions st) (rst_sessions st') \<and> (sessions_ok (rst_sessions st) \<longrightarrow> sessions_ok (rst_sessions st'))"
proof -
  have bind: "all_keep (rst_sessions st) (rst_sessions st1) \<and> (sessions_ok (rst_sessions st) \<longrightarrow> sessions_ok (rst_sessions st1))"
    if "bind_session nb ck st input = Inr (st1, obs)" for st1 obs
  proof (cases "rst_sessions st1 = rst_sessions st")
    case False
    let ?h = "mf_record_hash (wr_manifest (sv_record input))"
    let ?sid = "(case sv_observation input of None \<Rightarrow> None | Some obs \<Rightarrow> ro_session obs)"
    from that False have t: "truthy ?sid"
      by (cases "truthy ?sid") (simp_all add: bind_session_def Let_def)
    with that obtain s where s: "map_of (rst_sessions st) (the ?sid) = Some s"
      by (cases "map_of (rst_sessions st) (the ?sid)") (simp_all add: bind_session_def Let_def)
    from that t s obtain x y where
      g: "\<not> (truthy (os_finalized s) \<and> os_finalized s \<noteq> Some ?h)" and
      st1: "rst_sessions st1 = AList.update (the ?sid) (s\<lparr>os_finalized := Some ?h, os_state := x, os_finalized_at := y\<rparr>) (rst_sessions st)"
      by (auto simp: bind_session_def Let_def guard_Inr_iff andThen_Inr_iff set_sessions_def simp del: not_Some_eq)
    show ?thesis unfolding st1 by (rule finalize_session [OF s g refl])
  qed simp
  have "rst_sessions st' = rst_sessions st \<or> (\<exists>st1 obs. bind_session nb ck st input = Inr (st1, obs) \<and> rst_sessions st' = rst_sessions st1)"
    using assms
    by (cases "findCompleted (rst_chunked st) (mf_record_hash (wr_manifest (sv_record input)))";
        cases "map_of (rst_by_hash st) (mf_record_hash (wr_manifest (sv_record input)))"; cases "bind_session nb ck st input")
      (auto simp: saveRecord_def Let_def guard_Inr_iff)
  with bind show ?thesis by auto
qed

lemma finalize_sessions:
  assumes "finalize_upload rank ck st k derive = Inr (cs, p)"
  shows "all_keep (rst_sessions st) (cs_sessions cs) \<and> (sessions_ok (rst_sessions st) \<longrightarrow> sessions_ok (cs_sessions cs))"
proof (cases "cs_sessions cs = rst_sessions st")
  case False
  from assms obtain u where u: "map_of (cs_uploads (rst_chunked st)) k = Some u"
    by (auto simp: finalize_upload_def store_finalize_def split: option.splits)
  let ?h = "mf_record_hash (us_manifest u)"
  from assms False u have "bound_session (rst_chunked st) u \<noteq> None"
    by (auto simp: finalize_upload_def store_finalize_def Let_def andThen_Inr_iff split: option.splits if_splits)
  then obtain sid s where b: "bound_session (rst_chunked st) u = Some (sid, s)" by auto
  from assms False u b obtain obs where
    obs: "observationView ck u (Some s) (tip_at (get_or [] (cs_chunks (rst_chunked st)) k)) = Inr obs" and
    cs: "cs_sessions cs = AList.update sid (s\<lparr>os_finalized := Some ?h, os_state := Some (ro_state obs)\<rparr>) (rst_sessions st)"
    by (auto simp: finalize_upload_def store_finalize_def Let_def andThen_Inr_iff split: option.splits if_splits)
  from b obtain token where
    s: "us_observation u = Some (BoundUpload sid token)" "map_of (rst_sessions st) sid = Some s"
    by (auto simp: bound_session_def split: option.splits upload_observation.splits)
  have "\<not> (truthy (os_finalized s) \<and> os_finalized s \<noteq> Some ?h)"
    using obs b s(1) by (auto simp: observationView_def guard_Inr_iff)
  from finalize_session [OF s(2) this, of "s\<lparr>os_finalized := Some ?h, os_state := Some (ro_state obs)\<rparr>" "os_finalized_at s" "Some (ro_state obs)"]
  show ?thesis by (simp add: cs)
qed simp

lemma begin_sessions: "store_begin cs u = Inr (cs', u') \<Longrightarrow> cs_sessions cs' = cs_sessions cs"
  by (auto simp: store_begin_def Let_def guard_Inr_iff split: option.splits)

lemma append_sessions: "store_append cs k offset es transition = Inr (cs', u') \<Longrightarrow> cs_sessions cs' = cs_sessions cs"
  by (auto simp: store_append_def guard_Inr_iff andThen_Inr_iff split: option.splits)

lemma store_step_sessions:
  assumes "request_timed q" and "sessions_ok (rst_sessions st)"
  shows "sessions_ok (rst_sessions (store_step nb rank st q)) \<and> all_keep (rst_sessions st) (rst_sessions (store_step nb rank st q))"
proof (cases q)
  case (Save ck input)
  with assms save_sessions [of nb ck st input] show ?thesis by (auto split: sum.splits)
next
  case (Begin u)
  with assms begin_sessions [of "rst_chunked st" u] show ?thesis by (auto simp: set_chunked_def split: sum.splits)
next
  case (Append k offset es transition)
  with assms append_sessions [of "rst_chunked st" k offset es transition] show ?thesis
    by (auto simp: set_chunked_def split: sum.splits)
next
  case (Finalize ck k derive)
  with assms finalize_sessions [of rank ck st k derive] show ?thesis
    by (auto simp: set_chunked_def split: sum.splits)
next
  case (Checkpoint ck input)
  with assms append_checkpoint_ok [of ck "rst_sessions st" input] extends_keeps show ?thesis
    by (fastforce simp: request_timed_def request_ok_def set_sessions_def all_keep_def)
qed

text \<open>What every history of a store keeps of the sessions, from an invariant and a step.\<close>

locale session_history =
  fixes step :: "'s \<Rightarrow> 'q \<Rightarrow> 's"
    and timed :: "'q \<Rightarrow> bool"
    and good :: "'s \<Rightarrow> bool"
    and kept :: "'s \<Rightarrow> 's \<Rightarrow> bool"
  assumes step_ok: "timed q \<Longrightarrow> good st \<Longrightarrow> good (step st q) \<and> kept st (step st q)"
    and kept_refl: "kept st st"
    and kept_trans: "kept a b \<Longrightarrow> kept b c \<Longrightarrow> kept a c"
begin

lemma run_kept: "list_all timed qs \<Longrightarrow> good st \<Longrightarrow> good (foldl step st qs) \<and> kept st (foldl step st qs)"
proof (induction qs arbitrary: st)
  case (Cons q qs)
  with step_ok [of q st] Cons.IH [of "step st q"] show ?case by (auto intro: kept_trans)
qed (simp add: kept_refl)

end

interpretation sessions: session_history "store_step nb rank" request_timed
  "\<lambda>st. sessions_ok (rst_sessions st)" "\<lambda>st st'. all_keep (rst_sessions st) (rst_sessions st')"
  by unfold_locales (simp_all add: store_step_sessions, metis all_keep_trans)

text \<open>C26: Observation is append-only over the life of the store. However records are saved, uploads
  begun, appended and finalized, and checkpoints requested, refused requests included, a session that
  exists keeps its identity, token and every checkpoint it ever had; its event counts increase
  strictly; and once it is finalized for a record it stays bound to that record and takes no more
  checkpoints.\<close>

theorem sessions_append_only:
  assumes "list_all request_timed (requests @ later)"
    and "map_of (rst_sessions (foldl (store_step nb rank) empty_store requests)) k = Some s"
  shows "\<exists>s'. map_of (rst_sessions (foldl (store_step nb rank) empty_store (requests @ later))) k = Some s' \<and> keeps s s'
     \<and> sorted_wrt (<) (List.map cm_event_count (os_checkpoints s'))"
proof -
  let ?mid = "foldl (store_step nb rank) empty_store requests"
  let ?final = "foldl (store_step nb rank) empty_store (requests @ later)"
  have "sessions_ok (rst_sessions empty_store)" by (simp add: sessions_ok_def empty_store_def)
  then have "sessions_ok (rst_sessions ?mid)"
    using sessions.run_kept [of requests empty_store nb rank] assms(1) by simp
  then have "sessions_ok (rst_sessions ?final) \<and> all_keep (rst_sessions ?mid) (rst_sessions ?final)"
    using sessions.run_kept [of later ?mid nb rank] assms(1) by simp
  with assms(2) show ?thesis unfolding all_keep_def sessions_ok_def session_ok_def by metis
qed

definition sample_checkpoint :: "int \<Rightarrow> store_request" where
  "sample_checkpoint n = Checkpoint (fst (sample_request n)) (snd (sample_request n))"

lemma sessions_append_only_witness:
  "\<exists>s s'. map_of (rst_sessions (foldl (store_step sample_noble sample_rank) empty_store [sample_checkpoint 0])) (js ''s'') = Some s
     \<and> map_of (rst_sessions (foldl (store_step sample_noble sample_rank) empty_store ([sample_checkpoint 0] @ [sample_checkpoint 2]))) (js ''s'') = Some s'
     \<and> keeps s s'"
proof -
  have ok: "list_all request_timed ([sample_checkpoint 0] @ [sample_checkpoint 2])"
    by (simp add: request_timed_def sample_checkpoint_def request_ok_def sample_request_def sample_clock_def clock_ok_def)
  obtain s where s: "map_of (rst_sessions (foldl (store_step sample_noble sample_rank) empty_store [sample_checkpoint 0])) (js ''s'') = Some s"
    by (simp add: sample_checkpoint_def appendObservedCheckpoint_def add_checkpoint_def sample_request_def truthy_def guard_def
        max_event_count_def empty_store_def set_sessions_def Let_def del: js_def)
  from sessions_append_only [OF ok s] s show ?thesis by blast
qed

end
