(* ===== verification/Ingest_History.thy ===== *)
theory Ingest_History
  imports Ingest_Publish Session_History
begin

text \<open>
  Histories of calls to the ingest interface: posts, checkpoint requests and the three calls of a
  chunked upload, in any order and with any options. Each call asks the store only for requests that
  the store allows, so what the store promises of allowed requests holds of every history.
\<close>

section \<open>Calls\<close>

datatype api_call =
    PostRecord writing_record json
  | PostCheckpoint jsstring json
  | BeginUpload jsstring manifest "upload_observation option"
  | AppendChunk jsstring int event_log
  | FinalizeUpload jsstring

text \<open>The store after a call; a call that is refused leaves it as the operation says.\<close>

fun api_step :: "noble \<Rightarrow> record_store \<Rightarrow> ingest_options \<times> api_call \<Rightarrow> record_store" where
  "api_step nb st (op, PostRecord r obs) =
     (case postRecord nb op st r obs of Inl _ \<Rightarrow> st | Inr (st', _) \<Rightarrow> st')"
| "api_step nb st (op, PostCheckpoint k body) = fst (postObservedCheckpoint op st k body)"
| "api_step nb st (op, BeginUpload k m obs) =
     (case api_begin (in_api op) st k m obs of Inl _ \<Rightarrow> st | Inr (st', _) \<Rightarrow> st')"
| "api_step nb st (op, AppendChunk k at es) =
     (case api_append nb (in_api op) st k at es of Inl _ \<Rightarrow> st | Inr (st', _) \<Rightarrow> st')"
| "api_step nb st (op, FinalizeUpload k) =
     (case api_finalize nb (in_api op) st k of Inl _ \<Rightarrow> st | Inr (st', _) \<Rightarrow> st')"

section \<open>Every call is an allowed request to the store\<close>

text \<open>Checkpoint requests that pass the parser count at least one event.\<close>

lemma parsed_count: "parseCheckpointInput body = Inr q \<Longrightarrow> 1 \<le> cq_event_count q"
  by (auto simp: parseCheckpointInput_def Let_def split: option.splits if_splits)

definition asks :: "noble \<Rightarrow> record_store \<Rightarrow> ingest_options \<times> api_call \<Rightarrow> bool" where
  "asks nb st c \<longleftrightarrow> api_step nb st c = st \<or>
     (\<exists>q. request_allowed st q \<and> (clock_ok (op_now (in_api (fst c))) \<longrightarrow> request_timed q)
        \<and> api_step nb st c = store_step nb (op_rank (in_api (fst c))) st q)"

lemma asks_post:
  assumes "noble_ok nb" and "store_ok st"
  shows "asks nb st (op, PostRecord r obs)"
proof (cases "postRecord nb op st r obs")
  case (Inr s)
  obtain st' reply where s: "s = (st', reply)" by (cases s)
  from Inr [unfolded s] obtain res signature stats signals observation saved where
    c: "check_posted nb (in_api op) r obs = Inr res" and
    g: "generateShortSignature nb (findByShortSignature st) (mf_record_hash (wr_manifest r)) (op_initial_length (in_api op)) = Inr signature" and
    sv: "saveRecord nb (op_now (in_api op)) st (post_input op r signature stats signals observation) = Inr (st', saved)"
    unfolding postRecord_Inr by blast
  show ?thesis
    unfolding asks_def
    by (rule disjI2, rule exI [of _ "Save (op_now (in_api op)) (post_input op r signature stats signals observation)"])
      (use posted_allowed [OF assms c g] Inr sv in \<open>simp add: s request_timed_def del: request_allowed.simps\<close>)
qed (simp add: asks_def)

lemma asks_checkpoint: "asks nb st (op, PostCheckpoint k body)"
proof (cases "api_step nb st (op, PostCheckpoint k body) = st")
  case False
  then obtain q where q: "parseCheckpointInput body = Inr q"
    and s: "api_step nb st (op, PostCheckpoint k body)
      = set_sessions (fst (appendObservedCheckpoint (op_now (in_api op)) (rst_sessions st) (checkpoint_of op k q))) st"
    by (auto simp: postObservedCheckpoint_def split: if_splits sum.splits prod.splits)
  show ?thesis
    unfolding asks_def
    by (rule disjI2, rule exI [of _ "Checkpoint (op_now (in_api op)) (checkpoint_of op k q)"])
      (use s parsed_count [OF q] in \<open>simp add: request_timed_def request_ok_def checkpoint_of_def del: api_step.simps\<close>)
qed (simp add: asks_def)

lemma asks_begin: "asks nb st (op, BeginUpload k m obs)"
proof (cases "api_begin (in_api op) st k m obs")
  case (Inr s)
  then obtain u cs u' where v: "validateManifest (op_parses (in_api op)) (manifest_json m) = []"
    and u: "begin_state (in_api op) k m obs (start_of st m) = Inr u"
    and b: "store_begin (rst_chunked st) u = Inr (cs, u')" and s: "fst s = set_chunked cs st"
    by (auto simp: api_begin_def start_of_def [symmetric] guard_Inr_iff andThen_Inr_iff)
  have "us_manifest u = m\<lparr>mf_ingested_server_t := Some (now_iso (op_now (in_api op)))\<rparr>"
    using u by (auto simp: begin_state_def split: sum.splits)
  then have "is_hash_id (mf_record_hash (us_manifest u))"
    using validateManifest_ok [OF v] by (auto simp: manifest_ok_def is_b3_hash_def is_hash_id_def)
  with b s Inr show ?thesis
    unfolding asks_def by (intro disjI2 exI [of _ "Begin u"]) (auto simp: request_timed_def split: prod.splits)
qed (simp add: asks_def)

lemma asks_append: "asks nb st (op, AppendChunk k at es)"
proof (cases "api_append nb (in_api op) st k at es")
  case (Inr s)
  then obtain cs u where "store_append (rst_chunked st) k at es (api_transition nb (in_api op) es) = Inr (cs, u)"
    and "fst s = set_chunked cs st"
    by (auto simp: api_append_def guard_Inr_iff andThen_Inr_iff)
  with Inr api_append_allowed [of st k at es nb "in_api op"] show ?thesis
    unfolding asks_def
    by (intro disjI2 exI [of _ "Append k at es (api_transition nb (in_api op) es)"])
      (auto simp: request_timed_def split: prod.splits simp del: request_allowed.simps)
qed (simp add: asks_def)

text \<open>The uploads of a store were begun with valid manifests, whose hashes are b3 hashes.\<close>

definition uploads_b3 :: "record_store \<Rightarrow> bool" where
  "uploads_b3 st \<longleftrightarrow> (\<forall>u \<in> snd ` set (cs_uploads (rst_chunked st)). is_b3_hash (mf_record_hash (us_manifest u)))"

lemma asks_finalize:
  assumes "store_ok st" and "uploads_b3 st"
  shows "asks nb st (op, FinalizeUpload k)"
proof (cases "api_finalize nb (in_api op) st k")
  case (Inr s)
  then obtain u signature cs p where u: "map_of (cs_uploads (rst_chunked st)) k = Some u"
    and g: "generateShortSignature nb (findByShortSignature st) (mf_record_hash (us_manifest u)) (op_initial_length (in_api op)) = Inr signature"
    and f: "finalize_upload (op_rank (in_api op)) (op_now (in_api op)) st k (api_derive nb (in_api op) signature) = Inr (cs, p)"
    and s: "fst s = set_chunked cs st"
    by (auto simp: api_finalize_def guard_Inr_iff andThen_Inr_iff split: option.splits sum.splits)
  have "is_b3_hash (mf_record_hash (us_manifest u))"
    using assms(2) map_of_SomeD [OF u] by (force simp: uploads_b3_def)
  from api_finalize_allowed [OF assms(1) u this g] f s Inr show ?thesis
    unfolding asks_def
    by (intro disjI2 exI [of _ "Finalize (op_now (in_api op)) k (api_derive nb (in_api op) signature)"])
      (auto simp: request_timed_def split: prod.splits simp del: request_allowed.simps)
qed (simp add: asks_def)

text \<open>Every call keeps that: it changes the uploads at one place at most, and only to a valid manifest.\<close>

definition changes_one :: "record_store \<Rightarrow> record_store \<Rightarrow> bool" where
  "changes_one st st' \<longleftrightarrow> cs_uploads (rst_chunked st') = cs_uploads (rst_chunked st) \<or>
     (\<exists>k u. cs_uploads (rst_chunked st') = AList.update k u (cs_uploads (rst_chunked st))
        \<and> (is_b3_hash (mf_record_hash (us_manifest u)) \<or>
            (\<exists>k' v. map_of (cs_uploads (rst_chunked st)) k' = Some v \<and> us_manifest u = us_manifest v)))"

lemma changes_one_b3: "changes_one st st' \<Longrightarrow> uploads_b3 st \<Longrightarrow> uploads_b3 st'"
proof -
  assume c: "changes_one st st'" and ok: "uploads_b3 st"
  have old: "is_b3_hash (mf_record_hash (us_manifest v))" if "map_of (cs_uploads (rst_chunked st)) k = Some v" for k v
    using ok map_of_SomeD [OF that] by (force simp: uploads_b3_def)
  from c consider "cs_uploads (rst_chunked st') = cs_uploads (rst_chunked st)"
    | k u where "cs_uploads (rst_chunked st') = AList.update k u (cs_uploads (rst_chunked st))"
        "is_b3_hash (mf_record_hash (us_manifest u))"
    using old unfolding changes_one_def by metis
  then show "uploads_b3 st'"
  proof cases
    case 2
    then show ?thesis
      using ok snd_update_subset [of k u "cs_uploads (rst_chunked st)"] unfolding uploads_b3_def by fastforce
  qed (use ok in \<open>simp add: uploads_b3_def\<close>)
qed

lemma save_uploads:
  assumes "saveRecord nb ck st input = Inr (st', r)"
  shows "cs_uploads (rst_chunked st') = cs_uploads (rst_chunked st)"
  using assms
  by (cases "findCompleted (rst_chunked st) (mf_record_hash (wr_manifest (sv_record input)))";
      cases "map_of (rst_by_hash st) (mf_record_hash (wr_manifest (sv_record input)))"; cases "bind_session nb ck st input")
    (auto simp: saveRecord_def Let_def guard_Inr_iff dest: bind_session_frame)

lemma finalize_one_upload:
  assumes "finalize_upload rank ck st k derive = Inr (cs, p)"
  shows "\<exists>u x y. map_of (cs_uploads (rst_chunked st)) k = Some u
     \<and> cs_uploads cs = AList.update k (u\<lparr>us_finalized := x, us_published_owner := y\<rparr>) (cs_uploads (rst_chunked st))"
proof -
  obtain u where u: "map_of (cs_uploads (rst_chunked st)) k = Some u"
    using assms by (auto simp: finalize_upload_def store_finalize_def split: option.splits)
  define found where "found = (case findByShortSignatureOrHash st (mf_record_hash (us_manifest u)) of
      Some r \<Rightarrow> Some r | None \<Rightarrow> findCompleted (rst_chunked st) (mf_record_hash (us_manifest u)))"
  show ?thesis
  proof (cases found)
    case (Some r)
    then have "cs_uploads cs = AList.update k (u\<lparr>us_finalized := Some (hash_of r), us_published_owner := us_published_owner u\<rparr>) (cs_uploads (rst_chunked st))"
      using assms u by (auto simp: finalize_upload_def store_finalize_def Let_def found_def [symmetric])
    with u show ?thesis by blast
  next
    case None
    then have "cs_uploads cs = AList.update k (u\<lparr>us_finalized := Some (mf_record_hash (us_manifest u)), us_published_owner := True\<rparr>) (cs_uploads (rst_chunked st))"
      using assms u by (cases "map_of (cs_delays (rst_chunked st)) k")
        (auto simp: finalize_upload_def store_finalize_def Let_def found_def [symmetric] andThen_Inr_iff)
    with u show ?thesis by blast
  qed
qed

lemma step_changes_one: "changes_one st (api_step nb st c)"
proof -
  obtain op call where c: "c = (op, call)" by (cases c)
  show ?thesis
  proof (cases call)
    case (PostRecord r obs)
    show ?thesis
    proof (cases "postRecord nb op st r obs")
      case (Inr s)
      then obtain st' reply where s: "s = (st', reply)" "postRecord nb op st r obs = Inr (st', reply)" by (cases s) auto
      from s(2) [unfolded postRecord_Inr] save_uploads have "cs_uploads (rst_chunked st') = cs_uploads (rst_chunked st)" by blast
      with Inr show ?thesis by (simp add: c PostRecord s(1) changes_one_def)
    qed (simp add: c PostRecord changes_one_def)
  next
    case (PostCheckpoint k body)
    then show ?thesis
      by (auto simp: c changes_one_def postObservedCheckpoint_def set_sessions_def split: sum.splits prod.splits)
  next
    case (BeginUpload k m obs)
    show ?thesis
    proof (cases "api_begin (in_api op) st k m obs")
      case (Inr s)
      then obtain u cs u' where v: "validateManifest (op_parses (in_api op)) (manifest_json m) = []"
        and u: "begin_state (in_api op) k m obs (start_of st m) = Inr u"
        and b: "store_begin (rst_chunked st) u = Inr (cs, u')" and s: "fst s = set_chunked cs st"
        by (auto simp: api_begin_def start_of_def [symmetric] guard_Inr_iff andThen_Inr_iff)
      have "us_manifest u = m\<lparr>mf_ingested_server_t := Some (now_iso (op_now (in_api op)))\<rparr>"
        using u by (auto simp: begin_state_def split: sum.splits)
      then have b3: "is_b3_hash (mf_record_hash (us_manifest u))"
        using validateManifest_ok [OF v] by (auto simp: manifest_ok_def)
      show ?thesis
      proof (cases "map_of (cs_uploads (rst_chunked st)) (us_upload_id u)")
        case None
        with b have "cs_uploads cs = AList.update (us_upload_id u) u (cs_uploads (rst_chunked st))"
          by (auto simp: store_begin_def)
        with b3 show ?thesis
          using s Inr by (auto simp: c BeginUpload changes_one_def set_chunked_def split: prod.splits)
      next
        case (Some v)
        with b obtain w where "cs_uploads cs = AList.update (us_upload_id u) w (cs_uploads (rst_chunked st))" "us_manifest w = us_manifest v"
          by (auto simp: store_begin_def Let_def guard_Inr_iff)
        with Some show ?thesis
          using s Inr by (auto simp: c BeginUpload changes_one_def set_chunked_def split: prod.splits)
      qed
    qed (simp add: c BeginUpload changes_one_def)
  next
    case (AppendChunk k at es)
    show ?thesis
    proof (cases "api_append nb (in_api op) st k at es")
      case (Inr s)
      then obtain cs u where a: "store_append (rst_chunked st) k at es (api_transition nb (in_api op) es) = Inr (cs, u)"
        and s: "fst s = set_chunked cs st" by (auto simp: api_append_def guard_Inr_iff andThen_Inr_iff)
      from a obtain v where v: "map_of (cs_uploads (rst_chunked st)) k = Some v"
        by (auto simp: store_append_def split: option.splits)
      have "us_manifest (ct_state ct) = us_manifest v" if "api_transition nb (in_api op) es v = Inr ct" for ct
        using api_append_allowed [of st k at es nb "in_api op"] that by auto
      with a v have "cs_uploads cs = cs_uploads (rst_chunked st) \<or>
          (\<exists>w. cs_uploads cs = AList.update k w (cs_uploads (rst_chunked st)) \<and> us_manifest w = us_manifest v)"
        by (auto simp: store_append_def guard_Inr_iff andThen_Inr_iff split: option.splits)
      with v show ?thesis
        using s Inr by (auto simp: c AppendChunk changes_one_def set_chunked_def split: prod.splits)
    qed (simp add: c AppendChunk changes_one_def)
  next
    case (FinalizeUpload k)
    show ?thesis
    proof (cases "api_finalize nb (in_api op) st k")
      case (Inr s)
      then obtain signature cs p where f: "finalize_upload (op_rank (in_api op)) (op_now (in_api op)) st k (api_derive nb (in_api op) signature) = Inr (cs, p)"
        and s: "fst s = set_chunked cs st"
        by (auto simp: api_finalize_def guard_Inr_iff andThen_Inr_iff split: option.splits sum.splits)
      from finalize_one_upload [OF f] obtain v w where "map_of (cs_uploads (rst_chunked st)) k = Some v"
        "cs_uploads cs = AList.update k w (cs_uploads (rst_chunked st))" "us_manifest w = us_manifest v" by auto
      then show ?thesis
        using s Inr by (auto simp: c FinalizeUpload changes_one_def set_chunked_def split: prod.splits)
    qed (simp add: c FinalizeUpload changes_one_def)
  qed
qed

section \<open>What every history keeps\<close>

definition service_ok :: "record_store \<Rightarrow> bool" where
  "service_ok st \<longleftrightarrow> store_ok st \<and> uploads_b3 st"

lemma asks_any:
  assumes "noble_ok nb" and "service_ok st"
  shows "asks nb st c"
proof -
  obtain op call where c: "c = (op, call)" by (cases c)
  show ?thesis
    unfolding c using assms asks_post asks_checkpoint asks_begin asks_append asks_finalize
    by (cases call) (simp_all add: service_ok_def)
qed

lemma api_step_ok:
  assumes "noble_ok nb" and "service_ok st"
  shows "service_ok (api_step nb st c)"
    and "set (published_records st) \<subseteq> set (published_records (api_step nb st c))"
proof -
  have "store_ok (api_step nb st c) \<and> set (published_records st) \<subseteq> set (published_records (api_step nb st c))"
  proof (cases "api_step nb st c = st")
    case False
    with asks_any [OF assms, of c] obtain q where "request_allowed st q" "api_step nb st c = store_step nb (op_rank (in_api (fst c))) st q"
      by (auto simp: asks_def)
    with store_step_ok [of st q nb] assms(2) show ?thesis by (simp add: service_ok_def)
  qed (use assms(2) in \<open>simp add: service_ok_def\<close>)
  then show "service_ok (api_step nb st c)" "set (published_records st) \<subseteq> set (published_records (api_step nb st c))"
    using changes_one_b3 [OF step_changes_one] assms(2) by (simp_all add: service_ok_def)
qed

lemma service_find: "service_ok st \<Longrightarrow> findByShortSignatureOrHash st k = Some r \<longleftrightarrow> r \<in> set (published_records st) \<and> has_id r k"
  by (simp add: service_ok_def find_published has_id_def)

interpretation api: record_registry "api_step nb" "\<lambda>st c. noble_ok nb" service_ok
  "\<lambda>st. set (published_records st)" findByShortSignatureOrHash has_id
  by unfold_locales (simp_all only: api_step_ok service_find)

lemma service_empty: "service_ok empty_store"
  using empty_store_ok by (simp add: service_ok_def uploads_b3_def empty_store_def)

lemma all_calls: "noble_ok nb \<Longrightarrow> all_allowed (\<lambda>st c. noble_ok nb) (api_step nb) st calls"
  by (induction calls arbitrary: st) auto

text \<open>C18: What the interface published stays published. Whatever calls clients make, in any order and
  under any options, a record found under an identifier is found under it, unchanged, after any
  further calls: its manifest, events, statistics, signals, observation and signature never change.\<close>

theorem api_records_permanent:
  assumes "noble_ok nb" and "findByShortSignatureOrHash (foldl (api_step nb) empty_store calls) k = Some r"
  shows "findByShortSignatureOrHash (foldl (api_step nb) empty_store (calls @ later)) k = Some r"
  using api.lookup_forever [OF api.run_good [OF service_empty all_calls [OF assms(1)]] all_calls [OF assms(1)] assms(2)] by simp

lemma api_records_permanent_witness:
  "\<exists>r. findByShortSignatureOrHash (foldl (api_step sample_noble) empty_store [(sample_ingest, PostRecord sample_record JUndefined)]) sample_hash = Some r
     \<and> findByShortSignatureOrHash (foldl (api_step sample_noble) empty_store
          ([(sample_ingest, PostRecord sample_record JUndefined)] @ [(sample_ingest, FinalizeUpload sample_session)])) sample_hash = Some r"
proof -
  obtain st' reply where p: "postRecord sample_noble sample_ingest empty_store sample_record JUndefined = Inr (st', reply)" "rp_created reply"
    using sample_posted by blast
  have "op_analyzers (in_api sample_ingest) = None" by (simp add: sample_ingest_def sample_api_def)
  from post_values [OF sample_noble_ok empty_store_ok p this] obtain r where "findByShortSignatureOrHash st' sample_hash = Some r"
    by (auto simp: sample_record_def)
  then have "findByShortSignatureOrHash (foldl (api_step sample_noble) empty_store [(sample_ingest, PostRecord sample_record JUndefined)]) sample_hash = Some r"
    by (simp add: p)
  from this api_records_permanent [OF sample_noble_ok this, of "[(sample_ingest, FinalizeUpload sample_session)]"] show ?thesis by blast
qed

end
