(* ===== verification/Service_Soundness.thy ===== *)
theory Service_Soundness
  imports Ingest_History
begin

text \<open>
  Every record the service holds is verified. An invariant of the store, kept by every call of the
  interface, ties each published record to the events it was verified with: those stored with it, or
  those of the chunks of the upload that owns it.
\<close>

section \<open>The invariant\<close>

definition sealed_record :: "(jsstring \<Rightarrow> bool) \<Rightarrow> noble \<Rightarrow> manifest \<Rightarrow> event_log \<Rightarrow> bool" where
  "sealed_record parses nb m es \<longleftrightarrow>
     (\<exists>t. record_ok parses nb \<lparr>wr_manifest = m\<lparr>mf_ingested_server_t := t\<rparr>, wr_events = es\<rparr>)"

definition table_events :: "(int \<times> stored_chunk) list \<Rightarrow> event_log" where
  "table_events table = concat (List.map (\<lambda>c. fst (snd c)) table)"

definition owns :: "record_store \<Rightarrow> jsstring \<Rightarrow> upload_state \<Rightarrow> bool" where
  "owns st k u \<longleftrightarrow> map_of (cs_uploads (rst_chunked st)) k = Some u \<and> us_upload_id u = k \<and> us_published_owner u \<and> truthy (us_finalized u)
     \<and> us_finalized u = Some (mf_record_hash (us_manifest u)) \<and> us_next_seq u = mf_event_count (us_manifest u)"

text \<open>The events that the service holds for a published record.\<close>

definition held_events :: "record_store \<Rightarrow> stored_record \<Rightarrow> event_log \<Rightarrow> bool" where
  "held_events st r es \<longleftrightarrow>
     (if sr_chunked r
      then \<exists>k u table. owns st k u \<and> us_manifest u = sr_manifest r \<and> map_of (cs_chunks (rst_chunked st)) k = Some table
             \<and> es = table_events table
      else es = sr_events r)"

definition sound_record :: "(jsstring \<Rightarrow> bool) \<Rightarrow> noble \<Rightarrow> record_store \<Rightarrow> stored_record \<Rightarrow> bool" where
  "sound_record parses nb st r \<longleftrightarrow> (\<exists>es. held_events st r es \<and> sealed_record parses nb (sr_manifest r) es)"

text \<open>An upload that is not finalized is what its chunks in order made of it.\<close>

definition open_upload :: "(jsstring \<Rightarrow> bool) \<Rightarrow> noble \<Rightarrow> record_store \<Rightarrow> jsstring \<Rightarrow> bool" where
  "open_upload parses nb st k \<longleftrightarrow> (\<exists>idle u0 bytes chunks t. upload_holds nb idle u0 (rst_chunked st) k bytes chunks
     \<and> us_upload_id u0 = k \<and> \<not> truthy (us_finalized u0) \<and> \<not> us_published_owner u0
     \<and> validateManifest parses (manifest_json ((us_manifest u0)\<lparr>mf_ingested_server_t := t\<rparr>)) = [])"

definition upload_sound :: "(jsstring \<Rightarrow> bool) \<Rightarrow> noble \<Rightarrow> record_store \<Rightarrow> jsstring \<Rightarrow> upload_state \<Rightarrow> bool" where
  "upload_sound parses nb st k u \<longleftrightarrow>
     (if truthy (us_finalized u) then map_of (cs_delays (rst_chunked st)) k = None \<and> (us_published_owner u \<longrightarrow> owns st k u)
      else open_upload parses nb st k)"

definition service_sound :: "(jsstring \<Rightarrow> bool) \<Rightarrow> noble \<Rightarrow> record_store \<Rightarrow> bool" where
  "service_sound parses nb st \<longleftrightarrow> service_ok st
     \<and> (\<forall>k u. map_of (cs_uploads (rst_chunked st)) k = Some u \<longrightarrow> upload_sound parses nb st k u)
     \<and> (\<forall>r \<in> set (published_records st). sound_record parses nb st r)"

section \<open>Frames\<close>

text \<open>The store changed at most the upload \<open>k\<close>, and kept what an owned record rests on.\<close>

definition other_uploads :: "jsstring option \<Rightarrow> record_store \<Rightarrow> record_store \<Rightarrow> bool" where
  "other_uploads k st st' \<longleftrightarrow> (\<forall>k'. Some k' \<noteq> k \<longrightarrow>
     map_of (cs_uploads (rst_chunked st')) k' = map_of (cs_uploads (rst_chunked st)) k'
     \<and> map_of (cs_chunks (rst_chunked st')) k' = map_of (cs_chunks (rst_chunked st)) k'
     \<and> map_of (cs_delays (rst_chunked st')) k' = map_of (cs_delays (rst_chunked st)) k')"

lemma upload_sound_other:
  assumes "other_uploads k st st'" and "Some k' \<noteq> k" and "upload_sound parses nb st k' u"
  shows "upload_sound parses nb st' k' u"
  using assms by (auto simp: other_uploads_def upload_sound_def open_upload_def upload_holds_def owns_def)

definition owner_kept :: "jsstring option \<Rightarrow> record_store \<Rightarrow> record_store \<Rightarrow> bool" where
  "owner_kept k st st' \<longleftrightarrow> (\<forall>i u. k = Some i \<longrightarrow> owns st i u \<longrightarrow> (\<exists>u'. owns st' i u' \<and> us_manifest u' = us_manifest u)
     \<and> map_of (cs_chunks (rst_chunked st')) i = map_of (cs_chunks (rst_chunked st)) i)"

lemma sound_record_frame:
  assumes "other_uploads k st st'" and "owner_kept k st st'" and "sound_record parses nb st r"
  shows "sound_record parses nb st' r"
proof -
  from assms(3) obtain es where h: "held_events st r es" "sealed_record parses nb (sr_manifest r) es"
    by (auto simp: sound_record_def)
  have "held_events st' r es"
  proof (cases "sr_chunked r")
    case True
    with h(1) obtain i u table where o: "owns st i u" "us_manifest u = sr_manifest r"
      "map_of (cs_chunks (rst_chunked st)) i = Some table" "es = table_events table"
      by (auto simp: held_events_def)
    have "\<exists>u'. owns st' i u' \<and> us_manifest u' = us_manifest u \<and> map_of (cs_chunks (rst_chunked st')) i = Some table"
    proof (cases "k = Some i")
      case True
      with assms(2) o show ?thesis unfolding owner_kept_def by metis
    next
      case False
      with assms(1) o show ?thesis by (auto simp: other_uploads_def owns_def)
    qed
    with o True show ?thesis by (auto simp: held_events_def)
  qed (use h(1) in \<open>simp add: held_events_def\<close>)
  with h(2) show ?thesis by (auto simp: sound_record_def)
qed

lemma service_sound_step:
  assumes "service_sound parses nb st" and "service_ok st'" and "other_uploads k st st'" and "owner_kept k st st'"
    and "\<And>i u. k = Some i \<Longrightarrow> map_of (cs_uploads (rst_chunked st')) i = Some u \<Longrightarrow> upload_sound parses nb st' i u"
    and "\<And>r. r \<in> set (published_records st') \<Longrightarrow> r \<in> set (published_records st) \<or> sound_record parses nb st' r"
  shows "service_sound parses nb st'"
proof -
  have "upload_sound parses nb st' i u" if "map_of (cs_uploads (rst_chunked st')) i = Some u" for i u
  proof (cases "k = Some i")
    case False
    then have "map_of (cs_uploads (rst_chunked st)) i = Some u" using assms(3) that by (auto simp: other_uploads_def)
    with assms(1) upload_sound_other [OF assms(3), of i] False show ?thesis by (auto simp: service_sound_def)
  qed (use assms(5) that in blast)
  moreover have "sound_record parses nb st' r" if "r \<in> set (published_records st')" for r
    using assms(6) [OF that] sound_record_frame [OF assms(3,4)] assms(1) by (auto simp: service_sound_def)
  ultimately show ?thesis using assms(2) by (simp add: service_sound_def)
qed

text \<open>Calls that change no upload.\<close>

lemma service_sound_aside:
  assumes "service_sound parses nb st" and "service_ok st'"
    and "rst_chunked st' = (rst_chunked st)\<lparr>cs_sessions := ss\<rparr>"
    and "\<And>r. r \<in> set (published_records st') \<Longrightarrow> r \<in> set (published_records st) \<or> sound_record parses nb st' r"
  shows "service_sound parses nb st'"
  by (rule service_sound_step [OF assms(1,2), of None]) (use assms(3,4) in \<open>auto simp: other_uploads_def owner_kept_def\<close>)

section \<open>Posts and checkpoints\<close>

lemma save_effect:
  assumes "saveRecord nb ck st input = Inr (st', saved)"
  shows "(\<exists>ss. rst_chunked st' = (rst_chunked st)\<lparr>cs_sessions := ss\<rparr>)
     \<and> set (published_records st') \<subseteq> insert (sa_stored saved) (set (published_records st))
     \<and> (sa_created saved \<longrightarrow> (\<exists>obs. sa_stored saved = stored_of ck input obs))
     \<and> (\<not> sa_created saved \<longrightarrow> st' = st)"
proof -
  have bind: "(\<exists>ss. rst_chunked st1 = (rst_chunked st)\<lparr>cs_sessions := ss\<rparr>) \<and> rst_by_hash st1 = rst_by_hash st"
    if "bind_session nb ck st input = Inr (st1, obs)" for st1 obs
    using that bind_session_frame [OF that]
    by (auto simp: bind_session_def Let_def set_sessions_def guard_Inr_iff andThen_Inr_iff simp del: not_Some_eq
        split: if_splits option.split_asm intro: exI [of _ "cs_sessions (rst_chunked st)"])
  let ?h = "mf_record_hash (wr_manifest (sv_record input))"
  show ?thesis
  proof (cases "findCompleted (rst_chunked st) ?h = None \<and> map_of (rst_by_hash st) ?h = None")
    case True
    with assms obtain st1 obs where b: "bind_session nb ck st input = Inr (st1, obs)"
      and st': "st' = st1\<lparr>rst_by_hash := AList.update ?h (sa_stored saved) (rst_by_hash st1),
                          rst_by_short := AList.update (sv_short_signature input) ?h (rst_by_short st1)\<rparr>"
      and stored: "sa_stored saved = stored_of ck input obs" "sa_created saved"
      by (auto simp: saveRecord_def Let_def guard_Inr_iff split: sum.splits)
    from bind [OF b] obtain ss where s1: "rst_chunked st1 = (rst_chunked st)\<lparr>cs_sessions := ss\<rparr>" "rst_by_hash st1 = rst_by_hash st" by blast
    have "set (published_records st') \<subseteq> insert (sa_stored saved) (set (published_records st))"
      using snd_update_subset [of ?h "sa_stored saved" "rst_by_hash st"] by (auto simp: st' s1 published_records_def)
    then show ?thesis using s1 stored by (auto simp: st')
  next
    case False
    then have "st' = st \<and> \<not> sa_created saved"
      using assms by (cases "findCompleted (rst_chunked st) ?h"; cases "map_of (rst_by_hash st) ?h")
        (auto simp: saveRecord_def Let_def guard_Inr_iff)
    then show ?thesis by (auto intro: exI [of _ "cs_sessions (rst_chunked st)"])
  qed
qed

lemma post_sound:
  assumes "noble_ok nb" and "service_sound (op_parses (in_api op)) nb st"
  shows "service_sound (op_parses (in_api op)) nb (api_step nb st (op, PostRecord r obs))"
proof (cases "postRecord nb op st r obs")
  case (Inr s)
  let ?op = "in_api op"
  obtain st' reply where s: "s = (st', reply)" by (cases s)
  have step: "api_step nb st (op, PostRecord r obs) = st'" using Inr s by simp
  from Inr [unfolded s] obtain res signature stats signals observation saved where
    c: "check_posted nb ?op r obs = Inr res" and
    sv: "saveRecord nb (op_now ?op) st (post_input op r signature stats signals observation) = Inr (st', saved)"
    unfolding postRecord_Inr by blast
  note e = save_effect [OF sv] and v = check_posted_Inr [OF c]
  have ok: "record_ok (op_parses ?op) nb (stamped ?op r)"
    using verifyRecord_spec [OF assms(1), of "op_parses ?op" "stamped ?op r"] v by auto
  have fresh: "sound_record (op_parses ?op) nb st' (stored_of (op_now ?op) (post_input op r signature stats signals observation) ob)" for ob
    using ok unfolding sound_record_def sealed_record_def
    by (intro exI [of _ "wr_events r"] conjI exI [of _ "Some (now_iso (op_now ?op))"])
      (simp_all add: held_events_def stored_of_def post_input_def stamped_def, cases r, simp)
  have "service_ok st'"
    using api_step_ok(1) [OF assms(1), of st "(op, PostRecord r obs)"] assms(2) step by (simp add: service_sound_def)
  moreover from e obtain ss where "rst_chunked st' = (rst_chunked st)\<lparr>cs_sessions := ss\<rparr>" by blast
  moreover have "x \<in> set (published_records st) \<or> sound_record (op_parses ?op) nb st' x" if "x \<in> set (published_records st')" for x
    using e fresh that by (cases "sa_created saved") auto
  ultimately show ?thesis unfolding step by (rule service_sound_aside [OF assms(2)])
qed (use assms(2) in simp)

lemma checkpoint_sound:
  assumes "noble_ok nb" and "service_sound parses nb st"
  shows "service_sound parses nb (api_step nb st (op, PostCheckpoint k body))"
proof -
  let ?st = "api_step nb st (op, PostCheckpoint k body)"
  have same: "set_sessions (rst_sessions st) st = st" by (simp add: set_sessions_def)
  have "\<exists>ss. ?st = set_sessions ss st"
    using same [symmetric] by (auto simp: postObservedCheckpoint_def split: sum.splits prod.splits)
  then obtain ss where ss: "?st = set_sessions ss st" by blast
  have "service_ok ?st" using api_step_ok(1) [OF assms(1)] assms(2) by (simp only: service_sound_def)
  then show ?thesis
  proof (rule service_sound_aside [OF assms(2)])
    show "rst_chunked ?st = (rst_chunked st)\<lparr>cs_sessions := ss\<rparr>" by (simp only: ss) (simp add: set_sessions_def)
    show "r \<in> set (published_records st) \<or> sound_record parses nb ?st r" if "r \<in> set (published_records ?st)" for r
      using that unfolding ss by (simp add: published_records_def set_sessions_def)
  qed
qed

section \<open>Uploads\<close>

lemma uploaded_observation: "uploaded nb idle (u0\<lparr>us_observation := obs\<rparr>) bytes es = (uploaded nb idle u0 bytes es)\<lparr>us_observation := obs\<rparr>"
  by (simp add: uploaded_def Let_def)

lemma open_upload_observation:
  assumes "open_upload parses nb st k" and "map_of (cs_uploads (rst_chunked st)) k = Some u"
    and "cs_uploads (rst_chunked st') = AList.update k (u\<lparr>us_observation := obs\<rparr>) (cs_uploads (rst_chunked st))"
    and "cs_chunks (rst_chunked st') = cs_chunks (rst_chunked st)" and "cs_delays (rst_chunked st') = cs_delays (rst_chunked st)"
  shows "open_upload parses nb st' k"
proof -
  from assms(1) obtain idle u0 bytes chunks t where h: "upload_holds nb idle u0 (rst_chunked st) k bytes chunks"
    "us_upload_id u0 = k" "\<not> truthy (us_finalized u0)" "\<not> us_published_owner u0"
    "validateManifest parses (manifest_json ((us_manifest u0)\<lparr>mf_ingested_server_t := t\<rparr>)) = []"
    by (auto simp: open_upload_def)
  then have "upload_holds nb idle (u0\<lparr>us_observation := obs\<rparr>) (rst_chunked st') k bytes chunks"
    using assms(2-5) by (simp add: upload_holds_def uploaded_observation update_conv')
  with h show ?thesis unfolding open_upload_def
    by (intro exI [of _ idle] exI [of _ "u0\<lparr>us_observation := obs\<rparr>"] exI [of _ bytes] exI [of _ chunks] exI [of _ t]) simp
qed

lemma begin_sound:
  assumes "noble_ok nb" and "service_sound (op_parses (in_api op)) nb st"
  shows "service_sound (op_parses (in_api op)) nb (api_step nb st (op, BeginUpload k m obs))"
proof (cases "api_begin (in_api op) st k m obs")
  case (Inr s)
  let ?op = "in_api op"
  let ?st = "api_step nb st (op, BeginUpload k m obs)"
  have ok: "service_ok ?st" using api_step_ok(1) [OF assms(1)] assms(2) by (simp only: service_sound_def)
  have step: "?st = fst s" using Inr by (cases s) simp
  show ?thesis
  proof (cases "map_of (cs_uploads (rst_chunked st)) k")
    case None
    note b = api_begin_fresh [OF None, of ?op m obs]
    from b(1) Inr have may: "may_begin ?op st k m" by blast
    from b(2) [OF Inr, of nb] have same: "same_records st (fst s)"
      and h: "upload_holds nb (op_idle ?op) (begun ?op st k m obs) (rst_chunked (fst s)) k 0 []" by blast+
    from Inr None have other: "other_uploads (Some k) st (fst s)"
      by (auto simp: api_begin_def begin_state_def guard_Inr_iff andThen_Inr_iff store_begin_def other_uploads_def set_chunked_def
          update_conv' split: sum.splits option.splits)
    have opened: "open_upload (op_parses ?op) nb (fst s) k"
      unfolding open_upload_def
    proof (rule exI [of _ "op_idle ?op"], rule exI [of _ "begun ?op st k m obs"], rule exI [of _ 0], rule exI [of _ "[]"],
        rule exI [of _ "mf_ingested_server_t m"], intro conjI)
      show "validateManifest (op_parses ?op) (manifest_json ((us_manifest (begun ?op st k m obs))\<lparr>mf_ingested_server_t := mf_ingested_server_t m\<rparr>)) = []"
        using may by (cases m) (simp add: may_begin_def)
    qed (use h in \<open>simp_all add: truthy_def\<close>)
    have same_pub: "published_records (fst s) = published_records st"
      using same by (simp add: published_records_def same_records_def)
    have at_k: "map_of (cs_uploads (rst_chunked (fst s))) k = Some (begun ?op st k m obs)"
      using b(2) [OF Inr] by (simp add: update_conv')
    show ?thesis
      unfolding step
    proof (rule service_sound_step [OF assms(2) ok [unfolded step] other])
      show "owner_kept (Some k) st (fst s)" using None by (simp add: owner_kept_def owns_def)
      show "upload_sound (op_parses ?op) nb (fst s) i u" if "Some k = Some i" "map_of (cs_uploads (rst_chunked (fst s))) i = Some u" for i u
        using that at_k opened by (simp add: upload_sound_def truthy_def)
    qed (simp add: same_pub)
  next
    case (Some u)
    from Inr obtain u1 cs u' where u1: "begin_state ?op k m obs (start_of st m) = Inr u1"
      and b: "store_begin (rst_chunked st) u1 = Inr (cs, u')" and s: "fst s = set_chunked cs st"
      by (auto simp: api_begin_def start_of_def [symmetric] guard_Inr_iff andThen_Inr_iff)
    have "us_upload_id u1 = k" using u1 by (auto simp: begin_state_def split: sum.splits)
    with b Some have cs: "cs = (rst_chunked st)\<lparr>cs_uploads := AList.update k
        (if truthy (us_finalized u) then u else u\<lparr>us_observation := us_observation u1\<rparr>) (cs_uploads (rst_chunked st))\<rparr>"
      by (auto simp: store_begin_def Let_def guard_Inr_iff)
    have sound: "upload_sound (op_parses ?op) nb st k u" using assms(2) Some by (simp add: service_sound_def)
    show ?thesis
      unfolding step
    proof (rule service_sound_step [OF assms(2) ok [unfolded step], of "Some k"])
      show "other_uploads (Some k) st (fst s)" by (simp add: other_uploads_def s cs set_chunked_def update_conv')
      show "owner_kept (Some k) st (fst s)"
        using sound Some by (auto simp: owner_kept_def owns_def s cs set_chunked_def update_conv' truthy_def)
      show "upload_sound (op_parses ?op) nb (fst s) i v" if "Some k = Some i" "map_of (cs_uploads (rst_chunked (fst s))) i = Some v" for i v
      proof (cases "truthy (us_finalized u)")
        case True
        with that sound Some show ?thesis by (auto simp: upload_sound_def s cs set_chunked_def update_conv' owns_def)
      next
        case False
        with sound have "open_upload (op_parses ?op) nb st k" by (simp add: upload_sound_def)
        then have "open_upload (op_parses ?op) nb (fst s) k"
          by (rule open_upload_observation [OF _ Some]) (simp_all add: s cs set_chunked_def False)
        with that False show ?thesis by (auto simp: upload_sound_def s cs set_chunked_def update_conv')
      qed
      show "r \<in> set (published_records st) \<or> sound_record (op_parses ?op) nb (fst s) r" if "r \<in> set (published_records (fst s))" for r
        using that by (simp add: published_records_def s cs set_chunked_def)
    qed
  qed
qed (use assms(2) in simp)

lemma append_sound:
  assumes "noble_ok nb" and "service_sound (op_parses (in_api op)) nb st"
  shows "service_sound (op_parses (in_api op)) nb (api_step nb st (op, AppendChunk k at ds))"
proof (cases "api_append nb (in_api op) st k at ds")
  case (Inr s)
  let ?op = "in_api op"
  let ?st = "api_step nb st (op, AppendChunk k at ds)"
  have ok: "service_ok ?st" using api_step_ok(1) [OF assms(1)] assms(2) by (simp only: service_sound_def)
  have step: "?st = fst s" using Inr by (cases s) simp
  from Inr obtain cs u' where a: "store_append (rst_chunked st) k at ds (api_transition nb ?op ds) = Inr (cs, u')"
    and s: "fst s = set_chunked cs st" and ds: "ds \<noteq> []" "length ds \<le> MAX_EVENT_CHUNK"
    by (auto simp: api_append_def guard_Inr_iff andThen_Inr_iff)
  from a obtain u table where u: "map_of (cs_uploads (rst_chunked st)) k = Some u" "map_of (cs_chunks (rst_chunked st)) k = Some table"
    by (auto simp: store_append_def split: option.splits)
  show ?thesis
  proof (cases "cs = rst_chunked st")
    case True
    then show ?thesis using assms(2) step s by (simp add: set_chunked_def)
  next
    case False
    with a u have new: "map_of table at = None"
      by (cases "map_of table at") (auto simp: store_append_def guard_Inr_iff)
    with a u have asserted: "assertAppend u at (int (length ds)) = Inr ()"
      by (auto simp: store_append_def andThen_Inr_iff)
    then have open_u: "\<not> truthy (us_finalized u)" "at = us_next_seq u" by (auto simp: assertAppend_def guard_Inr_iff)
    have "upload_sound (op_parses ?op) nb st k u" using assms(2) u(1) by (simp add: service_sound_def)
    with open_u obtain idle u0 bytes chunks t where h: "upload_holds nb idle u0 (rst_chunked st) k bytes chunks"
      "us_upload_id u0 = k" "\<not> truthy (us_finalized u0)" "\<not> us_published_owner u0"
      "validateManifest (op_parses ?op) (manifest_json ((us_manifest u0)\<lparr>mf_ingested_server_t := t\<rparr>)) = []"
      by (auto simp: upload_sound_def open_upload_def)
    have sid: "isUuid (mf_session_id (us_manifest u0))"
      using validateManifest_ok [OF h(5)] by (simp add: manifest_ok_def)
    have at: "at = int (length (concat chunks))"
      using h(1) u(1) open_u(2) by (auto simp: upload_holds_def uploaded_def Let_def)
    note fresh = store_append_fresh [OF assms(1) sid h(3,1) ds, where op = ?op, of cs u', folded at]
    from a have acc: "chunk_accepted ?op u0 bytes (concat chunks) ds"
      and u': "u' = uploaded nb idle u0 (bytes + op_bytes ?op ds) (concat chunks @ ds)"
      and cs: "cs = (rst_chunked st)\<lparr>cs_chunks := AList.update k (chunk_table nb (us_manifest u0) [] (chunks @ [ds])) (cs_chunks (rst_chunked st)),
           cs_delays := AList.update k (foldl count_delay [] (delays_of (concat chunks @ ds))) (cs_delays (rst_chunked st)),
           cs_uploads := AList.update k u' (cs_uploads (rst_chunked st))\<rparr>"
      unfolding fresh by blast+
    have "upload_holds nb idle u0 cs k (bytes + op_bytes ?op ds) (chunks @ [ds])"
      using h(1) acc ds(1) by (simp add: upload_holds_def cs u' chunk_accepted_def update_conv')
    then have open': "open_upload (op_parses ?op) nb (fst s) k"
      using h unfolding open_upload_def s set_chunked_def by (auto intro!: exI)
    show ?thesis
      unfolding step
    proof (rule service_sound_step [OF assms(2) ok [unfolded step], of "Some k"])
      show "other_uploads (Some k) st (fst s)" by (simp add: other_uploads_def s cs set_chunked_def update_conv')
      show "owner_kept (Some k) st (fst s)"
        using open_u u by (auto simp: owner_kept_def owns_def truthy_def)
      show "upload_sound (op_parses ?op) nb (fst s) i v" if "Some k = Some i" "map_of (cs_uploads (rst_chunked (fst s))) i = Some v" for i v
      proof -
        from that have "i = k" "v = u'" by (simp_all add: s cs set_chunked_def update_conv')
        then show ?thesis using open' h(3) by (simp add: upload_sound_def u')
      qed
      show "r \<in> set (published_records st) \<or> sound_record (op_parses ?op) nb (fst s) r" if "r \<in> set (published_records (fst s))" for r
        using that by (simp add: published_records_def s cs set_chunked_def)
    qed
  qed
qed (use assms(2) in simp)

section \<open>Finalizing\<close>

lemma derive_sealed:
  assumes "noble_ok nb" and "isUuid (mf_session_id m)" and "us_manifest u0 = m\<lparr>mf_ingested_server_t := t\<rparr>" and "valid_log es"
    and "api_derive nb op signature (uploaded nb idle u0 bytes es) ps = Inr d"
  shows "es \<noteq> [] \<and> mf_event_count m = int (length es) \<and> sealed_hash nb \<lparr>wr_manifest = m, wr_events = es\<rparr> (mf_record_hash m)
     \<and> fd_short_signature d = signature"
proof (cases "es \<noteq> [] \<and> mf_event_count m = int (length es)")
  case True
  obtain tip where tip: "tip_after nb (mf_session_id m) (mf_format_version m) es = Some tip" "is_b3_hash tip"
    and seal: "computeRecordHash nb es (mf_session_id m) (mf_format_version m) (mf_text_binding m) (finalization_of m)
      = sealRecordHash nb tip (mf_format_version m) (mf_text_binding m) (finalization_of m)"
    using computeRecordHash_tip [OF assms(1,2,4)] True by blast
  with True assms(5) show ?thesis
    by (auto simp: api_derive_def Let_def assms(3) uploaded_def sealed_hash_def guard_Inr_iff andThen_Inr_iff split: sum.splits)
next
  case False
  with assms(5) show ?thesis
    using tip_after_None [of nb "mf_session_id m" "mf_format_version m" es]
    by (auto simp: api_derive_def Let_def assms(3) uploaded_def truthy_def guard_Inr_iff)
qed

lemma table_events_chunks: "table_events (chunk_table nb m es cs) = concat cs"
  by (induction cs arbitrary: es) (auto simp: table_events_def)

lemma found_hash:
  assumes "store_ok st" and "is_hash_id h"
    and "(case findByShortSignatureOrHash st h of Some r \<Rightarrow> Some r | None \<Rightarrow> findCompleted (rst_chunked st) h) = Some r"
  shows "hash_of r = h"
proof -
  have "r \<in> set (published_records st) \<and> (hash_of r = h \<or> sr_short_signature r = h)"
    using assms(3) find_published [OF assms(1), of h r] findCompleted_spec [OF assms(1), of h r]
    by (auto simp: published_records_def split: option.splits)
  then show ?thesis using store_ok_lookup(6) [OF assms(1), of r] assms(2) by (auto simp: published_records_def)
qed

lemma finalize_sound:
  assumes "noble_ok nb" and "service_sound (op_parses (in_api op)) nb st"
  shows "service_sound (op_parses (in_api op)) nb (api_step nb st (op, FinalizeUpload k))"
proof (cases "api_finalize nb (in_api op) st k")
  case (Inr s)
  let ?op = "in_api op"
  let ?parses = "op_parses ?op"
  let ?st = "api_step nb st (op, FinalizeUpload k)"
  have ok: "service_ok ?st" using api_step_ok(1) [OF assms(1)] assms(2) by (simp only: service_sound_def)
  have ok0: "store_ok st" "uploads_b3 st" using assms(2) by (simp_all add: service_sound_def service_ok_def)
  have step: "?st = fst s" using Inr by (cases s) simp
  from Inr obtain u signature cs p where u: "map_of (cs_uploads (rst_chunked st)) k = Some u"
    and f: "finalize_upload (op_rank ?op) (op_now ?op) st k (api_derive nb ?op signature) = Inr (cs, p)"
    and s: "fst s = set_chunked cs st"
    by (auto simp: api_finalize_def guard_Inr_iff andThen_Inr_iff split: option.splits sum.splits)
  let ?h = "mf_record_hash (us_manifest u)"
  have b3: "is_b3_hash ?h" using ok0(2) map_of_SomeD [OF u] by (force simp: uploads_b3_def)
  then have hid: "is_hash_id ?h" by (simp add: is_b3_hash_def is_hash_id_def)
  have sound: "upload_sound ?parses nb st k u" using assms(2) u by (simp add: service_sound_def)
  define found where "found = (case findByShortSignatureOrHash st ?h of
      Some r \<Rightarrow> Some r | None \<Rightarrow> findCompleted (rst_chunked st) ?h)"
  show ?thesis
  proof (cases found)
    case (Some r)
    then have h: "hash_of r = ?h" using found_hash [OF ok0(1) hid] by (simp add: found_def)
    have cs: "cs = (rst_chunked st)\<lparr>cs_uploads := AList.update k (u\<lparr>us_finalized := Some ?h\<rparr>) (cs_uploads (rst_chunked st)),
         cs_delays := AList.delete k (cs_delays (rst_chunked st)),
         cs_chunks := (if us_published_owner u then cs_chunks (rst_chunked st) else AList.delete k (cs_chunks (rst_chunked st)))\<rparr>"
      using f u Some by (simp add: finalize_upload_def store_finalize_def Let_def found_def [symmetric] h)
    have owner: "us_published_owner u \<longrightarrow> owns st k u"
      using sound by (auto simp: upload_sound_def open_upload_def upload_holds_def u split: if_splits)
    have owner': "us_published_owner u \<longrightarrow> owns (fst s) k (u\<lparr>us_finalized := Some ?h\<rparr>)"
      using owner by (auto simp: owns_def s cs set_chunked_def update_conv')
    show ?thesis
      unfolding step
    proof (rule service_sound_step [OF assms(2) ok [unfolded step], of "Some k"])
      show "other_uploads (Some k) st (fst s)"
        by (simp add: other_uploads_def s cs set_chunked_def update_conv' delete_conv')
      show "owner_kept (Some k) st (fst s)"
        using u owner' by (auto simp: owner_kept_def s cs set_chunked_def owns_def)
      show "upload_sound ?parses nb (fst s) i v" if "Some k = Some i" "map_of (cs_uploads (rst_chunked (fst s))) i = Some v" for i v
      proof -
        from that have "i = k" "v = u\<lparr>us_finalized := Some ?h\<rparr>" by (simp_all add: s cs set_chunked_def update_conv')
        then show ?thesis using owner' is_hash_id_truthy [OF hid]
          by (simp add: upload_sound_def truthy_def) (simp add: s cs set_chunked_def delete_conv')
      qed
      show "r \<in> set (published_records st) \<or> sound_record ?parses nb (fst s) r" if "r \<in> set (published_records (fst s))" for r
        using that by (simp add: published_records_def s cs set_chunked_def)
    qed
  next
    case None
    from f u None obtain table d obs ss where delays: "map_of (cs_delays (rst_chunked st)) k = Some table"
      and d: "api_derive nb ?op signature u (percentileValues (op_rank ?op) table) = Inr d"
      and cs: "cs_uploads cs = AList.update k (u\<lparr>us_finalized := Some ?h, us_published_owner := True\<rparr>) (cs_uploads (rst_chunked st))"
         "cs_delays cs = AList.delete k (cs_delays (rst_chunked st))" "cs_chunks cs = cs_chunks (rst_chunked st)"
         "cs_completed cs = AList.update ?h \<lparr>sr_manifest = us_manifest u, sr_events = [], sr_chunked = True,
            sr_short_signature = fd_short_signature d, sr_stats = fd_stats d, sr_signals = fd_signals d,
            sr_observation = obs, sr_created_at = ss\<rparr> (cs_completed (rst_chunked st))"
      by (cases "map_of (cs_delays (rst_chunked st)) k")
        (auto simp: finalize_upload_def store_finalize_def Let_def found_def [symmetric] andThen_Inr_iff)
    let ?r = "\<lparr>sr_manifest = us_manifest u, sr_events = [], sr_chunked = True,
            sr_short_signature = fd_short_signature d, sr_stats = fd_stats d, sr_signals = fd_signals d,
            sr_observation = obs, sr_created_at = ss\<rparr>"
    have notfin: "\<not> truthy (us_finalized u)" using sound delays by (auto simp: upload_sound_def split: if_splits)
    with sound obtain idle u0 bytes chunks t where h: "upload_holds nb idle u0 (rst_chunked st) k bytes chunks"
      "us_upload_id u0 = k" "\<not> truthy (us_finalized u0)" "\<not> us_published_owner u0"
      "validateManifest ?parses (manifest_json ((us_manifest u0)\<lparr>mf_ingested_server_t := t\<rparr>)) = []"
      by (auto simp: upload_sound_def open_upload_def)
    let ?m = "(us_manifest u0)\<lparr>mf_ingested_server_t := t\<rparr>" and ?es = "concat chunks"
    have u_eq: "u = uploaded nb idle u0 bytes ?es" and fits: "log_fits (us_manifest u0) (us_observed_length u0) ?es"
      and chunks: "map_of (cs_chunks (rst_chunked st)) k = Some (chunk_table nb (us_manifest u0) [] chunks)"
      using h(1) u by (auto simp: upload_holds_def)
    have m: "us_manifest u0 = ?m\<lparr>mf_ingested_server_t := mf_ingested_server_t (us_manifest u0)\<rparr>" by (cases "us_manifest u0") simp
    have sid: "isUuid (mf_session_id ?m)" using validateManifest_ok [OF h(5)] by (simp add: manifest_ok_def)
    have log: "valid_log ?es" using fits by (simp add: log_fits_def)
    note sealed = derive_sealed [OF assms(1) sid m log d [unfolded u_eq]]
    have ne: "?es \<noteq> []" using sealed by blast
    have "ev_t (last ?es) \<le> mf_duration_ms (us_manifest u0)"
      using fits last_in_set [OF ne] unfolding log_fits_def by blast
    then have rec: "record_ok ?parses nb \<lparr>wr_manifest = ?m, wr_events = ?es\<rparr>"
      using sealed h(5) log by (simp add: record_ok_def Let_def)
    have count: "us_next_seq u = int (length ?es)" by (simp add: u_eq uploaded_def Let_def)
    have own: "owns (fst s) k (u\<lparr>us_finalized := Some ?h, us_published_owner := True\<rparr>)"
      using h(2) count sealed is_hash_id_truthy [OF hid] u_eq
      by (simp add: owns_def s set_chunked_def cs(1) update_conv' truthy_def)
    have man: "us_manifest u = us_manifest u0" by (simp add: u_eq)
    have "held_events (fst s) ?r ?es"
      using own chunks by (auto simp: held_events_def s set_chunked_def cs(3) table_events_chunks intro!: exI)
    moreover have "sealed_record ?parses nb (sr_manifest ?r) ?es"
      using rec by (auto simp: sealed_record_def man)
    ultimately have new: "sound_record ?parses nb (fst s) ?r" by (auto simp: sound_record_def)
    show ?thesis
      unfolding step
    proof (rule service_sound_step [OF assms(2) ok [unfolded step], of "Some k"])
      show "other_uploads (Some k) st (fst s)"
        by (simp add: other_uploads_def s cs set_chunked_def update_conv' delete_conv')
      show "owner_kept (Some k) st (fst s)"
        using u notfin by (auto simp: owner_kept_def owns_def)
      show "upload_sound ?parses nb (fst s) i v" if "Some k = Some i" "map_of (cs_uploads (rst_chunked (fst s))) i = Some v" for i v
      proof -
        from that have "i = k" "v = u\<lparr>us_finalized := Some ?h, us_published_owner := True\<rparr>"
          by (simp_all add: s cs set_chunked_def update_conv')
        then show ?thesis using own is_hash_id_truthy [OF hid]
          by (simp add: upload_sound_def truthy_def) (simp add: s cs set_chunked_def delete_conv')
      qed
      have "snd ` set (cs_completed cs) \<subseteq> insert ?r (snd ` set (cs_completed (rst_chunked st)))"
        unfolding cs(4) by (rule snd_update_subset)
      then show "x \<in> set (published_records st) \<or> sound_record ?parses nb (fst s) x" if "x \<in> set (published_records (fst s))" for x
        using that new by (auto simp: published_records_def s set_chunked_def)
    qed
  qed
qed (use assms(2) in simp)

section \<open>Every history\<close>

lemma api_step_sound:
  assumes "noble_ok nb" and "op_parses (in_api (fst c)) = parses" and "service_sound parses nb st"
  shows "service_sound parses nb (api_step nb st c)"
proof -
  obtain op call where c: "c = (op, call)" by (cases c)
  have p: "parses = op_parses (in_api op)" using assms(2) by (simp add: c)
  show ?thesis
    using assms(1,3) post_sound checkpoint_sound begin_sound append_sound finalize_sound
    unfolding c p by (cases call) (simp_all del: api_step.simps)
qed

lemma service_sound_empty: "service_sound parses nb empty_store"
  using service_empty by (simp add: service_sound_def empty_store_def published_records_def)

text \<open>C1: The service holds only verified records. After any calls clients make, in any order, refused
  ones included, every record that a lookup finds comes with held events (its own, or those of the chunks
  of the upload that owns it) such that \<open>verifyRecord\<close> accepts its manifest with those events, up to
  the time stamp the server set.\<close>

theorem service_holds_verified_records:
  assumes "noble_ok nb" and "list_all (\<lambda>c. op_parses (in_api (fst c)) = parses) calls"
    and "findByShortSignatureOrHash (foldl (api_step nb) empty_store calls) k = Some r"
  shows "\<exists>es t res. held_events (foldl (api_step nb) empty_store calls) r es
     \<and> verifyRecord parses nb \<lparr>wr_manifest = (sr_manifest r)\<lparr>mf_ingested_server_t := t\<rparr>, wr_events = es\<rparr> = Inr res \<and> vr_valid res"
proof -
  have run: "service_sound parses nb (foldl (api_step nb) st calls)" if "service_sound parses nb st" for st
    using assms(2) that
  proof (induction calls arbitrary: st)
    case (Cons c cs)
    then show ?case using api_step_sound [OF assms(1), of c parses st] by simp
  qed simp
  note sound = run [OF service_sound_empty]
  then have "r \<in> set (published_records (foldl (api_step nb) empty_store calls))"
    using assms(3) by (simp add: service_sound_def service_find)
  with sound obtain es t where h: "held_events (foldl (api_step nb) empty_store calls) r es"
    and ok: "record_ok parses nb \<lparr>wr_manifest = (sr_manifest r)\<lparr>mf_ingested_server_t := t\<rparr>, wr_events = es\<rparr>"
    by (auto simp: service_sound_def sound_record_def sealed_record_def)
  with verifyRecord_spec [OF assms(1), of parses "\<lparr>wr_manifest = (sr_manifest r)\<lparr>mf_ingested_server_t := t\<rparr>, wr_events = es\<rparr>"]
  show ?thesis by blast
qed

lemma service_holds_verified_records_witness:
  "\<exists>r es t res. findByShortSignatureOrHash (foldl (api_step sample_noble) empty_store [(sample_ingest, PostRecord sample_record JUndefined)]) sample_hash = Some r
     \<and> held_events (foldl (api_step sample_noble) empty_store [(sample_ingest, PostRecord sample_record JUndefined)]) r es
     \<and> verifyRecord (\<lambda>_. True) sample_noble \<lparr>wr_manifest = (sr_manifest r)\<lparr>mf_ingested_server_t := t\<rparr>, wr_events = es\<rparr> = Inr res \<and> vr_valid res"
proof -
  obtain st' reply where p: "postRecord sample_noble sample_ingest empty_store sample_record JUndefined = Inr (st', reply)" "rp_created reply"
    using sample_posted by blast
  have "op_analyzers (in_api sample_ingest) = None" by (simp add: sample_ingest_def sample_api_def)
  from post_values [OF sample_noble_ok empty_store_ok p this] obtain r where "findByShortSignatureOrHash st' sample_hash = Some r"
    by (auto simp: sample_record_def)
  then have f: "findByShortSignatureOrHash (foldl (api_step sample_noble) empty_store [(sample_ingest, PostRecord sample_record JUndefined)]) sample_hash = Some r"
    by (simp add: p)
  have "list_all (\<lambda>c. op_parses (in_api (fst c)) = (\<lambda>_. True)) [(sample_ingest, PostRecord sample_record JUndefined)]"
    by (simp add: sample_ingest_def sample_api_def)
  from service_holds_verified_records [OF sample_noble_ok this f] f show ?thesis by blast
qed

end
