(* ===== verification/Producer_Session.thy ===== *)
theory Producer_Session
  imports Observation
begin

text \<open>
  The sessions of a producer (\<open>packages/producer-core/src\<close>): the session record of \<open>types.ts\<close>, the
  time line of \<open>timeline.ts\<close>, the matching of fields to sessions of \<open>session-id.ts\<close> and the
  expiry of \<open>ttl.ts\<close>.
\<close>

section \<open>Session records\<close>

datatype identity_certainty = Fresh | Resumed | Degraded | Collision

datatype session_state = Active | Signing | Uploading | Uploaded | FailedUpload

record field_origin =
  fo_origin :: jsstring
  fo_path :: jsstring
  fo_tab_id :: int
  fo_frame_id :: int

datatype tag_name = TagTextarea | TagInput | TagContentEditable

record field_descriptor =
  de_tag_name :: tag_name
  de_field_kind :: jsstring
  de_name :: "jsstring option"
  de_id :: "jsstring option"
  de_aria_label :: "jsstring option"
  de_nearest_form_id :: "jsstring option"
  de_dom_signature :: jsstring
  de_index_among_similar :: int

record pending_mutation =
  pm_op :: operation
  pm_pos :: "int option"
  pm_del_len :: "int option"
  pm_ins_len :: "int option"
  pm_source :: source

datatype local_state = StateDisabled | StateUnknown | StateKnown | StatePartial | StateDiverged

text \<open>A commitment known to the producer has the fields of a server commitment.\<close>

record session_observation =
  so_state :: local_state
  so_commitments :: "commitment list"
  so_observed_session_id :: "jsstring option"
  so_token :: "jsstring option"
  so_committed :: int
  so_last_attempt :: "int option"
  so_failure :: "(jsstring \<times> jsstring) option"
  so_in_flight :: bool
  so_queued :: bool
  so_backoff :: int

record upload_response =
  ur_record_hash :: jsstring
  ur_short_signature :: jsstring
  ur_url :: jsstring
  ur_created :: bool

text \<open>
  Sessions of a journaled registry keep \<open>event_count\<close> and \<open>last_event_t\<close> and no events.
\<close>

record session =
  se_id :: jsstring
  se_version :: format_version
  se_base :: int
  se_last_edit :: int
  se_origin :: field_origin
  se_descriptor :: field_descriptor
  se_certainty :: identity_certainty
  se_producer :: producer_info
  se_surface :: jsstring
  se_events :: event_log
  se_event_count :: "int option"
  se_last_event_t :: "int option"
  se_journaled :: bool
  se_upload_id :: "jsstring option"
  se_tip :: "jsstring option"
  se_state :: session_state
  se_response :: "upload_response option"
  se_anchor :: bool
  se_failure :: "jsstring option"
  se_binding :: "text_binding option"
  se_duration :: "int option"
  se_parent :: "jsstring option"
  se_gap :: bool
  se_obs :: session_observation

definition sessionEventCount :: "session \<Rightarrow> int" where
  "sessionEventCount s = (case se_event_count s of Some n \<Rightarrow> n | None \<Rightarrow> int (length (se_events s)))"

definition sessionLastEventTime :: "session \<Rightarrow> int" where
  "sessionLastEventTime s = (case se_last_event_t s of Some t \<Rightarrow> t
     | None \<Rightarrow> if se_events s = [] then 0 else ev_t (last (se_events s)))"

definition emptyObservation :: "bool \<Rightarrow> session_observation" where
  "emptyObservation checkpointWired = \<lparr>so_state = (if checkpointWired then StateUnknown else StateDisabled),
     so_commitments = [], so_observed_session_id = None, so_token = None, so_committed = 0,
     so_last_attempt = None, so_failure = None, so_in_flight = False, so_queued = False, so_backoff = 0\<rparr>"

section \<open>The time line\<close>

text \<open>A clock that was set back does not make the log run backwards.\<close>

definition next_event :: "pending_mutation \<Rightarrow> int \<Rightarrow> int \<Rightarrow> int \<Rightarrow> int \<Rightarrow> mutation" where
  "next_event p seq previous_t wall base = \<lparr>ev_seq = seq, ev_t = max (max 0 previous_t) (wall - base), ev_op = pm_op p,
     ev_pos = pm_pos p, ev_del_len = pm_del_len p, ev_ins_len = pm_ins_len p, ev_source = pm_source p\<rparr>"

definition buildNextMutation :: "pending_mutation \<Rightarrow> int \<Rightarrow> int \<Rightarrow> int \<Rightarrow> int \<Rightarrow> verror list + mutation" where
  "buildNextMutation p seq previous_t wall base =
     (let event = next_event p seq previous_t wall base; errors = validateEvent (event_json event) (Some seq) in
      guard (errors \<noteq> []) errors (Inr event))"

definition buildBufferMutation :: "event_log \<Rightarrow> pending_mutation \<Rightarrow> int \<Rightarrow> int \<Rightarrow> verror list + mutation" where
  "buildBufferMutation es p wall base =
     buildNextMutation p (int (length es)) (if es = [] then 0 else ev_t (last es)) wall base"

definition appendBufferMutation :: "event_log \<Rightarrow> pending_mutation \<Rightarrow> int \<Rightarrow> int \<Rightarrow> verror list + event_log" where
  "appendBufferMutation es p wall base = andThen (buildBufferMutation es p wall base) (\<lambda>e. Inr (es @ [e]))"

definition durationMs :: "event_log \<Rightarrow> int" where
  "durationMs es = (if es = [] then 0 else ev_t (last es))"

section \<open>Which session a field belongs to\<close>

definition isExactDescriptorMatch :: "field_descriptor \<Rightarrow> field_descriptor \<Rightarrow> bool" where
  "isExactDescriptorMatch l r \<longleftrightarrow>
     de_tag_name l = de_tag_name r \<and> de_field_kind l = de_field_kind r \<and> de_name l = de_name r \<and> de_id l = de_id r
     \<and> de_aria_label l = de_aria_label r \<and> de_nearest_form_id l = de_nearest_form_id r
     \<and> de_dom_signature l = de_dom_signature r \<and> de_index_among_similar l = de_index_among_similar r"

definition both_same :: "jsstring option \<Rightarrow> jsstring option \<Rightarrow> bool" where
  "both_same a b \<longleftrightarrow> a \<noteq> None \<and> b \<noteq> None \<and> a = b"

definition isPartialDescriptorMatch :: "field_descriptor \<Rightarrow> field_descriptor \<Rightarrow> bool" where
  "isPartialDescriptorMatch l r \<longleftrightarrow>
     \<not> (de_tag_name l \<noteq> de_tag_name r \<or> de_field_kind l \<noteq> de_field_kind r)
     \<and> (let anchors = length (filter id [both_same (de_name l) (de_name r), both_same (de_id l) (de_id r),
              both_same (de_aria_label l) (de_aria_label r), both_same (de_nearest_form_id l) (de_nearest_form_id r),
              de_index_among_similar l = de_index_among_similar r])
        in anchors \<ge> 2 \<and> de_dom_signature l \<noteq> de_dom_signature r)"

definition same_location :: "field_origin \<Rightarrow> field_descriptor \<Rightarrow> session \<Rightarrow> bool" where
  "same_location og de s \<longleftrightarrow> fo_origin (se_origin s) = fo_origin og \<and> fo_path (se_origin s) = fo_path og
     \<and> de_field_kind (se_descriptor s) = de_field_kind de \<and> se_state s \<noteq> Uploaded"

record identity_resolution =
  ir_session_id :: jsstring
  ir_certainty :: identity_certainty
  ir_resumed_from :: "session option"

text \<open>
  \<open>fresh\<close> is the identifier that the UUID generator would give. Records are compared by identity in
  the source; the sessions of a registry have distinct identifiers, which stand for it.
\<close>

definition resolveSession :: "field_origin \<Rightarrow> field_descriptor \<Rightarrow> session list \<Rightarrow> jsstring \<Rightarrow> identity_resolution" where
  "resolveSession og de existing fresh =
     (let sameLocation = filter (same_location og de) existing;
          exact = List.find (\<lambda>s. isExactDescriptorMatch (se_descriptor s) de) sameLocation in
      case exact of
        Some s \<Rightarrow>
          (if \<exists>r \<in> set sameLocation. se_id r \<noteq> se_id s \<and> isExactDescriptorMatch (se_descriptor r) de \<and> se_state r = Active
           then \<lparr>ir_session_id = se_id s, ir_certainty = Collision, ir_resumed_from = Some s\<rparr>
           else \<lparr>ir_session_id = se_id s, ir_certainty = Resumed, ir_resumed_from = Some s\<rparr>)
      | None \<Rightarrow>
          (if List.find (\<lambda>s. isPartialDescriptorMatch (se_descriptor s) de) sameLocation \<noteq> None
           then \<lparr>ir_session_id = fresh, ir_certainty = Degraded, ir_resumed_from = None\<rparr>
           else \<lparr>ir_session_id = fresh, ir_certainty = Fresh, ir_resumed_from = None\<rparr>))"

section \<open>Expiry\<close>

definition DEFAULT_TTL_MS :: int where "DEFAULT_TTL_MS = 3 * 24 * 60 * 60 * 1000"
definition DEFAULT_UPLOADED_GRACE_MS :: int where "DEFAULT_UPLOADED_GRACE_MS = 60 * 1000"

definition expired :: "int \<Rightarrow> int \<Rightarrow> int \<Rightarrow> session \<Rightarrow> bool" where
  "expired now ttl grace s \<longleftrightarrow> (se_state s = Uploaded \<and> now - se_last_edit s \<ge> grace) \<or> now - se_last_edit s \<ge> ttl"

fun sweepExpired :: "session list \<Rightarrow> int \<Rightarrow> int \<Rightarrow> int \<Rightarrow> session list \<times> session list" where
  "sweepExpired [] now ttl grace = ([], [])"
| "sweepExpired (s # ss) now ttl grace =
     (let (kept, removed) = sweepExpired ss now ttl grace in
      if expired now ttl grace s then (kept, s # removed) else (s # kept, removed))"

lemma sweepExpired_filter:
  "sweepExpired ss now ttl grace = (filter (\<lambda>s. \<not> expired now ttl grace s) ss, filter (expired now ttl grace) ss)"
  by (induction ss) auto

section \<open>Properties of the time line and of matching\<close>

lemma buildNextMutation_Inr:
  "buildNextMutation p seq previous wall base = Inr e \<longleftrightarrow> e = next_event p seq previous wall base \<and> valid_event e"
  by (auto simp: buildNextMutation_def Let_def guard_Inr_iff validateEvent_typed next_event_def)

lemma valid_log_snoc:
  "valid_log (es @ [e]) \<longleftrightarrow>
     valid_log es \<and> valid_event e \<and> ev_seq e = int (length es) \<and> (es = [] \<or> ev_t (last es) \<le> ev_t e)"
  by (auto simp: valid_log_def valid_from_append valid_event_def in_ms_range_def)

lemma valid_log_last_t: "valid_log es \<Longrightarrow> es \<noteq> [] \<Longrightarrow> 0 \<le> ev_t (last es)"
  using valid_log_nth [of es "length es - 1"] by (simp add: last_conv_nth valid_event_def in_ms_range_def)

text \<open>The next event extends a valid log, wherever the clock stands.\<close>

lemma next_event_extends:
  assumes "valid_log es" and "buildNextMutation p (int (length es)) (durationMs es) wall base = Inr e"
  shows "valid_log (es @ [e])"
  using assms by (auto simp: buildNextMutation_Inr valid_log_snoc next_event_def durationMs_def)

definition append_all :: "event_log \<Rightarrow> (pending_mutation \<times> int) list \<Rightarrow> int \<Rightarrow> event_log" where
  "append_all es ps base = foldl (\<lambda>es (p, wall).
     case appendBufferMutation es p wall base of Inl _ \<Rightarrow> es | Inr es' \<Rightarrow> es') es ps"

lemma appendBufferMutation_valid: "valid_log es \<Longrightarrow> appendBufferMutation es p wall base = Inr es' \<Longrightarrow> valid_log es' \<and> take (length es) es' = es"
  using next_event_extends [of es p wall base]
  by (auto simp: appendBufferMutation_def buildBufferMutation_def durationMs_def andThen_Inr_iff)

text \<open>Writing histories survive clock corrections. Whatever mutations are appended and whatever
  the wall clock reads at each of them, earlier or later than before, the log stays valid: gap-free
  and chronological. What was recorded before is a prefix of it, refused mutations leave no trace.\<close>

theorem histories_survive_clock:
  assumes "valid_log es"
  shows "valid_log (append_all es ps base) \<and> take (length es) (append_all es ps base) = es"
  using assms
proof (induction ps arbitrary: es)
  case (Cons q ps)
  obtain p wall where q: "q = (p, wall)" by (cases q)
  show ?case
  proof (cases "appendBufferMutation es p wall base")
    case (Inl e)
    with Cons q show ?thesis by (simp add: append_all_def)
  next
    case (Inr es')
    then have es': "valid_log es'" "take (length es) es' = es"
      using appendBufferMutation_valid [OF Cons.prems] by auto
    then have "length es \<le> length es'" by (metis length_take min.cobounded2 linorder_linear min.absorb_iff1)
    with Cons.IH [OF es'(1)] es' have "take (length es) (append_all es' ps base) = es"
      by (metis min.absorb1 take_take)
    with Cons.IH [OF es'(1)] Inr q show ?thesis by (simp add: append_all_def)
  qed
qed (simp add: append_all_def)

definition sample_pending :: pending_mutation where
  "sample_pending = \<lparr>pm_op = OpInsert, pm_pos = Some 0, pm_del_len = Some 0, pm_ins_len = Some 1, pm_source = Typing\<rparr>"

lemma histories_survive_clock_witness:
  "valid_log (append_all [] [(sample_pending, 100), (sample_pending, 50)] 10) \<and>
   List.map ev_t (append_all [] [(sample_pending, 100), (sample_pending, 50)] 10) = [90, 90]"
proof
  show "valid_log (append_all [] [(sample_pending, 100), (sample_pending, 50)] 10)"
    using histories_survive_clock [of "[]"] by (simp add: valid_log_def)
  show "List.map ev_t (append_all [] [(sample_pending, 100), (sample_pending, 50)] 10) = [90, 90]"
    by code_simp
qed

subsection \<open>Matching\<close>

lemma isExactDescriptorMatch_eq: "isExactDescriptorMatch l r \<longleftrightarrow> l = r"
  by (cases l; cases r) (auto simp: isExactDescriptorMatch_def)

lemma find_Some_set: "List.find P xs = Some x \<Longrightarrow> x \<in> set xs \<and> P x"
  by (auto simp: find_Some_iff)

text \<open>A field resumes only its own writing. Resolution reuses a session only when that session is at
  the same place, has exactly the same descriptor and has not been uploaded, and it then reports a
  collision precisely when another such session is active; whenever such a session exists it does not
  start a new one, and a new one gets the fresh identifier.\<close>

theorem field_resolution:
  assumes "resolveSession og de existing fresh = res"
  shows "(\<forall>s. ir_resumed_from res = Some s \<longrightarrow> s \<in> set existing \<and> ir_session_id res = se_id s \<and>
       same_location og de s \<and> se_descriptor s = de \<and>
       (ir_certainty res = Collision \<longleftrightarrow>
          (\<exists>r \<in> set existing. se_id r \<noteq> se_id s \<and> same_location og de r \<and> se_descriptor r = de \<and> se_state r = Active)) \<and>
       (ir_certainty res = Collision \<or> ir_certainty res = Resumed))
   \<and> (ir_resumed_from res = None \<longleftrightarrow> (\<forall>s \<in> set existing. \<not> (same_location og de s \<and> se_descriptor s = de)))
   \<and> (ir_resumed_from res = None \<longrightarrow> ir_session_id res = fresh \<and> (ir_certainty res = Fresh \<or> ir_certainty res = Degraded))"
proof (cases "List.find (\<lambda>s. isExactDescriptorMatch (se_descriptor s) de) (filter (same_location og de) existing)")
  case None
  then have "\<forall>s \<in> set existing. \<not> (same_location og de s \<and> se_descriptor s = de)"
    by (auto simp: find_None_iff isExactDescriptorMatch_eq)
  with None assms show ?thesis by (auto simp: resolveSession_def Let_def split: if_splits)
next
  case (Some s)
  then have "s \<in> set existing" "same_location og de s" "se_descriptor s = de"
    by (auto dest: find_Some_set simp: isExactDescriptorMatch_eq)
  with Some assms show ?thesis
    by (auto simp: resolveSession_def Let_def isExactDescriptorMatch_eq split: if_splits)
qed

definition sample_origin :: field_origin where
  "sample_origin = \<lparr>fo_origin = js ''o'', fo_path = js ''/'', fo_tab_id = 1, fo_frame_id = 0\<rparr>"

definition sample_field :: field_descriptor where
  "sample_field = \<lparr>de_tag_name = TagTextarea, de_field_kind = js ''k'', de_name = None, de_id = None, de_aria_label = None,
     de_nearest_form_id = None, de_dom_signature = js ''d'', de_index_among_similar = 0\<rparr>"

definition sample_draft :: session where
  "sample_draft = \<lparr>se_id = sample_session, se_version = V0_2, se_base = 10, se_last_edit = 10, se_origin = sample_origin,
     se_descriptor = sample_field, se_certainty = Fresh, se_producer = sample_producer, se_surface = js ''web'',
     se_events = [], se_event_count = None, se_last_event_t = None, se_journaled = False, se_upload_id = None,
     se_tip = None, se_state = Active, se_response = None, se_anchor = False, se_failure = None, se_binding = None,
     se_duration = None, se_parent = None, se_gap = False, se_obs = emptyObservation True\<rparr>"

lemma field_resolution_witness:
  "ir_resumed_from (resolveSession sample_origin sample_field [sample_draft] (js ''u'')) = Some sample_draft \<and>
   ir_certainty (resolveSession sample_origin sample_field [sample_draft] (js ''u'')) = Resumed"
proof -
  have r: "ir_resumed_from (resolveSession sample_origin sample_field [sample_draft] (js ''u'')) = Some sample_draft"
    by (simp add: resolveSession_def same_location_def sample_draft_def isExactDescriptorMatch_eq)
  with field_resolution [OF refl, of sample_origin sample_field "[sample_draft]" "js ''u''"] show ?thesis by auto
qed

end
