(* ===== verification/Checkpoint_Client.thy ===== *)
theory Checkpoint_Client
  imports Producer_Session
begin

text \<open>
  What a checkpoint attempt does to a session of the producer
  (\<open>packages/producer-core/src/registry.ts\<close>): when one is due, the request it sends, and how its
  result changes the commitments, the known state and the back-off.
\<close>

section \<open>Options and messages\<close>

record registry_options =
  op_producer :: producer_info
  op_checkpoint :: bool
  op_every_n :: int
  op_every_ms :: int
  op_backoff_initial :: int
  op_backoff_max :: int
  op_retention :: int
  op_signed_finish :: bool
  op_journal :: bool

definition DEFAULT_CADENCE_EVERY_N_EVENTS :: int where "DEFAULT_CADENCE_EVERY_N_EVENTS = 50"
definition DEFAULT_CADENCE_EVERY_MS :: int where "DEFAULT_CADENCE_EVERY_MS = 60000"
definition DEFAULT_CHECKPOINT_BACKOFF_INITIAL_MS :: int where "DEFAULT_CHECKPOINT_BACKOFF_INITIAL_MS = 1000"
definition DEFAULT_CHECKPOINT_BACKOFF_MAX_MS :: int where "DEFAULT_CHECKPOINT_BACKOFF_MAX_MS = 60000"
definition DEFAULT_COMMITMENT_RETENTION :: int where "DEFAULT_COMMITMENT_RETENTION = 32"

record posted_checkpoint =
  rq_session :: jsstring
  rq_event_count :: int
  rq_chain_tip :: jsstring
  rq_token :: "jsstring option"

record checkpoint_answer =
  an_session :: jsstring
  an_token :: jsstring
  an_checkpoint_id :: jsstring
  an_event_count :: int
  an_chain_tip :: jsstring
  an_server_t :: jsstring
  an_created :: bool

datatype failure_kind = Unavailable | Conflict | RateLimited | ClientBug | Transient

datatype checkpoint_outcome = Answered checkpoint_answer | Failed failure_kind int jsstring

section \<open>What is known of the server\<close>

definition recomputeObservationState :: "registry_options \<Rightarrow> session \<Rightarrow> session" where
  "recomputeObservationState opts s =
     (if \<not> op_checkpoint opts \<or> so_state (se_obs s) = StateDiverged then s
      else s\<lparr>se_obs := (se_obs s)\<lparr>so_state :=
             (if so_committed (se_obs s) = 0 then StateUnknown
              else if so_committed (se_obs s) \<ge> sessionEventCount s then StateKnown else StatePartial)\<rparr>\<rparr>)"

definition shouldTrigger :: "registry_options \<Rightarrow> session \<Rightarrow> int \<Rightarrow> bool" where
  "shouldTrigger opts s now =
     (let ob = se_obs s; delta = sessionEventCount s - so_committed ob;
          sinceLast = (\<lambda>P. case so_last_attempt ob of None \<Rightarrow> True | Some at \<Rightarrow> P (now - at)) in
      if delta \<le> 0 then False
      else if so_backoff ob > 0 \<and> so_last_attempt ob \<noteq> None \<and> now - the (so_last_attempt ob) < so_backoff ob then False
      else if so_queued ob then True
      else if so_committed ob = 0 then True
      else if delta \<ge> op_every_n opts then True
      else sinceLast (\<lambda>d. d \<ge> op_every_ms opts))"

text \<open>The request that the loop would post, or nothing while the session has no event.\<close>

definition next_request :: "session \<Rightarrow> jsstring \<Rightarrow> posted_checkpoint option" where
  "next_request s fresh =
     (if \<not> truthy (se_tip s) then None
      else Some \<lparr>rq_session = (case so_observed_session_id (se_obs s) of Some x \<Rightarrow> x | None \<Rightarrow> fresh),
                 rq_event_count = sessionEventCount s, rq_chain_tip = the (se_tip s), rq_token = so_token (se_obs s)\<rparr>)"

section \<open>Commitments\<close>

fun replace_first :: "('a \<Rightarrow> bool) \<Rightarrow> 'a \<Rightarrow> 'a list \<Rightarrow> 'a list" where
  "replace_first P y [] = []"
| "replace_first P y (x # xs) = (if P x then y # xs else x # replace_first P y xs)"

definition evictOlderCommitments :: "int \<Rightarrow> commitment list \<Rightarrow> commitment list" where
  "evictOlderCommitments watermark cs =
     (if int (length cs) \<le> watermark then cs
      else case cs of [] \<Rightarrow> [] | oldest # _ \<Rightarrow> oldest # drop (nat (int (length cs) - (watermark - 1))) cs)"

definition mergeCommitment :: "int \<Rightarrow> commitment list \<Rightarrow> commitment \<Rightarrow> commitment list" where
  "mergeCommitment watermark cs c =
     evictOlderCommitments watermark
       (if \<exists>x \<in> set cs. cm_event_count x = cm_event_count c
        then replace_first (\<lambda>x. cm_event_count x = cm_event_count c) c cs
        else sort_key cm_event_count (cs @ [c]))"

definition resetObservation :: "session_observation \<Rightarrow> session_observation" where
  "resetObservation ob = ob\<lparr>so_commitments := [], so_observed_session_id := None, so_token := None, so_committed := 0,
     so_backoff := 0, so_in_flight := False, so_queued := False, so_state := StateUnknown\<rparr>"

section \<open>Results\<close>

definition accept_answer :: "registry_options \<Rightarrow> session \<Rightarrow> checkpoint_answer \<Rightarrow> session_observation" where
  "accept_answer opts s a =
     (let ob = se_obs s; committed = max (so_committed ob) (an_event_count a) in
      ob\<lparr>so_observed_session_id := Some (an_session a), so_token := Some (an_token a), so_committed := committed,
         so_failure := None, so_backoff := 0,
         so_commitments := mergeCommitment (op_retention opts) (so_commitments ob)
           \<lparr>cm_checkpoint_id = an_checkpoint_id a, cm_event_count = an_event_count a, cm_chain_tip = an_chain_tip a,
            cm_observed_at = an_server_t a\<rparr>,
         so_state := (if committed \<ge> sessionEventCount s then StateKnown else StatePartial)\<rparr>)"

definition next_backoff :: "registry_options \<Rightarrow> int \<Rightarrow> int" where
  "next_backoff opts b = (if b = 0 then op_backoff_initial opts else min (op_backoff_max opts) (b * 2))"

definition accept_failure :: "registry_options \<Rightarrow> session \<Rightarrow> failure_kind \<Rightarrow> int \<Rightarrow> jsstring \<Rightarrow> session_observation" where
  "accept_failure opts s kind status reason =
     (let ob = (se_obs s)\<lparr>so_failure := Some (reason, dec_int status)\<rparr> in
      if kind = Unavailable then resetObservation ob
      else if kind = Conflict \<or> kind = ClientBug then ob\<lparr>so_state := StateDiverged, so_backoff := 0\<rparr>
      else ob\<lparr>so_backoff := next_backoff opts (so_backoff ob),
              so_state := (if so_committed ob = 0 then StateUnknown
                           else if so_committed ob < sessionEventCount s then StatePartial else so_state ob)\<rparr>)"

definition applyCheckpointResult :: "registry_options \<Rightarrow> session \<Rightarrow> checkpoint_outcome \<Rightarrow> session" where
  "applyCheckpointResult opts s r = s\<lparr>se_obs := (case r of
      Answered a \<Rightarrow> accept_answer opts s a
    | Failed kind status reason \<Rightarrow> accept_failure opts s kind status reason)\<rparr>"

section \<open>Bounds\<close>

definition commitments_ok :: "int \<Rightarrow> commitment list \<Rightarrow> bool" where
  "commitments_ok w cs \<longleftrightarrow> sorted_wrt (<) (List.map cm_event_count cs) \<and> int (length cs) \<le> max 1 w"

definition observation_ok :: "registry_options \<Rightarrow> session_observation \<Rightarrow> bool" where
  "observation_ok opts ob \<longleftrightarrow> commitments_ok (op_retention opts) (so_commitments ob)
     \<and> (\<forall>c \<in> set (so_commitments ob). cm_event_count c \<le> so_committed ob)
     \<and> 0 \<le> so_backoff ob \<and> so_backoff ob \<le> max (op_backoff_initial opts) (op_backoff_max opts)"

lemma replace_first_map:
  "(\<And>x. P x \<Longrightarrow> f x = f y) \<Longrightarrow> List.map f (replace_first P y xs) = List.map f xs"
  by (induction xs) auto

lemma evict_shape:
  assumes "\<not> int (length (c # rest)) \<le> w"
  shows "\<exists>n. evictOlderCommitments w (c # rest) = c # drop n rest \<and> int (length (drop n rest)) + 1 \<le> max 1 w"
proof -
  define n where "n = nat (int (length rest) + 1 - w)"
  have "nat (int (length (c # rest)) - (w - 1)) = Suc n" using assms by (simp add: n_def)
  then have "evictOlderCommitments w (c # rest) = c # drop n rest"
    using assms by (simp add: evictOlderCommitments_def)
  moreover have "int (length (drop n rest)) + 1 \<le> max 1 w" using assms by (simp add: n_def)
  ultimately show ?thesis by blast
qed

lemma evict_ok:
  assumes "sorted_wrt (<) (List.map cm_event_count cs)"
  shows "commitments_ok w (evictOlderCommitments w cs) \<and> set (evictOlderCommitments w cs) \<subseteq> set cs
     \<and> (cs \<noteq> [] \<longrightarrow> evictOlderCommitments w cs \<noteq> [] \<and> hd (evictOlderCommitments w cs) = hd cs)"
proof (cases "int (length cs) \<le> w \<or> cs = []")
  case True
  with assms show ?thesis by (auto simp: evictOlderCommitments_def commitments_ok_def)
next
  case False
  then obtain c rest where cs: "cs = c # rest" by (cases cs) auto
  with False evict_shape [of c rest w] obtain n where
    n: "evictOlderCommitments w cs = c # drop n rest" "int (length (drop n rest)) + 1 \<le> max 1 w" by auto
  have "sorted_wrt (<) (List.map cm_event_count (c # drop n rest))"
    using assms cs by (auto simp: sorted_wrt_drop drop_map [symmetric] dest!: in_set_dropD)
  with n cs show ?thesis by (auto simp: commitments_ok_def dest: in_set_dropD)
qed

lemma merge_ok:
  assumes "sorted_wrt (<) (List.map cm_event_count cs)"
  shows "commitments_ok w (mergeCommitment w cs c) \<and> set (List.map cm_event_count (mergeCommitment w cs c))
       \<subseteq> insert (cm_event_count c) (set (List.map cm_event_count cs))
     \<and> cm_event_count (hd (mergeCommitment w cs c)) = Min (insert (cm_event_count c) (set (List.map cm_event_count cs)))"
proof -
  define merged where "merged = (if \<exists>x \<in> set cs. cm_event_count x = cm_event_count c
        then replace_first (\<lambda>x. cm_event_count x = cm_event_count c) c cs
        else sort_key cm_event_count (cs @ [c]))"
  have counts: "set (List.map cm_event_count merged) = insert (cm_event_count c) (set (List.map cm_event_count cs))
     \<and> sorted_wrt (<) (List.map cm_event_count merged)"
  proof (cases "\<exists>x \<in> set cs. cm_event_count x = cm_event_count c")
    case True
    then have "List.map cm_event_count merged = List.map cm_event_count cs"
      by (simp add: merged_def replace_first_map)
    with True assms show ?thesis by (metis image_eqI insert_absorb list.set_map)
  next
    case False
    then have m: "merged = sort_key cm_event_count (cs @ [c])" unfolding merged_def by (simp only: if_False)
    have "cm_event_count c \<notin> cm_event_count ` set cs" using False by auto
    then have "distinct (List.map cm_event_count (cs @ [c]))"
      using assms by (simp add: strict_sorted_iff)
    moreover have "mset (List.map cm_event_count merged) = mset (List.map cm_event_count (cs @ [c]))"
      unfolding m by (simp only: mset_map mset_sort)
    ultimately have "distinct (List.map cm_event_count merged)" by (metis mset_eq_imp_distinct_iff)
    moreover have "sorted (List.map cm_event_count merged)" unfolding m by (rule sorted_sort_key)
    moreover have "set (List.map cm_event_count merged) = set (List.map cm_event_count (cs @ [c]))"
      using m by (simp only: set_map set_sort)
    ultimately show ?thesis by (simp add: strict_sorted_iff)
  qed
  then have sorted: "sorted_wrt (<) (List.map cm_event_count merged)" by blast
  have ne: "merged \<noteq> []" using counts by auto
  have "hd (List.map cm_event_count merged) = Min (set (List.map cm_event_count merged))"
    using sorted ne by (cases merged) (auto intro!: Min_eqI [symmetric] simp: less_imp_le)
  with ne counts have least: "cm_event_count (hd merged) = Min (insert (cm_event_count c) (set (List.map cm_event_count cs)))"
    by (metis hd_map)
  have "mergeCommitment w cs c = evictOlderCommitments w merged" by (simp only: mergeCommitment_def merged_def)
  moreover note evict_ok [OF sorted, of w]
  ultimately show ?thesis using counts least ne by (metis (no_types, lifting) image_mono list.set_map)
qed

text \<open>The results of the attempts made so far, one after the other.\<close>

definition apply_results :: "registry_options \<Rightarrow> session \<Rightarrow> checkpoint_outcome list \<Rightarrow> session" where
  "apply_results opts s rs = foldl (applyCheckpointResult opts) s rs"

lemma apply_result_ok:
  assumes "observation_ok opts (se_obs s)" and "0 \<le> op_backoff_initial opts" and "0 \<le> op_backoff_max opts"
  shows "observation_ok opts (se_obs (applyCheckpointResult opts s r))"
proof (cases r)
  case (Answered a)
  let ?c = "\<lparr>cm_checkpoint_id = an_checkpoint_id a, cm_event_count = an_event_count a, cm_chain_tip = an_chain_tip a,
            cm_observed_at = an_server_t a\<rparr>"
  from assms(1) have "sorted_wrt (<) (List.map cm_event_count (so_commitments (se_obs s)))"
    by (simp add: observation_ok_def commitments_ok_def)
  from merge_ok [OF this, of "op_retention opts" ?c] assms Answered show ?thesis
    by (fastforce simp: applyCheckpointResult_def accept_answer_def Let_def observation_ok_def)
next
  case (Failed kind status reason)
  with assms show ?thesis
    by (auto simp: applyCheckpointResult_def accept_failure_def Let_def observation_ok_def resetObservation_def
        next_backoff_def commitments_ok_def)
qed

text \<open>C25: What the producer remembers of the server stays bounded. After any sequence of checkpoint
  results, successes and failures of every kind, a session holds at most the configured number of
  commitments, in strictly increasing order of their event counts and none beyond the committed
  count, and waits at most the configured back-off.\<close>

theorem checkpoint_memory_bounded:
  assumes "0 \<le> op_backoff_initial opts" and "0 \<le> op_backoff_max opts" and "observation_ok opts (se_obs s)"
  shows "observation_ok opts (se_obs (apply_results opts s rs))"
  using assms(3)
proof (induction rs arbitrary: s)
  case (Cons r rs)
  from Cons.IH [OF apply_result_ok [OF Cons.prems assms(1,2)]] show ?case by (simp add: apply_results_def)
qed (simp add: apply_results_def)

definition sample_options :: registry_options where
  "sample_options = \<lparr>op_producer = sample_producer, op_checkpoint = True, op_every_n = DEFAULT_CADENCE_EVERY_N_EVENTS,
     op_every_ms = DEFAULT_CADENCE_EVERY_MS, op_backoff_initial = DEFAULT_CHECKPOINT_BACKOFF_INITIAL_MS,
     op_backoff_max = DEFAULT_CHECKPOINT_BACKOFF_MAX_MS, op_retention = 2, op_signed_finish = True, op_journal = True\<rparr>"

definition sample_answer :: "int \<Rightarrow> checkpoint_outcome" where
  "sample_answer n = Answered \<lparr>an_session = js ''s'', an_token = js ''k'', an_checkpoint_id = js ''c'', an_event_count = n,
     an_chain_tip = js ''x'', an_server_t = js ''t'', an_created = True\<rparr>"

lemma checkpoint_memory_bounded_witness:
  "observation_ok sample_options (se_obs (apply_results sample_options sample_draft
      [sample_answer 1, sample_answer 5, Failed Transient 500 (js ''x''), sample_answer 9])) \<and>
   List.map cm_event_count (so_commitments (se_obs (apply_results sample_options sample_draft
      [sample_answer 1, sample_answer 5, Failed Transient 500 (js ''x''), sample_answer 9]))) = [1, 9]"
proof
  have "observation_ok sample_options (se_obs sample_draft)"
    by (simp add: observation_ok_def sample_draft_def emptyObservation_def commitments_ok_def sample_options_def
        DEFAULT_CHECKPOINT_BACKOFF_INITIAL_MS_def)
  then show "observation_ok sample_options (se_obs (apply_results sample_options sample_draft
      [sample_answer 1, sample_answer 5, Failed Transient 500 (js ''x''), sample_answer 9]))"
    by (intro checkpoint_memory_bounded)
       (simp_all add: sample_options_def DEFAULT_CHECKPOINT_BACKOFF_INITIAL_MS_def DEFAULT_CHECKPOINT_BACKOFF_MAX_MS_def)
  show "List.map cm_event_count (so_commitments (se_obs (apply_results sample_options sample_draft
      [sample_answer 1, sample_answer 5, Failed Transient 500 (js ''x''), sample_answer 9]))) = [1, 9]"
    by code_simp
qed

end
