(* ===== verification/Session_Registry.thy ===== *)
theory Session_Registry
  imports Checkpoint_Client
begin

text \<open>
  The session registry of a producer (\<open>packages/producer-core/src/registry.ts\<close>): the sessions it
  holds, the events not yet journaled, the identifiers to save, delete and clear, and the
  checkpoint loops that are running. Every method is a function from the registry to the registry it
  leaves and the value or the error it ends with: a method that throws has already marked the
  session as dirty. \<open>now\<close> is what the clock reads, \<open>fresh\<close> what the identifier generator would give.
\<close>

section \<open>State\<close>

datatype producer_error =
    UnknownSession jsstring
  | SessionFrozen jsstring session_state
  | BadWallTime
  | JournalBehind
  | BadMutation "verror list"
  | ProducerHash format_error
  | NoEvents jsstring
  | SelfVerification
  | NoUploadResponse jsstring
  | BadEventPage
  | BadDate

text \<open>A running checkpoint loop waits for a response or for a save before its next request.\<close>

datatype checkpoint_task = Posting posted_checkpoint | SavingQueued

record registry =
  rg_sessions :: "(jsstring \<times> session) list"
  rg_pending :: "(jsstring \<times> event_log) list"
  rg_dirty :: "jsstring list"
  rg_deleted :: "jsstring list"
  rg_clear :: "jsstring list"
  rg_flushing :: "jsstring list"
  rg_tasks :: "(jsstring \<times> checkpoint_task) list"

definition new_registry :: registry where
  "new_registry = \<lparr>rg_sessions = [], rg_pending = [], rg_dirty = [], rg_deleted = [], rg_clear = [],
     rg_flushing = [], rg_tasks = []\<rparr>"

text \<open>Sets iterate in the order of insertion.\<close>

definition set_add :: "'a \<Rightarrow> 'a list \<Rightarrow> 'a list" where
  "set_add x xs = (if x \<in> set xs then xs else xs @ [x])"

definition set_remove :: "'a \<Rightarrow> 'a list \<Rightarrow> 'a list" where
  "set_remove x xs = filter (\<lambda>y. y \<noteq> x) xs"

lemma set_add_simps [simp]: "set (set_add x xs) = insert x (set xs)" "set (set_remove x xs) = set xs - {x}"
  by (auto simp: set_add_def set_remove_def split: if_splits)

definition find_session :: "registry \<Rightarrow> jsstring \<Rightarrow> session option" where
  "find_session rg sid = map_of (rg_sessions rg) sid"

definition put_session :: "jsstring \<Rightarrow> session \<Rightarrow> registry \<Rightarrow> registry" where
  "put_session sid s rg = rg\<lparr>rg_sessions := AList.update sid s (rg_sessions rg)\<rparr>"

definition mark_dirty :: "jsstring \<Rightarrow> registry \<Rightarrow> registry" where
  "mark_dirty sid rg = rg\<lparr>rg_dirty := set_add sid (rg_dirty rg)\<rparr>"

definition pending_events :: "registry \<Rightarrow> jsstring \<Rightarrow> event_log" where
  "pending_events rg sid = (case map_of (rg_pending rg) sid of Some es \<Rightarrow> es | None \<Rightarrow> [])"

text \<open>A method body that goes on with the value of an earlier step, unless that step threw.\<close>

definition and_with :: "registry \<times> (producer_error + 'a) \<Rightarrow> (registry \<Rightarrow> 'a \<Rightarrow> registry \<times> (producer_error + 'b)) \<Rightarrow>
    registry \<times> (producer_error + 'b)" where
  "and_with m f = (case m of (rg, Inl e) \<Rightarrow> (rg, Inl e) | (rg, Inr a) \<Rightarrow> f rg a)"

definition require_session :: "registry \<Rightarrow> jsstring \<Rightarrow> registry \<times> (producer_error + session)" where
  "require_session rg sid = (case find_session rg sid of
      None \<Rightarrow> (rg, Inl (UnknownSession sid))
    | Some s \<Rightarrow> (mark_dirty sid rg, Inr s))"

definition requireInState :: "session_state list \<Rightarrow> registry \<Rightarrow> jsstring \<Rightarrow> registry \<times> (producer_error + session)" where
  "requireInState allowed rg sid = and_with (require_session rg sid) (\<lambda>rg s.
     (rg, guard (se_state s \<notin> set allowed) (SessionFrozen sid (se_state s)) (Inr s)))"

definition requireMutable :: "registry \<Rightarrow> jsstring \<Rightarrow> registry \<times> (producer_error + session)" where
  "requireMutable rg sid = and_with (require_session rg sid) (\<lambda>rg s.
     (rg, guard (se_state s \<noteq> Active) (SessionFrozen sid (se_state s)) (Inr s)))"

definition validateCaptureWallTime :: "int option \<Rightarrow> bool" where
  "validateCaptureWallTime t \<longleftrightarrow> (\<forall>v \<in> set_option t. in_ms_range v)"

section \<open>Loading\<close>

definition interrupted_reason :: jsstring where
  "interrupted_reason = js ''Saving was interrupted. Retry to recover the same signed record.''"

text \<open>Saved sessions have an observation and a chain tip field, as their type requires.\<close>

definition normaliseLoadedRecord :: "session \<Rightarrow> session" where
  "normaliseLoadedRecord s =
     (let s = (if se_state s = Signing \<or> se_state s = Uploading
               then s\<lparr>se_state := FailedUpload, se_failure := Some interrupted_reason\<rparr> else s) in
      s\<lparr>se_obs := (se_obs s)\<lparr>so_in_flight := False, so_queued := False, so_backoff := 0\<rparr>\<rparr>)"

definition load_one :: "registry \<Rightarrow> session \<Rightarrow> registry" where
  "load_one rg s = (let s = normaliseLoadedRecord s in mark_dirty (se_id s) (put_session (se_id s) s rg))"

definition load_sessions :: "registry \<Rightarrow> session list \<Rightarrow> registry" where
  "load_sessions rg snapshot =
     foldl load_one (rg\<lparr>rg_sessions := [], rg_pending := [], rg_dirty := [], rg_deleted := [], rg_clear := []\<rparr>) snapshot"

section \<open>Creating and resuming\<close>

definition blank_session :: "registry_options \<Rightarrow> jsstring \<Rightarrow> int \<Rightarrow> int \<Rightarrow> field_origin \<Rightarrow> field_descriptor \<Rightarrow>
    identity_certainty \<Rightarrow> jsstring \<Rightarrow> jsstring option \<Rightarrow> bool \<Rightarrow> session" where
  "blank_session opts sid base edited og de certainty surface parent gap =
     \<lparr>se_id = sid, se_version = (if op_signed_finish opts then V0_3 else V0_2), se_base = base, se_last_edit = edited,
      se_origin = og, se_descriptor = de, se_certainty = certainty, se_producer = op_producer opts,
      se_surface = surface, se_events = [],
      se_event_count = (if op_journal opts then Some 0 else None),
      se_last_event_t = (if op_journal opts then Some 0 else None),
      se_journaled = op_journal opts, se_upload_id = None, se_tip = None, se_state = Active, se_response = None,
      se_anchor = False, se_failure = None, se_binding = None, se_duration = None, se_parent = parent, se_gap = gap,
      se_obs = emptyObservation (op_checkpoint opts)\<rparr>"

definition findOrCreate :: "registry_options \<Rightarrow> registry \<Rightarrow> field_origin \<Rightarrow> field_descriptor \<Rightarrow> jsstring \<Rightarrow> bool \<Rightarrow> bool \<Rightarrow>
    int option \<Rightarrow> jsstring \<Rightarrow> int \<Rightarrow> registry \<times> (producer_error + session)" where
  "findOrCreate opts rg og de surface start_fresh content_unknown started_at fresh now =
     (if \<not> validateCaptureWallTime started_at then (rg, Inl BadWallTime)
      else
       let resolution = resolveSession og de (if start_fresh then [] else List.map snd (rg_sessions rg)) fresh;
           sid = ir_session_id resolution; certainty = ir_certainty resolution in
       case (if certainty = Resumed \<or> certainty = Collision then find_session rg sid else None) of
         Some s \<Rightarrow>
           (let s' = s\<lparr>se_certainty := certainty, se_descriptor := de, se_origin := og, se_last_edit := now\<rparr> in
            (mark_dirty sid (put_session sid s' rg), Inr s'))
       | None \<Rightarrow>
           (let t = (case started_at of Some t \<Rightarrow> t | None \<Rightarrow> now);
                s = blank_session opts sid t t og de certainty surface None content_unknown in
            (mark_dirty sid (put_session sid s rg), Inr s)))"

text \<open>
  Continuity is an event count and a chain tip up to which the producer restored the content.
\<close>

definition resume_session :: "registry \<Rightarrow> jsstring \<Rightarrow> field_origin \<Rightarrow> field_descriptor \<Rightarrow> bool \<Rightarrow>
    (int \<times> jsstring option) option \<Rightarrow> registry \<times> (producer_error + session)" where
  "resume_session rg sid og de field_is_empty continuity = and_with (requireMutable rg sid) (\<lambda>rg s.
     let continuous = (continuity = Some (sessionEventCount s, se_tip s));
         s' = s\<lparr>se_origin := og, se_descriptor := de, se_certainty := Resumed,
                se_gap := (\<not> continuous \<and> (sessionEventCount s > 0 \<or> \<not> field_is_empty))\<rparr> in
     (put_session sid s' rg, Inr s'))"

section \<open>Checkpoint loops\<close>

text \<open>The head of the loop: the next request of the session, if it still has something to post.\<close>

definition loop_head :: "registry \<Rightarrow> jsstring \<Rightarrow> jsstring \<Rightarrow> registry \<times> checkpoint_task option" where
  "loop_head rg sid fresh = (case find_session rg sid of
      None \<Rightarrow> (rg, None)
    | Some s \<Rightarrow> (case next_request s fresh of
        None \<Rightarrow> (put_session sid (s\<lparr>se_obs := (se_obs s)\<lparr>so_in_flight := False\<rparr>\<rparr>) rg, None)
      | Some rq \<Rightarrow> (rg, Some (Posting rq))))"

definition kickCheckpoint :: "registry \<Rightarrow> jsstring \<Rightarrow> session \<Rightarrow> int \<Rightarrow> jsstring \<Rightarrow> registry" where
  "kickCheckpoint rg sid s now fresh =
     (let s' = s\<lparr>se_obs := (se_obs s)\<lparr>so_in_flight := True, so_queued := False, so_last_attempt := Some now\<rparr>\<rparr>;
          (rg', task) = loop_head (mark_dirty sid (put_session sid s' rg)) sid fresh in
      case task of None \<Rightarrow> rg' | Some t \<Rightarrow> rg'\<lparr>rg_tasks := rg_tasks rg' @ [(sid, t)]\<rparr>)"

definition maybeTriggerCheckpoint :: "registry_options \<Rightarrow> registry \<Rightarrow> jsstring \<Rightarrow> session \<Rightarrow> int \<Rightarrow> jsstring \<Rightarrow> registry" where
  "maybeTriggerCheckpoint opts rg sid s now fresh =
     (if \<not> op_checkpoint opts \<or> so_state (se_obs s) = StateDiverged \<or> \<not> shouldTrigger opts s now
      then put_session sid s rg
      else if so_in_flight (se_obs s) then put_session sid (s\<lparr>se_obs := (se_obs s)\<lparr>so_queued := True\<rparr>\<rparr>) rg
      else kickCheckpoint rg sid s now fresh)"

definition remove_task :: "nat \<Rightarrow> registry \<Rightarrow> registry" where
  "remove_task i rg = rg\<lparr>rg_tasks := take i (rg_tasks rg) @ drop (Suc i) (rg_tasks rg)\<rparr>"

definition set_task :: "nat \<Rightarrow> jsstring \<Rightarrow> checkpoint_task \<Rightarrow> registry \<Rightarrow> registry" where
  "set_task i sid t rg = rg\<lparr>rg_tasks := (rg_tasks rg)[i := (sid, t)]\<rparr>"

text \<open>The body of the loop once the response to the request of task \<open>i\<close>, or its timeout, has arrived.\<close>

definition checkpoint_arrived :: "registry_options \<Rightarrow> registry \<Rightarrow> nat \<Rightarrow> checkpoint_outcome \<Rightarrow> registry" where
  "checkpoint_arrived opts rg i r =
     (case (if i < length (rg_tasks rg) then Some (rg_tasks rg ! i) else None) of
        Some (sid, Posting rq) \<Rightarrow>
          (case find_session rg sid of
             None \<Rightarrow> remove_task i rg
           | Some s \<Rightarrow>
              (let s' = applyCheckpointResult opts s r; ok = (case r of Answered _ \<Rightarrow> True | Failed _ _ _ \<Rightarrow> False);
                   rg' = mark_dirty sid rg in
               if ok \<and> sid \<notin> set (rg_flushing rg) \<and> so_queued (se_obs s')
                  \<and> sessionEventCount s' - so_committed (se_obs s') > 0
               then set_task i sid SavingQueued (put_session sid s' rg')
               else remove_task i (put_session sid (s'\<lparr>se_obs := (se_obs s')\<lparr>so_in_flight := False, so_queued := False\<rparr>\<rparr>) rg')))
      | _ \<Rightarrow> rg)"

text \<open>
  The save between two queued requests ended. When it failed the loop is over, and its owner, unless
  a newer loop of the session is running, clears the flag that says a request is in flight.
\<close>

definition save_finished :: "registry \<Rightarrow> nat \<Rightarrow> bool \<Rightarrow> int \<Rightarrow> jsstring \<Rightarrow> registry" where
  "save_finished rg i saved now fresh =
     (case (if i < length (rg_tasks rg) then Some (rg_tasks rg ! i) else None) of
        Some (sid, SavingQueued) \<Rightarrow>
          (case find_session rg sid of
             None \<Rightarrow> remove_task i rg
           | Some s \<Rightarrow>
              (if saved then
                 (let s' = s\<lparr>se_obs := (se_obs s)\<lparr>so_queued := False, so_last_attempt := Some now\<rparr>\<rparr>;
                      (rg', task) = loop_head (put_session sid s' rg) sid fresh in
                  case task of None \<Rightarrow> remove_task i rg' | Some t \<Rightarrow> set_task i sid t rg')
               else if sid \<notin> fst ` set (drop (Suc i) (rg_tasks rg)) \<and> so_in_flight (se_obs s)
               then mark_dirty sid (remove_task i (put_session sid (s\<lparr>se_obs := (se_obs s)\<lparr>so_in_flight := False\<rparr>\<rparr>) rg))
               else remove_task i rg))
      | _ \<Rightarrow> rg)"

text \<open>
  One round of \<open>flushObservation\<close>: the registry it leaves and, when the method goes on to wait for
  the session's loops, whether it has kicked a request by now.
\<close>

definition flush_round :: "registry_options \<Rightarrow> registry \<Rightarrow> jsstring \<Rightarrow> bool \<Rightarrow> int \<Rightarrow> jsstring \<Rightarrow> registry \<times> bool option" where
  "flush_round opts rg sid kicked now fresh = (case find_session rg sid of
      None \<Rightarrow> (rg, None)
    | Some s \<Rightarrow>
       (let ob = se_obs s in
        if so_state ob = StateDiverged \<or> (kicked \<and> so_failure ob \<noteq> None) then (rg, None)
        else if so_in_flight ob then (rg, Some kicked)
        else if so_committed ob = 0 \<or> sessionEventCount s \<le> so_committed ob then (rg, None)
        else (kickCheckpoint rg sid (s\<lparr>se_obs := ob\<lparr>so_backoff := 0\<rparr>\<rparr>) now fresh, Some True)))"

definition begin_flush :: "registry_options \<Rightarrow> registry \<Rightarrow> jsstring \<Rightarrow> registry" where
  "begin_flush opts rg sid = (if \<not> op_checkpoint opts then rg else rg\<lparr>rg_flushing := set_add sid (rg_flushing rg)\<rparr>)"

definition end_flush :: "registry \<Rightarrow> jsstring \<Rightarrow> registry" where
  "end_flush rg sid = rg\<lparr>rg_flushing := set_remove sid (rg_flushing rg)\<rparr>"

section \<open>Recording\<close>

text \<open>
  \<open>trigger_now\<close> is what the clock reads when a checkpoint may be triggered. Nothing else is kept of
  an event of a journaled session but its number and time.
\<close>

definition MAX_PENDING_EVENTS :: nat where "MAX_PENDING_EVENTS = 4096"

definition record_event :: "registry_options \<Rightarrow> registry \<Rightarrow> jsstring \<Rightarrow> session \<Rightarrow> mutation \<Rightarrow> jsstring \<Rightarrow> int \<Rightarrow> registry \<times> session" where
  "record_event opts rg sid s e tip now =
     (let (rg', s') = (if op_journal opts
        then (rg\<lparr>rg_pending := AList.update sid (pending_events rg sid @ [e]) (rg_pending rg)\<rparr>,
              s\<lparr>se_event_count := Some (ev_seq e + 1), se_last_event_t := Some (ev_t e)\<rparr>)
        else (rg, s\<lparr>se_events := se_events s @ [e]\<rparr>)) in
      (rg', recomputeObservationState opts
              (s'\<lparr>se_tip := Some tip, se_gap := False, se_last_edit := max (se_last_edit s) now\<rparr>)))"

definition appendMutation :: "noble \<Rightarrow> registry_options \<Rightarrow> registry \<Rightarrow> jsstring \<Rightarrow> pending_mutation \<Rightarrow> int option \<Rightarrow> int \<Rightarrow>
    int \<Rightarrow> jsstring \<Rightarrow> registry \<times> (producer_error + session option)" where
  "appendMutation nb opts rg sid p captured now trigger_now fresh =
     (if \<not> validateCaptureWallTime captured then (rg, Inl BadWallTime)
      else and_with (requireMutable rg sid) (\<lambda>rg s.
        let now = (case captured of Some t \<Rightarrow> t | None \<Rightarrow> now);
            observed = (if se_gap s then p\<lparr>pm_pos := None\<rparr> else p) in
        if op_journal opts \<and> length (pending_events rg sid) \<ge> MAX_PENDING_EVENTS then (rg, Inl JournalBehind)
        else case buildNextMutation observed (sessionEventCount s) (sessionLastEventTime s) now (se_base s) of
          Inl errors \<Rightarrow> (rg, Inl (BadMutation errors))
        | Inr e \<Rightarrow>
          (case advanceEventHash nb (se_tip s) e (se_id s) (se_version s) of
             Inl err \<Rightarrow> (rg, Inl (ProducerHash err))
           | Inr tip \<Rightarrow>
              (let (rg', s') = record_event opts rg sid s e tip now;
                   rg'' = maybeTriggerCheckpoint opts rg' sid s' trigger_now fresh in
               (rg'', Inr (find_session rg'' sid))))))"

definition unrecorded_change :: pending_mutation where
  "unrecorded_change = \<lparr>pm_op = OpReplace, pm_pos = None, pm_del_len = None, pm_ins_len = None, pm_source = UnknownSource\<rparr>"

definition recordUnrecordedChange :: "noble \<Rightarrow> registry_options \<Rightarrow> registry \<Rightarrow> jsstring \<Rightarrow> int \<Rightarrow> int \<Rightarrow> jsstring \<Rightarrow>
    registry \<times> (producer_error + session option)" where
  "recordUnrecordedChange nb opts rg sid now trigger_now fresh = and_with (requireMutable rg sid) (\<lambda>rg _.
     appendMutation nb opts rg sid unrecorded_change None now trigger_now fresh)"

section \<open>Signing and publishing\<close>

record signed_draft =
  sd_manifest :: manifest
  sd_events :: event_log
  sd_upload_id :: "jsstring option"

text \<open>The tip of the chain of \<open>events\<close>, or \<open>null\<close> when there are none.\<close>

fun chainHeadFromEvents :: "noble \<Rightarrow> jsstring option \<Rightarrow> event_log \<Rightarrow> jsstring \<Rightarrow> format_version \<Rightarrow> format_error + jsstring option" where
  "chainHeadFromEvents nb tip [] sid v = Inr tip"
| "chainHeadFromEvents nb tip (e # es) sid v =
     andThen (advanceEventHash nb tip e sid v) (\<lambda>h. chainHeadFromEvents nb (Some h) es sid v)"

definition signed_version :: "registry_options \<Rightarrow> session \<Rightarrow> format_version" where
  "signed_version opts s =
     (if op_signed_finish opts \<and> se_state s \<noteq> FailedUpload \<and> se_version s = V0_2 then V0_3 else se_version s)"

definition signed_duration :: "registry_options \<Rightarrow> session \<Rightarrow> int \<Rightarrow> int" where
  "signed_duration opts s now = (case (if se_state s = FailedUpload then se_duration s else None) of
      Some d \<Rightarrow> d
    | None \<Rightarrow> if signed_version opts s = V0_3 then max (sessionLastEventTime s) (now - se_base s)
              else sessionLastEventTime s)"

definition signed_binding :: "session \<Rightarrow> text_binding option \<Rightarrow> text_binding option" where
  "signed_binding s tb = (if se_state s = FailedUpload then se_binding s else tb)"

definition signed_hash :: "noble \<Rightarrow> registry_options \<Rightarrow> session \<Rightarrow> text_binding option \<Rightarrow> int \<Rightarrow> format_error + jsstring option" where
  "signed_hash nb opts s tb duration =
     (let v = signed_version opts s; fin = Some (duration, se_parent s) in
      if op_journal opts then
        (case se_tip s of None \<Rightarrow> Inl InvalidTip
         | Some tip \<Rightarrow> andThen (sealRecordHash nb tip v tb fin) (\<lambda>h. Inr (Some h)))
      else if tb \<noteq> None \<or> v = V0_3 then andThen (computeRecordHash nb (se_events s) (se_id s) v tb fin) (\<lambda>h. Inr (Some h))
      else case se_tip s of Some tip \<Rightarrow> Inr (Some tip) | None \<Rightarrow> chainHeadFromEvents nb None (se_events s) (se_id s) v)"

definition draft_manifest :: "registry_options \<Rightarrow> session \<Rightarrow> jsstring \<Rightarrow> text_binding option \<Rightarrow> int \<Rightarrow> jsstring \<Rightarrow> manifest" where
  "draft_manifest opts s h tb duration created =
     \<lparr>mf_format_version = signed_version opts s, mf_record_hash = h, mf_session_id = se_id s,
      mf_producer = se_producer s, mf_text_binding = tb, mf_event_count = sessionEventCount s,
      mf_duration_ms = duration, mf_created_client_t = Some created, mf_ingested_server_t = None,
      mf_parent_record = se_parent s, mf_attestations = []\<rparr>"

definition self_verifies :: "(jsstring \<Rightarrow> bool) \<Rightarrow> noble \<Rightarrow> registry_options \<Rightarrow> manifest \<Rightarrow> event_log \<Rightarrow> format_error + bool" where
  "self_verifies parses nb opts m es =
     (if op_journal opts then Inr (validateManifest parses (manifest_json m) = [])
      else andThen (verifyEventHashChain parses nb \<lparr>wr_manifest = m, wr_events = es\<rparr>) (\<lambda>res. Inr (vr_valid res)))"

text \<open>
  A session to sign, after the guards: the draft, or the error thrown. A record hash that is \<open>null\<close>
  fails the self-verification. \<open>toISO\<close> is the text of an instant, absent where \<open>toISOString\<close> throws.
\<close>

definition build_draft :: "(jsstring \<Rightarrow> bool) \<Rightarrow> (int \<Rightarrow> jsstring option) \<Rightarrow> noble \<Rightarrow> registry_options \<Rightarrow> session \<Rightarrow>
    text_binding option \<Rightarrow> int \<Rightarrow> producer_error + manifest \<times> event_log" where
  "build_draft parses toISO nb opts s binding now =
     (let events = (if op_journal opts then [] else se_events s);
          tb = signed_binding s binding; duration = signed_duration opts s now in
      case signed_hash nb opts s tb duration of
        Inl e \<Rightarrow> Inl (ProducerHash e)
      | Inr h \<Rightarrow>
       (case toISO (se_base s) of
          None \<Rightarrow> Inl BadDate
        | Some created \<Rightarrow>
         (case h of None \<Rightarrow> Inl SelfVerification
          | Some h \<Rightarrow>
           (let m = draft_manifest opts s h tb duration created in
            case self_verifies parses nb opts m events of
              Inl e \<Rightarrow> Inl (ProducerHash e)
            | Inr ok \<Rightarrow> guard (\<not> ok) SelfVerification (Inr (m, events))))))"

definition sign_session :: "(jsstring \<Rightarrow> bool) \<Rightarrow> (int \<Rightarrow> jsstring option) \<Rightarrow> noble \<Rightarrow> registry_options \<Rightarrow> registry \<Rightarrow> jsstring \<Rightarrow>
    text_binding option \<Rightarrow> int \<Rightarrow> jsstring \<Rightarrow> registry \<times> (producer_error + signed_draft)" where
  "sign_session parses toISO nb opts rg sid binding now fresh =
     and_with (requireInState [Active, FailedUpload] rg sid) (\<lambda>rg s.
       if sessionEventCount s = 0 then (rg, Inl (NoEvents sid))
       else case build_draft parses toISO nb opts s binding now of
         Inl e \<Rightarrow> (rg, Inl e)
       | Inr (m, events) \<Rightarrow>
         (let s' = s\<lparr>se_state := Signing, se_version := mf_format_version m, se_binding := mf_text_binding m,
                     se_duration := Some (mf_duration_ms m),
                     se_upload_id := (if op_journal opts \<and> se_upload_id s = None then Some fresh else se_upload_id s)\<rparr> in
          (put_session sid s' rg, Inr \<lparr>sd_manifest = m, sd_events = events, sd_upload_id = se_upload_id s'\<rparr>)))"

definition markUploading :: "registry \<Rightarrow> jsstring \<Rightarrow> registry \<times> (producer_error + unit)" where
  "markUploading rg sid = and_with (requireInState [Signing, FailedUpload] rg sid) (\<lambda>rg s.
     (put_session sid (s\<lparr>se_state := Uploading, se_failure := None\<rparr>) rg, Inr ()))"

definition markUploaded :: "registry \<Rightarrow> jsstring \<Rightarrow> upload_response \<Rightarrow> int \<Rightarrow> registry \<times> (producer_error + unit)" where
  "markUploaded rg sid response now = and_with (requireInState [Uploading] rg sid) (\<lambda>rg s.
     (put_session sid (s\<lparr>se_state := Uploaded, se_response := Some response, se_last_edit := now\<rparr>) rg, Inr ()))"

definition markFailedUpload :: "registry \<Rightarrow> jsstring \<Rightarrow> jsstring \<Rightarrow> registry \<times> (producer_error + unit)" where
  "markFailedUpload rg sid reason = and_with (requireInState [Uploading, Signing] rg sid) (\<lambda>rg s.
     (put_session sid (s\<lparr>se_state := FailedUpload, se_failure := Some reason\<rparr>) rg, Inr ()))"

datatype rejection = RejectedMismatch | RejectedUnavailable

fun rejection_failure :: "rejection \<Rightarrow> jsstring \<times> jsstring" where
  "rejection_failure RejectedMismatch = (js ''observation_mismatch'', js ''409'')"
| "rejection_failure RejectedUnavailable = (js ''observation_unavailable'', js ''404'')"

definition markObservationRejected :: "registry \<Rightarrow> jsstring \<Rightarrow> rejection \<Rightarrow> registry \<times> (producer_error + unit)" where
  "markObservationRejected rg sid r = and_with (requireInState [Uploading, FailedUpload] rg sid) (\<lambda>rg s.
     let ob = (se_obs s)\<lparr>so_failure := Some (rejection_failure r)\<rparr> in
     (put_session sid (s\<lparr>se_obs := (if r = RejectedUnavailable then resetObservation ob
        else ob\<lparr>so_state := StateDiverged, so_backoff := 0\<rparr>)\<rparr>) rg, Inr ()))"

datatype upload_envelope = EnvelopeUnobserved | EnvelopeBound jsstring jsstring

definition getObservationEnvelope :: "registry_options \<Rightarrow> registry \<Rightarrow> jsstring \<Rightarrow> upload_envelope option" where
  "getObservationEnvelope opts rg sid = (case find_session rg sid of
      None \<Rightarrow> None
    | Some s \<Rightarrow>
       (let ob = se_obs s in
        if \<not> op_checkpoint opts then None
        else if so_state ob = StateDiverged \<or> \<not> truthy (so_observed_session_id ob) \<or> \<not> truthy (so_token ob)
        then Some EnvelopeUnobserved
        else Some (EnvelopeBound (the (so_observed_session_id ob)) (the (so_token ob)))))"

section \<open>Continuing, discarding and expiring\<close>

definition prior_finish :: "session \<Rightarrow> int" where
  "prior_finish s = (case (if se_version s = V0_3 then se_duration s else None) of
      Some d \<Rightarrow> se_base s + d | None \<Rightarrow> se_last_edit s)"

definition continues :: "jsstring \<Rightarrow> session \<Rightarrow> bool" where
  "continues parent s \<longleftrightarrow> se_state s = Active \<and> se_parent s = Some parent"

definition continueFrom :: "registry_options \<Rightarrow> registry \<Rightarrow> jsstring \<Rightarrow> field_origin option \<Rightarrow> field_descriptor option \<Rightarrow>
    jsstring \<Rightarrow> int \<Rightarrow> registry \<times> (producer_error + session)" where
  "continueFrom opts rg sid og de fresh now = and_with (requireInState [Uploaded] rg sid) (\<lambda>rg previous.
     case se_response previous of
       None \<Rightarrow> (rg, Inl (NoUploadResponse sid))
     | Some response \<Rightarrow>
        (let parent = ur_record_hash response in
         case List.find (continues parent) (List.map snd (rg_sessions rg)) of
           Some s \<Rightarrow>
             (let s' = s\<lparr>se_origin := (case og of Some o' \<Rightarrow> o' | None \<Rightarrow> se_origin s),
                         se_descriptor := (case de of Some d \<Rightarrow> d | None \<Rightarrow> se_descriptor s), se_last_edit := now\<rparr> in
              (mark_dirty (se_id s) (put_session (se_id s) s' rg), Inr s'))
         | None \<Rightarrow>
             (let s = blank_session opts fresh (if op_signed_finish opts then prior_finish previous else now) now
                        (case og of Some o' \<Rightarrow> o' | None \<Rightarrow> se_origin previous)
                        (case de of Some d \<Rightarrow> d | None \<Rightarrow> se_descriptor previous)
                        Resumed (se_surface previous) (Some parent) (op_signed_finish opts) in
              (mark_dirty fresh (put_session fresh s rg), Inr s))))"

definition drop_session :: "jsstring \<Rightarrow> registry \<Rightarrow> registry" where
  "drop_session sid rg = rg\<lparr>rg_sessions := AList.delete sid (rg_sessions rg), rg_deleted := set_add sid (rg_deleted rg),
     rg_dirty := set_remove sid (rg_dirty rg), rg_pending := AList.delete sid (rg_pending rg)\<rparr>"

definition discard_session :: "registry \<Rightarrow> jsstring \<Rightarrow> registry \<times> session option" where
  "discard_session rg sid = (case find_session rg sid of
      None \<Rightarrow> (rg, None)
    | Some s \<Rightarrow> (drop_session sid rg, Some s))"

text \<open>An expired upload may leave an anchor: its identity and outcome without its history.\<close>

definition upload_anchor :: "registry_options \<Rightarrow> session \<Rightarrow> session" where
  "upload_anchor opts s = s\<lparr>se_events := [], se_anchor := True, se_tip := None, se_obs := emptyObservation (op_checkpoint opts)\<rparr>"

definition sweep_one :: "registry_options \<Rightarrow> int \<Rightarrow> int \<Rightarrow> bool \<Rightarrow> registry \<times> session list \<Rightarrow> session \<Rightarrow> registry \<times> session list" where
  "sweep_one opts now ttl retain_anchors acc s = (case acc of (rg, logs) \<Rightarrow>
     if retain_anchors \<and> se_state s = Uploaded \<and> now - se_last_edit s < ttl
     then (mark_dirty (se_id s)
             ((put_session (se_id s) (upload_anchor opts s) rg)\<lparr>rg_clear := set_add (se_id s) (rg_clear rg)\<rparr>), logs)
     else (drop_session (se_id s) rg, logs @ [s]))"

definition sweep_sessions :: "registry_options \<Rightarrow> registry \<Rightarrow> int \<Rightarrow> int option \<Rightarrow> int option \<Rightarrow> bool \<Rightarrow> registry \<times> session list" where
  "sweep_sessions opts rg now ttl_ms grace_ms retain_anchors =
     (let ttl = (case ttl_ms of Some t \<Rightarrow> t | None \<Rightarrow> DEFAULT_TTL_MS);
          grace = (case grace_ms of Some g \<Rightarrow> g | None \<Rightarrow> DEFAULT_UPLOADED_GRACE_MS) in
      foldl (sweep_one opts now ttl retain_anchors) (rg, []) (snd (sweepExpired (List.map snd (rg_sessions rg)) now ttl grace)))"

section \<open>Saving to a journal\<close>

record journal_batch =
  jb_sessions :: "session list"
  jb_appends :: "(jsstring \<times> event_log) list"
  jb_deleted :: "jsstring list"
  jb_clear :: "jsstring list"

definition batch_of :: "registry \<Rightarrow> journal_batch" where
  "batch_of rg = \<lparr>
     jb_sessions = List.map_filter (find_session rg) (rg_dirty rg),
     jb_appends = List.map_filter (\<lambda>sid. if pending_events rg sid = [] then None else Some (sid, pending_events rg sid)) (rg_dirty rg),
     jb_deleted = rg_deleted rg, jb_clear = rg_clear rg\<rparr>"

text \<open>Until the commit of a batch ends, \<open>ids\<close> remembers the marks taken from the registry.\<close>

record journal_flight =
  jf_batch :: journal_batch
  jf_ids :: "jsstring list"

definition take_batch :: "registry \<Rightarrow> registry \<times> journal_flight option" where
  "take_batch rg =
     (if rg_dirty rg = [] \<and> rg_deleted rg = [] \<and> rg_clear rg = [] then (rg, None)
      else (rg\<lparr>rg_dirty := [], rg_deleted := [], rg_clear := []\<rparr>,
            Some \<lparr>jf_batch = batch_of rg, jf_ids = rg_dirty rg\<rparr>))"

definition splice_pending :: "registry \<Rightarrow> jsstring \<times> event_log \<Rightarrow> registry" where
  "splice_pending rg chunk = (case map_of (rg_pending rg) (fst chunk) of
      None \<Rightarrow> rg
    | Some es \<Rightarrow> rg\<lparr>rg_pending := AList.update (fst chunk) (drop (length (snd chunk)) es) (rg_pending rg)\<rparr>)"

definition batch_saved :: "registry \<Rightarrow> journal_flight \<Rightarrow> registry" where
  "batch_saved rg fl = foldl splice_pending rg (jb_appends (jf_batch fl))"

definition add_all :: "'a list \<Rightarrow> 'a list \<Rightarrow> 'a list" where
  "add_all xs ys = foldl (\<lambda>zs x. set_add x zs) ys xs"

definition batch_failed :: "registry \<Rightarrow> journal_flight \<Rightarrow> registry" where
  "batch_failed rg fl = rg\<lparr>rg_dirty := add_all (jf_ids fl) (rg_dirty rg),
     rg_deleted := add_all (jb_deleted (jf_batch fl)) (rg_deleted rg),
     rg_clear := add_all (jb_clear (jf_batch fl)) (rg_clear rg)\<rparr>"

section \<open>Reading history\<close>

definition bad_page :: "int \<Rightarrow> int \<Rightarrow> bool" where
  "bad_page start limit \<longleftrightarrow> \<not> in_ms_range start \<or> limit < 1 \<or> limit > 4096"

text \<open>Without a journal the events are in the session.\<close>

definition readEvents_memory :: "registry \<Rightarrow> jsstring \<Rightarrow> int \<Rightarrow> int \<Rightarrow> producer_error + event_log" where
  "readEvents_memory rg sid start limit =
     guard (bad_page start limit) BadEventPage
       (case find_session rg sid of
          None \<Rightarrow> Inl (UnknownSession sid)
        | Some s \<Rightarrow> Inr (take (nat limit) (drop (nat start) (se_events s))))"

end
