(* ===== verification/Registry_Invariant.thy ===== *)
theory Registry_Invariant
  imports Session_Registry
begin

text \<open>
  The invariant of a journaled session registry: what it keeps of a session, an event count, the time
  of the last event and the chain tip, describes the log that is partly in the journal and partly
  still pending.
\<close>

section \<open>Consistent sessions\<close>

definition session_good :: "noble \<Rightarrow> event_log \<Rightarrow> session \<Rightarrow> bool" where
  "session_good nb es s \<longleftrightarrow> valid_log es \<and> se_tip s = tip_after nb (se_id s) (se_version s) es
     \<and> se_event_count s = Some (int (length es)) \<and> se_last_event_t s = Some (durationMs es)
     \<and> se_events s = [] \<and> se_journaled s \<and> (es \<noteq> [] \<longrightarrow> isUuid (se_id s))
     \<and> (\<forall>d. se_duration s = Some d \<longrightarrow> durationMs es \<le> d) \<and> (se_state s = Active \<longrightarrow> se_duration s = None)"

lemma tip_after_version:
  "eventChainFormatVersion v = eventChainFormatVersion v' \<Longrightarrow> tip_after nb sid v es = tip_after nb sid v' es"
proof -
  assume "eventChainFormatVersion v = eventChainFormatVersion v'"
  then have "next_tip nb sid v = next_tip nb sid v'" by (intro ext) (simp add: next_tip_def event_preimage_def split: option.split)
  then show ?thesis by (simp add: tip_after_def)
qed

lemma session_good_counts:
  assumes "session_good nb es s"
  shows "sessionEventCount s = int (length es)" and "sessionLastEventTime s = durationMs es"
  using assms by (simp_all add: session_good_def sessionEventCount_def sessionLastEventTime_def)

text \<open>What a session keeps besides its log does not matter.\<close>

definition keeps_log :: "session \<Rightarrow> session \<Rightarrow> bool" where
  "keeps_log s s' \<longleftrightarrow> se_id s' = se_id s \<and> se_anchor s' = se_anchor s
     \<and> eventChainFormatVersion (se_version s') = eventChainFormatVersion (se_version s) \<and> se_tip s' = se_tip s
     \<and> se_event_count s' = se_event_count s \<and> se_last_event_t s' = se_last_event_t s \<and> se_events s' = se_events s
     \<and> se_journaled s' = se_journaled s \<and> (se_state s = Uploaded \<longrightarrow> se_state s' = Uploaded)
     \<and> (\<forall>d. se_duration s' = Some d \<longrightarrow> se_duration s = Some d \<or> sessionLastEventTime s \<le> d)
     \<and> (se_state s' = Active \<longrightarrow> se_state s = Active \<and> se_duration s' = se_duration s)"

lemma keeps_log_refl [simp]: "keeps_log s s"
  by (simp add: keeps_log_def)

lemma keeps_log_good:
  assumes "session_good nb es s" and "keeps_log s s'"
  shows "session_good nb es s'"
  using assms tip_after_version [of "se_version s'" "se_version s" nb "se_id s" es] session_good_counts(2) [OF assms(1)]
  by (auto simp: session_good_def keeps_log_def)

section \<open>The invariant\<close>

text \<open>
  \<open>base sid\<close> is the log of a session that the journal held when the batch now under way was taken and
  \<open>pre sid\<close> what that batch appends to it; \<open>gone\<close> and \<open>cleared\<close> are the sessions it deletes and clears.
\<close>

definition live_log :: "(jsstring \<Rightarrow> event_log) \<Rightarrow> registry \<Rightarrow> jsstring \<Rightarrow> event_log" where
  "live_log base rg sid = base sid @ pending_events rg sid"

definition session_fits :: "noble \<Rightarrow> event_log \<Rightarrow> jsstring \<Rightarrow> session \<Rightarrow> bool" where
  "session_fits nb es sid s \<longleftrightarrow> se_id s = sid \<and>
     (if se_anchor s then se_state s = Uploaded else session_good nb es s)"

definition anchored :: "registry \<Rightarrow> jsstring \<Rightarrow> bool" where
  "anchored rg sid \<longleftrightarrow> (\<exists>s. find_session rg sid = Some s \<and> se_anchor s)"

definition registry_ok :: "noble \<Rightarrow> (jsstring \<Rightarrow> event_log) \<Rightarrow> (jsstring \<Rightarrow> event_log) \<Rightarrow> jsstring set \<Rightarrow> jsstring set \<Rightarrow> registry \<Rightarrow> bool" where
  "registry_ok nb base pre gone cleared rg \<longleftrightarrow>
     (\<forall>sid s. find_session rg sid = Some s \<longrightarrow> session_fits nb (live_log base rg sid) sid s)
   \<and> (\<forall>sid. find_session rg sid = None \<longrightarrow> map_of (rg_pending rg) sid = None)
   \<and> (\<forall>sid. find_session rg sid \<noteq> None \<longrightarrow> take (length (pre sid)) (pending_events rg sid) = pre sid)
   \<and> (\<forall>sid. find_session rg sid \<noteq> None \<longrightarrow> pending_events rg sid \<noteq> pre sid \<longrightarrow> sid \<in> set (rg_dirty rg))
   \<and> (\<forall>sid. length (pending_events rg sid) \<le> MAX_PENDING_EVENTS)
   \<and> (\<forall>sid. \<forall>e \<in> set (pending_events rg sid). in_int_range (ev_seq e))
   \<and> (\<forall>sid \<in> gone \<union> set (rg_deleted rg). find_session rg sid = None)
   \<and> (\<forall>sid \<in> set (rg_clear rg). sid \<in> set (rg_deleted rg) \<or> sid \<in> set (rg_dirty rg) \<and> anchored rg sid)
   \<and> (\<forall>sid \<in> cleared. sid \<in> gone \<or> sid \<in> set (rg_deleted rg) \<or> anchored rg sid)
   \<and> distinct (rg_dirty rg) \<and> distinct (List.map fst (rg_sessions rg))"

text \<open>An identifier that the generator has not given before.\<close>

definition unused :: "(jsstring \<Rightarrow> event_log) \<Rightarrow> (jsstring \<Rightarrow> event_log) \<Rightarrow> jsstring set \<Rightarrow> jsstring set \<Rightarrow> registry \<Rightarrow> jsstring \<Rightarrow> bool" where
  "unused base pre gone cleared rg sid \<longleftrightarrow> base sid = [] \<and> pre sid = [] \<and> find_session rg sid = None
     \<and> sid \<notin> gone \<union> cleared \<union> set (rg_deleted rg)"

section \<open>Reading the fields of an updated registry\<close>

lemma find_put [simp]: "find_session (put_session sid s rg) k = (if k = sid then Some s else find_session rg k)"
  by (simp add: find_session_def put_session_def update_conv')

lemma put_fields [simp]:
  "rg_pending (put_session sid s rg) = rg_pending rg" "rg_dirty (put_session sid s rg) = rg_dirty rg"
  "rg_deleted (put_session sid s rg) = rg_deleted rg" "rg_clear (put_session sid s rg) = rg_clear rg"
  "rg_flushing (put_session sid s rg) = rg_flushing rg" "rg_tasks (put_session sid s rg) = rg_tasks rg"
  by (simp_all add: put_session_def)

lemma find_ignores [simp]:
  "find_session (mark_dirty sid rg) = find_session rg" "find_session (rg\<lparr>rg_tasks := ts\<rparr>) = find_session rg"
  "find_session (rg\<lparr>rg_pending := ps\<rparr>) = find_session rg" "find_session (rg\<lparr>rg_clear := cl\<rparr>) = find_session rg"
  "find_session (rg\<lparr>rg_flushing := fs\<rparr>) = find_session rg" "find_session (rg\<lparr>rg_dirty := ds\<rparr>) = find_session rg"
  "find_session (rg\<lparr>rg_deleted := dl\<rparr>) = find_session rg"
  by (auto simp: find_session_def mark_dirty_def)

lemma pending_ignores [simp]:
  "pending_events (mark_dirty sid rg) = pending_events rg" "pending_events (rg\<lparr>rg_tasks := ts\<rparr>) = pending_events rg"
  "pending_events (put_session sid s rg) = pending_events rg" "pending_events (rg\<lparr>rg_clear := cl\<rparr>) = pending_events rg"
  "pending_events (rg\<lparr>rg_flushing := fs\<rparr>) = pending_events rg" "pending_events (rg\<lparr>rg_dirty := ds\<rparr>) = pending_events rg"
  "pending_events (rg\<lparr>rg_deleted := dl\<rparr>) = pending_events rg"
  by (auto simp: pending_events_def mark_dirty_def fun_eq_iff)

lemma mark_dirty_fields [simp]:
  "rg_dirty (mark_dirty sid rg) = set_add sid (rg_dirty rg)" "rg_sessions (mark_dirty sid rg) = rg_sessions rg"
  "rg_pending (mark_dirty sid rg) = rg_pending rg" "rg_deleted (mark_dirty sid rg) = rg_deleted rg"
  "rg_clear (mark_dirty sid rg) = rg_clear rg" "rg_tasks (mark_dirty sid rg) = rg_tasks rg"
  by (simp_all add: mark_dirty_def)

lemma anchored_ignores [simp]:
  "anchored (mark_dirty sid rg) = anchored rg" "anchored (rg\<lparr>rg_tasks := ts\<rparr>) = anchored rg"
  "anchored (rg\<lparr>rg_flushing := fs\<rparr>) = anchored rg" "anchored (rg\<lparr>rg_clear := cl\<rparr>) = anchored rg"
  "anchored (rg\<lparr>rg_pending := ps\<rparr>) = anchored rg"
  by (auto simp: anchored_def fun_eq_iff)

lemma live_log_ignores [simp]:
  "live_log base (mark_dirty sid rg) = live_log base rg" "live_log base (rg\<lparr>rg_tasks := ts\<rparr>) = live_log base rg"
  "live_log base (put_session sid s rg) = live_log base rg" "live_log base (rg\<lparr>rg_flushing := fs\<rparr>) = live_log base rg"
  "live_log base (rg\<lparr>rg_clear := cl\<rparr>) = live_log base rg"
  by (auto simp: live_log_def fun_eq_iff)

lemma distinct_set_add [simp]: "distinct xs \<Longrightarrow> distinct (set_add x xs)" "distinct xs \<Longrightarrow> distinct (set_remove x xs)"
  by (simp_all add: set_add_def set_remove_def)

lemma distinct_put [simp]:
  "distinct (List.map fst (rg_sessions rg)) \<Longrightarrow> distinct (List.map fst (rg_sessions (put_session sid s rg)))"
  by (simp add: put_session_def distinct_update)

section \<open>Building blocks\<close>

lemma mark_dirty_ok [inv_intros]:
  "registry_ok nb base pre gone cleared rg \<Longrightarrow> registry_ok nb base pre gone cleared (mark_dirty sid rg)"
  unfolding registry_ok_def by auto

lemma tasks_ok [inv_intros]:
  "registry_ok nb base pre gone cleared rg \<Longrightarrow> registry_ok nb base pre gone cleared (rg\<lparr>rg_tasks := ts\<rparr>)"
  unfolding registry_ok_def by auto

lemma flushing_ok [inv_intros]:
  "registry_ok nb base pre gone cleared rg \<Longrightarrow> registry_ok nb base pre gone cleared (rg\<lparr>rg_flushing := fs\<rparr>)"
  unfolding registry_ok_def by auto

lemma put_ok:
  assumes "registry_ok nb base pre gone cleared rg" and "find_session rg sid = Some s" and "keeps_log s s'"
  shows "registry_ok nb base pre gone cleared (put_session sid s' rg)"
proof -
  from assms have fits: "session_fits nb (live_log base rg sid) sid s" unfolding registry_ok_def by blast
  have fits': "session_fits nb (live_log base rg sid) sid s'"
    using fits assms(3) keeps_log_good [OF _ assms(3)] by (auto simp: session_fits_def keeps_log_def)
  have "anchored (put_session sid s' rg) k" if "anchored rg k" for k
    using that assms(2,3) by (auto simp: anchored_def keeps_log_def)
  with fits' assms(1,2) show ?thesis unfolding registry_ok_def by (auto split: if_splits)
qed

lemma new_session_ok:
  assumes "registry_ok nb base pre gone cleared rg" and "unused base pre gone cleared rg sid"
    and "session_good nb [] s" and "se_id s = sid" and "\<not> se_anchor s"
  shows "registry_ok nb base pre gone cleared (mark_dirty sid (put_session sid s rg))"
proof -
  from assms(1,2) have "map_of (rg_pending rg) sid = None" unfolding registry_ok_def unused_def by blast
  then have p: "pending_events rg sid = []" by (simp add: pending_events_def)
  with assms have fits: "session_fits nb (live_log base rg sid) sid s"
    by (simp add: session_fits_def live_log_def unused_def)
  have c: "sid \<notin> set (rg_clear rg)" using assms(1,2) unfolding registry_ok_def unused_def anchored_def by force
  have "anchored (put_session sid s rg) k" if "anchored rg k" for k
    using that assms(2) by (auto simp: anchored_def unused_def)
  with fits p c assms(1,2) show ?thesis unfolding registry_ok_def unused_def by (auto split: if_splits)
qed

section \<open>Every method keeps the invariant\<close>

lemma and_with_fst:
  "fst (and_with m f) = (case m of (rg, Inl e) \<Rightarrow> rg | (rg, Inr a) \<Rightarrow> fst (f rg a))"
  by (auto simp: and_with_def split: prod.splits sum.splits)

lemma require_cases:
  obtains (unknown) "find_session rg sid = None" "requireInState allowed rg sid = (rg, Inl (UnknownSession sid))"
  | (frozen) s where "find_session rg sid = Some s" "se_state s \<notin> set allowed"
      "requireInState allowed rg sid = (mark_dirty sid rg, Inl (SessionFrozen sid (se_state s)))"
  | (found) s where "find_session rg sid = Some s" "se_state s \<in> set allowed"
      "requireInState allowed rg sid = (mark_dirty sid rg, Inr s)"
  by (cases "find_session rg sid") (auto simp: requireInState_def require_session_def and_with_def guard_def split: if_splits)

lemma requireMutable_state: "requireMutable rg sid = requireInState [Active] rg sid"
  by (simp add: requireMutable_def requireInState_def)

text \<open>The methods that change one session and keep its log.\<close>

definition quiet :: "registry \<Rightarrow> jsstring \<Rightarrow> session \<Rightarrow> registry \<Rightarrow> bool" where
  "quiet rg sid s rg' \<longleftrightarrow> rg' = rg \<or> (\<exists>s'. keeps_log s s' \<and> rg' = put_session sid s' rg)"

lemma quiet_intros [simp, intro]: "quiet rg sid s rg" "keeps_log s s' \<Longrightarrow> quiet rg sid s (put_session sid s' rg)"
  by (auto simp: quiet_def)

lemma update_method_ok:
  assumes "registry_ok nb base pre gone cleared rg"
    and "\<And>s. find_session rg sid = Some s \<Longrightarrow> se_state s \<in> set allowed \<Longrightarrow>
      quiet (mark_dirty sid rg) sid s (fst (f (mark_dirty sid rg) s))"
  shows "registry_ok nb base pre gone cleared (fst (and_with (requireInState allowed rg sid) f))"
proof (cases rule: require_cases [of rg sid allowed])
  case unknown
  with assms(1) show ?thesis by (simp add: and_with_def)
next
  case (frozen s)
  with assms(1) show ?thesis by (simp add: and_with_def mark_dirty_ok)
next
  case (found s)
  have ok: "registry_ok nb base pre gone cleared (mark_dirty sid rg)" by (rule mark_dirty_ok [OF assms(1)])
  from found assms(2) [OF found(1,2)] show ?thesis
    using ok put_ok [OF ok, of sid s] by (auto simp: and_with_def quiet_def)
qed

lemma markUploading_ok [inv_intros]:
  "registry_ok nb base pre gone cleared rg \<Longrightarrow> registry_ok nb base pre gone cleared (fst (markUploading rg sid))"
  unfolding markUploading_def by (rule update_method_ok) (auto simp: keeps_log_def intro!: quiet_intros(2))

lemma markUploaded_ok [inv_intros]:
  "registry_ok nb base pre gone cleared rg \<Longrightarrow> registry_ok nb base pre gone cleared (fst (markUploaded rg sid response now))"
  unfolding markUploaded_def by (rule update_method_ok) (auto simp: keeps_log_def intro!: quiet_intros(2))

lemma markFailedUpload_ok [inv_intros]:
  "registry_ok nb base pre gone cleared rg \<Longrightarrow> registry_ok nb base pre gone cleared (fst (markFailedUpload rg sid reason))"
  unfolding markFailedUpload_def by (rule update_method_ok) (auto simp: keeps_log_def intro!: quiet_intros(2))

lemma keeps_log_observation [simp]: "keeps_log s (s\<lparr>se_obs := ob\<rparr>)"
  by (simp add: keeps_log_def)

lemma markObservationRejected_ok [inv_intros]:
  "registry_ok nb base pre gone cleared rg \<Longrightarrow> registry_ok nb base pre gone cleared (fst (markObservationRejected rg sid r))"
  unfolding markObservationRejected_def
  by (rule update_method_ok) (auto simp: Let_def intro!: quiet_intros(2))

lemma resume_ok [inv_intros]:
  "registry_ok nb base pre gone cleared rg \<Longrightarrow> registry_ok nb base pre gone cleared (fst (resume_session rg sid og de is_empty cont))"
  unfolding resume_session_def requireMutable_state by (rule update_method_ok) (auto simp: Let_def keeps_log_def intro!: quiet_intros(2))

lemma blank_good:
  "op_journal opts \<Longrightarrow> session_good nb [] (blank_session opts sid base edited og de certainty surface parent gap)"
  by (simp add: session_good_def blank_session_def valid_log_def durationMs_def)

lemma resolve_cases:
  obtains (reuse) s where "s \<in> set existing" "ir_session_id (resolveSession og de existing fresh) = se_id s"
      "ir_certainty (resolveSession og de existing fresh) \<in> {Resumed, Collision}"
  | (create) "ir_session_id (resolveSession og de existing fresh) = fresh"
      "ir_certainty (resolveSession og de existing fresh) \<notin> {Resumed, Collision}"
proof (cases "List.find (\<lambda>s. isExactDescriptorMatch (se_descriptor s) de) (filter (same_location og de) existing)")
  case None
  then show ?thesis using create by (simp add: resolveSession_def Let_def split: if_splits)
next
  case (Some s)
  then have "s \<in> set existing" by (auto dest: find_Some_set)
  with Some show ?thesis using reuse by (simp add: resolveSession_def Let_def split: if_splits)
qed

lemma held_session_found:
  assumes "registry_ok nb base pre gone cleared rg" and "s \<in> set (List.map snd (rg_sessions rg))"
  shows "find_session rg (se_id s) = Some s"
proof -
  from assms(2) obtain k where "(k, s) \<in> set (rg_sessions rg)" by auto
  with assms(1) have "find_session rg k = Some s" by (simp add: registry_ok_def find_session_def)
  with assms(1) show ?thesis by (auto simp: registry_ok_def session_fits_def)
qed

lemma findOrCreate_ok [inv_intros]:
  assumes "registry_ok nb base pre gone cleared rg" and "op_journal opts" and "unused base pre gone cleared rg fresh"
  shows "registry_ok nb base pre gone cleared
    (fst (findOrCreate opts rg og de surface start_fresh unknown started fresh now))"
proof -
  define ss where "ss = (if start_fresh then [] else List.map snd (rg_sessions rg))"
  show ?thesis
  proof (cases rule: resolve_cases [of ss og de fresh])
    case (reuse s)
    then have s: "find_session rg (se_id s) = Some s"
      using held_session_found [OF assms(1)] by (simp add: ss_def split: if_splits)
    with reuse assms(1) show ?thesis
      by (auto simp: findOrCreate_def Let_def ss_def [symmetric] keeps_log_def intro!: mark_dirty_ok put_ok [OF assms(1) s])
  next
    case create
    with assms new_session_ok [OF assms(1,3) blank_good [OF assms(2)]] show ?thesis
      by (auto simp: findOrCreate_def Let_def ss_def [symmetric] blank_session_def)
  qed
qed

section \<open>Checkpoint loops\<close>

lemma put_put [simp]: "put_session sid s' (put_session sid s rg) = put_session sid s' rg"
  by (simp add: put_session_def)

lemma put_mark [simp]: "put_session sid s (mark_dirty k rg) = mark_dirty k (put_session sid s rg)"
  by (simp add: put_session_def mark_dirty_def)

lemma put_tasks [simp]: "put_session sid s (rg\<lparr>rg_tasks := ts\<rparr>) = (put_session sid s rg)\<lparr>rg_tasks := ts\<rparr>"
  by (simp add: put_session_def)

text \<open>
  The checkpoint machinery marks sessions, starts and ends tasks and changes observations, and does
  nothing else: it keeps every property of registries that those changes keep.
\<close>

locale observation_closed =
  fixes P :: "registry \<Rightarrow> bool"
  assumes closed_dirty: "P rg \<Longrightarrow> P (mark_dirty sid rg)"
    and closed_tasks: "P rg \<Longrightarrow> P (rg\<lparr>rg_tasks := ts\<rparr>)"
    and closed_flushing: "P rg \<Longrightarrow> P (rg\<lparr>rg_flushing := fs\<rparr>)"
    and closed_observation: "P rg \<Longrightarrow> find_session rg sid = Some s \<Longrightarrow> P (put_session sid (s\<lparr>se_obs := ob\<rparr>) rg)"
begin

lemma closed_new_observation: "P (put_session sid s rg) \<Longrightarrow> P (put_session sid (s\<lparr>se_obs := ob\<rparr>) rg)"
  using closed_observation [of "put_session sid s rg" sid s ob] by simp

lemma loop_head: "P rg \<Longrightarrow> P (fst (loop_head rg sid fresh))"
  by (auto simp: loop_head_def intro: closed_observation split: option.splits)

lemma kick:
  assumes "P (put_session sid s rg)"
  shows "P (kickCheckpoint rg sid s now fresh)"
proof -
  let ?s = "s\<lparr>se_obs := (se_obs s)\<lparr>so_in_flight := True, so_queued := False, so_last_attempt := Some now\<rparr>\<rparr>"
  from loop_head [OF closed_dirty [OF closed_new_observation [OF assms]]]
  have "P (fst (loop_head (mark_dirty sid (put_session sid ?s rg)) sid fresh))" .
  then show ?thesis
    by (auto simp: kickCheckpoint_def Let_def intro: closed_tasks split: prod.splits option.splits)
qed

lemma maybe_trigger: "P (put_session sid s rg) \<Longrightarrow> P (maybeTriggerCheckpoint opts rg sid s now fresh)"
  by (simp add: maybeTriggerCheckpoint_def closed_new_observation kick)

lemma task_removed: "P rg \<Longrightarrow> P (remove_task i rg)"
  by (simp add: remove_task_def closed_tasks)

lemma task_set: "P rg \<Longrightarrow> P (set_task i sid t rg)"
  by (simp add: set_task_def closed_tasks)

lemma arrived:
  assumes "P rg"
  shows "P (checkpoint_arrived opts rg i r)"
proof (cases "i < length (rg_tasks rg)")
  case True
  obtain sid t where t: "rg_tasks rg ! i = (sid, t)" by fastforce
  have put: "P (mark_dirty sid (put_session sid (s\<lparr>se_obs := ob\<rparr>) rg))" if "find_session rg sid = Some s" for s ob
    using that closed_observation [OF closed_dirty [OF assms]] by simp
  show ?thesis
  proof (cases t)
    case (Posting rq)
    with True t assms put show ?thesis
      by (cases "find_session rg sid")
         (simp_all add: checkpoint_arrived_def Let_def applyCheckpointResult_def task_removed task_set)
  next
    case SavingQueued
    with True t assms show ?thesis by (simp add: checkpoint_arrived_def)
  qed
qed (simp add: checkpoint_arrived_def assms)

lemma saved:
  assumes "P rg"
  shows "P (save_finished rg i ok now fresh)"
proof -
  have obs: "P (put_session sid (s\<lparr>se_obs := ob\<rparr>) rg)" if "find_session rg sid = Some s" for sid s ob
    using that closed_observation [OF assms] by simp
  have head: "P rg'"
    if "find_session rg sid = Some s" "loop_head (put_session sid (s\<lparr>se_obs := ob\<rparr>) rg) sid fresh = (rg', t)" for sid s ob rg' t
    using loop_head [OF obs [OF that(1), of ob], of sid fresh] that(2) by simp
  show ?thesis
    using assms obs head
    by (auto simp: save_finished_def Let_def intro!: task_removed task_set closed_dirty
        split: option.splits checkpoint_task.splits prod.splits)
qed

lemma flushed: "P rg \<Longrightarrow> P (fst (flush_round opts rg sid kicked now fresh))"
  by (auto simp: flush_round_def Let_def intro!: kick closed_observation split: option.splits)

lemma flush_marks: "P rg \<Longrightarrow> P (begin_flush opts rg sid)" "P rg \<Longrightarrow> P (end_flush rg sid)"
  by (simp_all add: begin_flush_def end_flush_def closed_flushing)

end

lemma put_observation_ok [inv_intros]:
  "registry_ok nb base pre gone cleared rg \<Longrightarrow> find_session rg sid = Some s \<Longrightarrow>
     registry_ok nb base pre gone cleared (put_session sid (s\<lparr>se_obs := ob\<rparr>) rg)"
  by (rule put_ok [OF _ _ keeps_log_observation])

interpretation consistent: observation_closed "registry_ok nb base pre gone cleared" for nb base pre gone cleared
  by unfold_locales (simp_all add: mark_dirty_ok tasks_ok flushing_ok put_observation_ok)

lemmas checkpoint_loops_ok [inv_intros] =
  consistent.arrived consistent.saved consistent.flushed consistent.flush_marks

section \<open>Recording an event\<close>

lemma next_tip_matches:
  assumes "noble_ok nb" and "session_good nb es s" and "advanceEventHash nb (se_tip s) e (se_id s) (se_version s) = Inr tip"
  shows "Some tip = tip_after nb (se_id s) (se_version s) (es @ [e]) \<and> isUuid (se_id s)"
  using assms by (auto simp: advanceEventHash_Inr_iff session_good_def next_tip_def)

lemma recompute_obs: "\<exists>ob. recomputeObservationState opts s = s\<lparr>se_obs := ob\<rparr>"
  by (auto simp: recomputeObservationState_def intro: exI [of _ "se_obs s"])

lemma session_good_obs [simp]: "session_good nb es (s\<lparr>se_obs := ob\<rparr>) = session_good nb es s"
  by (simp add: session_good_def)

lemma take_of_prefix: "take (length a) b = a \<Longrightarrow> take (length a) (b @ c) = a"
proof -
  assume a: "take (length a) b = a"
  then have "min (length b) (length a) = length a" by (metis length_take)
  then have "length a \<le> length b" by simp
  with a show ?thesis by simp
qed

lemma record_event_ok:
  assumes "noble_ok nb" and "op_journal opts" and "registry_ok nb base pre gone cleared rg"
    and "find_session rg sid = Some s" and "se_state s = Active" and "sid \<in> set (rg_dirty rg)"
    and "length (pending_events rg sid) < MAX_PENDING_EVENTS"
    and "buildNextMutation p (sessionEventCount s) (sessionLastEventTime s) wall (se_base s) = Inr e"
    and "advanceEventHash nb (se_tip s) e (se_id s) (se_version s) = Inr tip"
  shows "registry_ok nb base pre gone cleared
     (case record_event opts rg sid s e tip now of (rg', s') \<Rightarrow> put_session sid s' rg')"
proof -
  define L where "L = live_log base rg sid"
  from assms(3,4) have fits: "session_fits nb L sid s" unfolding registry_ok_def L_def by blast
  with assms(5) have good: "session_good nb L s" and sid: "se_id s = sid" and "\<not> se_anchor s"
    by (auto simp: session_fits_def split: if_splits)
  have e: "valid_log (L @ [e])" "ev_seq e = int (length L)" "in_int_range (ev_seq e)"
    using assms(8) good next_event_extends [of L p wall "se_base s" e]
    by (auto simp: session_good_counts [OF good] session_good_def buildNextMutation_Inr next_event_def valid_event_def)
  note tip = next_tip_matches [OF assms(1) good assms(9)]
  define ps where "ps = AList.update sid (pending_events rg sid @ [e]) (rg_pending rg)"
  define rg' where "rg' = rg\<lparr>rg_pending := ps\<rparr>"
  define s1 where "s1 = s\<lparr>se_event_count := Some (ev_seq e + 1), se_last_event_t := Some (ev_t e), se_tip := Some tip,
      se_gap := False, se_last_edit := max (se_last_edit s) now\<rparr>"
  obtain ob where s': "recomputeObservationState opts s1 = s1\<lparr>se_obs := ob\<rparr>" using recompute_obs by blast
  have rec: "record_event opts rg sid s e tip now = (rg', s1\<lparr>se_obs := ob\<rparr>)"
    using assms(2) s' by (simp add: record_event_def Let_def rg'_def ps_def s1_def)
  have pend: "pending_events rg' k = (if k = sid then pending_events rg sid @ [e] else pending_events rg k)" for k
    by (simp add: rg'_def pending_events_def ps_def update_conv')
  have good': "session_good nb (L @ [e]) (s1\<lparr>se_obs := ob\<rparr>)"
    using good e tip assms(5) by (simp add: session_good_def s1_def durationMs_def del: tip_after_simps)
  have live: "live_log base rg' k = (if k = sid then L @ [e] else live_log base rg k)" for k
    by (simp add: live_log_def pend L_def)
  have found: "find_session rg' = find_session rg" by (simp add: rg'_def)
  have none: "map_of (rg_pending rg') k = None" if "k \<noteq> sid" "find_session rg k = None" for k
    using that assms(3) by (simp add: rg'_def ps_def update_conv' registry_ok_def)
  have anch: "anchored (put_session sid (s1\<lparr>se_obs := ob\<rparr>) rg') k" if "anchored rg k" for k
    using that \<open>\<not> se_anchor s\<close> assms(4) found by (auto simp: anchored_def s1_def)
  have fields: "rg_dirty rg' = rg_dirty rg" "rg_deleted rg' = rg_deleted rg" "rg_clear rg' = rg_clear rg"
    "rg_sessions rg' = rg_sessions rg" by (simp_all add: rg'_def)
  have "take (length (pre sid)) (pending_events rg sid) = pre sid" using assms(3,4) unfolding registry_ok_def by blast
  then have "take (length (pre sid)) (pending_events rg sid @ [e]) = pre sid" by (rule take_of_prefix)
  with assms(3,4,6,7) good' live found none anch fields pend sid e(3) show ?thesis
    unfolding registry_ok_def rec by (auto simp: session_fits_def s1_def split: if_splits)
qed

text \<open>Appending ends with an error and the session marked, or with the session extended.\<close>

lemma appendMutation_cases:
  obtains (refused) err where "appendMutation nb opts rg sid p captured now trig fresh = (rg, Inl err)"
  | (failed) err where "appendMutation nb opts rg sid p captured now trig fresh = (mark_dirty sid rg, Inl err)"
      "find_session rg sid \<noteq> None"
  | (recorded) s p' wall e tip where "find_session rg sid = Some s" "se_state s = Active"
      "op_journal opts \<longrightarrow> length (pending_events rg sid) < MAX_PENDING_EVENTS"
      "buildNextMutation p' (sessionEventCount s) (sessionLastEventTime s) wall (se_base s) = Inr e"
      "advanceEventHash nb (se_tip s) e (se_id s) (se_version s) = Inr tip"
      "fst (appendMutation nb opts rg sid p captured now trig fresh) =
         (case record_event opts (mark_dirty sid rg) sid s e tip wall of (rg', s') \<Rightarrow>
            maybeTriggerCheckpoint opts rg' sid s' trig fresh)"
      "\<exists>x. snd (appendMutation nb opts rg sid p captured now trig fresh) = Inr x"
proof (cases "validateCaptureWallTime captured")
  case False
  then show ?thesis using refused by (simp add: appendMutation_def)
next
  case True
  define wall where "wall = (case captured of Some t \<Rightarrow> t | None \<Rightarrow> now)"
  show ?thesis
  proof (cases rule: require_cases [of rg sid "[Active]"])
    case unknown
    with True show ?thesis using refused by (simp add: appendMutation_def requireMutable_state and_with_def)
  next
    case (frozen s)
    with True show ?thesis using failed by (simp add: appendMutation_def requireMutable_state and_with_def)
  next
    case (found s)
    let ?p' = "if se_gap s then p\<lparr>pm_pos := None\<rparr> else p"
    note unfold = appendMutation_def requireMutable_state and_with_def Let_def wall_def [symmetric]
    show ?thesis
    proof (cases "op_journal opts \<and> MAX_PENDING_EVENTS \<le> length (pending_events rg sid)")
      case full: True
      with True found show ?thesis using failed by (simp add: unfold)
    next
      case False
      then have space: "(op_journal opts \<and> MAX_PENDING_EVENTS \<le> length (pending_events rg sid)) = False"
        and fits: "op_journal opts \<longrightarrow> length (pending_events rg sid) < MAX_PENDING_EVENTS" by auto
      show ?thesis
      proof (cases "buildNextMutation ?p' (sessionEventCount s) (sessionLastEventTime s) wall (se_base s)")
        case (Inl errs)
        with True found space show ?thesis by (intro failed [of "BadMutation errs"]) (simp_all add: unfold)
      next
        case e: (Inr e)
        show ?thesis
        proof (cases "advanceEventHash nb (se_tip s) e (se_id s) (se_version s)")
          case (Inl err)
          with True found space e show ?thesis by (intro failed [of "ProducerHash err"]) (simp_all add: unfold)
        next
          case (Inr tip)
          from fits found(1,2) e Inr show ?thesis
            by (intro recorded [of s ?p' wall e tip]) (simp_all only: unfold True found(3) space
                prod.case sum.case if_True if_False not_True_eq_False pending_ignores e Inr, auto split: prod.splits)
        qed
      qed
    qed
  qed
qed

lemma appendMutation_ok [inv_intros]:
  assumes "noble_ok nb" and "op_journal opts" and "registry_ok nb base pre gone cleared rg"
  shows "registry_ok nb base pre gone cleared (fst (appendMutation nb opts rg sid p captured now trig fresh))"
proof (cases rule: appendMutation_cases [of nb opts rg sid p captured now trig fresh])
  case (recorded s p' wall e tip)
  have "registry_ok nb base pre gone cleared
     (case record_event opts (mark_dirty sid rg) sid s e tip wall of (rg', s') \<Rightarrow> put_session sid s' rg')"
    using recorded assms(2) by (intro record_event_ok [OF assms(1,2) mark_dirty_ok [OF assms(3)]]) auto
  with recorded(6) show ?thesis by (auto split: prod.splits intro: consistent.maybe_trigger)
qed (simp_all add: assms mark_dirty_ok)

lemma recordUnrecordedChange_ok [inv_intros]:
  assumes "noble_ok nb" and "op_journal opts" and "registry_ok nb base pre gone cleared rg"
  shows "registry_ok nb base pre gone cleared (fst (recordUnrecordedChange nb opts rg sid now trig fresh))"
  using appendMutation_ok [OF assms(1,2)] mark_dirty_ok [OF assms(3)] assms(3)
  by (cases rule: require_cases [of rg sid "[Active]"])
     (auto simp: recordUnrecordedChange_def requireMutable_state and_with_def)

section \<open>Signing keeps the log\<close>

lemma build_draft_manifest:
  assumes "build_draft parses toISO nb opts s binding now = Inr (m, es)"
  shows "\<exists>h created. m = draft_manifest opts s h (signed_binding s binding) (signed_duration opts s now) created
     \<and> signed_hash nb opts s (signed_binding s binding) (signed_duration opts s now) = Inr (Some h)
     \<and> toISO (se_base s) = Some created \<and> self_verifies parses nb opts m es = Inr True
     \<and> es = (if op_journal opts then [] else se_events s)"
  using assms by (auto simp: build_draft_def Let_def guard_Inr_iff split: sum.splits option.splits)

lemma signed_duration_covers:
  assumes "session_good nb es s"
  shows "durationMs es \<le> signed_duration opts s now"
  using assms session_good_counts [OF assms]
  by (auto simp: signed_duration_def session_good_def split: option.splits)

lemma signed_version_chain: "eventChainFormatVersion (signed_version opts s) = eventChainFormatVersion (se_version s)"
  by (simp add: signed_version_def eventChainFormatVersion_def)

lemma sign_session_cases:
  obtains (refused) err where "sign_session parses toISO nb opts rg sid binding now fresh = (rg, Inl err)"
  | (failed) err where "sign_session parses toISO nb opts rg sid binding now fresh = (mark_dirty sid rg, Inl err)"
      "find_session rg sid \<noteq> None"
  | (signed) s m es s' where "find_session rg sid = Some s" "se_state s \<in> {Active, FailedUpload}" "sessionEventCount s \<noteq> 0"
      "build_draft parses toISO nb opts s binding now = Inr (m, es)"
      "s' = s\<lparr>se_state := Signing, se_version := mf_format_version m, se_binding := mf_text_binding m,
                     se_duration := Some (mf_duration_ms m),
                     se_upload_id := (if op_journal opts \<and> se_upload_id s = None then Some fresh else se_upload_id s)\<rparr>"
      "sign_session parses toISO nb opts rg sid binding now fresh =
         (put_session sid s' (mark_dirty sid rg), Inr \<lparr>sd_manifest = m, sd_events = es, sd_upload_id = se_upload_id s'\<rparr>)"
proof (cases rule: require_cases [of rg sid "[Active, FailedUpload]"])
  case unknown
  then show ?thesis using refused by (simp add: sign_session_def and_with_def)
next
  case (frozen s)
  then show ?thesis using failed by (simp add: sign_session_def and_with_def)
next
  case (found s)
  show ?thesis
  proof (cases "sessionEventCount s = 0")
    case True
    with found show ?thesis using failed by (simp add: sign_session_def and_with_def)
  next
    case False
    show ?thesis
    proof (cases "build_draft parses toISO nb opts s binding now")
      case (Inl err)
      with found False show ?thesis using failed by (simp add: sign_session_def and_with_def)
    next
      case (Inr d)
      with found False signed [of s "fst d" "snd d"] show ?thesis
        by (auto simp: sign_session_def and_with_def Let_def split: prod.splits)
    qed
  qed
qed

lemma sign_session_ok [inv_intros]:
  assumes "registry_ok nb base pre gone cleared rg"
  shows "registry_ok nb base pre gone cleared (fst (sign_session parses toISO nb opts rg sid binding now fresh))"
proof (cases rule: sign_session_cases [of parses toISO nb opts rg sid binding now fresh])
  case (signed s m es s')
  from assms signed(1) have fits: "session_fits nb (live_log base rg sid) sid s" unfolding registry_ok_def by blast
  with signed(2) have good: "session_good nb (live_log base rg sid) s" by (auto simp: session_fits_def split: if_splits)
  obtain h created where m: "m = draft_manifest opts s h (signed_binding s binding) (signed_duration opts s now) created"
    using build_draft_manifest [OF signed(4)] by blast
  have "sessionLastEventTime s \<le> mf_duration_ms m"
    using signed_duration_covers [OF good, of opts now] session_good_counts(2) [OF good] by (simp add: m draft_manifest_def)
  then have "keeps_log s s'"
    using signed(2) by (auto simp: signed(5) keeps_log_def m draft_manifest_def signed_version_chain)
  with put_ok [OF assms signed(1)] mark_dirty_ok show ?thesis by (simp add: signed(6))
qed (simp_all add: assms mark_dirty_ok)

section \<open>Continuing, discarding and sweeping\<close>

lemma continueFrom_ok [inv_intros]:
  assumes "registry_ok nb base pre gone cleared rg" and "op_journal opts" and "unused base pre gone cleared rg fresh"
  shows "registry_ok nb base pre gone cleared (fst (continueFrom opts rg sid og de fresh now))"
proof (cases rule: require_cases [of rg sid "[Uploaded]"])
  case (found s)
  define rg1 where "rg1 = mark_dirty sid rg"
  have ok: "registry_ok nb base pre gone cleared rg1" unfolding rg1_def by (rule mark_dirty_ok [OF assms(1)])
  have un: "unused base pre gone cleared rg1 fresh" using assms(3) by (simp add: unused_def rg1_def)
  show ?thesis
  proof (cases "se_response s")
    case None
    with found ok show ?thesis by (simp add: continueFrom_def and_with_def rg1_def)
  next
    case (Some response)
    let ?parent = "ur_record_hash response"
    show ?thesis
    proof (cases "List.find (continues ?parent) (List.map snd (rg_sessions rg1))")
      case None
      with found Some new_session_ok [OF ok un blank_good [OF assms(2)]] show ?thesis
        by (simp add: continueFrom_def and_with_def Let_def rg1_def blank_session_def)
    next
      case held: (Some t)
      then have t: "find_session rg1 (se_id t) = Some t"
        using held_session_found [OF ok] find_Some_set by fast
      have k: "keeps_log t (t\<lparr>se_origin := x, se_descriptor := y, se_last_edit := now\<rparr>)" for x y
        by (simp add: keeps_log_def)
      from held found Some mark_dirty_ok [OF put_ok [OF ok t k]] show ?thesis
        by (simp add: continueFrom_def and_with_def Let_def rg1_def)
    qed
  qed
qed (simp_all add: continueFrom_def and_with_def assms mark_dirty_ok)

lemma find_drop [simp]: "find_session (drop_session sid rg) k = (if k = sid then None else find_session rg k)"
  by (simp add: find_session_def drop_session_def delete_conv')

lemma pending_drop [simp]: "pending_events (drop_session sid rg) k = (if k = sid then [] else pending_events rg k)"
  by (simp add: pending_events_def drop_session_def delete_conv')

lemma drop_fields [simp]:
  "rg_dirty (drop_session sid rg) = set_remove sid (rg_dirty rg)" "rg_deleted (drop_session sid rg) = set_add sid (rg_deleted rg)"
  "rg_clear (drop_session sid rg) = rg_clear rg"
  by (simp_all add: drop_session_def)

lemma drop_session_ok [inv_intros]:
  assumes "registry_ok nb base pre gone cleared rg"
  shows "registry_ok nb base pre gone cleared (drop_session sid rg)"
proof -
  have live: "live_log base (drop_session sid rg) k = live_log base rg k" if "k \<noteq> sid" for k
    using that by (simp add: live_log_def)
  have anch: "anchored (drop_session sid rg) k" if "anchored rg k" "k \<noteq> sid" for k
    using that by (simp add: anchored_def)
  have d: "distinct (List.map fst (rg_sessions (drop_session sid rg)))" if "distinct (List.map fst (rg_sessions rg))"
    using that by (simp add: drop_session_def distinct_delete)
  have none: "map_of (rg_pending (drop_session sid rg)) k = None" if "k = sid \<or> map_of (rg_pending rg) k = None" for k
    using that by (auto simp: drop_session_def delete_conv')
  show ?thesis
    using assms live anch d none unfolding registry_ok_def by auto
qed

lemma discard_ok [inv_intros]:
  "registry_ok nb base pre gone cleared rg \<Longrightarrow> registry_ok nb base pre gone cleared (fst (discard_session rg sid))"
  by (auto simp: discard_session_def intro: drop_session_ok split: option.splits)

lemma anchor_ok:
  assumes "registry_ok nb base pre gone cleared rg" and "find_session rg sid = Some s" and "se_state s = Uploaded"
  shows "registry_ok nb base pre gone cleared
     (mark_dirty sid ((put_session sid (upload_anchor opts s) rg)\<lparr>rg_clear := set_add sid (rg_clear rg)\<rparr>))"
proof -
  let ?s = "upload_anchor opts s"
  from assms have "se_id s = sid" by (auto simp: registry_ok_def session_fits_def)
  then have fits: "session_fits nb es sid ?s" for es using assms(3) by (simp add: session_fits_def upload_anchor_def)
  have anch: "anchored (put_session sid ?s rg) k" if "anchored rg k \<or> k = sid" for k
    using that by (auto simp: anchored_def upload_anchor_def)
  have "rg_dirty (rg\<lparr>rg_clear := c\<rparr>) = rg_dirty rg" "rg_pending (rg\<lparr>rg_clear := c\<rparr>) = rg_pending rg"
    "rg_deleted (rg\<lparr>rg_clear := c\<rparr>) = rg_deleted rg" "rg_sessions (rg\<lparr>rg_clear := c\<rparr>) = rg_sessions rg" for c rg
    by simp_all
  with assms(1,2) fits anch show ?thesis unfolding registry_ok_def by (auto split: if_splits)
qed

lemma sweep_fold_ok:
  assumes "registry_ok nb base pre gone cleared rg" and "\<forall>s \<in> set ss. find_session rg (se_id s) = Some s"
    and "distinct (List.map se_id ss)"
  shows "registry_ok nb base pre gone cleared (fst (foldl (sweep_one opts now ttl retain) (rg, logs) ss))"
  using assms
proof (induction ss arbitrary: rg logs)
  case (Cons s ss)
  obtain rg1 logs1 where step: "sweep_one opts now ttl retain (rg, logs) s = (rg1, logs1)" by fastforce
  have ok: "registry_ok nb base pre gone cleared rg1"
    using step Cons.prems anchor_ok [OF Cons.prems(1), of "se_id s" s] drop_session_ok [OF Cons.prems(1)]
    by (auto simp: sweep_one_def split: if_splits)
  have "find_session rg1 k = find_session rg k" if "k \<noteq> se_id s" for k
    using step that by (auto simp: sweep_one_def split: if_splits)
  with Cons.prems have "\<forall>s' \<in> set ss. find_session rg1 (se_id s') = Some s'" by (auto simp: image_iff)
  with Cons.IH [OF ok] Cons.prems(3) step show ?case by simp
qed simp

lemma held_sessions_distinct:
  assumes "registry_ok nb base pre gone cleared rg"
  shows "distinct (List.map se_id (List.map snd (rg_sessions rg)))"
proof -
  have "se_id (snd x) = fst x" if "x \<in> set (rg_sessions rg)" for x
  proof -
    from that assms have "find_session rg (fst x) = Some (snd x)" by (simp add: registry_ok_def find_session_def)
    with assms show ?thesis by (auto simp: registry_ok_def session_fits_def)
  qed
  then have "List.map se_id (List.map snd (rg_sessions rg)) = List.map fst (rg_sessions rg)" by simp
  with assms show ?thesis by (simp only: registry_ok_def)
qed

lemma sweep_ok [inv_intros]:
  assumes "registry_ok nb base pre gone cleared rg"
  shows "registry_ok nb base pre gone cleared (fst (sweep_sessions opts rg now ttl grace retain))"
proof -
  have "find_session rg (se_id s) = Some s" if "s \<in> set (filter P (List.map snd (rg_sessions rg)))" for s P
    using that held_session_found [OF assms] by simp
  moreover have "distinct (List.map se_id (filter P (List.map snd (rg_sessions rg))))" for P
    using held_sessions_distinct [OF assms] by (rule distinct_map_filter)
  ultimately show ?thesis
    unfolding sweep_sessions_def Let_def sweepExpired_filter snd_conv
    by (intro sweep_fold_ok [OF assms]) blast+
qed

end
