(* ===== verification/Session_Journal.thy ===== *)
theory Session_Journal
  imports Registry_Invariant "HOL-Library.List_Lexorder"
begin

text \<open>
  The journal of a producer (\<open>packages/browser-storage/src/index.ts\<close>): session metadata and one row
  per event in an IndexedDB database. A commit is one transaction: it applies whole or not at all.
\<close>

section \<open>The database\<close>

text \<open>
  The object stores \<open>sessions\<close>, keyed by the session, and \<open>events\<close>, keyed by session and sequence
  number, and the completion mark of the store \<open>control\<close>.
\<close>

record journal_db =
  jd_sessions :: "(jsstring \<times> session) list"
  jd_events :: "((jsstring \<times> int) \<times> mutation) list"
  jd_migrated :: bool

definition empty_db :: journal_db where
  "empty_db = \<lparr>jd_sessions = [], jd_events = [], jd_migrated = False\<rparr>"

datatype journal_error =
    BatchTooLarge
  | DuplicateEvent
  | HistoryInMetadata
  | BadJournalPage
  | LegacyInvalid
  | LegacyDuplicate
  | LegacyEvents "verror list"
  | LegacyTip
  | LegacyHash format_error
  | MigrationIncomplete
  | MigrationUnverified

text \<open>All events of a session whose sequence numbers are in the range that \<open>eventRange\<close> covers.\<close>

definition in_event_range :: "jsstring \<Rightarrow> int \<Rightarrow> int \<Rightarrow> jsstring \<times> int \<Rightarrow> bool" where
  "in_event_range sid start stop key \<longleftrightarrow> fst key = sid \<and> start \<le> snd key \<and> snd key \<le> stop"

definition delete_events :: "jsstring \<Rightarrow> journal_db \<Rightarrow> journal_db" where
  "delete_events sid db = db\<lparr>jd_events := filter (\<lambda>row. \<not> in_event_range sid 0 MAX_TIME_FIELD_VALUE (fst row)) (jd_events db)\<rparr>"

definition delete_metadata :: "jsstring \<Rightarrow> journal_db \<Rightarrow> journal_db" where
  "delete_metadata sid db = db\<lparr>jd_sessions := AList.delete sid (jd_sessions db)\<rparr>"

text \<open>Adding a row whose key exists is an error that aborts the transaction.\<close>

definition add_event :: "jsstring \<Rightarrow> journal_db \<Rightarrow> mutation \<Rightarrow> journal_error + journal_db" where
  "add_event sid db e =
     guard ((sid, ev_seq e) \<in> fst ` set (jd_events db)) DuplicateEvent
       (Inr (db\<lparr>jd_events := jd_events db @ [((sid, ev_seq e), e)]\<rparr>))"

definition add_append :: "journal_db \<Rightarrow> jsstring \<times> event_log \<Rightarrow> journal_error + journal_db" where
  "add_append db chunk =
     guard (length (snd chunk) > MAX_PENDING_EVENTS) BatchTooLarge (run_steps (add_event (fst chunk)) db (snd chunk))"

definition put_metadata :: "journal_db \<Rightarrow> session \<Rightarrow> journal_error + journal_db" where
  "put_metadata db s =
     guard (\<not> se_journaled s \<or> se_events s \<noteq> []) HistoryInMetadata
       (Inr (db\<lparr>jd_sessions := AList.update (se_id s) s (jd_sessions db)\<rparr>))"

definition commit_batch :: "journal_db \<Rightarrow> journal_batch \<Rightarrow> journal_error + journal_db" where
  "commit_batch db b =
     (let db1 = foldl (\<lambda>db sid. delete_events sid db) db (remdups (jb_deleted b @ jb_clear b));
          db2 = foldl (\<lambda>db sid. delete_metadata sid db) db1 (jb_deleted b) in
      andThen (run_steps add_append db2 (jb_appends b)) (\<lambda>db3. run_steps put_metadata db3 (jb_sessions b)))"

text \<open>\<open>getAll\<close> answers in the order of the keys.\<close>

definition read_page :: "journal_db \<Rightarrow> jsstring \<Rightarrow> int \<Rightarrow> int \<Rightarrow> journal_error + event_log" where
  "read_page db sid start limit =
     guard (bad_page start limit) BadJournalPage
       (Inr (List.map snd (take (nat limit) (sort_key (\<lambda>row. snd (fst row))
          (filter (\<lambda>row. in_event_range sid start (start + limit - 1) (fst row)) (jd_events db))))))"

definition read_sessions :: "journal_db \<Rightarrow> session list" where
  "read_sessions db = List.map snd (sort_key fst (jd_sessions db))"

section \<open>The log a journal holds\<close>

definition stored_rows :: "journal_db \<Rightarrow> jsstring \<Rightarrow> event_log" where
  "stored_rows db sid = List.map snd (filter (\<lambda>row. fst (fst row) = sid) (jd_events db))"

text \<open>Rows of a session are numbered like its events.\<close>

definition numbered :: "event_log \<Rightarrow> bool" where
  "numbered es \<longleftrightarrow> List.map ev_seq es = List.map int [0..<length es]"

definition rows_ok :: "journal_db \<Rightarrow> bool" where
  "rows_ok db \<longleftrightarrow> (\<forall>row \<in> set (jd_events db). snd (fst row) = ev_seq (snd row) \<and> in_int_range (ev_seq (snd row)))"

lemma valid_log_numbered: "valid_log es \<Longrightarrow> numbered es"
  by (auto simp: numbered_def intro!: nth_equalityI dest: valid_log_nth)

lemma stored_rows_delete [simp]:
  assumes "rows_ok db"
  shows "stored_rows (delete_events sid db) k = (if k = sid then [] else stored_rows db k)" "rows_ok (delete_events sid db)"
proof -
  have range: "in_event_range sid 0 MAX_TIME_FIELD_VALUE (fst row) \<longleftrightarrow> fst (fst row) = sid" if "row \<in> set (jd_events db)" for row
    using assms that
    by (auto simp: in_event_range_def rows_ok_def in_int_range_def MAX_TIME_FIELD_VALUE_def MAX_INTEGER_FIELD_VALUE_def)
  have "filter (\<lambda>row. \<not> in_event_range sid 0 MAX_TIME_FIELD_VALUE (fst row) \<and> fst (fst row) = k) (jd_events db)
     = filter (\<lambda>row. fst (fst row) = k \<and> k \<noteq> sid) (jd_events db)"
    using range by (intro filter_cong refl) auto
  then show "stored_rows (delete_events sid db) k = (if k = sid then [] else stored_rows db k)"
    by (simp add: stored_rows_def delete_events_def)
  show "rows_ok (delete_events sid db)" using assms by (auto simp: rows_ok_def delete_events_def)
qed

lemma delete_events_metadata [simp]: "jd_sessions (delete_events sid db) = jd_sessions db"
  by (simp add: delete_events_def)

lemma delete_metadata_rows [simp]:
  "stored_rows (delete_metadata sid db) = stored_rows db" "rows_ok (delete_metadata sid db) = rows_ok db"
  by (simp_all add: delete_metadata_def stored_rows_def rows_ok_def fun_eq_iff)

lemma add_event_Inr:
  assumes "add_event sid db e = Inr db'"
  shows "stored_rows db' k = (if k = sid then stored_rows db sid @ [e] else stored_rows db k)"
    and "jd_sessions db' = jd_sessions db"
    and "rows_ok db \<Longrightarrow> in_int_range (ev_seq e) \<Longrightarrow> rows_ok db'"
  using assms by (auto simp: add_event_def stored_rows_def rows_ok_def)

lemma add_events_Inr:
  assumes "run_steps (add_event sid) db es = Inr db'"
  shows "stored_rows db' k = (if k = sid then stored_rows db sid @ es else stored_rows db k)"
    and "jd_sessions db' = jd_sessions db"
    and "rows_ok db \<Longrightarrow> \<forall>e \<in> set es. in_int_range (ev_seq e) \<Longrightarrow> rows_ok db'"
  using assms
proof (induction es arbitrary: db)
  case (Cons e es)
  {
    case 1
    then obtain db1 where "add_event sid db e = Inr db1" "run_steps (add_event sid) db1 es = Inr db'"
      by (auto split: sum.splits)
    with Cons.IH(1) [of db1] add_event_Inr(1) [of sid db e db1] show ?case by simp
  next
    case 2
    then obtain db1 where "add_event sid db e = Inr db1" "run_steps (add_event sid) db1 es = Inr db'"
      by (auto split: sum.splits)
    with Cons.IH(2) [of db1] add_event_Inr(2) [of sid db e db1] show ?case by simp
  next
    case 3
    then obtain db1 where "add_event sid db e = Inr db1" "run_steps (add_event sid) db1 es = Inr db'"
      by (auto split: sum.splits)
    with Cons.IH(3) [of db1] 3 add_event_Inr(3) [of sid db e db1] show ?case by simp
  }
qed simp_all

text \<open>Rows that continue the numbering of what is stored are never refused.\<close>

lemma numbered_append_event:
  assumes "rows_ok db" and "numbered (stored_rows db sid @ e # es)"
  shows "(sid, ev_seq e) \<notin> fst ` set (jd_events db)"
proof
  assume "(sid, ev_seq e) \<in> fst ` set (jd_events db)"
  then obtain f where f: "((sid, ev_seq e), f) \<in> set (jd_events db)" by auto
  then have "f \<in> set (stored_rows db sid)" by (force simp: stored_rows_def)
  then obtain i where i: "i < length (stored_rows db sid)" "stored_rows db sid ! i = f" by (auto simp: in_set_conv_nth)
  have n: "List.map ev_seq (stored_rows db sid @ e # es) ! j = int j"
    if "j < length (stored_rows db sid @ e # es)" for j
    using arg_cong [OF assms(2) [unfolded numbered_def], of "\<lambda>xs. xs ! j"] that
    by (simp only: nth_map nth_upt length_upt diff_zero add_0)
  from n [of i] i have "ev_seq f = int i" by (simp add: nth_append)
  moreover from n [of "length (stored_rows db sid)"] have "ev_seq e = int (length (stored_rows db sid))"
    by (simp add: nth_append)
  moreover from f assms(1) have "ev_seq f = ev_seq e" by (force simp: rows_ok_def)
  ultimately show False using i(1) by simp
qed

lemma add_events_accepted:
  assumes "rows_ok db" and "numbered (stored_rows db sid @ es)" and "\<forall>e \<in> set es. in_int_range (ev_seq e)"
  shows "\<exists>db'. run_steps (add_event sid) db es = Inr db'"
  using assms
proof (induction es arbitrary: db)
  case (Cons e es)
  from numbered_append_event [OF Cons.prems(1,2)] obtain db1 where s: "add_event sid db e = Inr db1"
    by (simp add: add_event_def guard_def)
  from add_event_Inr [OF s] Cons.prems Cons.IH [of db1] s show ?case by simp
qed simp

section \<open>Pages\<close>

lemma filter_numbered:
  assumes "List.map f xs = List.map int [m..<m + length xs]"
  shows "filter (\<lambda>x. int a \<le> f x \<and> f x < int (a + l)) xs = drop (a - m) (take (a + l - m) xs)"
  using assms
proof (induction xs arbitrary: m)
  case (Cons x xs)
  from Cons.prems have x: "f x = int m" and tail: "List.map f xs = List.map int [Suc m..<Suc m + length xs]"
    by (simp_all add: upt_conv_Cons del: upt_Suc)
  note IH = Cons.IH [OF tail]
  show ?case
  proof (cases "m < a")
    case True
    then have "a - m = Suc (a - Suc m)" "a + l - m = Suc (a + l - Suc m)" by auto
    with True IH x show ?thesis by simp
  next
    case False
    show ?thesis
    proof (cases "m < a + l")
      case True
      then have "a + l - m = Suc (a + l - Suc m)" by auto
      with True False IH x show ?thesis by simp
    next
      case past: False
      with False IH x show ?thesis by simp
    qed
  qed
qed simp

lemma read_page_exact:
  assumes "rows_ok db" and "numbered (stored_rows db sid)" and "\<not> bad_page start limit"
  shows "read_page db sid start limit = Inr (take (nat limit) (drop (nat start) (stored_rows db sid)))"
proof -
  define rows where "rows = filter (\<lambda>row. fst (fst row) = sid) (jd_events db)"
  from assms(3) have b: "0 \<le> start" "1 \<le> limit" by (simp_all add: bad_page_def in_ms_range_def not_less)
  have key: "snd (fst row) = ev_seq (snd row)" if "row \<in> set rows" for row
    using that assms(1) by (simp add: rows_def rows_ok_def)
  then have "List.map (\<lambda>row. snd (fst row)) rows = List.map ev_seq (stored_rows db sid)"
    by (simp add: stored_rows_def rows_def [symmetric])
  with assms(2) have keys: "List.map (\<lambda>row. snd (fst row)) rows = List.map int [0..<0 + length rows]"
    by (simp add: numbered_def stored_rows_def rows_def [symmetric])
  define page where "page = drop (nat start) (take (nat start + nat limit) rows)"
  have "filter (\<lambda>row. in_event_range sid start (start + limit - 1) (fst row)) (jd_events db)
      = filter (\<lambda>row. int (nat start) \<le> snd (fst row) \<and> snd (fst row) < int (nat start + nat limit)) rows"
    unfolding rows_def filter_filter using b by (intro filter_cong refl) (auto simp: in_event_range_def)
  also have "\<dots> = page" unfolding page_def using filter_numbered [OF keys, of "nat start" "nat limit"] by simp
  finally have f: "filter (\<lambda>row. in_event_range sid start (start + limit - 1) (fst row)) (jd_events db) = page" .
  have "sorted (List.map (\<lambda>row. snd (fst row)) rows)" unfolding keys by (simp add: sorted_iff_nth_mono)
  then have "sorted (List.map (\<lambda>row. snd (fst row)) page)"
    by (simp add: page_def drop_map [symmetric] take_map [symmetric] sorted_wrt_drop sorted_wrt_take)
  then have "sort_key (\<lambda>row. snd (fst row)) page = page" by (rule sort_key_id_if_sorted)
  moreover have "length page \<le> nat limit" by (simp add: page_def)
  ultimately have "read_page db sid start limit = Inr (List.map snd page)"
    using assms(3) f by (simp add: read_page_def guard_def)
  then show ?thesis by (simp add: page_def stored_rows_def rows_def [symmetric] drop_map take_map drop_take)
qed

section \<open>What a commit does\<close>

definition appended :: "journal_batch \<Rightarrow> jsstring \<Rightarrow> event_log" where
  "appended b sid = (case map_of (jb_appends b) sid of Some es \<Rightarrow> es | None \<Rightarrow> [])"

definition batch_session :: "journal_batch \<Rightarrow> jsstring \<Rightarrow> session option" where
  "batch_session b sid = map_of (List.map (\<lambda>s. (se_id s, s)) (jb_sessions b)) sid"

definition batch_ok :: "journal_batch \<Rightarrow> bool" where
  "batch_ok b \<longleftrightarrow> distinct (List.map fst (jb_appends b)) \<and> distinct (List.map se_id (jb_sessions b))
     \<and> (\<forall>chunk \<in> set (jb_appends b). \<forall>e \<in> set (snd chunk). in_int_range (ev_seq e))"

lemma delete_all_events:
  "rows_ok db \<Longrightarrow> rows_ok (foldl (\<lambda>db sid. delete_events sid db) db sids)
     \<and> jd_sessions (foldl (\<lambda>db sid. delete_events sid db) db sids) = jd_sessions db
     \<and> stored_rows (foldl (\<lambda>db sid. delete_events sid db) db sids) k = (if k \<in> set sids then [] else stored_rows db k)"
  by (induction sids arbitrary: db) auto

lemma delete_all_metadata:
  "rows_ok (foldl (\<lambda>db sid. delete_metadata sid db) db sids) = rows_ok db
     \<and> stored_rows (foldl (\<lambda>db sid. delete_metadata sid db) db sids) k = stored_rows db k
     \<and> map_of (jd_sessions (foldl (\<lambda>db sid. delete_metadata sid db) db sids)) k =
         (if k \<in> set sids then None else map_of (jd_sessions db) k)"
proof (induction sids arbitrary: db)
  case (Cons sid sids)
  from Cons.IH [of "delete_metadata sid db"] show ?case
    by (simp add: delete_metadata_def [of sid db] delete_conv') (simp add: rows_ok_def stored_rows_def)
qed simp

lemma add_append_Inr:
  "add_append db chunk = Inr db' \<Longrightarrow> run_steps (add_event (fst chunk)) db (snd chunk) = Inr db'"
  by (simp add: add_append_def)

lemma put_metadata_Inr:
  "put_metadata db s = Inr db' \<Longrightarrow> db' = db\<lparr>jd_sessions := AList.update (se_id s) s (jd_sessions db)\<rparr>"
  by (simp add: put_metadata_def)

lemma add_appends_Inr:
  assumes "run_steps add_append db chunks = Inr db'" and "distinct (List.map fst chunks)" and "rows_ok db"
    and "\<forall>chunk \<in> set chunks. \<forall>e \<in> set (snd chunk). in_int_range (ev_seq e)"
  shows "rows_ok db' \<and> jd_sessions db' = jd_sessions db
     \<and> stored_rows db' k = stored_rows db k @ (case map_of chunks k of Some es \<Rightarrow> es | None \<Rightarrow> [])"
  using assms
proof (induction chunks arbitrary: db)
  case (Cons chunk chunks)
  then obtain db1 where s: "run_steps (add_event (fst chunk)) db (snd chunk) = Inr db1" "run_steps add_append db1 chunks = Inr db'"
    using add_append_Inr by (auto split: sum.splits)
  have none: "map_of chunks (fst chunk) = None" using Cons.prems(2) by (simp add: map_of_eq_None_iff)
  note e = add_events_Inr [OF s(1)]
  from e(3) Cons.prems have "rows_ok db1" by simp
  with Cons.IH [OF s(2)] Cons.prems e(1,2) none show ?case by (cases chunk) auto
qed simp

lemma put_all_Inr:
  assumes "run_steps put_metadata db ss = Inr db'" and "distinct (List.map se_id ss)"
  shows "jd_events db' = jd_events db
     \<and> map_of (jd_sessions db') k =
        (case map_of (List.map (\<lambda>s. (se_id s, s)) ss) k of Some s \<Rightarrow> Some s | None \<Rightarrow> map_of (jd_sessions db) k)"
  using assms
proof (induction ss arbitrary: db)
  case (Cons s ss)
  from Cons.prems obtain db1 where s: "db1 = db\<lparr>jd_sessions := AList.update (se_id s) s (jd_sessions db)\<rparr>"
    "run_steps put_metadata db1 ss = Inr db'" using put_metadata_Inr by (auto split: sum.splits)
  have none: "map_of (List.map (\<lambda>s. (se_id s, s)) ss) (se_id s) = None"
    using Cons.prems(2) by (auto simp: map_of_eq_None_iff image_iff)
  from Cons.IH [OF s(2)] Cons.prems(2) none show ?case
    by (simp add: s(1) update_conv' split: option.splits)
qed simp

lemma commit_Inr:
  assumes "commit_batch db b = Inr db'" and "rows_ok db" and "batch_ok b"
  shows "rows_ok db'"
    and "stored_rows db' sid = (if sid \<in> set (jb_deleted b) \<union> set (jb_clear b) then [] else stored_rows db sid) @ appended b sid"
    and "map_of (jd_sessions db') sid = (case batch_session b sid of Some s \<Rightarrow> Some s
       | None \<Rightarrow> if sid \<in> set (jb_deleted b) then None else map_of (jd_sessions db) sid)"
proof -
  define db1 where "db1 = foldl (\<lambda>db sid. delete_events sid db) db (remdups (jb_deleted b @ jb_clear b))"
  define db2 where "db2 = foldl (\<lambda>db sid. delete_metadata sid db) db1 (jb_deleted b)"
  from assms(1) obtain db3 where db3: "run_steps add_append db2 (jb_appends b) = Inr db3"
    and put: "run_steps put_metadata db3 (jb_sessions b) = Inr db'"
    by (auto simp: commit_batch_def Let_def db1_def [symmetric] db2_def [symmetric] andThen_Inr_iff)
  have e: "rows_ok db1" "jd_sessions db1 = jd_sessions db"
    "stored_rows db1 k = (if k \<in> set (jb_deleted b) \<union> set (jb_clear b) then [] else stored_rows db k)" for k
    using delete_all_events [OF assms(2), of "remdups (jb_deleted b @ jb_clear b)"] by (auto simp: db1_def)
  have m: "rows_ok db2" "stored_rows db2 k = stored_rows db1 k"
    "map_of (jd_sessions db2) k = (if k \<in> set (jb_deleted b) then None else map_of (jd_sessions db1) k)" for k
    using delete_all_metadata [of db1 "jb_deleted b"] e(1) by (auto simp: db2_def)
  from add_appends_Inr [OF db3 _ m(1)] assms(3) have a: "rows_ok db3" "jd_sessions db3 = jd_sessions db2"
    "stored_rows db3 k = stored_rows db2 k @ appended b k" for k
    by (auto simp: batch_ok_def appended_def)
  from put_all_Inr [OF put] assms(3) have p: "jd_events db' = jd_events db3"
    "map_of (jd_sessions db') k = (case batch_session b k of Some s \<Rightarrow> Some s | None \<Rightarrow> map_of (jd_sessions db3) k)" for k
    by (auto simp: batch_ok_def batch_session_def)
  from p(1) a(1) show "rows_ok db'" by (simp add: rows_ok_def)
  from p(1) a(3) m(2) e(3) show "stored_rows db' sid =
      (if sid \<in> set (jb_deleted b) \<union> set (jb_clear b) then [] else stored_rows db sid) @ appended b sid"
    by (simp add: stored_rows_def)
  from p(2) a(2) m(3) e(2) show "map_of (jd_sessions db') sid = (case batch_session b sid of Some s \<Rightarrow> Some s
       | None \<Rightarrow> if sid \<in> set (jb_deleted b) then None else map_of (jd_sessions db) sid)"
    by (auto split: option.splits)
qed

end
