(* ===== verification/Recording_Device.thy ===== *)
theory Recording_Device
  imports Session_Journal
begin

text \<open>
  A producer at work: its registry, its journal and the batch that is being saved. Calls of the
  registry, checkpoint responses, the stages of a save and restarts of the process interleave freely.
\<close>

section \<open>Calls\<close>

datatype registry_call =
    CallFindOrCreate field_origin field_descriptor jsstring bool bool "int option" jsstring int
  | CallResume jsstring field_origin field_descriptor bool "(int \<times> jsstring option) option"
  | CallAppend jsstring pending_mutation "int option" int int jsstring
  | CallUnrecorded jsstring int int jsstring
  | CallSign jsstring "text_binding option" int jsstring
  | CallUploading jsstring
  | CallUploaded jsstring upload_response int
  | CallFailed jsstring jsstring
  | CallRejected jsstring rejection
  | CallContinue jsstring "field_origin option" "field_descriptor option" jsstring int
  | CallDiscard jsstring
  | CallSweep int "int option" "int option" bool
  | CallArrived nat checkpoint_outcome
  | CallSaveFinished nat bool int jsstring
  | CallBeginFlush jsstring
  | CallFlushRound jsstring bool int jsstring
  | CallEndFlush jsstring

text \<open>What the producer runs on: the hash library, date functions and options.\<close>

record device_env =
  de_noble :: noble
  de_parses :: "jsstring \<Rightarrow> bool"
  de_iso :: "int \<Rightarrow> jsstring option"
  de_options :: registry_options

fun call_registry :: "device_env \<Rightarrow> registry_call \<Rightarrow> registry \<Rightarrow> registry" where
  "call_registry env (CallFindOrCreate og de surface start_fresh content_unknown started fresh now) rg =
     fst (findOrCreate (de_options env) rg og de surface start_fresh content_unknown started fresh now)"
| "call_registry env (CallResume sid og de is_empty continuity) rg = fst (resume_session rg sid og de is_empty continuity)"
| "call_registry env (CallAppend sid p captured now trig fresh) rg =
     fst (appendMutation (de_noble env) (de_options env) rg sid p captured now trig fresh)"
| "call_registry env (CallUnrecorded sid now trig fresh) rg =
     fst (recordUnrecordedChange (de_noble env) (de_options env) rg sid now trig fresh)"
| "call_registry env (CallSign sid binding now fresh) rg =
     fst (sign_session (de_parses env) (de_iso env) (de_noble env) (de_options env) rg sid binding now fresh)"
| "call_registry env (CallUploading sid) rg = fst (markUploading rg sid)"
| "call_registry env (CallUploaded sid response now) rg = fst (markUploaded rg sid response now)"
| "call_registry env (CallFailed sid reason) rg = fst (markFailedUpload rg sid reason)"
| "call_registry env (CallRejected sid r) rg = fst (markObservationRejected rg sid r)"
| "call_registry env (CallContinue sid og de fresh now) rg = fst (continueFrom (de_options env) rg sid og de fresh now)"
| "call_registry env (CallDiscard sid) rg = fst (discard_session rg sid)"
| "call_registry env (CallSweep now ttl grace retain) rg = fst (sweep_sessions (de_options env) rg now ttl grace retain)"
| "call_registry env (CallArrived i r) rg = checkpoint_arrived (de_options env) rg i r"
| "call_registry env (CallSaveFinished i saved now fresh) rg = save_finished rg i saved now fresh"
| "call_registry env (CallBeginFlush sid) rg = begin_flush (de_options env) rg sid"
| "call_registry env (CallFlushRound sid kicked now fresh) rg = fst (flush_round (de_options env) rg sid kicked now fresh)"
| "call_registry env (CallEndFlush sid) rg = end_flush rg sid"

text \<open>The identifiers a call may give to a new session.\<close>

fun new_ids :: "registry_call \<Rightarrow> jsstring set" where
  "new_ids (CallFindOrCreate og de surface start_fresh content_unknown started fresh now) = {fresh}"
| "new_ids (CallContinue sid og de fresh now) = {fresh}"
| "new_ids _ = {}"

lemma call_registry_ok:
  assumes "noble_ok (de_noble env)" and "op_journal (de_options env)"
    and "registry_ok (de_noble env) base pre gone cleared rg" and "\<forall>k \<in> new_ids c. unused base pre gone cleared rg k"
  shows "registry_ok (de_noble env) base pre gone cleared (call_registry env c rg)"
  using assms by (cases c) (simp_all add: inv_intros)

section \<open>Steps\<close>

text \<open>
  \<open>dv_flight\<close> is the batch being saved and whether its transaction has completed; \<open>dv_used\<close> are the
  identifiers that the generator has given to sessions, which it does not give again.
\<close>

record device =
  dv_registry :: registry
  dv_db :: journal_db
  dv_flight :: "(journal_flight \<times> bool) option"
  dv_used :: "jsstring set"

definition start_device :: device where
  "start_device = \<lparr>dv_registry = new_registry, dv_db = empty_db, dv_flight = None, dv_used = {}\<rparr>"

definition never_used :: "device \<Rightarrow> jsstring \<Rightarrow> bool" where
  "never_used dv sid \<longleftrightarrow> sid \<notin> dv_used dv
     \<and> stored_rows (dv_db dv) sid = [] \<and> map_of (jd_sessions (dv_db dv)) sid = None
     \<and> find_session (dv_registry dv) sid = None \<and> sid \<notin> set (rg_deleted (dv_registry dv))
     \<and> (\<forall>fl committed. dv_flight dv = Some (fl, committed) \<longrightarrow>
          sid \<notin> set (jb_deleted (jf_batch fl)) \<union> set (jb_clear (jf_batch fl)) \<and> appended (jf_batch fl) sid = [])"

text \<open>The steps of one process, and those of a device whose process may be stopped and started again.\<close>

inductive process_step :: "device_env \<Rightarrow> device \<Rightarrow> device \<Rightarrow> bool" for env where
  step_call: "\<forall>k \<in> new_ids c. never_used dv k \<Longrightarrow> process_step env dv
     (dv\<lparr>dv_registry := call_registry env c (dv_registry dv), dv_used := dv_used dv \<union> new_ids c\<rparr>)"
| step_take: "dv_flight dv = None \<Longrightarrow> take_batch (dv_registry dv) = (rg, Some fl) \<Longrightarrow>
     process_step env dv (dv\<lparr>dv_registry := rg, dv_flight := Some (fl, False)\<rparr>)"
| step_commit: "dv_flight dv = Some (fl, False) \<Longrightarrow> commit_batch (dv_db dv) (jf_batch fl) = Inr db \<Longrightarrow>
     process_step env dv (dv\<lparr>dv_db := db, dv_flight := Some (fl, True)\<rparr>)"
| step_settle: "dv_flight dv = Some (fl, True) \<Longrightarrow>
     process_step env dv (dv\<lparr>dv_registry := batch_saved (dv_registry dv) fl, dv_flight := None\<rparr>)"
| step_fail: "dv_flight dv = Some (fl, False) \<Longrightarrow>
     process_step env dv (dv\<lparr>dv_registry := batch_failed (dv_registry dv) fl, dv_flight := None\<rparr>)"

inductive device_step :: "device_env \<Rightarrow> device \<Rightarrow> device \<Rightarrow> bool" for env where
  step_process: "process_step env dv dv' \<Longrightarrow> device_step env dv dv'"
| step_restart: "device_step env dv
     (dv\<lparr>dv_registry := load_sessions new_registry (read_sessions (dv_db dv)), dv_flight := None\<rparr>)"

inductive_cases process_step_elim: "process_step env dv dv'"
inductive_cases device_step_elim: "device_step env dv dv'"

inductive reachable_device :: "device_env \<Rightarrow> device \<Rightarrow> bool" for env where
  reachable_start: "reachable_device env start_device"
| reachable_step: "reachable_device env dv \<Longrightarrow> device_step env dv dv' \<Longrightarrow> reachable_device env dv'"

section \<open>The invariant of a device\<close>

definition metadata_ok :: "noble \<Rightarrow> journal_db \<Rightarrow> bool" where
  "metadata_ok nb db \<longleftrightarrow> distinct (List.map fst (jd_sessions db)) \<and>
     (\<forall>sid s. map_of (jd_sessions db) sid = Some s \<longrightarrow> session_fits nb (stored_rows db sid) sid s)"

definition flight_ok :: "noble \<Rightarrow> (jsstring \<Rightarrow> event_log) \<Rightarrow> journal_flight \<Rightarrow> bool" where
  "flight_ok nb base fl \<longleftrightarrow> (let b = jf_batch fl in batch_ok b
     \<and> (\<forall>sid s. batch_session b sid = Some s \<longrightarrow> session_fits nb (base sid @ appended b sid) sid s
          \<and> sid \<notin> set (jb_deleted b) \<and> sid \<in> set (jf_ids fl))
     \<and> (\<forall>sid. appended b sid \<noteq> [] \<longrightarrow> batch_session b sid \<noteq> None)
     \<and> (\<forall>sid \<in> set (jb_clear b). sid \<in> set (jb_deleted b) \<or> (\<exists>s. batch_session b sid = Some s \<and> se_anchor s)))"

definition device_ok :: "noble \<Rightarrow> device \<Rightarrow> bool" where
  "device_ok nb dv \<longleftrightarrow> rows_ok (dv_db dv) \<and> metadata_ok nb (dv_db dv) \<and>
     (case dv_flight dv of
        None \<Rightarrow> registry_ok nb (stored_rows (dv_db dv)) (\<lambda>_. []) {} {} (dv_registry dv)
      | Some (fl, False) \<Rightarrow>
          registry_ok nb (stored_rows (dv_db dv)) (appended (jf_batch fl)) (set (jb_deleted (jf_batch fl)))
            (set (jb_clear (jf_batch fl))) (dv_registry dv)
          \<and> flight_ok nb (stored_rows (dv_db dv)) fl
      | Some (fl, True) \<Rightarrow> batch_ok (jf_batch fl) \<and>
          (\<exists>base. registry_ok nb base (appended (jf_batch fl)) (set (jb_deleted (jf_batch fl)))
             (set (jb_clear (jf_batch fl))) (dv_registry dv)
           \<and> (\<forall>sid. sid \<notin> set (jb_deleted (jf_batch fl)) \<union> set (jb_clear (jf_batch fl)) \<longrightarrow>
                stored_rows (dv_db dv) sid = base sid @ appended (jf_batch fl) sid)))"

section \<open>Taking a batch\<close>

lemma map_filter_pairs:
  "map_of (List.map_filter (\<lambda>x. if P x then None else Some (x, f x)) xs) k = (if k \<in> set xs \<and> \<not> P k then Some (f k) else None)"
  by (induction xs) (auto simp: List.map_filter_simps)

lemma distinct_map_filter_pairs:
  "distinct xs \<Longrightarrow> distinct (List.map fst (List.map_filter (\<lambda>x. if P x then None else Some (x, f x)) xs))"
  by (induction xs) (auto simp: List.map_filter_simps List.map_filter_def)

lemma map_filter_keys:
  assumes "\<And>x y. f x = Some y \<Longrightarrow> key y = x"
  shows "map_of (List.map (\<lambda>y. (key y, y)) (List.map_filter f xs)) k = (if k \<in> set xs then f k else None)"
    and "distinct xs \<Longrightarrow> distinct (List.map key (List.map_filter f xs))"
proof (induction xs)
  case (Cons x xs)
  {
    case 1
    from Cons(1) assms [of x] show ?case by (cases "f x") (auto simp: List.map_filter_simps)
  next
    case 2
    have "key y \<in> set xs" if "y \<in> set (List.map_filter f xs)" for y
      using that assms by (fastforce simp: List.map_filter_def)
    with 2 Cons(2) assms [of x] show ?case by (cases "f x") (auto simp: List.map_filter_simps)
  }
qed (simp_all add: List.map_filter_simps)

lemma registry_ok_facts:
  assumes "registry_ok nb base pre gone cleared rg"
  shows "find_session rg sid = Some s \<Longrightarrow> session_fits nb (live_log base rg sid) sid s"
    and "find_session rg sid = None \<Longrightarrow> map_of (rg_pending rg) sid = None"
    and "find_session rg sid \<noteq> None \<Longrightarrow> pending_events rg sid \<noteq> pre sid \<Longrightarrow> sid \<in> set (rg_dirty rg)"
    and "sid \<in> gone \<union> set (rg_deleted rg) \<Longrightarrow> find_session rg sid = None"
    and "sid \<in> set (rg_clear rg) \<Longrightarrow> sid \<in> set (rg_deleted rg) \<or> sid \<in> set (rg_dirty rg) \<and> anchored rg sid"
    and "sid \<in> cleared \<Longrightarrow> sid \<in> gone \<or> sid \<in> set (rg_deleted rg) \<or> anchored rg sid"
    and "distinct (rg_dirty rg)"
  using assms by (simp_all add: registry_ok_def)

lemma pending_is_dirty:
  assumes "registry_ok nb base (\<lambda>_. []) gone cleared rg" and "pending_events rg sid \<noteq> []"
  shows "sid \<in> set (rg_dirty rg)" and "find_session rg sid \<noteq> None"
proof -
  have "map_of (rg_pending rg) sid \<noteq> None"
    using assms(2) unfolding pending_events_def by (cases "map_of (rg_pending rg) sid") simp_all
  with registry_ok_facts(2) [OF assms(1), of sid] show found: "find_session rg sid \<noteq> None" by blast
  show "sid \<in> set (rg_dirty rg)" by (rule registry_ok_facts(3) [OF assms(1) found]) (simp add: assms(2))
qed

lemma batch_of_facts:
  assumes "registry_ok nb base (\<lambda>_. []) gone cleared rg"
  shows "appended (batch_of rg) sid = pending_events rg sid"
    and "batch_session (batch_of rg) sid = (if sid \<in> set (rg_dirty rg) then find_session rg sid else None)"
    and "batch_ok (batch_of rg)"
proof -
  note dirty = pending_is_dirty(1) [OF assms]
  have key: "find_session rg x = Some y \<Longrightarrow> se_id y = x" for x y
    using assms by (auto simp: registry_ok_def session_fits_def)
  have d: "distinct (rg_dirty rg)" using assms by (simp add: registry_ok_def)
  show "appended (batch_of rg) sid = pending_events rg sid"
    using dirty [of sid] by (simp add: appended_def batch_of_def map_filter_pairs) (metis)
  show "batch_session (batch_of rg) sid = (if sid \<in> set (rg_dirty rg) then find_session rg sid else None)"
    using map_filter_keys(1) [of "find_session rg" se_id] key by (simp add: batch_session_def batch_of_def)
  have "\<forall>e \<in> set (pending_events rg k). in_int_range (ev_seq e)" for k using assms by (simp add: registry_ok_def)
  then have "\<forall>chunk \<in> set (jb_appends (batch_of rg)). \<forall>e \<in> set (snd chunk). in_int_range (ev_seq e)"
    by (auto simp: batch_of_def List.map_filter_def split: if_splits)
  moreover have "distinct (List.map fst (jb_appends (batch_of rg)))"
    unfolding batch_of_def journal_batch.simps by (rule distinct_map_filter_pairs [OF d])
  moreover have "distinct (List.map se_id (jb_sessions (batch_of rg)))"
    unfolding batch_of_def journal_batch.simps by (rule map_filter_keys(2) [OF key d])
  ultimately show "batch_ok (batch_of rg)" by (simp add: batch_ok_def)
qed

lemma take_step_ok:
  assumes "registry_ok nb base (\<lambda>_. []) {} {} rg" and "take_batch rg = (rg', Some fl)"
  shows "registry_ok nb base (appended (jf_batch fl)) (set (jb_deleted (jf_batch fl))) (set (jb_clear (jf_batch fl))) rg'
     \<and> flight_ok nb base fl"
proof -
  from assms(2) have rg': "rg' = rg\<lparr>rg_dirty := [], rg_deleted := [], rg_clear := []\<rparr>"
    and fl: "jf_batch fl = batch_of rg" "jf_ids fl = rg_dirty rg"
    by (auto simp: take_batch_def split: if_splits)
  note b = batch_of_facts [OF assms(1)]
  have marks: "jb_deleted (batch_of rg) = rg_deleted rg" "jb_clear (batch_of rg) = rg_clear rg"
    by (simp_all add: batch_of_def)
  have f: "find_session rg' = find_session rg" "pending_events rg' = pending_events rg" "live_log base rg' = live_log base rg"
    "anchored rg' = anchored rg" "rg_pending rg' = rg_pending rg" "rg_sessions rg' = rg_sessions rg"
    by (auto simp: rg' find_session_def pending_events_def live_log_def anchored_def fun_eq_iff)
  have "registry_ok nb base (appended (batch_of rg)) (set (rg_deleted rg)) (set (rg_clear rg)) rg'"
    using assms(1) f b(1) unfolding registry_ok_def by (auto simp: rg')
  moreover have "flight_ok nb base fl"
    unfolding flight_ok_def Let_def fl marks b
  proof (intro conjI allI impI ballI)
    fix sid s assume "(if sid \<in> set (rg_dirty rg) then find_session rg sid else None) = Some s"
    then have s: "find_session rg sid = Some s" "sid \<in> set (rg_dirty rg)" by (auto split: if_splits)
    from registry_ok_facts(1) [OF assms(1) s(1)] show "session_fits nb (base sid @ pending_events rg sid) sid s"
      by (simp add: live_log_def)
    from s registry_ok_facts(4) [OF assms(1)] show "sid \<notin> set (rg_deleted rg)" by fastforce
    show "sid \<in> set (rg_dirty rg)" by (rule s(2))
  next
    fix sid assume "sid \<in> set (rg_clear rg)"
    with registry_ok_facts(5) [OF assms(1)] show "sid \<in> set (rg_deleted rg)
        \<or> (\<exists>s. (if sid \<in> set (rg_dirty rg) then find_session rg sid else None) = Some s \<and> se_anchor s)"
      by (auto simp: anchored_def)
  qed (use pending_is_dirty [OF assms(1)] b(3) in auto)
  ultimately show ?thesis by (simp add: fl marks)
qed

section \<open>Ending a save\<close>

lemma find_load_fields [simp]: "find_session (rg\<lparr>rg_dirty := d, rg_deleted := x, rg_clear := c\<rparr>) = find_session rg"
  by (simp add: find_session_def fun_eq_iff)

lemma set_add_all: "set (add_all xs ys) = set xs \<union> set ys" "distinct ys \<Longrightarrow> distinct (add_all xs ys)"
  unfolding add_all_def by (induction xs arbitrary: ys) auto

lemma fail_step_ok:
  assumes "registry_ok nb base (appended (jf_batch fl)) (set (jb_deleted (jf_batch fl))) (set (jb_clear (jf_batch fl))) rg"
    and "flight_ok nb base fl"
  shows "registry_ok nb base (\<lambda>_. []) {} {} (batch_failed rg fl)"
proof -
  let ?rg = "batch_failed rg fl"
  have f: "find_session ?rg = find_session rg" "pending_events ?rg = pending_events rg" "live_log base ?rg = live_log base rg"
    "anchored ?rg = anchored rg" "rg_pending ?rg = rg_pending rg" "rg_sessions ?rg = rg_sessions rg"
    by (auto simp: batch_failed_def find_session_def pending_events_def live_log_def anchored_def fun_eq_iff)
  have m: "set (rg_dirty ?rg) = set (jf_ids fl) \<union> set (rg_dirty rg)"
    "set (rg_deleted ?rg) = set (jb_deleted (jf_batch fl)) \<union> set (rg_deleted rg)"
    "set (rg_clear ?rg) = set (jb_clear (jf_batch fl)) \<union> set (rg_clear rg)"
    "distinct (rg_dirty rg) \<Longrightarrow> distinct (rg_dirty ?rg)"
    by (simp_all add: batch_failed_def set_add_all)
  have saved: "sid \<in> set (jf_ids fl)" if "appended (jf_batch fl) sid \<noteq> []" for sid
    using assms(2) that by (fastforce simp: flight_ok_def Let_def)
  have cleared: "sid \<in> set (jf_ids fl)" if "sid \<in> set (jb_clear (jf_batch fl))" "sid \<notin> set (jb_deleted (jf_batch fl))" for sid
    using assms(2) that by (fastforce simp: flight_ok_def Let_def)
  note facts = registry_ok_facts [OF assms(1)]
  show ?thesis
    unfolding registry_ok_def f m(1-3)
  proof (intro conjI allI impI ballI)
    fix sid assume "find_session rg sid \<noteq> None" "pending_events rg sid \<noteq> []"
    with facts(3) [of sid] saved [of sid] show "sid \<in> set (jf_ids fl) \<union> set (rg_dirty rg)" by fastforce
  next
    fix sid assume "sid \<in> set (jb_clear (jf_batch fl)) \<union> set (rg_clear rg)"
    with facts(5,6) [of sid] cleared [of sid]
    show "sid \<in> set (jb_deleted (jf_batch fl)) \<union> set (rg_deleted rg)
        \<or> sid \<in> set (jf_ids fl) \<union> set (rg_dirty rg) \<and> anchored rg sid" by blast
  qed (use facts assms(1) m(4) in \<open>auto simp: registry_ok_def\<close>)
qed

lemma splice_fields [simp]:
  "find_session (splice_pending rg c) = find_session rg" "rg_dirty (splice_pending rg c) = rg_dirty rg"
  "rg_deleted (splice_pending rg c) = rg_deleted rg" "rg_clear (splice_pending rg c) = rg_clear rg"
  "rg_sessions (splice_pending rg c) = rg_sessions rg"
  by (auto simp: splice_pending_def split: option.splits)

lemma batch_saved_fields [simp]:
  "find_session (batch_saved rg fl) = find_session rg" "rg_dirty (batch_saved rg fl) = rg_dirty rg"
  "rg_deleted (batch_saved rg fl) = rg_deleted rg" "rg_clear (batch_saved rg fl) = rg_clear rg"
  "rg_sessions (batch_saved rg fl) = rg_sessions rg"
proof -
  have "find_session (foldl splice_pending rg cs) = find_session rg \<and> rg_dirty (foldl splice_pending rg cs) = rg_dirty rg
    \<and> rg_deleted (foldl splice_pending rg cs) = rg_deleted rg \<and> rg_clear (foldl splice_pending rg cs) = rg_clear rg
    \<and> rg_sessions (foldl splice_pending rg cs) = rg_sessions rg" for cs
    by (induction cs arbitrary: rg) simp_all
  then show "find_session (batch_saved rg fl) = find_session rg" "rg_dirty (batch_saved rg fl) = rg_dirty rg"
    "rg_deleted (batch_saved rg fl) = rg_deleted rg" "rg_clear (batch_saved rg fl) = rg_clear rg"
    "rg_sessions (batch_saved rg fl) = rg_sessions rg" by (simp_all add: batch_saved_def)
qed

lemma pending_splice:
  "pending_events (splice_pending rg c) k = (if k = fst c then drop (length (snd c)) (pending_events rg k) else pending_events rg k)"
  "map_of (rg_pending rg) k = None \<Longrightarrow> map_of (rg_pending (splice_pending rg c)) k = None"
  by (auto simp: splice_pending_def pending_events_def update_conv' split: option.splits)

lemma pending_splices:
  "distinct (List.map fst cs) \<Longrightarrow> pending_events (foldl splice_pending rg cs) k =
     drop (length (case map_of cs k of Some es \<Rightarrow> es | None \<Rightarrow> [])) (pending_events rg k)"
  "map_of (rg_pending rg) k = None \<Longrightarrow> map_of (rg_pending (foldl splice_pending rg cs)) k = None"
proof (induction cs arbitrary: rg)
  case (Cons c cs)
  {
    case 1
    have "map_of cs (fst c) = None" using 1 by (simp add: map_of_eq_None_iff)
    with 1 Cons(1) [of "splice_pending rg c"] show ?case by (cases c) (auto simp: pending_splice)
  next
    case 2
    with Cons(2) [of "splice_pending rg c"] show ?case by (simp add: pending_splice)
  }
qed simp_all

lemma settle_step_ok:
  assumes "registry_ok nb base (appended (jf_batch fl)) (set (jb_deleted (jf_batch fl))) (set (jb_clear (jf_batch fl))) rg"
    and "batch_ok (jf_batch fl)"
    and "\<forall>sid. sid \<notin> set (jb_deleted (jf_batch fl)) \<union> set (jb_clear (jf_batch fl)) \<longrightarrow>
       stored sid = base sid @ appended (jf_batch fl) sid"
  shows "registry_ok nb stored (\<lambda>_. []) {} {} (batch_saved rg fl)"
proof -
  let ?b = "jf_batch fl" and ?rg = "batch_saved rg fl"
  note ok = assms(1) [unfolded registry_ok_def]
  have pend: "pending_events ?rg k = drop (length (appended ?b k)) (pending_events rg k)" for k
    using pending_splices(1) [of "jb_appends ?b"] assms(2) by (simp add: batch_saved_def batch_ok_def appended_def)
  have none: "map_of (rg_pending ?rg) k = None" if "map_of (rg_pending rg) k = None" for k
    using pending_splices(2) [OF that] by (simp add: batch_saved_def)
  have anch: "anchored ?rg = anchored rg" by (simp add: anchored_def fun_eq_iff)
  have split: "pending_events rg k = appended ?b k @ drop (length (appended ?b k)) (pending_events rg k)"
    if "find_session rg k \<noteq> None" for k
    using ok that by (metis append_take_drop_id)
  have fits: "session_fits nb (live_log stored ?rg k) k s" if s: "find_session rg k = Some s" for k s
  proof -
    have f: "session_fits nb (live_log base rg k) k s" using ok s by blast
    show ?thesis
    proof (cases "k \<in> set (jb_deleted ?b) \<union> set (jb_clear ?b)")
      case True
      with ok s have "se_anchor s" by (fastforce simp: anchored_def)
      with f show ?thesis by (simp add: session_fits_def)
    next
      case False
      with assms(3) have "stored k = base k @ appended ?b k" by blast
      with split [of k] s have "live_log stored ?rg k = live_log base rg k" by (simp add: live_log_def pend)
      with f show ?thesis by simp
    qed
  qed
  have dirty: "k \<in> set (rg_dirty rg)" if "find_session rg k \<noteq> None" "pending_events ?rg k \<noteq> []" for k
    using ok that by (auto simp: pend)
  have size: "length (pending_events ?rg k) \<le> MAX_PENDING_EVENTS" for k using ok by (simp add: pend le_diff_conv trans_le_add1)
  have range: "\<forall>e \<in> set (pending_events ?rg k). in_int_range (ev_seq e)" for k using ok by (auto simp: pend dest: in_set_dropD)
  show ?thesis
    unfolding registry_ok_def anch batch_saved_fields using ok fits none dirty size range by simp
qed

section \<open>Committing and restarting\<close>

lemma commit_keys:
  assumes "commit_batch db b = Inr db'" and "distinct (List.map fst (jd_sessions db))"
  shows "distinct (List.map fst (jd_sessions db'))"
proof -
  have d1: "jd_sessions (foldl (\<lambda>db sid. delete_events sid db) db sids) = jd_sessions db" for sids db
    by (induction sids arbitrary: db) simp_all
  have d2: "distinct (List.map fst (jd_sessions (foldl (\<lambda>db sid. delete_metadata sid db) db sids)))"
    if "distinct (List.map fst (jd_sessions db))" for sids db
    using that by (induction sids arbitrary: db) (simp_all add: delete_metadata_def distinct_delete)
  have d3: "jd_sessions db' = jd_sessions db" if "run_steps add_append db cs = Inr db'" for db db' cs
    using that by (induction cs arbitrary: db) (auto dest!: add_append_Inr add_events_Inr(2) split: sum.splits)
  have d4: "distinct (List.map fst (jd_sessions db'))"
    if "run_steps put_metadata db ss = Inr db'" "distinct (List.map fst (jd_sessions db))" for db db' ss
    using that by (induction ss arbitrary: db) (auto dest!: put_metadata_Inr simp: distinct_update split: sum.splits)
  define db2 where "db2 = foldl (\<lambda>db sid. delete_metadata sid db)
      (foldl (\<lambda>db sid. delete_events sid db) db (remdups (jb_deleted b @ jb_clear b))) (jb_deleted b)"
  from assms(1) obtain db3 where db3: "run_steps add_append db2 (jb_appends b) = Inr db3"
    "run_steps put_metadata db3 (jb_sessions b) = Inr db'"
    by (auto simp: commit_batch_def Let_def db2_def [symmetric] andThen_Inr_iff)
  have "distinct (List.map fst (jd_sessions db2))" unfolding db2_def by (rule d2) (simp add: d1 assms(2))
  with d3 [OF db3(1)] d4 [OF db3(2)] show ?thesis by simp
qed

lemma commit_metadata_ok:
  assumes "commit_batch db (jf_batch fl) = Inr db'" and "rows_ok db" and "metadata_ok nb db"
    and "flight_ok nb (stored_rows db) fl"
  shows "metadata_ok nb db'"
proof -
  let ?b = "jf_batch fl"
  from assms(4) have b: "batch_ok ?b" by (simp add: flight_ok_def Let_def)
  note c = commit_Inr [OF assms(1,2) b]
  have "session_fits nb (stored_rows db' sid) sid s" if "map_of (jd_sessions db') sid = Some s" for sid s
  proof (cases "batch_session ?b sid")
    case None
    then have app: "appended ?b sid = []" and cl: "sid \<in> set (jb_clear ?b) \<longrightarrow> sid \<in> set (jb_deleted ?b)"
      using assms(4) by (auto simp: flight_ok_def Let_def)
    from None that have nd: "sid \<notin> set (jb_deleted ?b)" and old: "map_of (jd_sessions db) sid = Some s"
      by (auto simp: c(3) split: if_splits)
    from app cl nd have "stored_rows db' sid = stored_rows db sid" by (auto simp: c(2))
    with assms(3) old show ?thesis by (simp add: metadata_ok_def)
  next
    case (Some s')
    with that have s: "batch_session ?b sid = Some s" by (simp add: c(3))
    then have f: "session_fits nb (stored_rows db sid @ appended ?b sid) sid s" "sid \<notin> set (jb_deleted ?b)"
      and cl: "sid \<in> set (jb_clear ?b) \<longrightarrow> se_anchor s"
      using assms(4) by (auto simp: flight_ok_def Let_def)
    show ?thesis
    proof (cases "se_anchor s")
      case True
      with f(1) show ?thesis by (simp add: session_fits_def)
    next
      case False
      with f cl show ?thesis by (auto simp: c(2))
    qed
  qed
  with commit_keys [OF assms(1)] assms(3) show ?thesis by (simp add: metadata_ok_def)
qed

lemma normalise_keeps [simp]: "keeps_log s (normaliseLoadedRecord s)"
  by (simp add: keeps_log_def normaliseLoadedRecord_def Let_def)

lemma fits_normalise: "session_fits nb es sid s \<Longrightarrow> session_fits nb es sid (normaliseLoadedRecord s)"
  using keeps_log_good [of nb es s "normaliseLoadedRecord s"] normalise_keeps [of s]
  by (simp add: session_fits_def keeps_log_def split: if_splits)

lemma load_fold:
  assumes "distinct (List.map se_id ss)" and "\<forall>s \<in> set ss. find_session rg (se_id s) = None"
  shows "find_session (foldl load_one rg ss) sid = (case map_of (List.map (\<lambda>s. (se_id s, s)) ss) sid of
       Some s \<Rightarrow> Some (normaliseLoadedRecord s) | None \<Rightarrow> find_session rg sid)
     \<and> rg_pending (foldl load_one rg ss) = rg_pending rg \<and> rg_deleted (foldl load_one rg ss) = rg_deleted rg
     \<and> rg_clear (foldl load_one rg ss) = rg_clear rg
     \<and> (distinct (rg_dirty rg) \<longrightarrow> distinct (rg_dirty (foldl load_one rg ss)))
     \<and> (distinct (List.map fst (rg_sessions rg)) \<longrightarrow> distinct (List.map fst (rg_sessions (foldl load_one rg ss))))"
  using assms
proof (induction ss arbitrary: rg)
  case (Cons s ss)
  have sid: "se_id (normaliseLoadedRecord s) = se_id s" by (simp add: normaliseLoadedRecord_def Let_def)
  have one: "find_session (load_one rg s) k = (if k = se_id s then Some (normaliseLoadedRecord s) else find_session rg k)" for k
    by (simp add: load_one_def Let_def sid)
  have f: "rg_pending (load_one rg s) = rg_pending rg" "rg_deleted (load_one rg s) = rg_deleted rg"
    "rg_clear (load_one rg s) = rg_clear rg" "distinct (rg_dirty rg) \<Longrightarrow> distinct (rg_dirty (load_one rg s))"
    "distinct (List.map fst (rg_sessions rg)) \<Longrightarrow> distinct (List.map fst (rg_sessions (load_one rg s)))"
    by (simp_all add: load_one_def Let_def)
  have none: "map_of (List.map (\<lambda>s. (se_id s, s)) ss) (se_id s) = None"
    using Cons.prems(1) by (auto simp: map_of_eq_None_iff)
  have "\<forall>s' \<in> set ss. find_session (load_one rg s) (se_id s') = None"
    using Cons.prems unfolding one by (metis image_eqI distinct.simps(2) list.set_map list.simps(9) list.set_intros(2))
  with Cons.IH [of "load_one rg s"] Cons.prems(1) none show ?case by (auto simp: one f split: option.splits)
qed simp

lemma restart_facts:
  assumes "metadata_ok nb db" and "rg = load_sessions new_registry (read_sessions db)"
  shows "find_session rg sid = map_option normaliseLoadedRecord (map_of (jd_sessions db) sid)"
    and "rg_pending rg = []" and "rg_deleted rg = []" and "rg_clear rg = []" and "distinct (rg_dirty rg)"
    and "distinct (List.map fst (rg_sessions rg))"
proof -
  define ss where "ss = read_sessions db"
  have pairs: "List.map (\<lambda>s. (se_id s, s)) ss = sort_key fst (jd_sessions db)"
  proof -
    have "(se_id (snd x), snd x) = x" if "x \<in> set (sort_key fst (jd_sessions db))" for x
    proof -
      from that assms have "map_of (jd_sessions db) (fst x) = Some (snd x)" by (simp add: metadata_ok_def)
      with assms have "session_fits nb (stored_rows db (fst x)) (fst x) (snd x)" by (simp add: metadata_ok_def)
      then show ?thesis by (simp add: session_fits_def)
    qed
    then have "List.map (\<lambda>x. (se_id (snd x), snd x)) (sort_key fst (jd_sessions db)) = sort_key fst (jd_sessions db)"
      by (rule map_idI)
    then show ?thesis by (simp add: ss_def read_sessions_def comp_def)
  qed
  have dk: "distinct (List.map fst (sort_key fst (jd_sessions db)))"
    using assms by (metis distinct_map distinct_sort metadata_ok_def set_sort)
  have mo: "map_of (sort_key fst (jd_sessions db)) sid = map_of (jd_sessions db) sid" for sid
    using dk assms by (intro map_of_inject_set [THEN iffD2, THEN fun_cong]) (simp_all add: metadata_ok_def)
  have "List.map se_id ss = List.map fst (sort_key fst (jd_sessions db))"
    unfolding pairs [symmetric] by simp
  with dk have d: "distinct (List.map se_id ss)" by simp
  from load_fold [OF d, of new_registry sid] pairs mo [of sid] assms(2) [folded ss_def]
  show "find_session rg sid = map_option normaliseLoadedRecord (map_of (jd_sessions db) sid)"
    "rg_pending rg = []" "rg_deleted rg = []" "rg_clear rg = []" "distinct (rg_dirty rg)" "distinct (List.map fst (rg_sessions rg))"
    by (auto simp: load_sessions_def new_registry_def find_session_def split: option.splits)
qed

lemma restart_ok:
  assumes "metadata_ok nb db"
  shows "registry_ok nb (stored_rows db) (\<lambda>_. []) {} {} (load_sessions new_registry (read_sessions db))"
proof -
  define rg where "rg = load_sessions new_registry (read_sessions db)"
  note rg = restart_facts [OF assms rg_def]
  have p: "pending_events rg = (\<lambda>_. [])" by (simp add: pending_events_def rg(2) fun_eq_iff)
  have "session_fits nb (live_log (stored_rows db) rg sid) sid s" if "find_session rg sid = Some s" for sid s
    using that assms fits_normalise by (auto simp: rg(1) live_log_def p metadata_ok_def)
  with rg p show ?thesis unfolding rg_def [symmetric] registry_ok_def by simp
qed

section \<open>Every reachable device is consistent\<close>

lemma never_used_unused:
  assumes "never_used dv sid" and "dv_flight dv = Some (fl, committed)"
    and "sid \<notin> set (jb_deleted (jf_batch fl)) \<union> set (jb_clear (jf_batch fl)) \<Longrightarrow> base sid = []"
  shows "unused base (appended (jf_batch fl)) (set (jb_deleted (jf_batch fl))) (set (jb_clear (jf_batch fl))) (dv_registry dv) sid"
  using assms by (auto simp: never_used_def unused_def)

lemma device_call_ok:
  assumes "noble_ok (de_noble env)" and "op_journal (de_options env)" and "device_ok (de_noble env) dv"
    and "\<forall>k \<in> new_ids c. never_used dv k"
  shows "device_ok (de_noble env)
     (dv\<lparr>dv_registry := call_registry env c (dv_registry dv), dv_used := dv_used dv \<union> new_ids c\<rparr>)"
proof (cases "dv_flight dv")
  case None
  have "\<forall>k \<in> new_ids c. unused (stored_rows (dv_db dv)) (\<lambda>_. []) {} {} (dv_registry dv) k"
    using assms(4) by (auto simp: never_used_def unused_def)
  with None assms(3) call_registry_ok [OF assms(1,2)] show ?thesis by (simp add: device_ok_def)
next
  case (Some f)
  obtain fl committed where f: "f = (fl, committed)" by (cases f)
  note fl = Some [unfolded f]
  show ?thesis
  proof (cases committed)
    case True
    with assms(3) fl obtain base where base: "registry_ok (de_noble env) base (appended (jf_batch fl))
          (set (jb_deleted (jf_batch fl))) (set (jb_clear (jf_batch fl))) (dv_registry dv)"
      "\<forall>sid. sid \<notin> set (jb_deleted (jf_batch fl)) \<union> set (jb_clear (jf_batch fl)) \<longrightarrow>
         stored_rows (dv_db dv) sid = base sid @ appended (jf_batch fl) sid"
      by (auto simp: device_ok_def)
    have "\<forall>k \<in> new_ids c. unused base (appended (jf_batch fl)) (set (jb_deleted (jf_batch fl)))
        (set (jb_clear (jf_batch fl))) (dv_registry dv) k"
      using assms(4) base(2) never_used_unused [OF _ fl] by (fastforce simp: never_used_def)
    with call_registry_ok [OF assms(1,2) base(1)] base(2) assms(3) fl True show ?thesis
      by (auto simp: device_ok_def)
  next
    case False
    with assms(3) fl have ok: "registry_ok (de_noble env) (stored_rows (dv_db dv)) (appended (jf_batch fl))
          (set (jb_deleted (jf_batch fl))) (set (jb_clear (jf_batch fl))) (dv_registry dv)"
      by (simp add: device_ok_def)
    have "\<forall>k \<in> new_ids c. unused (stored_rows (dv_db dv)) (appended (jf_batch fl)) (set (jb_deleted (jf_batch fl)))
        (set (jb_clear (jf_batch fl))) (dv_registry dv) k"
      using assms(4) never_used_unused [OF _ fl] by (simp add: never_used_def)
    with call_registry_ok [OF assms(1,2) ok] assms(3) fl False show ?thesis by (simp add: device_ok_def)
  qed
qed

lemma process_step_ok:
  assumes "noble_ok (de_noble env)" and "op_journal (de_options env)"
    and "process_step env dv dv'" and "device_ok (de_noble env) dv"
  shows "device_ok (de_noble env) dv'"
  using assms(3)
proof cases
  case (step_call c)
  with device_call_ok [OF assms(1,2,4)] show ?thesis by simp
next
  case (step_take rg fl)
  with assms(4) take_step_ok [of "de_noble env" "stored_rows (dv_db dv)" "dv_registry dv" rg fl] show ?thesis
    by (simp add: device_ok_def)
next
  case (step_commit fl db)
  with assms(4) have ok: "rows_ok (dv_db dv)" "metadata_ok (de_noble env) (dv_db dv)"
    "flight_ok (de_noble env) (stored_rows (dv_db dv)) fl" by (simp_all add: device_ok_def)
  then have b: "batch_ok (jf_batch fl)" by (simp add: flight_ok_def Let_def)
  note c = commit_Inr [OF step_commit(3) ok(1) b]
  have "stored_rows db sid = stored_rows (dv_db dv) sid @ appended (jf_batch fl) sid"
    if "sid \<notin> set (jb_deleted (jf_batch fl)) \<union> set (jb_clear (jf_batch fl))" for sid
    using that by (simp add: c(2))
  with c(1) commit_metadata_ok [OF step_commit(3) ok] b step_commit(1,2) assms(4) show ?thesis
    by (auto simp: device_ok_def)
next
  case (step_settle fl)
  with assms(4) settle_step_ok [of "de_noble env" _ fl "dv_registry dv" "stored_rows (dv_db dv)"] show ?thesis
    by (auto simp: device_ok_def)
next
  case (step_fail fl)
  with assms(4) fail_step_ok [of "de_noble env" "stored_rows (dv_db dv)" fl "dv_registry dv"] show ?thesis
    by (simp add: device_ok_def)
qed

lemma device_step_ok:
  assumes "noble_ok (de_noble env)" and "op_journal (de_options env)"
    and "device_step env dv dv'" and "device_ok (de_noble env) dv"
  shows "device_ok (de_noble env) dv'"
  using assms(3)
proof cases
  case step_process
  with process_step_ok [OF assms(1,2) _ assms(4)] show ?thesis by simp
next
  case step_restart
  with assms(4) restart_ok [of "de_noble env" "dv_db dv"] show ?thesis by (simp add: device_ok_def)
qed

lemma start_device_ok: "device_ok nb start_device"
  by (simp add: device_ok_def start_device_def rows_ok_def metadata_ok_def empty_db_def registry_ok_def
      new_registry_def find_session_def pending_events_def stored_rows_def)

lemma reachable_device_ok:
  assumes "noble_ok (de_noble env)" and "op_journal (de_options env)" and "reachable_device env dv"
  shows "device_ok (de_noble env) dv"
  using assms(3) by induction (auto intro: start_device_ok device_step_ok [OF assms(1,2)])

end
