(* ===== verification/Session_Lifecycle.thy ===== *)
theory Session_Lifecycle
  imports Recording_Device
begin

text \<open>
  What a call can do to a session that the registry already holds: the states it may move between,
  what is frozen once it has been signed, and how the events that wait for the journal grow.
\<close>

section \<open>Life cycle\<close>

inductive lifecycle :: "session_state \<Rightarrow> session_state \<Rightarrow> bool" where
  life_stay: "lifecycle s s"
| life_sign: "lifecycle Active Signing"
| life_resign: "lifecycle FailedUpload Signing"
| life_upload: "lifecycle Signing Uploading"
| life_retry: "lifecycle FailedUpload Uploading"
| life_done: "lifecycle Uploading Uploaded"
| life_fail: "lifecycle Uploading FailedUpload"
| life_cancel: "lifecycle Signing FailedUpload"

code_pred lifecycle .

inductive_simps lifecycle_to_Active [simp]: "lifecycle s Active"
inductive_simps lifecycle_from_Uploaded [simp]: "lifecycle Uploaded s"

text \<open>What a signed record is made of, besides the events in the journal.\<close>

definition signed_parts where
  "signed_parts s = (se_id s, se_version s, se_base s, se_producer s, se_binding s, se_duration s,
     se_event_count s, se_last_event_t s, se_events s, se_tip s, se_parent s)"

definition evolves :: "session \<Rightarrow> session \<Rightarrow> bool" where
  "evolves s s' \<longleftrightarrow> lifecycle (se_state s) (se_state s')
     \<and> (se_anchor s \<longrightarrow> se_anchor s') \<and> (se_anchor s' \<longrightarrow> se_anchor s \<or> se_state s = Uploaded)
     \<and> (se_state s \<noteq> Active \<and> se_duration s \<noteq> None \<and> \<not> se_anchor s' \<longrightarrow> signed_parts s' = signed_parts s)
     \<and> (se_upload_id s \<noteq> None \<longrightarrow> se_upload_id s' = se_upload_id s)"

lemma evolves_refl [simp]: "evolves s s"
  by (simp add: evolves_def life_stay)

lemma evolves_observation [simp]: "evolves s s' \<Longrightarrow> evolves s (s'\<lparr>se_obs := ob\<rparr>)"
  by (simp add: evolves_def signed_parts_def)

section \<open>Registries\<close>

definition registry_evolves :: "jsstring set \<Rightarrow> registry \<Rightarrow> registry \<Rightarrow> bool" where
  "registry_evolves ids rg rg' \<longleftrightarrow> (\<forall>k s'. find_session rg' k = Some s' \<longrightarrow> k \<in> ids \<or>
     (\<exists>s new. find_session rg k = Some s \<and> evolves s s' \<and> pending_events rg' k = pending_events rg k @ new
        \<and> (new \<noteq> [] \<longrightarrow> se_state s = Active)))"

lemma registry_evolves_refl [simp]: "registry_evolves ids rg rg"
  by (auto simp: registry_evolves_def)

lemma registry_evolves_from_dirty [simp]: "registry_evolves ids (mark_dirty k rg) rg' = registry_evolves ids rg rg'"
  by (simp add: registry_evolves_def)

lemma registry_evolves_to_dirty [simp]: "registry_evolves ids rg (mark_dirty k rg') = registry_evolves ids rg rg'"
  by (simp add: registry_evolves_def)

lemma registry_evolves_put:
  assumes "registry_evolves ids rg rg'" and "find_session rg' sid = Some s"
    and "\<And>t. find_session rg sid = Some t \<Longrightarrow> evolves t s \<Longrightarrow> evolves t s'"
  shows "registry_evolves ids rg (put_session sid s' rg')"
  unfolding registry_evolves_def
proof (intro allI impI)
  fix k t assume t: "find_session (put_session sid s' rg') k = Some t"
  show "k \<in> ids \<or> (\<exists>s new. find_session rg k = Some s \<and> evolves s t
      \<and> pending_events (put_session sid s' rg') k = pending_events rg k @ new \<and> (new \<noteq> [] \<longrightarrow> se_state s = Active))"
  proof (cases "k = sid")
    case True
    with t assms(1,2) show ?thesis by (fastforce simp: registry_evolves_def dest: assms(3))
  next
    case False
    with t assms(1) show ?thesis by (simp add: registry_evolves_def)
  qed
qed

interpretation evolving: observation_closed "registry_evolves ids rg" for ids rg
proof
  fix rg' sid s ob
  assume "registry_evolves ids rg rg'" "find_session rg' sid = Some s"
  then show "registry_evolves ids rg (put_session sid (s\<lparr>se_obs := ob\<rparr>) rg')"
    by (rule registry_evolves_put) simp
qed (simp_all add: registry_evolves_def)

text \<open>Methods that change one session they find.\<close>

lemma put_evolves:
  "find_session rg sid = Some s \<Longrightarrow> evolves s s' \<Longrightarrow> registry_evolves ids rg (put_session sid s' rg)"
  by (auto simp: registry_evolves_def)

lemma put_new_evolves: "registry_evolves {sid} rg (put_session sid s rg)"
  by (auto simp: registry_evolves_def)

definition harmless :: "registry \<Rightarrow> jsstring \<Rightarrow> session \<Rightarrow> registry \<Rightarrow> bool" where
  "harmless rg sid s rg' \<longleftrightarrow> rg' = rg \<or> (\<exists>s'. evolves s s' \<and> rg' = put_session sid s' rg)"

lemma harmless_intros [simp, intro]:
  "harmless rg sid s rg" "evolves s s' \<Longrightarrow> harmless rg sid s (put_session sid s' rg)"
  "evolves s s' \<Longrightarrow> harmless (mark_dirty k rg) sid s (mark_dirty k (put_session sid s' rg))"
  by (auto simp: harmless_def simp flip: put_mark)

lemma update_method_evolves:
  assumes "\<And>s. find_session rg sid = Some s \<Longrightarrow> se_state s \<in> set allowed \<Longrightarrow>
      harmless (mark_dirty sid rg) sid s (fst (f (mark_dirty sid rg) s))"
  shows "registry_evolves ids rg (fst (and_with (requireInState allowed rg sid) f))"
proof (cases rule: require_cases [of rg sid allowed])
  case (found s)
  have put: "registry_evolves ids rg (put_session sid s' (mark_dirty sid rg))" if "evolves s s'" for s'
    using put_evolves [OF found(1) that] by simp
  from found assms [OF found(1,2)] put show ?thesis by (auto simp: and_with_def harmless_def)
qed (simp_all add: and_with_def)

lemma lifecycle_calls_evolve:
  "registry_evolves ids rg (fst (markUploading rg sid))"
  "registry_evolves ids rg (fst (markUploaded rg sid response now))"
  "registry_evolves ids rg (fst (markFailedUpload rg sid reason))"
  "registry_evolves ids rg (fst (markObservationRejected rg sid r))"
  "registry_evolves ids rg (fst (resume_session rg sid og de is_empty continuity))"
  unfolding markUploading_def markUploaded_def markFailedUpload_def markObservationRejected_def
    resume_session_def requireMutable_state Let_def
  by (rule update_method_evolves, force simp: evolves_def signed_parts_def intro!: harmless_intros intro: lifecycle.intros)+

lemma drop_evolves: "registry_evolves ids rg rg' \<Longrightarrow> registry_evolves ids rg (drop_session sid rg')"
  by (simp add: registry_evolves_def)

lemma discard_evolves: "registry_evolves ids rg (fst (discard_session rg sid))"
  by (simp add: discard_session_def drop_evolves split: option.splits)

lemma anchor_evolves: "se_state s = Uploaded \<Longrightarrow> evolves s (upload_anchor opts s)"
  by (auto simp: evolves_def upload_anchor_def intro: lifecycle.intros)

lemma sweep_evolves_fold:
  assumes "registry_evolves ids rg rg'" and "distinct (List.map se_id ss)"
    and "\<forall>s \<in> set ss. find_session rg (se_id s) = Some s \<and> find_session rg' (se_id s) = Some s"
  shows "registry_evolves ids rg (fst (foldl (sweep_one opts now ttl retain) (rg', logs) ss))"
  using assms
proof (induction ss arbitrary: rg' logs)
  case (Cons s ss)
  obtain rg1 logs1 where step: "sweep_one opts now ttl retain (rg', logs) s = (rg1, logs1)" by fastforce
  have put: "registry_evolves ids rg (put_session (se_id s) (upload_anchor opts s) rg')" if "se_state s = Uploaded"
    using registry_evolves_put [OF Cons.prems(1), of "se_id s" s "upload_anchor opts s"] Cons.prems(3) anchor_evolves [OF that]
    by simp
  have "registry_evolves ids rg (rg2\<lparr>rg_clear := cl\<rparr>) = registry_evolves ids rg rg2" for rg2 cl
    by (simp add: registry_evolves_def)
  with step put drop_evolves [OF Cons.prems(1)] have "registry_evolves ids rg rg1"
    by (auto simp: sweep_one_def split: if_splits)
  moreover have "find_session rg1 k = find_session rg' k" if "k \<noteq> se_id s" for k
    using step that by (auto simp: sweep_one_def split: if_splits)
  moreover have "\<forall>s' \<in> set ss. se_id s' \<noteq> se_id s" using Cons.prems(2) by (metis distinct.simps(2) image_eqI list.set_map list.simps(9))
  ultimately show ?case using Cons.IH [of rg1 logs1] Cons.prems step by simp
qed simp

lemma sweep_evolves:
  assumes "registry_ok nb base pre gone cleared rg"
  shows "registry_evolves ids rg (fst (sweep_sessions opts rg now ttl grace retain))"
proof -
  have "find_session rg (se_id s) = Some s" if "s \<in> set (filter P (List.map snd (rg_sessions rg)))" for s P
    using that held_session_found [OF assms] by simp
  moreover have "distinct (List.map se_id (filter P (List.map snd (rg_sessions rg))))" for P
    using held_sessions_distinct [OF assms] by (rule distinct_map_filter)
  ultimately show ?thesis
    unfolding sweep_sessions_def Let_def sweepExpired_filter snd_conv
    by (intro sweep_evolves_fold registry_evolves_refl) blast+
qed

lemma record_event_evolves:
  assumes "find_session rg sid = Some s" and "se_state s = Active"
  shows "registry_evolves ids rg (case record_event opts rg sid s e tip now of (rg', s') \<Rightarrow> put_session sid s' rg')"
proof -
  obtain ob where ob: "recomputeObservationState opts t = t\<lparr>se_obs := ob t\<rparr>" for t
    using recompute_obs by metis
  have pend: "pending_events (rg\<lparr>rg_pending := AList.update sid es (rg_pending rg)\<rparr>) k
      = (if k = sid then es else pending_events rg k)" for es k
    by (simp add: pending_events_def update_conv')
  show ?thesis
  proof (cases "op_journal opts")
    case True
    with assms show ?thesis
      by (simp add: record_event_def Let_def ob registry_evolves_def pend evolves_def lifecycle.intros)
  next
    case False
    with assms show ?thesis
      by (simp add: record_event_def Let_def ob registry_evolves_def evolves_def lifecycle.intros)
  qed
qed

lemma append_evolves: "registry_evolves ids rg (fst (appendMutation nb opts rg sid p captured now trig fresh))"
proof (cases rule: appendMutation_cases [of nb opts rg sid p captured now trig fresh])
  case (recorded s p' wall e tip)
  have "registry_evolves ids (mark_dirty sid rg)
     (case record_event opts (mark_dirty sid rg) sid s e tip wall of (rg', s') \<Rightarrow> put_session sid s' rg')"
    using recorded(1,2) by (intro record_event_evolves) simp_all
  with recorded(6) show ?thesis by (auto split: prod.splits intro: evolving.maybe_trigger)
qed simp_all

lemma unrecorded_evolves: "registry_evolves ids rg (fst (recordUnrecordedChange nb opts rg sid now trig fresh))"
  using append_evolves [of ids "mark_dirty sid rg"]
  by (cases rule: require_cases [of rg sid "[Active]"])
     (simp_all add: recordUnrecordedChange_def requireMutable_state and_with_def)

lemma sign_evolves: "registry_evolves ids rg (fst (sign_session parses toISO nb opts rg sid binding now fresh))"
proof (cases rule: sign_session_cases [of parses toISO nb opts rg sid binding now fresh])
  case (signed s m es s')
  obtain h created where m: "m = draft_manifest opts s h (signed_binding s binding) (signed_duration opts s now) created"
    using build_draft_manifest [OF signed(4)] by blast
  have "signed_parts s' = signed_parts s" if "se_state s = FailedUpload" "se_duration s \<noteq> None"
    using that by (auto simp: signed(5) m draft_manifest_def signed_parts_def signed_binding_def signed_duration_def signed_version_def)
  moreover have "se_state s' = Signing" "se_anchor s' = se_anchor s" "se_upload_id s \<noteq> None \<longrightarrow> se_upload_id s' = se_upload_id s"
    by (simp_all add: signed(5))
  ultimately have "evolves s s'" using signed(2) by (auto simp: evolves_def intro: lifecycle.intros)
  with put_evolves [OF signed(1)] show ?thesis by (simp add: signed(6))
qed simp_all

lemma find_evolves:
  assumes "registry_ok nb base pre gone cleared rg"
  shows "registry_evolves {fresh} rg (fst (findOrCreate opts rg og de surface start_fresh unknown started fresh now))"
proof -
  define ss where "ss = (if start_fresh then [] else List.map snd (rg_sessions rg))"
  show ?thesis
  proof (cases rule: resolve_cases [of ss og de fresh])
    case (reuse s)
    then have s: "find_session rg (se_id s) = Some s"
      using held_session_found [OF assms] by (simp add: ss_def split: if_splits)
    have "evolves s (s\<lparr>se_certainty := c, se_descriptor := de, se_origin := og, se_last_edit := now\<rparr>)" for c
      by (simp add: evolves_def signed_parts_def life_stay)
    with reuse s put_evolves [OF s] show ?thesis
      by (auto simp: findOrCreate_def Let_def ss_def [symmetric])
  next
    case create
    then show ?thesis
      by (auto simp: findOrCreate_def Let_def ss_def [symmetric] put_new_evolves)
  qed
qed

lemma continue_evolves:
  assumes "registry_ok nb base pre gone cleared rg"
  shows "registry_evolves {fresh} rg (fst (continueFrom opts rg sid og de fresh now))"
proof (cases rule: require_cases [of rg sid "[Uploaded]"])
  case (found s)
  show ?thesis
  proof (cases "se_response s")
    case (Some response)
    show ?thesis
    proof (cases "List.find (continues (ur_record_hash response)) (List.map snd (rg_sessions rg))")
      case None
      with found Some show ?thesis by (simp add: continueFrom_def and_with_def Let_def put_new_evolves)
    next
      case held: (Some t)
      then have t: "find_session rg (se_id t) = Some t"
        using held_session_found [OF assms] find_Some_set by fast
      have "evolves t (t\<lparr>se_origin := x, se_descriptor := y, se_last_edit := now\<rparr>)" for x y
        by (simp add: evolves_def signed_parts_def life_stay)
      with held found Some put_evolves [OF t] show ?thesis by (simp add: continueFrom_def and_with_def Let_def)
    qed
  qed (use found in \<open>simp add: continueFrom_def and_with_def\<close>)
qed (simp_all add: continueFrom_def and_with_def)

lemma call_evolves:
  assumes "registry_ok nb base pre gone cleared rg"
  shows "registry_evolves (new_ids c) rg (call_registry env c rg)"
  by (cases c) (simp_all add: find_evolves [OF assms] continue_evolves [OF assms] sweep_evolves [OF assms] append_evolves
      unrecorded_evolves sign_evolves lifecycle_calls_evolve discard_evolves evolving.arrived evolving.saved
      evolving.flushed evolving.flush_marks)

end
