(* ===== verification/Signed_Records.thy ===== *)
theory Signed_Records
  imports Session_Lifecycle "HOL-Library.Sublist"
begin

text \<open>
  What a producer guarantees about the records it signs and about the events it was given, whatever
  the order of calls, saves, failures and restarts.
\<close>

section \<open>The log of a session\<close>

text \<open>
  The journaled events of a session and those that wait, without counting twice the events of a batch
  whose transaction has completed.
\<close>

definition waiting_events :: "device \<Rightarrow> jsstring \<Rightarrow> event_log" where
  "waiting_events dv sid = (case dv_flight dv of
      Some (fl, True) \<Rightarrow> drop (length (appended (jf_batch fl) sid)) (pending_events (dv_registry dv) sid)
    | _ \<Rightarrow> pending_events (dv_registry dv) sid)"

definition device_log :: "device \<Rightarrow> jsstring \<Rightarrow> event_log" where
  "device_log dv sid = stored_rows (dv_db dv) sid @ waiting_events dv sid"

definition held :: "device \<Rightarrow> jsstring \<Rightarrow> session \<Rightarrow> bool" where
  "held dv sid s \<longleftrightarrow> find_session (dv_registry dv) sid = Some s \<and> \<not> se_anchor s"

lemma held_good:
  assumes "device_ok nb dv" and "held dv sid s"
  shows "session_good nb (device_log dv sid) s \<and> se_id s = sid"
proof -
  have fits: "session_fits nb es sid s \<Longrightarrow> session_good nb es s \<and> se_id s = sid" for es
    using assms(2) by (simp add: held_def session_fits_def)
  have s: "find_session (dv_registry dv) sid = Some s" using assms(2) by (simp add: held_def)
  show ?thesis
  proof (cases "dv_flight dv")
    case None
    with assms(1) have "registry_ok nb (stored_rows (dv_db dv)) (\<lambda>_. []) {} {} (dv_registry dv)" by (simp add: device_ok_def)
    from fits [OF registry_ok_facts(1) [OF this s]] None show ?thesis
      by (simp add: device_log_def waiting_events_def live_log_def)
  next
    case (Some f)
    obtain fl committed where f: "f = (fl, committed)" by (cases f)
    show ?thesis
    proof (cases committed)
      case False
      with Some f assms(1) have "registry_ok nb (stored_rows (dv_db dv)) (appended (jf_batch fl))
          (set (jb_deleted (jf_batch fl))) (set (jb_clear (jf_batch fl))) (dv_registry dv)" by (simp add: device_ok_def)
      from fits [OF registry_ok_facts(1) [OF this s]] Some f False show ?thesis
        by (simp add: device_log_def waiting_events_def live_log_def)
    next
      case True
      with Some f assms(1) obtain base where base: "registry_ok nb base (appended (jf_batch fl))
            (set (jb_deleted (jf_batch fl))) (set (jb_clear (jf_batch fl))) (dv_registry dv)"
        and stored: "\<forall>sid. sid \<notin> set (jb_deleted (jf_batch fl)) \<union> set (jb_clear (jf_batch fl)) \<longrightarrow>
           stored_rows (dv_db dv) sid = base sid @ appended (jf_batch fl) sid"
        by (auto simp: device_ok_def)
      note facts = registry_ok_facts [OF base]
      have "sid \<notin> set (jb_deleted (jf_batch fl)) \<union> set (jb_clear (jf_batch fl))"
        using facts(4,6) [of sid] s assms(2) by (auto simp: held_def anchored_def)
      with stored have st: "stored_rows (dv_db dv) sid = base sid @ appended (jf_batch fl) sid" by blast
      have "take (length (appended (jf_batch fl) sid)) (pending_events (dv_registry dv) sid) = appended (jf_batch fl) sid"
        using base s unfolding registry_ok_def by blast
      then have "device_log dv sid = live_log base (dv_registry dv) sid"
        using Some f True st by (simp add: device_log_def waiting_events_def live_log_def) (metis append_take_drop_id)
      with fits [OF facts(1) [OF s]] show ?thesis by simp
    qed
  qed
qed

lemma device_registry_ok:
  assumes "device_ok nb dv"
  shows "\<exists>base pre gone cleared. registry_ok nb base pre gone cleared (dv_registry dv)"
  using assms unfolding device_ok_def by (auto split: option.splits prod.splits bool.splits)

lemma unfinished_held:
  assumes "device_ok nb dv" and "find_session (dv_registry dv) sid = Some s" and "se_state s \<noteq> Uploaded"
  shows "held dv sid s"
proof -
  obtain base pre gone cleared where "registry_ok nb base pre gone cleared (dv_registry dv)"
    using device_registry_ok [OF assms(1)] by blast
  from registry_ok_facts(1) [OF this assms(2)] assms(3) show ?thesis
    using assms(2) by (auto simp: held_def session_fits_def split: if_splits)
qed

section \<open>Signed records verify\<close>

text \<open>A draft of a consistent journaled session, together with the session's log, is a valid record.\<close>

lemma draft_record_ok:
  assumes "noble_ok nb" and "op_journal opts" and "session_good nb es s" and "sessionEventCount s \<noteq> 0"
    and "build_draft parses toISO nb opts s binding now = Inr (m, drafted)"
  shows "record_ok parses nb \<lparr>wr_manifest = m, wr_events = es\<rparr>"
proof -
  note counts = session_good_counts [OF assms(3)]
  obtain h created where m: "m = draft_manifest opts s h (signed_binding s binding) (signed_duration opts s now) created"
    and h: "signed_hash nb opts s (signed_binding s binding) (signed_duration opts s now) = Inr (Some h)"
    and ok: "self_verifies parses nb opts m drafted = Inr True"
    using build_draft_manifest [OF assms(5)] by blast
  let ?v = "signed_version opts s" and ?tb = "signed_binding s binding" and ?d = "signed_duration opts s now"
  from counts assms(4) have ne: "es \<noteq> []" by auto
  with assms(3) have log: "valid_log es" "isUuid (se_id s)" by (auto simp: session_good_def)
  have tip: "se_tip s = tip_after nb (se_id s) ?v es"
    using assms(3) tip_after_version [OF signed_version_chain [of opts s], of nb "se_id s" es] by (simp add: session_good_def)
  obtain tip where t: "tip_after nb (se_id s) ?v es = Some tip"
    and eq: "computeRecordHash nb es (se_id s) ?v ?tb (Some (?d, se_parent s)) = sealRecordHash nb tip ?v ?tb (Some (?d, se_parent s))"
    using computeRecordHash_tip [OF assms(1) log(2,1) ne] by blast
  from h tip t assms(2) have "sealRecordHash nb tip ?v ?tb (Some (?d, se_parent s)) = Inr h"
    by (simp add: signed_hash_def Let_def andThen_Inr_iff)
  with eq have hash: "computeRecordHash nb es (se_id s) ?v ?tb (Some (?d, se_parent s)) = Inr h" by simp
  have "durationMs es \<le> ?d" by (rule signed_duration_covers [OF assms(3)])
  with hash ok log ne counts assms(2) show ?thesis
    by (simp add: record_ok_def Let_def sealed_hash_def finalization_of_def m draft_manifest_def self_verifies_def durationMs_def)
qed

lemma signed_draft_verifies:
  assumes "noble_ok (de_noble env)" and "op_journal (de_options env)" and "reachable_device env dv"
    and "sign_session (de_parses env) (de_iso env) (de_noble env) (de_options env) (dv_registry dv) sid binding now fresh = (rg, Inr draft)"
  shows "record_ok (de_parses env) (de_noble env) \<lparr>wr_manifest = sd_manifest draft, wr_events = device_log dv sid\<rparr>"
  using assms(4)
proof (cases rule: sign_session_cases [of "de_parses env" "de_iso env" "de_noble env" "de_options env" "dv_registry dv" sid binding now fresh])
  case (signed s m es s')
  note ok = reachable_device_ok [OF assms(1,2,3)]
  from signed(1,2) have "held dv sid s" by (auto intro: unfinished_held [OF ok])
  then have "session_good (de_noble env) (device_log dv sid) s" using held_good [OF ok] by blast
  from draft_record_ok [OF assms(1,2) this signed(3,4)] signed(6) assms(4) show ?thesis by simp
qed (use assms(4) in simp_all)

text \<open>C2: Every record a producer signs is one the server accepts. Whatever calls, saves, failed saves
  and restarts came before, when signing a session returns a draft, its manifest together with the
  events of that session, those in the journal followed by those still waiting, passes
  \<open>verifyRecord\<close>; this although signing with a journal looks at none of the events.\<close>

theorem signed_records_verify:
  assumes "noble_ok (de_noble env)" and "op_journal (de_options env)" and "reachable_device env dv"
    and "sign_session (de_parses env) (de_iso env) (de_noble env) (de_options env) (dv_registry dv) sid binding now fresh = (rg, Inr draft)"
  shows "\<exists>res. verifyRecord (de_parses env) (de_noble env)
      \<lparr>wr_manifest = sd_manifest draft, wr_events = device_log dv sid\<rparr> = Inr res \<and> vr_valid res"
  using verifyRecord_spec [OF assms(1), of "de_parses env" "\<lparr>wr_manifest = sd_manifest draft, wr_events = device_log dv sid\<rparr>"]
    signed_draft_verifies [OF assms] by blast

section \<open>Nothing recorded is lost\<close>

lemma device_call_log:
  assumes "device_ok nb dv" and "held dv sid s"
    and "held (dv\<lparr>dv_registry := call_registry env c (dv_registry dv), dv_used := u\<rparr>) sid s'" and "sid \<notin> new_ids c"
  shows "\<exists>new. device_log (dv\<lparr>dv_registry := call_registry env c (dv_registry dv), dv_used := u\<rparr>) sid = device_log dv sid @ new
     \<and> (new \<noteq> [] \<longrightarrow> se_state s = Active)"
proof -
  obtain base pre gone cleared where ok: "registry_ok nb base pre gone cleared (dv_registry dv)"
    using device_registry_ok [OF assms(1)] by blast
  obtain new where new: "pending_events (call_registry env c (dv_registry dv)) sid = pending_events (dv_registry dv) sid @ new"
    "new \<noteq> [] \<longrightarrow> se_state s = Active"
    using call_evolves [OF ok, of c env] assms(2-4) by (fastforce simp: registry_evolves_def held_def)
  show ?thesis
  proof (cases "\<exists>fl. dv_flight dv = Some (fl, True)")
    case True
    then obtain fl where fl: "dv_flight dv = Some (fl, True)" by blast
    with assms(1) obtain base where "registry_ok nb base (appended (jf_batch fl)) (set (jb_deleted (jf_batch fl)))
        (set (jb_clear (jf_batch fl))) (dv_registry dv)" by (auto simp: device_ok_def)
    with assms(2) have "take (length (appended (jf_batch fl) sid)) (pending_events (dv_registry dv) sid) = appended (jf_batch fl) sid"
      unfolding registry_ok_def held_def by blast
    then have "length (appended (jf_batch fl) sid) \<le> length (pending_events (dv_registry dv) sid)"
      by (metis length_take min.cobounded1)
    with new fl show ?thesis by (simp add: device_log_def waiting_events_def)
  next
    case False
    with new show ?thesis
      by (auto simp: device_log_def waiting_events_def split: option.splits prod.splits bool.splits)
  qed
qed

text \<open>The batch under way neither deletes nor clears a held session, and starts with its events.\<close>

lemma held_flight:
  assumes "device_ok nb dv" and "held dv sid s" and "dv_flight dv = Some (fl, committed)"
  shows "sid \<notin> set (jb_deleted (jf_batch fl)) \<union> set (jb_clear (jf_batch fl))"
    and "appended (jf_batch fl) sid @ drop (length (appended (jf_batch fl) sid)) (pending_events (dv_registry dv) sid)
      = pending_events (dv_registry dv) sid"
proof -
  obtain base where ok: "registry_ok nb base (appended (jf_batch fl)) (set (jb_deleted (jf_batch fl)))
        (set (jb_clear (jf_batch fl))) (dv_registry dv)"
    using assms(1,3) by (cases committed) (auto simp: device_ok_def)
  show "sid \<notin> set (jb_deleted (jf_batch fl)) \<union> set (jb_clear (jf_batch fl))"
    using registry_ok_facts(4,6) [OF ok, of sid] assms(2) by (auto simp: held_def anchored_def)
  have "take (length (appended (jf_batch fl) sid)) (pending_events (dv_registry dv) sid) = appended (jf_batch fl) sid"
    using ok assms(2) unfolding registry_ok_def held_def by blast
  then show "appended (jf_batch fl) sid @ drop (length (appended (jf_batch fl) sid)) (pending_events (dv_registry dv) sid)
      = pending_events (dv_registry dv) sid" by (metis append_take_drop_id)
qed

lemma process_step_log:
  assumes "device_ok nb dv" and "process_step env dv dv'" and "held dv sid s" and "held dv' sid s'"
  shows "\<exists>new. device_log dv' sid = device_log dv sid @ new \<and> (new \<noteq> [] \<longrightarrow> se_state s = Active)"
  using assms(2)
proof cases
  case (step_call c)
  then have "sid \<notin> new_ids c" using assms(3) by (auto simp: never_used_def held_def)
  with device_call_log [OF assms(1,3)] assms(4) step_call(1) show ?thesis by blast
next
  case (step_take rg fl)
  then have "pending_events rg = pending_events (dv_registry dv)"
    by (auto simp: take_batch_def pending_events_def split: if_splits)
  with step_take show ?thesis by (simp add: device_log_def waiting_events_def)
next
  case (step_commit fl db)
  note h = held_flight [OF assms(1,3) step_commit(2)]
  from assms(1) step_commit(2) have b: "rows_ok (dv_db dv)" "batch_ok (jf_batch fl)"
    by (simp_all add: device_ok_def flight_ok_def Let_def)
  from commit_Inr(2) [OF step_commit(3) b, of sid] h step_commit(1,2) show ?thesis
    by (simp add: device_log_def waiting_events_def)
next
  case (step_settle fl)
  from assms(1) step_settle(2) have "batch_ok (jf_batch fl)" by (simp add: device_ok_def)
  then have "pending_events (batch_saved (dv_registry dv) fl) sid = drop (length (appended (jf_batch fl) sid)) (pending_events (dv_registry dv) sid)"
    using pending_splices(1) [of "jb_appends (jf_batch fl)"] by (simp add: batch_saved_def batch_ok_def appended_def)
  with step_settle show ?thesis by (simp add: device_log_def waiting_events_def)
next
  case (step_fail fl)
  then show ?thesis by (simp add: device_log_def waiting_events_def batch_failed_def pending_events_def)
qed

lemma stored_grows:
  assumes "device_ok nb dv" and "process_step env dv dv'" and "held dv sid s"
  shows "prefix (stored_rows (dv_db dv) sid) (stored_rows (dv_db dv') sid)"
  using assms(2)
proof cases
  case (step_commit fl db)
  from assms(1) step_commit(2) have b: "rows_ok (dv_db dv)" "batch_ok (jf_batch fl)"
    by (simp_all add: device_ok_def flight_ok_def Let_def)
  with commit_Inr(2) [OF step_commit(3) b, of sid] held_flight(1) [OF assms(1,3) step_commit(2)] step_commit(1)
  show ?thesis by simp
qed simp_all

text \<open>C3: Nothing a producer has recorded is lost or reordered while its process runs, and nothing it has
  saved is lost ever. In one step of a reachable device the log of a session that stays only grows
  at its end, and only while the session is active, however appends interleave with a save that is
  under way, completes or fails; after a restart the log still starts with all that was saved.\<close>

theorem recorded_events_kept:
  assumes "noble_ok (de_noble env)" and "op_journal (de_options env)" and "reachable_device env dv"
    and "device_step env dv dv'" and "held dv sid s" and "held dv' sid s'"
  shows "prefix (stored_rows (dv_db dv) sid) (device_log dv' sid)
     \<and> (process_step env dv dv' \<longrightarrow>
          (\<exists>new. device_log dv' sid = device_log dv sid @ new \<and> (new \<noteq> [] \<longrightarrow> se_state s = Active)))"
proof -
  note ok = reachable_device_ok [OF assms(1,2,3)]
  from assms(4) show ?thesis
  proof cases
    case step_process
    from stored_grows [OF ok step_process assms(5)] process_step_log [OF ok step_process assms(5,6)]
    show ?thesis by (auto simp: device_log_def prefix_def)
  next
    case step_restart
    then have "stored_rows (dv_db dv') sid = stored_rows (dv_db dv) sid" by simp
    then have "prefix (stored_rows (dv_db dv) sid) (device_log dv' sid)" by (simp add: device_log_def)
    with process_step_log [OF ok _ assms(5,6)] show ?thesis by blast
  qed
qed

section \<open>Retries reproduce the record\<close>

definition used_ok :: "device \<Rightarrow> bool" where
  "used_ok dv \<longleftrightarrow> (\<forall>sid. find_session (dv_registry dv) sid \<noteq> None \<longrightarrow> sid \<in> dv_used dv)
     \<and> (\<forall>sid. map_of (jd_sessions (dv_db dv)) sid \<noteq> None \<longrightarrow> sid \<in> dv_used dv)
     \<and> (\<forall>fl committed sid. dv_flight dv = Some (fl, committed) \<longrightarrow> batch_session (jf_batch fl) sid \<noteq> None \<longrightarrow> sid \<in> dv_used dv)"

lemma process_step_used:
  assumes "device_ok nb dv" and "process_step env dv dv'" and "used_ok dv"
  shows "used_ok dv'"
  using assms(2)
proof cases
  case (step_call c)
  obtain base pre gone cleared where ok: "registry_ok nb base pre gone cleared (dv_registry dv)"
    using device_registry_ok [OF assms(1)] by blast
  have "sid \<in> new_ids c \<or> find_session (dv_registry dv) sid \<noteq> None"
    if "find_session (call_registry env c (dv_registry dv)) sid \<noteq> None" for sid
    using call_evolves [OF ok, of c env] that unfolding registry_evolves_def by blast
  with step_call(1) assms(3) show ?thesis unfolding used_ok_def by simp blast
next
  case (step_take rg fl)
  then have rg: "find_session rg = find_session (dv_registry dv)" and fl: "jf_batch fl = batch_of (dv_registry dv)"
    by (auto simp: take_batch_def split: if_splits)
  from step_take(2) assms(1) have "registry_ok nb (stored_rows (dv_db dv)) (\<lambda>_. []) {} {} (dv_registry dv)"
    by (simp add: device_ok_def)
  from batch_of_facts(2) [OF this] rg fl step_take(1) assms(3) show ?thesis by (auto simp: used_ok_def split: if_splits)
next
  case (step_commit fl db)
  from assms(1) step_commit(2) have b: "rows_ok (dv_db dv)" "batch_ok (jf_batch fl)"
    by (simp_all add: device_ok_def flight_ok_def Let_def)
  from commit_Inr(3) [OF step_commit(3) b] step_commit(1,2) assms(3) show ?thesis
    by (auto simp: used_ok_def split: option.splits if_splits)
next
  case (step_settle fl)
  with assms(3) show ?thesis by (simp add: used_ok_def)
next
  case (step_fail fl)
  with assms(3) show ?thesis by (simp add: used_ok_def batch_failed_def)
qed

lemma reachable_used:
  assumes "noble_ok (de_noble env)" and "op_journal (de_options env)" and "reachable_device env dv"
  shows "used_ok dv"
  using assms(3)
proof induction
  case reachable_start
  show ?case by (simp add: used_ok_def start_device_def new_registry_def find_session_def empty_db_def)
next
  case (reachable_step dv dv')
  note ok = reachable_device_ok [OF assms(1,2) reachable_step.hyps(1)]
  from reachable_step.hyps(2) show ?case
  proof cases
    case step_process
    then show ?thesis by (rule process_step_used [OF ok _ reachable_step.IH])
  next
    case step_restart
    from ok have "metadata_ok (de_noble env) (dv_db dv)" by (simp add: device_ok_def)
    from restart_facts(1) [OF this refl] step_restart reachable_step.IH show ?thesis
      by (auto simp: used_ok_def)
  qed
qed

text \<open>From signing on, everything the record is made of is fixed.\<close>

definition sealed_as :: "device \<Rightarrow> jsstring \<Rightarrow> session \<Rightarrow> bool" where
  "sealed_as dv sid signed \<longleftrightarrow> sid \<in> dv_used dv \<and> (\<forall>s. held dv sid s \<longrightarrow>
     se_state s \<noteq> Active \<and> se_duration s \<noteq> None \<and> signed_parts s = signed_parts signed \<and> se_upload_id s = se_upload_id signed)"

lemma held_before:
  assumes "device_ok nb dv" and "process_step env dv dv'" and "sid \<in> dv_used dv" and "held dv' sid s'"
  shows "\<exists>s. held dv sid s \<and> evolves s s'"
proof -
  have same: ?thesis if "find_session (dv_registry dv') = find_session (dv_registry dv)"
    using assms(4) that by (intro exI [of _ s']) (simp add: held_def)
  from assms(2) show ?thesis
  proof cases
    case (step_call c)
    have fresh: "sid \<notin> new_ids c" using step_call(2) assms(3) by (auto simp: never_used_def)
    obtain base pre gone cleared where ok: "registry_ok nb base pre gone cleared (dv_registry dv)"
      using device_registry_ok [OF assms(1)] by blast
    from call_evolves [OF ok, of c env] fresh assms(4) step_call(1) obtain s where
      "find_session (dv_registry dv) sid = Some s" "evolves s s'" by (fastforce simp: registry_evolves_def held_def)
    then show ?thesis using assms(4) by (auto simp: held_def evolves_def)
  qed (rule same; auto simp: take_batch_def batch_failed_def split: if_splits)+
qed

lemma process_step_used_grows: "process_step env dv dv' \<Longrightarrow> dv_used dv \<subseteq> dv_used dv'"
  by (auto elim!: process_step_elim)

lemma sealed_step:
  assumes "device_ok nb dv" and "process_step env dv dv'" and "sealed_as dv sid signed" and "se_upload_id signed \<noteq> None"
  shows "sealed_as dv' sid signed"
proof -
  have used: "sid \<in> dv_used dv" using assms(3) by (simp add: sealed_as_def)
  have "se_state s' \<noteq> Active \<and> se_duration s' \<noteq> None \<and> signed_parts s' = signed_parts signed
      \<and> se_upload_id s' = se_upload_id signed" if s': "held dv' sid s'" for s'
  proof -
    obtain s where s: "held dv sid s" "evolves s s'" using held_before [OF assms(1,2) used s'] by blast
    with assms(3) have h: "se_state s \<noteq> Active" "se_duration s \<noteq> None" "signed_parts s = signed_parts signed"
      "se_upload_id s = se_upload_id signed" by (auto simp: sealed_as_def)
    from s(2) h s' assms(4) have p: "signed_parts s' = signed_parts signed" "se_upload_id s' = se_upload_id signed"
      by (auto simp: evolves_def held_def)
    moreover have "se_duration s' = se_duration s" using p(1) h(3) by (simp add: signed_parts_def)
    moreover have "se_state s' \<noteq> Active" using s(2) h(1) by (auto simp: evolves_def)
    ultimately show ?thesis using h(2) by simp
  qed
  with used process_step_used_grows [OF assms(2)] show ?thesis by (auto simp: sealed_as_def)
qed

lemma sealed_run:
  assumes "noble_ok (de_noble env)" and "op_journal (de_options env)" and "(process_step env)\<^sup>*\<^sup>* dv dv'"
    and "device_ok (de_noble env) dv" and "sealed_as dv sid signed" and "se_upload_id signed \<noteq> None"
  shows "device_ok (de_noble env) dv' \<and> sealed_as dv' sid signed
     \<and> (\<forall>s'. held dv' sid s' \<longrightarrow> device_log dv' sid = device_log dv sid)"
  using assms(3)
proof induction
  case base
  with assms(4,5) show ?case by simp
next
  case (step dv1 dv2)
  then have ok: "device_ok (de_noble env) dv1" and sealed: "sealed_as dv1 sid signed"
    and log: "held dv1 sid s \<Longrightarrow> device_log dv1 sid = device_log dv sid" for s by auto
  have "device_log dv2 sid = device_log dv sid" if h: "held dv2 sid s'" for s'
  proof -
    have used: "sid \<in> dv_used dv1" using sealed by (simp add: sealed_as_def)
    obtain s where s: "held dv1 sid s" using held_before [OF ok step.hyps(2) used h] by blast
    moreover have "se_state s \<noteq> Active" using sealed s by (simp add: sealed_as_def)
    ultimately show ?thesis using process_step_log [OF ok step.hyps(2) s h] log [OF s] by auto
  qed
  with process_step_ok [OF assms(1,2) step.hyps(2) ok] sealed_step [OF ok step.hyps(2) sealed assms(6)] show ?case by blast
qed

text \<open>The draft of a failed upload depends on the sealed parts alone.\<close>

lemma resigned_manifest:
  assumes "op_journal opts" and "build_draft parses toISO nb opts s b now = Inr (m, es)"
    and "signed_parts s2 = signed_parts (s\<lparr>se_version := mf_format_version m, se_binding := mf_text_binding m,
       se_duration := Some (mf_duration_ms m)\<rparr>)"
    and "se_state s2 = FailedUpload" and "build_draft parses toISO nb opts s2 b2 now2 = Inr (m2, es2)"
  shows "m2 = m \<and> es2 = es"
proof -
  let ?d = "signed_duration opts s now" and ?tb = "signed_binding s b"
  obtain h created where m: "m = draft_manifest opts s h ?tb ?d created"
    and h: "signed_hash nb opts s ?tb ?d = Inr (Some h)" "toISO (se_base s) = Some created" "es = []"
    using build_draft_manifest [OF assms(2)] assms(1) by auto
  obtain h2 created2 where m2: "m2 = draft_manifest opts s2 h2 (signed_binding s2 b2) (signed_duration opts s2 now2) created2"
    and h2: "signed_hash nb opts s2 (signed_binding s2 b2) (signed_duration opts s2 now2) = Inr (Some h2)"
      "toISO (se_base s2) = Some created2" "es2 = []"
    using build_draft_manifest [OF assms(5)] assms(1) by auto
  have parts: "se_id s2 = se_id s" "se_version s2 = signed_version opts s" "se_base s2 = se_base s"
    "se_producer s2 = se_producer s" "se_binding s2 = ?tb" "se_duration s2 = Some ?d"
    "se_event_count s2 = se_event_count s" "se_events s2 = se_events s" "se_tip s2 = se_tip s" "se_parent s2 = se_parent s"
    using assms(3) by (simp_all add: signed_parts_def m draft_manifest_def)
  have v: "signed_version opts s2 = signed_version opts s" "signed_binding s2 b2 = ?tb" "signed_duration opts s2 now2 = ?d"
    using parts assms(4) by (simp_all add: signed_version_def [of opts s2] signed_binding_def [of s2] signed_duration_def [of opts s2])
  have "signed_hash nb opts s2 ?tb ?d = signed_hash nb opts s ?tb ?d"
    using assms(1) by (simp add: signed_hash_def Let_def v parts)
  with h h2 v parts have "h2 = h" "created2 = created" by auto
  with h(3) h2(3) show ?thesis by (simp add: m m2 draft_manifest_def v parts sessionEventCount_def split: option.split)
qed

lemma sign_session_Inr:
  assumes "sign_session parses toISO nb opts rg sid binding now fresh = (rg', Inr d)" and "op_journal opts"
  shows "\<exists>s m u. find_session rg sid = Some s \<and> se_state s \<in> {Active, FailedUpload}
     \<and> build_draft parses toISO nb opts s binding now = Inr (m, sd_events d) \<and> sd_manifest d = m \<and> sd_upload_id d = Some u
     \<and> u = (case se_upload_id s of Some u \<Rightarrow> u | None \<Rightarrow> fresh)
     \<and> rg' = mark_dirty sid (put_session sid (s\<lparr>se_state := Signing, se_version := mf_format_version m,
         se_binding := mf_text_binding m, se_duration := Some (mf_duration_ms m), se_upload_id := Some u\<rparr>) rg)"
  using assms
  by (cases rule: sign_session_cases [of parses toISO nb opts rg sid binding now fresh]) (auto split: option.splits)

lemma sign_seals:
  assumes "noble_ok (de_noble env)" and "op_journal (de_options env)" and "reachable_device env dv"
    and "sign_session (de_parses env) (de_iso env) (de_noble env) (de_options env) (dv_registry dv) sid b now fresh = (rg, Inr d)"
  shows "\<exists>s s' m. build_draft (de_parses env) (de_iso env) (de_noble env) (de_options env) s b now = Inr (m, sd_events d)
     \<and> sd_manifest d = m \<and> sd_upload_id d = se_upload_id s' \<and> se_upload_id s' \<noteq> None
     \<and> signed_parts s' = signed_parts (s\<lparr>se_version := mf_format_version m, se_binding := mf_text_binding m,
         se_duration := Some (mf_duration_ms m)\<rparr>)
     \<and> device_ok (de_noble env) (dv\<lparr>dv_registry := rg\<rparr>) \<and> sealed_as (dv\<lparr>dv_registry := rg\<rparr>) sid s'
     \<and> device_log (dv\<lparr>dv_registry := rg\<rparr>) sid = device_log dv sid"
proof -
  note ok = reachable_device_ok [OF assms(1,2,3)]
  obtain s m u where s: "find_session (dv_registry dv) sid = Some s" "se_state s \<in> {Active, FailedUpload}"
    and draft: "build_draft (de_parses env) (de_iso env) (de_noble env) (de_options env) s b now = Inr (m, sd_events d)"
    and d: "sd_manifest d = m" "sd_upload_id d = Some u"
    and rg: "rg = mark_dirty sid (put_session sid (s\<lparr>se_state := Signing, se_version := mf_format_version m,
         se_binding := mf_text_binding m, se_duration := Some (mf_duration_ms m), se_upload_id := Some u\<rparr>) (dv_registry dv))"
    using sign_session_Inr [OF assms(4,2)] by blast
  define s' where "s' = s\<lparr>se_state := Signing, se_version := mf_format_version m,
         se_binding := mf_text_binding m, se_duration := Some (mf_duration_ms m), se_upload_id := Some u\<rparr>"
  have step: "process_step env dv (dv\<lparr>dv_registry := rg\<rparr>)"
    using step_call [of "CallSign sid b now fresh" dv env] assms(4) by simp
  have "held dv sid s" by (rule unfinished_held [OF ok s(1)]) (use s(2) in auto)
  then have "held (dv\<lparr>dv_registry := rg\<rparr>) sid t \<longleftrightarrow> t = s'" for t by (auto simp: held_def rg s'_def)
  then have "sealed_as (dv\<lparr>dv_registry := rg\<rparr>) sid s'"
    using reachable_used [OF assms(1,2,3)] s(1) unfolding sealed_as_def by (auto simp: used_ok_def s'_def)
  moreover have "device_log (dv\<lparr>dv_registry := rg\<rparr>) sid = device_log dv sid"
    by (simp add: device_log_def waiting_events_def rg split: option.splits)
  ultimately show ?thesis
    using draft d process_step_ok [OF assms(1,2) step ok]
    by (intro exI [of _ s] exI [of _ s'] exI [of _ m]) (simp add: s'_def signed_parts_def)
qed

text \<open>C13: A retry sends the same record again. When a session has been signed and, later in the same
  process, is signed again after its upload failed, with whatever binding is asked for, whatever the
  clock reads and whatever happened in between, the second draft has the same manifest, hence the same
  record hash, and the same upload identifier, and the log it goes with is the same.\<close>

theorem retry_reproduces_record:
  assumes "noble_ok (de_noble env)" and "op_journal (de_options env)" and "reachable_device env dv"
    and "sign_session (de_parses env) (de_iso env) (de_noble env) (de_options env) (dv_registry dv) sid b now fresh = (rg, Inr d)"
    and "(process_step env)\<^sup>*\<^sup>* (dv\<lparr>dv_registry := rg\<rparr>) dv2"
    and "sign_session (de_parses env) (de_iso env) (de_noble env) (de_options env) (dv_registry dv2) sid b2 now2 fresh2 = (rg2, Inr d2)"
  shows "d2 = d \<and> device_log dv2 sid = device_log dv sid"
proof -
  obtain s s' m where one: "build_draft (de_parses env) (de_iso env) (de_noble env) (de_options env) s b now = Inr (m, sd_events d)"
      "sd_manifest d = m" "sd_upload_id d = se_upload_id s'" "se_upload_id s' \<noteq> None"
      "signed_parts s' = signed_parts (s\<lparr>se_version := mf_format_version m, se_binding := mf_text_binding m,
         se_duration := Some (mf_duration_ms m)\<rparr>)"
    and ok1: "device_ok (de_noble env) (dv\<lparr>dv_registry := rg\<rparr>)" "sealed_as (dv\<lparr>dv_registry := rg\<rparr>) sid s'"
    and log1: "device_log (dv\<lparr>dv_registry := rg\<rparr>) sid = device_log dv sid"
    using sign_seals [OF assms(1-4)] by blast
  from sealed_run [OF assms(1,2,5) ok1 one(4)] have ok2: "device_ok (de_noble env) dv2" "sealed_as dv2 sid s'"
    and log2: "held dv2 sid t \<Longrightarrow> device_log dv2 sid = device_log (dv\<lparr>dv_registry := rg\<rparr>) sid" for t by auto
  obtain t m2 u where t: "find_session (dv_registry dv2) sid = Some t" "se_state t \<in> {Active, FailedUpload}"
    and two: "build_draft (de_parses env) (de_iso env) (de_noble env) (de_options env) t b2 now2 = Inr (m2, sd_events d2)"
      "sd_manifest d2 = m2" "sd_upload_id d2 = Some u" "u = (case se_upload_id t of Some u \<Rightarrow> u | None \<Rightarrow> fresh2)"
    using sign_session_Inr [OF assms(6,2)] by blast
  have h: "held dv2 sid t" by (rule unfinished_held [OF ok2(1) t(1)]) (use t(2) in auto)
  with ok2(2) t(2) have p: "se_state t = FailedUpload" "signed_parts t = signed_parts s'" "se_upload_id t = se_upload_id s'"
    by (auto simp: sealed_as_def)
  from resigned_manifest [OF assms(2) one(1) _ p(1) two(1)] one(5) p(2) have "m2 = m" "sd_events d2 = sd_events d" by auto
  with one two p(3) log1 log2 [OF h] show ?thesis by (cases d; cases d2) auto
qed

section \<open>A sample device\<close>

definition journal_options :: registry_options where
  "journal_options = sample_options\<lparr>op_checkpoint := False, op_signed_finish := False\<rparr>"

definition sample_env :: device_env where
  "sample_env = \<lparr>de_noble = sample_noble, de_parses = (\<lambda>_. True), de_iso = (\<lambda>_. Some (js ''now'')), de_options = journal_options\<rparr>"

definition sample_call :: "registry_call \<Rightarrow> device \<Rightarrow> device" where
  "sample_call c dv = dv\<lparr>dv_registry := call_registry sample_env c (dv_registry dv), dv_used := dv_used dv \<union> new_ids c\<rparr>"

definition sample_open :: device where
  "sample_open = sample_call
     (CallFindOrCreate sample_origin sample_field (js ''web'') False False None sample_session 10) start_device"

definition sample_typing :: registry_call where
  "sample_typing = CallAppend sample_session sample_pending None 20 20 (js ''u'')"

definition sample_device :: device where
  "sample_device = sample_call sample_typing sample_open"

definition sample_sign :: "device \<Rightarrow> int \<Rightarrow> registry \<times> (producer_error + signed_draft)" where
  "sample_sign dv now = sign_session (\<lambda>_. True) (\<lambda>_. Some (js ''now'')) sample_noble journal_options (dv_registry dv)
     sample_session None now (js ''u'')"

lemma sample_env_fields [simp]:
  "de_noble sample_env = sample_noble" "de_parses sample_env = (\<lambda>_. True)" "de_iso sample_env = (\<lambda>_. Some (js ''now''))"
  "de_options sample_env = journal_options" "op_journal journal_options"
  by (simp_all add: sample_env_def journal_options_def sample_options_def)

lemma sample_call_step: "new_ids c = {} \<Longrightarrow> process_step sample_env dv (sample_call c dv)"
  unfolding sample_call_def by (rule step_call) simp

lemma sample_device_reachable: "reachable_device sample_env sample_device"
proof -
  have "process_step sample_env start_device sample_open"
    unfolding sample_open_def sample_call_def
    by (rule step_call) (simp add: never_used_def start_device_def empty_db_def stored_rows_def new_registry_def find_session_def)
  then have r: "reachable_device sample_env sample_open" by (rule reachable_step [OF reachable_start step_process])
  have "process_step sample_env sample_open sample_device"
    unfolding sample_device_def by (rule sample_call_step) (simp add: sample_typing_def)
  then show ?thesis by (rule reachable_step [OF r step_process])
qed

lemma not_isl_pair: "\<not> isl (snd x) \<Longrightarrow> \<exists>rg d. x = (rg, Inr d)"
  by (cases x; cases "snd x") auto

lemma sample_signs:
  "\<exists>rg d. sample_sign sample_device 30 = (rg, Inr d)"
proof -
  have "\<not> isl (snd (sample_sign sample_device 30))" by code_simp
  then show ?thesis by (rule not_isl_pair)
qed

lemma signed_records_verify_witness:
  "\<exists>rg draft res. sample_sign sample_device 30 = (rg, Inr draft) \<and>
     verifyRecord (\<lambda>_. True) sample_noble \<lparr>wr_manifest = sd_manifest draft, wr_events = device_log sample_device sample_session\<rparr> = Inr res
     \<and> vr_valid res"
proof -
  obtain rg d where d: "sample_sign sample_device 30 = (rg, Inr d)" using sample_signs by blast
  with signed_records_verify [of sample_env sample_device sample_session None 30 "js ''u''" rg d]
    sample_noble_ok sample_device_reachable show ?thesis by (auto simp: sample_sign_def)
qed

lemma recorded_events_kept_witness:
  "\<exists>new. device_log (sample_call sample_typing sample_device) sample_session = device_log sample_device sample_session @ new"
proof -
  have s: "find_session (dv_registry sample_device) sample_session \<noteq> None
      \<and> \<not> se_anchor (the (find_session (dv_registry sample_device) sample_session))" by code_simp
  have s': "find_session (dv_registry (sample_call sample_typing sample_device)) sample_session \<noteq> None
      \<and> \<not> se_anchor (the (find_session (dv_registry (sample_call sample_typing sample_device)) sample_session))" by code_simp
  have step: "process_step sample_env sample_device (sample_call sample_typing sample_device)"
    by (rule sample_call_step) (simp add: sample_typing_def)
  from recorded_events_kept [of sample_env sample_device _ sample_session] step step_process [OF step] s s'
    sample_noble_ok sample_device_reachable show ?thesis by (fastforce simp: held_def)
qed

definition sample_retried :: device where
  "sample_retried = sample_call (CallFailed sample_session (js ''x'')) (sample_call (CallUploading sample_session)
     (sample_device\<lparr>dv_registry := fst (sample_sign sample_device 30)\<rparr>))"

lemma retry_reproduces_record_witness:
  "\<exists>rg rg2 d. sample_sign sample_device 30 = (rg, Inr d) \<and> sample_sign sample_retried 90 = (rg2, Inr d) \<and>
     device_log sample_retried sample_session = device_log sample_device sample_session"
proof -
  obtain rg d where d: "sample_sign sample_device 30 = (rg, Inr d)" using sample_signs by blast
  have "\<not> isl (snd (sample_sign sample_retried 90))" by code_simp
  then obtain rg2 d2 where d2: "sample_sign sample_retried 90 = (rg2, Inr d2)" using not_isl_pair by blast
  have "(process_step sample_env)\<^sup>*\<^sup>* (sample_device\<lparr>dv_registry := rg\<rparr>) sample_retried"
    unfolding sample_retried_def d fst_conv
    by (rule rtranclp.rtrancl_into_rtrancl [OF r_into_rtranclp]; rule sample_call_step; simp)
  from retry_reproduces_record [of sample_env sample_device sample_session None 30 "js ''u''" rg d sample_retried None 90 "js ''u''" rg2 d2]
    this d d2 sample_noble_ok sample_device_reachable show ?thesis by (auto simp: sample_sign_def)
qed

end
