(* ===== verification/Journal_Upload.thy ===== *)
theory Journal_Upload
  imports Complex_Main Session_Journal
begin

text \<open>
  Resumable publication from a journal (\<open>packages/browser-storage/src/upload.ts\<close>, with
  \<open>rate-limit.ts\<close>, \<open>upload-deadline.ts\<close> and \<open>upload-response.ts\<close> of the producer core). The network
  and the server are a channel: an arbitrary function from the state of the world and a request to
  the next state and an answer.
\<close>

section \<open>Requests and answers\<close>

text \<open>
  The three requests, by the path they are posted to; the observation is passed on as it is. An answer
  has a status, the \<open>retry-after\<close> header and a body, \<open>None\<close> when reading it as JSON throws.
\<close>

datatype 'o upload_call =
    PostBegin jsstring manifest 'o
  | PostChunk jsstring int event_log
  | PostFinalize jsstring

datatype http_answer = NoAnswer | DeadlinePassed | Answer int "jsstring option" "json option"

datatype client_error =
    RequestFailed
  | UploadTimedOut
  | BadTimeout
  | IngestUploadError int "jsstring option" jsstring
  | BadUploadIdentity
  | BadUploadCursor
  | JournalRead journal_error
  | JournalIncomplete
  | UnexpectedPrefix
  | BadUploadResponse
  | BadRecordLink

record url_parts =
  up_protocol :: jsstring
  up_username :: jsstring
  up_password :: jsstring

text \<open>
  The channel of an upload: the world's reaction to a request and to a pause of some milliseconds, the
  configured deadline, \<open>Number\<close> on a string where it is finite, and the URL parser.
\<close>

record ('w, 'o) channel =
  ch_send :: "'w \<Rightarrow> 'o upload_call \<Rightarrow> 'w \<times> http_answer"
  ch_wait :: "rat \<Rightarrow> 'w \<Rightarrow> 'w"
  ch_timeout :: jsnum
  ch_number :: "jsstring \<Rightarrow> rat option"
  ch_url :: "jsstring \<Rightarrow> url_parts option"

record 'o journal_upload =
  ju_upload_id :: jsstring
  ju_manifest :: manifest
  ju_observation :: 'o

section \<open>One request\<close>

definition MAX_RATE_LIMITED_RETRIES :: nat where "MAX_RATE_LIMITED_RETRIES = 10"

definition MAX_RETRY_AFTER_MS :: rat where "MAX_RETRY_AFTER_MS = 60000"

definition retryAfterMs :: "(jsstring \<Rightarrow> rat option) \<Rightarrow> jsstring option \<Rightarrow> rat" where
  "retryAfterMs number v = (if \<not> truthy v then 1000 else (case number (the v) of
      None \<Rightarrow> 1000
    | Some seconds \<Rightarrow> if 0 \<le> seconds then min MAX_RETRY_AFTER_MS (seconds * 1000) else 1000))"

fun json_truthy :: "json \<Rightarrow> bool" where
  "json_truthy JUndefined = False"
| "json_truthy JNull = False"
| "json_truthy (JBool b) = b"
| "json_truthy (JNum n) = (n \<noteq> JNaN \<and> \<not> num_eq n 0)"
| "json_truthy (JStr s) = (s \<noteq> [])"
| "json_truthy _ = True"

definition answer_ok :: "int \<Rightarrow> bool" where
  "answer_ok status \<longleftrightarrow> 200 \<le> status \<and> status \<le> 299"

definition rejected_upload :: "int \<Rightarrow> json \<Rightarrow> client_error" where
  "rejected_upload status body = (let code = (case field body ''error'' of JStr s \<Rightarrow> Some s | _ \<Rightarrow> None) in
     IngestUploadError status code (case code of Some s \<Rightarrow> s | None \<Rightarrow> js ''upload_failed_'' @ dec_int status))"

text \<open>What one attempt returns under its deadline: a wait the server asked for, or the body.\<close>

datatype attempt_result = RetryAfter "jsstring option" | Body json

fun post_answer :: "nat \<Rightarrow> http_answer \<Rightarrow> client_error + attempt_result" where
  "post_answer attempt NoAnswer = Inl RequestFailed"
| "post_answer attempt DeadlinePassed = Inl UploadTimedOut"
| "post_answer attempt (Answer status after body) =
     (if status = 429 \<and> attempt < MAX_RATE_LIMITED_RETRIES then Inr (RetryAfter after)
      else case body of None \<Rightarrow> Inl RequestFailed
        | Some v \<Rightarrow> guard (\<not> answer_ok status) (rejected_upload status v) (Inr (Body v)))"

definition withUploadDeadline ::
  "('w, 'o) channel \<Rightarrow> nat \<Rightarrow> 'o upload_call \<Rightarrow> 'w \<Rightarrow> 'w \<times> (client_error + attempt_result)" where
  "withUploadDeadline ch attempt c w =
     (if \<not> is_finite (ch_timeout ch) \<or> num_le (ch_timeout ch) 0 then (w, Inl BadTimeout)
      else case ch_send ch w c of (w1, a) \<Rightarrow> (w1, post_answer attempt a))"

text \<open>
  The loop over the attempts. A body that JavaScript takes for false is not returned: the loop waits as
  without a header and goes on, with no bound on the attempts.
\<close>

definition attempt_wait :: "('w, 'o) channel \<Rightarrow> attempt_result \<Rightarrow> rat option" where
  "attempt_wait ch r = (case r of RetryAfter after \<Rightarrow> Some (retryAfterMs (ch_number ch) after)
    | Body v \<Rightarrow> if json_truthy v then None else Some (retryAfterMs (ch_number ch) None))"

definition attempt_body :: "attempt_result \<Rightarrow> json" where
  "attempt_body r = (case r of Body v \<Rightarrow> v | RetryAfter _ \<Rightarrow> JUndefined)"

partial_function (option) post_from ::
  "('w, 'o) channel \<Rightarrow> 'o upload_call \<Rightarrow> nat \<Rightarrow> 'w \<Rightarrow> ('w \<times> (client_error + json)) option" where
  "post_from ch c attempt w = (case withUploadDeadline ch attempt c w of (w1, r) \<Rightarrow>
     (case r of Inl e \<Rightarrow> Some (w1, Inl e)
      | Inr a \<Rightarrow> (case attempt_wait ch a of
          None \<Rightarrow> Some (w1, Inr (attempt_body a))
        | Some ms \<Rightarrow> post_from ch c (Suc attempt) (ch_wait ch ms w1))))"

declare post_from.simps [code]

definition post_upload :: "('w, 'o) channel \<Rightarrow> 'o upload_call \<Rightarrow> 'w \<Rightarrow> ('w \<times> (client_error + json)) option" where
  "post_upload ch c w = post_from ch c 0 w"

definition then_post ::
  "('w \<times> ('e + 'a)) option \<Rightarrow> ('w \<Rightarrow> 'a \<Rightarrow> ('w \<times> ('e + 'b)) option) \<Rightarrow> ('w \<times> ('e + 'b)) option" where
  "then_post r f = (case r of None \<Rightarrow> None
    | Some (w, a) \<Rightarrow> (case a of Inl e \<Rightarrow> Some (w, Inl e) | Inr x \<Rightarrow> f w x))"

lemma then_post_simps [simp]:
  "then_post None f = None"
  "then_post (Some (w, Inl e)) f = Some (w, Inl e)"
  "then_post (Some (w, Inr x)) f = f w x"
  by (simp_all add: then_post_def)

section \<open>Validation of what the server says\<close>

definition is_object :: "json \<Rightarrow> bool" where
  "is_object v \<longleftrightarrow> (case v of JObj _ \<Rightarrow> True | JArr _ \<Rightarrow> True | _ \<Rightarrow> False)"

definition validateUploadResponse ::
  "(jsstring \<Rightarrow> url_parts option) \<Rightarrow> json \<Rightarrow> jsstring \<Rightarrow> client_error + upload_response" where
  "validateUploadResponse url v expected =
     guard (\<not> is_object v \<or> field v ''record_hash'' \<noteq> JStr expected) BadUploadResponse
     (case (field v ''short_signature'', field v ''url'', field v ''created'') of
        (JStr short, JStr link, JBool created) \<Rightarrow>
          guard (short = []) BadUploadResponse
          (case url link of None \<Rightarrow> Inl BadRecordLink
           | Some p \<Rightarrow> guard (up_protocol p \<notin> {js ''https:'', js ''http:''} \<or> up_username p \<noteq> [] \<or> up_password p \<noteq> []) BadRecordLink
               (Inr \<lparr>ur_record_hash = expected, ur_short_signature = short, ur_url = link, ur_created = created\<rparr>))
      | _ \<Rightarrow> Inl BadUploadResponse)"

definition validateCursor :: "'o journal_upload \<Rightarrow> json \<Rightarrow> int \<Rightarrow> client_error + int" where
  "validateCursor p status minimum = (case field status ''next_seq'' of
      JNum n \<Rightarrow> (case num_int n of
          Some cursor \<Rightarrow>
            guard (field status ''upload_id'' \<noteq> JStr (ju_upload_id p) \<or> \<bar>cursor\<bar> > 9007199254740991
                \<or> cursor < minimum \<or> cursor > mf_event_count (ju_manifest p)) BadUploadCursor (Inr cursor)
        | None \<Rightarrow> Inl BadUploadCursor)
    | _ \<Rightarrow> Inl BadUploadCursor)"

definition chunkSize :: "json \<Rightarrow> int" where
  "chunkSize begun = (case field begun ''max_chunk_events'' of
      JNum n \<Rightarrow> (case num_int n of Some k \<Rightarrow> if k > 0 then min 4096 k else 4096 | None \<Rightarrow> 4096)
    | _ \<Rightarrow> 4096)"

lemma chunkSize_bounds: "0 < chunkSize begun \<and> chunkSize begun \<le> 4096"
  by (auto simp: chunkSize_def split: json.split option.split)

section \<open>The upload\<close>

text \<open>The loop over the chunks, from the cursor the server has confirmed.\<close>

function send_chunks_from ::
  "('w, 'o) channel \<Rightarrow> (int \<Rightarrow> int \<Rightarrow> journal_error + event_log) \<Rightarrow> 'o journal_upload \<Rightarrow> json \<Rightarrow> int \<Rightarrow> 'w \<Rightarrow>
     ('w \<times> (client_error + unit)) option" where
  "send_chunks_from ch readEvents p begun cursor w =
     (if cursor < mf_event_count (ju_manifest p)
      then let n = min (chunkSize begun) (mf_event_count (ju_manifest p) - cursor) in
        (case readEvents cursor n of
           Inl e \<Rightarrow> Some (w, Inl (JournalRead e))
         | Inr es \<Rightarrow>
             if int (length es) \<noteq> n \<or> List.map ev_seq es \<noteq> List.map (\<lambda>i. cursor + int i) [0..<length es]
             then Some (w, Inl JournalIncomplete)
             else (case post_upload ch (PostChunk (ju_upload_id p) cursor es) w of
                 None \<Rightarrow> None
               | Some (w1, Inl e) \<Rightarrow> Some (w1, Inl e)
               | Some (w1, Inr next_status) \<Rightarrow>
                   (case validateCursor p next_status (cursor + int (length es)) of
                      Inl e \<Rightarrow> Some (w1, Inl e)
                    | Inr cursor' \<Rightarrow>
                        if cursor' \<noteq> cursor + int (length es) then Some (w1, Inl UnexpectedPrefix)
                        else send_chunks_from ch readEvents p begun cursor' w1)))
      else Some (w, Inr ()))"
  by pat_completeness auto
termination
proof (relation "measure (\<lambda>(ch, readEvents, p, begun, cursor, w). nat (mf_event_count (ju_manifest p) - cursor))", goal_cases)
  case (2 ch readEvents p begun cursor w n es)
  then show ?case using chunkSize_bounds [of begun] by (simp add: not_less min_def split: if_splits)
qed simp

declare send_chunks_from.simps [simp del]

definition uploadJournal ::
  "('w, 'o) channel \<Rightarrow> (int \<Rightarrow> int \<Rightarrow> journal_error + event_log) \<Rightarrow> 'o journal_upload \<Rightarrow> 'w \<Rightarrow>
     ('w \<times> (client_error + upload_response)) option" where
  "uploadJournal ch readEvents p w =
     then_post (post_upload ch (PostBegin (ju_upload_id p) (ju_manifest p) (ju_observation p)) w) (\<lambda>w1 begun.
       if field begun ''upload_id'' \<noteq> JStr (ju_upload_id p) then Some (w1, Inl BadUploadIdentity)
       else if json_truthy (field begun ''completed'')
       then Some (w1, validateUploadResponse (ch_url ch) (field begun ''completed'') (mf_record_hash (ju_manifest p)))
       else (case validateCursor p begun 0 of
           Inl e \<Rightarrow> Some (w1, Inl e)
         | Inr cursor \<Rightarrow> then_post (send_chunks_from ch readEvents p begun cursor w1) (\<lambda>w2 _.
             then_post (post_upload ch (PostFinalize (ju_upload_id p)) w2) (\<lambda>w3 v.
               Some (w3, validateUploadResponse (ch_url ch) v (mf_record_hash (ju_manifest p)))))))"

section \<open>Every upload ends\<close>

text \<open>The channel that also counts the requests sent.\<close>

definition counted :: "('w, 'o) channel \<Rightarrow> ('w \<times> nat, 'o) channel" where
  "counted ch = \<lparr>ch_send = (\<lambda>(w, n) c. case ch_send ch w c of (w1, a) \<Rightarrow> ((w1, Suc n), a)),
     ch_wait = (\<lambda>ms (w, n). (ch_wait ch ms w, n)), ch_timeout = ch_timeout ch,
     ch_number = ch_number ch, ch_url = ch_url ch\<rparr>"

text \<open>A successful answer never carries a body that JavaScript takes for false.\<close>

definition says_something :: "('w, 'o) channel \<Rightarrow> bool" where
  "says_something ch \<longleftrightarrow> (\<forall>w c status after v. snd (ch_send ch w c) = Answer status after (Some v) \<longrightarrow>
     answer_ok status \<longrightarrow> json_truthy v)"

lemma retryAfterMs_bounds: "0 \<le> retryAfterMs number v \<and> retryAfterMs number v \<le> 60000"
  by (auto simp: retryAfterMs_def MAX_RETRY_AFTER_MS_def split: option.split)

lemma post_answer_retries:
  "post_answer attempt a = Inr (RetryAfter h) \<Longrightarrow> attempt < MAX_RATE_LIMITED_RETRIES"
  by (cases a) (auto split: if_splits option.splits)

lemma post_answer_body:
  "post_answer attempt a = Inr (Body v) \<Longrightarrow> \<exists>status after. a = Answer status after (Some v) \<and> answer_ok status"
  by (cases a) (auto split: if_splits option.splits)

text \<open>One turn of the loop, by what the attempt returned.\<close>

lemma post_from_turn:
  "withUploadDeadline ch attempt c w = (w1, Inl e) \<Longrightarrow> post_from ch c attempt w = Some (w1, Inl e)"
  "withUploadDeadline ch attempt c w = (w1, Inr a) \<Longrightarrow> attempt_wait ch a = None \<Longrightarrow>
     post_from ch c attempt w = Some (w1, Inr (attempt_body a))"
  "withUploadDeadline ch attempt c w = (w1, Inr a) \<Longrightarrow> attempt_wait ch a = Some ms \<Longrightarrow>
     post_from ch c attempt w = post_from ch c (Suc attempt) (ch_wait ch ms w1)"
  by (subst post_from.simps; simp)+

lemma counted_attempt:
  assumes "withUploadDeadline (counted ch) attempt c (w, n) = ((w1, n1), r)"
  shows "n1 \<le> Suc n" and "says_something ch \<Longrightarrow> r = Inr a \<Longrightarrow> attempt_wait (counted ch) a = Some ms \<Longrightarrow>
    attempt < MAX_RATE_LIMITED_RETRIES"
proof -
  show "n1 \<le> Suc n" using assms by (auto simp: withUploadDeadline_def counted_def split: if_splits prod.splits)
  assume a: "says_something ch" "r = Inr a" "attempt_wait (counted ch) a = Some ms"
  with assms have p: "post_answer attempt (snd (ch_send ch w c)) = Inr a"
    by (auto simp: withUploadDeadline_def counted_def split: if_splits prod.splits)
  show "attempt < MAX_RATE_LIMITED_RETRIES"
  proof (cases a)
    case (Body v)
    with p a(1) have "json_truthy v" unfolding says_something_def by (metis post_answer_body)
    with Body a(3) show ?thesis by (simp add: attempt_wait_def)
  qed (use p in \<open>auto dest: post_answer_retries\<close>)
qed

lemma post_from_returns:
  assumes "says_something ch" and "attempt \<le> MAX_RATE_LIMITED_RETRIES"
  shows "\<exists>w' n' r. post_from (counted ch) c attempt (w, n) = Some ((w', n'), r)
     \<and> n' \<le> n + (Suc MAX_RATE_LIMITED_RETRIES - attempt)"
  using assms(2)
proof (induction "MAX_RATE_LIMITED_RETRIES - attempt" arbitrary: attempt w n rule: less_induct)
  case less
  obtain w1 n1 r where d: "withUploadDeadline (counted ch) attempt c (w, n) = ((w1, n1), r)" by (metis surj_pair)
  note one = counted_attempt [OF d]
  show ?case
  proof (cases "\<exists>a ms. r = Inr a \<and> attempt_wait (counted ch) a = Some ms")
    case True
    then obtain a ms where a: "r = Inr a" "attempt_wait (counted ch) a = Some ms" by blast
    have step: "post_from (counted ch) c attempt (w, n) = post_from (counted ch) c (Suc attempt) (ch_wait ch ms w1, n1)"
      using post_from_turn(3) [of "counted ch" attempt c "(w, n)" "(w1, n1)" a ms] d a by (simp add: counted_def)
    from one(2) [OF assms(1) a] less.hyps [of "Suc attempt" "ch_wait ch ms w1" n1] one(1)
    show ?thesis unfolding step by fastforce
  next
    case False
    have "\<exists>r'. post_from (counted ch) c attempt (w, n) = Some ((w1, n1), r')"
    proof (cases r)
      case (Inl e)
      from post_from_turn(1) [OF d [unfolded Inl]] show ?thesis by simp
    next
      case (Inr a)
      with False have "attempt_wait (counted ch) a = None" by (cases "attempt_wait (counted ch) a") auto
      with post_from_turn(2) [OF d [unfolded Inr]] show ?thesis by simp
    qed
    with one(1) less.prems show ?thesis by fastforce
  qed
qed

lemma post_returns:
  "says_something ch \<Longrightarrow> \<exists>w' n' r. post_upload (counted ch) c (w, n) = Some ((w', n'), r) \<and> n' \<le> n + 11"
  using post_from_returns [of ch 0 c w n] by (simp add: post_upload_def MAX_RATE_LIMITED_RETRIES_def)

lemma send_chunks_returns:
  assumes "says_something ch"
  shows "\<exists>w' n' r. send_chunks_from (counted ch) readEvents p begun cursor (w, n) = Some ((w', n'), r)
     \<and> n' \<le> n + 11 * nat (mf_event_count (ju_manifest p) - cursor)"
proof (induction "nat (mf_event_count (ju_manifest p) - cursor)" arbitrary: cursor w n rule: less_induct)
  case less
  let ?ec = "mf_event_count (ju_manifest p)" and ?n = "min (chunkSize begun) (mf_event_count (ju_manifest p) - cursor)"
  show ?case
  proof (cases "cursor < ?ec")
    case True
    show ?thesis
    proof (cases "readEvents cursor ?n")
      case (Inr es)
      show ?thesis
      proof (cases "int (length es) \<noteq> ?n \<or> List.map ev_seq es \<noteq> List.map (\<lambda>i. cursor + int i) [0..<length es]")
        case False
        then have page: "int (length es) = ?n" "List.map ev_seq es = List.map (\<lambda>i. cursor + int i) [0..<length es]" by auto
        have pos: "0 < ?n" using True chunkSize_bounds [of begun] by simp
        obtain w1 n1 r where post: "post_upload (counted ch) (PostChunk (ju_upload_id p) cursor es) (w, n) = Some ((w1, n1), r)"
          and n1: "n1 \<le> n + 11" using post_returns [OF assms] by blast
        have room: "11 + 11 * nat (?ec - (cursor + int (length es))) \<le> 11 * nat (?ec - cursor)"
          using pos page(1) by linarith
        have step: "send_chunks_from (counted ch) readEvents p begun cursor (w, n) =
            (case r of Inl e \<Rightarrow> Some ((w1, n1), Inl e)
             | Inr next_status \<Rightarrow> (case validateCursor p next_status (cursor + int (length es)) of
                 Inl e \<Rightarrow> Some ((w1, n1), Inl e)
               | Inr cursor' \<Rightarrow> if cursor' \<noteq> cursor + int (length es) then Some ((w1, n1), Inl UnexpectedPrefix)
                   else send_chunks_from (counted ch) readEvents p begun cursor' (w1, n1)))"
          using True Inr page by (subst send_chunks_from.simps) (simp add: post Let_def split: sum.split)
        have "nat (?ec - (cursor + int (length es))) < nat (?ec - cursor)" using True pos page(1) by linarith
        from less [OF this, of w1 n1] n1 room show ?thesis
          by (fastforce simp: step split: sum.split)
      qed (use True Inr in \<open>subst send_chunks_from.simps, simp add: Let_def\<close>)
    qed (use True in \<open>subst send_chunks_from.simps, simp add: Let_def\<close>)
  qed (subst send_chunks_from.simps, simp)
qed

text \<open>C15: An upload ends against every server that does not answer a request with success and a body that
  JavaScript takes for false. Whatever else the server answers and whatever the journal holds, \<open>uploadJournal\<close>
  then returns, with a response or an error, after at most eleven requests for the beginning, for the end and for
  each event, however often it is told to wait. (Such a body is asked for again without end,
  \<open>null_never_returns\<close> below.)\<close>

theorem upload_ends:
  assumes "says_something ch"
  shows "\<exists>w' n r. uploadJournal (counted ch) readEvents p (w, 0) = Some ((w', n), r)
     \<and> n \<le> 11 * (2 + nat (mf_event_count (ju_manifest p)))"
proof -
  let ?ec = "mf_event_count (ju_manifest p)" and ?ch = "counted ch"
  obtain w1 n1 r1 where b: "post_upload ?ch (PostBegin (ju_upload_id p) (ju_manifest p) (ju_observation p)) (w, 0) = Some ((w1, n1), r1)"
    and n1: "n1 \<le> 11" using post_returns [OF assms] by (metis add_0)
  show ?thesis
  proof (cases "\<exists>begun cursor. r1 = Inr begun \<and> field begun ''upload_id'' = JStr (ju_upload_id p)
      \<and> \<not> json_truthy (field begun ''completed'') \<and> validateCursor p begun 0 = Inr cursor")
    case True
    then obtain begun cursor where r1: "r1 = Inr begun" "field begun ''upload_id'' = JStr (ju_upload_id p)"
      "\<not> json_truthy (field begun ''completed'')" "validateCursor p begun 0 = Inr cursor" by blast
    obtain w2 n2 r2 where c: "send_chunks_from ?ch readEvents p begun cursor (w1, n1) = Some ((w2, n2), r2)"
      and n2: "n2 \<le> n1 + 11 * nat (?ec - cursor)" using send_chunks_returns [OF assms] by blast
    obtain w3 n3 r3 where f: "post_upload ?ch (PostFinalize (ju_upload_id p)) (w2, n2) = Some ((w3, n3), r3)"
      and n3: "n3 \<le> n2 + 11" using post_returns [OF assms] by blast
    have "0 \<le> cursor" using r1(4) by (auto simp: validateCursor_def split: json.splits option.splits)
    then have rest: "nat (?ec - cursor) \<le> nat ?ec" by simp
    have "n2 \<le> 11 * (1 + k)" if "nat (?ec - cursor) = j" "j \<le> k" for j k
      using n1 n2 that by simp
    from this [OF refl rest] have n2': "n2 \<le> 11 * (1 + nat ?ec)" .
    with n3 have "n3 \<le> 11 * (2 + nat ?ec)" by simp
    with n2' b r1 c f show ?thesis by (cases r2; cases r3) (auto simp: uploadJournal_def)
  next
    case False
    with b n1 show ?thesis by (cases r1) (auto simp: uploadJournal_def split: sum.splits)
  qed
qed

fun sample_answer_to :: "unit upload_call \<Rightarrow> json" where
  "sample_answer_to (PostBegin k m ob) = JObj [(js ''upload_id'', JStr k), (js ''next_seq'', JNum (JInt 0))]"
| "sample_answer_to (PostChunk k start es) = JObj [(js ''upload_id'', JStr k), (js ''next_seq'', JNum (JInt (start + int (length es))))]"
| "sample_answer_to (PostFinalize k) = JObj [(js ''record_hash'', JStr sample_hash), (js ''short_signature'', JStr (js ''ab'')),
     (js ''url'', JStr (js ''https:'')), (js ''created'', JBool True)]"

definition sample_channel :: "(unit, unit) channel" where
  "sample_channel = \<lparr>ch_send = (\<lambda>w c. (w, Answer 200 None (Some (sample_answer_to c)))), ch_wait = (\<lambda>ms w. w),
     ch_timeout = JInt 30000, ch_number = (\<lambda>_. None), ch_url = (\<lambda>s. Some \<lparr>up_protocol = s, up_username = [], up_password = []\<rparr>)\<rparr>"

definition sample_upload :: "unit journal_upload" where
  "sample_upload = \<lparr>ju_upload_id = sample_session, ju_manifest = wr_manifest sample_record, ju_observation = ()\<rparr>"

definition sample_pages :: "int \<Rightarrow> int \<Rightarrow> journal_error + event_log" where
  "sample_pages start limit = Inr (take (nat limit) (drop (nat start) (wr_events sample_record)))"

lemma upload_ends_witness:
  "\<exists>w n r. uploadJournal (counted sample_channel) sample_pages sample_upload ((), 0) = Some ((w, n), r) \<and> n \<le> 44"
proof -
  have "json_truthy (sample_answer_to c)" for c by (cases c) auto
  then have "says_something sample_channel" by (auto simp: says_something_def sample_channel_def)
  from upload_ends [OF this, of sample_pages sample_upload "()"] show ?thesis
    by (simp add: sample_upload_def sample_record_def)
qed

text \<open>A server that answers its requests with success and no more than \<open>null\<close> is asked forever.\<close>

lemma null_never_returns:
  assumes "\<And>w. \<exists>w' after. ch_send ch w c = (w', Answer 200 after (Some JNull))"
    and "is_finite (ch_timeout ch)" and "\<not> num_le (ch_timeout ch) 0"
  shows "post_upload ch c w = None"
proof -
  have "\<not> (ch = ch \<and> c = c)" if "post_from ch c 0 w = Some y" for y
    using that
  proof (rule post_from.raw_induct [where P = "\<lambda>ch' c' _ _ _. \<not> (ch' = ch \<and> c' = c)", rotated])
    fix f ch' c' attempt w y
    assume IH: "\<And>ch' c' attempt w y. f ch' c' attempt w = Some y \<Longrightarrow> \<not> (ch' = ch \<and> c' = c)"
      and body: "(case withUploadDeadline ch' attempt c' w of (w1, r) \<Rightarrow>
         (case r of Inl e \<Rightarrow> Some (w1, Inl e)
          | Inr a \<Rightarrow> (case attempt_wait ch' a of
              None \<Rightarrow> Some (w1, Inr (attempt_body a))
            | Some ms \<Rightarrow> f ch' c' (Suc attempt) (ch_wait ch' ms w1)))) = Some y"
    obtain w' after where s: "ch_send ch w c = (w', Answer 200 after (Some JNull))" using assms(1) by blast
    then have d: "withUploadDeadline ch attempt c w = (w', Inr (Body JNull))"
      using assms(2,3) by (simp add: withUploadDeadline_def answer_ok_def guard_def)
    have "attempt_wait ch (Body JNull) = Some 1000" by (simp add: attempt_wait_def retryAfterMs_def truthy_def)
    with IH body d show "\<not> (ch' = ch \<and> c' = c)" by fastforce
  qed
  then show ?thesis unfolding post_upload_def by (cases "post_from ch c 0 w") auto
qed

section \<open>Pages of a log\<close>

text \<open>
  What an upload needs from the journal: for each session a log numbered from zero, of which any page
  can be read. The journal in the database provides it, and so does a registry without journal.
\<close>

definition reads_pages :: "(int \<Rightarrow> int \<Rightarrow> 'e + event_log) \<Rightarrow> event_log \<Rightarrow> bool" where
  "reads_pages readEvents es \<longleftrightarrow> (\<forall>k n. 0 < n \<longrightarrow> n \<le> 4096 \<longrightarrow> k + n \<le> length es \<longrightarrow>
     readEvents (int k) (int n) = Inr (take n (drop k es))
     \<and> List.map ev_seq (take n (drop k es)) = List.map (\<lambda>i. int k + int i) [0..<n])"

locale paged_log =
  fixes keeps :: "'d \<Rightarrow> jsstring \<Rightarrow> event_log \<Rightarrow> bool"
    and page :: "'d \<Rightarrow> jsstring \<Rightarrow> int \<Rightarrow> int \<Rightarrow> 'e + event_log"
  assumes log_numbered: "keeps d sid es \<Longrightarrow> numbered es"
    and page_exact: "keeps d sid es \<Longrightarrow> \<not> bad_page start limit \<Longrightarrow>
      page d sid start limit = Inr (take (nat limit) (drop (nat start) es))"
begin

lemma page_of_log:
  assumes "keeps d sid es" and "k + n \<le> length es" and "0 < n" and "n \<le> 4096" and "k \<le> 9007199254740991"
  shows "page d sid (int k) (int n) = Inr (take n (drop k es))"
    and "length (take n (drop k es)) = n"
    and "List.map ev_seq (take n (drop k es)) = List.map (\<lambda>i. int k + int i) [0..<n]"
proof -
  have "\<not> bad_page (int k) (int n)"
    using assms(3-5) by (simp add: bad_page_def in_ms_range_def MAX_TIME_FIELD_VALUE_def)
  from page_exact [OF assms(1) this] show "page d sid (int k) (int n) = Inr (take n (drop k es))" by simp
  show len: "length (take n (drop k es)) = n" using assms(2) by simp
  have "ev_seq (es ! i) = int i" if "i < length es" for i
    using arg_cong [OF log_numbered [OF assms(1), unfolded numbered_def], of "\<lambda>xs. xs ! i"] that by simp
  then show "List.map ev_seq (take n (drop k es)) = List.map (\<lambda>i. int k + int i) [0..<n]"
    using assms(2) by (intro nth_equalityI) simp_all
qed

lemma keeps_reads:
  assumes "keeps d sid es" and "length es \<le> 9007199254740991"
  shows "reads_pages (page d sid) es"
  using page_of_log [OF assms(1)] assms(2) unfolding reads_pages_def by simp

end

definition journal_keeps :: "journal_db \<Rightarrow> jsstring \<Rightarrow> event_log \<Rightarrow> bool" where
  "journal_keeps db sid es \<longleftrightarrow> rows_ok db \<and> numbered es \<and> es = stored_rows db sid"

interpretation journal_pages: paged_log journal_keeps read_page
  by unfold_locales (simp_all add: journal_keeps_def read_page_exact)

definition memory_keeps :: "registry \<Rightarrow> jsstring \<Rightarrow> event_log \<Rightarrow> bool" where
  "memory_keeps rg sid es \<longleftrightarrow> numbered es \<and> (\<exists>s. find_session rg sid = Some s \<and> se_events s = es)"

interpretation memory_pages: paged_log memory_keeps readEvents_memory
  by unfold_locales (auto simp: memory_keeps_def readEvents_memory_def guard_def)

end
