(* ===== verification/Upload_Resumption.thy ===== *)
theory Upload_Resumption
  imports Journal_Upload Service_Soundness Chunked_Pages Signed_Records
begin

text \<open>
  The client of \<open>upload.ts\<close> against the interface of \<open>chunked-api.ts\<close>: an upload that is interrupted
  anywhere, any number of times, is continued and published with exactly the events of the journal.
\<close>

section \<open>An unreliable network\<close>

text \<open>What may happen to a request: its answer, or the request itself, is lost, or it is turned away.\<close>

datatype fault = Delivered | RequestLost | ReplyLost | RateLimited "jsstring option"

definition rate_limited_answer :: "jsstring option \<Rightarrow> http_answer" where
  "rate_limited_answer after = Answer 429 after (Some (JObj [(js ''error'', JStr (js ''rate_limited''))]))"

text \<open>The channel to a server through a network with the faults in the order of the requests.\<close>

fun deliver ::
  "('w \<Rightarrow> 'o upload_call \<Rightarrow> 'w \<times> http_answer) \<Rightarrow> 'w \<times> fault list \<Rightarrow> 'o upload_call \<Rightarrow> ('w \<times> fault list) \<times> http_answer" where
  "deliver srv (w, []) c = (case srv w c of (w', a) \<Rightarrow> ((w', []), a))"
| "deliver srv (w, Delivered # fs) c = (case srv w c of (w', a) \<Rightarrow> ((w', fs), a))"
| "deliver srv (w, RequestLost # fs) c = ((w, fs), NoAnswer)"
| "deliver srv (w, ReplyLost # fs) c = ((fst (srv w c), fs), NoAnswer)"
| "deliver srv (w, RateLimited after # fs) c = ((w, fs), rate_limited_answer after)"

definition unreliable ::
  "('w \<Rightarrow> 'o upload_call \<Rightarrow> 'w \<times> http_answer) \<Rightarrow> (jsstring \<Rightarrow> url_parts option) \<Rightarrow> ('w \<times> fault list, 'o) channel" where
  "unreliable srv link = \<lparr>ch_send = deliver srv, ch_wait = (\<lambda>ms w. w), ch_timeout = JInt 30000,
     ch_number = (\<lambda>_. None), ch_url = link\<rparr>"

lemma unreliable_attempt:
  "withUploadDeadline (unreliable srv link) attempt c s = (case deliver srv s c of (s1, a) \<Rightarrow> (s1, post_answer attempt a))"
  by (simp add: withUploadDeadline_def unreliable_def)

text \<open>One request to a server that answers it: it is served at most once, and an answer means served.\<close>

lemma unreliable_post:
  assumes "srv w c = (w', Answer status after (Some v))" and "answer_ok status" and "json_truthy v"
  shows "\<exists>x fs' r. post_from (unreliable srv link) c attempt (w, fs) = Some ((x, fs'), r) \<and> (x = w \<or> x = w')
     \<and> (\<forall>u. r = Inr u \<longrightarrow> u = v \<and> x = w') \<and> (fs = [] \<longrightarrow> r = Inr v \<and> fs' = [])"
proof (induction fs arbitrary: attempt)
  case Nil
  from assms have "status \<noteq> 429" by (auto simp: answer_ok_def)
  with assms show ?case
    using post_from_turn(2) [of "unreliable srv link" attempt c "(w, [])" "(w', [])" "Body v"]
    by (simp add: unreliable_attempt guard_def attempt_wait_def attempt_body_def)
next
  case (Cons f fs)
  from assms have ok: "status \<noteq> 429" by (auto simp: answer_ok_def)
  show ?case
  proof (cases f)
    case Delivered
    with assms ok show ?thesis
      using post_from_turn(2) [of "unreliable srv link" attempt c "(w, f # fs)" "(w', fs)" "Body v"]
      by (simp add: unreliable_attempt guard_def attempt_wait_def attempt_body_def)
  next
    case RequestLost
    then show ?thesis
      using post_from_turn(1) [of "unreliable srv link" attempt c "(w, f # fs)" "(w, fs)" RequestFailed]
      by (simp add: unreliable_attempt)
  next
    case ReplyLost
    with assms show ?thesis
      using post_from_turn(1) [of "unreliable srv link" attempt c "(w, f # fs)" "(w', fs)" RequestFailed]
      by (simp add: unreliable_attempt)
  next
    case (RateLimited h)
    show ?thesis
    proof (cases "attempt < MAX_RATE_LIMITED_RETRIES")
      case True
      have "post_from (unreliable srv link) c attempt (w, f # fs) = post_from (unreliable srv link) c (Suc attempt) (w, fs)"
        using post_from_turn(3) [of "unreliable srv link" attempt c "(w, f # fs)" "(w, fs)" "RetryAfter h"] RateLimited True
        by (simp add: unreliable_attempt rate_limited_answer_def attempt_wait_def) (simp add: unreliable_def)
      with Cons.IH [of "Suc attempt"] show ?thesis by auto
    next
      case False
      then show ?thesis
        using post_from_turn(1) [of "unreliable srv link" attempt c "(w, f # fs)" "(w, fs)"] RateLimited
        by (simp add: unreliable_attempt rate_limited_answer_def guard_def answer_ok_def)
    qed
  qed
qed

section \<open>A server that can be resumed\<close>

definition is_cursor :: "'o journal_upload \<Rightarrow> json \<Rightarrow> nat \<Rightarrow> bool" where
  "is_cursor p v n \<longleftrightarrow> field v ''upload_id'' = JStr (ju_upload_id p) \<and> field v ''next_seq'' = JNum (JInt (int n))"

lemma field_truthy: "field v k \<noteq> JUndefined \<Longrightarrow> json_truthy v"
  by (cases v) (simp_all add: field_def)

lemma is_cursor_truthy: "is_cursor p v n \<Longrightarrow> json_truthy v"
  by (auto simp: is_cursor_def intro!: field_truthy [of v "''upload_id''"])

lemma validateCursor_exact:
  assumes "is_cursor p v n" and "minimum \<le> int n" and "int n \<le> mf_event_count (ju_manifest p)"
    and "mf_event_count (ju_manifest p) \<le> 9007199254740991"
  shows "validateCursor p v minimum = Inr (int n)"
  using assms by (simp add: is_cursor_def validateCursor_def guard_def)

text \<open>
  The contract of the three requests, for an upload of a log that is in one of three stages: \<open>n\<close> events
  have arrived (\<open>stage\<close>), so also after it was begun in this state (\<open>ready\<close>), or it is \<open>finished\<close>.
\<close>

locale resumable_server =
  fixes srv :: "'c \<Rightarrow> 'w \<Rightarrow> 'o upload_call \<Rightarrow> 'w \<times> http_answer"
    and plan :: "'c \<Rightarrow> 'o journal_upload"
    and whole :: "'c \<Rightarrow> event_log"
    and link :: "'c \<Rightarrow> jsstring \<Rightarrow> url_parts option"
    and stage :: "'c \<Rightarrow> 'w \<Rightarrow> nat \<Rightarrow> bool"
    and ready :: "'c \<Rightarrow> 'w \<Rightarrow> nat \<Rightarrow> bool"
    and finished :: "'c \<Rightarrow> 'w \<Rightarrow> bool"
    and answers :: "'c \<Rightarrow> 'w \<Rightarrow> upload_response \<Rightarrow> bool"
  assumes ready_stage: "ready c w n \<Longrightarrow> stage c w n"
    and stage_bounds: "stage c w n \<Longrightarrow> mf_event_count (ju_manifest (plan c)) = int (length (whole c))
      \<and> n \<le> length (whole c) \<and> length (whole c) \<le> 9007199254740991"
    and begin_stage: "stage c w n \<Longrightarrow>
      \<exists>w' v. srv c w (PostBegin (ju_upload_id (plan c)) (ju_manifest (plan c)) (ju_observation (plan c))) = (w', Answer 200 None (Some v))
        \<and> ready c w' n \<and> is_cursor (plan c) v n \<and> \<not> json_truthy (field v ''completed'') \<and> chunkSize v = 4096"
    and begin_finished: "finished c w \<Longrightarrow>
      \<exists>w' v. srv c w (PostBegin (ju_upload_id (plan c)) (ju_manifest (plan c)) (ju_observation (plan c))) = (w', Answer 200 None (Some v))
        \<and> finished c w' \<and> field v ''upload_id'' = JStr (ju_upload_id (plan c)) \<and> json_truthy (field v ''completed'')
        \<and> (\<exists>resp. validateUploadResponse (link c) (field v ''completed'') (mf_record_hash (ju_manifest (plan c))) = Inr resp
             \<and> answers c w' resp)"
    and chunk_ready: "ready c w n \<Longrightarrow> n < length (whole c) \<Longrightarrow>
      \<exists>w' v. srv c w (PostChunk (ju_upload_id (plan c)) (int n) (take 4096 (drop n (whole c)))) = (w', Answer 200 None (Some v))
        \<and> ready c w' (min (n + 4096) (length (whole c))) \<and> is_cursor (plan c) v (min (n + 4096) (length (whole c)))"
    and finalize_ready: "ready c w (length (whole c)) \<Longrightarrow>
      \<exists>w' status v resp. srv c w (PostFinalize (ju_upload_id (plan c))) = (w', Answer status None (Some v)) \<and> answer_ok status
        \<and> finished c w' \<and> validateUploadResponse (link c) v (mf_record_hash (ju_manifest (plan c))) = Inr resp \<and> answers c w' resp"
begin

lemma chunks_arrive:
  assumes "reads_pages readEvents (whole c)" and "chunkSize answer0 = 4096" and "ready c w n"
  shows "\<exists>x fs' r. send_chunks_from (unreliable (srv c) (link c)) readEvents (plan c) answer0 (int n) (w, fs) = Some ((x, fs'), r)
     \<and> (\<exists>k. stage c x k) \<and> (r = Inr () \<longrightarrow> ready c x (length (whole c))) \<and> (fs = [] \<longrightarrow> r = Inr () \<and> fs' = [])"
  using assms(3)
proof (induction "length (whole c) - n" arbitrary: w n fs rule: less_induct)
  case less
  let ?ch = "unreliable (srv c) (link c)" and ?len = "length (whole c)"
  note bounds = stage_bounds [OF ready_stage [OF less.prems]]
  show ?case
  proof (cases "n < ?len")
    case False
    with bounds have "n = ?len" by simp
    with less.prems show ?thesis by (subst send_chunks_from.simps) (auto simp: bounds intro: ready_stage)
  next
    case True
    let ?n' = "min (n + 4096) ?len" and ?page = "take 4096 (drop n (whole c))"
    have count: "min (chunkSize answer0) (mf_event_count (ju_manifest (plan c)) - int n) = int (?n' - n)"
      using True bounds assms(2) by (simp add: min_def)
    have page: "take (?n' - n) (drop n (whole c)) = ?page" using True by (auto simp: min_def)
    have "0 < ?n' - n" "?n' - n \<le> 4096" "n + (?n' - n) \<le> ?len" using True by auto
    then have read: "readEvents (int n) (int (?n' - n)) = Inr ?page"
       "List.map ev_seq ?page = List.map (\<lambda>i. int n + int i) [0..<?n' - n]"
      using assms(1) unfolding reads_pages_def page [symmetric] by blast+
    have len: "length ?page = ?n' - n" using True by (simp add: min_def) linarith
    from chunk_ready [OF less.prems True] obtain w' v where
      srv: "srv c w (PostChunk (ju_upload_id (plan c)) (int n) ?page) = (w', Answer 200 None (Some v))"
      and ready': "ready c w' ?n'" and cur: "is_cursor (plan c) v ?n'" by blast
    from unreliable_post [where srv = "srv c" and link = "link c" and attempt = 0 and fs = fs, OF srv _ is_cursor_truthy [OF cur]]
    obtain x fs' r where
      post: "post_upload ?ch (PostChunk (ju_upload_id (plan c)) (int n) ?page) (w, fs) = Some ((x, fs'), r)"
      and x: "x = w \<or> x = w'" "\<And>u. r = Inr u \<Longrightarrow> u = v \<and> x = w'" "fs = [] \<Longrightarrow> r = Inr v \<and> fs' = []"
      by (auto simp: post_upload_def answer_ok_def)
    have next_cursor: "validateCursor (plan c) v (int n + int (length ?page)) = Inr (int ?n')"
      using True bounds len by (intro validateCursor_exact [OF cur]) auto
    have here: "int n < mf_event_count (ju_manifest (plan c))" "int n + int (length ?page) = int ?n'"
        "int n + int (?n' - n) = int ?n'"
      using True bounds len by auto
    have unfold: "send_chunks_from ?ch readEvents (plan c) answer0 (int n) (w, fs) =
        (case r of Inl e \<Rightarrow> Some ((x, fs'), Inl e)
         | Inr u \<Rightarrow> (case validateCursor (plan c) u (int ?n') of
               Inl e \<Rightarrow> Some ((x, fs'), Inl e)
             | Inr cursor' \<Rightarrow> if cursor' \<noteq> int ?n' then Some ((x, fs'), Inl UnexpectedPrefix)
                 else send_chunks_from ?ch readEvents (plan c) answer0 cursor' (x, fs')))"
      unfolding send_chunks_from.simps [of ?ch readEvents "plan c" answer0 "int n"] Let_def count
      by (simp only: here(1,3) if_True read(1) sum.case len read(2) post option.case prod.case simp_thms if_False)
    have step: "send_chunks_from ?ch readEvents (plan c) answer0 (int n) (w, fs) =
        (case r of Inl e \<Rightarrow> Some ((x, fs'), Inl e)
         | Inr u \<Rightarrow> send_chunks_from ?ch readEvents (plan c) answer0 (int ?n') (x, fs'))"
      unfolding unfold by (cases r) (use x(2) next_cursor here(2) in \<open>simp_all del: of_nat_min\<close>)
    show ?thesis
    proof (cases r)
      case (Inl e)
      with x less.prems ready' have "\<exists>k. stage c x k" by (auto intro: ready_stage)
      with Inl x(3) show ?thesis by (auto simp: step)
    next
      case (Inr u)
      from x(2) [OF Inr] have "x = w'" by simp
      with less.hyps [OF _ ready', of fs'] True Inr x(3) show ?thesis by (fastforce simp: step)
    qed
  qed
qed

lemma upload_attempt:
  assumes "reads_pages readEvents (whole c)" and "(\<exists>n. stage c w n) \<or> finished c w"
  shows "\<exists>x fs' r. uploadJournal (unreliable (srv c) (link c)) readEvents (plan c) (w, fs) = Some ((x, fs'), r)
     \<and> ((\<exists>n. stage c x n) \<or> finished c x) \<and> (\<forall>resp. r = Inr resp \<longrightarrow> finished c x \<and> answers c x resp)
     \<and> (fs = [] \<longrightarrow> fs' = [] \<and> (\<exists>resp. r = Inr resp))"
proof -
  let ?ch = "unreliable (srv c) (link c)" and ?p = "plan c"
  let ?first = "PostBegin (ju_upload_id ?p) (ju_manifest ?p) (ju_observation ?p)"
  have url: "ch_url ?ch = link c" by (simp add: unreliable_def)
  from assms(2) show ?thesis
  proof
    assume "finished c w"
    from begin_finished [OF this] obtain w' v resp where
      srv: "srv c w ?first = (w', Answer 200 None (Some v))" and fin: "finished c w'"
      and v: "field v ''upload_id'' = JStr (ju_upload_id ?p)" "json_truthy (field v ''completed'')"
        "validateUploadResponse (link c) (field v ''completed'') (mf_record_hash (ju_manifest ?p)) = Inr resp" "answers c w' resp" by blast
    have "json_truthy v" using v(1) by (intro field_truthy [of v "''upload_id''"]) simp
    from unreliable_post [where srv = "srv c" and link = "link c" and attempt = 0 and fs = fs, OF srv _ this] obtain x fs' r where
      post: "post_upload ?ch ?first (w, fs) = Some ((x, fs'), r)"
      and x: "x = w \<or> x = w'" "\<And>u. r = Inr u \<Longrightarrow> u = v \<and> x = w'" "fs = [] \<Longrightarrow> r = Inr v \<and> fs' = []"
      by (auto simp: post_upload_def answer_ok_def)
    with fin v assms(2) \<open>finished c w\<close> show ?thesis by (cases r) (auto simp: uploadJournal_def url)
  next
    assume "\<exists>n. stage c w n"
    then obtain n where st: "stage c w n" by blast
    note bounds = stage_bounds [OF st]
    from begin_stage [OF st] obtain w' v where
      srv: "srv c w ?first = (w', Answer 200 None (Some v))" and ready: "ready c w' n"
      and v: "is_cursor ?p v n" "\<not> json_truthy (field v ''completed'')" "chunkSize v = 4096" by blast
    from unreliable_post [where srv = "srv c" and link = "link c" and attempt = 0 and fs = fs, OF srv _ is_cursor_truthy [OF v(1)]] obtain x fs' r where
      post: "post_upload ?ch ?first (w, fs) = Some ((x, fs'), r)"
      and x: "x = w \<or> x = w'" "\<And>u. r = Inr u \<Longrightarrow> u = v \<and> x = w'" "fs = [] \<Longrightarrow> r = Inr v \<and> fs' = []"
      by (auto simp: post_upload_def answer_ok_def)
    show ?thesis
    proof (cases r)
      case (Inl e)
      with x st ready have "\<exists>n. stage c x n" by (auto intro: ready_stage)
      with post Inl x(3) show ?thesis by (auto simp: uploadJournal_def)
    next
      case (Inr u)
      with x(2) have u: "r = Inr v" "x = w'" by auto
      from chunks_arrive [OF assms(1) v(3) ready, of fs'] obtain x2 fs2 r2 where
        chunks: "send_chunks_from ?ch readEvents ?p v (int n) (w', fs') = Some ((x2, fs2), r2)"
        and x2: "\<exists>k. stage c x2 k" "r2 = Inr () \<Longrightarrow> ready c x2 (length (whole c))" "fs' = [] \<Longrightarrow> r2 = Inr () \<and> fs2 = []" by blast
      have cursor: "validateCursor ?p v 0 = Inr (int n)" using bounds by (intro validateCursor_exact [OF v(1)]) auto
      have after_begin: "uploadJournal ?ch readEvents ?p (w, fs) = then_post (Some ((x2, fs2), r2)) (\<lambda>w2 _.
          then_post (post_upload ?ch (PostFinalize (ju_upload_id ?p)) w2) (\<lambda>w3 v.
            Some (w3, validateUploadResponse (link c) v (mf_record_hash (ju_manifest ?p)))))"
        using v(1,2) by (simp add: uploadJournal_def post u cursor chunks url is_cursor_def)
      show ?thesis
      proof (cases r2)
        case (Inl e)
        with x2 x(3) show ?thesis by (auto simp: after_begin)
      next
        case (Inr unit)
        from finalize_ready [OF x2(2)] Inr obtain w3 status v3 resp where
          srv3: "srv c x2 (PostFinalize (ju_upload_id ?p)) = (w3, Answer status None (Some v3))" "answer_ok status"
          and fin: "finished c w3" "validateUploadResponse (link c) v3 (mf_record_hash (ju_manifest ?p)) = Inr resp" "answers c w3 resp" by auto
        have "json_truthy v3" using fin(2) by (cases v3) (auto simp: validateUploadResponse_def is_object_def)
        from unreliable_post [where srv = "srv c" and link = "link c" and attempt = 0 and fs = fs2, OF srv3 this] obtain x3 fs3 r3 where
          post3: "post_upload ?ch (PostFinalize (ju_upload_id ?p)) (x2, fs2) = Some ((x3, fs3), r3)"
          and x3: "x3 = x2 \<or> x3 = w3" "\<And>u. r3 = Inr u \<Longrightarrow> u = v3 \<and> x3 = w3" "fs2 = [] \<Longrightarrow> r3 = Inr v3 \<and> fs3 = []"
          by (auto simp: post_upload_def)
        show ?thesis using x(3) x2 x3 fin Inr by (cases r3) (auto simp: after_begin post3)
      qed
    qed
  qed
qed

end

section \<open>The interface as a server\<close>

text \<open>
  The route of the three requests. What is not an error of the interface is thrown on and answered
  with 500. The details of an error are left out: the client reads its code only.
\<close>

definition reply_json :: "jsstring \<Rightarrow> publish_reply \<Rightarrow> json" where
  "reply_json base r = JObj [(js ''record_hash'', JStr (rp_record_hash r)), (js ''short_signature'', JStr (rp_short_signature r)),
     (js ''created'', JBool (rp_created r)), (js ''url'', JStr (base @ js ''/'' @ rp_short_signature r))]"

definition progress_fields :: "jsstring \<Rightarrow> int \<Rightarrow> (jsstring \<times> json) list" where
  "progress_fields k n = [(js ''upload_id'', JStr k), (js ''next_seq'', JNum (JInt n)),
     (js ''max_chunk_events'', JNum (JInt (int MAX_EVENT_CHUNK)))]"

definition status_json :: "jsstring \<Rightarrow> status_view \<Rightarrow> json" where
  "status_json base v = JObj (progress_fields (sv_upload_id v) (sv_next_seq v)
     @ (case sv_completed v of None \<Rightarrow> [] | Some r \<Rightarrow> [(js ''completed'', reply_json base r)]))"

definition internal_error :: http_answer where
  "internal_error = Answer 500 None (Some (JObj [(js ''error'', JStr (js ''internal_server_error''))]))"

definition refusal :: "upload_error \<Rightarrow> http_answer" where
  "refusal e = (case e of UploadError status code \<Rightarrow> Answer status None (Some (JObj [(js ''error'', JStr (js code))]))
    | _ \<Rightarrow> internal_error)"

fun route_upload ::
  "noble \<Rightarrow> api_options \<Rightarrow> jsstring \<Rightarrow> record_store \<Rightarrow> upload_observation option upload_call \<Rightarrow> record_store \<times> http_answer" where
  "route_upload nb op base st (PostBegin k m obs) = (case api_begin op st k m obs of
      Inl e \<Rightarrow> (st, refusal e)
    | Inr (st', v) \<Rightarrow> (st', Answer 200 None (Some (status_json base v))))"
| "route_upload nb op base st (PostChunk k start es) = (case api_append nb op st k start es of
      Inl e \<Rightarrow> (st, refusal e)
    | Inr (st', n) \<Rightarrow> (st', Answer 200 None (Some (JObj (progress_fields k n)))))"
| "route_upload nb op base st (PostFinalize k) = (case api_finalize nb op st k of
      Inl (ApiUpload e) \<Rightarrow> (st, refusal e)
    | Inl (ApiSignature e) \<Rightarrow> (st, internal_error)
    | Inr (st', r) \<Rightarrow> (st', Answer (if rp_created r then 201 else 200) None (Some (reply_json base r))))"

section \<open>Uploads that the interface accepts\<close>

text \<open>The chunks in which the client sends a log to this interface.\<close>

definition chunk_list :: "event_log \<Rightarrow> event_log list" where
  "chunk_list es = List.map (\<lambda>j. take 4096 (drop (4096 * j) es)) [0..<(length es + 4095) div 4096]"

lemma chunk_list_length [simp]: "length (chunk_list es) = (length es + 4095) div 4096"
  by (simp add: chunk_list_def)

lemma concat_chunk_list: "j \<le> length (chunk_list es) \<Longrightarrow> concat (take j (chunk_list es)) = take (4096 * j) es"
proof (induction j)
  case (Suc j)
  then have "take (Suc j) (chunk_list es) = take j (chunk_list es) @ [take 4096 (drop (4096 * j) es)]"
    by (simp add: take_Suc_conv_app_nth) (simp add: chunk_list_def)
  with Suc show ?case by (simp add: take_add add.commute [of 4096])
qed simp

record publication =
  pc_noble :: noble
  pc_api :: api_options
  pc_base :: jsstring
  pc_link :: "jsstring \<Rightarrow> url_parts option"
  pc_store :: record_store
  pc_id :: jsstring
  pc_manifest :: manifest
  pc_observation :: "upload_observation option"
  pc_log :: event_log

definition pc_plan :: "publication \<Rightarrow> upload_observation option journal_upload" where
  "pc_plan c = \<lparr>ju_upload_id = pc_id c, ju_manifest = pc_manifest c, ju_observation = pc_observation c\<rparr>"

definition pc_serve :: "publication \<Rightarrow> record_store \<Rightarrow> upload_observation option upload_call \<Rightarrow> record_store \<times> http_answer" where
  "pc_serve c = route_upload (pc_noble c) (pc_api c) (pc_base c)"

abbreviation pc_hash :: "publication \<Rightarrow> jsstring" where
  "pc_hash c \<equiv> mf_record_hash (pc_manifest c)"

abbreviation pc_start :: "publication \<Rightarrow> upload_state" where
  "pc_start c \<equiv> begun (pc_api c) (pc_store c) (pc_id c) (pc_manifest c) (pc_observation c)"

definition good_link :: "(jsstring \<Rightarrow> url_parts option) \<Rightarrow> jsstring \<Rightarrow> bool" where
  "good_link link url \<longleftrightarrow> (\<exists>p. link url = Some p \<and> up_protocol p \<in> {js ''https:'', js ''http:''} \<and> up_username p = [] \<and> up_password p = [])"

text \<open>
  A fresh upload within the limits of the interface, whose observation the interface can give; and of a verified record.
  The producers always ask for an observation: as unobserved, or bound to the session whose checkpoints they had saved.
\<close>

definition within_limits :: "publication \<Rightarrow> bool" where
  "within_limits c \<longleftrightarrow> (let nb = pc_noble c; op = pc_api c; st = pc_store c; m = pc_manifest c; es = pc_log c in
     noble_ok nb \<and> rank_ok (op_rank op) \<and> map_of (cs_uploads (rst_chunked st)) (pc_id c) = None \<and> may_begin op st (pc_id c) m
     \<and> chunks_accepted op (pc_start c) 0 [] (chunk_list es)
     \<and> (\<exists>stats signals. published_data op (start_of st m) m es = Inr (stats, signals) \<and> assertStats stats = Inr ())
     \<and> observable nb st m es (pc_observation c)
     \<and> unknown_hash st (mf_record_hash m) \<and> 0 < op_initial_length op
     \<and> (\<exists>signature. generateShortSignature nb (findByShortSignature st) (mf_record_hash m) (op_initial_length op) = Inr signature
          \<and> good_link (pc_link c) (pc_base c @ js ''/'' @ signature)))"

definition publishable :: "publication \<Rightarrow> bool" where
  "publishable c \<longleftrightarrow> within_limits c
     \<and> record_ok (op_parses (pc_api c)) (pc_noble c) \<lparr>wr_manifest = pc_manifest c, wr_events = pc_log c\<rparr>"

definition pc_ready :: "publication \<Rightarrow> record_store \<Rightarrow> nat \<Rightarrow> bool" where
  "pc_ready c st n \<longleftrightarrow> publishable c \<and> same_records (pc_store c) st
     \<and> (\<exists>j bytes. j \<le> length (chunk_list (pc_log c)) \<and> n = length (take (4096 * j) (pc_log c))
          \<and> upload_holds (pc_noble c) (op_idle (pc_api c)) (pc_start c) (rst_chunked st) (pc_id c) bytes (take j (chunk_list (pc_log c)))
          \<and> chunks_accepted (pc_api c) (pc_start c) bytes (take (4096 * j) (pc_log c)) (drop j (chunk_list (pc_log c))))"

definition pc_stage :: "publication \<Rightarrow> record_store \<Rightarrow> nat \<Rightarrow> bool" where
  "pc_stage c st n \<longleftrightarrow> publishable c \<and> (n = 0 \<and> st = pc_store c \<or> pc_ready c st n)"

text \<open>The record is published, with the log as its events, and the upload can still be asked about.\<close>

definition pc_finished :: "publication \<Rightarrow> record_store \<Rightarrow> bool" where
  "pc_finished c st \<longleftrightarrow> publishable c
     \<and> (\<exists>r u. findByRecordHash st (pc_hash c) = Some r \<and> sr_manifest r = us_manifest (pc_start c) \<and> held_events st r (pc_log c)
          \<and> sr_observation r = observation_stored (op_now (pc_api c)) (pc_store c) (pc_log c) (pc_observation c)
          \<and> sr_short_signature r \<noteq> [] \<and> good_link (pc_link c) (pc_base c @ js ''/'' @ sr_short_signature r)
          \<and> owns st (pc_id c) u \<and> us_manifest u = us_manifest (pc_start c))
     \<and> (truthy (mf_parent_record (pc_manifest c)) \<longrightarrow> recordExists st (the (mf_parent_record (pc_manifest c))))"

lemma publishable_facts:
  assumes "publishable c"
  shows "noble_ok (pc_noble c)" "isUuid (pc_id c)" "isUuid (mf_session_id (pc_manifest c))" "is_hash_id (pc_hash c)" "is_b3_hash (pc_hash c)"
    "mf_event_count (pc_manifest c) = int (length (pc_log c))" "pc_log c \<noteq> []" "length (pc_log c) \<le> 9007199254740991"
    "may_begin (pc_api c) (pc_store c) (pc_id c) (pc_manifest c)"
    "map_of (cs_uploads (rst_chunked (pc_store c))) (pc_id c) = None" "valid_log (pc_log c)"
proof -
  note p = assms [unfolded publishable_def within_limits_def Let_def]
  show "noble_ok (pc_noble c)" "map_of (cs_uploads (rst_chunked (pc_store c))) (pc_id c) = None" using p by simp_all
  show may: "may_begin (pc_api c) (pc_store c) (pc_id c) (pc_manifest c)" using p by simp
  then show "isUuid (pc_id c)" by (simp add: may_begin_def)
  from may have "manifest_ok (pc_manifest c)" using validateManifest_ok by (auto simp: may_begin_def)
  then show "isUuid (mf_session_id (pc_manifest c))" "is_hash_id (pc_hash c)" "is_b3_hash (pc_hash c)"
    and "length (pc_log c) \<le> 9007199254740991"
    using p by (auto simp: manifest_ok_def is_b3_hash_def is_hash_id_def record_ok_def Let_def in_int_range_def MAX_INTEGER_FIELD_VALUE_def)
  show "mf_event_count (pc_manifest c) = int (length (pc_log c))" "pc_log c \<noteq> []" "valid_log (pc_log c)"
    using p by (simp_all add: record_ok_def Let_def)
qed

section \<open>The interface keeps the contract\<close>

text \<open>Beginning an upload again finds it as it was.\<close>

lemma begin_again:
  assumes "may_begin op st0 k m" and "truthy (mf_parent_record m) \<Longrightarrow> recordExists st (the (mf_parent_record m))"
    and "map_of (cs_uploads (rst_chunked st)) k = Some u" and "us_manifest u = m\<lparr>mf_ingested_server_t := t\<rparr>"
    and "truthy (us_finalized u) \<or> us_observation u = obs"
  shows "\<exists>st'. api_begin op st k m obs = Inr (st', statusView st' u) \<and>
     st' = set_chunked ((rst_chunked st)\<lparr>cs_uploads := AList.update k u (cs_uploads (rst_chunked st))\<rparr>) st"
proof -
  have state: "\<exists>u1. begin_state op k m obs start = Inr u1 \<and> us_upload_id u1 = k \<and> us_observation u1 = obs
      \<and> us_manifest u1 = m\<lparr>mf_ingested_server_t := Some (now_iso (op_now op))\<rparr>" for start
    using assms(1) create_measurement [of "op_idle op" "no_options\<lparr>ao_start := Some start\<rparr>"]
    by (simp add: begin_state_def may_begin_def guard_def)
  then obtain u1 where u1: "begin_state op k m obs (startingLength m
         (if truthy (mf_parent_record m) then finalLength st (the (mf_parent_record m)) else None)) = Inr u1"
     "us_upload_id u1 = k" "us_observation u1 = obs" "us_manifest u1 = m\<lparr>mf_ingested_server_t := Some (now_iso (op_now op))\<rparr>" by blast
  have same: "same_manifest (us_manifest u) (us_manifest u1)" by (simp add: same_manifest_def assms(4) u1(4))
  have keep: "u\<lparr>us_observation := obs\<rparr> = u" if "\<not> truthy (us_finalized u)" using assms(5) that by (cases u) simp
  have "store_begin (rst_chunked st) u1 = Inr ((rst_chunked st)\<lparr>cs_uploads := AList.update k u (cs_uploads (rst_chunked st))\<rparr>, u)"
    using same keep by (cases "truthy (us_finalized u)") (simp_all add: store_begin_def u1(2,3) assms(3) guard_def Let_def)
  with assms(1,2) u1(1) show ?thesis by (auto simp: api_begin_def may_begin_def guard_def)
qed

lemma recordExists_same:
  assumes "same_records a b"
  shows "recordExists b = recordExists a"
proof -
  from assms have e: "cs_completed (rst_chunked b) = cs_completed (rst_chunked a)" "rst_by_hash b = rst_by_hash a" "rst_by_short b = rst_by_short a"
    by (simp_all add: same_records_def)
  show ?thesis unfolding recordExists_def findCompleted_def fun_eq_iff e by simp
qed

lemma unknown_not_found: "unknown_hash st h \<Longrightarrow> is_hash_id h \<Longrightarrow> findByRecordHash st h = None"
  by (simp add: unknown_hash_def findByShortSignatureOrHash_def)

lemma status_open:
  assumes "publishable c" and "same_records (pc_store c) st" and "us_manifest u = us_manifest (pc_start c)"
  shows "sv_completed (statusView st u) = None"
proof -
  have "unknown_hash st (pc_hash c)"
    using assms(1) unknown_hash_same(1) [OF assms(2)] by (simp add: publishable_def within_limits_def Let_def)
  from unknown_not_found [OF this] publishable_facts(4) [OF assms(1)] assms(3) show ?thesis by (simp add: statusView_def)
qed

lemma status_json_open:
  assumes "sv_completed v = None" and "sv_upload_id v = pc_id c" and "sv_next_seq v = int n"
  shows "is_cursor (pc_plan c) (status_json base v) n" "\<not> json_truthy (field (status_json base v) ''completed'')"
    "chunkSize (status_json base v) = 4096"
  by (simp_all add: is_cursor_def status_json_def progress_fields_def field_def pc_plan_def assms chunkSize_def MAX_EVENT_CHUNK_def)

lemma pc_begin_stage:
  assumes "pc_stage c st n"
  shows "\<exists>st' v. pc_serve c st (PostBegin (pc_id c) (pc_manifest c) (pc_observation c)) = (st', Answer 200 None (Some v)) \<and> pc_ready c st' n
     \<and> is_cursor (pc_plan c) v n \<and> \<not> json_truthy (field v ''completed'') \<and> chunkSize v = 4096"
proof -
  let ?op = "pc_api c" and ?k = "pc_id c" and ?m = "pc_manifest c" and ?nb = "pc_noble c"
  have pub: "publishable c" using assms by (simp add: pc_stage_def)
  note f = publishable_facts [OF pub]
  have "\<exists>st' u. api_begin ?op st ?k ?m (pc_observation c) = Inr (st', statusView st' u) \<and> pc_ready c st' n
     \<and> us_manifest u = us_manifest (pc_start c) \<and> us_upload_id u = ?k \<and> us_next_seq u = int n"
  proof (cases "pc_ready c st n")
    case False
    with assms have st: "st = pc_store c" "n = 0" by (simp_all add: pc_stage_def)
    from api_begin_fresh(1) [OF f(10)] f(9) obtain s where s: "api_begin ?op (pc_store c) ?k ?m (pc_observation c) = Inr s" by blast
    note b = api_begin_fresh(2) [OF f(10) s, of ?nb]
    have "upload_holds ?nb (op_idle ?op) (pc_start c) (rst_chunked (fst s)) ?k 0 (take 0 (chunk_list (pc_log c)))"
      using b by simp
    moreover have "chunks_accepted ?op (pc_start c) 0 (take (4096 * 0) (pc_log c)) (drop 0 (chunk_list (pc_log c)))"
      using pub by (simp add: publishable_def within_limits_def Let_def)
    ultimately have "pc_ready c (fst s) 0"
      unfolding pc_ready_def using pub b by (intro conjI exI [of _ 0]) simp_all
    moreover have "snd s = statusView (fst s) (pc_start c)"
      using s f(10) by (auto simp: api_begin_def andThen_Inr_iff store_begin_def begin_state_def start_of_def [symmetric]
          create_measurement started_def begun_def guard_def split: sum.splits if_splits)
    ultimately show ?thesis using s st
      by (intro exI [of _ "fst s"] exI [of _ "pc_start c"]) (cases s, simp, simp add: begun_def)
  next
    case True
    then obtain j bytes where j: "j \<le> length (chunk_list (pc_log c))" "n = length (take (4096 * j) (pc_log c))"
      and holds: "upload_holds ?nb (op_idle ?op) (pc_start c) (rst_chunked st) ?k bytes (take j (chunk_list (pc_log c)))"
      and rest: "chunks_accepted ?op (pc_start c) bytes (take (4096 * j) (pc_log c)) (drop j (chunk_list (pc_log c)))"
      and same: "same_records (pc_store c) st" by (auto simp: pc_ready_def)
    let ?u = "uploaded ?nb (op_idle ?op) (pc_start c) bytes (concat (take j (chunk_list (pc_log c))))"
    have u: "map_of (cs_uploads (rst_chunked st)) ?k = Some ?u" using holds by (simp add: upload_holds_def)
    have parent: "truthy (mf_parent_record ?m) \<Longrightarrow> recordExists st (the (mf_parent_record ?m))"
      using f(9) recordExists_same [OF same] by (simp add: may_begin_def)
    from begin_again [OF f(9) parent u, of "Some (now_iso (op_now ?op))"] obtain st' where
      b: "api_begin ?op st ?k ?m (pc_observation c) = Inr (st', statusView st' ?u)"
      and st': "st' = set_chunked ((rst_chunked st)\<lparr>cs_uploads := AList.update ?k ?u (cs_uploads (rst_chunked st))\<rparr>) st" by auto
    have "same_records (pc_store c) st'"
      using same by (simp add: same_records_def st' set_chunked_def)
    moreover have "upload_holds ?nb (op_idle ?op) (pc_start c) (rst_chunked st') ?k bytes (take j (chunk_list (pc_log c)))"
      using holds by (simp add: upload_holds_def st' set_chunked_def update_conv')
    ultimately have "pc_ready c st' n" unfolding pc_ready_def using pub j rest by blast
    with b j show ?thesis
      by (intro exI [of _ st'] exI [of _ ?u] conjI) (simp_all only: uploaded_fields begun_fields concat_chunk_list [OF j(1)])
  qed
  then obtain st' u where b: "api_begin ?op st ?k ?m (pc_observation c) = Inr (st', statusView st' u)" and r: "pc_ready c st' n"
    and u: "us_manifest u = us_manifest (pc_start c)" "us_upload_id u = ?k" "us_next_seq u = int n" by blast
  have "sv_completed (statusView st' u) = None" using r by (intro status_open [OF pub _ u(1)]) (simp add: pc_ready_def)
  moreover have "sv_upload_id (statusView st' u) = ?k" "sv_next_seq (statusView st' u) = int n" by (simp_all add: statusView_def u)
  ultimately show ?thesis using status_json_open b r by (auto simp: pc_serve_def)
qed

lemma pc_chunk_ready:
  assumes "pc_ready c st n" and "n < length (pc_log c)"
  shows "\<exists>st' v. pc_serve c st (PostChunk (pc_id c) (int n) (take 4096 (drop n (pc_log c)))) = (st', Answer 200 None (Some v))
     \<and> pc_ready c st' (min (n + 4096) (length (pc_log c))) \<and> is_cursor (pc_plan c) v (min (n + 4096) (length (pc_log c)))"
proof -
  let ?op = "pc_api c" and ?k = "pc_id c" and ?nb = "pc_noble c" and ?es = "pc_log c" and ?cs = "chunk_list (pc_log c)"
  from assms(1) obtain j bytes where j: "j \<le> length ?cs" "n = length (take (4096 * j) ?es)"
    and holds: "upload_holds ?nb (op_idle ?op) (pc_start c) (rst_chunked st) ?k bytes (take j ?cs)"
    and rest: "chunks_accepted ?op (pc_start c) bytes (take (4096 * j) ?es) (drop j ?cs)"
    and pub: "publishable c" and same: "same_records (pc_store c) st" by (auto simp: pc_ready_def)
  note f = publishable_facts [OF pub]
  have n: "n = 4096 * j" using j(2) assms(2) by simp
  then have "j < length ?cs" using assms(2) by simp
  define ds where "ds = take 4096 (drop n ?es)"
  have nth: "?cs ! j = ds" using \<open>j < length ?cs\<close> by (simp add: chunk_list_def ds_def n)
  have more: "take (Suc j) ?cs = take j ?cs @ [ds]" "drop j ?cs = ds # drop (Suc j) ?cs"
    using \<open>j < length ?cs\<close> nth Cons_nth_drop_Suc [of j ?cs] by (simp_all add: take_Suc_conv_app_nth del: chunk_list_length)
  have sent: "concat (take j ?cs) = take (4096 * j) ?es" by (rule concat_chunk_list [OF j(1)])
  have at_n: "int (length (concat (take j ?cs))) = int n" using assms(2) by (simp add: sent n)
  have acc: "chunk_accepted ?op (pc_start c) bytes (concat (take j ?cs)) ds"
    and rest': "chunks_accepted ?op (pc_start c) (bytes + op_bytes ?op ds) (take (4096 * j) ?es @ ds) (drop (Suc j) ?cs)"
    using rest unfolding more(2) sent by simp_all
  have u: "isUuid (mf_session_id (us_manifest (pc_start c)))" "\<not> truthy (us_finalized (pc_start c))" using f(3) by (simp_all add: truthy_def)
  note one = send_chunk_iff [OF f(1) u f(2) holds, of ?op ds]
  from one(1) acc obtain s' where s': "send_chunk ?nb ?op ?k (st, int (length (concat (take j ?cs)))) ds = Inr s'" by blast
  note after = one(2) [OF s']
  have next_es: "take (4096 * j) ?es @ ds = take (4096 * Suc j) ?es" by (simp add: ds_def n take_add add.commute [of 4096])
  have len: "length (take (4096 * Suc j) ?es) = min (n + 4096) (length ?es)" by (simp add: n min_def)
  have "pc_ready c (fst s') (min (n + 4096) (length ?es))"
    unfolding pc_ready_def
  proof (intro conjI exI [of _ "Suc j"] exI [of _ "bytes + op_bytes ?op ds"])
    show "same_records (pc_store c) (fst s')" using after same_records_trans [OF same] by blast
    show "Suc j \<le> length ?cs" using \<open>j < length ?cs\<close> by simp
  qed (use pub after rest' next_es len more(1) in simp_all)
  moreover have "api_append ?nb ?op st ?k (int n) ds = Inr s'" using s' unfolding at_n by (simp add: send_chunk_def)
  moreover have "snd s' = int (min (n + 4096) (length ?es))"
  proof -
    have "concat (take j ?cs @ [ds]) = take (4096 * Suc j) ?es" using sent next_es by simp
    then show ?thesis using after len by simp
  qed
  ultimately show ?thesis unfolding ds_def [symmetric]
    by (cases s') (simp add: pc_serve_def is_cursor_def progress_fields_def field_def pc_plan_def)
qed

text \<open>Finalizing a complete upload, in closed form.\<close>

definition finalized_record :: "upload_state \<Rightarrow> finalize_data \<Rightarrow> record_observation \<Rightarrow> stored_record" where
  "finalized_record u d obs = \<lparr>sr_manifest = us_manifest u, sr_events = [], sr_chunked = True, sr_short_signature = fd_short_signature d,
     sr_stats = fd_stats d, sr_signals = fd_signals d, sr_observation = obs,
     sr_created_at = (case mf_ingested_server_t (us_manifest u) of Some t \<Rightarrow> t | None \<Rightarrow> [])\<rparr>"

definition finalized_sessions :: "record_store \<Rightarrow> upload_state \<Rightarrow> record_observation \<Rightarrow> sessions" where
  "finalized_sessions st u obs = (case bound_session (rst_chunked st) u of
      Some (sid, s) \<Rightarrow> if truthy (ro_session obs)
        then AList.update sid (s\<lparr>os_finalized := Some (mf_record_hash (us_manifest u)), os_state := Some (ro_state obs)\<rparr>) (rst_sessions st)
        else rst_sessions st
    | None \<Rightarrow> rst_sessions st)"

definition finalized_store :: "record_store \<Rightarrow> jsstring \<Rightarrow> upload_state \<Rightarrow> finalize_data \<Rightarrow> record_observation \<Rightarrow> record_store" where
  "finalized_store st k u d obs = (let cs = rst_chunked st; h = mf_record_hash (us_manifest u) in
     set_chunked (cs\<lparr>cs_completed := AList.update h (finalized_record u d obs) (cs_completed cs),
       cs_sessions := finalized_sessions st u obs,
       cs_uploads := AList.update k (u\<lparr>us_finalized := Some h, us_published_owner := True\<rparr>) (cs_uploads cs),
       cs_delays := AList.delete k (cs_delays cs)\<rparr>) st)"

lemma finalize_exact:
  assumes "map_of (cs_uploads (rst_chunked st)) k = Some u" and "isUuid k"
    and "observationView (op_now op) u (map_option snd (bound_session (rst_chunked st) u)) (tip_at (get_or [] (cs_chunks (rst_chunked st)) k)) = Inr obs"
    and "unknown_hash st (mf_record_hash (us_manifest u))" and "map_of (cs_delays (rst_chunked st)) k = Some table"
    and "generateShortSignature nb (findByShortSignature st) (mf_record_hash (us_manifest u)) (op_initial_length op) = Inr signature"
    and "api_derive nb op signature u (percentileValues (op_rank op) table) = Inr d"
  shows "api_finalize nb op st k = Inr (finalized_store st k u d obs,
     \<lparr>rp_record_hash = mf_record_hash (us_manifest u), rp_short_signature = fd_short_signature d, rp_created = True\<rparr>)"
proof -
  have "finalize_upload (op_rank op) (op_now op) st k (api_derive nb op signature) = Inr (rst_chunked (finalized_store st k u d obs),
      \<lparr>pb_record_hash = mf_record_hash (us_manifest u), pb_short_signature = fd_short_signature d, pb_created = True\<rparr>)"
    using assms(1,3-5,7)
    by (simp add: finalize_upload_def store_finalize_def Let_def unknown_hash_def
        finalized_store_def finalized_record_def finalized_sessions_def set_chunked_def)
  with assms(1,2,6) show ?thesis
    by (simp add: api_finalize_def guard_def upload_failure_def) (simp add: finalized_store_def set_chunked_def Let_def)
qed

lemma signature_nonempty:
  assumes "is_b3_hash h" and "generateShortSignature nb look h n0 = Inr s" and "0 < n0"
  shows "s \<noteq> []"
proof -
  let ?cs = "prefixes_from n0 (encoded_hash nb h) @ prefixes_from n0 (88 # encoded_hash nb h)"
  have "List.find (usable look h) ?cs = Some s"
    using assms by (simp add: generate_unfold split: option.splits)
  then obtain i where "i < length ?cs" "s = ?cs ! i" by (auto simp only: find_Some_iff)
  then have "s \<in> set ?cs" by (simp_all only: nth_mem)
  with assms(3) show ?thesis by (auto simp: prefixes_from_def)
qed

lemma findCompleted_found:
  "findCompleted cs p \<noteq> None \<longleftrightarrow>
     p \<in> fst ` set (cs_completed cs) \<or> (\<exists>r \<in> snd ` set (cs_completed cs). sr_short_signature r = p)"
proof (cases "map_of (cs_completed cs) p")
  case None
  then have "p \<notin> fst ` set (cs_completed cs)" by (simp add: map_of_eq_None_iff)
  then show ?thesis unfolding findCompleted_def None option.case find_None_iff by auto
next
  case (Some r)
  then have "p \<in> fst ` set (cs_completed cs)" by (metis map_of_eq_None_iff option.distinct(1))
  with Some show ?thesis by (simp add: findCompleted_def)
qed

lemma finalized_lookup:
  assumes "is_hash_id (mf_record_hash (us_manifest u))" and "unknown_hash st (mf_record_hash (us_manifest u))"
  shows "findByRecordHash (finalized_store st k u d obs) (mf_record_hash (us_manifest u)) = Some (finalized_record u d obs)"
    and "recordExists st p \<Longrightarrow> recordExists (finalized_store st k u d obs) p"
proof -
  let ?h = "mf_record_hash (us_manifest u)" and ?al = "cs_completed (rst_chunked st)"
  have none: "map_of (rst_by_hash st) ?h = None" "map_of ?al ?h = None"
    using assms by (auto simp: unknown_hash_def findByShortSignatureOrHash_def findByRecordHash_def findCompleted_def split: option.splits)
  then show "findByRecordHash (finalized_store st k u d obs) ?h = Some (finalized_record u d obs)"
    by (simp add: findByRecordHash_def finalized_store_def set_chunked_def Let_def findCompleted_def update_conv')
  have fresh: "AList.update ?h (finalized_record u d obs) ?al = ?al @ [(?h, finalized_record u d obs)]"
    using none(2) by (intro update_fresh) (simp add: map_of_eq_None_iff)
  assume "recordExists st p"
  then show "recordExists (finalized_store st k u d obs) p"
    using fresh unfolding recordExists_def findCompleted_found
    by (auto simp: finalized_store_def set_chunked_def Let_def)
qed

lemma reply_valid:
  assumes "good_link link (base @ js ''/'' @ rp_short_signature r)" and "rp_short_signature r \<noteq> []"
  shows "validateUploadResponse link (reply_json base r) (rp_record_hash r) = Inr \<lparr>ur_record_hash = rp_record_hash r,
     ur_short_signature = rp_short_signature r, ur_url = base @ js ''/'' @ rp_short_signature r, ur_created = rp_created r\<rparr>"
proof -
  let ?v = "reply_json base r"
  have "is_object ?v" "field ?v ''record_hash'' = JStr (rp_record_hash r)" "field ?v ''short_signature'' = JStr (rp_short_signature r)"
    "field ?v ''url'' = JStr (base @ js ''/'' @ rp_short_signature r)" "field ?v ''created'' = JBool (rp_created r)"
    by (simp_all add: reply_json_def field_def is_object_def)
  with assms show ?thesis by (auto simp: validateUploadResponse_def good_link_def guard_def)
qed

definition pc_answers :: "publication \<Rightarrow> record_store \<Rightarrow> upload_response \<Rightarrow> bool" where
  "pc_answers c st resp \<longleftrightarrow> ur_record_hash resp = pc_hash c
     \<and> (\<exists>r. findByRecordHash st (pc_hash c) = Some r \<and> ur_short_signature resp = sr_short_signature r)
     \<and> ur_url resp = pc_base c @ js ''/'' @ ur_short_signature resp"

lemma pc_finalize_ready:
  assumes "pc_ready c st (length (pc_log c))"
  shows "\<exists>st' status v resp. pc_serve c st (PostFinalize (pc_id c)) = (st', Answer status None (Some v)) \<and> answer_ok status
     \<and> pc_finished c st' \<and> validateUploadResponse (pc_link c) v (pc_hash c) = Inr resp \<and> pc_answers c st' resp"
proof -
  let ?op = "pc_api c" and ?k = "pc_id c" and ?m = "pc_manifest c" and ?nb = "pc_noble c" and ?es = "pc_log c"
  from assms obtain j bytes where j: "j \<le> length (chunk_list ?es)" "length ?es = length (take (4096 * j) ?es)"
    and holds: "upload_holds ?nb (op_idle ?op) (pc_start c) (rst_chunked st) ?k bytes (take j (chunk_list ?es))"
    and pub: "publishable c" and same: "same_records (pc_store c) st" unfolding pc_ready_def by blast
  note f = publishable_facts [OF pub]
  note p = pub [unfolded publishable_def within_limits_def Let_def]
  have all_sent: "length ?es \<le> 4096 * j" using j(2) by (metis length_take min.cobounded2)
  have sent: "concat (take j (chunk_list ?es)) = ?es" using concat_chunk_list [OF j(1)] all_sent by simp
  from p obtain stats signals signature where
    data: "published_data ?op (start_of (pc_store c) ?m) ?m ?es = Inr (stats, signals)" "assertStats stats = Inr ()"
    and sig: "generateShortSignature ?nb (findByShortSignature (pc_store c)) (pc_hash c) (op_initial_length ?op) = Inr signature"
      "good_link (pc_link c) (pc_base c @ js ''/'' @ signature)" by blast
  have "0 < op_initial_length ?op" using p by blast
  then have ne: "signature \<noteq> []" by (rule signature_nonempty [OF f(5) sig(1)])
  have idle: "0 \<le> op_idle ?op" "op_idle ?op \<le> MAX_TIME_FIELD_VALUE" using f(9) by (simp_all add: may_begin_def)
  have fits: "log_fits ?m (start_of (pc_store c) ?m) ?es" using holds sent by (simp add: upload_holds_def log_fits_def)
  have "\<forall>x \<in> set (stats_numbers stats). \<not> out_of_range x" using data(2) by (auto simp: assertStats_def)
  then have derive: "api_derive ?nb ?op signature (uploaded ?nb (op_idle ?op) (pc_start c) bytes ?es)
      (percentiles_of (op_rank ?op) (delays_of ?es)) = Inr \<lparr>fd_short_signature = signature, fd_stats = stats, fd_signals = signals\<rparr>"
    using derive_iff [OF f(1,3) _ _ idle, where ?u0.0 = "pc_start c" and es = ?es and signature = signature and bytes = bytes] fits p data(1)
    by (auto simp: record_ok_def Let_def)
  have pct: "percentileValues (op_rank ?op) (foldl count_delay [] (delays_of ?es)) = percentiles_of (op_rank ?op) (delays_of ?es)"
    using p by (simp add: percentiles_counted)
  let ?u = "uploaded ?nb (op_idle ?op) (pc_start c) bytes ?es" and ?obs = "observation_stored (op_now ?op) (pc_store c) ?es (pc_observation c)"
    and ?d = "\<lparr>fd_short_signature = signature, fd_stats = stats, fd_signals = signals\<rparr>"
  have u: "map_of (cs_uploads (rst_chunked st)) ?k = Some ?u" "map_of (cs_delays (rst_chunked st)) ?k = Some (foldl count_delay [] (delays_of ?es))"
    and table: "map_of (cs_chunks (rst_chunked st)) ?k = Some (chunk_table ?nb (us_manifest (pc_start c)) [] (take j (chunk_list ?es)))"
    using holds sent by (simp_all add: upload_holds_def)
  have unknown: "unknown_hash st (mf_record_hash (us_manifest ?u))" using p unknown_hash_same(1) [OF same] by simp
  have "observable ?nb st (us_manifest (pc_start c)) ?es (pc_observation c)" "observation_stored (op_now ?op) st ?es (pc_observation c) = ?obs"
    using p observable_same [OF same] by simp_all
  then have view: "observationView (op_now ?op) ?u (map_option snd (bound_session (rst_chunked st) ?u))
      (tip_at (get_or [] (cs_chunks (rst_chunked st)) ?k)) = Inr ?obs"
    using observation_exact [of ?u "us_manifest (pc_start c)" "take j (chunk_list ?es)" "op_now ?op" st ?nb ?obs] sent table
    by (simp add: get_or_def)
  have fin: "api_finalize ?nb ?op st ?k = Inr (finalized_store st ?k ?u ?d ?obs,
     \<lparr>rp_record_hash = pc_hash c, rp_short_signature = signature, rp_created = True\<rparr>)"
    using finalize_exact [OF u(1) f(2) view unknown u(2), where signature = signature and d = ?d] derive sig(1) unknown_hash_same(2) [OF same]
    by (simp add: pct)
  let ?st = "finalized_store st ?k ?u ?d ?obs" and ?u' = "?u\<lparr>us_finalized := Some (pc_hash c), us_published_owner := True\<rparr>"
  have own: "owns ?st ?k ?u'"
    using f(4) is_hash_id_truthy [OF f(4)] f(6)
    by (simp add: owns_def finalized_store_def set_chunked_def Let_def update_conv' truthy_def)
  have "table_events (chunk_table ?nb (us_manifest (pc_start c)) [] (take j (chunk_list ?es))) = ?es"
    by (simp add: table_events_chunks sent)
  then have "held_events ?st (finalized_record ?u ?d ?obs) ?es"
    using own table unfolding held_events_def
    by (auto simp: finalized_record_def finalized_store_def set_chunked_def Let_def intro!: exI)
  moreover have found: "findByRecordHash ?st (pc_hash c) = Some (finalized_record ?u ?d ?obs)"
    using finalized_lookup(1) [OF _ unknown] f(4) by simp
  moreover have "truthy (mf_parent_record ?m) \<longrightarrow> recordExists ?st (the (mf_parent_record ?m))"
    using finalized_lookup(2) [OF _ unknown] f(4,9) recordExists_same [OF same] by (simp add: may_begin_def)
  ultimately have done': "pc_finished c ?st"
    unfolding pc_finished_def using pub own sig(2) ne by (auto simp: finalized_record_def)
  let ?r = "\<lparr>rp_record_hash = pc_hash c, rp_short_signature = signature, rp_created = True\<rparr>"
  have valid: "validateUploadResponse (pc_link c) (reply_json (pc_base c) ?r) (pc_hash c) = Inr \<lparr>ur_record_hash = pc_hash c,
     ur_short_signature = signature, ur_url = pc_base c @ js ''/'' @ signature, ur_created = True\<rparr>"
    using reply_valid [of "pc_link c" "pc_base c" ?r] sig(2) ne by simp
  have "pc_answers c ?st \<lparr>ur_record_hash = pc_hash c,
     ur_short_signature = signature, ur_url = pc_base c @ js ''/'' @ signature, ur_created = True\<rparr>"
    using found by (simp add: pc_answers_def finalized_record_def)
  with fin done' valid show ?thesis by (auto simp: pc_serve_def answer_ok_def)
qed

lemma pc_begin_finished:
  assumes "pc_finished c st"
  shows "\<exists>st' v. pc_serve c st (PostBegin (pc_id c) (pc_manifest c) (pc_observation c)) = (st', Answer 200 None (Some v)) \<and> pc_finished c st'
     \<and> field v ''upload_id'' = JStr (pc_id c) \<and> json_truthy (field v ''completed'')
     \<and> (\<exists>resp. validateUploadResponse (pc_link c) (field v ''completed'') (pc_hash c) = Inr resp \<and> pc_answers c st' resp)"
proof -
  let ?op = "pc_api c" and ?k = "pc_id c" and ?m = "pc_manifest c"
  from assms obtain r u where pub: "publishable c" and r: "findByRecordHash st (pc_hash c) = Some r" "sr_manifest r = us_manifest (pc_start c)"
      "held_events st r (pc_log c)" "sr_observation r = observation_stored (op_now (pc_api c)) (pc_store c) (pc_log c) (pc_observation c)" "sr_short_signature r \<noteq> []" "good_link (pc_link c) (pc_base c @ js ''/'' @ sr_short_signature r)"
    and own: "owns st ?k u" and m: "us_manifest u = us_manifest (pc_start c)"
    and parent: "truthy (mf_parent_record ?m) \<Longrightarrow> recordExists st (the (mf_parent_record ?m))"
    unfolding pc_finished_def by blast
  note f = publishable_facts [OF pub]
  have u: "map_of (cs_uploads (rst_chunked st)) ?k = Some u" "truthy (us_finalized u)" "us_upload_id u = ?k"
    using own unfolding owns_def by blast+
  from begin_again [OF f(9) parent u(1)] m u(2) obtain st' where
    b: "api_begin ?op st ?k ?m (pc_observation c) = Inr (st', statusView st' u)"
    and st': "st' = set_chunked ((rst_chunked st)\<lparr>cs_uploads := AList.update ?k u (cs_uploads (rst_chunked st))\<rparr>) st" by auto
  have ups: "map_of (cs_uploads (rst_chunked st')) = map_of (cs_uploads (rst_chunked st))"
    using u(1) by (auto simp: st' set_chunked_def update_conv')
  have owns: "owns st' = owns st" by (simp add: owns_def fun_eq_iff ups)
  have "cs_chunks (rst_chunked st') = cs_chunks (rst_chunked st)" by (simp add: st' set_chunked_def)
  then have held: "held_events st' r (pc_log c)"
    using r(3) unfolding held_events_def owns by (simp only:)
  have same: "same_records st st'" by (simp add: same_records_def st' set_chunked_def)
  have find: "findByRecordHash st' (pc_hash c) = Some r"
    using r(1) by (simp add: findByRecordHash_def findCompleted_def st' set_chunked_def split: option.splits)
  have fin: "pc_finished c st'"
    unfolding pc_finished_def owns recordExists_same [OF same] using pub find held r own m parent by blast
  let ?r = "\<lparr>rp_record_hash = pc_hash c, rp_short_signature = sr_short_signature r, rp_created = False\<rparr>"
  let ?v = "status_json (pc_base c) (statusView st' u)"
  have v: "field ?v ''upload_id'' = JStr ?k" "field ?v ''completed'' = reply_json (pc_base c) ?r"
    using find u(3) m r(2) by (simp_all add: status_json_def statusView_def progress_fields_def field_def)
  have valid: "validateUploadResponse (pc_link c) (reply_json (pc_base c) ?r) (pc_hash c) = Inr \<lparr>ur_record_hash = pc_hash c,
     ur_short_signature = sr_short_signature r, ur_url = pc_base c @ js ''/'' @ sr_short_signature r, ur_created = False\<rparr>"
    using reply_valid [of "pc_link c" "pc_base c" ?r] r(5,6) by simp
  have ans: "pc_answers c st' \<lparr>ur_record_hash = pc_hash c,
     ur_short_signature = sr_short_signature r, ur_url = pc_base c @ js ''/'' @ sr_short_signature r, ur_created = False\<rparr>"
    using find by (simp add: pc_answers_def)
  have truthy: "json_truthy (reply_json (pc_base c) ?r)" by (simp add: reply_json_def)
  show ?thesis
    using b fin v valid ans truthy by (intro exI [of _ st'] exI [of _ ?v]) (simp add: pc_serve_def)
qed

lemma pc_plan_fields [simp]:
  "ju_upload_id (pc_plan c) = pc_id c" "ju_manifest (pc_plan c) = pc_manifest c" "ju_observation (pc_plan c) = pc_observation c"
  by (simp_all add: pc_plan_def)

interpretation publishing: resumable_server pc_serve pc_plan pc_log pc_link pc_stage pc_ready pc_finished pc_answers
proof (unfold_locales, unfold pc_plan_fields)
  fix c w n
  show "pc_ready c w n \<Longrightarrow> pc_stage c w n" by (simp add: pc_stage_def pc_ready_def)
  assume st: "pc_stage c w n"
  then have "publishable c" by (simp add: pc_stage_def)
  moreover have "n \<le> length (pc_log c)" using st unfolding pc_stage_def pc_ready_def by auto
  ultimately show "mf_event_count (pc_manifest c) = int (length (pc_log c)) \<and> n \<le> length (pc_log c) \<and> length (pc_log c) \<le> 9007199254740991"
    using publishable_facts by blast
qed (fact pc_begin_stage pc_begin_finished pc_chunk_ready pc_finalize_ready)+

section \<open>From the keyboard to the record\<close>

text \<open>The store after an attempt to upload that meets the faults \<open>fs\<close>.\<close>

definition upload_try ::
  "publication \<Rightarrow> journal_db \<Rightarrow> jsstring \<Rightarrow> record_store \<Rightarrow> fault list \<Rightarrow>
     ((record_store \<times> fault list) \<times> (client_error + upload_response)) option" where
  "upload_try c db sid st fs = uploadJournal (unreliable (pc_serve c) (pc_link c)) (read_page db sid) (pc_plan c) (st, fs)"

definition after_try :: "publication \<Rightarrow> journal_db \<Rightarrow> jsstring \<Rightarrow> record_store \<Rightarrow> fault list \<Rightarrow> record_store" where
  "after_try c db sid st fs = (case upload_try c db sid st fs of Some r \<Rightarrow> fst (fst r) | None \<Rightarrow> st)"

lemma tries_complete:
  assumes "publishable c" and "journal_keeps db sid (pc_log c)"
  shows "\<exists>st resp. upload_try c db sid (foldl (after_try c db sid) (pc_store c) plans) [] = Some ((st, []), Inr resp)
     \<and> pc_finished c st \<and> pc_answers c st resp"
proof -
  have reads: "reads_pages (read_page db sid) (pc_log c)"
    using journal_pages.keeps_reads [OF assms(2)] publishable_facts(8) [OF assms(1)] by simp
  note again = publishing.upload_attempt [OF reads]
  have kept: "(\<exists>n. pc_stage c (foldl (after_try c db sid) st plans) n) \<or> pc_finished c (foldl (after_try c db sid) st plans)"
    if "(\<exists>n. pc_stage c st n) \<or> pc_finished c st" for st
    using that
  proof (induction plans arbitrary: st)
    case (Cons fs plans)
    from again [OF Cons.prems, of fs] obtain x fs' r where
      "upload_try c db sid st fs = Some ((x, fs'), r)" "(\<exists>n. pc_stage c x n) \<or> pc_finished c x"
      by (auto simp: upload_try_def)
    with Cons.IH [of x] show ?case by (simp add: after_try_def)
  qed simp
  have "pc_stage c (pc_store c) 0" using assms(1) by (simp add: pc_stage_def)
  with kept have "(\<exists>n. pc_stage c (foldl (after_try c db sid) (pc_store c) plans) n)
      \<or> pc_finished c (foldl (after_try c db sid) (pc_store c) plans)" by blast
  from again [OF this, of "[]"] show ?thesis by (auto simp: upload_try_def)
qed

text \<open>C4: What a device signs and the interface has room for gets published, with exactly the events of its journal.
  Take a signed draft whose events have all been saved and which is within the limits of the interface: its parent
  record is stored, its chunks are within the limits on events, bytes and lengths, its statistics are in the range
  that is stored, no record is stored under its hash, a short signature is left, and the observation it asks for is
  unobserved, none, or bound to a session whose checkpoints are those of the log (\<open>within_limits\<close>). It
  may be uploaded any number of times over a network that loses requests or answers or is turned away anywhere; each
  attempt goes on where the server stands, and the first attempt without a fault answers with the short signature of
  a stored record that carries the signed manifest, as its chunks in order the saved events, and the observation
  asked for. All attempts ask for the same observation.\<close>

theorem signed_draft_published:
  assumes "noble_ok (de_noble env)" and "op_journal (de_options env)" and "reachable_device env dv"
    and "sign_session (de_parses env) (de_iso env) (de_noble env) (de_options env) (dv_registry dv) sid binding now fresh = (rg, Inr draft)"
    and "waiting_events dv sid = []" and "within_limits c" and "pc_noble c = de_noble env" and "op_parses (pc_api c) = de_parses env"
    and "pc_manifest c = sd_manifest draft" and "pc_log c = stored_rows (dv_db dv) sid"
  shows "\<exists>st resp r. upload_try c (dv_db dv) sid (foldl (after_try c (dv_db dv) sid) (pc_store c) plans) [] = Some ((st, []), Inr resp)
     \<and> findByShortSignatureOrHash st (mf_record_hash (sd_manifest draft)) = Some r
     \<and> ur_short_signature resp = sr_short_signature r \<and> (\<exists>t. sr_manifest r = (sd_manifest draft)\<lparr>mf_ingested_server_t := t\<rparr>)
     \<and> held_events st r (stored_rows (dv_db dv) sid)
     \<and> sr_observation r = observation_stored (op_now (pc_api c)) (pc_store c) (stored_rows (dv_db dv) sid) (pc_observation c)"
proof -
  have log: "device_log dv sid = stored_rows (dv_db dv) sid" using assms(5) by (simp add: device_log_def)
  have rec: "record_ok (de_parses env) (de_noble env) \<lparr>wr_manifest = sd_manifest draft, wr_events = stored_rows (dv_db dv) sid\<rparr>"
    using signed_draft_verifies [OF assms(1-4)] by (simp add: log)
  then have pub: "publishable c" using assms(6-10) by (simp add: publishable_def)
  have "rows_ok (dv_db dv)" using reachable_device_ok [OF assms(1-3)] by (simp add: device_ok_def)
  moreover have "valid_log (stored_rows (dv_db dv) sid)" using rec by (simp add: record_ok_def Let_def)
  ultimately have "journal_keeps (dv_db dv) sid (pc_log c)" using valid_log_numbered by (simp add: journal_keeps_def assms(10))
  from tries_complete [OF pub this, of plans] publishable_facts(4) [OF pub] show ?thesis
    by (auto simp: pc_finished_def pc_answers_def findByShortSignatureOrHash_def assms(9,10))
qed

section \<open>A device and a service\<close>

definition sample_saved :: device where
  "sample_saved = (let (rg, fl) = take_batch (dv_registry sample_device) in
     sample_device\<lparr>dv_registry := batch_saved rg (the fl), dv_db := projr (commit_batch (dv_db sample_device) (jf_batch (the fl)))\<rparr>)"

lemma save_reachable:
  assumes "reachable_device env dv" and "dv_flight dv = None" and "take_batch (dv_registry dv) = (rg, Some fl)"
    and "commit_batch (dv_db dv) (jf_batch fl) = Inr db"
  shows "reachable_device env (dv\<lparr>dv_registry := batch_saved rg fl, dv_db := db\<rparr>)"
proof -
  let ?taken = "dv\<lparr>dv_registry := rg, dv_flight := Some (fl, False)\<rparr>"
  let ?stored = "?taken\<lparr>dv_db := db, dv_flight := Some (fl, True)\<rparr>"
  let ?saved = "?stored\<lparr>dv_registry := batch_saved (dv_registry ?stored) fl, dv_flight := None\<rparr>"
  have "process_step env dv ?taken" by (rule step_take [OF assms(2,3)])
  moreover have "process_step env ?taken ?stored" by (rule step_commit) (use assms(4) in simp_all)
  moreover have "process_step env ?stored ?saved" by (rule step_settle) simp
  ultimately have "reachable_device env ?saved" by (meson assms(1) reachable_step step_process)
  moreover have "?saved = dv\<lparr>dv_registry := batch_saved rg fl, dv_db := db\<rparr>" using assms(2) by (cases dv) simp
  ultimately show ?thesis by simp
qed

lemma sample_saved_reachable: "reachable_device sample_env sample_saved"
proof -
  let ?t = "take_batch (dv_registry sample_device)"
  let ?c = "commit_batch (dv_db sample_device) (jf_batch (the (snd ?t)))"
  have e: "snd ?t \<noteq> None \<and> \<not> isl ?c \<and> dv_flight sample_device = None" by code_simp
  then obtain rg fl where t: "?t = (rg, Some fl)" by (cases ?t) auto
  with e obtain db where c: "commit_batch (dv_db sample_device) (jf_batch fl) = Inr db"
    by (cases "commit_batch (dv_db sample_device) (jf_batch fl)") auto
  have "sample_saved = sample_device\<lparr>dv_registry := batch_saved rg fl, dv_db := db\<rparr>" by (simp add: sample_saved_def t c)
  with save_reachable [OF sample_device_reachable _ t c] e show ?thesis by simp
qed

definition sample_signed :: signed_draft where
  "sample_signed = projr (snd (sample_sign sample_saved 30))"

definition sample_publication_plan :: publication where
  "sample_publication_plan = \<lparr>pc_noble = sample_noble, pc_api = sample_api, pc_base = js ''https:'',
     pc_link = (\<lambda>_. Some \<lparr>up_protocol = js ''https:'', up_username = [], up_password = []\<rparr>), pc_store = empty_store,
     pc_id = sample_session, pc_manifest = sd_manifest sample_signed, pc_observation = Some UnobservedUpload, pc_log = stored_rows (dv_db sample_saved) sample_session\<rparr>"

lemma sample_plan_fields [simp]:
  "pc_noble sample_publication_plan = sample_noble" "pc_api sample_publication_plan = sample_api"
  "pc_store sample_publication_plan = empty_store" "pc_id sample_publication_plan = sample_session"
  "pc_manifest sample_publication_plan = sd_manifest sample_signed" "pc_observation sample_publication_plan = Some UnobservedUpload"
  "pc_log sample_publication_plan = stored_rows (dv_db sample_saved) sample_session"
  by (simp_all add: sample_publication_plan_def)

lemma sample_within_limits: "within_limits sample_publication_plan"
proof -
  let ?m = "sd_manifest sample_signed" and ?es = "stored_rows (dv_db sample_saved) sample_session"
  have may: "may_begin sample_api empty_store sample_session ?m" by code_simp
  have chunks: "chunks_accepted sample_api (begun sample_api empty_store sample_session ?m (Some UnobservedUpload)) 0 [] (chunk_list ?es)" by code_simp
  have "case published_data sample_api (start_of empty_store ?m) ?m ?es of Inr (s, _) \<Rightarrow> assertStats s = Inr () | _ \<Rightarrow> False" by code_simp
  then have data: "\<exists>stats signals. published_data sample_api (start_of empty_store ?m) ?m ?es = Inr (stats, signals) \<and> assertStats stats = Inr ()"
    by (auto split: sum.splits)
  from may have "manifest_ok ?m" using validateManifest_ok by (auto simp: may_begin_def)
  then have b3: "is_b3_hash (mf_record_hash ?m)" by (simp add: manifest_ok_def)
  have "\<exists>s. generateShortSignature sample_noble (findByShortSignature empty_store) (mf_record_hash ?m) 1 = Inr s"
  proof (cases "generateShortSignature sample_noble (findByShortSignature empty_store) (mf_record_hash ?m) 1")
    case (Inl e)
    from no_signature_left [OF empty_store_ok b3 Inl, of 1] show ?thesis by (simp add: published_records_def empty_store_def)
  qed auto
  moreover have "good_link (pc_link sample_publication_plan) url" for url
    by (simp add: good_link_def sample_publication_plan_def)
  moreover have "unknown_hash empty_store h" "map_of (cs_uploads (rst_chunked empty_store)) k = None" for h k
    by (simp_all add: unknown_hash_def empty_store_def findByShortSignatureOrHash_def findByRecordHash_def findByShortSignature_def
        findCompleted_def truthy_def)
  ultimately show ?thesis
    using may chunks data sample_noble_ok sample_publication(7,8) by (simp add: within_limits_def observable_def Let_def)
qed

lemma signed_draft_published_witness:
  "\<exists>st resp r. upload_try sample_publication_plan (dv_db sample_saved) sample_session
       (foldl (after_try sample_publication_plan (dv_db sample_saved) sample_session) empty_store [[Delivered, ReplyLost], [RateLimited None, RequestLost]]) []
       = Some ((st, []), Inr resp)
     \<and> findByShortSignatureOrHash st (mf_record_hash (sd_manifest sample_signed)) = Some r \<and> ur_short_signature resp = sr_short_signature r
     \<and> sr_observation r = unobservedObservation"
proof -
  have e: "\<not> isl (snd (sample_sign sample_saved 30)) \<and> waiting_events sample_saved sample_session = []" by code_simp
  then have "sample_sign sample_saved 30 = (fst (sample_sign sample_saved 30), Inr sample_signed)"
    by (simp add: sample_signed_def prod_eq_iff)
  then have sign: "sign_session (de_parses sample_env) (de_iso sample_env) (de_noble sample_env) (de_options sample_env)
      (dv_registry sample_saved) sample_session None 30 (js ''u'') = (fst (sample_sign sample_saved 30), Inr sample_signed)"
    by (simp add: sample_sign_def)
  have parses: "op_parses sample_api = (\<lambda>_. True)" by (simp add: sample_api_def)
  from signed_draft_published [OF _ _ sample_saved_reachable sign _ sample_within_limits, of "[[Delivered, ReplyLost], [RateLimited None, RequestLost]]"]
    e sample_noble_ok parses show ?thesis by (simp add: observation_stored_def) blast
qed

end
