(* ===== verification/Journal_Migration.thy ===== *)
theory Journal_Migration
  imports Session_Journal Chunked_Publish
begin

text \<open>
  The one-time import of the sessions of the older storage, a single snapshot with the events inside the
  sessions, into the journal (\<open>#migrate\<close> in \<open>packages/browser-storage/src/index.ts\<close>). The older
  storage is kept until the completion mark is set, so an import that stops anywhere is started again.
\<close>

section \<open>The import\<close>

text \<open>The older sessions are taken in their typed form; what the checks of their shape add to it remains.\<close>

definition legacy_metadata_ok :: "session \<Rightarrow> bool" where
  "legacy_metadata_ok s \<longleftrightarrow> isUuid (se_id s) \<and> in_ms_range (se_base s) \<and> in_ms_range (se_last_edit s)
     \<and> (\<forall>n \<in> set_option (se_event_count s). n = int (length (se_events s)))
     \<and> (\<forall>t \<in> set_option (se_last_event_t s). t = durationMs (se_events s))"

definition check_legacy :: "jsstring list \<Rightarrow> session \<Rightarrow> journal_error + jsstring list" where
  "check_legacy ids s = guard (\<not> legacy_metadata_ok s) LegacyInvalid
     (guard (se_id s \<in> set ids) LegacyDuplicate (Inr (ids @ [se_id s])))"

definition advance_tip :: "noble \<Rightarrow> session \<Rightarrow> jsstring option \<Rightarrow> mutation \<Rightarrow> format_error + jsstring option" where
  "advance_tip nb s tip e = andThen (advanceEventHash nb tip e (se_id s) (se_version s)) (\<lambda>h. Inr (Some h))"

definition migrated_session :: "session \<Rightarrow> jsstring option \<Rightarrow> session" where
  "migrated_session s tip = s\<lparr>se_events := [], se_journaled := True, se_event_count := Some (int (length (se_events s))),
     se_last_event_t := Some (durationMs (se_events s)), se_tip := tip\<rparr>"

text \<open>Each commit is a transaction of its own; what was committed stays when a later step throws.\<close>

definition then_db ::
  "journal_db \<times> (journal_error + unit) \<Rightarrow> (journal_db \<Rightarrow> journal_db \<times> (journal_error + unit)) \<Rightarrow>
     journal_db \<times> (journal_error + unit)" where
  "then_db r f = (case r of (db, Inl e) \<Rightarrow> (db, Inl e) | (db, Inr _) \<Rightarrow> f db)"

definition do_commit :: "journal_db \<Rightarrow> journal_batch \<Rightarrow> journal_db \<times> (journal_error + unit)" where
  "do_commit db b = (case commit_batch db b of Inl e \<Rightarrow> (db, Inl e) | Inr db' \<Rightarrow> (db', Inr ()))"

definition deletion_batch :: "jsstring \<Rightarrow> journal_batch" where
  "deletion_batch sid = \<lparr>jb_sessions = [], jb_appends = [], jb_deleted = [sid], jb_clear = []\<rparr>"

definition page_batch :: "jsstring \<Rightarrow> event_log \<Rightarrow> journal_batch" where
  "page_batch sid es = \<lparr>jb_sessions = [], jb_appends = [(sid, es)], jb_deleted = [], jb_clear = []\<rparr>"

definition metadata_batch :: "session \<Rightarrow> journal_batch" where
  "metadata_batch s = \<lparr>jb_sessions = [s], jb_appends = [], jb_deleted = [], jb_clear = []\<rparr>"

function write_pages :: "jsstring \<Rightarrow> event_log \<Rightarrow> journal_db \<Rightarrow> journal_db \<times> (journal_error + unit)" where
  "write_pages sid es db = (if es = [] then (db, Inr ())
     else then_db (do_commit db (page_batch sid (take 512 es))) (write_pages sid (drop 512 es)))"
  by pat_completeness auto
termination by (relation "measure (\<lambda>(sid, es, db). length es)") auto

declare write_pages.simps [simp del]

function verify_pages ::
  "noble \<Rightarrow> session \<Rightarrow> journal_db \<Rightarrow> nat \<Rightarrow> jsstring option \<Rightarrow> journal_error + jsstring option" where
  "verify_pages nb s db start tip = (if start < length (se_events s)
     then (case read_page db (se_id s) (int start) 512 of
        Inl e \<Rightarrow> Inl e
      | Inr page \<Rightarrow> guard (length page \<noteq> min 512 (length (se_events s) - start)) MigrationIncomplete
          (case run_steps (advance_tip nb s) tip page of
             Inl x \<Rightarrow> Inl (LegacyHash x)
           | Inr tip' \<Rightarrow> verify_pages nb s db (start + 512) tip'))
     else Inr tip)"
  by pat_completeness auto
termination by (relation "measure (\<lambda>(nb, s, db, start, tip). length (se_events s) - start)") auto

declare verify_pages.simps [simp del]

definition verify_session :: "noble \<Rightarrow> session \<Rightarrow> jsstring option \<Rightarrow> journal_db \<Rightarrow> journal_db \<times> (journal_error + unit)" where
  "verify_session nb s tip db = (case verify_pages nb s db 0 None of
      Inl e \<Rightarrow> (db, Inl e)
    | Inr verifiedTip \<Rightarrow> if verifiedTip \<noteq> tip then (db, Inl MigrationUnverified) else (db, Inr ()))"

definition migrate_session :: "noble \<Rightarrow> session \<Rightarrow> journal_db \<Rightarrow> journal_db \<times> (journal_error + unit)" where
  "migrate_session nb s db =
     (let errors = validateEventLog (JArr (List.map event_json (se_events s))) in
      if errors \<noteq> [] then (db, Inl (LegacyEvents errors))
      else case run_steps (advance_tip nb s) None (se_events s) of
        Inl x \<Rightarrow> (db, Inl (LegacyHash x))
      | Inr tip \<Rightarrow>
          if truthy (se_tip s) \<and> se_tip s \<noteq> tip then (db, Inl LegacyTip)
          else then_db (do_commit db (deletion_batch (se_id s))) (\<lambda>db.
               then_db (write_pages (se_id s) (se_events s) db) (\<lambda>db.
               then_db (verify_session nb s tip db) (\<lambda>db.
                 do_commit db (metadata_batch (migrated_session s tip))))))"

fun migrate_sessions :: "noble \<Rightarrow> session list \<Rightarrow> journal_db \<Rightarrow> journal_db \<times> (journal_error + unit)" where
  "migrate_sessions nb [] db = (db, Inr ())"
| "migrate_sessions nb (s # ss) db = then_db (migrate_session nb s db) (migrate_sessions nb ss)"

definition journal_migrate :: "noble \<Rightarrow> session list \<Rightarrow> journal_db \<Rightarrow> journal_db \<times> (journal_error + unit)" where
  "journal_migrate nb legacy db = (case run_steps check_legacy [] legacy of
      Inl e \<Rightarrow> (db, Inl e)
    | Inr _ \<Rightarrow> then_db (migrate_sessions nb legacy db) (\<lambda>db. (db\<lparr>jd_migrated := True\<rparr>, Inr ())))"

text \<open>Reading the sessions imports the older ones first, unless that was completed before.\<close>

definition journal_read :: "noble \<Rightarrow> session list \<Rightarrow> journal_db \<Rightarrow> journal_db \<times> (journal_error + session list)" where
  "journal_read nb legacy db =
     (case (if jd_migrated db then (db, Inr ()) else journal_migrate nb legacy db) of
        (db', Inl e) \<Rightarrow> (db', Inl e)
      | (db', Inr _) \<Rightarrow> (db', Inr (read_sessions db')))"

section \<open>The chain of a stored log\<close>

lemma then_db_simps [simp]:
  "then_db (db, Inl e) f = (db, Inl e)" "then_db (db, Inr u) f = f db"
  by (simp_all add: then_db_def)

lemma advance_tips:
  assumes "noble_ok nb" and "isUuid (se_id s)" and "valid_log (es @ fs)"
  shows "run_steps (advance_tip nb s) (tip_after nb (se_id s) (se_version s) es) fs
     = Inr (tip_after nb (se_id s) (se_version s) (es @ fs))"
  using assms(3)
proof (induction fs arbitrary: es)
  case (Cons e fs)
  let ?t = "tip_after nb (se_id s) (se_version s) es"
  have e: "valid_event e" "ev_seq e = int (length es)"
    using valid_log_nth [OF Cons.prems, of "length es"] by simp_all
  have "advance_tip nb s ?t e = Inr (tip_after nb (se_id s) (se_version s) (es @ [e]))"
    using e assms(1,2) tip_after_b3 [OF assms(1), of "se_id s" "se_version s" es] tip_after_None [of nb "se_id s" "se_version s" es]
    by (auto simp: advance_tip_def andThen_Inr_iff advanceEventHash_Inr_iff next_tip_def)
  with Cons.IH [of "es @ [e]"] Cons.prems show ?case by simp
qed simp

lemma advance_whole:
  assumes "noble_ok nb" and "isUuid (se_id s)" and "valid_log es"
  shows "run_steps (advance_tip nb s) None es = Inr (tip_after nb (se_id s) (se_version s) es)"
  using advance_tips [OF assms(1,2), of "[]" es] assms(3) by simp

lemma verify_pages_exact:
  assumes "noble_ok nb" and "isUuid (se_id s)" and "rows_ok db" and "stored_rows db (se_id s) = se_events s" and "valid_log (se_events s)"
    and "length (se_events s) \<le> 9007199254740991"
  shows "verify_pages nb s db start (tip_after nb (se_id s) (se_version s) (take start (se_events s)))
     = Inr (tip_after nb (se_id s) (se_version s) (se_events s))"
proof (induction "length (se_events s) - start" arbitrary: start rule: less_induct)
  case less
  let ?es = "se_events s"
  show ?case
  proof (cases "start < length ?es")
    case True
    let ?page = "take 512 (drop start ?es)"
    have "\<not> bad_page (int start) 512" using True assms(6) by (simp add: bad_page_def in_ms_range_def MAX_TIME_FIELD_VALUE_def)
    from read_page_exact [OF assms(3) _ this, of "se_id s"] have read: "read_page db (se_id s) (int start) 512 = Inr ?page"
      using valid_log_numbered [OF assms(5)] by (simp add: assms(4))
    have more: "take start ?es @ ?page = take (start + 512) ?es" by (simp add: take_add)
    have "valid_log (take start ?es @ ?page)" unfolding more
      using assms(5) valid_from_append [of 0 "-1" "take (start + 512) ?es" "drop (start + 512) ?es"] by (simp add: valid_log_def)
    from advance_tips [OF assms(1,2) this] have run: "run_steps (advance_tip nb s) (tip_after nb (se_id s) (se_version s) (take start ?es)) ?page
        = Inr (tip_after nb (se_id s) (se_version s) (take (start + 512) ?es))" by (simp add: more)
    have len: "length ?page = min 512 (length ?es - start)" by simp
    have "length ?es - (start + 512) < length ?es - start" using True by simp
    from less [OF this] show ?thesis
      by (subst verify_pages.simps) (simp only: True if_True read sum.case len run guard_def simp_thms if_False)
  qed (subst verify_pages.simps, simp)
qed

section \<open>Each session is imported whole\<close>

lemma commit_deletion: "\<exists>db'. commit_batch db (deletion_batch sid) = Inr db'"
  by (simp add: commit_batch_def deletion_batch_def Let_def)

lemma commit_metadata: "se_journaled s \<Longrightarrow> se_events s = [] \<Longrightarrow> \<exists>db'. commit_batch db (metadata_batch s) = Inr db'"
  by (simp add: commit_batch_def metadata_batch_def put_metadata_def guard_def)

lemma commit_page:
  assumes "rows_ok db" and "numbered (stored_rows db sid @ es)" and "\<forall>e \<in> set es. in_int_range (ev_seq e)" and "length es \<le> 512"
  shows "\<exists>db'. commit_batch db (page_batch sid es) = Inr db'"
  using add_events_accepted [OF assms(1-3)] assms(4)
  by (auto simp: commit_batch_def page_batch_def add_append_def MAX_PENDING_EVENTS_def guard_def)

lemma batches_ok:
  "batch_ok (deletion_batch sid)" "batch_ok (metadata_batch s)"
  "\<forall>e \<in> set es. in_int_range (ev_seq e) \<Longrightarrow> batch_ok (page_batch sid es)"
  by (simp_all add: batch_ok_def deletion_batch_def metadata_batch_def page_batch_def)

lemma numbered_prefix: "numbered (es @ fs) \<Longrightarrow> numbered es"
proof -
  have iff: "numbered xs \<longleftrightarrow> (\<forall>i < length xs. ev_seq (xs ! i) = int i)" for xs
    unfolding numbered_def list_eq_iff_nth_eq [of "List.map ev_seq xs"] by simp
  show "numbered (es @ fs) \<Longrightarrow> numbered es" unfolding iff by (metis length_append nth_append trans_less_add1)
qed

text \<open>No commit touches the completion mark.\<close>

interpretation added_rows: guarded_machine "add_event sid" "\<lambda>db. jd_migrated db = mark"
  by unfold_locales (auto simp: add_event_def)

interpretation added_chunks: guarded_machine add_append "\<lambda>db. jd_migrated db = mark"
  by unfold_locales (auto simp: add_append_def dest: added_rows.run_inv [rotated])

interpretation put_sessions: guarded_machine put_metadata "\<lambda>db. jd_migrated db = mark"
  by unfold_locales (auto simp: put_metadata_def)

lemma commit_mark:
  assumes "commit_batch db b = Inr db'"
  shows "jd_migrated db' = jd_migrated db"
proof -
  have e: "jd_migrated (foldl (\<lambda>db sid. delete_events sid db) db sids) = jd_migrated db" for db sids
    by (induction sids arbitrary: db) (simp_all add: delete_events_def)
  have m: "jd_migrated (foldl (\<lambda>db sid. delete_metadata sid db) db sids) = jd_migrated db" for db sids
    by (induction sids arbitrary: db) (simp_all add: delete_metadata_def)
  from assms show ?thesis unfolding commit_batch_def Let_def andThen_Inr_iff
    using added_chunks.run_inv [OF refl] put_sessions.run_inv [OF refl] by (auto simp: e m)
qed

lemma write_pages_exact:
  assumes "rows_ok db" and "numbered (stored_rows db sid @ es)" and "\<forall>e \<in> set es. in_int_range (ev_seq e)"
  shows "\<exists>db'. write_pages sid es db = (db', Inr ()) \<and> rows_ok db' \<and> stored_rows db' sid = stored_rows db sid @ es
     \<and> (\<forall>k. k \<noteq> sid \<longrightarrow> stored_rows db' k = stored_rows db k) \<and> map_of (jd_sessions db') = map_of (jd_sessions db)
     \<and> jd_migrated db' = jd_migrated db"
  using assms
proof (induction "length es" arbitrary: es db rule: less_induct)
  case less
  show ?case
  proof (cases "es = []")
    case False
    let ?page = "take 512 es"
    have "numbered ((stored_rows db sid @ ?page) @ drop 512 es)" using less.prems(2) by simp
    then have num: "numbered (stored_rows db sid @ ?page)" by (rule numbered_prefix)
    have rng: "\<forall>e \<in> set ?page. in_int_range (ev_seq e)" "\<forall>e \<in> set (drop 512 es). in_int_range (ev_seq e)"
      using less.prems(3) by (auto dest: in_set_takeD in_set_dropD)
    from commit_page [OF less.prems(1) num rng(1)] obtain db1 where c: "commit_batch db (page_batch sid ?page) = Inr db1" by auto
    note one = commit_Inr [OF c less.prems(1) batches_ok(3) [OF rng(1)]]
    have st: "stored_rows db1 k = (if k = sid then stored_rows db sid @ ?page else stored_rows db k)" for k
      by (simp add: one(2) page_batch_def appended_def)
    have md: "map_of (jd_sessions db1) = map_of (jd_sessions db)"
      using one(3) by (auto simp: page_batch_def batch_session_def)
    note mig = commit_mark [OF c]
    have "length (drop 512 es) < length es" using False by simp
    from less.hyps [OF this one(1) _ rng(2)] less.prems(2) st md mig show ?thesis
      by (subst write_pages.simps) (auto simp: False do_commit_def c)
  qed (subst write_pages.simps, use less.prems in simp)
qed

text \<open>What an import of one session needs, and what it leaves.\<close>

definition importable :: "noble \<Rightarrow> session \<Rightarrow> bool" where
  "importable nb s \<longleftrightarrow> valid_log (se_events s)
     \<and> (truthy (se_tip s) \<longrightarrow> se_tip s = tip_after nb (se_id s) (se_version s) (se_events s))"

definition imported :: "noble \<Rightarrow> session \<Rightarrow> journal_db \<Rightarrow> bool" where
  "imported nb s db \<longleftrightarrow> stored_rows db (se_id s) = se_events s
     \<and> map_of (jd_sessions db) (se_id s) = Some (migrated_session s (tip_after nb (se_id s) (se_version s) (se_events s)))"

definition kept_aside :: "jsstring \<Rightarrow> journal_db \<Rightarrow> journal_db \<Rightarrow> bool" where
  "kept_aside sid db db' \<longleftrightarrow> (\<forall>k. k \<noteq> sid \<longrightarrow> stored_rows db' k = stored_rows db k
     \<and> map_of (jd_sessions db') k = map_of (jd_sessions db) k)"

lemma valid_log_range: "valid_log es \<Longrightarrow> e \<in> set es \<Longrightarrow> in_int_range (ev_seq e)"
  by (metis in_set_conv_nth valid_event_def valid_log_nth)

lemma migrate_session_done:
  assumes "noble_ok nb" and "rows_ok db" and "legacy_metadata_ok s" and "importable nb s"
    and "length (se_events s) \<le> 9007199254740991"
  shows "\<exists>db'. migrate_session nb s db = (db', Inr ()) \<and> rows_ok db' \<and> imported nb s db' \<and> kept_aside (se_id s) db db'
     \<and> jd_migrated db' = jd_migrated db"
proof -
  let ?es = "se_events s" and ?sid = "se_id s" and ?tip = "tip_after nb (se_id s) (se_version s) (se_events s)"
  have sid: "isUuid ?sid" using assms(3) by (simp add: legacy_metadata_ok_def)
  have log: "valid_log ?es" "truthy (se_tip s) \<Longrightarrow> se_tip s = ?tip" using assms(4) by (simp_all add: importable_def)
  obtain db1 where c1: "commit_batch db (deletion_batch ?sid) = Inr db1" using commit_deletion by blast
  note one = commit_Inr [OF c1 assms(2) batches_ok(1)]
  have e1: "stored_rows db1 k = (if k = ?sid then [] else stored_rows db k)"
    and m1: "map_of (jd_sessions db1) k = (if k = ?sid then None else map_of (jd_sessions db) k)" for k
    using one(2,3) [of k] by (simp_all add: deletion_batch_def appended_def batch_session_def)
  have rng: "\<forall>e \<in> set ?es. in_int_range (ev_seq e)" using valid_log_range [OF log(1)] by blast
  from write_pages_exact [OF one(1) _ rng, of ?sid] valid_log_numbered [OF log(1)] obtain db2 where
    w: "write_pages ?sid ?es db1 = (db2, Inr ())" and ok2: "rows_ok db2" and e2: "stored_rows db2 ?sid = ?es"
    and o2: "\<forall>k. k \<noteq> ?sid \<longrightarrow> stored_rows db2 k = stored_rows db1 k" "map_of (jd_sessions db2) = map_of (jd_sessions db1)"
      "jd_migrated db2 = jd_migrated db1" by (auto simp: e1)
  have v: "verify_session nb s ?tip db2 = (db2, Inr ())"
    using verify_pages_exact [OF assms(1) sid ok2 e2 log(1) assms(5), of 0] by (simp add: verify_session_def)
  let ?s = "migrated_session s ?tip"
  obtain db3 where c3: "commit_batch db2 (metadata_batch ?s) = Inr db3"
    using commit_metadata [of ?s db2] by (auto simp: migrated_session_def)
  note three = commit_Inr [OF c3 ok2 batches_ok(2)]
  have e3: "stored_rows db3 k = stored_rows db2 k"
    and m3: "map_of (jd_sessions db3) k = (if k = ?sid then Some ?s else map_of (jd_sessions db2) k)" for k
    using three(2,3) [of k] by (simp_all add: metadata_batch_def appended_def batch_session_def migrated_session_def)
  have "migrate_session nb s db = (db3, Inr ())"
    using log(2) by (auto simp: migrate_session_def Let_def validateEventLog_typed log(1) advance_whole [OF assms(1) sid log(1)]
        do_commit_def c1 w v c3)
  moreover have "imported nb s db3" by (simp add: imported_def e3 e2 m3)
  moreover have "kept_aside ?sid db db3" using o2 by (simp add: kept_aside_def e3 m3 e1 m1)
  ultimately show ?thesis using three(1) commit_mark [OF c1] commit_mark [OF c3] o2(3) by auto
qed

lemma migrate_session_refused:
  assumes "noble_ok nb" and "legacy_metadata_ok s" and "\<not> importable nb s"
  shows "\<exists>e. migrate_session nb s db = (db, Inl e)"
proof (cases "valid_log (se_events s)")
  case True
  with assms(3) have "truthy (se_tip s)" "se_tip s \<noteq> tip_after nb (se_id s) (se_version s) (se_events s)"
    by (auto simp: importable_def)
  with advance_whole [OF assms(1) _ True] assms(2) True show ?thesis
    by (simp add: migrate_session_def validateEventLog_typed legacy_metadata_ok_def)
qed (simp add: migrate_session_def validateEventLog_typed Let_def)

section \<open>All sessions\<close>

lemma check_legacy_iff:
  "(\<exists>ids'. run_steps check_legacy ids legacy = Inr ids') \<longleftrightarrow>
     list_all legacy_metadata_ok legacy \<and> distinct (List.map se_id legacy) \<and> set ids \<inter> se_id ` set legacy = {}"
  by (induction legacy arbitrary: ids) (auto simp: check_legacy_def guard_def)

lemma kept_aside_imported: "kept_aside sid db db' \<Longrightarrow> se_id s \<noteq> sid \<Longrightarrow> imported nb s db' = imported nb s db"
  by (simp add: kept_aside_def imported_def)

lemma migrate_sessions_done:
  assumes "noble_ok nb" and "rows_ok db" and "list_all legacy_metadata_ok ss" and "distinct (List.map se_id ss)"
    and "\<forall>s \<in> set ss. length (se_events s) \<le> 9007199254740991"
  shows "\<exists>db' r. migrate_sessions nb ss db = (db', r) \<and> rows_ok db' \<and> jd_migrated db' = jd_migrated db
     \<and> (r = Inr () \<longleftrightarrow> list_all (importable nb) ss)
     \<and> (r = Inr () \<longrightarrow> (\<forall>s \<in> set ss. imported nb s db') \<and>
          (\<forall>k. k \<notin> se_id ` set ss \<longrightarrow> stored_rows db' k = stored_rows db k \<and> map_of (jd_sessions db') k = map_of (jd_sessions db) k))"
  using assms(2-)
proof (induction ss arbitrary: db)
  case (Cons s ss)
  show ?case
  proof (cases "importable nb s")
    case True
    with migrate_session_done [OF assms(1) Cons.prems(1), of s] Cons.prems obtain db1 where
      s: "migrate_session nb s db = (db1, Inr ())" "rows_ok db1" "imported nb s db1" "kept_aside (se_id s) db db1"
        "jd_migrated db1 = jd_migrated db" by auto
    from Cons.IH [OF s(2)] Cons.prems obtain db2 r where
      r: "migrate_sessions nb ss db1 = (db2, r)" "rows_ok db2" "jd_migrated db2 = jd_migrated db1"
        "r = Inr () \<longleftrightarrow> list_all (importable nb) ss"
      and d: "r = Inr () \<Longrightarrow> (\<forall>s \<in> set ss. imported nb s db2) \<and>
          (\<forall>k. k \<notin> se_id ` set ss \<longrightarrow> stored_rows db2 k = stored_rows db1 k \<and> map_of (jd_sessions db2) k = map_of (jd_sessions db1) k)"
      by auto
    have "se_id s \<notin> se_id ` set ss" using Cons.prems by simp
    with d s(3,4) have "r = Inr () \<Longrightarrow> imported nb s db2 \<and> (\<forall>k. k \<notin> se_id ` set (s # ss) \<longrightarrow>
        stored_rows db2 k = stored_rows db k \<and> map_of (jd_sessions db2) k = map_of (jd_sessions db) k)"
      by (simp add: imported_def kept_aside_def)
    with r d s True show ?thesis by (intro exI [of _ db2] exI [of _ r]) auto
  next
    case False
    with migrate_session_refused [OF assms(1) _ False, of db] Cons.prems show ?thesis by auto
  qed
qed simp

text \<open>C16: The import loses nothing. Started on any consistent journal, such as one an earlier import that
  stopped anywhere left behind, the import sets its completion mark exactly when the older sessions
  have well-formed metadata, no identity twice, valid logs and chain tips that match them, and it
  throws otherwise. When it completes, each session is stored with exactly its events, in order, and with
  metadata that carries their number, their last time and the tip of their hash chain, and all
  other sessions of the journal are as before.\<close>

theorem migration_exact:
  assumes "noble_ok nb" and "rows_ok db" and "\<not> jd_migrated db" and "\<forall>s \<in> set legacy. length (se_events s) \<le> 9007199254740991"
  shows "\<exists>db' r. journal_migrate nb legacy db = (db', r) \<and> rows_ok db' \<and> jd_migrated db' = (r = Inr ())
     \<and> (r = Inr () \<longleftrightarrow> list_all legacy_metadata_ok legacy \<and> distinct (List.map se_id legacy) \<and> list_all (importable nb) legacy)
     \<and> (r = Inr () \<longrightarrow> (\<forall>s \<in> set legacy. imported nb s db') \<and>
          (\<forall>k. k \<notin> se_id ` set legacy \<longrightarrow> stored_rows db' k = stored_rows db k \<and> map_of (jd_sessions db') k = map_of (jd_sessions db) k))"
proof (cases "run_steps check_legacy [] legacy")
  case (Inl e)
  with check_legacy_iff [of "[]" legacy] assms(2,3) show ?thesis by (auto simp: journal_migrate_def)
next
  case (Inr ids)
  with check_legacy_iff [of "[]" legacy] have ok: "list_all legacy_metadata_ok legacy" "distinct (List.map se_id legacy)" by auto
  have mark: "rows_ok (db\<lparr>jd_migrated := True\<rparr>) = rows_ok db" "stored_rows (db\<lparr>jd_migrated := True\<rparr>) = stored_rows db"
    "imported nb s (db\<lparr>jd_migrated := True\<rparr>) = imported nb s db" for db s
    by (simp_all add: rows_ok_def stored_rows_def imported_def fun_eq_iff)
  from migrate_sessions_done [OF assms(1,2) ok assms(4)] obtain db' r where
    m: "migrate_sessions nb legacy db = (db', r)" "rows_ok db'" "jd_migrated db' = jd_migrated db" "r = Inr () \<longleftrightarrow> list_all (importable nb) legacy"
    and d: "r = Inr () \<Longrightarrow> (\<forall>s \<in> set legacy. imported nb s db') \<and>
          (\<forall>k. k \<notin> se_id ` set legacy \<longrightarrow> stored_rows db' k = stored_rows db k \<and> map_of (jd_sessions db') k = map_of (jd_sessions db) k)"
    by blast
  show ?thesis using m d ok assms(3) by (cases r) (auto simp: journal_migrate_def Inr mark)
qed

definition sample_older :: session where
  "sample_older = sample_draft\<lparr>se_id := sample_session, se_events := [sample_event, sample_paste], se_event_count := None,
     se_last_event_t := None, se_tip := None\<rparr>"

lemma migration_exact_witness:
  "\<exists>db'. journal_migrate sample_noble [sample_older] empty_db = (db', Inr ()) \<and> jd_migrated db'
     \<and> stored_rows db' sample_session = [sample_event, sample_paste]"
proof -
  have ok: "rows_ok empty_db" "\<not> jd_migrated empty_db" by (simp_all add: rows_ok_def empty_db_def)
  have s: "se_id sample_older = sample_session" "se_events sample_older = [sample_event, sample_paste]" "se_tip sample_older = None"
    by (simp_all add: sample_older_def)
  have "importable sample_noble sample_older" using sample_log_valid(1) by (simp add: importable_def s truthy_def)
  moreover have "legacy_metadata_ok sample_older" by code_simp
  ultimately show ?thesis
    using migration_exact [OF sample_noble_ok ok, of "[sample_older]"] by (auto simp: s imported_def)
qed

end
