(* ===== verification/Numeric_Index.thy ===== *)
theory Numeric_Index
  imports Js_Value "HOL-Library.Word"
begin

unbundle bit_operations_syntax

text \<open>
  The numeric index of a text field (\<open>packages/browser-capture/src/numeric-text-index.ts\<close>): a treap with
  the offsets of the surrogate pairs of the text, in which whole subtrees are moved lazily. It turns
  UTF-16 offsets into code point offsets without keeping any character.
\<close>

section \<open>The treap\<close>

datatype index_node =
    NoNode
  | Node (nd_offset: int) (nd_priority: "32 word") (nd_count: nat) (nd_shift: int) (nd_left: index_node) (nd_right: index_node)

fun node_count :: "index_node \<Rightarrow> nat" where
  "node_count NoNode = 0"
| "node_count (Node pos p c s l r) = c"

fun shift_node :: "index_node \<Rightarrow> int \<Rightarrow> index_node" where
  "shift_node NoNode delta = NoNode"
| "shift_node (Node pos p c s l r) delta = Node (pos + delta) p c (s + delta) l r"

fun push_node :: "index_node \<Rightarrow> index_node" where
  "push_node NoNode = NoNode"
| "push_node (Node pos p c s l r) =
     (if s \<noteq> 0 then Node pos p c 0 (shift_node l s) (shift_node r s) else Node pos p c s l r)"

fun update_node :: "index_node \<Rightarrow> index_node" where
  "update_node NoNode = NoNode"
| "update_node (Node pos p c s l r) = Node pos p (1 + node_count l + node_count r) s l r"

lemma size_shift [simp]: "size (shift_node t d) = size t"
  by (cases t) simp_all

lemma size_push: "push_node t = Node pos p c s l r \<Longrightarrow> size l < size t \<and> size r < size t"
  by (cases t) (auto split: if_splits)

function split_node :: "index_node \<Rightarrow> int \<Rightarrow> index_node \<times> index_node" where
  "split_node t k = (case push_node t of
      NoNode \<Rightarrow> (NoNode, NoNode)
    | Node pos p c s l r \<Rightarrow>
        if pos < k then (let (a, b) = split_node r k in (update_node (Node pos p c s l a), b))
        else (let (a, b) = split_node l k in (a, update_node (Node pos p c s b r))))"
  by pat_completeness auto
termination by (relation "measure (\<lambda>(t, k). size t)") (auto dest: size_push)

function merge_nodes :: "index_node \<Rightarrow> index_node \<Rightarrow> index_node" where
  "merge_nodes left right = (case left of NoNode \<Rightarrow> right | Node _ lp _ _ _ _ \<Rightarrow>
     (case right of NoNode \<Rightarrow> left | Node _ rp _ _ _ _ \<Rightarrow>
        if lp < rp
        then (case push_node left of NoNode \<Rightarrow> NoNode
              | Node pos p c s l r \<Rightarrow> update_node (Node pos p c s l (merge_nodes r right)))
        else (case push_node right of NoNode \<Rightarrow> NoNode
              | Node pos p c s l r \<Rightarrow> update_node (Node pos p c s (merge_nodes left l) r))))"
  by pat_completeness auto
termination by (relation "measure (\<lambda>(a, b). size a + size b)") (auto split: if_splits)

text \<open>Counting pushes the shifts it meets, so the tree it leaves behind is part of the result.\<close>

function preceding :: "index_node \<Rightarrow> int \<Rightarrow> index_node \<times> nat" where
  "preceding t k = (case push_node t of
      NoNode \<Rightarrow> (NoNode, 0)
    | Node pos p c s l r \<Rightarrow>
        if pos < k then (let (r', n) = preceding r k in (Node pos p c s l r', node_count l + 1 + n))
        else (let (l', n) = preceding l k in (Node pos p c s l' r, n)))"
  by pat_completeness auto
termination by (relation "measure (\<lambda>(t, k). size t)") (auto dest: size_push)

declare split_node.simps [simp del] merge_nodes.simps [simp del] preceding.simps [simp del]

section \<open>The index\<close>

record numeric_index =
  ni_root :: index_node
  ni_seed :: "32 word"
  ni_utf16Length :: int

text \<open>The pseudo-random priorities: an xorshift on 32 bits.\<close>

definition next_seed :: "32 word \<Rightarrow> 32 word" where
  "next_seed s0 = (let s1 = s0 XOR push_bit 13 s0; s2 = s1 XOR drop_bit 17 s1 in s2 XOR push_bit 5 s2)"

definition pair_at :: "jsstring \<Rightarrow> nat \<Rightarrow> bool" where
  "pair_at text i \<longleftrightarrow> high (text ! i) \<and> low (text ! (i + 1))"

definition scan_step :: "jsstring \<Rightarrow> 32 word \<times> index_node \<Rightarrow> nat \<Rightarrow> 32 word \<times> index_node" where
  "scan_step text st i = (if \<not> pair_at text i then st
     else let seed = next_seed (fst st) in (seed, merge_nodes (snd st) (Node (int i) seed 1 0 NoNode NoNode)))"

definition scan_text :: "jsstring \<Rightarrow> 32 word \<Rightarrow> nat \<Rightarrow> nat \<Rightarrow> 32 word \<times> index_node" where
  "scan_text text seed start stop = foldl (scan_step text) (seed, NoNode) [start..<min stop (length text - 1)]"

definition index_reset :: "numeric_index \<Rightarrow> jsstring \<Rightarrow> numeric_index" where
  "index_reset ix text = (let (seed, root) = scan_text text (ni_seed ix) 0 (length text) in
     \<lparr>ni_root = root, ni_seed = seed, ni_utf16Length = int (length text)\<rparr>)"

definition new_index :: "jsstring \<Rightarrow> numeric_index" where
  "new_index text = index_reset \<lparr>ni_root = NoNode, ni_seed = 0x9e3779b9, ni_utf16Length = 0\<rparr> text"

definition index_length :: "numeric_index \<Rightarrow> int" where
  "index_length ix = ni_utf16Length ix - int (node_count (ni_root ix))"

definition index_offset :: "numeric_index \<Rightarrow> int \<Rightarrow> numeric_index \<times> int" where
  "index_offset ix utf16 = (let k = max 0 (min (ni_utf16Length ix) utf16); (root, n) = preceding (ni_root ix) (k - 1) in
     (ix\<lparr>ni_root := root\<rparr>, k - int n))"

datatype index_error = InvalidSpan | InvalidDelta

definition index_replace :: "numeric_index \<Rightarrow> jsstring \<Rightarrow> int \<Rightarrow> int \<Rightarrow> index_error + numeric_index" where
  "index_replace ix textAfter start stop =
     guard (start < 0 \<or> stop < start \<or> stop > ni_utf16Length ix) InvalidSpan
     (let inserted = int (length textAfter) - ni_utf16Length ix + stop - start in
      guard (inserted < 0) InvalidDelta
      (let first = max 0 (start - 1);
           (before, rest) = split_node (ni_root ix) first;
           (_, after) = split_node rest (stop + 1);
           after = shift_node after (int (length textAfter) - ni_utf16Length ix);
           (seed, middle) = scan_text textAfter (ni_seed ix) (nat first) (nat (start + inserted + 1))
       in Inr \<lparr>ni_root = merge_nodes (merge_nodes before middle) after, ni_seed = seed,
            ni_utf16Length = int (length textAfter)\<rparr>))"

section \<open>The offsets a treap stands for\<close>

fun offsets :: "index_node \<Rightarrow> int list" where
  "offsets NoNode = []"
| "offsets (Node pos p c s l r) = List.map (\<lambda>x. x + s) (offsets l) @ [pos] @ List.map (\<lambda>x. x + s) (offsets r)"

fun counts_ok :: "index_node \<Rightarrow> bool" where
  "counts_ok NoNode \<longleftrightarrow> True"
| "counts_ok (Node pos p c s l r) \<longleftrightarrow> c = 1 + node_count l + node_count r \<and> counts_ok l \<and> counts_ok r"

lemma count_offsets: "counts_ok t \<Longrightarrow> node_count t = length (offsets t)"
  by (induction t) simp_all

lemma shift_spec [simp]:
  "offsets (shift_node t d) = List.map (\<lambda>x. x + d) (offsets t)" "counts_ok (shift_node t d) = counts_ok t"
  "node_count (shift_node t d) = node_count t"
  by (cases t; simp add: add.assoc)+

lemma push_spec [simp]: "offsets (push_node t) = offsets t" "counts_ok (push_node t) = counts_ok t"
  by (cases t; simp add: comp_def)+

lemma push_shape:
  assumes "push_node t = Node pos p c s l r"
  shows "s = 0" and "offsets t = offsets l @ pos # offsets r" and "counts_ok t \<longleftrightarrow> c = 1 + node_count l + node_count r \<and> counts_ok l \<and> counts_ok r"
proof -
  show s: "s = 0" using assms by (cases t) (auto split: if_splits)
  show "offsets t = offsets l @ pos # offsets r" using push_spec(1) [of t] by (simp add: assms s)
  show "counts_ok t \<longleftrightarrow> c = 1 + node_count l + node_count r \<and> counts_ok l \<and> counts_ok r"
    using push_spec(2) [of t] by (simp add: assms)
qed

lemma push_NoNode: "push_node t = NoNode \<longleftrightarrow> t = NoNode"
  by (cases t) simp_all

lemma update_spec:
  "offsets (update_node (Node pos p c s l r)) = List.map (\<lambda>x. x + s) (offsets l) @ pos # List.map (\<lambda>x. x + s) (offsets r)"
  "counts_ok (update_node (Node pos p c s l r)) \<longleftrightarrow> counts_ok l \<and> counts_ok r"
  by simp_all

lemma split_spec:
  assumes "sorted_wrt (<) (offsets t)" and "counts_ok t"
  shows "offsets (fst (split_node t k)) = filter (\<lambda>x. x < k) (offsets t)
     \<and> offsets (snd (split_node t k)) = filter (\<lambda>x. \<not> x < k) (offsets t)
     \<and> counts_ok (fst (split_node t k)) \<and> counts_ok (snd (split_node t k))"
  using assms
proof (induction t k rule: split_node.induct)
  case (1 t k)
  show ?case
  proof (cases "push_node t")
    case NoNode
    then show ?thesis by (subst (1 2 3 4) split_node.simps) (simp add: push_NoNode)
  next
    case (Node pos p c s l r)
    note shape = push_shape [OF Node]
    have sorted: "sorted_wrt (<) (offsets l)" "sorted_wrt (<) (offsets r)" "\<forall>x \<in> set (offsets l). x < pos" "\<forall>x \<in> set (offsets r). pos < x"
      using "1.prems"(1) by (auto simp: shape(2) sorted_wrt_append)
    have counts: "counts_ok l" "counts_ok r" using "1.prems"(2) by (simp_all add: shape(3))
    show ?thesis
    proof (cases "pos < k")
      case True
      have left: "filter (\<lambda>x. x < k) (offsets l) = offsets l" "filter (\<lambda>x. \<not> x < k) (offsets l) = []"
        using sorted(3) True by (auto simp: filter_id_conv filter_empty_conv)
      from "1.IH"(1) [OF Node True sorted(2) counts(2)] show ?thesis
        by (subst (1 2 3 4) split_node.simps) (simp add: Node True shape(1,2) left counts split_beta)
    next
      case False
      have right: "filter (\<lambda>x. x < k) (offsets r) = []" "filter (\<lambda>x. \<not> x < k) (offsets r) = offsets r"
        using sorted(4) False by (auto simp: filter_id_conv filter_empty_conv)
      from "1.IH"(2) [OF Node False sorted(1) counts(1)] show ?thesis
        by (subst (1 2 3 4) split_node.simps) (simp add: Node False shape(1,2) right counts split_beta)
    qed
  qed
qed

lemma merge_spec:
  assumes "counts_ok a" and "counts_ok b"
  shows "offsets (merge_nodes a b) = offsets a @ offsets b \<and> counts_ok (merge_nodes a b)"
  using assms
proof (induction a b rule: merge_nodes.induct)
  case (1 a b)
  show ?case
  proof (cases "a = NoNode \<or> b = NoNode")
    case True
    then show ?thesis using "1.prems" by (subst (1 2) merge_nodes.simps) (auto split: index_node.split)
  next
    case False
    then obtain ap ax ac as al ar bp bx bc bs bl br where a: "a = Node ap ax ac as al ar" and b: "b = Node bp bx bc bs bl br"
      by (metis index_node.exhaust)
    obtain ap' ax' ac' as' al' ar' where pa: "push_node a = Node ap' ax' ac' as' al' ar'" using False push_NoNode by (metis index_node.exhaust)
    obtain bp' bx' bc' bs' bl' br' where pb: "push_node b = Node bp' bx' bc' bs' bl' br'" using False push_NoNode by (metis index_node.exhaust)
    note sa = push_shape [OF pa] and sb = push_shape [OF pb]
    show ?thesis
    proof (cases "ax < bx")
      case True
      from "1.IH"(1) [OF a b True pa] "1.prems" have "offsets (merge_nodes ar' b) = offsets ar' @ offsets b \<and> counts_ok (merge_nodes ar' b)"
        by (simp add: sa(3))
      moreover have "merge_nodes a b = update_node (Node ap' ax' ac' as' al' (merge_nodes ar' b))"
        by (subst merge_nodes.simps) (use True pa in \<open>simp add: a b\<close>)
      ultimately show ?thesis using "1.prems" by (simp add: sa)
    next
      case False
      from "1.IH"(2) [OF a b False pb] "1.prems" have "offsets (merge_nodes a bl') = offsets a @ offsets bl' \<and> counts_ok (merge_nodes a bl')"
        by (simp add: sb(3))
      moreover have "merge_nodes a b = update_node (Node bp' bx' bc' bs' (merge_nodes a bl') br')"
        by (subst merge_nodes.simps) (use False pb in \<open>simp add: a b\<close>)
      ultimately show ?thesis using "1.prems" by (simp add: sb)
    qed
  qed
qed

lemma preceding_spec:
  assumes "sorted_wrt (<) (offsets t)" and "counts_ok t"
  shows "offsets (fst (preceding t k)) = offsets t \<and> counts_ok (fst (preceding t k))
     \<and> snd (preceding t k) = length (filter (\<lambda>x. x < k) (offsets t))"
  using assms
proof (induction t k rule: preceding.induct)
  case (1 t k)
  show ?case
  proof (cases "push_node t")
    case NoNode
    then show ?thesis by (subst (1 2 3) preceding.simps) (simp add: push_NoNode)
  next
    case (Node pos p c s l r)
    note shape = push_shape [OF Node]
    have sorted: "sorted_wrt (<) (offsets l)" "sorted_wrt (<) (offsets r)" "\<forall>x \<in> set (offsets l). x < pos" "\<forall>x \<in> set (offsets r). pos < x"
      using "1.prems"(1) by (auto simp: shape(2) sorted_wrt_append)
    have counts: "counts_ok l" "counts_ok r" "c = 1 + node_count l + node_count r" using "1.prems"(2) by (simp_all add: shape(3))
    show ?thesis
    proof (cases "pos < k")
      case True
      have left: "filter (\<lambda>x. x < k) (offsets l) = offsets l" using sorted(3) True by (auto simp: filter_id_conv)
      from "1.IH"(1) [OF Node True sorted(2) counts(2)] counts show ?thesis
        by (subst (1 2 3) preceding.simps) (simp add: Node True shape(1,2) left split_beta count_offsets)
    next
      case False
      have right: "filter (\<lambda>x. x < k) (offsets r) = []" using sorted(4) False by (auto simp: filter_empty_conv)
      from "1.IH"(2) [OF Node False sorted(1) counts(1)] counts show ?thesis
        by (subst (1 2 3) preceding.simps) (simp add: Node False shape(1,2) right split_beta count_offsets)
    qed
  qed
qed

section \<open>The surrogate pairs of a text\<close>

definition pairs :: "jsstring \<Rightarrow> nat list" where
  "pairs text = filter (pair_at text) [0..<length text - 1]"

lemma set_pairs: "i \<in> set (pairs text) \<longleftrightarrow> Suc i < length text \<and> pair_at text i"
  by (auto simp: pairs_def)

lemma sorted_pairs: "sorted_wrt (<) (pairs text)"
  unfolding pairs_def by (rule sorted_wrt_filter) (rule sorted_wrt_upt)

lemma high_not_low: "high c \<Longrightarrow> \<not> low c"
  by (simp add: high_def low_def)

text \<open>Each pair is one code point of two units, and pairs do not overlap.\<close>

lemma length_pairs_Cons2:
  "length (pairs (a # b # r)) = (if high a \<and> low b then 1 + length (pairs r) else length (pairs (b # r)))"
proof -
  have up: "[0..<length (a # b # r) - 1] = 0 # List.map Suc [0..<length (b # r) - 1]"
    by (simp add: upt_conv_Cons map_Suc_upt del: upt_Suc)
  have shifted: "filter (pair_at (a # b # r)) (List.map Suc xs) = List.map Suc (filter (pair_at (b # r)) xs)" for xs
    by (simp add: filter_map comp_def pair_at_def [abs_def])
  have cons: "length (pairs (a # b # r)) = (if high a \<and> low b then 1 else 0) + length (pairs (b # r))"
    unfolding pairs_def up by (simp add: shifted del: upt_Suc length_Cons) (simp add: pair_at_def)
  show ?thesis
  proof (cases "high a \<and> low b")
    case True
    then have "\<not> high b" using high_not_low by blast
    have "length (pairs (b # r)) = length (pairs r)"
    proof (cases r)
      case (Cons c r')
      have up': "[0..<length (b # c # r') - 1] = 0 # List.map Suc [0..<length (c # r') - 1]"
        by (simp add: upt_conv_Cons map_Suc_upt del: upt_Suc)
      have "filter (pair_at (b # c # r')) (List.map Suc xs) = List.map Suc (filter (pair_at (c # r')) xs)" for xs
        by (simp add: filter_map comp_def pair_at_def [abs_def])
      with \<open>\<not> high b\<close> show ?thesis unfolding pairs_def Cons up' by (simp add: pair_at_def del: upt_Suc length_Cons)
    qed (simp add: pairs_def)
    with cons True show ?thesis by simp
  next
    case False
    with cons show ?thesis by (simp only: if_False add_0)
  qed
qed

lemma codepoints_pairs: "length (codepoints text) + length (pairs text) = length text"
proof (induction "text" rule: codepoints.induct)
  case (1 a b r)
  then show ?case by (auto simp: length_pairs_Cons2)
qed (simp_all add: pairs_def)

lemma pairs_take: "set (pairs (take n text)) = {i \<in> set (pairs text). i + 1 < n}"
  by (auto simp: set_pairs pair_at_def)

section \<open>The index follows the text\<close>

definition index_for :: "jsstring \<Rightarrow> numeric_index \<Rightarrow> bool" where
  "index_for text ix \<longleftrightarrow> ni_utf16Length ix = int (length text) \<and> counts_ok (ni_root ix)
     \<and> offsets (ni_root ix) = List.map int (pairs text)"

lemma scan_fold:
  "counts_ok root \<Longrightarrow> counts_ok (snd (foldl (scan_step text) (seed, root) ks))
     \<and> offsets (snd (foldl (scan_step text) (seed, root) ks)) = offsets root @ List.map int (filter (pair_at text) ks)"
proof (induction ks arbitrary: seed root)
  case (Cons i ks)
  show ?case
  proof (cases "pair_at text i")
    case True
    have "counts_ok (Node (int i) (next_seed seed) 1 0 NoNode NoNode)" by simp
    from merge_spec [OF Cons.prems this] Cons.IH True show ?thesis by (simp add: scan_step_def Let_def)
  qed (use Cons in \<open>simp add: scan_step_def\<close>)
qed simp

lemma scan_spec:
  "counts_ok (snd (scan_text text seed a b))"
  "offsets (snd (scan_text text seed a b)) = List.map int (filter (pair_at text) [a..<min b (length text - 1)])"
  using scan_fold [of NoNode "text" seed] by (simp_all add: scan_text_def)

lemma reset_index_for: "index_for text (index_reset ix text)"
  using scan_spec [of "text" "ni_seed ix" 0 "length text"]
  by (simp add: index_for_def index_reset_def split_beta Let_def pairs_def)

lemma sorted_index: "index_for text ix \<Longrightarrow> sorted_wrt (<) (offsets (ni_root ix))"
  using sorted_pairs [of "text"] by (simp add: index_for_def sorted_wrt_map)

text \<open>Two texts that agree outside a span have the same pairs outside it and its boundaries.\<close>

definition spliced :: "jsstring \<Rightarrow> jsstring \<Rightarrow> nat \<Rightarrow> nat \<Rightarrow> bool" where
  "spliced text text' start stop \<longleftrightarrow> start \<le> stop \<and> stop \<le> length text \<and> start + length text \<le> length text' + stop
     \<and> take start text' = take start text \<and> drop (length text' + stop - length text) text' = drop stop text"

lemma spliced_arith:
  assumes "spliced text text' start stop" and "mid = length text' + stop - length text"
  shows "start \<le> stop" "stop \<le> length text" "start \<le> mid" "mid \<le> length text'" "mid + length text = length text' + stop"
  using assms unfolding spliced_def by linarith+

lemma spliced_nth:
  assumes "spliced text text' start stop" and "mid = length text' + stop - length text"
  shows "i < start \<Longrightarrow> text' ! i = text ! i"
    and "stop + i < length text \<Longrightarrow> text' ! (mid + i) = text ! (stop + i)"
proof -
  note s = assms(1) [unfolded spliced_def] and a = spliced_arith [OF assms]
  show "i < start \<Longrightarrow> text' ! i = text ! i" using s nth_take [of i start] by metis
  show "text' ! (mid + i) = text ! (stop + i)" if "stop + i < length text"
    using s that nth_drop [of mid text' i] nth_drop [of stop "text" i] a by (simp add: assms(2) [symmetric])
qed

lemma spliced_pairs:
  assumes "spliced text text' start stop" and "mid = length text' + stop - length text"
  shows "i + 1 < start \<Longrightarrow> i \<in> set (pairs text') \<longleftrightarrow> i \<in> set (pairs text)"
    and "mid + i \<in> set (pairs text') \<longleftrightarrow> stop + i \<in> set (pairs text)"
proof -
  note a = spliced_arith [OF assms]
  note nth = spliced_nth [OF assms]
  show "i \<in> set (pairs text') \<longleftrightarrow> i \<in> set (pairs text)" if "i + 1 < start"
  proof -
    have "Suc i < length text" "Suc i < length text'" using that a by linarith+
    then show ?thesis using that nth(1) [of i] nth(1) [of "i + 1"] by (simp add: set_pairs pair_at_def)
  qed
  show "mid + i \<in> set (pairs text') \<longleftrightarrow> stop + i \<in> set (pairs text)"
  proof (cases "Suc (stop + i) < length text")
    case True
    then have "Suc (mid + i) < length text'" using a by linarith
    with True nth(2) [of i] nth(2) [of "i + 1"] show ?thesis by (simp add: set_pairs pair_at_def)
  next
    case False
    then have "\<not> Suc (mid + i) < length text'" using a by linarith
    with False show ?thesis by (simp add: set_pairs)
  qed
qed

text \<open>The pairs after an edit: those before it, those found around it, and those after it, moved.\<close>

lemma pairs_after:
  assumes "spliced text text' start stop"
    and mid_def: "mid = length text' + stop - length text"
  shows "List.map int (filter (\<lambda>i. i < start - 1) (pairs text))
       @ List.map int (filter (pair_at text') [start - 1..<min (mid + 1) (length text' - 1)])
       @ List.map (\<lambda>i. int i + (int (length text') - int (length text))) (filter (\<lambda>i. stop < i) (pairs text))
     = List.map int (pairs text')"
    (is "?b @ ?m @ ?a = _")
proof (rule strict_sorted_equal)
  note a = spliced_arith [OF assms] and same = spliced_pairs [OF assms]
  have mid: "int mid = int (length text') - int (length text) + int stop" "start \<le> mid" "mid \<le> length text'"
    using a by linarith+
  have up: "sorted_wrt (<) (List.map int xs)" if "sorted_wrt (<) xs" for xs
    using that by (simp add: sorted_wrt_map)
  show "sorted_wrt (<) (List.map int (pairs text'))" by (rule up [OF sorted_pairs])
  have "sorted_wrt (<) ?b" "sorted_wrt (<) ?m" "sorted_wrt (<) ?a"
    using sorted_pairs [of "text"] by (auto simp: sorted_wrt_map intro!: sorted_wrt_filter)
  then show "sorted_wrt (<) (?b @ ?m @ ?a)"
    using mid by (auto simp: sorted_wrt_append)
  show "set (?b @ ?m @ ?a) = set (List.map int (pairs text'))"
  proof (rule sym, intro set_eqI iffI)
    fix x assume "x \<in> set (List.map int (pairs text'))"
    then obtain k where k: "x = int k" "k \<in> set (pairs text')" by auto
    consider "k < start - 1" | "start - 1 \<le> k" "k \<le> mid" | "mid < k" by linarith
    then show "x \<in> set (?b @ ?m @ ?a)"
    proof cases
      case 1
      then have "k \<in> set (pairs text)" using same(1) [of k] k(2) by simp
      with 1 k(1) show ?thesis by simp
    next
      case 2
      with k show ?thesis by (auto simp: set_pairs)
    next
      case 3
      define i where "i = k - mid"
      have "k = mid + i" "0 < i" using 3 by (auto simp: i_def)
      with same(2) [of i] k(2) have "stop + i \<in> set (pairs text)" by simp
      moreover have "x = int (stop + i) + (int (length text') - int (length text))"
        using \<open>k = mid + i\<close> mid(1) k(1) by simp
      ultimately show ?thesis using \<open>0 < i\<close> by (auto intro!: image_eqI [of _ _ "stop + i"])
    qed
  next
    fix x assume "x \<in> set (?b @ ?m @ ?a)"
    then consider k where "x = int k" "k \<in> set (pairs text)" "k < start - 1"
      | k where "x = int k" "pair_at text' k" "k < length text' - 1"
      | k where "x = int k + (int (length text') - int (length text))" "k \<in> set (pairs text)" "stop < k" by auto
    then show "x \<in> set (List.map int (pairs text'))"
    proof cases
      case 1
      then show ?thesis using same(1) [of k] by simp
    next
      case 2
      then show ?thesis by (auto simp: set_pairs)
    next
      case 3
      define i where "i = k - stop"
      have i: "k = stop + i" using 3(3) by (simp add: i_def)
      then have "mid + i \<in> set (pairs text')" using same(2) [of i] 3(2) by simp
      moreover have "x = int (mid + i)" using 3(1) i(1) mid(1) by simp
      ultimately show ?thesis by (auto intro!: image_eqI [of _ _ "mid + i"])
    qed
  qed
qed

lemma replace_index_for:
  assumes "index_for text ix" and "spliced text text' start stop"
  shows "\<exists>ix'. index_replace ix text' (int start) (int stop) = Inr ix' \<and> index_for text' ix'"
proof -
  note s = assms(2) [unfolded spliced_def]
  let ?n = "length text" and ?n' = "length text'"
  have u: "ni_utf16Length ix = int ?n" using assms(1) by (simp add: index_for_def)
  let ?ins = "?n' + stop - start - ?n" and ?first = "start - 1"
  have "start + ?n \<le> ?n' + stop" using s by linarith
  then have ins: "int ?n' - int ?n + int stop - int start = int ?ins" by (simp add: of_nat_diff)
  have first: "max 0 (int start - 1) = int ?first" by simp
  obtain before rest where sp: "split_node (ni_root ix) (int ?first) = (before, rest)" by fastforce
  obtain gone after where sp2: "split_node rest (int stop + 1) = (gone, after)" by fastforce
  let ?delta = "int ?n' - int ?n"
  obtain seed middle where sc: "scan_text text' (ni_seed ix) ?first (start + ?ins + 1) = (seed, middle)" by fastforce
  have counts: "counts_ok (ni_root ix)" "offsets (ni_root ix) = List.map int (pairs text)" using assms(1) by (simp_all add: index_for_def)
  from split_spec [OF sorted_index [OF assms(1)] counts(1), of "int ?first"] sp
  have b: "offsets before = filter (\<lambda>x. x < int ?first) (offsets (ni_root ix))" "counts_ok before"
    and r: "offsets rest = filter (\<lambda>x. \<not> x < int ?first) (offsets (ni_root ix))" "counts_ok rest" by simp_all
  have "sorted_wrt (<) (offsets rest)" unfolding r(1) by (rule sorted_wrt_filter [OF sorted_index [OF assms(1)]])
  from split_spec [OF this r(2), of "int stop + 1"] sp2
  have a: "offsets after = filter (\<lambda>x. \<not> x < int stop + 1) (offsets rest)" "counts_ok after" by simp_all
  have m: "counts_ok middle" "offsets middle = List.map int (filter (pair_at text') [?first..<min (start + ?ins + 1) (?n' - 1)])"
    using scan_spec [of text' "ni_seed ix" ?first "start + ?ins + 1"] sc by simp_all
  let ?root = "merge_nodes (merge_nodes before middle) (shift_node after ?delta)"
  have root: "counts_ok ?root" "offsets ?root = offsets before @ offsets middle @ List.map (\<lambda>x. x + ?delta) (offsets after)"
    using merge_spec [OF b(2) m(1)] merge_spec [of "merge_nodes before middle" "shift_node after ?delta"] a(2) by simp_all
  have mid: "?n' + stop - ?n + 1 = start + ?ins + 1" using s by linarith
  have "offsets before = List.map int (filter (\<lambda>i. i < ?first) (pairs text))"
    by (simp add: b(1) counts(2) filter_map comp_def)
  moreover have "List.map (\<lambda>x. x + ?delta) (offsets after) = List.map (\<lambda>i. int i + ?delta) (filter (\<lambda>i. stop < i) (pairs text))"
  proof -
    have "filter (\<lambda>i. \<not> int i < int stop + 1 \<and> \<not> int i < int ?first) (pairs text) = filter (\<lambda>i. stop < i) (pairs text)"
      using s by (intro filter_cong refl) auto
    then show ?thesis by (simp add: a(1) r(1) counts(2) filter_map comp_def conj_commute)
  qed
  ultimately have "offsets ?root = List.map int (pairs text')"
    using pairs_after [OF assms(2) refl] unfolding root(2) m(2) mid by simp
  then have "index_for text' \<lparr>ni_root = ?root, ni_seed = seed, ni_utf16Length = int ?n'\<rparr>" using root(1) by (simp add: index_for_def)
  moreover have "index_replace ix text' (int start) (int stop) = Inr \<lparr>ni_root = ?root, ni_seed = seed, ni_utf16Length = int ?n'\<rparr>"
  proof -
    have g: "\<not> (int start < 0 \<or> int stop < int start \<or> int ?n < int stop)" "\<not> int ?ins < 0" using s by auto
    have e: "nat (int start + int ?ins + 1) = start + ?ins + 1" by simp
    show ?thesis unfolding index_replace_def u Let_def ins first
      by (simp only: guard_def g if_False sp prod.case sp2 nat_int e sc)
  qed
  ultimately show ?thesis by blast
qed

section \<open>Offsets in code points\<close>

text \<open>\<open>codepointCount\<close> and \<open>codepointOffsetOf\<close> of the extension's \<open>lib/codepoint.ts\<close>.\<close>

definition codepointCount :: "jsstring \<Rightarrow> int" where
  "codepointCount text = int (length (codepoints text))"

definition codepointOffsetOf :: "jsstring \<Rightarrow> int \<Rightarrow> int" where
  "codepointOffsetOf text utf16 = (if utf16 \<le> 0 then 0 else if utf16 \<ge> int (length text) then codepointCount text
     else codepointCount (take (nat utf16) text))"

lemma index_length_exact: "index_for text ix \<Longrightarrow> index_length ix = codepointCount text"
  using codepoints_pairs [of "text"] by (simp add: index_for_def index_length_def count_offsets codepointCount_def)

lemma index_offset_exact:
  assumes "index_for text ix"
  shows "snd (index_offset ix k) = codepointOffsetOf text k" and "index_for text (fst (index_offset ix k))"
proof -
  define n where "n = nat (max 0 (min (int (length text)) k))"
  have n: "max 0 (min (ni_utf16Length ix) k) = int n" "n \<le> length text" using assms by (simp_all add: index_for_def n_def)
  have ok: "counts_ok (ni_root ix)" "offsets (ni_root ix) = List.map int (pairs text)" using assms by (simp_all add: index_for_def)
  note p = preceding_spec [OF sorted_index [OF assms] ok(1), of "int n - 1"]
  show "index_for text (fst (index_offset ix k))"
    using assms p ok unfolding index_offset_def Let_def split_beta n(1) by (simp add: index_for_def)
  have "pairs (take n text) = filter (\<lambda>i. int i < int n - 1) (pairs text)"
    by (rule strict_sorted_equal) (auto simp: sorted_pairs pairs_take intro: sorted_wrt_filter)
  then have "snd (preceding (ni_root ix) (int n - 1)) = length (pairs (take n text))"
    using p by (simp add: ok(2) filter_map comp_def)
  then have "snd (index_offset ix k) = int n - int (length (pairs (take n text)))"
    unfolding index_offset_def Let_def split_beta n(1) by simp
  also have "\<dots> = codepointCount (take n text)"
    using codepoints_pairs [of "take n text"] n(2) by (simp add: codepointCount_def)
  also have "\<dots> = codepointOffsetOf text k"
    by (auto simp: codepointOffsetOf_def n_def codepointCount_def min_def max_def)
  finally show "snd (index_offset ix k) = codepointOffsetOf text k" .
qed

section \<open>Input events\<close>

record text_intent =
  ti_length :: int
  ti_start :: "int option"
  ti_end :: "int option"
  ti_inputType :: jsstring
  ti_dataLength :: "int option"

definition starts_with :: "string \<Rightarrow> jsstring \<Rightarrow> bool" where
  "starts_with p s \<longleftrightarrow> take (length p) s = js p"

datatype span_choice = KeepIndex | RebuildIndex | ReplaceSpan int int

text \<open>The span that an input event replaced, from the lengths before and after and the facts of the event.\<close>

definition event_span :: "int \<Rightarrow> int \<Rightarrow> int \<Rightarrow> text_intent \<Rightarrow> int \<Rightarrow> int \<Rightarrow> (int \<times> int) option" where
  "event_span len lenAfter caret i start stop =
     (if starts_with ''delete'' (ti_inputType i) \<and> start = stop
      then (let deleted = len - lenAfter in if deleted < 0 then None else Some (caret, caret + deleted))
      else if ti_inputType i = js ''insertReplacementText'' \<and> ti_dataLength i \<noteq> None
      then (let start = caret - the (ti_dataLength i) in Some (start, start + len - lenAfter + the (ti_dataLength i)))
      else if \<not> starts_with ''insert'' (ti_inputType i) \<and> \<not> starts_with ''delete'' (ti_inputType i) then None
      else Some (start, stop))"

definition span_of_event :: "int \<Rightarrow> int \<Rightarrow> int option \<Rightarrow> text_intent option \<Rightarrow> span_choice" where
  "span_of_event len lenAfter caret intent =
     (case (intent, caret) of
        (Some i, Some c) \<Rightarrow>
          if ti_length i \<noteq> len \<or> ti_start i = None \<or> ti_end i = None
            \<or> starts_with ''history'' (ti_inputType i) \<or> starts_with ''format'' (ti_inputType i)
          then (if starts_with ''format'' (ti_inputType i) \<and> lenAfter = len then KeepIndex else RebuildIndex)
          else (case event_span len lenAfter c i (min (the (ti_start i)) (the (ti_end i))) (max (the (ti_start i)) (the (ti_end i))) of
              None \<Rightarrow> RebuildIndex
            | Some (start, stop) \<Rightarrow>
                let inserted = lenAfter - len + stop - start in
                if start < 0 \<or> stop < start \<or> stop > len \<or> inserted < 0 \<or> c \<noteq> start + inserted then RebuildIndex
                else ReplaceSpan start stop)
      | (Some i, None) \<Rightarrow> if starts_with ''format'' (ti_inputType i) \<and> lenAfter = len then KeepIndex else RebuildIndex
      | (None, _) \<Rightarrow> RebuildIndex)"

definition applyNumericTextInput :: "numeric_index \<Rightarrow> jsstring \<Rightarrow> int option \<Rightarrow> text_intent option \<Rightarrow> index_error + numeric_index" where
  "applyNumericTextInput ix textAfter caret intent =
     (case span_of_event (ni_utf16Length ix) (int (length textAfter)) caret intent of
        KeepIndex \<Rightarrow> Inr ix
      | RebuildIndex \<Rightarrow> Inr (index_reset ix textAfter)
      | ReplaceSpan start stop \<Rightarrow> index_replace ix textAfter start stop)"

text \<open>The facts of an event are true when the text changed in the span they measure only.\<close>

definition truthful :: "jsstring \<Rightarrow> jsstring \<Rightarrow> int option \<Rightarrow> text_intent option \<Rightarrow> bool" where
  "truthful text textAfter caret intent \<longleftrightarrow>
     (case span_of_event (int (length text)) (int (length textAfter)) caret intent of
        KeepIndex \<Rightarrow> textAfter = text
      | RebuildIndex \<Rightarrow> True
      | ReplaceSpan start stop \<Rightarrow> spliced text textAfter (nat start) (nat stop))"

lemma replaced_span_bounds:
  "span_of_event len lenAfter caret intent = ReplaceSpan start stop \<Longrightarrow> 0 \<le> start \<and> start \<le> stop \<and> stop \<le> len"
  by (auto simp: span_of_event_def Let_def split: option.splits if_splits prod.splits)

lemma apply_index_for:
  assumes "index_for text ix" and "truthful text textAfter caret intent"
  shows "\<exists>ix'. applyNumericTextInput ix textAfter caret intent = Inr ix' \<and> index_for textAfter ix'"
proof -
  have u: "ni_utf16Length ix = int (length text)" using assms(1) by (simp add: index_for_def)
  show ?thesis
  proof (cases "span_of_event (int (length text)) (int (length textAfter)) caret intent")
    case (ReplaceSpan start stop)
    with replaced_span_bounds [OF ReplaceSpan] replace_index_for [OF assms(1), of textAfter "nat start" "nat stop"] assms(2)
    show ?thesis by (simp add: applyNumericTextInput_def truthful_def u)
  qed (use assms reset_index_for in \<open>simp_all add: applyNumericTextInput_def truthful_def u\<close>)
qed

text \<open>What the browser guarantees for typing over a selection, and for deleting at a caret, is truthful.\<close>

lemma typing_truthful:
  assumes "a \<le> b" and "b \<le> length text" and "starts_with ''insert'' kind" and "kind \<noteq> js ''insertReplacementText''"
  shows "truthful text (take a text @ typed @ drop b text) (Some (int (a + length typed)))
     (Some \<lparr>ti_length = int (length text), ti_start = Some (int a), ti_end = Some (int b), ti_inputType = kind, ti_dataLength = d\<rparr>)"
proof -
  have "\<not> starts_with ''delete'' kind" "\<not> starts_with ''history'' kind" "\<not> starts_with ''format'' kind"
    using assms(3) by (cases kind; simp add: starts_with_def)+
  moreover have "spliced text (take a text @ typed @ drop b text) a b"
    using assms(1,2) by (simp add: spliced_def)
  ultimately show ?thesis
    using assms by (simp add: truthful_def span_of_event_def event_span_def Let_def)
qed

section \<open>Every history of a field\<close>

datatype field_event =
    TextInput jsstring "int option" "text_intent option"
  | TextReset jsstring
  | OffsetAsked int

fun field_step :: "numeric_index \<Rightarrow> field_event \<Rightarrow> index_error + numeric_index" where
  "field_step ix (TextInput textAfter caret intent) = applyNumericTextInput ix textAfter caret intent"
| "field_step ix (TextReset text) = Inr (index_reset ix text)"
| "field_step ix (OffsetAsked k) = Inr (fst (index_offset ix k))"

fun text_after :: "jsstring \<Rightarrow> field_event \<Rightarrow> jsstring" where
  "text_after text (TextInput textAfter caret intent) = textAfter"
| "text_after text (TextReset text') = text'"
| "text_after text (OffsetAsked k) = text"

fun truthful_run :: "jsstring \<Rightarrow> field_event list \<Rightarrow> bool" where
  "truthful_run text [] \<longleftrightarrow> True"
| "truthful_run text (e # es) \<longleftrightarrow>
     (case e of TextInput textAfter caret intent \<Rightarrow> truthful text textAfter caret intent | _ \<Rightarrow> True)
     \<and> truthful_run (text_after text e) es"

lemma run_index_for:
  "index_for text ix \<Longrightarrow> truthful_run text es \<Longrightarrow>
     \<exists>ix'. run_steps field_step ix es = Inr ix' \<and> index_for (foldl text_after text es) ix'"
proof (induction es arbitrary: "text" ix)
  case (Cons e es)
  have "\<exists>ix1. field_step ix e = Inr ix1 \<and> index_for (text_after text e) ix1"
    using Cons.prems apply_index_for reset_index_for index_offset_exact(2) by (cases e) auto
  with Cons.IH Cons.prems(2) show ?case by fastforce
qed simp

text \<open>C33: The index of a field agrees with its text, which it never keeps. After any inputs whose measured
  facts are true, resets and questions, in any order, the index has not failed, its length is the number of
  code points of the text as it is now, and the offset it gives for any UTF-16 offset is the number of code
  points before it that \<open>codepointOffsetOf\<close> counts in the text.\<close>

theorem numeric_index_exact:
  assumes "truthful_run text events"
  shows "\<exists>ix. run_steps field_step (new_index text) events = Inr ix
     \<and> index_length ix = codepointCount (foldl text_after text events)
     \<and> (\<forall>k. snd (index_offset ix k) = codepointOffsetOf (foldl text_after text events) k)"
proof -
  have "index_for text (new_index text)" unfolding new_index_def by (rule reset_index_for)
  from run_index_for [OF this assms] index_length_exact index_offset_exact(1) show ?thesis by blast
qed

definition sample_intent :: text_intent where
  "sample_intent = \<lparr>ti_length = 4, ti_start = Some 1, ti_end = Some 1, ti_inputType = js ''insertText'', ti_dataLength = None\<rparr>"

lemma numeric_index_exact_witness:
  "\<exists>ix. run_steps field_step (new_index [97, 0xd83d, 0xde00, 98])
       [TextInput [97, 0xd83d, 0xde00, 0xd83d, 0xde00, 98] (Some 3) (Some sample_intent), OffsetAsked 2] = Inr ix
     \<and> index_length ix = 4 \<and> snd (index_offset ix 5) = 3"
proof -
  let ?events = "[TextInput [97, 0xd83d, 0xde00, 0xd83d, 0xde00, 98] (Some 3) (Some sample_intent), OffsetAsked 2]"
  have "truthful_run [97, 0xd83d, 0xde00, 98] ?events" by code_simp
  from numeric_index_exact [OF this] obtain ix where
    r: "run_steps field_step (new_index [97, 0xd83d, 0xde00, 98]) ?events = Inr ix"
    and l: "index_length ix = codepointCount [97, 0xd83d, 0xde00, 0xd83d, 0xde00, 98]"
    and f: "snd (index_offset ix 5) = codepointOffsetOf [97, 0xd83d, 0xde00, 0xd83d, 0xde00, 98] 5" by auto
  have "codepointCount [97, 0xd83d, 0xde00, 0xd83d, 0xde00, 98] = 4"
    "codepointOffsetOf [97, 0xd83d, 0xde00, 0xd83d, 0xde00, 98] 5 = 3" by code_simp+
  with r l f show ?thesis by auto
qed

end
