(* ===== verification/Measured_Input.thy ===== *)
theory Measured_Input
  imports Numeric_Index Observed_Length Producer_Session
begin

text \<open>
  The mutation that an input event recorded in numbers stands for
  (\<open>packages/producer-core/src/measured-input.ts\<close>), and the helpers of the extension that build mutations
  from a transient look at the text (\<open>apps/browser-extension/src/lib/codepoint.ts\<close>). Every mutation they
  build accounts exactly for the change of length it was measured from.
\<close>

section \<open>Measured input\<close>

text \<open>A measurement of a field, and with the facts of an event the intent to change it.\<close>

record measured =
  me_lengthBefore :: int
  me_start :: "int option"
  me_selected :: "int option"

record measured_intent = measured +
  mi_inputType :: jsstring
  mi_data :: "int option"

definition one_of :: "string list \<Rightarrow> jsstring \<Rightarrow> bool" where
  "one_of names s \<longleftrightarrow> s \<in> set (List.map js names)"

definition sourceFromInputType :: "jsstring option \<Rightarrow> source" where
  "sourceFromInputType inputType = (case inputType of None \<Rightarrow> UnknownSource | Some t \<Rightarrow>
     if one_of [''insertText'', ''insertLineBreak'', ''insertParagraph'', ''deleteContentBackward'', ''deleteContentForward'',
       ''deleteWordBackward'', ''deleteWordForward'', ''deleteSoftLineBackward'', ''deleteSoftLineForward'',
       ''deleteHardLineBackward'', ''deleteHardLineForward''] t then Typing
     else if one_of [''insertFromPaste'', ''insertFromPasteAsQuotation''] t then Paste
     else if one_of [''deleteByCut''] t then Cut
     else if one_of [''insertFromDrop'', ''deleteByDrag''] t then Drop
     else if one_of [''insertCompositionText'', ''insertFromComposition''] t then Ime
     else if one_of [''insertReplacementText'', ''insertFromYank''] t then Autocomplete
     else UnknownSource)"

definition unknownMutation :: "source \<Rightarrow> pending_mutation" where
  "unknownMutation src = \<lparr>pm_op = OpReplace, pm_pos = None, pm_del_len = None, pm_ins_len = None, pm_source = src\<rparr>"

definition lineBreakInsertedCodepoints :: "jsstring \<Rightarrow> int \<Rightarrow> int option" where
  "lineBreakInsertedCodepoints inputType data =
     (if one_of [''insertParagraph'', ''insertLineBreak''] inputType then Some (max 1 data) else None)"

text \<open>How much an insertion inserted: by the event's data, or by the lengths and the selection it replaced.\<close>

definition inserted_count :: "measured_intent \<Rightarrow> int \<Rightarrow> int option" where
  "inserted_count i delta =
     (case lineBreakInsertedCodepoints (mi_inputType i) (default_to 0 (mi_data i)) of Some n \<Rightarrow> Some n
      | None \<Rightarrow> (case mi_data i of Some n \<Rightarrow> Some n
         | None \<Rightarrow> if one_of [''insertText'', ''insertFromPaste'', ''insertFromPasteAsQuotation'', ''insertFromDrop'', ''insertFromYank'']
               (mi_inputType i) then map_option (\<lambda>n. delta + n) (me_selected i) else None))"

definition deletion_of :: "measured_intent \<Rightarrow> int \<Rightarrow> int option \<Rightarrow> pending_mutation" where
  "deletion_of i delta caret =
     \<lparr>pm_op = OpDelete,
      pm_pos = (case caret of Some c \<Rightarrow> if c \<ge> 0 \<and> c - delta \<le> me_lengthBefore i then Some c else None | None \<Rightarrow> None),
      pm_del_len = Some (- delta), pm_ins_len = Some 0, pm_source = sourceFromInputType (Some (mi_inputType i))\<rparr>"

definition insertion_of :: "measured_intent \<Rightarrow> int \<Rightarrow> int option \<Rightarrow> pending_mutation option" where
  "insertion_of i delta caret = (case inserted_count i delta of None \<Rightarrow> None | Some inserted \<Rightarrow>
     if inserted > 0 then
       (let deleted = inserted - delta;
            replacement = (mi_inputType i = js ''insertReplacementText'');
            pos = (if replacement then map_option (\<lambda>c. c - inserted) caret else me_start i) in
        if deleted \<ge> 0 \<and> deleted \<le> me_lengthBefore i
          \<and> (replacement \<or> me_selected i = None \<or> Some deleted = me_selected i)
          \<and> (\<forall>p \<in> set_option pos. p \<ge> 0 \<and> p + deleted \<le> me_lengthBefore i \<and> (caret = None \<or> caret = Some (p + inserted)))
        then Some \<lparr>pm_op = (if deleted > 0 then OpReplace else OpInsert), pm_pos = pos, pm_del_len = Some deleted,
          pm_ins_len = Some inserted, pm_source = sourceFromInputType (Some (mi_inputType i))\<rparr>
        else None)
     else None)"

definition deriveMutationFromMeasuredInput :: "measured_intent \<Rightarrow> int \<Rightarrow> int option \<Rightarrow> pending_mutation option" where
  "deriveMutationFromMeasuredInput i lengthAfter caretAfter =
     (let delta = lengthAfter - me_lengthBefore i; src = sourceFromInputType (Some (mi_inputType i)) in
      if starts_with ''format'' (mi_inputType i) \<and> delta = 0 then None
      else if starts_with ''history'' (mi_inputType i) then Some (unknownMutation UnknownSource)
      else if starts_with ''delete'' (mi_inputType i) \<and> delta < 0 then Some (deletion_of i delta caretAfter)
      else if starts_with ''insert'' (mi_inputType i)
      then (case insertion_of i delta caretAfter of Some m \<Rightarrow> Some m | None \<Rightarrow> Some (unknownMutation src))
      else Some (unknownMutation src))"

section \<open>The helpers of the extension\<close>

definition operationFor :: "int \<Rightarrow> int \<Rightarrow> operation" where
  "operationFor ins del = (if del > 0 \<and> ins = 0 then OpDelete else if del > 0 \<and> ins > 0 then OpReplace else OpInsert)"

definition insertedCodepointsForInput :: "jsstring option \<Rightarrow> jsstring \<Rightarrow> int" where
  "insertedCodepointsForInput inputType inserted =
     (if inputType = Some (js ''insertLineBreak'') \<or> inputType = Some (js ''insertParagraph'')
      then max 1 (codepointCount inserted) else codepointCount inserted)"

definition isDeletionInputType :: "jsstring option \<Rightarrow> bool" where
  "isDeletionInputType inputType \<longleftrightarrow> (\<exists>t \<in> set_option inputType. starts_with ''delete'' t)"

definition isNetChangeInputType :: "jsstring option \<Rightarrow> bool" where
  "isNetChangeInputType inputType \<longleftrightarrow> (\<exists>t \<in> set_option inputType. starts_with ''history'' t \<or> starts_with ''format'' t)"

definition collapsedDeletionMutation :: "int \<Rightarrow> int \<Rightarrow> int \<Rightarrow> source \<Rightarrow> pending_mutation option" where
  "collapsedDeletionMutation lengthBefore lengthAfter caretAfter src =
     (let del = lengthBefore - lengthAfter in
      if del \<le> 0 then None
      else Some \<lparr>pm_op = OpDelete, pm_pos = Some (max 0 caretAfter), pm_del_len = Some del, pm_ins_len = Some 0, pm_source = src\<rparr>)"

definition measuredReplacementMutation :: "int \<Rightarrow> int \<Rightarrow> int \<Rightarrow> int \<Rightarrow> source \<Rightarrow> pending_mutation option" where
  "measuredReplacementMutation lengthBefore lengthAfter insLen caretAfter src =
     (let del = max 0 (lengthBefore - lengthAfter + insLen) in
      if del = 0 \<and> insLen = 0 then None
      else Some \<lparr>pm_op = operationFor insLen del, pm_pos = Some (max 0 (caretAfter - insLen)), pm_del_len = Some del,
        pm_ins_len = Some insLen, pm_source = src\<rparr>)"

definition compositionMutation :: "int option \<Rightarrow> int option \<Rightarrow> jsstring \<Rightarrow> pending_mutation option" where
  "compositionMutation pos del committed =
     (let ins = codepointCount committed in
      if ins = 0 \<and> default_to 0 del = 0 then None
      else Some \<lparr>pm_op = (case del of Some d \<Rightarrow> operationFor ins d | None \<Rightarrow> OpInsert), pm_pos = pos, pm_del_len = del,
        pm_ins_len = Some ins, pm_source = Ime\<rparr>)"

definition contentEditableInsertedCodepoints :: "jsstring option \<Rightarrow> jsstring option \<Rightarrow> jsstring option \<Rightarrow> int option" where
  "contentEditableInsertedCodepoints inputType data transferred =
     (if inputType = Some (js ''insertLineBreak'') \<or> inputType = Some (js ''insertParagraph'')
      then Some (max 1 (codepointCount (default_to [] data)))
      else if default_to [] data \<noteq> [] then Some (codepointCount (default_to [] data))
      else if default_to [] transferred \<noteq> [] then Some (codepointCount (default_to [] transferred))
      else None)"

text \<open>A net difference of lengths establishes neither size.\<close>

definition netLengthChangeMutation :: "int \<Rightarrow> int \<Rightarrow> pending_mutation" where
  "netLengthChangeMutation lengthBefore lengthAfter = unknownMutation UnknownSource"

text \<open>\<open>slice\<close> between two indices that are not negative.\<close>

definition js_slice :: "jsstring \<Rightarrow> int \<Rightarrow> int \<Rightarrow> jsstring" where
  "js_slice s a b = take (nat b - nat a) (drop (nat a) s)"

definition buildTextFieldMutation :: "jsstring \<Rightarrow> int \<Rightarrow> int \<Rightarrow> jsstring \<Rightarrow> jsstring option \<Rightarrow> pending_mutation" where
  "buildTextFieldMutation text selectionStart selectionEnd inserted inputType =
     (let ins = insertedCodepointsForInput inputType inserted;
          del_start = min selectionStart selectionEnd;
          del_end = max selectionStart selectionEnd;
          del = codepointCount (js_slice text del_start del_end) in
      \<lparr>pm_op = operationFor ins del, pm_pos = Some (codepointOffsetOf text del_start), pm_del_len = Some del,
       pm_ins_len = Some ins, pm_source = sourceFromInputType inputType\<rparr>)"

section \<open>Mutations that account for a change of length\<close>

text \<open>A mutation accounts for a change when its numbers pass the validator of events and, where its sizes
  are known, they are the change; where its place is known, the removed span lies in the document.\<close>

definition accounts :: "int \<Rightarrow> int \<Rightarrow> pending_mutation \<Rightarrow> bool" where
  "accounts before after m \<longleftrightarrow>
     consistent_sizes (pm_op m) (pm_del_len m) (pm_ins_len m)
     \<and> (\<forall>p \<in> set_option (pm_pos m). 0 \<le> p \<and> p \<le> before)
     \<and> (\<forall>d \<in> set_option (pm_del_len m). 0 \<le> d \<and> d \<le> before)
     \<and> (\<forall>n \<in> set_option (pm_ins_len m). 0 \<le> n \<and> n \<le> after)
     \<and> (\<forall>d \<in> set_option (pm_del_len m). \<forall>n \<in> set_option (pm_ins_len m).
          before - d + n = after \<and> (\<forall>p \<in> set_option (pm_pos m). p + d \<le> before))"

lemma accounts_unknown [simp]: "accounts before after (unknownMutation src)"
  by (simp add: accounts_def unknownMutation_def)

lemma accounts_gap: "accounts before after m \<Longrightarrow> accounts before after (m\<lparr>pm_pos := None\<rparr>)"
  by (simp add: accounts_def)

lemma deletion_accounts:
  "0 \<le> after \<Longrightarrow> after < me_lengthBefore i \<Longrightarrow>
     accounts (me_lengthBefore i) after (deletion_of i (after - me_lengthBefore i) caret)"
  by (auto simp: accounts_def deletion_of_def split: option.splits)

lemma insertion_accounts:
  assumes "0 \<le> after" and "insertion_of i (after - me_lengthBefore i) caret = Some m"
  shows "accounts (me_lengthBefore i) after m"
  using assms by (auto simp: accounts_def insertion_of_def Let_def split: option.splits if_splits)

text \<open>What is derived from a measurement accounts for it; nothing is derived only when nothing changed.\<close>

lemma derived_accounts:
  assumes "0 \<le> after"
  shows "(case deriveMutationFromMeasuredInput i after caret of
      None \<Rightarrow> after = me_lengthBefore i
    | Some m \<Rightarrow> accounts (me_lengthBefore i) after m)"
  using deletion_accounts [OF assms, of i] insertion_accounts [OF assms, of i]
  by (auto simp: deriveMutationFromMeasuredInput_def Let_def split: option.splits)

section \<open>Code points of a text put together\<close>

text \<open>Two texts meet cleanly when no surrogate pair lies across their boundary.\<close>

definition clean :: "jsstring \<Rightarrow> jsstring \<Rightarrow> bool" where
  "clean a b \<longleftrightarrow> a = [] \<or> b = [] \<or> \<not> (high (last a) \<and> low (hd b))"

lemma codepoints_append: "clean a b \<Longrightarrow> codepoints (a @ b) = codepoints a @ codepoints b"
proof (induction a rule: codepoints.induct)
  case (1 h l r)
  have tail: "clean (l # r) b" using 1(3) by (simp add: clean_def)
  show ?case
  proof (cases "high h \<and> low l")
    case True
    have "clean r b" using tail high_not_low [of l] True by (auto simp: clean_def high_not_low)
    with 1(1) True show ?thesis by simp
  next
    case False
    with 1(2) tail show ?thesis by auto
  qed
qed (simp, cases b, auto simp: clean_def)

lemma codepointCount_append: "clean a b \<Longrightarrow> codepointCount (a @ b) = codepointCount a + codepointCount b"
  by (simp add: codepointCount_def codepoints_append)

lemma codepointCount_simps [simp]: "0 \<le> codepointCount s" "codepointCount [] = 0" "codepointCount s = 0 \<longleftrightarrow> s = []"
  by (simp_all add: codepointCount_def)

lemma codepointCount_le: "codepointCount s \<le> int (length s)"
  using codepointLength_le [of s] by (simp add: codepointCount_def codepointLength_def)

lemma codepointCount_pos: "s \<noteq> [] \<Longrightarrow> 0 < codepointCount s"
  using codepointCount_simps(1,3) [of s] by linarith

lemma codepointOffsetOf_append: "codepointOffsetOf (a @ b) (int (length a)) = codepointCount a"
  by (cases "a = []"; cases "b = []") (simp_all add: codepointOffsetOf_def)

lemma codepoints_take_le: "length (codepoints (take n s)) \<le> length (codepoints s)"
proof (induction s arbitrary: n rule: codepoints.induct)
  case (1 h l r)
  show ?case
  proof (cases n)
    case (Suc m)
    show ?thesis
    proof (cases "high h \<and> low l")
      case True
      with Suc "1.IH"(1) [of "m - 1"] show ?thesis by (cases m) auto
    next
      case False
      with Suc "1.IH"(2) [of m] show ?thesis by (cases m) auto
    qed
  qed simp
qed (simp_all add: take_Cons' del: codepoints_eq_Nil_iff)

lemma codepointOffsetOf_bounds: "0 \<le> codepointOffsetOf text k \<and> codepointOffsetOf text k \<le> codepointCount text"
  by (auto simp: codepointOffsetOf_def codepointCount_def codepoints_take_le)

end
