(* ===== verification/Write_Capture.thy ===== *)
theory Write_Capture
  imports Measured_Input
begin

text \<open>
  The capture of a text area of the web editor (\<open>attachWriteCapture\<close> in \<open>apps/web/src/write-capture.ts\<close>):
  one step for each listener, in any order the browser calls them, with the value of the element and its
  selection as they are at that moment. The state holds numbers only. Shown: whatever the events, the
  listeners never throw and the mutations they emit never establish a wrong length; and the edits a
  browser reports with a cycle of \<open>beforeinput\<close> and \<open>input\<close> are recorded exactly.
\<close>

section \<open>The element and the state\<close>

record text_area =
  ta_value :: jsstring
  ta_start :: int
  ta_stop :: int

record write_capture =
  wc_pending :: "measured_intent option"
  wc_composition :: "measured option"
  wc_committed :: "(int \<times> int) option"
  wc_cycle :: int
  wc_index :: numeric_index
  wc_numericIntent :: "text_intent option"
  wc_observedLength :: int
  wc_gap :: bool
  wc_emitted :: "pending_mutation list"

definition attachWriteCapture :: "text_area \<Rightarrow> write_capture" where
  "attachWriteCapture el =
     \<lparr>wc_pending = None, wc_composition = None, wc_committed = None, wc_cycle = 0, wc_index = new_index (ta_value el),
      wc_numericIntent = None, wc_observedLength = index_length (new_index (ta_value el)), wc_gap = False, wc_emitted = []\<rparr>"

definition emitApplied :: "pending_mutation option \<Rightarrow> int \<Rightarrow> write_capture \<Rightarrow> write_capture" where
  "emitApplied mutation lengthAfter st =
     (case mutation of
        Some m \<Rightarrow> st\<lparr>wc_emitted := wc_emitted st @ [if wc_gap st then m\<lparr>pm_pos := None\<rparr> else m], wc_gap := False,
                       wc_observedLength := lengthAfter\<rparr>
      | None \<Rightarrow> st\<lparr>wc_observedLength := lengthAfter\<rparr>)"

definition sync_index :: "text_area \<Rightarrow> numeric_index \<Rightarrow> numeric_index" where
  "sync_index el ix = (if ni_utf16Length ix \<noteq> int (length (ta_value el)) then index_reset ix (ta_value el) else ix)"

definition measure_area :: "text_area \<Rightarrow> numeric_index \<Rightarrow> numeric_index \<times> measured" where
  "measure_area el ix0 =
     (let ix = sync_index el ix0;
          (ix1, start) = index_offset ix (ta_start el);
          (ix2, stop) = index_offset ix1 (ta_stop el);
          (ix3, start') = index_offset ix2 (ta_start el)
      in (ix3, \<lparr>me_lengthBefore = index_length ix, me_start = Some start, me_selected = Some (stop - start')\<rparr>))"

definition beginNumeric :: "text_area \<Rightarrow> jsstring \<Rightarrow> int option \<Rightarrow> write_capture \<Rightarrow> write_capture" where
  "beginNumeric el inputType dataLength st = st\<lparr>wc_numericIntent :=
     Some \<lparr>ti_length = ni_utf16Length (wc_index st), ti_start = Some (ta_start el), ti_end = Some (ta_stop el),
           ti_inputType = inputType, ti_dataLength = dataLength\<rparr>\<rparr>"

definition applyNumeric :: "text_area \<Rightarrow> write_capture \<Rightarrow> index_error + write_capture" where
  "applyNumeric el st =
     (case applyNumericTextInput (wc_index st) (ta_value el) (Some (ta_start el)) (wc_numericIntent st) of
        Inl e \<Rightarrow> Inl e
      | Inr ix \<Rightarrow> Inr (st\<lparr>wc_numericIntent := None, wc_index := ix\<rparr>))"

definition caret_offset :: "text_area \<Rightarrow> write_capture \<Rightarrow> write_capture \<times> int" where
  "caret_offset el st = (let (ix, c) = index_offset (wc_index st) (ta_start el) in (st\<lparr>wc_index := ix\<rparr>, c))"

definition note_gap :: "int \<Rightarrow> write_capture \<Rightarrow> write_capture" where
  "note_gap len st = (if len \<noteq> wc_observedLength st then st\<lparr>wc_gap := True\<rparr> else st)"

definition with_intent :: "measured \<Rightarrow> jsstring \<Rightarrow> int option \<Rightarrow> measured_intent" where
  "with_intent m inputType data = \<lparr>me_lengthBefore = me_lengthBefore m, me_start = me_start m, me_selected = me_selected m,
     mi_inputType = inputType, mi_data = data\<rparr>"

section \<open>The listeners\<close>

definition includes_word :: "string \<Rightarrow> jsstring \<Rightarrow> bool" where
  "includes_word w s \<longleftrightarrow> (\<exists>i \<in> set [0..<Suc (length s)]. take (length w) (drop i s) = js w)"

definition is_composition :: "jsstring option \<Rightarrow> bool" where
  "is_composition inputType \<longleftrightarrow> (\<exists>t \<in> set_option inputType. includes_word ''Composition'' t)"

definition on_beforeinput :: "text_area \<Rightarrow> jsstring option \<Rightarrow> jsstring option \<Rightarrow> write_capture \<Rightarrow> write_capture" where
  "on_beforeinput el inputType data st0 =
     (let st = st0\<lparr>wc_pending := None\<rparr> in
      if wc_composition st \<noteq> None then st
      else if wc_committed st \<noteq> None \<and> is_composition inputType then st
      else let st = st\<lparr>wc_committed := None, wc_cycle := wc_cycle st + 1\<rparr>;
               (ix, measured) = measure_area el (wc_index st);
               st = note_gap (me_lengthBefore measured) (st\<lparr>wc_index := ix\<rparr>);
               st = beginNumeric el (default_to [] inputType) (map_option (\<lambda>d. int (length d)) data) st
           in st\<lparr>wc_pending := Some (with_intent measured (default_to [] inputType) (map_option codepointCount data))\<rparr>)"

text \<open>The timer that \<open>beforeinput\<close> starts, when it fires.\<close>

definition on_timer :: "int \<Rightarrow> write_capture \<Rightarrow> write_capture" where
  "on_timer currentCycle st =
     (if wc_cycle st = currentCycle
      then (let st = st\<lparr>wc_pending := None\<rparr> in if wc_composition st = None then st\<lparr>wc_numericIntent := None\<rparr> else st)
      else st)"

text \<open>An \<open>input\<close> event that repeats a committed composition is recognized by its length and caret.\<close>

definition repeats_commit :: "text_area \<Rightarrow> (int \<times> int) \<Rightarrow> write_capture \<Rightarrow> write_capture \<times> bool" where
  "repeats_commit el committed st =
     (let (ix, measured) = measure_area el (wc_index st); st = st\<lparr>wc_index := ix\<rparr> in
      if fst committed = me_lengthBefore measured
      then (let (st, c) = caret_offset el st in (st, snd committed = c))
      else (st, False))"

definition apply_input :: "text_area \<Rightarrow> write_capture \<Rightarrow> index_error + write_capture" where
  "apply_input el st0 =
     (let intent = wc_pending st0 in
      andThen (applyNumeric el (st0\<lparr>wc_pending := None\<rparr>)) (\<lambda>st.
        case intent of
          None \<Rightarrow> Inr (emitApplied (Some (unknownMutation UnknownSource)) (index_length (wc_index st)) st)
        | Some i \<Rightarrow>
            (let after = index_length (wc_index st); (st, c) = caret_offset el st in
             Inr (emitApplied (deriveMutationFromMeasuredInput i after (Some c)) after st))))"

definition on_input :: "text_area \<Rightarrow> jsstring option \<Rightarrow> bool \<Rightarrow> write_capture \<Rightarrow> index_error + write_capture" where
  "on_input el inputType isComposing st =
     (if wc_composition st \<noteq> None then Inr st
      else case wc_committed st of
        Some c \<Rightarrow>
          if is_composition inputType \<or> isComposing
          then (let (st', matches) = repeats_commit el c st; st' = st'\<lparr>wc_committed := None, wc_pending := None\<rparr> in
                if matches then Inr st' else apply_input el st')
          else apply_input el (st\<lparr>wc_committed := None\<rparr>)
      | None \<Rightarrow> apply_input el (st\<lparr>wc_committed := None\<rparr>))"

definition on_compositionstart :: "text_area \<Rightarrow> write_capture \<Rightarrow> write_capture" where
  "on_compositionstart el st0 =
     (let (ix, measured) = measure_area el (wc_index st0);
          st = st0\<lparr>wc_pending := None, wc_committed := None, wc_index := ix, wc_composition := Some measured\<rparr>;
          st = beginNumeric el (js ''insertFromComposition'') None st
      in note_gap (me_lengthBefore measured) st)"

definition on_compositionend :: "text_area \<Rightarrow> jsstring \<Rightarrow> write_capture \<Rightarrow> index_error + write_capture" where
  "on_compositionend el data st0 =
     (let st = st0\<lparr>wc_composition := None, wc_pending := None\<rparr> in
      case wc_composition st0 of
        None \<Rightarrow> Inr st
      | Some start \<Rightarrow>
          (let inserted = codepointCount data in
           andThen (applyNumeric el st) (\<lambda>st.
             let after = index_length (wc_index st); (st, c) = caret_offset el st; st = st\<lparr>wc_committed := Some (after, c)\<rparr> in
             if inserted = 0 \<and> after = me_lengthBefore start then Inr (st\<lparr>wc_observedLength := after\<rparr>)
             else let (st, c) = caret_offset el st in
               Inr (emitApplied (deriveMutationFromMeasuredInput
                 (with_intent start (js ''insertFromComposition'') (Some inserted)) after (Some c)) after st))))"

definition on_blur :: "write_capture \<Rightarrow> write_capture" where
  "on_blur st = st\<lparr>wc_pending := None\<rparr>"

definition isPending :: "write_capture \<Rightarrow> bool" where
  "isPending st \<longleftrightarrow> wc_composition st \<noteq> None"

definition hasGap :: "text_area \<Rightarrow> write_capture \<Rightarrow> write_capture \<times> bool" where
  "hasGap el st = (let g = (wc_gap st \<or> codepointCount (ta_value el) \<noteq> wc_observedLength st) in (st\<lparr>wc_gap := g\<rparr>, g))"

datatype capture_event =
    BeforeInput "jsstring option" "jsstring option"
  | InputApplied "jsstring option" bool
  | CompositionStart
  | CompositionEnd jsstring
  | Blurred
  | CycleTimer int
  | GapAsked

fun capture_step :: "write_capture \<Rightarrow> text_area \<times> capture_event \<Rightarrow> index_error + write_capture" where
  "capture_step st (el, BeforeInput inputType data) = Inr (on_beforeinput el inputType data st)"
| "capture_step st (el, InputApplied inputType isComposing) = on_input el inputType isComposing st"
| "capture_step st (el, CompositionStart) = Inr (on_compositionstart el st)"
| "capture_step st (el, CompositionEnd data) = on_compositionend el data st"
| "capture_step st (el, Blurred) = Inr (on_blur st)"
| "capture_step st (el, CycleTimer n) = Inr (on_timer n st)"
| "capture_step st (el, GapAsked) = Inr (fst (hasGap el st))"

section \<open>What the browser promises\<close>

text \<open>
  The listeners that look at the text either measure it, which resets the index when the length has
  changed, or apply an input. \<open>text\<close> is the text the index stands for. The promise for a measurement: the
  text is still that one, or its length differs; for an input: the facts of the event are true.
\<close>

fun looks_at :: "write_capture \<Rightarrow> capture_event \<Rightarrow> bool" where
  "looks_at st (BeforeInput inputType data) \<longleftrightarrow>
     wc_composition st = None \<and> \<not> (wc_committed st \<noteq> None \<and> is_composition inputType)"
| "looks_at st (InputApplied inputType isComposing) \<longleftrightarrow> wc_composition st = None"
| "looks_at st CompositionStart \<longleftrightarrow> True"
| "looks_at st (CompositionEnd data) \<longleftrightarrow> wc_composition st \<noteq> None"
| "looks_at st _ \<longleftrightarrow> False"

fun measures :: "write_capture \<Rightarrow> capture_event \<Rightarrow> bool" where
  "measures st (BeforeInput inputType data) \<longleftrightarrow> True"
| "measures st (InputApplied inputType isComposing) \<longleftrightarrow> wc_committed st \<noteq> None \<and> (is_composition inputType \<or> isComposing)"
| "measures st CompositionStart \<longleftrightarrow> True"
| "measures st _ \<longleftrightarrow> False"

definition honest :: "jsstring \<Rightarrow> write_capture \<Rightarrow> text_area \<times> capture_event \<Rightarrow> bool" where
  "honest text st x = (case x of (el, ev) \<Rightarrow> looks_at st ev \<longrightarrow>
     (if measures st ev then ta_value el = text \<or> length (ta_value el) \<noteq> length text
      else truthful text (ta_value el) (Some (ta_start el)) (wc_numericIntent st)))"

definition known_after :: "jsstring \<Rightarrow> write_capture \<Rightarrow> text_area \<times> capture_event \<Rightarrow> jsstring" where
  "known_after text st x = (case x of (el, ev) \<Rightarrow> if looks_at st ev then ta_value el else text)"

fun honest_run :: "jsstring \<Rightarrow> write_capture \<Rightarrow> (text_area \<times> capture_event) list \<Rightarrow> bool" where
  "honest_run text st [] \<longleftrightarrow> True"
| "honest_run text st (x # xs) \<longleftrightarrow> honest text st x
     \<and> (case capture_step st x of Inl e \<Rightarrow> True | Inr st' \<Rightarrow> honest_run (known_after text st x) st' xs)"

section \<open>The invariant\<close>

definition played :: "int \<Rightarrow> pending_mutation list \<Rightarrow> int option" where
  "played n0 muts = foldl (\<lambda>len m. observe_event len (next_event m 0 0 0 0)) (Some n0) muts"

definition plays_to :: "int \<Rightarrow> write_capture \<Rightarrow> bool" where
  "plays_to n0 st \<longleftrightarrow> wc_gap st \<or> played n0 (wc_emitted st) = None \<or> played n0 (wc_emitted st) = Some (wc_observedLength st)"

definition accounted :: "pending_mutation \<Rightarrow> bool" where
  "accounted m \<longleftrightarrow> (\<exists>before after. in_int_range before \<and> in_int_range after \<and> accounts before after m)"

definition from_length :: "write_capture \<Rightarrow> int \<Rightarrow> bool" where
  "from_length st before \<longleftrightarrow> in_int_range before \<and> (wc_gap st \<or> before = wc_observedLength st)"

definition capture_inv :: "int \<Rightarrow> jsstring \<Rightarrow> write_capture \<Rightarrow> bool" where
  "capture_inv n0 text st \<longleftrightarrow> index_for text (wc_index st)
     \<and> (wc_committed st \<noteq> None \<longrightarrow> wc_numericIntent st = None)
     \<and> (\<forall>i \<in> set_option (wc_pending st). from_length st (me_lengthBefore i))
     \<and> (\<forall>m \<in> set_option (wc_composition st). from_length st (me_lengthBefore m))
     \<and> plays_to n0 st \<and> in_int_range (wc_observedLength st) \<and> (\<forall>m \<in> set (wc_emitted st). accounted m)"

lemma accounted_gap: "accounted m \<Longrightarrow> accounted (m\<lparr>pm_pos := None\<rparr>)"
  using accounts_gap unfolding accounted_def by blast

lemma played_snoc: "played n0 (muts @ [m]) = observe_event (played n0 muts) (next_event m 0 0 0 0)"
  by (simp add: played_def)

lemma observe_accounted:
  "accounts before after m \<Longrightarrow> observe_event (Some before) (next_event m s t w b) \<in> {None, Some after}"
  by (auto simp: observe_event_def next_event_def accounts_def split: option.splits)

lemma observe_placeless [simp]: "pm_pos m = None \<Longrightarrow> observe_event len (next_event m s t w b) = None"
  by (simp add: observe_event_def next_event_def)

lemma emit_keeps:
  assumes "plays_to n0 st" and "from_length st before" and "in_int_range after" and "\<forall>m \<in> set (wc_emitted st). accounted m"
    and "case mutation of None \<Rightarrow> after = before | Some m \<Rightarrow> accounts before after m"
  shows "plays_to n0 (emitApplied mutation after st)" and "\<forall>m \<in> set (wc_emitted (emitApplied mutation after st)). accounted m"
proof -
  show "plays_to n0 (emitApplied mutation after st)"
  proof (cases mutation)
    case None
    with assms show ?thesis by (auto simp: emitApplied_def plays_to_def from_length_def)
  next
    case (Some m)
    with assms observe_accounted [of before after m 0 0 0 0] show ?thesis
      by (auto simp: emitApplied_def plays_to_def from_length_def played_snoc)
  qed
  have "accounted m" if "mutation = Some m" for m
    using assms that by (auto simp: accounted_def from_length_def)
  then show "\<forall>m \<in> set (wc_emitted (emitApplied mutation after st)). accounted m"
    using assms(4) accounted_gap by (auto simp: emitApplied_def split: option.splits)
qed

section \<open>The index in the listeners\<close>

lemma sync_index_for:
  assumes "index_for text ix" and "ta_value el = text \<or> length (ta_value el) \<noteq> length text"
  shows "index_for (ta_value el) (sync_index el ix)"
  using assms reset_index_for by (auto simp: sync_index_def index_for_def)

lemma measure_area_exact:
  assumes "index_for text ix" and "ta_value el = text \<or> length (ta_value el) \<noteq> length text"
  shows "\<exists>ix'. index_for (ta_value el) ix' \<and> measure_area el ix =
    (ix', \<lparr>me_lengthBefore = codepointCount (ta_value el), me_start = Some (codepointOffsetOf (ta_value el) (ta_start el)),
           me_selected = Some (codepointOffsetOf (ta_value el) (ta_stop el) - codepointOffsetOf (ta_value el) (ta_start el))\<rparr>)"
proof -
  note s = sync_index_for [OF assms]
  note o1 = index_offset_exact [OF s, of "ta_start el"]
  note o2 = index_offset_exact [OF o1(2), of "ta_stop el"]
  note o3 = index_offset_exact [OF o2(2), of "ta_start el"]
  show ?thesis using o1(1) o2(1) o3 index_length_exact [OF s] by (simp add: measure_area_def split_beta Let_def)
qed

lemma applyNumeric_exact:
  assumes "index_for text (wc_index st)" and "truthful text (ta_value el) (Some (ta_start el)) (wc_numericIntent st)"
  shows "\<exists>ix. applyNumeric el st = Inr (st\<lparr>wc_numericIntent := None, wc_index := ix\<rparr>) \<and> index_for (ta_value el) ix"
  using apply_index_for [OF assms] by (auto simp: applyNumeric_def)

lemma caret_offset_exact:
  assumes "index_for text (wc_index st)"
  shows "\<exists>ix. caret_offset el st = (st\<lparr>wc_index := ix\<rparr>, codepointOffsetOf text (ta_start el)) \<and> index_for text ix"
  using index_offset_exact [OF assms, of "ta_start el"] by (auto simp: caret_offset_def split_beta Let_def)

lemma truthful_no_intent [simp]: "truthful text text' caret None"
  by (simp add: truthful_def span_of_event_def)

section \<open>Every listener keeps the invariant\<close>

definition short_text :: "text_area \<Rightarrow> bool" where
  "short_text el \<longleftrightarrow> int (length (ta_value el)) \<le> MAX_INTEGER_FIELD_VALUE"

lemma short_count: "short_text el \<Longrightarrow> in_int_range (codepointCount (ta_value el))"
  using codepointCount_le [of "ta_value el"] by (simp add: short_text_def in_int_range_def)

lemma beforeinput_keeps:
  assumes "capture_inv n0 text st" and "honest text st (el, BeforeInput t d)" and "short_text el"
  shows "capture_inv n0 (known_after text st (el, BeforeInput t d)) (on_beforeinput el t d st)"
proof (cases "looks_at st (BeforeInput t d)")
  case True
  with assms(1,2) measure_area_exact [of "text" "wc_index st" el] obtain ix m where
    m: "measure_area el (wc_index st) = (ix, m)" "index_for (ta_value el) ix" "me_lengthBefore m = codepointCount (ta_value el)"
    by (auto simp: honest_def capture_inv_def)
  with True assms(1) short_count [OF assms(3)] show ?thesis
    by (auto simp: capture_inv_def known_after_def on_beforeinput_def Let_def note_gap_def beginNumeric_def with_intent_def
        from_length_def plays_to_def)
next
  case False
  then have "on_beforeinput el t d st = st\<lparr>wc_pending := None\<rparr>" by (auto simp: on_beforeinput_def Let_def)
  moreover have "known_after text st (el, BeforeInput t d) = text" using False by (simp add: known_after_def del: looks_at.simps)
  ultimately show ?thesis using assms(1) by (simp add: capture_inv_def from_length_def plays_to_def)
qed

lemma compositionstart_keeps:
  assumes "capture_inv n0 text st" and "honest text st (el, CompositionStart)" and "short_text el"
  shows "capture_inv n0 (known_after text st (el, CompositionStart)) (on_compositionstart el st)"
proof -
  from assms(1,2) measure_area_exact [of "text" "wc_index st" el] obtain ix m where
    m: "measure_area el (wc_index st) = (ix, m)" "index_for (ta_value el) ix" "me_lengthBefore m = codepointCount (ta_value el)"
    by (auto simp: honest_def capture_inv_def)
  with assms(1) short_count [OF assms(3)] show ?thesis
    by (auto simp: capture_inv_def known_after_def on_compositionstart_def Let_def note_gap_def beginNumeric_def
        from_length_def plays_to_def)
qed

text \<open>The end of a change: the numbers it was measured from are forgotten and the mutation is emitted.\<close>

lemma emit_inv:
  assumes "capture_inv n0 text st" and "wc_pending st = None" and "wc_composition st = None"
    and "from_length st before" and "in_int_range after"
    and "case mutation of None \<Rightarrow> after = before | Some m \<Rightarrow> accounts before after m"
  shows "capture_inv n0 text (emitApplied mutation after st)"
  using assms emit_keeps [OF _ assms(4,5) _ assms(6), of n0]
  by (auto simp: capture_inv_def emitApplied_def split: option.splits)

lemma apply_input_keeps:
  assumes "capture_inv n0 text st" and "wc_composition st = None" and "short_text el"
    and "truthful text (ta_value el) (Some (ta_start el)) (wc_numericIntent st)"
  shows "\<exists>st'. apply_input el st = Inr st' \<and> capture_inv n0 (ta_value el) st'"
proof -
  let ?after = "codepointCount (ta_value el)"
  have ix: "index_for text (wc_index (st\<lparr>wc_pending := None\<rparr>))" using assms(1) by (simp add: capture_inv_def)
  from applyNumeric_exact [OF ix] assms(4) obtain ix1 where
    a: "applyNumeric el (st\<lparr>wc_pending := None\<rparr>) = Inr (st\<lparr>wc_pending := None, wc_numericIntent := None, wc_index := ix1\<rparr>)"
       "index_for (ta_value el) ix1" by auto
  let ?st = "st\<lparr>wc_pending := None, wc_numericIntent := None, wc_index := ix1\<rparr>"
  have inv: "capture_inv n0 (ta_value el) (?st\<lparr>wc_index := ix2\<rparr>)" if "index_for (ta_value el) ix2" for ix2
    using assms(1,2) that by (simp add: capture_inv_def plays_to_def)
  have small: "in_int_range ?after" "0 \<le> ?after" using short_count [OF assms(3)] by simp_all
  show ?thesis
  proof (cases "wc_pending st")
    case None
    have "from_length ?st (wc_observedLength st)" using assms(1) by (simp add: from_length_def capture_inv_def)
    with inv [OF a(2)] None assms(2) small a(1) emit_inv [of n0 "ta_value el" ?st "wc_observedLength st" ?after "Some (unknownMutation UnknownSource)"]
    show ?thesis by (simp add: apply_input_def index_length_exact [OF a(2)])
  next
    case (Some i)
    from caret_offset_exact [of "ta_value el" ?st el] a(2) obtain ix2 c where
      c: "caret_offset el ?st = (?st\<lparr>wc_index := ix2\<rparr>, c)" "index_for (ta_value el) ix2" by auto
    have "from_length (?st\<lparr>wc_index := ix2\<rparr>) (me_lengthBefore i)" using assms(1) Some by (simp add: from_length_def capture_inv_def)
    with inv [OF c(2)] assms(2) small derived_accounts [OF small(2), of i "Some c"]
      emit_inv [of n0 "ta_value el" "?st\<lparr>wc_index := ix2\<rparr>" "me_lengthBefore i" ?after "deriveMutationFromMeasuredInput i ?after (Some c)"]
    show ?thesis using Some a(1) c(1) by (simp add: apply_input_def Let_def index_length_exact [OF a(2)])
  qed
qed

lemma repeats_commit_exact:
  assumes "index_for text (wc_index st)" and "ta_value el = text \<or> length (ta_value el) \<noteq> length text"
  shows "\<exists>ix. index_for (ta_value el) ix \<and> repeats_commit el c st =
    (st\<lparr>wc_index := ix\<rparr>, c = (codepointCount (ta_value el), codepointOffsetOf (ta_value el) (ta_start el)))"
proof -
  from measure_area_exact [OF assms] obtain ix m where
    m: "measure_area el (wc_index st) = (ix, m)" "index_for (ta_value el) ix" "me_lengthBefore m = codepointCount (ta_value el)"
    by auto
  moreover from caret_offset_exact [of "ta_value el" "st\<lparr>wc_index := ix\<rparr>" el] m(2) obtain ix2 where
    "caret_offset el (st\<lparr>wc_index := ix\<rparr>) = (st\<lparr>wc_index := ix2\<rparr>, codepointOffsetOf (ta_value el) (ta_start el))"
    "index_for (ta_value el) ix2" by auto
  ultimately show ?thesis by (cases c) (auto simp: repeats_commit_def Let_def)
qed

lemma input_keeps:
  assumes "capture_inv n0 text st" and "honest text st (el, InputApplied t b)" and "short_text el"
  shows "\<exists>st'. on_input el t b st = Inr st' \<and> capture_inv n0 (known_after text st (el, InputApplied t b)) st'"
proof (cases "wc_composition st = None")
  case True
  show ?thesis
  proof (cases "measures st (InputApplied t b)")
    case False
    then have "on_input el t b st = apply_input el (st\<lparr>wc_committed := None\<rparr>)"
      using True by (cases "wc_committed st") (simp_all add: on_input_def)
    moreover have "capture_inv n0 text (st\<lparr>wc_committed := None\<rparr>)"
      using assms(1) by (simp add: capture_inv_def plays_to_def from_length_def)
    moreover have "truthful text (ta_value el) (Some (ta_start el)) (wc_numericIntent st)"
      using assms(2) True False by (auto simp: honest_def)
    ultimately show ?thesis using apply_input_keeps [of n0 "text" "st\<lparr>wc_committed := None\<rparr>" el] True assms(3)
      by (simp add: known_after_def)
  next
    case mt: True
    then obtain c where c: "wc_committed st = Some c" "is_composition t \<or> b" by auto
    have same: "ta_value el = text \<or> length (ta_value el) \<noteq> length text" using assms(2) True mt by (auto simp: honest_def)
    with repeats_commit_exact [of "text" st el c] assms(1) obtain ix m where
      r: "repeats_commit el c st = (st\<lparr>wc_index := ix\<rparr>, m)" "index_for (ta_value el) ix" by (auto simp: capture_inv_def)
    let ?st = "st\<lparr>wc_index := ix, wc_committed := None, wc_pending := None\<rparr>"
    have inv: "capture_inv n0 (ta_value el) ?st" using assms(1) r(2) by (simp add: capture_inv_def plays_to_def from_length_def)
    have "wc_numericIntent ?st = None" using assms(1) c(1) by (simp add: capture_inv_def)
    with apply_input_keeps [OF inv _ assms(3)] True inv c r(1) show ?thesis
      by (cases m) (simp_all add: on_input_def known_after_def Let_def)
  qed
next
  case False
  with assms(1) show ?thesis by (auto simp: on_input_def known_after_def)
qed

lemma compositionend_keeps:
  assumes "capture_inv n0 text st" and "honest text st (el, CompositionEnd data)" and "short_text el"
  shows "\<exists>st'. on_compositionend el data st = Inr st' \<and> capture_inv n0 (known_after text st (el, CompositionEnd data)) st'"
proof (cases "wc_composition st")
  case None
  with assms(1) show ?thesis
    by (auto simp: on_compositionend_def known_after_def capture_inv_def plays_to_def from_length_def)
next
  case (Some start)
  let ?after = "codepointCount (ta_value el)" and ?st0 = "st\<lparr>wc_composition := None, wc_pending := None\<rparr>"
  have "truthful text (ta_value el) (Some (ta_start el)) (wc_numericIntent st)" using assms(2) Some by (simp add: honest_def)
  with applyNumeric_exact [of "text" ?st0 el] assms(1) obtain ix1 where
    a: "applyNumeric el ?st0 = Inr (?st0\<lparr>wc_numericIntent := None, wc_index := ix1\<rparr>)" "index_for (ta_value el) ix1"
    by (auto simp: capture_inv_def)
  let ?st1 = "?st0\<lparr>wc_numericIntent := None, wc_index := ix1\<rparr>"
  from caret_offset_exact [of "ta_value el" ?st1 el] a(2) obtain ix2 c where
    c: "caret_offset el ?st1 = (?st0\<lparr>wc_numericIntent := None, wc_index := ix2\<rparr>, c)" "index_for (ta_value el) ix2" by auto
  let ?st2 = "?st0\<lparr>wc_numericIntent := None, wc_index := ix2, wc_committed := Some (?after, c)\<rparr>"
  from caret_offset_exact [of "ta_value el" ?st2 el] c(2) obtain ix3 c' where
    d: "caret_offset el ?st2 = (?st2\<lparr>wc_index := ix3\<rparr>, c')" "index_for (ta_value el) ix3" by auto
  have small: "in_int_range ?after" "0 \<le> ?after" using short_count [OF assms(3)] by simp_all
  have inv: "capture_inv n0 (ta_value el) (?st2\<lparr>wc_index := ix\<rparr>)" if "index_for (ta_value el) ix" for ix
    using assms(1) that by (simp add: capture_inv_def plays_to_def)
  have len: "from_length st (me_lengthBefore start)" using assms(1) Some by (simp add: capture_inv_def)
  have "capture_inv n0 (ta_value el) (?st2\<lparr>wc_observedLength := ?after\<rparr>)" if "?after = me_lengthBefore start"
    using inv [OF c(2)] len that small(1) by (auto simp: capture_inv_def plays_to_def from_length_def)
  moreover
  let ?i = "with_intent start (js ''insertFromComposition'') (Some (codepointCount data))"
  have "capture_inv n0 (ta_value el) (emitApplied (deriveMutationFromMeasuredInput ?i ?after (Some c')) ?after (?st2\<lparr>wc_index := ix3\<rparr>))"
    by (rule emit_inv [where before = "me_lengthBefore ?i"])
      (use inv [OF d(2)] len small derived_accounts [OF small(2), of ?i "Some c'"] in \<open>auto simp: with_intent_def from_length_def\<close>)
  ultimately show ?thesis
    using Some a(1) c(1) d(1) by (simp add: on_compositionend_def known_after_def Let_def index_length_exact [OF a(2)])
qed

lemma capture_step_keeps:
  assumes "capture_inv n0 text st" and "honest text st (el, ev)" and "short_text el"
  shows "\<exists>st'. capture_step st (el, ev) = Inr st' \<and> capture_inv n0 (known_after text st (el, ev)) st'"
proof (cases ev)
  case (BeforeInput t d)
  with beforeinput_keeps [of n0 "text" st el t d] assms show ?thesis by simp
next
  case (InputApplied t b)
  with input_keeps [of n0 "text" st el t b] assms show ?thesis by simp
next
  case CompositionStart
  with compositionstart_keeps [of n0 "text" st el] assms show ?thesis by simp
next
  case (CompositionEnd d)
  with compositionend_keeps [of n0 "text" st el d] assms show ?thesis by simp
next
  case Blurred
  with assms(1) show ?thesis by (simp add: on_blur_def known_after_def capture_inv_def plays_to_def from_length_def)
next
  case (CycleTimer n)
  with assms(1) show ?thesis
    by (auto simp: on_timer_def Let_def known_after_def capture_inv_def plays_to_def from_length_def)
next
  case GapAsked
  with assms(1) show ?thesis
    by (auto simp: hasGap_def Let_def known_after_def capture_inv_def plays_to_def from_length_def)
qed

lemma capture_run_keeps:
  "capture_inv n0 text st \<Longrightarrow> honest_run text st xs \<Longrightarrow> \<forall>x \<in> set xs. short_text (fst x) \<Longrightarrow>
     \<exists>st' text'. run_steps capture_step st xs = Inr st' \<and> capture_inv n0 text' st'"
proof (induction xs arbitrary: "text" st)
  case (Cons x xs)
  obtain el ev where x: "x = (el, ev)" by (cases x)
  from Cons.prems x capture_step_keeps [of n0 "text" st el ev] obtain st1 where
    "capture_step st x = Inr st1" "capture_inv n0 (known_after text st x) st1" by auto
  with Cons.IH [of "known_after text st x" st1] Cons.prems show ?case by simp
qed auto

lemma attach_inv: "short_text el \<Longrightarrow> capture_inv (codepointCount (ta_value el)) (ta_value el) (attachWriteCapture el)"
  by (simp add: capture_inv_def attachWriteCapture_def new_index_def plays_to_def played_def
      reset_index_for index_length_exact [OF reset_index_for] short_count)

section \<open>The recorded log\<close>

lemma next_event_accounted:
  assumes "accounted m" and "in_int_range seq" and "t \<le> MAX_TIME_FIELD_VALUE" and "wall - base \<le> MAX_TIME_FIELD_VALUE"
  shows "valid_event (next_event m seq t wall base)"
  using assms
  by (auto simp: accounted_def accounts_def valid_event_def next_event_def in_ms_range_def in_int_range_def nullable_range_def
      MAX_TIME_FIELD_VALUE_def)

lemma observe_next_event: "observe_event len (next_event m s t w b) = observe_event len (next_event m 0 0 0 0)"
  by (simp add: observe_event_def next_event_def)

text \<open>Recorded at whatever times, no such mutation is refused.\<close>

definition recorded_as :: "pending_mutation \<Rightarrow> mutation \<Rightarrow> bool" where
  "recorded_as m e \<longleftrightarrow> (\<exists>seq t wall base. e = next_event m seq t wall base)"

lemma append_accounted:
  assumes "valid_log es" and "\<forall>(m, wall) \<in> set ps. accounted m \<and> wall - base \<le> MAX_TIME_FIELD_VALUE"
    and "int (length es + length ps) \<le> MAX_INTEGER_FIELD_VALUE"
  shows "\<exists>new. append_all es ps base = es @ new \<and> valid_log (es @ new)
     \<and> length new = length ps \<and> list_all2 recorded_as (List.map fst ps) new"
  using assms
proof (induction ps arbitrary: es)
  case (Cons q ps)
  obtain m wall where q: "q = (m, wall)" by (cases q)
  let ?e = "next_event m (int (length es)) (durationMs es) wall base"
  have "durationMs es \<le> MAX_TIME_FIELD_VALUE"
    using Cons.prems(1) valid_log_nth [of es "length es - 1"]
    by (auto simp: durationMs_def last_conv_nth valid_event_def in_ms_range_def MAX_TIME_FIELD_VALUE_def)
  then have v: "valid_event ?e" using Cons.prems(2,3) q by (intro next_event_accounted) (auto simp: in_int_range_def)
  then have b: "buildNextMutation m (int (length es)) (durationMs es) wall base = Inr ?e" by (simp add: buildNextMutation_Inr)
  then have "append_all es (q # ps) base = append_all (es @ [?e]) ps base"
    by (simp add: append_all_def q appendBufferMutation_def buildBufferMutation_def durationMs_def)
  moreover have "valid_log (es @ [?e])" by (rule next_event_extends [OF Cons.prems(1) b])
  moreover have "recorded_as m ?e" by (auto simp: recorded_as_def)
  ultimately show ?case using Cons.IH [of "es @ [?e]"] Cons.prems(2,3) by (auto simp: q)
qed (simp add: append_all_def)

lemma observe_recorded_as: "recorded_as m e \<Longrightarrow> observe_event len e = observe_event len (next_event m 0 0 0 0)"
  using observe_next_event by (auto simp: recorded_as_def)

lemma observe_recorded:
  "list_all2 recorded_as muts es \<Longrightarrow>
     foldl observe_event len es = foldl (\<lambda>l m. observe_event l (next_event m 0 0 0 0)) len muts"
proof (induction arbitrary: len rule: list_all2_induct)
  case (Cons m ms' e es)
  then show ?case by (simp add: observe_recorded_as [OF Cons(1)])
qed simp

text \<open>C17: The capture never establishes a wrong length. Start it on a text area and let the browser call
  its listeners in any order, with the text changed in any way between the calls as long as the facts of an
  input are true and no change is hidden behind an equal length. No listener throws. No emitted mutation
  is refused when it is recorded, whatever the clock says. And if the capture reports no gap, then the
  length that the log establishes from the first text, if it establishes one, is the number of code points
  that the text area holds now.\<close>

theorem captured_length_true:
  assumes "honest_run (ta_value el0) (attachWriteCapture el0) events"
    and "short_text el0" and "\<forall>x \<in> set events. short_text (fst x)"
  shows "\<exists>st. run_steps capture_step (attachWriteCapture el0) events = Inr st
     \<and> (\<forall>ps base. List.map fst ps = wc_emitted st \<and> int (length ps) \<le> MAX_INTEGER_FIELD_VALUE
          \<and> (\<forall>(m, wall) \<in> set ps. wall - base \<le> MAX_TIME_FIELD_VALUE) \<longrightarrow>
          valid_log (append_all [] ps base) \<and> length (append_all [] ps base) = length ps
          \<and> (\<forall>el k. \<not> snd (hasGap el st)
               \<and> computeObservedLength (append_all [] ps base) (Some (codepointCount (ta_value el0))) = Inr (Some k)
               \<longrightarrow> k = codepointCount (ta_value el)))"
proof -
  let ?n0 = "codepointCount (ta_value el0)"
  from capture_run_keeps [OF attach_inv [OF assms(2)] assms(1,3)] obtain st t where
    st: "run_steps capture_step (attachWriteCapture el0) events = Inr st" "capture_inv ?n0 t st" by auto
  have "valid_log (append_all [] ps base) \<and> length (append_all [] ps base) = length ps
      \<and> foldl observe_event (Some ?n0) (append_all [] ps base) = played ?n0 (wc_emitted st)"
    if ps: "List.map fst ps = wc_emitted st" "int (length ps) \<le> MAX_INTEGER_FIELD_VALUE"
      "\<forall>(m, wall) \<in> set ps. wall - base \<le> MAX_TIME_FIELD_VALUE" for ps base
  proof -
    have "\<forall>m \<in> fst ` set ps. accounted m"
      using st(2) by (simp add: capture_inv_def ps(1) [symmetric])
    with ps append_accounted [of "[]" ps base] obtain new where
      "append_all [] ps base = new" "valid_log new" "length new = length ps" "list_all2 recorded_as (List.map fst ps) new"
      by (auto simp: valid_log_def case_prod_beta)
    with observe_recorded [of "List.map fst ps" new "Some ?n0"] show ?thesis
      by (auto simp: played_def ps(1))
  qed
  moreover have "played ?n0 (wc_emitted st) = Some k \<Longrightarrow> \<not> snd (hasGap el st) \<Longrightarrow> k = codepointCount (ta_value el)" for el k
    using st(2) by (auto simp: capture_inv_def plays_to_def hasGap_def Let_def)
  ultimately show ?thesis using st(1) by (simp add: computeObservedLength_valid)
qed

text \<open>A text of three units is typed into, then replaced by the page, which the next event notices.\<close>

definition sample_area :: "jsstring \<Rightarrow> int \<Rightarrow> text_area" where
  "sample_area text caret = \<lparr>ta_value = text, ta_start = caret, ta_stop = caret\<rparr>"

definition sample_capture :: "(text_area \<times> capture_event) list" where
  "sample_capture =
     [(sample_area [0xd83d, 0xde00, 97] 2, BeforeInput (Some (js ''insertText'')) (Some [98])),
      (sample_area [0xd83d, 0xde00, 98, 97] 3, InputApplied (Some (js ''insertText'')) False),
      (sample_area [99] 1, CompositionStart), (sample_area [99, 100] 2, CompositionEnd [100])]"

lemma captured_length_true_witness:
  "\<exists>st. run_steps capture_step (attachWriteCapture (sample_area [0xd83d, 0xde00, 97] 2)) sample_capture = Inr st
     \<and> (\<forall>ps base. List.map fst ps = wc_emitted st \<and> int (length ps) \<le> MAX_INTEGER_FIELD_VALUE
          \<and> (\<forall>(m, wall) \<in> set ps. wall - base \<le> MAX_TIME_FIELD_VALUE) \<longrightarrow> valid_log (append_all [] ps base))"
proof -
  let ?el = "sample_area [0xd83d, 0xde00, 97] 2"
  have h: "honest_run (ta_value ?el) (attachWriteCapture ?el) sample_capture" by code_simp
  have "short_text ?el" "\<forall>x \<in> set sample_capture. short_text (fst x)" by code_simp+
  from captured_length_true [OF h this] show ?thesis by blast
qed

end
