(* ===== verification/Capture_Cycles.thy ===== *)
theory Capture_Cycles
  imports Write_Capture
begin

text \<open>
  What the capture of a text area records of the edits a browser reports in the usual way: a cycle of
  \<open>beforeinput\<close> and \<open>input\<close> for typing, pasting and deleting, and the events of a composition with the
  repeated \<open>input\<close> after it. Each such edit is recorded exactly, so the recorded log plays from the first
  text to the last.
\<close>

section \<open>Edits and their events\<close>

datatype user_edit =
    TypeOver nat nat jsstring "jsstring option" jsstring
  | Compose nat nat jsstring
  | DeleteSpan nat nat "nat \<times> nat" jsstring
  | TimerFires int

definition replaced :: "jsstring \<Rightarrow> nat \<Rightarrow> nat \<Rightarrow> jsstring \<Rightarrow> jsstring" where
  "replaced text a b typed = take a text @ typed @ drop b text"

definition area :: "jsstring \<Rightarrow> nat \<Rightarrow> nat \<Rightarrow> text_area" where
  "area text a b = \<lparr>ta_value = text, ta_start = int a, ta_stop = int b\<rparr>"

lemma area_simps [simp]: "ta_value (area text a b) = text" "ta_start (area text a b) = int a" "ta_stop (area text a b) = int b"
  by (simp_all add: area_def)

fun edited :: "jsstring \<Rightarrow> user_edit \<Rightarrow> jsstring" where
  "edited text (TypeOver a b typed data kind) = replaced text a b typed"
| "edited text (Compose a b typed) = replaced text a b typed"
| "edited text (DeleteSpan a b sel kind) = replaced text a b []"
| "edited text (TimerFires n) = text"

fun edit_events :: "jsstring \<Rightarrow> user_edit \<Rightarrow> (text_area \<times> capture_event) list" where
  "edit_events text (TypeOver a b typed data kind) =
     (let c = a + length typed in
      [(area text a b, BeforeInput (Some kind) data), (area (replaced text a b typed) c c, InputApplied (Some kind) False)])"
| "edit_events text (Compose a b typed) =
     (let c = a + length typed; el = area (replaced text a b typed) c c in
      [(area text a b, CompositionStart), (el, CompositionEnd typed), (el, InputApplied (Some (js ''insertCompositionText'')) True)])"
| "edit_events text (DeleteSpan a b sel kind) =
     [(area text (fst sel) (snd sel), BeforeInput (Some kind) None), (area (replaced text a b []) a a, InputApplied (Some kind) False)]"
| "edit_events text (TimerFires n) = [(area text 0 0, CycleTimer n)]"

text \<open>The mutation that says what happened, in code points.\<close>

definition exact_mutation :: "jsstring \<Rightarrow> nat \<Rightarrow> nat \<Rightarrow> jsstring \<Rightarrow> source \<Rightarrow> pending_mutation" where
  "exact_mutation text a b typed src =
     \<lparr>pm_op = (if typed = [] then OpDelete else if a < b then OpReplace else OpInsert),
      pm_pos = Some (codepointCount (take a text)),
      pm_del_len = Some (codepointCount (take (b - a) (drop a text))),
      pm_ins_len = Some (codepointCount typed), pm_source = src\<rparr>"

fun edit_mutations :: "jsstring \<Rightarrow> user_edit \<Rightarrow> pending_mutation list" where
  "edit_mutations text (TypeOver a b typed data kind) = [exact_mutation text a b typed (sourceFromInputType (Some kind))]"
| "edit_mutations text (Compose a b typed) = [exact_mutation text a b typed Ime]"
| "edit_mutations text (DeleteSpan a b sel kind) = [exact_mutation text a b [] (sourceFromInputType (Some kind))]"
| "edit_mutations text (TimerFires n) = []"

text \<open>An edit keeps surrogate pairs together: none lies across an end of the span or of the new text.\<close>

definition tidy :: "jsstring \<Rightarrow> nat \<Rightarrow> nat \<Rightarrow> jsstring \<Rightarrow> bool" where
  "tidy text a b typed \<longleftrightarrow> a \<le> b \<and> b \<le> length text
     \<and> clean (take a text) (drop a text) \<and> clean (take (b - a) (drop a text)) (drop b text)
     \<and> clean (take a text) (typed @ drop b text) \<and> clean typed (drop b text)"

text \<open>The data of the event is what was inserted, or the input type lets it be computed.\<close>

definition data_says :: "jsstring \<Rightarrow> jsstring option \<Rightarrow> jsstring \<Rightarrow> bool" where
  "data_says kind data typed \<longleftrightarrow>
     (if one_of [''insertParagraph'', ''insertLineBreak''] kind then codepointCount typed = max 1 (default_to 0 (map_option codepointCount data))
      else data = Some typed \<or> (data = None \<and>
        one_of [''insertText'', ''insertFromPaste'', ''insertFromPasteAsQuotation'', ''insertFromDrop'', ''insertFromYank''] kind))"

fun usual_edit :: "jsstring \<Rightarrow> user_edit \<Rightarrow> bool" where
  "usual_edit text (TypeOver a b typed data kind) \<longleftrightarrow>
     tidy text a b typed \<and> typed \<noteq> [] \<and> starts_with ''insert'' kind \<and> kind \<noteq> js ''insertReplacementText'' \<and> data_says kind data typed"
| "usual_edit text (Compose a b typed) \<longleftrightarrow> tidy text a b typed \<and> typed \<noteq> []"
| "usual_edit text (DeleteSpan a b sel kind) \<longleftrightarrow>
     tidy text a b [] \<and> a < b \<and> sel \<in> {(a, b), (a, a), (b, b)} \<and> starts_with ''delete'' kind"
| "usual_edit text (TimerFires n) \<longleftrightarrow> True"

fun usual_edits :: "jsstring \<Rightarrow> user_edit list \<Rightarrow> bool" where
  "usual_edits text [] \<longleftrightarrow> int (length text) \<le> MAX_INTEGER_FIELD_VALUE"
| "usual_edits text (e # es) \<longleftrightarrow>
     int (length text) \<le> MAX_INTEGER_FIELD_VALUE \<and> usual_edit text e \<and> usual_edits (edited text e) es"

fun all_events :: "jsstring \<Rightarrow> user_edit list \<Rightarrow> (text_area \<times> capture_event) list" where
  "all_events text [] = []"
| "all_events text (e # es) = edit_events text e @ all_events (edited text e) es"

fun all_mutations :: "jsstring \<Rightarrow> user_edit list \<Rightarrow> pending_mutation list" where
  "all_mutations text [] = []"
| "all_mutations text (e # es) = edit_mutations text e @ all_mutations (edited text e) es"

section \<open>The numbers of a tidy edit\<close>

lemma tidy_counts:
  assumes "tidy text a b typed"
  defines "p \<equiv> codepointCount (take a text)" and "d \<equiv> codepointCount (take (b - a) (drop a text))"
    and "s \<equiv> codepointCount (drop b text)"
  shows "codepointCount text = p + d + s" and "codepointCount (replaced text a b typed) = p + codepointCount typed + s"
    and "codepointOffsetOf text (int a) = p" and "codepointOffsetOf text (int b) = p + d"
    and "codepointOffsetOf (replaced text a b typed) (int (a + length typed)) = p + codepointCount typed"
proof -
  let ?x = "take a text" and ?y = "take (b - a) (drop a text)" and ?z = "drop b text"
  have ab: "a \<le> b" "b \<le> length text" using assms(1) by (simp_all add: tidy_def)
  have yz: "drop a text = ?y @ ?z" using ab by (metis append_take_drop_id drop_drop le_add_diff_inverse2)
  have xy: "text = (?x @ ?y) @ ?z" "take b text = ?x @ ?y"
    using yz ab by (metis append.assoc append_take_drop_id, metis le_add_diff_inverse take_add)
  have x: "codepointCount text = p + codepointCount (drop a text)"
    using codepointCount_append [of ?x "drop a text"] assms(1) by (simp add: tidy_def p_def)
  also have "codepointCount (drop a text) = d + s"
    using codepointCount_append [of ?y ?z] assms(1) yz by (simp add: tidy_def d_def s_def)
  finally show c: "codepointCount text = p + d + s" by simp
  show "codepointCount (replaced text a b typed) = p + codepointCount typed + s"
    using assms(1) by (simp add: replaced_def tidy_def codepointCount_append p_def s_def)
  show "codepointOffsetOf text (int a) = p"
    using codepointOffsetOf_append [of ?x "drop a text"] ab by (simp add: p_def)
  have "clean ?x ?y" using assms(1) yz by (auto simp: tidy_def clean_def)
  then have "codepointCount (take b text) = p + d" by (simp add: xy(2) codepointCount_append p_def d_def)
  with codepointOffsetOf_append [of "take b text" ?z] ab show "codepointOffsetOf text (int b) = p + d" by simp
  have "clean ?x typed" using assms(1) by (auto simp: tidy_def clean_def)
  then show "codepointOffsetOf (replaced text a b typed) (int (a + length typed)) = p + codepointCount typed"
    using codepointOffsetOf_append [of "?x @ typed" ?z] ab by (simp add: replaced_def codepointCount_append p_def)
qed

lemma slice_nonempty: "a < b \<Longrightarrow> b \<le> length text \<Longrightarrow> 0 < codepointCount (take (b - a) (drop a text))"
  by (intro codepointCount_pos) simp

lemma first_letters:
  "starts_with ''delete'' k \<Longrightarrow> \<not> starts_with ''format'' k \<and> \<not> starts_with ''history'' k \<and> \<not> starts_with ''insert'' k"
  "starts_with ''insert'' k \<Longrightarrow> \<not> starts_with ''format'' k \<and> \<not> starts_with ''history'' k \<and> \<not> starts_with ''delete'' k"
  by (cases k; simp add: starts_with_def)+

text \<open>What is derived from the true numbers of an edit.\<close>

lemma derived_insert:
  assumes "tidy text a b typed" and "typed \<noteq> []" and "starts_with ''insert'' kind" and "kind \<noteq> js ''insertReplacementText''"
    and "data_says kind data typed"
  shows "deriveMutationFromMeasuredInput
      \<lparr>me_lengthBefore = codepointCount text, me_start = Some (codepointOffsetOf text (int a)),
       me_selected = Some (codepointOffsetOf text (int b) - codepointOffsetOf text (int a)),
       mi_inputType = kind, mi_data = map_option codepointCount data\<rparr>
      (codepointCount (replaced text a b typed)) (Some (codepointOffsetOf (replaced text a b typed) (int (a + length typed))))
    = Some (exact_mutation text a b typed (sourceFromInputType (Some kind)))"
    (is "deriveMutationFromMeasuredInput ?i _ _ = _")
proof -
  note n = tidy_counts [OF assms(1)]
  have t: "0 < codepointCount typed" by (rule codepointCount_pos [OF assms(2)])
  have "inserted_count ?i (codepointCount (replaced text a b typed) - codepointCount text) = Some (codepointCount typed)"
    using assms(5) by (auto simp: inserted_count_def data_says_def lineBreakInsertedCodepoints_def n split: if_splits)
  moreover have "(0 < codepointCount (take (b - a) (drop a text))) = (a < b)"
    using assms(1) slice_nonempty [of a b "text"] by (cases "a < b") (auto simp: tidy_def)
  ultimately show ?thesis
    using t assms(2,4) first_letters(2) [OF assms(3)]
    by (simp add: deriveMutationFromMeasuredInput_def insertion_of_def Let_def n(1-4) n(5) [unfolded of_nat_add] exact_mutation_def assms(3))
qed

lemma derived_delete:
  assumes "tidy text a b []" and "a < b" and "starts_with ''delete'' kind"
  shows "deriveMutationFromMeasuredInput
      \<lparr>me_lengthBefore = codepointCount text, me_start = st, me_selected = sel, mi_inputType = kind, mi_data = data\<rparr>
      (codepointCount (replaced text a b [])) (Some (codepointOffsetOf (replaced text a b []) (int a)))
    = Some (exact_mutation text a b [] (sourceFromInputType (Some kind)))"
proof -
  note n = tidy_counts [OF assms(1)]
  have d: "0 < codepointCount (take (b - a) (drop a text))" using assms(1,2) by (intro slice_nonempty) (auto simp: tidy_def)
  have caret: "codepointOffsetOf (replaced text a b []) (int a) = codepointCount (take a text)" using n(5) by simp
  show ?thesis
    using d first_letters(1) [OF assms(3)]
    by (simp add: deriveMutationFromMeasuredInput_def deletion_of_def Let_def n(1,2) caret exact_mutation_def assms(3))
qed

text \<open>The extension's helpers, which look at the text, give the same mutations.\<close>

lemma text_field_helper_exact:
  assumes "tidy text a b typed" and "typed \<noteq> [] \<or> a < b"
    and "kind \<noteq> Some (js ''insertLineBreak'')" and "kind \<noteq> Some (js ''insertParagraph'')"
  shows "buildTextFieldMutation text (int a) (int b) typed kind = exact_mutation text a b typed (sourceFromInputType kind)"
    and "buildTextFieldMutation text (int b) (int a) typed kind = exact_mutation text a b typed (sourceFromInputType kind)"
proof -
  have ab: "a \<le> b" "b \<le> length text" using assms(1) by (simp_all add: tidy_def)
  have d: "0 < codepointCount (take (b - a) (drop a text))" if "a < b" using that ab by (intro slice_nonempty)
  have p: "codepointOffsetOf text (int a) = codepointCount (take a text)" by (rule tidy_counts(3) [OF assms(1)])
  show "buildTextFieldMutation text (int a) (int b) typed kind = exact_mutation text a b typed (sourceFromInputType kind)"
    "buildTextFieldMutation text (int b) (int a) typed kind = exact_mutation text a b typed (sourceFromInputType kind)"
    using ab assms(2-4) d p codepointCount_pos [of typed]
    by (auto simp: buildTextFieldMutation_def Let_def insertedCodepointsForInput_def js_slice_def operationFor_def exact_mutation_def min_def max_def)
qed

lemma deletion_helper_exact:
  assumes "tidy text a b []" and "a < b"
  shows "collapsedDeletionMutation (codepointCount text) (codepointCount (replaced text a b []))
      (codepointOffsetOf (replaced text a b []) (int a)) src = Some (exact_mutation text a b [] src)"
proof -
  note n = tidy_counts [OF assms(1)]
  have "0 < codepointCount (take (b - a) (drop a text))" using assms by (intro slice_nonempty) (simp_all add: tidy_def)
  moreover have "codepointOffsetOf (replaced text a b []) (int a) = codepointCount (take a text)" using n(5) by simp
  ultimately show ?thesis by (simp add: collapsedDeletionMutation_def Let_def n(1,2) exact_mutation_def)
qed

text \<open>The facts of these edits are true.\<close>

lemma deletion_truthful:
  assumes "a < b" and "b \<le> length text" and "starts_with ''delete'' kind" and "sel \<in> {(a, b), (a, a), (b, b)}"
  shows "truthful text (replaced text a b []) (Some (int a))
     (Some \<lparr>ti_length = int (length text), ti_start = Some (int (fst sel)), ti_end = Some (int (snd sel)), ti_inputType = kind, ti_dataLength = d\<rparr>)"
proof -
  have "spliced text (take a text @ drop b text) a b" using assms(1,2) by (simp add: spliced_def)
  moreover have "kind \<noteq> js ''insertReplacementText''" using assms(3) by (auto simp: starts_with_def)
  ultimately show ?thesis
    using assms first_letters(1) [OF assms(3)]
    by (auto simp: truthful_def span_of_event_def event_span_def Let_def replaced_def)
qed

section \<open>Each edit is recorded exactly\<close>

definition settled :: "jsstring \<Rightarrow> write_capture \<Rightarrow> bool" where
  "settled text st \<longleftrightarrow> index_for text (wc_index st) \<and> wc_composition st = None \<and> wc_committed st = None
     \<and> \<not> wc_gap st \<and> wc_observedLength st = codepointCount text"

lemma input_cycle:
  assumes "settled text st" and "ta_value el = text"
    and "truthful text (ta_value el') (Some (ta_start el'))
      (Some \<lparr>ti_length = int (length text), ti_start = Some (ta_start el), ti_end = Some (ta_stop el), ti_inputType = kind,
             ti_dataLength = map_option (\<lambda>d. int (length d)) data\<rparr>)"
    and "deriveMutationFromMeasuredInput
        \<lparr>me_lengthBefore = codepointCount text, me_start = Some (codepointOffsetOf text (ta_start el)),
         me_selected = Some (codepointOffsetOf text (ta_stop el) - codepointOffsetOf text (ta_start el)),
         mi_inputType = kind, mi_data = map_option codepointCount data\<rparr>
        (codepointCount (ta_value el')) (Some (codepointOffsetOf (ta_value el') (ta_start el'))) = Some m"
  shows "\<exists>st'. run_steps capture_step st [(el, BeforeInput (Some kind) data), (el', InputApplied (Some kind) False)] = Inr st'
     \<and> settled (ta_value el') st' \<and> wc_emitted st' = wc_emitted st @ [m]"
proof -
  have s: "index_for text (wc_index st)" "wc_composition st = None" "wc_committed st = None" "\<not> wc_gap st"
    "wc_observedLength st = codepointCount text" using assms(1) by (simp_all add: settled_def)
  from measure_area_exact [OF s(1), of el] assms(2) obtain ix where
    m: "index_for text ix" "measure_area el (wc_index st) = (ix, \<lparr>me_lengthBefore = codepointCount text,
      me_start = Some (codepointOffsetOf text (ta_start el)),
      me_selected = Some (codepointOffsetOf text (ta_stop el) - codepointOffsetOf text (ta_start el))\<rparr>)" by auto
  define st1 where "st1 = on_beforeinput el (Some kind) data st"
  have u: "ni_utf16Length ix = int (length text)" using m(1) by (simp add: index_for_def)
  have st1: "wc_index st1 = ix" "wc_composition st1 = None" "wc_committed st1 = None" "\<not> wc_gap st1" "wc_emitted st1 = wc_emitted st"
    "wc_numericIntent st1 = Some \<lparr>ti_length = int (length text), ti_start = Some (ta_start el), ti_end = Some (ta_stop el),
       ti_inputType = kind, ti_dataLength = map_option (\<lambda>d. int (length d)) data\<rparr>"
    "wc_pending st1 = Some \<lparr>me_lengthBefore = codepointCount text, me_start = Some (codepointOffsetOf text (ta_start el)),
         me_selected = Some (codepointOffsetOf text (ta_stop el) - codepointOffsetOf text (ta_start el)),
         mi_inputType = kind, mi_data = map_option codepointCount data\<rparr>"
    by (simp_all add: st1_def on_beforeinput_def Let_def s m(2) note_gap_def beginNumeric_def with_intent_def u)
  let ?st2 = "st1\<lparr>wc_committed := None, wc_pending := None\<rparr>"
  from applyNumeric_exact [of "text" ?st2 el'] assms(3) m(1) st1 obtain ix1 where
    a: "applyNumeric el' ?st2 = Inr (?st2\<lparr>wc_numericIntent := None, wc_index := ix1\<rparr>)" "index_for (ta_value el') ix1" by auto
  from caret_offset_exact [of "ta_value el'" "?st2\<lparr>wc_numericIntent := None, wc_index := ix1\<rparr>" el'] a(2) obtain ix2 where
    c: "caret_offset el' (?st2\<lparr>wc_numericIntent := None, wc_index := ix1\<rparr>)
          = (?st2\<lparr>wc_numericIntent := None, wc_index := ix2\<rparr>, codepointOffsetOf (ta_value el') (ta_start el'))"
       "index_for (ta_value el') ix2" by auto
  have "on_input el' (Some kind) False st1
      = Inr (emitApplied (Some m) (codepointCount (ta_value el')) (?st2\<lparr>wc_numericIntent := None, wc_index := ix2\<rparr>))"
    using a(1) c(1) assms(4) by (simp add: on_input_def st1(2,3,7) apply_input_def index_length_exact [OF a(2)] Let_def)
  moreover have "settled (ta_value el') (emitApplied (Some m) (codepointCount (ta_value el')) (?st2\<lparr>wc_numericIntent := None, wc_index := ix2\<rparr>))"
    using c(2) st1 by (simp add: settled_def emitApplied_def)
  ultimately show ?thesis using st1(4,5) by (simp add: st1_def [symmetric] emitApplied_def)
qed

lemma compose_cycle:
  assumes "settled text st" and "tidy text a b typed" and "typed \<noteq> []"
  shows "\<exists>st'. run_steps capture_step st (edit_events text (Compose a b typed)) = Inr st'
     \<and> settled (replaced text a b typed) st' \<and> wc_emitted st' = wc_emitted st @ [exact_mutation text a b typed Ime]"
proof -
  let ?text = "replaced text a b typed" and ?kind = "js ''insertFromComposition''" and ?el = "area text a b"
  let ?c = "a + length typed" and ?caret = "codepointOffsetOf (replaced text a b typed) (int (a + length typed))"
  define el' where "el' = area ?text ?c ?c"
  have el': "ta_value el' = ?text" "ta_start el' = int ?c" by (simp_all add: el'_def)
  have s: "index_for text (wc_index st)" "wc_composition st = None" "wc_committed st = None" "\<not> wc_gap st"
    "wc_observedLength st = codepointCount text" using assms(1) by (simp_all add: settled_def)
  define m0 where "m0 = \<lparr>me_lengthBefore = codepointCount text, me_start = Some (codepointOffsetOf text (int a)),
      me_selected = Some (codepointOffsetOf text (int b) - codepointOffsetOf text (int a))\<rparr>"
  from measure_area_exact [OF s(1), of ?el] obtain ix where
    m: "index_for text ix" "measure_area ?el (wc_index st) = (ix, m0)" by (auto simp: m0_def)
  define st1 where "st1 = on_compositionstart ?el st"
  have u: "ni_utf16Length ix = int (length text)" using m(1) by (simp add: index_for_def)
  have st1: "wc_index st1 = ix" "wc_composition st1 = Some m0" "\<not> wc_gap st1" "wc_emitted st1 = wc_emitted st"
    "wc_numericIntent st1 = Some \<lparr>ti_length = int (length text), ti_start = Some (int a), ti_end = Some (int b),
       ti_inputType = ?kind, ti_dataLength = None\<rparr>"
    by (simp_all add: st1_def on_compositionstart_def Let_def s m(2) note_gap_def beginNumeric_def u m0_def)
  let ?st2 = "st1\<lparr>wc_composition := None, wc_pending := None\<rparr>"
  have kind: "starts_with ''insert'' ?kind" "?kind \<noteq> js ''insertReplacementText''" by (simp_all add: starts_with_def)
  from typing_truthful [of a b "text" ?kind typed None] assms(2) kind
  have "truthful text ?text (Some (int ?c)) (wc_numericIntent st1)" by (simp add: st1(5) tidy_def replaced_def)
  with applyNumeric_exact [of "text" ?st2 el'] m(1) st1(1) el' obtain ix1 where
    a: "applyNumeric el' ?st2 = Inr (?st2\<lparr>wc_numericIntent := None, wc_index := ix1\<rparr>)" "index_for ?text ix1" by auto
  from caret_offset_exact [of ?text "?st2\<lparr>wc_numericIntent := None, wc_index := ix1\<rparr>" el'] a(2) el' obtain ix2 where
    c: "caret_offset el' (?st2\<lparr>wc_numericIntent := None, wc_index := ix1\<rparr>) = (?st2\<lparr>wc_numericIntent := None, wc_index := ix2\<rparr>, ?caret)"
       "index_for ?text ix2" by auto
  let ?st3 = "?st2\<lparr>wc_numericIntent := None, wc_index := ix2, wc_committed := Some (codepointCount ?text, ?caret)\<rparr>"
  from caret_offset_exact [of ?text ?st3 el'] c(2) el' obtain ix3 where
    d: "caret_offset el' ?st3 = (?st3\<lparr>wc_index := ix3\<rparr>, ?caret)" "index_for ?text ix3" by auto
  define st4 where "st4 = emitApplied (Some (exact_mutation text a b typed Ime)) (codepointCount ?text) (?st3\<lparr>wc_index := ix3\<rparr>)"
  have derived: "deriveMutationFromMeasuredInput (with_intent m0 ?kind (Some (codepointCount typed))) (codepointCount ?text) (Some ?caret)
      = Some (exact_mutation text a b typed Ime)"
    using derived_insert [OF assms(2,3) kind, of "Some typed"]
    by (simp add: data_says_def with_intent_def m0_def one_of_def sourceFromInputType_def)
  have e: "on_compositionend el' typed st1 = Inr st4"
    using a(1) c(1) d(1) derived codepointCount_pos [OF assms(3)] assms(3)
    by (simp add: on_compositionend_def st1(2) Let_def index_length_exact [OF a(2)] st4_def)
  have st4: "index_for ?text (wc_index st4)" "wc_composition st4 = None" "wc_committed st4 = Some (codepointCount ?text, ?caret)"
    "\<not> wc_gap st4" "wc_observedLength st4 = codepointCount ?text"
    "wc_emitted st4 = wc_emitted st @ [exact_mutation text a b typed Ime]"
    using d(2) st1(3,4) by (simp_all add: st4_def emitApplied_def)
  from repeats_commit_exact [OF st4(1), of el' "(codepointCount ?text, ?caret)"] el' obtain ix4 where
    r: "index_for ?text ix4" "repeats_commit el' (codepointCount ?text, ?caret) st4 = (st4\<lparr>wc_index := ix4\<rparr>, True)" by auto
  have "on_input el' (Some (js ''insertCompositionText'')) True st4 = Inr (st4\<lparr>wc_index := ix4, wc_committed := None, wc_pending := None\<rparr>)"
    using r(2) by (simp add: on_input_def st4(2,3))
  with e r(1) st4 show ?thesis by (simp add: el'_def [symmetric] Let_def st1_def [symmetric] settled_def)
qed

lemma edit_recorded:
  assumes "settled text st" and "usual_edit text e"
  shows "\<exists>st'. run_steps capture_step st (edit_events text e) = Inr st' \<and> settled (edited text e) st'
     \<and> wc_emitted st' = wc_emitted st @ edit_mutations text e"
proof (cases e)
  case (TypeOver a b typed data kind)
  with assms(2) have u: "tidy text a b typed" "typed \<noteq> []" "starts_with ''insert'' kind" "kind \<noteq> js ''insertReplacementText''"
    "data_says kind data typed" by simp_all
  let ?c = "a + length typed"
  have "truthful text (replaced text a b typed) (Some (int ?c)) (Some \<lparr>ti_length = int (length text), ti_start = Some (int a),
      ti_end = Some (int b), ti_inputType = kind, ti_dataLength = map_option (\<lambda>d. int (length d)) data\<rparr>)"
    unfolding replaced_def by (rule typing_truthful) (use u in \<open>simp_all add: tidy_def\<close>)
  with input_cycle [OF assms(1), of "area text a b" "area (replaced text a b typed) ?c ?c" kind data] derived_insert [OF u]
  show ?thesis by (simp add: TypeOver Let_def)
next
  case (Compose a b typed)
  with compose_cycle [OF assms(1), of a b typed] assms(2) show ?thesis by simp
next
  case (DeleteSpan a b sel kind)
  with assms(2) have u: "tidy text a b []" "a < b" "sel \<in> {(a, b), (a, a), (b, b)}" "starts_with ''delete'' kind" "b \<le> length text"
    by (simp_all add: tidy_def)
  with input_cycle [OF assms(1), of "area text (fst sel) (snd sel)" "area (replaced text a b []) a a" kind None]
    derived_delete [OF u(1,2,4)] deletion_truthful [OF u(2,5,4,3), of None]
  show ?thesis by (simp add: DeleteSpan)
next
  case (TimerFires n)
  with assms(1) show ?thesis by (auto simp: on_timer_def settled_def Let_def)
qed

lemma edits_recorded:
  "settled text st \<Longrightarrow> usual_edits text es \<Longrightarrow>
     \<exists>st'. run_steps capture_step st (all_events text es) = Inr st' \<and> settled (foldl edited text es) st'
       \<and> wc_emitted st' = wc_emitted st @ all_mutations text es"
proof (induction es arbitrary: "text" st)
  case (Cons e es)
  from Cons.prems edit_recorded [of "text" st e] obtain st1 where
    "run_steps capture_step st (edit_events text e) = Inr st1" "settled (edited text e) st1"
    "wc_emitted st1 = wc_emitted st @ edit_mutations text e" by auto
  with Cons.IH [of "edited text e" st1] Cons.prems(2) show ?case by (simp add: run_steps_append)
qed simp

section \<open>The recorded log plays the writing\<close>

lemma plays_append: "plays (es @ fs) doc doc' \<longleftrightarrow> (\<exists>mid. plays es doc mid \<and> plays fs mid doc')"
  by (induction es arbitrary: doc) auto

lemma exact_edits:
  assumes "tidy text a b typed" and "recorded_as (exact_mutation text a b typed src) e"
  shows "edits e (codepoints text) (codepoints (replaced text a b typed))"
proof -
  let ?x = "take a text" and ?y = "take (b - a) (drop a text)" and ?z = "drop b text"
  have ab: "a \<le> b" using assms(1) by (simp add: tidy_def)
  then have yz: "drop a text = ?y @ ?z" by (metis append_take_drop_id drop_drop le_add_diff_inverse2)
  have x: "codepoints text = codepoints ?x @ codepoints (drop a text)"
    using codepoints_append [of ?x "drop a text"] assms(1) by (simp add: tidy_def)
  have yz: "codepoints (drop a text) = codepoints ?y @ codepoints ?z"
    using codepoints_append [of ?y ?z] assms(1) yz by (simp add: tidy_def)
  have "codepoints (replaced text a b typed) = codepoints ?x @ codepoints typed @ codepoints ?z"
    using assms(1) by (simp add: replaced_def tidy_def codepoints_append)
  with assms(2) x yz show ?thesis
    by (auto simp: edits_def recorded_as_def next_event_def exact_mutation_def codepointCount_def
        intro!: exI [of _ "codepoints typed"])
qed

lemma exact_accounted:
  assumes "tidy text a b typed" and "typed \<noteq> [] \<or> a < b" and "int (length text) \<le> MAX_INTEGER_FIELD_VALUE"
    and "int (length (replaced text a b typed)) \<le> MAX_INTEGER_FIELD_VALUE"
  shows "accounted (exact_mutation text a b typed src)"
proof -
  note n = tidy_counts [OF assms(1)]
  have "in_int_range (codepointCount text)" "in_int_range (codepointCount (replaced text a b typed))"
    using assms(3,4) codepointCount_le [of "text"] codepointCount_le [of "replaced text a b typed"] by (simp_all add: in_int_range_def)
  moreover have "0 < codepointCount (take (b - a) (drop a text))" if "a < b"
    using assms(1) that by (intro slice_nonempty) (simp_all add: tidy_def)
  moreover have "codepointCount (take (b - a) (drop a text)) = 0" if "\<not> a < b" using that by simp
  ultimately have "accounts (codepointCount text) (codepointCount (replaced text a b typed)) (exact_mutation text a b typed src)"
    using assms(2) codepointCount_pos [of typed] by (auto simp: accounts_def exact_mutation_def n(1,2))
  with \<open>in_int_range (codepointCount text)\<close> \<open>in_int_range (codepointCount (replaced text a b typed))\<close>
  show ?thesis by (auto simp: accounted_def)
qed

lemma usual_short: "usual_edits text es \<Longrightarrow> int (length text) \<le> MAX_INTEGER_FIELD_VALUE"
  by (cases es) simp_all

lemma edit_mutations_exact:
  assumes "usual_edit text e" and "int (length text) \<le> MAX_INTEGER_FIELD_VALUE" and "int (length (edited text e)) \<le> MAX_INTEGER_FIELD_VALUE"
  shows "\<forall>m \<in> set (edit_mutations text e). accounted m"
    and "list_all2 recorded_as (edit_mutations text e) log \<Longrightarrow> plays log (codepoints text) (codepoints (edited text e))"
  using assms exact_accounted exact_edits by (cases e; auto simp: list_all2_Cons1)+

lemma all_mutations_exact:
  "usual_edits text es \<Longrightarrow> (\<forall>m \<in> set (all_mutations text es). accounted m)
     \<and> (\<forall>log. list_all2 recorded_as (all_mutations text es) log \<longrightarrow> plays log (codepoints text) (codepoints (foldl edited text es)))"
proof (induction es arbitrary: "text")
  case (Cons e es)
  note one = edit_mutations_exact [of "text" e] and rest = Cons.IH [of "edited text e"]
  from Cons.prems usual_short [of "edited text e" es] one rest show ?case
    by (fastforce simp: list_all2_append1 plays_append)
qed simp

text \<open>C6: Usual writing is recorded exactly. Let the edits of a text area be typing, pasting, line breaks,
  deletions and compositions, each reported with its usual events, at any places, over any selections, with
  timers firing in between, none of them breaking a surrogate pair. Then the capture emits for each edit
  exactly its mutation, in code points, and reports no gap; and whatever the clock says, the log recorded
  from the mutations is valid and plays from the code points of the first text to those of the last.\<close>

theorem writing_recorded_exactly:
  assumes "usual_edits text es" and "List.map fst ps = all_mutations text es"
    and "int (length ps) \<le> MAX_INTEGER_FIELD_VALUE" and "\<forall>(m, wall) \<in> set ps. wall - base \<le> MAX_TIME_FIELD_VALUE"
  shows "\<exists>st. run_steps capture_step (attachWriteCapture (area text a b)) (all_events text es) = Inr st
     \<and> wc_emitted st = all_mutations text es \<and> \<not> snd (hasGap (area (foldl edited text es) a' b') st)
     \<and> valid_log (append_all [] ps base) \<and> length (append_all [] ps base) = length ps
     \<and> plays (append_all [] ps base) (codepoints text) (codepoints (foldl edited text es))"
proof -
  have "settled text (attachWriteCapture (area text a b))"
    by (simp add: settled_def attachWriteCapture_def new_index_def reset_index_for index_length_exact [OF reset_index_for])
  from edits_recorded [OF this assms(1)] obtain st where
    st: "run_steps capture_step (attachWriteCapture (area text a b)) (all_events text es) = Inr st"
      "settled (foldl edited text es) st" "wc_emitted st = all_mutations text es"
    by (auto simp: attachWriteCapture_def)
  note exact = all_mutations_exact [OF assms(1)]
  have "\<forall>m \<in> fst ` set ps. accounted m" using exact by (simp add: assms(2) [symmetric])
  with assms(3,4) append_accounted [of "[]" ps base] obtain log where
    "append_all [] ps base = log" "valid_log log" "length log = length ps" "list_all2 recorded_as (List.map fst ps) log"
    by (auto simp: valid_log_def case_prod_beta)
  with exact st show ?thesis by (auto simp: assms(2) settled_def hasGap_def Let_def)
qed

definition sample_edits :: "user_edit list" where
  "sample_edits = [TypeOver 0 0 [97, 0xd83d, 0xde00] (Some [97, 0xd83d, 0xde00]) (js ''insertText''), TimerFires 1,
     Compose 1 3 [98, 99], DeleteSpan 0 1 (1, 1) (js ''deleteContentBackward'')]"

lemma writing_recorded_exactly_witness:
  "\<exists>st. run_steps capture_step (attachWriteCapture (area [] 0 0)) (all_events [] sample_edits) = Inr st
     \<and> wc_emitted st = all_mutations [] sample_edits
     \<and> plays (append_all [] (List.map (\<lambda>m. (m, 50)) (all_mutations [] sample_edits)) 20) [] [98, 99 :: nat]"
proof -
  have u: "usual_edits [] sample_edits" and l: "int (length (all_mutations [] sample_edits)) \<le> MAX_INTEGER_FIELD_VALUE"
    and t: "codepoints (foldl edited [] sample_edits) = [98, 99]" by code_simp+
  from writing_recorded_exactly [OF u, where ps = "List.map (\<lambda>m. (m, 50)) (all_mutations [] sample_edits)" and base = 20
      and a = 0 and b = 0 and a' = 0 and b' = 0] l t
  show ?thesis by (auto simp: comp_def MAX_TIME_FIELD_VALUE_def)
qed

end
