(* ===== verification/Draft_Writer.thy ===== *)
theory Draft_Writer
  imports Prelude
begin

text \<open>
  The writer that saves a draft of the web editor while it is typed (\<open>createCoalescingWriter\<close> of
  \<open>apps/web/src/drafts.ts\<close>): the scheduled value is replaced by newer ones, saves are jobs of one promise chain,
  and promises of earlier schedules are settled by the job that starts next. The environment chooses when the
  timer fires, when a job of the chain starts and how each save ends. Shown: whatever it chooses, no save of an
  old value follows one of a newer value, no value is lost, each promise is settled at most once, and one that
  is fulfilled stands for a saved value.
\<close>

section \<open>The writer\<close>

text \<open>
  Promises of \<open>schedule\<close> are numbered in the order of the calls; a promise of \<open>flush\<close> or of the timer is known by
  the number of schedules made before it. The chain \<open>running\<close> is the queue of the jobs that have not begun; at
  most one job is active, and it is waiting for a save. \<open>settling\<close> are the promises the active job settles.
\<close>

record 'v writer_job =
  wj_calls :: nat
  wj_value :: 'v
  wj_settling :: "nat list"

record 'v draft_writer =
  dw_pending :: "'v option"
  dw_running :: "nat list"
  dw_active :: "'v writer_job option"
  dw_timer :: bool
  dw_waiters :: "nat list"
  dw_calls :: nat
  dw_settled :: "(nat \<times> bool) list"
  dw_drained :: "(nat \<times> bool) list"
  dw_written :: "'v list"

definition createCoalescingWriter :: "'v draft_writer" where
  "createCoalescingWriter = \<lparr>dw_pending = None, dw_running = [], dw_active = None, dw_timer = False, dw_waiters = [],
     dw_calls = 0, dw_settled = [], dw_drained = [], dw_written = []\<rparr>"

definition drain :: "'v draft_writer \<Rightarrow> 'v draft_writer" where
  "drain st = st\<lparr>dw_running := dw_running st @ [dw_calls st]\<rparr>"

definition writer_schedule :: "'v \<Rightarrow> 'v draft_writer \<Rightarrow> 'v draft_writer" where
  "writer_schedule value st = st\<lparr>dw_pending := Some value, dw_waiters := dw_waiters st @ [dw_calls st],
     dw_calls := dw_calls st + 1, dw_timer := True\<rparr>"

definition writer_timer :: "'v draft_writer \<Rightarrow> 'v draft_writer option" where
  "writer_timer st = (if dw_timer st then Some (drain (st\<lparr>dw_timer := False\<rparr>)) else None)"

definition writer_flush :: "'v draft_writer \<Rightarrow> 'v draft_writer" where
  "writer_flush st = drain (st\<lparr>dw_timer := False\<rparr>)"

definition hasPending :: "'v draft_writer \<Rightarrow> bool" where
  "hasPending st \<longleftrightarrow> dw_pending st \<noteq> None"

definition settle_job :: "nat \<Rightarrow> nat list \<Rightarrow> bool \<Rightarrow> 'v draft_writer \<Rightarrow> 'v draft_writer" where
  "settle_job job settling fulfilled st = st\<lparr>dw_active := None,
     dw_settled := dw_settled st @ List.map (\<lambda>w. (w, fulfilled)) settling,
     dw_drained := dw_drained st @ [(job, fulfilled)]\<rparr>"

definition next_write :: "nat \<Rightarrow> nat list \<Rightarrow> 'v draft_writer \<Rightarrow> 'v draft_writer" where
  "next_write job settling st = (case dw_pending st of
      None \<Rightarrow> settle_job job settling True st
    | Some value \<Rightarrow> st\<lparr>dw_pending := None,
        dw_active := Some \<lparr>wj_calls = job, wj_value = value, wj_settling = settling\<rparr>\<rparr>)"

definition start_job :: "'v draft_writer \<Rightarrow> 'v draft_writer option" where
  "start_job st = (case (dw_active st, dw_running st) of
      (None, job # jobs) \<Rightarrow> Some (next_write job (dw_waiters st) (st\<lparr>dw_running := jobs, dw_waiters := []\<rparr>))
    | _ \<Rightarrow> None)"

definition write_settles :: "bool \<Rightarrow> 'v draft_writer \<Rightarrow> 'v draft_writer option" where
  "write_settles fulfilled st = (case dw_active st of
      None \<Rightarrow> None
    | Some j \<Rightarrow> Some (if fulfilled
        then next_write (wj_calls j) (wj_settling j) (st\<lparr>dw_active := None, dw_written := dw_written st @ [wj_value j]\<rparr>)
        else settle_job (wj_calls j) (wj_settling j) False
          (st\<lparr>dw_pending := Some (default_to (wj_value j) (dw_pending st))\<rparr>)))"

section \<open>Its runs\<close>

text \<open>
  The writer never looks at the values, so each is labelled with the number of its schedule; \<open>vs\<close> are the
  values scheduled so far.
\<close>

inductive writer_run :: "'v list \<Rightarrow> (nat \<times> 'v) draft_writer \<Rightarrow> bool" where
  run_created: "writer_run [] createCoalescingWriter"
| run_schedule: "writer_run vs st \<Longrightarrow> writer_run (vs @ [v]) (writer_schedule (length vs, v) st)"
| run_timer: "writer_run vs st \<Longrightarrow> writer_timer st = Some st' \<Longrightarrow> writer_run vs st'"
| run_flush: "writer_run vs st \<Longrightarrow> writer_run vs (writer_flush st)"
| run_job: "writer_run vs st \<Longrightarrow> start_job st = Some st' \<Longrightarrow> writer_run vs st'"
| run_write: "writer_run vs st \<Longrightarrow> write_settles fulfilled st = Some st' \<Longrightarrow> writer_run vs st'"

inductive_cases writer_runE: "writer_run vs st"

text \<open>The values not yet replaced, oldest first: those written, the one being written and the pending one.\<close>

definition value_line :: "'v draft_writer \<Rightarrow> 'v list" where
  "value_line st = dw_written st @ (case dw_active st of None \<Rightarrow> [] | Some j \<Rightarrow> [wj_value j])
     @ (case dw_pending st of None \<Rightarrow> [] | Some v \<Rightarrow> [v])"

text \<open>The promises of schedules, in the order in which they will have been settled.\<close>

definition promise_line :: "'v draft_writer \<Rightarrow> nat list" where
  "promise_line st = List.map fst (dw_settled st) @ (case dw_active st of None \<Rightarrow> [] | Some j \<Rightarrow> wj_settling j) @ dw_waiters st"

definition drain_line :: "'v draft_writer \<Rightarrow> nat list" where
  "drain_line st = List.map fst (dw_drained st) @ (case dw_active st of None \<Rightarrow> [] | Some j \<Rightarrow> [wj_calls j]) @ dw_running st"

definition awake :: "'v draft_writer \<Rightarrow> bool" where
  "awake st \<longleftrightarrow> dw_timer st \<or> dw_running st \<noteq> []"

definition saved_from :: "(nat \<times> 'v) draft_writer \<Rightarrow> nat \<Rightarrow> bool" where
  "saved_from st n \<longleftrightarrow> (\<exists>i v. (i, v) \<in> set (dw_written st) \<and> n \<le> i)"

text \<open>A line of labelled values: in order, labelled truly, and ending with the newest value.\<close>

definition numbered :: "'v list \<Rightarrow> (nat \<times> 'v) list \<Rightarrow> bool" where
  "numbered vs xs \<longleftrightarrow> sorted_wrt (<) (List.map fst xs) \<and> (\<forall>(i, v) \<in> set xs. i < length vs \<and> vs ! i = v)
     \<and> (vs \<noteq> [] \<longrightarrow> xs \<noteq> [] \<and> fst (last xs) = length vs - 1)"

lemma numbered_schedule:
  assumes "numbered vs (xs @ ys)"
  shows "numbered (vs @ [v]) (xs @ [(length vs, v)])"
proof -
  have all: "\<forall>p \<in> set (xs @ ys). fst p < length vs \<and> vs ! fst p = snd p"
    using assms by (simp add: numbered_def case_prod_beta)
  then have "\<forall>p \<in> set xs. fst p < length vs \<and> (vs @ [v]) ! fst p = snd p" by (simp add: nth_append)
  then show ?thesis
    using assms by (simp add: numbered_def case_prod_beta sorted_wrt_append less_Suc_eq)
qed

lemma numbered_replaced: "numbered vs (xs @ [x, y]) \<Longrightarrow> numbered vs (xs @ [y])"
  by (simp add: numbered_def sorted_wrt_append)

lemma numbered_last:
  assumes "numbered vs xs" and "n < length vs"
  shows "\<exists>i v. (i, v) \<in> set xs \<and> n \<le> i"
proof -
  have "xs \<noteq> []" "n \<le> fst (last xs)" using assms by (auto simp: numbered_def)
  then have "(fst (last xs), snd (last xs)) \<in> set xs \<and> n \<le> fst (last xs)" by simp
  then show ?thesis by blast
qed

definition fulfilled_saved :: "(nat \<times> 'v) draft_writer \<Rightarrow> bool" where
  "fulfilled_saved st \<longleftrightarrow> (\<forall>w. (w, True) \<in> set (dw_settled st) \<longrightarrow> saved_from st w)
     \<and> (\<forall>n. (n, True) \<in> set (dw_drained st) \<longrightarrow> n = 0 \<or> saved_from st (n - 1))"

definition scheduled_wakes :: "'v draft_writer \<Rightarrow> bool" where
  "scheduled_wakes st \<longleftrightarrow> (dw_waiters st \<noteq> [] \<longrightarrow> awake st)
     \<and> (dw_pending st \<noteq> None \<longrightarrow> awake st \<or> dw_active st \<noteq> None \<or> (\<exists>n ds. dw_drained st = ds @ [(n, False)]))"

definition writer_ok :: "'v list \<Rightarrow> (nat \<times> 'v) draft_writer \<Rightarrow> bool" where
  "writer_ok vs st \<longleftrightarrow> dw_calls st = length vs \<and> numbered vs (value_line st) \<and> promise_line st = [0..<length vs]
     \<and> sorted (drain_line st) \<and> (\<forall>n \<in> set (drain_line st). n \<le> length vs)
     \<and> scheduled_wakes st \<and> fulfilled_saved st"

lemmas writer_lines = value_line_def promise_line_def drain_line_def
lemmas writer_safety = scheduled_wakes_def awake_def fulfilled_saved_def saved_from_def

lemma writer_ok_created: "writer_ok [] createCoalescingWriter"
  by (simp add: writer_ok_def createCoalescingWriter_def writer_lines writer_safety numbered_def)

lemma writer_ok_drain: "writer_ok vs st \<Longrightarrow> writer_ok vs (drain (st\<lparr>dw_timer := False\<rparr>))"
  by (auto simp: writer_ok_def drain_def writer_lines writer_safety sorted_append)

lemma writer_ok_schedule:
  assumes "writer_ok vs st"
  shows "writer_ok (vs @ [v]) (writer_schedule (length vs, v) st)"
proof -
  let ?old = "dw_written st @ (case dw_active st of None \<Rightarrow> [] | Some j \<Rightarrow> [wj_value j])"
  have "numbered vs (?old @ (case dw_pending st of None \<Rightarrow> [] | Some v \<Rightarrow> [v]))"
    using assms by (simp add: writer_ok_def value_line_def)
  from numbered_schedule [OF this, of v] have "numbered (vs @ [v]) (value_line (writer_schedule (length vs, v) st))"
    by (simp add: value_line_def writer_schedule_def)
  moreover have "fulfilled_saved (writer_schedule (length vs, v) st)" "scheduled_wakes (writer_schedule (length vs, v) st)"
    using assms by (simp_all add: writer_ok_def writer_safety writer_schedule_def)
  ultimately show ?thesis
    using assms by (auto simp: writer_ok_def promise_line_def drain_line_def writer_schedule_def le_Suc_eq)
qed

text \<open>Between two saves of a job everything but the wake-up of the pending value holds.\<close>

definition between_saves :: "'v list \<Rightarrow> nat \<Rightarrow> nat list \<Rightarrow> (nat \<times> 'v) draft_writer \<Rightarrow> bool" where
  "between_saves vs job settling st \<longleftrightarrow> dw_calls st = length vs \<and> dw_active st = None
     \<and> numbered vs (dw_written st @ (case dw_pending st of None \<Rightarrow> [] | Some v \<Rightarrow> [v]))
     \<and> List.map fst (dw_settled st) @ settling @ dw_waiters st = [0..<length vs]
     \<and> sorted (List.map fst (dw_drained st) @ [job] @ dw_running st)
     \<and> (\<forall>n \<in> set (List.map fst (dw_drained st) @ [job] @ dw_running st). n \<le> length vs)
     \<and> (dw_waiters st \<noteq> [] \<longrightarrow> awake st) \<and> fulfilled_saved st"

lemma next_write_ok:
  assumes "between_saves vs job settling st"
  shows "writer_ok vs (next_write job settling st)"
proof (cases "dw_pending st")
  case None
  have num: "numbered vs (dw_written st)" using assms None by (simp add: between_saves_def)
  have saved: "saved_from st n" if "n < length vs" for n
    using numbered_last [OF num that] by (simp add: saved_from_def)
  have "set (List.map fst (dw_settled st) @ settling @ dw_waiters st) = {..< length vs}" "job \<le> length vs"
    using assms by (auto simp: between_saves_def)
  then have "\<forall>w \<in> set settling. saved_from st w" "job = 0 \<or> saved_from st (job - 1)"
    using saved by auto
  then have "fulfilled_saved (next_write job settling st)"
    using assms None by (auto simp: next_write_def settle_job_def between_saves_def fulfilled_saved_def saved_from_def)
  then show ?thesis
    using assms None num
    by (simp add: next_write_def settle_job_def between_saves_def writer_ok_def writer_lines scheduled_wakes_def awake_def comp_def)
next
  case (Some v)
  then show ?thesis
    using assms by (simp add: next_write_def between_saves_def writer_ok_def writer_lines writer_safety)
qed

lemma writer_ok_job:
  assumes "writer_ok vs st" and "start_job st = Some st'"
  shows "writer_ok vs st'"
proof -
  from assms(2) obtain job jobs where idle: "dw_active st = None" "dw_running st = job # jobs"
    and st': "st' = next_write job (dw_waiters st) (st\<lparr>dw_running := jobs, dw_waiters := []\<rparr>)"
    by (auto simp: start_job_def split: option.splits list.splits)
  have "between_saves vs job (dw_waiters st) (st\<lparr>dw_running := jobs, dw_waiters := []\<rparr>)"
    using assms(1) idle by (simp add: between_saves_def writer_ok_def writer_lines fulfilled_saved_def saved_from_def)
  then show ?thesis unfolding st' by (rule next_write_ok)
qed

lemma writer_ok_saved:
  assumes "writer_ok vs st" and "dw_active st = Some j" and "write_settles True st = Some st'"
  shows "writer_ok vs st'"
proof -
  let ?st = "st\<lparr>dw_active := None, dw_written := dw_written st @ [wj_value j]\<rparr>"
  have mono: "saved_from ?st n" if "saved_from st n" for n
    using that by (auto simp: saved_from_def)
  have "fulfilled_saved ?st" using assms(1) by (auto simp: writer_ok_def fulfilled_saved_def intro: mono)
  then have "between_saves vs (wj_calls j) (wj_settling j) ?st"
    using assms(1,2) by (simp add: between_saves_def writer_ok_def writer_lines scheduled_wakes_def awake_def)
  from next_write_ok [OF this] show ?thesis using assms(2,3) by (simp add: write_settles_def)
qed

lemma writer_ok_failed:
  assumes "writer_ok vs st" and "dw_active st = Some j" and "write_settles False st = Some st'"
  shows "writer_ok vs st'"
proof -
  have st': "st' = settle_job (wj_calls j) (wj_settling j) False (st\<lparr>dw_pending := Some (default_to (wj_value j) (dw_pending st))\<rparr>)"
    using assms(2,3) by (simp add: write_settles_def)
  have "numbered vs (value_line st')"
    using assms(1,2) numbered_replaced [of vs "dw_written st" "wj_value j"]
    by (cases "dw_pending st") (simp_all add: st' settle_job_def writer_ok_def value_line_def)
  moreover have "fulfilled_saved st'"
    using assms(1) by (auto simp: st' settle_job_def writer_ok_def fulfilled_saved_def saved_from_def)
  ultimately show ?thesis
    using assms(1,2) by (simp add: st' settle_job_def writer_ok_def promise_line_def drain_line_def scheduled_wakes_def awake_def comp_def)
qed

lemma writer_ok_run: "writer_run vs st \<Longrightarrow> writer_ok vs st"
proof (induction rule: writer_run.induct)
  case (run_timer vs st st')
  then show ?case by (auto simp: writer_timer_def intro: writer_ok_drain split: if_splits)
next
  case (run_write vs st fulfilled st')
  then obtain j where "dw_active st = Some j" by (auto simp: write_settles_def split: option.splits)
  with run_write show ?case by (cases fulfilled) (auto intro: writer_ok_saved writer_ok_failed)
qed (auto simp: writer_flush_def intro: writer_ok_created writer_ok_schedule writer_ok_drain writer_ok_job)

section \<open>What it promises\<close>

text \<open>C30: The writer that saves a draft never loses or reorders what was typed. Whatever the timer and the saves do:
  saves happen in the order of the schedules, so no older value overwrites a newer one; the newest value is saved,
  being saved or pending, also after failures; each schedule is settled at most once, and a schedule or a flush that
  is fulfilled stands for a saved value at least as new as the one it was made for; and a pending value has a timer,
  a job or a save to come, unless the last save failed.\<close>

theorem draft_writer_keeps_newest:
  assumes "writer_run vs st"
  shows "sorted_wrt (<) (List.map fst (dw_written st)) \<and> (\<forall>(i, v) \<in> set (dw_written st). i < length vs \<and> vs ! i = v)
     \<and> (vs \<noteq> [] \<longrightarrow> fst (last (value_line st)) = length vs - 1)
     \<and> distinct (List.map fst (dw_settled st)) \<and> (\<forall>w. (w, True) \<in> set (dw_settled st) \<longrightarrow> saved_from st w)
     \<and> (\<forall>n. (n, True) \<in> set (dw_drained st) \<longrightarrow> n = 0 \<or> saved_from st (n - 1))
     \<and> (hasPending st \<longrightarrow> dw_timer st \<or> dw_running st \<noteq> [] \<or> dw_active st \<noteq> None \<or> (\<exists>n ds. dw_drained st = ds @ [(n, False)]))"
proof -
  have ok: "writer_ok vs st" by (rule writer_ok_run [OF assms])
  then have "numbered vs (value_line st)" "promise_line st = [0..<length vs]" by (simp_all add: writer_ok_def)
  then have "sorted_wrt (<) (List.map fst (dw_written st))" "\<forall>(i, v) \<in> set (dw_written st). i < length vs \<and> vs ! i = v"
    "vs \<noteq> [] \<longrightarrow> fst (last (value_line st)) = length vs - 1"
    by (simp_all add: numbered_def value_line_def sorted_wrt_append ball_Un)
  moreover have "distinct (promise_line st)" unfolding \<open>promise_line st = _\<close> by simp
  then have "distinct (List.map fst (dw_settled st))" by (simp add: promise_line_def)
  ultimately show ?thesis
    using ok by (simp add: writer_ok_def fulfilled_saved_def scheduled_wakes_def awake_def hasPending_def)
qed

text \<open>A flush of an idle writer whose save succeeds leaves nothing pending and every schedule settled.\<close>

lemma flush_saves:
  assumes "writer_run vs st" and "dw_active st = None" and "dw_running st = []" and "vs \<noteq> []"
  shows "\<exists>st'. start_job (writer_flush st) = Some st' \<and>
     (let final = (if dw_active st' = None then st' else the (write_settles True st')) in
        writer_run vs final \<and> \<not> hasPending final \<and> dw_active final = None \<and> fst (last (dw_written final)) = length vs - 1
        \<and> List.map fst (dw_settled final) = [0..<length vs])"
proof -
  obtain st' where st': "start_job (writer_flush st) = Some st'"
    using assms(2,3) by (simp add: start_job_def writer_flush_def drain_def)
  have run': "writer_run vs st'" by (rule run_job [OF run_flush [OF assms(1)] st'])
  let ?final = "if dw_active st' = None then st' else the (write_settles True st')"
  have "writer_run vs ?final"
    using run' run_write [OF run', of True] by (auto simp: write_settles_def)
  moreover have idle: "dw_pending ?final = None \<and> dw_active ?final = None \<and> dw_waiters ?final = []"
    using st' assms(2,3) by (cases "dw_pending st")
      (auto simp: start_job_def writer_flush_def drain_def next_write_def settle_job_def write_settles_def)
  moreover have "numbered vs (value_line ?final)" "promise_line ?final = [0..<length vs]"
    using writer_ok_run [OF calculation(1)] by (simp_all add: writer_ok_def)
  ultimately show ?thesis
    using st' assms(4) by (simp add: hasPending_def Let_def value_line_def promise_line_def numbered_def)
qed

text \<open>A schedule whose value was saved may still be refused, when the job goes on to a newer value and fails.\<close>

definition saved_then_refused :: "(nat \<times> nat) draft_writer" where
  "saved_then_refused = \<lparr>dw_pending = Some (1, 8), dw_running = [], dw_active = None, dw_timer = True, dw_waiters = [1],
     dw_calls = 2, dw_settled = [(0, False)], dw_drained = [(1, False)], dw_written = [(0, 7)]\<rparr>"

lemma saved_value_refused:
  "writer_run [7, 8] saved_then_refused \<and> (0, 7) \<in> set (dw_written saved_then_refused) \<and> (0, False) \<in> set (dw_settled saved_then_refused)"
proof -
  let ?s1 = "writer_schedule (0 :: nat, 7 :: nat) createCoalescingWriter" and ?s2 = "\<lambda>st. the (start_job (the (writer_timer st)))"
  have "writer_run [7] ?s1" using run_schedule [OF run_created, of "7 :: nat"] by simp
  then have "writer_run [7] (the (writer_timer ?s1))" by (rule run_timer) (simp add: writer_timer_def writer_schedule_def)
  then have "writer_run [7] (?s2 ?s1)"
    by (rule run_job) (simp add: writer_timer_def writer_schedule_def start_job_def drain_def createCoalescingWriter_def)
  from run_schedule [OF this, of 8] have s3: "writer_run [7, 8] (writer_schedule (1, 8) (?s2 ?s1))" by simp
  let ?s4 = "\<lparr>dw_pending = None, dw_running = [], dw_active = Some \<lparr>wj_calls = 1, wj_value = (1, 8), wj_settling = [0]\<rparr>,
     dw_timer = True, dw_waiters = [1], dw_calls = 2, dw_settled = [], dw_drained = [], dw_written = [(0, 7)]\<rparr> :: (nat \<times> nat) draft_writer"
  have "writer_run [7, 8] ?s4"
    by (rule run_write [OF s3, of True]) (simp add: writer_timer_def writer_schedule_def start_job_def drain_def
        createCoalescingWriter_def next_write_def write_settles_def)
  then have "writer_run [7, 8] saved_then_refused"
    by (rule run_write [of _ _ False]) (simp add: write_settles_def settle_job_def saved_then_refused_def)
  then show ?thesis by (simp add: saved_then_refused_def)
qed

lemma draft_writer_keeps_newest_witness:
  "sorted_wrt (<) (List.map fst (dw_written saved_then_refused)) \<and> fst (last (value_line saved_then_refused)) = 1
     \<and> hasPending saved_then_refused"
  using draft_writer_keeps_newest [OF conjunct1 [OF saved_value_refused]] by (simp add: hasPending_def) (simp add: saved_then_refused_def)

end
