(* ===== verification/Draft_Adoption.thy ===== *)
theory Draft_Adoption
  imports Producer_Session "HOL-Library.AList" "HOL-Library.Product_Lexorder"
begin

text \<open>
  The drafts of the web editor (\<open>apps/web/src/drafts.ts\<close>): the store of draft rows, and \<open>adoptSessions\<close>, which gives
  every recorded writing session that no draft owns to one. Shown: the adoption returns unless continuations
  form a cycle, gives every session to exactly one draft, and changes neither the text nor the name of a draft;
  and it keeps continuations together when they began after what they continue, which is not so otherwise.
\<close>

section \<open>Drafts\<close>

record draft_row =
  dr_id :: jsstring
  dr_name :: "jsstring option"
  dr_text :: jsstring
  dr_text_tag :: "(jsstring \<times> int \<times> jsstring option) option"
  dr_sessions :: "jsstring list"
  dr_created :: int
  dr_updated :: int

text \<open>The object store holds each row under its \<open>draft_id\<close>; \<open>getAll\<close> answers in the order of the keys.\<close>

type_synonym draft_store = "(jsstring \<times> draft_row) list"

definition drafts_list :: "draft_store \<Rightarrow> draft_row list" where
  "drafts_list store = sort_key (\<lambda>r. - dr_updated r) (List.map snd (sort_key fst store))"

definition drafts_get :: "draft_store \<Rightarrow> jsstring \<Rightarrow> draft_row option" where
  "drafts_get store draft_id = map_of store draft_id"

definition drafts_put :: "draft_store \<Rightarrow> draft_row list \<Rightarrow> draft_store" where
  "drafts_put store rows = foldl (\<lambda>st r. AList.update (dr_id r) r st) store rows"

definition drafts_update :: "draft_store \<Rightarrow> jsstring \<Rightarrow> (draft_row \<Rightarrow> draft_row) \<Rightarrow> draft_store \<times> bool" where
  "drafts_update store draft_id changes = (case map_of store draft_id of
      None \<Rightarrow> (store, False)
    | Some current \<Rightarrow> (AList.update draft_id ((changes current)\<lparr>dr_id := draft_id\<rparr>) store, True))"

definition drafts_delete :: "draft_store \<Rightarrow> jsstring \<Rightarrow> draft_store" where
  "drafts_delete store draft_id = AList.delete draft_id store"

section \<open>Adoption\<close>

definition write_sessions :: "session list \<Rightarrow> session list" where
  "write_sessions sessions = filter (\<lambda>e. se_surface e = js ''web-draft'') sessions"

definition session_by_id :: "session list \<Rightarrow> jsstring \<Rightarrow> session option" where
  "session_by_id ws = map_of (List.map (\<lambda>e. (se_id e, e)) (rev ws))"

definition session_by_hash :: "session list \<Rightarrow> jsstring \<Rightarrow> session option" where
  "session_by_hash ws = map_of (rev (concat (List.map (\<lambda>e. case se_response e of None \<Rightarrow> [] | Some r \<Rightarrow> [(ur_record_hash r, e)]) ws)))"

definition parent_session :: "session list \<Rightarrow> session \<Rightarrow> session option" where
  "parent_session ws e = (if truthy (se_parent e) then session_by_hash ws (the (se_parent e)) else None)"

record adoption =
  ad_rows :: "draft_row list"
  ad_owner :: "jsstring \<Rightarrow> nat option"
  ad_changed :: "nat list"

lemma session_by_hash_in: "session_by_hash ws h = Some p \<Longrightarrow> p \<in> set ws"
  by (auto simp: session_by_hash_def split: option.splits dest!: map_of_SomeD)

lemma parent_session_in: "parent_session ws e = Some p \<Longrightarrow> p \<in> set ws"
  by (auto simp: parent_session_def session_by_hash_in split: if_splits)

function chainRoot :: "session list \<Rightarrow> (jsstring \<Rightarrow> nat option) \<Rightarrow> jsstring list \<Rightarrow> session \<Rightarrow> session" where
  "chainRoot ws owner seen current =
     (if truthy (se_parent current) \<and> se_id current \<notin> set seen
      then (case session_by_hash ws (the (se_parent current)) of
          None \<Rightarrow> current
        | Some parent \<Rightarrow> if owner (se_id parent) \<noteq> None then current else chainRoot ws owner (se_id current # seen) parent)
      else current)"
  by pat_completeness auto
termination
proof (relation "measures [\<lambda>(ws, owner, seen, e). card (se_id ` set ws - set seen), \<lambda>(ws, owner, seen, e). if se_id e \<in> se_id ` set ws then 0 else 1]")
  fix ws and owner :: "jsstring \<Rightarrow> nat option" and seen and current parent :: session
  assume "truthy (se_parent current) \<and> se_id current \<notin> set seen"
    and p: "session_by_hash ws (the (se_parent current)) = Some parent"
  show "((ws, owner, se_id current # seen, parent), ws, owner, seen, current)
      \<in> measures [\<lambda>(ws, owner, seen, e). card (se_id ` set ws - set seen), \<lambda>(ws, owner, seen, e). if se_id e \<in> se_id ` set ws then 0 else 1]"
  proof (cases "se_id current \<in> se_id ` set ws")
    case True
    with \<open>truthy (se_parent current) \<and> _\<close> have "se_id ` set ws - set (se_id current # seen) \<subset> se_id ` set ws - set seen" by auto
    then show ?thesis by (simp add: psubset_card_mono)
  next
    case False
    then have "se_id ` set ws - set (se_id current # seen) = se_id ` set ws - set seen" by auto
    with False session_by_hash_in [OF p] show ?thesis by auto
  qed
qed simp

declare chainRoot.simps [simp del]

text \<open>The loop that collects the unowned sessions an entry continues has no such guard, so it may not end.\<close>

partial_function (option) lineage :: "session list \<Rightarrow> (jsstring \<Rightarrow> nat option) \<Rightarrow> session \<Rightarrow> session list option" where
  "lineage ws owner current =
     (if owner (se_id current) \<noteq> None then Some []
      else (case parent_session ws current of
          None \<Rightarrow> Some [current]
        | Some parent \<Rightarrow> Option.bind (lineage ws owner parent) (\<lambda>members. Some (members @ [current]))))"

declare lineage.simps [code]

definition join_row :: "nat \<Rightarrow> adoption \<Rightarrow> session \<Rightarrow> adoption" where
  "join_row k st member = (let row = ad_rows st ! k in
     st\<lparr>ad_rows := (ad_rows st)[k := row\<lparr>dr_sessions := dr_sessions row @ [se_id member],
          dr_updated := max (dr_updated row) (se_last_edit member)\<rparr>],
        ad_owner := (ad_owner st)(se_id member \<mapsto> k)\<rparr>)"

definition new_row :: "jsstring \<Rightarrow> session \<Rightarrow> draft_row" where
  "new_row draft_id root = \<lparr>dr_id = draft_id, dr_name = None, dr_text = [], dr_text_tag = None, dr_sessions = [],
     dr_created = se_base root, dr_updated = se_last_edit root\<rparr>"

text \<open>\<open>uuid n\<close> is the identifier made for the row at position \<open>n\<close>.\<close>

definition row_for :: "session list \<Rightarrow> (nat \<Rightarrow> jsstring) \<Rightarrow> adoption \<Rightarrow> session \<Rightarrow> nat \<times> adoption" where
  "row_for ws uuid st e = (case Option.bind (parent_session ws e) (\<lambda>p. ad_owner st (se_id p)) of
      Some k \<Rightarrow> (k, st)
    | None \<Rightarrow> (let root = chainRoot ws (ad_owner st) [] e in
        case (if root \<noteq> e then ad_owner st (se_id root) else None) of
          Some k \<Rightarrow> (k, st)
        | None \<Rightarrow> (length (ad_rows st), st\<lparr>ad_rows := ad_rows st @ [new_row (uuid (length (ad_rows st))) root]\<rparr>)))"

definition adopt_entry :: "session list \<Rightarrow> (nat \<Rightarrow> jsstring) \<Rightarrow> adoption \<Rightarrow> session \<Rightarrow> adoption option" where
  "adopt_entry ws uuid st e =
     (if ad_owner st (se_id e) \<noteq> None then Some st
      else let (k, st1) = row_for ws uuid st e in
        Option.bind (lineage ws (ad_owner st1) e) (\<lambda>members.
          Some ((foldl (join_row k) st1 members)\<lparr>ad_changed :=
            (if k \<in> set (ad_changed st) then ad_changed st else ad_changed st @ [k])\<rparr>)))"

fun adopt_all :: "session list \<Rightarrow> (nat \<Rightarrow> jsstring) \<Rightarrow> adoption \<Rightarrow> session list \<Rightarrow> adoption option" where
  "adopt_all ws uuid st [] = Some st"
| "adopt_all ws uuid st (e # es) = Option.bind (adopt_entry ws uuid st e) (\<lambda>st'. adopt_all ws uuid st' es)"

definition owners :: "draft_row list \<Rightarrow> jsstring \<Rightarrow> nat option" where
  "owners rows = map_of (rev (concat (List.map (\<lambda>k. List.map (\<lambda>i. (i, k)) (dr_sessions (rows ! k))) [0..<length rows])))"

definition sorted_row :: "session list \<Rightarrow> draft_row \<Rightarrow> draft_row" where
  "sorted_row ws row = row\<lparr>dr_sessions := sort_key (\<lambda>i. case session_by_id ws i of None \<Rightarrow> 0 | Some e \<Rightarrow> se_base e) (dr_sessions row)\<rparr>"

definition adoptSessions :: "draft_row list \<Rightarrow> session list \<Rightarrow> (nat \<Rightarrow> jsstring) \<Rightarrow> draft_row list option" where
  "adoptSessions drafts sessions uuid = (let ws = write_sessions sessions in
     map_option (\<lambda>st. List.map (\<lambda>k. sorted_row ws (ad_rows st ! k)) (ad_changed st))
       (adopt_all ws uuid \<lparr>ad_rows = drafts, ad_owner = owners drafts, ad_changed = []\<rparr>
         (sort_key (\<lambda>e. (se_base e, se_last_edit e)) ws)))"

section \<open>What the adoption keeps\<close>

text \<open>The owner map says in which row a session is; rows that were drafts keep all but their sessions.\<close>

definition owner_exact :: "adoption \<Rightarrow> bool" where
  "owner_exact st \<longleftrightarrow> (\<forall>i k. ad_owner st i = Some k \<longleftrightarrow> k < length (ad_rows st) \<and> i \<in> set (dr_sessions (ad_rows st ! k)))"

definition row_grown :: "draft_row \<Rightarrow> draft_row \<Rightarrow> bool" where
  "row_grown r r' \<longleftrightarrow> dr_id r' = dr_id r \<and> dr_name r' = dr_name r \<and> dr_text r' = dr_text r \<and> dr_text_tag r' = dr_text_tag r
     \<and> dr_created r' = dr_created r \<and> set (dr_sessions r) \<subseteq> set (dr_sessions r')"

definition rows_kept :: "(nat \<Rightarrow> jsstring) \<Rightarrow> draft_row list \<Rightarrow> adoption \<Rightarrow> bool" where
  "rows_kept uuid drafts st \<longleftrightarrow> length drafts \<le> length (ad_rows st)
     \<and> (\<forall>k < length drafts. row_grown (drafts ! k) (ad_rows st ! k) \<and> (k \<notin> set (ad_changed st) \<longrightarrow> ad_rows st ! k = drafts ! k))
     \<and> (\<forall>k < length (ad_rows st). length drafts \<le> k \<longrightarrow> dr_id (ad_rows st ! k) = uuid k \<and> k \<in> set (ad_changed st))
     \<and> distinct (ad_changed st) \<and> set (ad_changed st) \<subseteq> {..< length (ad_rows st)}"

lemma row_grown_refl [simp]: "row_grown r r"
  by (simp add: row_grown_def)

lemma join_row_owner:
  assumes "owner_exact st" and "k < length (ad_rows st)" and "ad_owner st (se_id m) = None"
  shows "owner_exact (join_row k st m)"
proof -
  have none: "se_id m \<notin> set (dr_sessions (ad_rows st ! j))" if "j < length (ad_rows st)" for j
    using assms(1,3) that unfolding owner_exact_def by (metis option.distinct(1))
  show ?thesis
    using assms(1,2) none by (auto simp: owner_exact_def join_row_def Let_def nth_list_update)
qed

lemma join_row_simps [simp]:
  "length (ad_rows (join_row k st m)) = length (ad_rows st)"
  "ad_owner (join_row k st m) = (ad_owner st)(se_id m \<mapsto> k)"
  "ad_changed (join_row k st m) = ad_changed st"
  "j \<noteq> k \<Longrightarrow> ad_rows (join_row k st m) ! j = ad_rows st ! j"
  by (simp_all add: join_row_def Let_def)

lemma join_row_grown: "row_grown (ad_rows st ! j) (ad_rows (join_row k st m) ! j)"
  by (cases "j = k \<and> k < length (ad_rows st)") (auto simp: join_row_def Let_def row_grown_def list_update_beyond)

lemma joined_rows:
  "length (ad_rows (foldl (join_row k) st ms)) = length (ad_rows st)"
  "ad_changed (foldl (join_row k) st ms) = ad_changed st"
  "j \<noteq> k \<Longrightarrow> ad_rows (foldl (join_row k) st ms) ! j = ad_rows st ! j"
  "row_grown (ad_rows st ! j) (ad_rows (foldl (join_row k) st ms) ! j)"
  "ad_owner (foldl (join_row k) st ms) = (\<lambda>i. if i \<in> se_id ` set ms then Some k else ad_owner st i)"
proof (induction ms arbitrary: st)
  case (Cons m ms)
  case 4
  from Cons.IH(4) [of "join_row k st m"] join_row_grown [of st j k m] show ?case by (auto simp: row_grown_def)
qed (auto simp: fun_eq_iff)

lemma joined_owner:
  "owner_exact st \<Longrightarrow> k < length (ad_rows st) \<Longrightarrow> distinct (List.map se_id ms) \<Longrightarrow> \<forall>m \<in> set ms. ad_owner st (se_id m) = None \<Longrightarrow>
     owner_exact (foldl (join_row k) st ms)"
proof (induction ms arbitrary: st)
  case (Cons m ms)
  have "owner_exact (join_row k st m)" using Cons.prems by (intro join_row_owner) auto
  moreover have "\<forall>m' \<in> set ms. ad_owner (join_row k st m) (se_id m') = None" using Cons.prems by (auto simp: image_iff)
  ultimately show ?case using Cons.IH [of "join_row k st m"] Cons.prems by simp
qed simp

text \<open>Sessions whose continuations form no cycle: \<open>rank\<close> falls along them.\<close>

definition forest :: "session list \<Rightarrow> (session \<Rightarrow> nat) \<Rightarrow> bool" where
  "forest ws rank \<longleftrightarrow> distinct (List.map se_id ws)
     \<and> (\<forall>e \<in> set ws. \<forall>p. parent_session ws e = Some p \<longrightarrow> rank p < rank e)"

lemma forest_id: "forest ws rank \<Longrightarrow> a \<in> set ws \<Longrightarrow> b \<in> set ws \<Longrightarrow> se_id a = se_id b \<Longrightarrow> a = b"
  by (auto simp: forest_def distinct_map inj_on_def)

lemma lineage_members:
  assumes "forest ws rank" and "e \<in> set ws"
  shows "\<exists>ms. lineage ws owner e = Some ms \<and> set ms \<subseteq> set ws \<and> distinct (List.map se_id ms)
     \<and> (\<forall>m \<in> set ms. owner (se_id m) = None \<and> rank m \<le> rank e) \<and> (owner (se_id e) = None \<longrightarrow> e \<in> set ms)"
  using assms(2)
proof (induction "rank e" arbitrary: e rule: less_induct)
  case less
  show ?case
  proof (cases "owner (se_id e) = None")
    case True
    show ?thesis
    proof (cases "parent_session ws e")
      case None
      then show ?thesis using True less.prems by (subst lineage.simps) simp
    next
      case (Some p)
      then have p: "p \<in> set ws" "rank p < rank e"
        using assms(1) less.prems parent_session_in [of ws e p] by (auto simp: forest_def)
      from less.hyps [OF p(2,1)] obtain ms where
        ms: "lineage ws owner p = Some ms" "set ms \<subseteq> set ws" "distinct (List.map se_id ms)"
          "\<forall>m \<in> set ms. owner (se_id m) = None \<and> rank m \<le> rank p" by blast
      have "m \<noteq> e" if "m \<in> set ms" for m using ms(4) p(2) that by auto
      then have "se_id e \<notin> se_id ` set ms" using forest_id [OF assms(1)] ms(2) less.prems by blast
      moreover have "\<forall>m \<in> set ms. owner (se_id m) = None \<and> rank m \<le> rank e" using ms(4) p(2) by auto
      moreover have "lineage ws owner e = Some (ms @ [e])" using True Some ms(1) by (subst lineage.simps) simp
      ultimately show ?thesis using True ms(2,3) less.prems by auto
    qed
  next
    case False
    then show ?thesis by (subst lineage.simps) simp
  qed
qed

lemma row_for_cases:
  assumes "owner_exact st" and "row_for ws uuid st e = (k, st1)"
  shows "(st1 = st \<and> k < length (ad_rows st))
     \<or> (k = length (ad_rows st) \<and> (\<exists>root. st1 = st\<lparr>ad_rows := ad_rows st @ [new_row (uuid k) root]\<rparr>))"
proof -
  have "k < length (ad_rows st)" if "ad_owner st i = Some k" for i k
    using assms(1) that by (simp add: owner_exact_def)
  then show ?thesis
    using assms(2) by (auto simp: row_for_def Let_def Option.bind_eq_Some_conv split: option.splits if_splits)
qed

lemma owner_exact_new:
  assumes "owner_exact st"
  shows "owner_exact (st\<lparr>ad_rows := ad_rows st @ [new_row d root]\<rparr>)"
proof -
  have "dr_sessions (new_row d root) = []" by (simp add: new_row_def)
  then show ?thesis using assms by (auto simp: owner_exact_def nth_append less_Suc_eq)
qed

lemma row_grown_trans: "row_grown a b \<Longrightarrow> row_grown b c \<Longrightarrow> row_grown a c"
  by (auto simp: row_grown_def)

lemma rows_kept_join:
  assumes "rows_kept uuid drafts st"
    and "(st1 = st \<and> k < length (ad_rows st))
     \<or> (k = length (ad_rows st) \<and> (\<exists>root. st1 = st\<lparr>ad_rows := ad_rows st @ [new_row (uuid k) root]\<rparr>))"
  shows "rows_kept uuid drafts ((foldl (join_row k) st1 ms)\<lparr>ad_changed :=
     (if k \<in> set (ad_changed st) then ad_changed st else ad_changed st @ [k])\<rparr>)"
proof -
  let ?rows = "ad_rows (foldl (join_row k) st1 ms)"
  have kept: "length drafts \<le> length (ad_rows st)" "distinct (ad_changed st)" "set (ad_changed st) \<subseteq> {..< length (ad_rows st)}"
    using assms(1) by (simp_all add: rows_kept_def)
  have len: "length ?rows = length (ad_rows st1)" "length (ad_rows st) \<le> length (ad_rows st1)" "k < length (ad_rows st1)"
    "k < length (ad_rows st) \<longrightarrow> length (ad_rows st1) = length (ad_rows st)"
    "\<not> k < length (ad_rows st) \<longrightarrow> k = length (ad_rows st) \<and> length (ad_rows st1) = Suc k"
    using assms(2) by (auto simp: joined_rows(1))
  have old: "ad_rows st1 ! j = ad_rows st ! j" if "j < length (ad_rows st)" for j
    using assms(2) that by (auto simp: nth_append)
  have grown: "row_grown (ad_rows st1 ! j) (?rows ! j)" for j by (rule joined_rows(4))
  have same: "?rows ! j = ad_rows st1 ! j" if "j \<noteq> k" for j using that by (rule joined_rows(3))
  have "row_grown (drafts ! j) (?rows ! j) \<and> (j \<noteq> k \<and> j \<notin> set (ad_changed st) \<longrightarrow> ?rows ! j = drafts ! j)" if "j < length drafts" for j
    using assms(1) that kept(1) old [of j] same [of j] row_grown_trans [OF _ grown [of j]] by (auto simp: rows_kept_def)
  moreover have "dr_id (?rows ! j) = uuid j \<and> (j = k \<or> j \<in> set (ad_changed st))" if "j < length ?rows" "length drafts \<le> j" for j
  proof -
    have "dr_id (?rows ! j) = dr_id (ad_rows st1 ! j)" using grown [of j] by (simp add: row_grown_def)
    moreover have "dr_id (ad_rows st1 ! j) = uuid j \<and> (j = k \<or> j \<in> set (ad_changed st))"
    proof (cases "j < length (ad_rows st)")
      case True
      then show ?thesis using assms(1) that old [OF True] by (simp add: rows_kept_def)
    next
      case False
      then have "j = k" using that len by auto
      then show ?thesis using assms(2) False by (auto simp: new_row_def)
    qed
    ultimately show ?thesis by simp
  qed
  moreover have "length drafts \<le> length ?rows" "set (ad_changed st) \<subseteq> {..< length ?rows}" "k < length ?rows"
    using kept len(1-3) by auto
  ultimately show ?thesis using kept(2) by (auto simp: rows_kept_def)
qed

lemma adopt_entry_ok:
  assumes "forest ws rank" and "e \<in> set ws" and "owner_exact st" and "rows_kept uuid drafts st"
  shows "\<exists>st'. adopt_entry ws uuid st e = Some st' \<and> owner_exact st' \<and> rows_kept uuid drafts st'
     \<and> ad_owner st' (se_id e) \<noteq> None \<and> (\<forall>i. ad_owner st i \<noteq> None \<longrightarrow> ad_owner st' i = ad_owner st i)"
proof (cases "ad_owner st (se_id e) = None")
  case True
  obtain k st1 where row: "row_for ws uuid st e = (k, st1)" by fastforce
  note cases = row_for_cases [OF assms(3) row]
  then have st1: "owner_exact st1" "k < length (ad_rows st1)" "ad_owner st1 = ad_owner st"
    using assms(3) owner_exact_new [OF assms(3)] by auto
  obtain ms where ms: "lineage ws (ad_owner st) e = Some ms" "distinct (List.map se_id ms)"
    "\<forall>m \<in> set ms. ad_owner st (se_id m) = None" "e \<in> set ms"
    using lineage_members [OF assms(1,2), of "ad_owner st"] True by auto
  let ?st2 = "foldl (join_row k) st1 ms"
  let ?st' = "?st2\<lparr>ad_changed := if k \<in> set (ad_changed st) then ad_changed st else ad_changed st @ [k]\<rparr>"
  have st': "adopt_entry ws uuid st e = Some ?st'"
    using True row ms(1) st1(3) by (simp add: adopt_entry_def)
  have "owner_exact ?st2" using joined_owner [OF st1(1,2) ms(2)] ms(3) st1(3) by simp
  then have exact: "owner_exact ?st'" by (simp add: owner_exact_def)
  have owner: "ad_owner ?st' = (\<lambda>i. if i \<in> se_id ` set ms then Some k else ad_owner st i)"
    using joined_rows(5) [of k st1 ms] unfolding st1(3) by simp
  have kept: "rows_kept uuid drafts ?st'" by (rule rows_kept_join [OF assms(4) cases])
  have "ad_owner ?st' i = ad_owner st i" if "ad_owner st i \<noteq> None" for i
    using ms(3) that unfolding owner by auto
  moreover have "ad_owner ?st' (se_id e) \<noteq> None" using ms(4) unfolding owner by simp
  ultimately show ?thesis using st' exact kept by blast
next
  case False
  then show ?thesis using assms(3,4) by (intro exI [of _ st]) (simp add: adopt_entry_def)
qed

lemma adopt_all_ok:
  assumes "forest ws rank" and "set es \<subseteq> set ws" and "owner_exact st" and "rows_kept uuid drafts st"
  shows "\<exists>st'. adopt_all ws uuid st es = Some st' \<and> owner_exact st' \<and> rows_kept uuid drafts st'
     \<and> (\<forall>e \<in> set es. ad_owner st' (se_id e) \<noteq> None) \<and> (\<forall>i. ad_owner st i \<noteq> None \<longrightarrow> ad_owner st' i = ad_owner st i)"
  using assms(2-4)
proof (induction es arbitrary: st)
  case (Cons e es)
  from adopt_entry_ok [OF assms(1) _ Cons.prems(2,3), of e] Cons.prems(1) obtain st1 where
    one: "adopt_entry ws uuid st e = Some st1" "owner_exact st1" "rows_kept uuid drafts st1" "ad_owner st1 (se_id e) \<noteq> None"
      "\<forall>i. ad_owner st i \<noteq> None \<longrightarrow> ad_owner st1 i = ad_owner st i" by auto
  from Cons.IH [OF _ one(2,3)] Cons.prems(1) obtain st2 where
    rest: "adopt_all ws uuid st1 es = Some st2" "owner_exact st2" "rows_kept uuid drafts st2"
      "\<forall>e \<in> set es. ad_owner st2 (se_id e) \<noteq> None" "\<forall>i. ad_owner st1 i \<noteq> None \<longrightarrow> ad_owner st2 i = ad_owner st1 i" by auto
  have "\<forall>i. ad_owner st i \<noteq> None \<longrightarrow> ad_owner st2 i = ad_owner st i" using one(5) rest(5) by metis
  moreover have "\<forall>e' \<in> set (e # es). ad_owner st2 (se_id e') \<noteq> None" using one(4) rest(4,5) by auto
  ultimately show ?case using one(1) rest(1-3) by simp
qed simp

text \<open>At the start each session is in at most one draft.\<close>

definition drafts_apart :: "draft_row list \<Rightarrow> bool" where
  "drafts_apart drafts \<longleftrightarrow> (\<forall>i. \<forall>j < length drafts. \<forall>k < length drafts.
     i \<in> set (dr_sessions (drafts ! j)) \<and> i \<in> set (dr_sessions (drafts ! k)) \<longrightarrow> j = k)"

lemma owners_exact:
  assumes "drafts_apart drafts"
  shows "owner_exact \<lparr>ad_rows = drafts, ad_owner = owners drafts, ad_changed = []\<rparr>"
proof -
  let ?ps = "rev (concat (List.map (\<lambda>k. List.map (\<lambda>i. (i, k)) (dr_sessions (drafts ! k))) [0..<length drafts]))"
  have mem: "(i, k) \<in> set ?ps \<longleftrightarrow> k < length drafts \<and> i \<in> set (dr_sessions (drafts ! k))" for i k by auto
  have "owners drafts i = Some k \<longleftrightarrow> (i, k) \<in> set ?ps" for i k
  proof
    show "(i, k) \<in> set ?ps" if "owners drafts i = Some k" using that unfolding owners_def by (rule map_of_SomeD)
  next
    assume k: "(i, k) \<in> set ?ps"
    then obtain j where j: "map_of ?ps i = Some j" by (metis weak_map_of_SomeI)
    then have "(i, j) \<in> set ?ps" by (rule map_of_SomeD)
    with k assms have "j = k" unfolding mem drafts_apart_def by blast
    with j show "owners drafts i = Some k" by (simp add: owners_def)
  qed
  then show ?thesis unfolding owner_exact_def mem by simp
qed

lemma rows_kept_start: "rows_kept uuid drafts \<lparr>ad_rows = drafts, ad_owner = owners drafts, ad_changed = []\<rparr>"
  by (simp add: rows_kept_def)

section \<open>The drafts after an adoption\<close>

definition drafts_ok :: "draft_store \<Rightarrow> bool" where
  "drafts_ok store \<longleftrightarrow> distinct (List.map fst store) \<and> (\<forall>p \<in> set store. dr_id (snd p) = fst p)"

lemma map_of_put: "map_of (drafts_put store rows) = foldl (\<lambda>m r. m(dr_id r \<mapsto> r)) (map_of store) rows"
  unfolding drafts_put_def by (induction rows arbitrary: store) (simp_all add: update_conv')

lemma put_lookup:
  "distinct (List.map dr_id rows) \<Longrightarrow> map_of (drafts_put store rows) d = Some r \<longleftrightarrow>
     (r \<in> set rows \<and> dr_id r = d) \<or> ((\<forall>r' \<in> set rows. dr_id r' \<noteq> d) \<and> map_of store d = Some r)"
  unfolding map_of_put
proof (induction rows rule: rev_induct)
  case (snoc x rows)
  then show ?case by (cases "dr_id x = d") (auto simp: image_iff)
qed simp

lemma drafts_list_lookup:
  assumes "drafts_ok store"
  shows "distinct (List.map dr_id (drafts_list store))"
    and "map_of store d = Some r \<longleftrightarrow> r \<in> set (drafts_list store) \<and> dr_id r = d"
proof -
  have "image_mset (dr_id \<circ> snd) (mset store) = image_mset fst (mset store)"
    using assms by (intro image_mset_cong) (simp add: drafts_ok_def)
  then have "mset (List.map dr_id (drafts_list store)) = mset (List.map fst store)"
    by (simp add: drafts_list_def multiset.map_comp)
  then show "distinct (List.map dr_id (drafts_list store))"
    using assms mset_eq_imp_distinct_iff unfolding drafts_ok_def by blast
  show "map_of store d = Some r \<longleftrightarrow> r \<in> set (drafts_list store) \<and> dr_id r = d"
    using assms by (force simp: drafts_ok_def drafts_list_def)
qed

lemma sorted_row_simps [simp]:
  "set (dr_sessions (sorted_row ws r)) = set (dr_sessions r)" "dr_id (sorted_row ws r) = dr_id r"
  by (simp_all add: sorted_row_def)

lemma sorted_row_grown: "row_grown r r' \<Longrightarrow> row_grown r (sorted_row ws r')"
  by (simp add: row_grown_def sorted_row_def)

definition uuids_fresh :: "(nat \<Rightarrow> jsstring) \<Rightarrow> draft_store \<Rightarrow> bool" where
  "uuids_fresh uuid store \<longleftrightarrow> inj uuid \<and> (\<forall>n. uuid n \<notin> fst ` set store)"

lemma final_ids:
  assumes "drafts_ok store" and "uuids_fresh uuid store" and "rows_kept uuid (drafts_list store) st"
    and "j < length (ad_rows st)" and "k < length (ad_rows st)" and "dr_id (ad_rows st ! j) = dr_id (ad_rows st ! k)"
  shows "j = k"
proof -
  let ?ds = "drafts_list store"
  have old: "dr_id (ad_rows st ! i) = dr_id (?ds ! i) \<and> dr_id (?ds ! i) \<in> fst ` set store" if "i < length ?ds" for i
  proof
    show "dr_id (ad_rows st ! i) = dr_id (?ds ! i)" using assms(3) that by (simp add: rows_kept_def row_grown_def)
    have "?ds ! i \<in> set ?ds" using that by simp
    then have "map_of store (dr_id (?ds ! i)) = Some (?ds ! i)" using drafts_list_lookup(2) [OF assms(1)] by blast
    then show "dr_id (?ds ! i) \<in> fst ` set store" by (metis domI dom_map_of_conv_image_fst)
  qed
  have new: "dr_id (ad_rows st ! i) = uuid i" if "i < length (ad_rows st)" "\<not> i < length ?ds" for i
    using assms(3) that by (simp add: rows_kept_def)
  have fresh: "uuid n \<noteq> d" if "d \<in> fst ` set store" for n d using assms(2) that by (auto simp: uuids_fresh_def)
  have inj: "uuid a = uuid b \<longleftrightarrow> a = b" for a b using assms(2) by (simp add: uuids_fresh_def inj_eq)
  show ?thesis
  proof (cases "j < length ?ds"; cases "k < length ?ds")
    assume "j < length ?ds" "k < length ?ds"
    then show ?thesis
      using assms(6) old nth_eq_iff_index_eq [OF drafts_list_lookup(1) [OF assms(1)], of j k] by simp
  qed (use assms(4-6) old new fresh inj in metis)+
qed

definition final_row :: "session list \<Rightarrow> adoption \<Rightarrow> nat \<Rightarrow> draft_row" where
  "final_row ws st k = (if k \<in> set (ad_changed st) then sorted_row ws (ad_rows st ! k) else ad_rows st ! k)"

lemma final_row_simps [simp]:
  "set (dr_sessions (final_row ws st k)) = set (dr_sessions (ad_rows st ! k))" "dr_id (final_row ws st k) = dr_id (ad_rows st ! k)"
  by (simp_all add: final_row_def)

lemma final_row_grown: "row_grown r (ad_rows st ! k) \<Longrightarrow> row_grown r (final_row ws st k)"
  by (simp add: final_row_def sorted_row_grown)

lemma adopted_lookup:
  assumes "drafts_ok store" and "uuids_fresh uuid store" and "rows_kept uuid (drafts_list store) st"
  shows "map_of (drafts_put store (List.map (\<lambda>k. sorted_row ws (ad_rows st ! k)) (ad_changed st))) d = Some r \<longleftrightarrow>
     (\<exists>k < length (ad_rows st). dr_id (ad_rows st ! k) = d \<and> r = final_row ws st k)"
proof -
  let ?ds = "drafts_list store" and ?rows = "ad_rows st"
  note ids = final_ids [OF assms]
  have changed: "set (ad_changed st) \<subseteq> {..< length ?rows}" "distinct (ad_changed st)" using assms(3) by (auto simp: rows_kept_def)
  have "inj_on (\<lambda>k. dr_id (?rows ! k)) (set (ad_changed st))"
    using changed(1) ids by (auto simp: inj_on_def subset_iff)
  then have dist: "distinct (List.map dr_id (List.map (\<lambda>k. sorted_row ws (?rows ! k)) (ad_changed st)))"
    using changed(2) by (simp add: distinct_map comp_def)
  have store: "map_of store d = Some r \<longleftrightarrow> (\<exists>k < length ?ds. ?ds ! k = r \<and> dr_id (?ds ! k) = d)" for r
    unfolding drafts_list_lookup(2) [OF assms(1)] in_set_conv_nth by auto
  have same: "k \<notin> set (ad_changed st) \<Longrightarrow> k < length ?ds \<Longrightarrow> ?rows ! k = ?ds ! k" 
    "k < length ?ds \<Longrightarrow> dr_id (?rows ! k) = dr_id (?ds ! k)" "k < length ?ds \<Longrightarrow> k < length ?rows"
    "k \<notin> set (ad_changed st) \<Longrightarrow> k < length ?rows \<Longrightarrow> k < length ?ds" for k
    using assms(3) by (auto simp: rows_kept_def row_grown_def not_le [symmetric])
  let ?final = "final_row ws st"
  show ?thesis unfolding put_lookup [OF dist] store
  proof (intro iffI; elim disjE conjE exE)
    assume "r \<in> set (List.map (\<lambda>k. sorted_row ws (?rows ! k)) (ad_changed st))" "dr_id r = d"
    then show "\<exists>k < length ?rows. dr_id (?rows ! k) = d \<and> r = ?final k"
      using changed(1) by (auto simp: final_row_def)
  next
    fix k assume "k < length ?ds" "?ds ! k = r" "dr_id (?ds ! k) = d"
      and "\<forall>r' \<in> set (List.map (\<lambda>k. sorted_row ws (?rows ! k)) (ad_changed st)). dr_id r' \<noteq> d"
    moreover from this have "k \<notin> set (ad_changed st)" using same(2) by force
    ultimately show "\<exists>k < length ?rows. dr_id (?rows ! k) = d \<and> r = ?final k"
      using same by (intro exI [of _ k]) (simp add: final_row_def)
  next
    fix k assume k: "k < length ?rows" "dr_id (?rows ! k) = d" "r = ?final k"
    show "(r \<in> set (List.map (\<lambda>k. sorted_row ws (?rows ! k)) (ad_changed st)) \<and> dr_id r = d)
      \<or> ((\<forall>r' \<in> set (List.map (\<lambda>k. sorted_row ws (?rows ! k)) (ad_changed st)). dr_id r' \<noteq> d)
        \<and> (\<exists>k < length ?ds. ?ds ! k = r \<and> dr_id (?ds ! k) = d))"
    proof (cases "k \<in> set (ad_changed st)")
      case True
      with k show ?thesis by (auto simp: final_row_def)
    next
      case False
      then have "dr_id (?rows ! j) \<noteq> d" if "j \<in> set (ad_changed st)" for j
        using ids [of j k] that k(1,2) changed(1) by auto
      then show ?thesis using False k same [of k] by (auto simp: final_row_def intro!: exI [of _ k])
    qed
  qed
qed

lemma adoptSessions_run:
  assumes "drafts_ok store" and "drafts_apart (drafts_list store)" and "forest (write_sessions sessions) rank"
  shows "\<exists>st. adopt_all (write_sessions sessions) uuid
        \<lparr>ad_rows = drafts_list store, ad_owner = owners (drafts_list store), ad_changed = []\<rparr>
        (sort_key (\<lambda>e. (se_base e, se_last_edit e)) (write_sessions sessions)) = Some st
     \<and> adoptSessions (drafts_list store) sessions uuid
         = Some (List.map (\<lambda>k. sorted_row (write_sessions sessions) (ad_rows st ! k)) (ad_changed st))
     \<and> owner_exact st \<and> rows_kept uuid (drafts_list store) st
     \<and> (\<forall>e \<in> set (write_sessions sessions). ad_owner st (se_id e) \<noteq> None)"
  using adopt_all_ok [OF assms(3) _ owners_exact [OF assms(2)] rows_kept_start,
      of "sort_key (\<lambda>e. (se_base e, se_last_edit e)) (write_sessions sessions)" uuid]
  by (auto simp: adoptSessions_def Let_def)

lemma adopted_owner:
  assumes "drafts_ok store" and "uuids_fresh uuid store" and "rows_kept uuid (drafts_list store) st" and "owner_exact st"
  shows "(\<exists>r. map_of (drafts_put store (List.map (\<lambda>k. sorted_row ws (ad_rows st ! k)) (ad_changed st))) d = Some r
        \<and> i \<in> set (dr_sessions r)) \<longleftrightarrow> (\<exists>k. ad_owner st i = Some k \<and> d = dr_id (ad_rows st ! k))"
  using assms(4) unfolding adopted_lookup [OF assms(1-3)] owner_exact_def by force

text \<open>C31: The adoption gives every recorded session to exactly one draft, when the continuations form no cycle, no
  two stored drafts share a session, and the identifiers drawn for new drafts are fresh. It then returns, and after its
  rows are stored each session of the web editor is in exactly one draft, while every draft that was there keeps its
  name, text and sessions. (With a cycle it may not return, \<open>cyclic_adoption_stuck\<close> below.)\<close>

theorem adoption_exact:
  assumes "drafts_ok store" and "drafts_apart (drafts_list store)" and "uuids_fresh uuid store"
    and "forest (write_sessions sessions) rank"
  shows "\<exists>changed. adoptSessions (drafts_list store) sessions uuid = Some changed
     \<and> (\<forall>e \<in> set (write_sessions sessions). \<exists>!d. \<exists>r. drafts_get (drafts_put store changed) d = Some r \<and> se_id e \<in> set (dr_sessions r))
     \<and> (\<forall>d r. drafts_get store d = Some r \<longrightarrow> (\<exists>r'. drafts_get (drafts_put store changed) d = Some r' \<and> row_grown r r'))"
proof -
  from adoptSessions_run [OF assms(1,2,4), of uuid] obtain st where
    run: "adoptSessions (drafts_list store) sessions uuid
         = Some (List.map (\<lambda>k. sorted_row (write_sessions sessions) (ad_rows st ! k)) (ad_changed st))" and
    ok: "owner_exact st" "rows_kept uuid (drafts_list store) st" and
    all: "\<forall>e \<in> set (write_sessions sessions). ad_owner st (se_id e) \<noteq> None" by blast
  note lookup = adopted_lookup [OF assms(1,3) ok(2), of "write_sessions sessions"]
    and owner = adopted_owner [OF assms(1,3) ok(2,1), of "write_sessions sessions"]
  let ?store' = "drafts_put store (List.map (\<lambda>k. sorted_row (write_sessions sessions) (ad_rows st ! k)) (ad_changed st))"
  have "\<exists>!d. \<exists>r. map_of ?store' d = Some r \<and> se_id e \<in> set (dr_sessions r)" if "e \<in> set (write_sessions sessions)" for e
    unfolding owner using all that by auto
  moreover have "\<exists>r'. map_of ?store' d = Some r' \<and> row_grown r r'" if "map_of store d = Some r" for d r
  proof -
    from that drafts_list_lookup(2) [OF assms(1)] obtain k where
      k: "k < length (drafts_list store)" "drafts_list store ! k = r" "dr_id r = d" by (auto simp: in_set_conv_nth)
    then have "row_grown r (ad_rows st ! k)" "k < length (ad_rows st)" using ok(2) by (auto simp: rows_kept_def)
    moreover from this have "dr_id (ad_rows st ! k) = d" using k(3) by (simp add: row_grown_def)
    ultimately show ?thesis
      unfolding lookup using final_row_grown [of r st k "write_sessions sessions"] by blast
  qed
  ultimately show ?thesis using run unfolding drafts_get_def by blast
qed

section \<open>Continuations\<close>

text \<open>While entries come after what they continue, each joins its draft.\<close>

definition together :: "session list \<Rightarrow> adoption \<Rightarrow> session \<Rightarrow> bool" where
  "together ws st e \<longleftrightarrow> (\<forall>p. parent_session ws e = Some p \<longrightarrow> ad_owner st (se_id p) = ad_owner st (se_id e))"

lemma lineage_single:
  assumes "owner (se_id e) = None" and "\<forall>p. parent_session ws e = Some p \<longrightarrow> owner (se_id p) \<noteq> None"
  shows "lineage ws owner e = Some [e]"
proof (cases "parent_session ws e")
  case (Some p)
  then have "lineage ws owner p = Some []" using assms(2) by (subst lineage.simps) simp
  then show ?thesis using assms(1) Some by (subst lineage.simps) simp
qed (use assms(1) in \<open>subst lineage.simps; simp\<close>)

lemma adopt_entry_joins:
  assumes "owner_exact st" and "ad_owner st (se_id e) = None"
    and "\<forall>p. parent_session ws e = Some p \<longrightarrow> ad_owner st (se_id p) \<noteq> None" and "adopt_entry ws uuid st e = Some st'"
  shows "\<exists>k. ad_owner st' = (ad_owner st)(se_id e \<mapsto> k) \<and> (\<forall>p. parent_session ws e = Some p \<longrightarrow> ad_owner st (se_id p) = Some k)"
proof -
  obtain k st1 where row: "row_for ws uuid st e = (k, st1)" by fastforce
  have st1: "ad_owner st1 = ad_owner st" using row_for_cases [OF assms(1) row] by auto
  have "\<forall>p. parent_session ws e = Some p \<longrightarrow> ad_owner st (se_id p) = Some k"
    using row assms(3) by (auto simp: row_for_def)
  moreover have "ad_owner st' = (ad_owner st)(se_id e \<mapsto> k)"
    using assms(2,4) row st1 lineage_single [OF assms(2,3)] by (auto simp: adopt_entry_def)
  ultimately show ?thesis by blast
qed

lemma adopt_all_joins:
  assumes "forest ws rank" and "set es \<subseteq> set ws" and "owner_exact st" and "rows_kept uuid drafts st"
    and "adopt_all ws uuid st es = Some st'"
    and "\<And>i e p. i < length es \<Longrightarrow> parent_session ws (es ! i) = Some p \<Longrightarrow> ad_owner st (se_id p) \<noteq> None \<or> (\<exists>j < i. es ! j = p)"
    and "e \<in> set es" and "ad_owner st (se_id e) = None"
  shows "together ws st' e"
  using assms(2-8)
proof (induction es arbitrary: st)
  case (Cons a es)
  from Cons.prems(4) obtain st1 where one: "adopt_entry ws uuid st a = Some st1" "adopt_all ws uuid st1 es = Some st'"
    by (auto simp: Option.bind_eq_Some_conv)
  from adopt_entry_ok [OF assms(1) _ Cons.prems(2,3), of a] Cons.prems(1) one(1) have
    st1: "owner_exact st1" "rows_kept uuid drafts st1" "ad_owner st1 (se_id a) \<noteq> None"
      "\<forall>i. ad_owner st i \<noteq> None \<longrightarrow> ad_owner st1 i = ad_owner st i" by auto
  from adopt_all_ok [OF assms(1) _ st1(1,2), of es] Cons.prems(1) one(2) have
    later: "\<forall>i. ad_owner st1 i \<noteq> None \<longrightarrow> ad_owner st' i = ad_owner st1 i" by auto
  have order: "ad_owner st1 (se_id p) \<noteq> None \<or> (\<exists>j < i. es ! j = p)"
    if "i < length es" "parent_session ws (es ! i) = Some p" for i p
  proof -
    have "ad_owner st (se_id p) \<noteq> None \<or> (\<exists>j < Suc i. (a # es) ! j = p)"
      using Cons.prems(5) [of "Suc i" p] that by auto
    then show ?thesis using st1(3,4) by (auto simp: less_Suc_eq_0_disj)
  qed
  show ?case
  proof (cases "ad_owner st1 (se_id e) = None")
    case True
    then have "e \<in> set es" using Cons.prems(6) st1(3) by auto
    from Cons.IH [OF _ st1(1,2) one(2) order this True] Cons.prems(1) show ?thesis by simp
  next
    case False
    have "ad_owner st (se_id a) = None" using False Cons.prems(7) one(1) by (cases "ad_owner st (se_id a)") (auto simp: adopt_entry_def)
    from adopt_entry_joins [OF Cons.prems(2) this _ one(1)] Cons.prems(5) [of 0] obtain k where
      k: "ad_owner st1 = (ad_owner st)(se_id a \<mapsto> k)" "\<forall>p. parent_session ws a = Some p \<longrightarrow> ad_owner st (se_id p) = Some k" by auto
    then have "se_id e = se_id a" using False Cons.prems(7) by (auto split: if_splits)
    then have "e = a" using forest_id [OF assms(1), of e a] Cons.prems(1,6) by auto
    then have "ad_owner st1 (se_id p) = Some k \<and> ad_owner st1 (se_id e) = Some k" if "parent_session ws e = Some p" for p
      using k that by simp
    then show ?thesis using later by (fastforce simp: together_def)
  qed
qed simp

definition began_after :: "session list \<Rightarrow> bool" where
  "began_after ws \<longleftrightarrow> distinct (List.map se_id ws) \<and> (\<forall>e \<in> set ws. \<forall>p \<in> set_option (parent_session ws e).
     (se_base p, se_last_edit p) < (se_base e, se_last_edit e))"

lemma began_after_forest:
  assumes "began_after ws"
  shows "forest ws (\<lambda>e. card {x \<in> set ws. (se_base x, se_last_edit x) < (se_base e, se_last_edit e)})"
proof -
  have "card {x \<in> set ws. (se_base x, se_last_edit x) < (se_base p, se_last_edit p)}
      < card {x \<in> set ws. (se_base x, se_last_edit x) < (se_base e, se_last_edit e)}"
    if "e \<in> set ws" "parent_session ws e = Some p" for e p
  proof (rule psubset_card_mono)
    have "(se_base p, se_last_edit p) < (se_base e, se_last_edit e)" using assms that unfolding began_after_def by force
    moreover have "p \<in> set ws" using parent_session_in [OF that(2)] .
    ultimately show "{x \<in> set ws. (se_base x, se_last_edit x) < (se_base p, se_last_edit p)}
        \<subset> {x \<in> set ws. (se_base x, se_last_edit x) < (se_base e, se_last_edit e)}"
      by (auto intro: less_trans simp del: less_prod_simp)
  qed simp
  then show ?thesis using assms by (simp add: forest_def began_after_def)
qed

lemma began_after_order:
  assumes "began_after ws" and "es = sort_key (\<lambda>e. (se_base e, se_last_edit e)) ws"
    and "i < length es" and "parent_session ws (es ! i) = Some p"
  shows "\<exists>j < i. es ! j = p"
proof -
  let ?key = "\<lambda>e. (se_base e, se_last_edit e)"
  have sets: "set es = set ws" using assms(2) by simp
  have "es ! i \<in> set ws" using assms(3) sets nth_mem by blast
  then have less: "?key p < ?key (es ! i)" using assms(1,4) unfolding began_after_def by force
  obtain j where j: "j < length es" "es ! j = p"
    using parent_session_in [OF assms(4)] sets by (metis in_set_conv_nth)
  have "sorted (List.map ?key es)" using assms(2) by simp
  then have "?key (es ! i) \<le> ?key (es ! j)" if "i \<le> j"
    using sorted_nth_mono [of "List.map ?key es" i j] that j(1) assms(3) by simp
  then have "j < i" using less j(2) by (meson leD not_less)
  with j(2) show ?thesis by blast
qed

text \<open>C32: A session that continues another one joins its draft, when every continuation of the web editor began
  after the session it continues (and the stored drafts share no session and the identifiers drawn are fresh): after the
  adoption each session that no draft had and the session it continues are in the same draft. One continuation in the list
  that began before its parent is enough to spoil it for later ones (\<open>late_parent_leaves_draft\<close> below).\<close>

theorem continuation_joins_draft:
  assumes "drafts_ok store" and "drafts_apart (drafts_list store)" and "uuids_fresh uuid store"
    and "began_after (write_sessions sessions)" and "e \<in> set (write_sessions sessions)"
    and "parent_session (write_sessions sessions) e = Some p" and "\<forall>r \<in> set (drafts_list store). se_id e \<notin> set (dr_sessions r)"
  shows "\<exists>changed d r. adoptSessions (drafts_list store) sessions uuid = Some changed
     \<and> drafts_get (drafts_put store changed) d = Some r \<and> {se_id p, se_id e} \<subseteq> set (dr_sessions r)"
proof -
  let ?ws = "write_sessions sessions"
  let ?es = "sort_key (\<lambda>e. (se_base e, se_last_edit e)) ?ws"
  let ?st = "\<lparr>ad_rows = drafts_list store, ad_owner = owners (drafts_list store), ad_changed = []\<rparr>"
  note forest = began_after_forest [OF assms(4)] and exact = owners_exact [OF assms(2)]
  from adoptSessions_run [OF assms(1,2) forest, of uuid] obtain st where
    all: "adopt_all ?ws uuid ?st ?es = Some st" and
    run: "adoptSessions (drafts_list store) sessions uuid = Some (List.map (\<lambda>k. sorted_row ?ws (ad_rows st ! k)) (ad_changed st))" and
    ok: "owner_exact st" "rows_kept uuid (drafts_list store) st" and
    owned: "\<forall>e \<in> set ?ws. ad_owner st (se_id e) \<noteq> None" by blast
  have "ad_owner ?st (se_id e) = None"
  proof (cases "ad_owner ?st (se_id e)")
    case (Some k)
    then have "k < length (drafts_list store) \<and> se_id e \<in> set (dr_sessions (drafts_list store ! k))"
      using exact by (simp add: owner_exact_def)
    with assms(7) show ?thesis by (meson nth_mem)
  qed
  then have "together ?ws st e"
    using adopt_all_joins [OF forest _ exact rows_kept_start all] began_after_order [OF assms(4) refl] assms(5) by force
  then have same: "ad_owner st (se_id p) = ad_owner st (se_id e)" using assms(6) by (simp add: together_def)
  obtain k where k: "ad_owner st (se_id e) = Some k" using owned assms(5) by blast
  then have "k < length (ad_rows st)" "se_id e \<in> set (dr_sessions (ad_rows st ! k))" "se_id p \<in> set (dr_sessions (ad_rows st ! k))"
    using ok(1) same by (auto simp: owner_exact_def)
  moreover have "map_of (drafts_put store (List.map (\<lambda>k. sorted_row ?ws (ad_rows st ! k)) (ad_changed st))) (dr_id (ad_rows st ! k))
      = Some (final_row ?ws st k)" unfolding adopted_lookup [OF assms(1,3) ok(2)] using calculation(1) by blast
  moreover from calculation(2,3) have "{se_id p, se_id e} \<subseteq> set (dr_sessions (final_row ?ws st k))" by simp
  ultimately show ?thesis using run unfolding drafts_get_def by blast
qed

section \<open>Samples\<close>

definition writing_session :: "nat \<Rightarrow> int \<Rightarrow> nat option \<Rightarrow> session" where
  "writing_session n t parent = sample_draft\<lparr>se_id := [n], se_base := t, se_last_edit := t, se_surface := js ''web-draft'',
     se_parent := map_option (\<lambda>h. [h]) parent,
     se_response := Some \<lparr>ur_record_hash = [n], ur_short_signature = [n], ur_url = [n], ur_created = True\<rparr>\<rparr>"

text \<open>Session 2 continues 1, which a draft has, and 3 continues 2.\<close>

definition stored_draft :: draft_row where
  "stored_draft = (new_row (js ''d'') (writing_session 1 10 None))\<lparr>dr_text := js ''text'', dr_sessions := [[1]]\<rparr>"

definition stored_drafts :: draft_store where
  "stored_drafts = [(js ''d'', stored_draft)]"

definition fresh_id :: "nat \<Rightarrow> jsstring" where
  "fresh_id n = js ''u'' @ [n]"

lemma stored_drafts_ok:
  "drafts_ok stored_drafts" "drafts_apart (drafts_list stored_drafts)" "uuids_fresh fresh_id stored_drafts"
  by (simp_all add: drafts_ok_def stored_drafts_def drafts_list_def drafts_apart_def uuids_fresh_def fresh_id_def inj_def
      stored_draft_def new_row_def)

definition in_order :: "session list" where
  "in_order = [writing_session 3 30 (Some 2), writing_session 1 10 None, writing_session 2 20 (Some 1)]"

lemma in_order_began:
  "write_sessions in_order = in_order" "began_after in_order"
  "parent_session in_order (writing_session 3 30 (Some 2)) = Some (writing_session 2 20 (Some 1))"
  by code_simp+

lemma adoption_exact_witness:
  "\<exists>changed. adoptSessions (drafts_list stored_drafts) in_order fresh_id = Some changed
     \<and> (\<exists>!d. \<exists>r. drafts_get (drafts_put stored_drafts changed) d = Some r \<and> [3] \<in> set (dr_sessions r))"
proof -
  have "forest (write_sessions in_order) (\<lambda>e. card {x \<in> set in_order. (se_base x, se_last_edit x) < (se_base e, se_last_edit e)})"
    using began_after_forest [OF in_order_began(2)] by (simp add: in_order_began(1))
  from adoption_exact [OF stored_drafts_ok this] have "\<exists>changed. adoptSessions (drafts_list stored_drafts) in_order fresh_id = Some changed
     \<and> (\<forall>e \<in> set in_order. \<exists>!d. \<exists>r. drafts_get (drafts_put stored_drafts changed) d = Some r \<and> se_id e \<in> set (dr_sessions r))"
    unfolding in_order_began(1) by blast
  moreover have "writing_session 3 30 (Some 2) \<in> set in_order" "se_id (writing_session 3 30 (Some 2)) = [3]"
    by (simp_all add: in_order_def writing_session_def)
  ultimately show ?thesis by metis
qed

lemma continuation_joins_draft_witness:
  "\<exists>changed d r. adoptSessions (drafts_list stored_drafts) in_order fresh_id = Some changed
     \<and> drafts_get (drafts_put stored_drafts changed) d = Some r \<and> {[2], [3]} \<subseteq> set (dr_sessions r)"
proof -
  have "began_after (write_sessions in_order)" unfolding in_order_began(1) by (rule in_order_began(2))
  moreover have "writing_session 3 30 (Some 2) \<in> set (write_sessions in_order)"
    unfolding in_order_began(1) by (simp add: in_order_def)
  moreover have "parent_session (write_sessions in_order) (writing_session 3 30 (Some 2)) = Some (writing_session 2 20 (Some 1))"
    unfolding in_order_began(1) by (rule in_order_began(3))
  moreover have "\<forall>r \<in> set (drafts_list stored_drafts). se_id (writing_session 3 30 (Some 2)) \<notin> set (dr_sessions r)"
    by (simp add: drafts_list_def stored_drafts_def stored_draft_def writing_session_def)
  ultimately have "\<exists>changed d r. adoptSessions (drafts_list stored_drafts) in_order fresh_id = Some changed
     \<and> drafts_get (drafts_put stored_drafts changed) d = Some r
     \<and> {se_id (writing_session 2 20 (Some 1)), se_id (writing_session 3 30 (Some 2))} \<subseteq> set (dr_sessions r)"
    by (rule continuation_joins_draft [OF stored_drafts_ok])
  then show ?thesis by (simp add: writing_session_def)
qed

section \<open>Where continuations are not kept together\<close>

text \<open>
  With a clock that was set back, session 3 may begin before the session 2 it continues. Then both go to a new draft,
  although session 2 continues a record of the stored draft.
\<close>

lemma late_parent_leaves_draft:
  "map_option (List.map (\<lambda>r. (dr_id r, dr_text r, dr_sessions r)))
     (adoptSessions [stored_draft] [writing_session 1 10 None, writing_session 2 30 (Some 1), writing_session 3 20 (Some 2)] fresh_id)
   = Some [(fresh_id 1, [], [[3], [2]])]"
  by code_simp

text \<open>Two sessions that name each other as the record they continue keep the loop of \<open>lineage\<close> from ending.\<close>

definition cyclic_sessions :: "session list" where
  "cyclic_sessions = [writing_session 1 10 (Some 2), writing_session 2 20 (Some 1)]"

lemma cyclic_parents:
  "e \<in> set cyclic_sessions \<Longrightarrow> \<exists>p. parent_session cyclic_sessions e = Some p \<and> p \<in> set cyclic_sessions"
proof -
  have "parent_session cyclic_sessions (writing_session 1 10 (Some 2)) = Some (writing_session 2 20 (Some 1))"
    "parent_session cyclic_sessions (writing_session 2 20 (Some 1)) = Some (writing_session 1 10 (Some 2))" by code_simp+
  then show "\<exists>p. parent_session cyclic_sessions e = Some p \<and> p \<in> set cyclic_sessions" if "e \<in> set cyclic_sessions"
    using that by (auto simp: cyclic_sessions_def)
qed

lemma cyclic_lineage:
  assumes "lineage ws owner e = Some ms"
  shows "ws = cyclic_sessions \<longrightarrow> (\<forall>i. owner i = None) \<longrightarrow> e \<notin> set ws"
  using assms
proof (induction ws owner e ms rule: lineage.raw_induct [rotated, consumes 1])
  case (1 lin ws owner e ms)
  show ?case
  proof (intro impI notI)
    assume ws: "ws = cyclic_sessions" "\<forall>i. owner i = None" "e \<in> set ws"
    then obtain p where p: "parent_session ws e = Some p" "p \<in> set ws" using cyclic_parents by blast
    with 1(2) ws(2) obtain ns where "lin ws owner p = Some ns" by (auto simp: Option.bind_eq_Some_conv)
    from 1(1) [OF this] ws(1,2) p(2) show False by blast
  qed
qed

text \<open>The adoption does not return, although the search for the root of the same sessions does.\<close>

lemma cyclic_adoption_stuck: "adoptSessions [] cyclic_sessions uuid = None"
proof -
  let ?e = "writing_session 1 10 (Some 2)" and ?st = "\<lparr>ad_rows = [], ad_owner = owners [], ad_changed = []\<rparr>"
  have ws: "write_sessions cyclic_sessions = cyclic_sessions"
    "sort_key (\<lambda>e. (se_base e, se_last_edit e)) cyclic_sessions = cyclic_sessions" by code_simp+
  have none: "\<forall>i. owners [] i = None" by (simp add: owners_def)
  have "ad_owner (snd (row_for cyclic_sessions uuid ?st ?e)) = owners []"
    using row_for_cases [of ?st cyclic_sessions uuid ?e] none
    by (cases "row_for cyclic_sessions uuid ?st ?e") (auto simp: owner_exact_def)
  moreover have "lineage cyclic_sessions (owners []) ?e = None"
    using cyclic_lineage [of cyclic_sessions "owners []" ?e] none
    by (cases "lineage cyclic_sessions (owners []) ?e") (auto simp: cyclic_sessions_def)
  ultimately have "adopt_entry cyclic_sessions uuid ?st ?e = None"
    using none by (simp add: adopt_entry_def split_beta)
  then have "adopt_all cyclic_sessions uuid ?st cyclic_sessions = None" by (subst (2) cyclic_sessions_def) simp
  then show ?thesis by (simp add: adoptSessions_def Let_def ws)
qed

section \<open>The store\<close>

text \<open>A draft deleted meanwhile stays deleted, and a change keeps the row under its identifier.\<close>

lemma update_after_delete:
  "drafts_update (drafts_delete store d) d f = (drafts_delete store d, False)"
  by (simp add: drafts_update_def drafts_delete_def delete_conv)

lemma update_rows: "set (AList.update k v al) \<subseteq> insert (k, v) (set al)"
  by (induction al) auto

lemma drafts_ok_kept:
  assumes "drafts_ok store"
  shows "drafts_ok (fst (drafts_update store d f))" and "drafts_ok (drafts_put store rows)" and "drafts_ok (drafts_delete store d)"
proof -
  have put: "drafts_ok (AList.update (dr_id r) r st)" if "drafts_ok st" for r st
    using that update_rows [of "dr_id r" r st] unfolding drafts_ok_def by (auto simp: distinct_update)
  show "drafts_ok (fst (drafts_update store d f))"
    using put [OF assms, of "(f (the (map_of store d)))\<lparr>dr_id := d\<rparr>"] assms by (auto simp: drafts_update_def split: option.split)
  show "drafts_ok (drafts_put store rows)"
    using assms unfolding drafts_put_def by (induction rows arbitrary: store) (simp_all add: put)
  show "drafts_ok (drafts_delete store d)"
    unfolding drafts_ok_def drafts_delete_def
  proof
    show "distinct (List.map fst (AList.delete d store))" using assms by (intro distinct_delete) (simp add: drafts_ok_def)
    show "\<forall>p \<in> set (AList.delete d store). dr_id (snd p) = fst p" using assms by (simp add: AList.delete_eq drafts_ok_def)
  qed
qed

end
