(* ===== verification/Dispatcher.thy ===== *)
theory Dispatcher
  imports Signed_Records
begin

text \<open>
  The background of the browser extension (\<open>apps/browser-extension/src/lib/dispatcher.ts\<close>, \<open>policy.ts\<close>): which session
  a field is registered to, where an edit is recorded, and the request that signs a session and publishes it. That
  request awaits saves, the checkpoint flush and the upload; between them other calls and saves of the same process
  happen, sweeps and discards included. Shown: whatever they are, a request leaves its session published, retryable or
  gone, and what it sends is the signed manifest of events that are all saved; an acknowledged edit is in the log of the
  session named. The handlers of registrations and edits are modelled up to the save they await before they
  answer; the sweep before a registration is a call of the process (\<open>CallSweep\<close>).
\<close>

section \<open>Which session a field is registered to\<close>

definition resumable_candidate :: "field_origin \<Rightarrow> field_descriptor \<Rightarrow> session \<Rightarrow> bool" where
  "resumable_candidate og de s \<longleftrightarrow> fo_origin (se_origin s) = fo_origin og \<and> fo_path (se_origin s) = fo_path og
     \<and> de_field_kind (se_descriptor s) = de_field_kind de
     \<and> (isExactDescriptorMatch (se_descriptor s) de \<or> isPartialDescriptorMatch (se_descriptor s) de)"

definition findResumableSession :: "field_origin \<Rightarrow> field_descriptor \<Rightarrow> session list \<Rightarrow> session option" where
  "findResumableSession og de existing =
     (let candidates = filter (resumable_candidate og de) existing in
      case List.find (\<lambda>s. se_state s = Active) candidates of
        Some s \<Rightarrow> Some s
      | None \<Rightarrow> (case List.find (\<lambda>s. isExactDescriptorMatch (se_descriptor s) de) candidates of
          Some s \<Rightarrow> Some s
        | None \<Rightarrow> (case candidates of [] \<Rightarrow> None | s # _ \<Rightarrow> Some s)))"

definition isFieldEligible :: "field_origin \<Rightarrow> field_descriptor \<Rightarrow> bool \<Rightarrow> session list \<Rightarrow> bool" where
  "isFieldEligible og de field_is_empty existing \<longleftrightarrow> field_is_empty \<or> findResumableSession og de existing \<noteq> None"

text \<open>The parts of a message \<open>register_field\<close>; the origin holds its address, path, tab and frame.\<close>

record register_message =
  rm_origin :: field_origin
  rm_descriptor :: field_descriptor
  rm_field_is_empty :: bool
  rm_started_at :: "int option"
  rm_activation :: "jsstring option"
  rm_share :: "jsstring option"
  rm_resume :: "jsstring option"
  rm_continue :: "jsstring option"

datatype register_reply =
    Registered jsstring identity_certainty
  | NotEligible
  | CannotContinue
  | AlreadyContinued
  | CannotResume
  | SharedUnavailable
  | RegisterThrew producer_error

text \<open>What the clock and the generator of identifiers give to one call.\<close>

record call_tick =
  tk_now :: int
  tk_trigger :: int
  tk_fresh :: jsstring

definition same_site :: "field_origin \<Rightarrow> session \<Rightarrow> bool" where
  "same_site og s \<longleftrightarrow> fo_origin (se_origin s) = fo_origin og"

definition register_continue :: "registry_options \<Rightarrow> registry \<Rightarrow> register_message \<Rightarrow> jsstring \<Rightarrow> call_tick \<Rightarrow> registry \<times> register_reply" where
  "register_continue opts rg m sid tick = (case find_session rg sid of
      None \<Rightarrow> (rg, CannotContinue)
    | Some p \<Rightarrow>
       if se_state p \<noteq> Uploaded \<or> \<not> same_site (rm_origin m) p then (rg, CannotContinue)
       else if \<exists>s \<in> set (List.map snd (rg_sessions rg)). se_state s \<noteq> Uploaded \<and> se_parent s = map_option ur_record_hash (se_response p)
       then (rg, AlreadyContinued)
       else (case continueFrom opts rg (se_id p) (Some (rm_origin m)) (Some (rm_descriptor m)) (tk_fresh tick) (tk_now tick) of
           (rg', Inl e) \<Rightarrow> (rg', RegisterThrew e)
         | (rg', Inr s) \<Rightarrow> (rg', Registered (se_id s) Fresh)))"

definition register_resume :: "registry \<Rightarrow> register_message \<Rightarrow> jsstring \<Rightarrow> registry \<times> register_reply" where
  "register_resume rg m sid = (case find_session rg sid of
      None \<Rightarrow> (rg, CannotResume)
    | Some p \<Rightarrow>
       if se_state p \<noteq> Active \<or> \<not> same_site (rm_origin m) p then (rg, CannotResume)
       else (case resume_session rg (se_id p) (rm_origin m) (rm_descriptor m) (rm_field_is_empty m) None of
           (rg', Inl e) \<Rightarrow> (rg', RegisterThrew e)
         | (rg', Inr s) \<Rightarrow> (rg', Registered (se_id s) Resumed)))"

definition register_share :: "registry \<Rightarrow> register_message \<Rightarrow> jsstring \<Rightarrow> registry \<times> register_reply" where
  "register_share rg m sid = (case find_session rg sid of
      None \<Rightarrow> (rg, SharedUnavailable)
    | Some p \<Rightarrow>
       if se_state p \<noteq> Active \<or> \<not> same_site (rm_origin m) p then (rg, SharedUnavailable)
       else (rg, Registered (se_id p) Resumed))"

definition register_fresh :: "registry_options \<Rightarrow> registry \<Rightarrow> register_message \<Rightarrow> call_tick \<Rightarrow> registry \<times> register_reply" where
  "register_fresh opts rg m tick =
     (let sessions = List.map snd (rg_sessions rg); activated = truthy (rm_activation m) in
      if \<not> activated \<and> \<not> isFieldEligible (rm_origin m) (rm_descriptor m) (rm_field_is_empty m) (if activated then [] else sessions)
      then (rg, NotEligible)
      else
       (let resumable = (if activated \<or> rm_field_is_empty m then None
            else findResumableSession (rm_origin m) (rm_descriptor m) sessions);
            result = (case resumable of
                Some s \<Rightarrow> if se_state s = Uploaded
                  then continueFrom opts rg (se_id s) (Some (rm_origin m)) (Some (rm_descriptor m)) (tk_fresh tick) (tk_now tick)
                  else findOrCreate opts rg (rm_origin m) (rm_descriptor m) (js ''browser'') activated
                    (activated \<and> \<not> rm_field_is_empty m) (rm_started_at m) (tk_fresh tick) (tk_now tick)
              | None \<Rightarrow> findOrCreate opts rg (rm_origin m) (rm_descriptor m) (js ''browser'') activated
                    (activated \<and> \<not> rm_field_is_empty m) (rm_started_at m) (tk_fresh tick) (tk_now tick))
        in case result of
            (rg', Inl e) \<Rightarrow> (rg', RegisterThrew e)
          | (rg', Inr s) \<Rightarrow> (rg', Registered (se_id s) (se_certainty s))))"

definition handleRegister :: "registry_options \<Rightarrow> registry \<Rightarrow> register_message \<Rightarrow> call_tick \<Rightarrow> registry \<times> register_reply" where
  "handleRegister opts rg m tick =
     (if truthy (rm_continue m) then register_continue opts rg m (the (rm_continue m)) tick
      else if truthy (rm_resume m) then register_resume rg m (the (rm_resume m))
      else if truthy (rm_share m) then register_share rg m (the (rm_share m))
      else register_fresh opts rg m tick)"

subsection \<open>No field takes over a draft of another site\<close>

text \<open>A session of \<open>og\<close>'s site, or one that continues a record published from it.\<close>

definition of_site :: "registry \<Rightarrow> field_origin \<Rightarrow> session \<Rightarrow> bool" where
  "of_site rg og s \<longleftrightarrow> same_site og s \<or> (\<exists>p r. find_session rg (se_id p) = Some p \<and> same_site og p \<and> se_state p = Uploaded
     \<and> se_response p = Some r \<and> se_parent s = Some (ur_record_hash r))"

definition registered_at :: "registry \<Rightarrow> registry \<Rightarrow> field_origin \<Rightarrow> jsstring \<Rightarrow> bool" where
  "registered_at rg rg' og k \<longleftrightarrow> (\<forall>s0. find_session rg k = Some s0 \<longrightarrow> of_site rg og s0)
     \<and> (\<exists>s. find_session rg' k = Some s \<and> same_site og s)"

lemma continue_registers:
  assumes "registry_ok nb base pre gone cleared rg" and "find_session rg fresh = None"
    and "find_session rg sid = Some p" and "same_site og p"
    and "continueFrom opts rg sid (Some og) de fresh now = (rg', Inr s)"
  shows "registered_at rg rg' og (se_id s)"
proof (cases rule: require_cases [of rg sid "[Uploaded]"])
  case (found previous)
  with assms(3) have p: "previous = p" "se_state p = Uploaded" by auto
  from found assms(5) obtain r where r: "se_response p = Some r"
    by (auto simp: p continueFrom_def and_with_def split: option.splits)
  have key: "se_id p = sid" using assms(1,3) by (auto simp: registry_ok_def session_fits_def)
  show ?thesis
  proof (cases "List.find (continues (ur_record_hash r)) (List.map snd (rg_sessions rg))")
    case None
    with assms found p r show ?thesis
      by (auto simp: continueFrom_def and_with_def Let_def registered_at_def same_site_def blank_session_def)
  next
    case (Some t)
    from find_Some_set [OF Some] have t: "find_session rg (se_id t) = Some t" "se_parent t = Some (ur_record_hash r)"
      using held_session_found [OF assms(1)] by (auto simp: continues_def)
    from assms(3) key p r t(2) assms(4) have "of_site rg og t" by (auto simp: of_site_def intro!: exI [of _ p])
    with assms found p r Some t show ?thesis
      by (auto simp: continueFrom_def and_with_def Let_def registered_at_def same_site_def)
  qed
qed (use assms in \<open>auto simp: continueFrom_def and_with_def\<close>)

lemma resolve_location:
  assumes "ir_certainty (resolveSession og de existing fresh) \<in> {Resumed, Collision}"
  obtains s where "s \<in> set existing" and "same_location og de s" and "ir_session_id (resolveSession og de existing fresh) = se_id s"
proof (cases "List.find (\<lambda>s. isExactDescriptorMatch (se_descriptor s) de) (filter (same_location og de) existing)")
  case None
  with assms show ?thesis by (simp add: resolveSession_def Let_def split: if_splits)
next
  case (Some s)
  with find_Some_set [OF Some] that [of s] show ?thesis by (simp add: resolveSession_def Let_def split: if_splits)
qed

lemma create_registers:
  assumes "registry_ok nb base pre gone cleared rg" and "find_session rg fresh = None"
    and "findOrCreate opts rg og de surface start_fresh unknown started fresh now = (rg', Inr s)"
  shows "registered_at rg rg' og (se_id s)"
proof -
  define existing where "existing = (if start_fresh then [] else List.map snd (rg_sessions rg))"
  have valid: "validateCaptureWallTime started" using assms(3) by (simp add: findOrCreate_def split: if_splits)
  show ?thesis
  proof (cases "ir_certainty (resolveSession og de existing fresh) \<in> {Resumed, Collision}")
    case True
    then obtain t where t: "t \<in> set existing" "same_location og de t" "ir_session_id (resolveSession og de existing fresh) = se_id t"
      by (rule resolve_location)
    then have f: "find_session rg (se_id t) = Some t"
      using held_session_found [OF assms(1)] by (simp add: existing_def split: if_splits)
    with assms(3) valid True t have "rg' = mark_dirty (se_id t) (put_session (se_id t) s rg)" "se_id s = se_id t" "se_origin s = og"
      by (auto simp: findOrCreate_def Let_def existing_def [symmetric])
    with f t(2) show ?thesis by (auto simp: registered_at_def of_site_def same_site_def same_location_def)
  next
    case False
    have id: "ir_session_id (resolveSession og de existing fresh) = fresh"
      by (cases rule: resolve_cases [of existing og de fresh]) (use False in auto)
    with assms(3) valid False have "rg' = mark_dirty fresh (put_session fresh s rg)" "se_id s = fresh" "se_origin s = og"
      by (auto simp: findOrCreate_def Let_def existing_def [symmetric] blank_session_def)
    with assms(2) show ?thesis by (auto simp: registered_at_def same_site_def)
  qed
qed

lemma resumable_found:
  assumes "findResumableSession og de existing = Some s"
  shows "s \<in> set existing \<and> same_site og s"
proof -
  have "s \<in> set (filter (resumable_candidate og de) existing)"
  proof (cases "filter (resumable_candidate og de) existing")
    case (Cons t ts)
    with assms show ?thesis
      by (auto simp: findResumableSession_def Let_def dest: find_Some_set split: option.splits if_splits)
  qed (use assms in \<open>simp add: findResumableSession_def\<close>)
  then show ?thesis by (simp add: resumable_candidate_def same_site_def)
qed

text \<open>C29: No field is given a draft of another site. Whatever message asks to register a field, the session that the
  answer names is afterwards registered at the site of the field; and if the process held it already, it was
  a session of that site, or one that continues a record published from that site.\<close>

theorem registration_keeps_site:
  assumes "noble_ok (de_noble env)" and "op_journal (de_options env)" and "reachable_device env dv"
    and "never_used dv (tk_fresh tick)"
    and "handleRegister (de_options env) (dv_registry dv) m tick = (rg', Registered k c)"
  shows "registered_at (dv_registry dv) rg' (rm_origin m) k"
proof -
  let ?rg = "dv_registry dv" and ?og = "rm_origin m"
  obtain base pre gone cleared where ok: "registry_ok (de_noble env) base pre gone cleared ?rg"
    using device_registry_ok [OF reachable_device_ok [OF assms(1-3)]] by blast
  have fresh: "find_session ?rg (tk_fresh tick) = None" using assms(4) by (simp add: never_used_def)
  have key: "find_session ?rg j = Some s \<Longrightarrow> se_id s = j" for j s using ok by (auto simp: registry_ok_def session_fits_def)
  note continued = continue_registers [OF ok fresh] and created = create_registers [OF ok fresh]
  consider (continue) "truthy (rm_continue m)" | (resume) "\<not> truthy (rm_continue m)" "truthy (rm_resume m)"
    | (share) "\<not> truthy (rm_continue m)" "\<not> truthy (rm_resume m)" "truthy (rm_share m)"
    | (fresh) "\<not> truthy (rm_continue m)" "\<not> truthy (rm_resume m)" "\<not> truthy (rm_share m)" by blast
  then show ?thesis
  proof cases
    case continue
    with assms(5) show ?thesis
      by (auto simp: handleRegister_def register_continue_def key split: option.splits if_splits prod.splits sum.splits intro: continued)
  next
    case resume
    with assms(5) show ?thesis
      by (auto simp: handleRegister_def register_resume_def registered_at_def of_site_def same_site_def key resume_session_def
          requireMutable_state requireInState_def require_session_def guard_def and_with_def Let_def split: option.splits if_splits prod.splits sum.splits)
  next
    case share
    with assms(5) show ?thesis
      by (auto simp: handleRegister_def register_share_def registered_at_def of_site_def key split: option.splits if_splits)
  next
    case fresh
    have held: "find_session ?rg (se_id s) = Some s" if "findResumableSession ?og de (List.map snd (rg_sessions ?rg)) = Some s" for de s
      using that resumable_found held_session_found [OF ok] by blast
    from fresh assms(5) show ?thesis
      by (auto simp: handleRegister_def register_fresh_def Let_def split: option.splits if_splits prod.splits sum.splits
          intro: created continued [OF held] dest: resumable_found)
  qed
qed

section \<open>Where an edit is recorded\<close>

datatype append_reply = Appended "jsstring option" | AppendThrew producer_error

definition handleAppend :: "noble \<Rightarrow> registry_options \<Rightarrow> registry \<Rightarrow> jsstring \<Rightarrow> pending_mutation \<Rightarrow> int option \<Rightarrow> call_tick \<Rightarrow>
    registry \<times> append_reply" where
  "handleAppend nb opts rg sid p captured tick =
     (case appendMutation nb opts rg sid p captured (tk_now tick) (tk_trigger tick) (tk_fresh tick) of
        (rg', Inr _) \<Rightarrow> (rg', Appended None)
      | (rg', Inl (SessionFrozen k Uploaded)) \<Rightarrow>
          (case continueFrom opts rg' sid None None (tk_fresh tick) (tk_now tick) of
             (rg1, Inl e) \<Rightarrow> (rg1, AppendThrew e)
           | (rg1, Inr s) \<Rightarrow>
               (case appendMutation nb opts rg1 (se_id s) p captured (tk_now tick) (tk_trigger tick) (tk_fresh tick) of
                  (rg2, Inl e) \<Rightarrow> (rg2, AppendThrew e)
                | (rg2, Inr _) \<Rightarrow> (rg2, Appended (Some (se_id s)))))
      | (rg', Inl e) \<Rightarrow> (rg', AppendThrew e))"

section \<open>What becomes of an edit\<close>

text \<open>\<open>records\<close>: the event has the fields of the edit; after a gap its position is not kept.\<close>

definition records :: "pending_mutation \<Rightarrow> bool \<Rightarrow> mutation \<Rightarrow> bool" where
  "records p gap e \<longleftrightarrow> ev_op e = pm_op p \<and> ev_pos e = (if gap then None else pm_pos p) \<and> ev_del_len e = pm_del_len p
     \<and> ev_ins_len e = pm_ins_len p \<and> ev_source e = pm_source p"

definition holds_parent :: "(jsstring \<times> event_log) list \<Rightarrow> jsstring \<Rightarrow> jsstring option \<Rightarrow> registry \<Rightarrow> bool" where
  "holds_parent pending k parent rg \<longleftrightarrow> rg_pending rg = pending
     \<and> (\<exists>s. find_session rg k = Some s \<and> se_state s = Active \<and> se_parent s = parent)"

interpretation holding: observation_closed "holds_parent pending k parent" for pending k parent
  by unfold_locales (auto simp: holds_parent_def)

lemma next_event_records:
  assumes "buildNextMutation (if gap then p\<lparr>pm_pos := None\<rparr> else p) seq prev wall base = Inr e"
  shows "records p gap e"
  using assms by (auto simp: buildNextMutation_def guard_def records_def next_event_def Let_def split: if_splits)

lemma append_adds:
  assumes "op_journal opts" and "appendMutation nb opts rg sid p captured now trig fresh = (rg', Inr x)"
  obtains s e where "find_session rg sid = Some s" and "se_state s = Active" and "records p (se_gap s) e"
    and "holds_parent (AList.update sid (pending_events rg sid @ [e]) (rg_pending rg)) sid (se_parent s) rg'"
proof (cases rule: require_cases [of rg sid "[Active]"])
  case (found s)
  define wall where "wall = (case captured of Some t \<Rightarrow> t | None \<Rightarrow> now)"
  note unfold = appendMutation_def requireMutable_state and_with_def Let_def wall_def [symmetric]
  from assms found have cap: "validateCaptureWallTime captured" by (auto simp: appendMutation_def split: if_splits)
  with assms found have space: "\<not> MAX_PENDING_EVENTS \<le> length (pending_events rg sid)" by (auto simp: unfold split: if_splits)
  from assms found cap space obtain e where
    e: "buildNextMutation (if se_gap s then p\<lparr>pm_pos := None\<rparr> else p) (sessionEventCount s) (sessionLastEventTime s) wall (se_base s) = Inr e"
    by (auto simp: unfold split: sum.splits)
  from assms found cap space e obtain tip where tip: "advanceEventHash nb (se_tip s) e (se_id s) (se_version s) = Inr tip"
    by (auto simp: unfold split: sum.splits)
  obtain ob where ob: "recomputeObservationState opts t = t\<lparr>se_obs := ob t\<rparr>" for t using recompute_obs by metis
  let ?pending = "AList.update sid (pending_events rg sid @ [e]) (rg_pending rg)"
  obtain rg1 s1 where one: "record_event opts (mark_dirty sid rg) sid s e tip wall = (rg1, s1)" by fastforce
  have "holds_parent ?pending sid (se_parent s) (put_session sid s1 rg1)"
    using one assms(1) found(2) by (auto simp: record_event_def Let_def ob holds_parent_def)
  then have "holds_parent ?pending sid (se_parent s) (maybeTriggerCheckpoint opts rg1 sid s1 trig fresh)" by (rule holding.maybe_trigger)
  moreover have "rg' = maybeTriggerCheckpoint opts rg1 sid s1 trig fresh"
    using assms found cap space e tip one by (simp add: unfold)
  ultimately show ?thesis using that found next_event_records [OF e] by simp
qed (use assms in \<open>auto simp: appendMutation_def requireMutable_state and_with_def split: if_splits\<close>)

lemma continue_adds:
  assumes "continueFrom opts rg sid og de fresh now = (rg', Inr s)"
  obtains previous r where "find_session rg sid = Some previous" and "se_state previous = Uploaded" and "se_response previous = Some r"
    and "holds_parent (rg_pending rg) (se_id s) (Some (ur_record_hash r)) rg'"
proof (cases rule: require_cases [of rg sid "[Uploaded]"])
  case (found previous)
  with assms obtain r where r: "se_response previous = Some r" by (auto simp: continueFrom_def and_with_def split: option.splits)
  have "holds_parent (rg_pending rg) (se_id s) (Some (ur_record_hash r)) rg'"
  proof (cases "List.find (continues (ur_record_hash r)) (List.map snd (rg_sessions rg))")
    case None
    with assms found r show ?thesis
      by (auto simp: continueFrom_def and_with_def Let_def holds_parent_def blank_session_def)
  next
    case (Some t)
    from find_Some_set [OF Some] assms found r Some show ?thesis
      by (auto simp: continueFrom_def and_with_def Let_def holds_parent_def continues_def)
  qed
  with found r that show ?thesis by simp
qed (use assms in \<open>auto simp: continueFrom_def and_with_def\<close>)
lemma append_refused:
  assumes "appendMutation nb opts rg sid p captured now trig fresh = (rg', Inl err)"
  shows "rg_pending rg' = rg_pending rg" and "find_session rg' = find_session rg"
proof -
  have "rg' = rg \<or> rg' = mark_dirty sid rg"
  proof (cases rule: require_cases [of rg sid "[Active]"])
    case (found s)
    with assms show ?thesis
      by (auto simp: appendMutation_def requireMutable_state and_with_def Let_def split: if_splits sum.splits prod.splits)
  qed (use assms in \<open>auto simp: appendMutation_def requireMutable_state and_with_def split: if_splits\<close>)
  then show "rg_pending rg' = rg_pending rg" and "find_session rg' = find_session rg" by auto
qed

lemma holds_parent_log:
  assumes "holds_parent (AList.update k (pending_events rg k @ [e]) (rg_pending rg)) k parent rg'"
  shows "pending_events rg' k' = pending_events rg k' @ (if k' = k then [e] else [])"
    and "\<exists>s. find_session rg' k = Some s \<and> se_state s = Active \<and> se_parent s = parent"
  using assms by (auto simp: holds_parent_def pending_events_def update_conv')

text \<open>C28: An acknowledged edit is in the journal of the session that the acknowledgement names. When the extension
  answers an edit without an error, exactly one event with the fields of that edit (its position dropped when edits
  before it went unseen) is appended to what waits to be saved, and nothing waiting in another session changes: it is
  appended to the session of the request when that is active, and else, when that is published, to an active continuation of
  its record, whose identifier the answer carries.\<close>

theorem acknowledged_edit_recorded:
  assumes "op_journal opts" and "handleAppend nb opts rg sid p captured tick = (rg', Appended t)"
  shows "\<exists>e gap parent. records p gap e
     \<and> (\<forall>k. pending_events rg' k = pending_events rg k @ (if k = (case t of None \<Rightarrow> sid | Some k' \<Rightarrow> k') then [e] else []))
     \<and> (\<exists>s. find_session rg' (case t of None \<Rightarrow> sid | Some k' \<Rightarrow> k') = Some s \<and> se_state s = Active \<and> se_parent s = parent)
     \<and> (\<exists>s. find_session rg sid = Some s \<and> (case t of None \<Rightarrow> se_state s = Active \<and> se_parent s = parent
          | Some k' \<Rightarrow> se_state s = Uploaded \<and> map_option ur_record_hash (se_response s) = parent))"
proof -
  let ?append = "\<lambda>rg k. appendMutation nb opts rg k p captured (tk_now tick) (tk_trigger tick) (tk_fresh tick)"
  show ?thesis
  proof (cases "?append rg sid")
    case (Pair rg1 res)
    show ?thesis
    proof (cases res)
      case (Inr x)
      with assms(2) Pair have t: "rg' = rg1" "t = None" by (simp_all add: handleAppend_def)
      from append_adds [OF assms(1) Pair [unfolded Inr]] obtain s e where
        "find_session rg sid = Some s" "se_state s = Active" "records p (se_gap s) e"
        and h: "holds_parent (AList.update sid (pending_events rg sid @ [e]) (rg_pending rg)) sid (se_parent s) rg1" .
      with holds_parent_log [OF h] show ?thesis by (auto simp: t intro!: exI [of _ e] exI [of _ "se_gap s"])
    next
      case (Inl err)
      with assms(2) Pair obtain k where k: "err = SessionFrozen k Uploaded"
        by (auto simp: handleAppend_def split: producer_error.splits session_state.splits)
      obtain rg2 s where two: "continueFrom opts rg1 sid None None (tk_fresh tick) (tk_now tick) = (rg2, Inr s)"
        using assms(2) Pair Inl k by (auto simp: handleAppend_def split: prod.splits sum.splits)
      obtain x where three: "?append rg2 (se_id s) = (rg', Inr x)" and t: "t = Some (se_id s)"
        using assms(2) Pair Inl k two by (auto simp: handleAppend_def split: prod.splits sum.splits)
      have same: "rg_pending rg1 = rg_pending rg" "find_session rg1 = find_session rg"
        using Pair Inl append_refused by simp_all
      from continue_adds [OF two] obtain previous r where
        p: "find_session rg sid = Some previous" "se_state previous = Uploaded" "se_response previous = Some r"
        and h: "holds_parent (rg_pending rg) (se_id s) (Some (ur_record_hash r)) rg2" using same by metis
      from append_adds [OF assms(1) three] obtain s' e where s':
        "find_session rg2 (se_id s) = Some s'" "records p (se_gap s') e"
        and h2: "holds_parent (AList.update (se_id s) (pending_events rg2 (se_id s) @ [e]) (rg_pending rg2)) (se_id s) (se_parent s') rg'" .
      from h s'(1) have "se_parent s' = Some (ur_record_hash r)" "rg_pending rg2 = rg_pending rg" by (auto simp: holds_parent_def)
      moreover from this(2) have "pending_events rg2 = pending_events rg" by (simp add: pending_events_def fun_eq_iff)
      ultimately show ?thesis using holds_parent_log [OF h2] p s'(2)
        by (auto simp: t intro!: exI [of _ e] exI [of _ "se_gap s'"])
    qed
  qed
qed
section \<open>The request that signs and publishes\<close>

text \<open>
  A request is at one of these awaits: a save (\<open>GapSaving\<close>, \<open>SignSaving\<close>, \<open>FreezeSaving\<close>, \<open>LinkSaving\<close>, \<open>FailureSaving\<close>),
  the flush of checkpoints, or the upload. The reason of a failure is the message of the error that was thrown;
  \<open>say\<close> gives the messages of the errors of the registry.
\<close>

datatype sign_result =
    SignUploaded upload_response "text_binding option" bool bool
  | SignFailed jsstring

datatype sign_stage =
    GapSaving "text_binding option"
  | SignSaving signed_draft
  | ObservationFlushing signed_draft
  | FreezeSaving signed_draft "upload_envelope option"
  | UploadPosting signed_draft "upload_envelope option"
  | LinkSaving upload_response "text_binding option" bool
  | FailureSaving jsstring
  | SignDone sign_result
  | SignThrew jsstring

datatype sign_reply =
    SavedOk
  | SaveThrew jsstring
  | Flushed
  | Posted upload_response
  | PostThrew jsstring "rejection option"

definition not_saved_note :: jsstring where
  "not_saved_note = js '' Local saving also failed. Keep this browser open and retry when local storage is available.''"

definition no_response_reason :: jsstring where
  "no_response_reason = js ''uploaded response is unavailable''"

definition not_failed_reason :: jsstring where
  "not_failed_reason = js ''no_failed_upload_in_session''"

definition sign_failed :: "registry \<Rightarrow> jsstring \<Rightarrow> jsstring \<Rightarrow> rejection option \<Rightarrow> registry \<times> sign_stage" where
  "sign_failed rg sid reason rejected = (case find_session rg sid of
      None \<Rightarrow> (rg, FailureSaving reason)
    | Some live \<Rightarrow>
       if se_state live = Uploading \<or> se_state live = Signing
       then (let rg1 = fst (markFailedUpload rg sid reason) in
         (case rejected of None \<Rightarrow> rg1 | Some r \<Rightarrow> fst (markObservationRejected rg1 sid r), FailureSaving reason))
       else (rg, FailureSaving reason))"

definition persistUploadedResult :: "registry \<Rightarrow> jsstring \<Rightarrow> sign_stage option" where
  "persistUploadedResult rg sid = (case find_session rg sid of
      None \<Rightarrow> None
    | Some s \<Rightarrow> map_option (\<lambda>r. LinkSaving r (se_binding s) (so_state (se_obs s) = StateDiverged)) (se_response s))"

definition runSignUpload :: "device_env \<Rightarrow> (producer_error \<Rightarrow> jsstring) \<Rightarrow> registry \<Rightarrow> jsstring \<Rightarrow> text_binding option \<Rightarrow> call_tick \<Rightarrow>
    registry \<times> sign_stage" where
  "runSignUpload env say rg sid binding tick =
     (case sign_session (de_parses env) (de_iso env) (de_noble env) (de_options env) rg sid binding (tk_now tick) (tk_fresh tick) of
        (rg', Inl e) \<Rightarrow> sign_failed rg' sid (say e) None
      | (rg', Inr draft) \<Rightarrow> (rg', SignSaving draft))"

fun sign_continues :: "device_env \<Rightarrow> (producer_error \<Rightarrow> jsstring) \<Rightarrow> jsstring \<Rightarrow> call_tick \<Rightarrow> registry \<Rightarrow> sign_stage \<Rightarrow> sign_reply \<Rightarrow>
    (registry \<times> sign_stage) option" where
  "sign_continues env say sid tick rg (GapSaving binding) SavedOk = Some (runSignUpload env say rg sid binding tick)"
| "sign_continues env say sid tick rg (GapSaving binding) (SaveThrew r) = Some (rg, SignThrew r)"
| "sign_continues env say sid tick rg (SignSaving d) SavedOk = Some (rg, ObservationFlushing d)"
| "sign_continues env say sid tick rg (SignSaving d) (SaveThrew r) = Some (sign_failed rg sid r None)"
| "sign_continues env say sid tick rg (ObservationFlushing d) Flushed =
     Some (let envelope = getObservationEnvelope (de_options env) rg sid in
       case markUploading rg sid of
         (rg', Inl e) \<Rightarrow> sign_failed rg' sid (say e) None
       | (rg', Inr _) \<Rightarrow> (rg', FreezeSaving d envelope))"
| "sign_continues env say sid tick rg (FreezeSaving d envelope) SavedOk = Some (rg, UploadPosting d envelope)"
| "sign_continues env say sid tick rg (FreezeSaving d envelope) (SaveThrew r) = Some (sign_failed rg sid r None)"
| "sign_continues env say sid tick rg (UploadPosting d envelope) (Posted response) =
     Some (case markUploaded rg sid response (tk_now tick) of
         (rg', Inl e) \<Rightarrow> sign_failed rg' sid (say e) None
       | (rg', Inr _) \<Rightarrow> (case persistUploadedResult rg' sid of
           None \<Rightarrow> sign_failed rg' sid no_response_reason None
         | Some stage \<Rightarrow> (rg', stage)))"
| "sign_continues env say sid tick rg (UploadPosting d envelope) (PostThrew r rejected) = Some (sign_failed rg sid r rejected)"
| "sign_continues env say sid tick rg (LinkSaving response binding diverged) SavedOk =
     Some (rg, SignDone (SignUploaded response binding diverged False))"
| "sign_continues env say sid tick rg (LinkSaving response binding diverged) (SaveThrew r) =
     Some (rg, SignDone (SignUploaded response binding diverged True))"
| "sign_continues env say sid tick rg (FailureSaving reason) SavedOk = Some (rg, SignDone (SignFailed reason))"
| "sign_continues env say sid tick rg (FailureSaving reason) (SaveThrew r) = Some (rg, SignDone (SignFailed (reason @ not_saved_note)))"
| "sign_continues env say sid tick rg stage reply = None"

definition handleSign :: "device_env \<Rightarrow> (producer_error \<Rightarrow> jsstring) \<Rightarrow> registry \<Rightarrow> jsstring \<Rightarrow> text_binding option \<Rightarrow> call_tick \<Rightarrow>
    registry \<times> sign_stage" where
  "handleSign env say rg sid binding tick =
     (if \<exists>s \<in> set_option (find_session rg sid). se_gap s
      then (case recordUnrecordedChange (de_noble env) (de_options env) rg sid (tk_now tick) (tk_trigger tick) (tk_fresh tick) of
          (rg', Inl e) \<Rightarrow> (rg', SignThrew (say e))
        | (rg', Inr _) \<Rightarrow> (rg', GapSaving binding))
      else runSignUpload env say rg sid binding tick)"

definition handleRetry :: "device_env \<Rightarrow> (producer_error \<Rightarrow> jsstring) \<Rightarrow> registry \<Rightarrow> jsstring \<Rightarrow> call_tick \<Rightarrow> registry \<times> sign_stage" where
  "handleRetry env say rg sid tick = (case find_session rg sid of
      None \<Rightarrow> (rg, SignDone (SignFailed not_failed_reason))
    | Some s \<Rightarrow>
       if se_state s = Uploaded \<and> se_response s \<noteq> None
       then (rg, case persistUploadedResult rg sid of None \<Rightarrow> SignThrew no_response_reason | Some stage \<Rightarrow> stage)
       else if se_state s \<noteq> FailedUpload then (rg, SignDone (SignFailed not_failed_reason))
       else runSignUpload env say rg sid (se_binding s) tick)"

text \<open>The number of replies a request can still await.\<close>

fun replies_left :: "sign_stage \<Rightarrow> nat" where
  "replies_left (GapSaving b) = 6"
| "replies_left (SignSaving d) = 5"
| "replies_left (ObservationFlushing d) = 4"
| "replies_left (FreezeSaving d v) = 3"
| "replies_left (UploadPosting d v) = 2"
| "replies_left (LinkSaving r b o') = 1"
| "replies_left (FailureSaving r) = 1"
| "replies_left (SignDone r) = 0"
| "replies_left (SignThrew r) = 0"

section \<open>Requests among the other steps of the process\<close>

text \<open>
  While a request runs, the worker refuses another request to sign or retry the same session, and nothing else: edits,
  saves and checkpoints go on, registrations and the hourly alarm sweep expired sessions, and the session itself may be
  discarded. So the outcome of the session stays as it is, or the session is gone from the process. A discard
  whose deletion cannot be saved puts the session back as it was when it was discarded; that is not modelled.
\<close>

definition outcome :: "session \<Rightarrow> session_state \<times> upload_response option \<times> text_binding option" where
  "outcome s = (se_state s, se_response s, se_binding s)"

definition undisturbed :: "jsstring \<Rightarrow> registry \<Rightarrow> registry \<Rightarrow> bool" where
  "undisturbed sid rg rg' \<longleftrightarrow> map_option outcome (find_session rg' sid) = map_option outcome (find_session rg sid)"

lemma undisturbed_refl [simp]: "undisturbed sid rg rg"
  by (simp add: undisturbed_def)

lemma undisturbed_put:
  assumes "undisturbed sid rg rg'" and "find_session rg' k = Some s" and "k = sid \<Longrightarrow> outcome s' = outcome s"
  shows "undisturbed sid rg (put_session k s' rg')"
  using assms by (auto simp: undisturbed_def)

interpretation undisturbing: observation_closed "undisturbed sid rg" for sid rg
proof unfold_locales
  fix rg' k s ob
  assume "undisturbed sid rg rg'" "find_session rg' k = Some s"
  then show "undisturbed sid rg (put_session k (s\<lparr>se_obs := ob\<rparr>) rg')"
    by (rule undisturbed_put) (simp add: outcome_def)
qed (simp_all add: undisturbed_def)

text \<open>All calls but those by which a request signs and publishes \<open>sid\<close>.\<close>

fun leaves_alone :: "jsstring \<Rightarrow> registry_call \<Rightarrow> bool" where
  "leaves_alone sid (CallSign k b now fresh) \<longleftrightarrow> k \<noteq> sid"
| "leaves_alone sid (CallUploading k) \<longleftrightarrow> k \<noteq> sid"
| "leaves_alone sid (CallUploaded k response now) \<longleftrightarrow> k \<noteq> sid"
| "leaves_alone sid (CallFailed k reason) \<longleftrightarrow> k \<noteq> sid"
| "leaves_alone sid c \<longleftrightarrow> True"

definition gentle :: "jsstring \<Rightarrow> registry \<Rightarrow> jsstring \<Rightarrow> session \<Rightarrow> registry \<Rightarrow> bool" where
  "gentle sid rg k s rg' \<longleftrightarrow> rg' = rg \<or> (\<exists>s'. (k = sid \<longrightarrow> outcome s' = outcome s) \<and> rg' = put_session k s' rg)"

lemma gentle_intros [simp, intro]:
  "gentle sid rg k s rg"
  "(k = sid \<Longrightarrow> outcome s' = outcome s) \<Longrightarrow> gentle sid rg k s (put_session k s' rg)"
  "(k = sid \<Longrightarrow> outcome s' = outcome s) \<Longrightarrow> gentle sid (mark_dirty k' rg) k s (mark_dirty k' (put_session k s' rg))"
  by (auto simp: gentle_def simp flip: put_mark)

lemma method_undisturbed:
  assumes "\<And>s. find_session rg k = Some s \<Longrightarrow> gentle sid (mark_dirty k rg) k s (fst (f (mark_dirty k rg) s))"
  shows "undisturbed sid rg (fst (and_with (requireInState allowed rg k) f))"
proof (cases rule: require_cases [of rg k allowed])
  case (found s)
  with assms [OF found(1)] show ?thesis by (auto simp: and_with_def gentle_def undisturbed_def)
qed (simp_all add: and_with_def undisturbed_def)

lemma marks_undisturbed:
  "k \<noteq> sid \<Longrightarrow> undisturbed sid rg (fst (markUploading rg k))"
  "k \<noteq> sid \<Longrightarrow> undisturbed sid rg (fst (markUploaded rg k response now))"
  "k \<noteq> sid \<Longrightarrow> undisturbed sid rg (fst (markFailedUpload rg k reason))"
  "undisturbed sid rg (fst (markObservationRejected rg k r))"
  "undisturbed sid rg (fst (resume_session rg k og de is_empty continuity))"
  unfolding markUploading_def markUploaded_def markFailedUpload_def markObservationRejected_def
    resume_session_def requireMutable_state Let_def
  by (rule method_undisturbed, force simp: outcome_def intro!: gentle_intros)+

lemma append_undisturbed: "undisturbed sid rg (fst (appendMutation nb opts rg k p captured now trig fresh))"
proof (cases rule: appendMutation_cases [of nb opts rg k p captured now trig fresh])
  case (recorded s p' wall e tip)
  obtain ob where ob: "recomputeObservationState opts t = t\<lparr>se_obs := ob t\<rparr>" for t using recompute_obs by metis
  have "undisturbed sid rg (case record_event opts (mark_dirty k rg) k s e tip wall of (rg', s') \<Rightarrow> put_session k s' rg')"
    using recorded(1) by (auto simp: record_event_def Let_def ob undisturbed_def outcome_def)
  with recorded(6) show ?thesis by (auto split: prod.splits intro: undisturbing.maybe_trigger)
qed (simp_all add: undisturbed_def)

lemma unrecorded_undisturbed: "undisturbed sid rg (fst (recordUnrecordedChange nb opts rg k now trig fresh))"
  using append_undisturbed [of sid "mark_dirty k rg"]
  by (cases rule: require_cases [of rg k "[Active]"])
     (simp_all add: recordUnrecordedChange_def requireMutable_state and_with_def undisturbed_def)

lemma continue_undisturbed:
  assumes "registry_ok nb base pre gone cleared rg" and "fresh \<noteq> sid"
  shows "undisturbed sid rg (fst (continueFrom opts rg k og de fresh now))"
proof (cases rule: require_cases [of rg k "[Uploaded]"])
  case (found previous)
  show ?thesis
  proof (cases "se_response previous")
    case None
    with found show ?thesis by (simp add: continueFrom_def and_with_def undisturbed_def)
  next
    case (Some response)
    show ?thesis
    proof (cases "List.find (continues (ur_record_hash response)) (List.map snd (rg_sessions rg))")
      case None
      with found Some assms(2) show ?thesis by (simp add: continueFrom_def and_with_def Let_def undisturbed_def)
    next
      fix s assume s: "List.find (continues (ur_record_hash response)) (List.map snd (rg_sessions rg)) = Some s"
      then have "find_session rg (se_id s) = Some s"
        by (intro held_session_found [OF assms(1)]) (meson find_Some_set)
      with found Some s show ?thesis
        by (simp add: continueFrom_def and_with_def Let_def undisturbed_def outcome_def)
    qed
  qed
qed (simp_all add: continueFrom_def and_with_def undisturbed_def)

definition dropped :: "device \<Rightarrow> jsstring \<Rightarrow> bool" where
  "dropped dv sid \<longleftrightarrow> find_session (dv_registry dv) sid = None"

definition spared :: "jsstring \<Rightarrow> registry \<Rightarrow> registry \<Rightarrow> bool" where
  "spared sid rg rg' \<longleftrightarrow> find_session rg' sid = None \<or> undisturbed sid rg rg'"

lemma spared_refl [simp]: "spared sid rg rg"
  by (simp add: spared_def)

text \<open>A sweep drops a session or leaves an anchor with its outcome.\<close>

lemma sweep_fold_spared:
  assumes "\<forall>s \<in> set ss. find_session rg0 (se_id s) = Some s" and "spared sid rg0 rg"
  shows "spared sid rg0 (fst (foldl (sweep_one opts now ttl retain) (rg, logs) ss))"
  using assms
proof (induction ss arbitrary: rg logs)
  case (Cons s ss)
  obtain rg1 logs1 where step: "sweep_one opts now ttl retain (rg, logs) s = (rg1, logs1)" by fastforce
  have "spared sid rg0 rg1"
  proof (cases "se_id s = sid")
    case True
    then have "find_session rg0 sid = Some s" using Cons.prems(1) by auto
    with step True show ?thesis
      by (auto simp: sweep_one_def spared_def undisturbed_def upload_anchor_def outcome_def split: if_splits)
  next
    case False
    then have "find_session rg1 sid = find_session rg sid" using step by (auto simp: sweep_one_def split: if_splits)
    with Cons.prems(2) show ?thesis by (simp add: spared_def undisturbed_def)
  qed
  with Cons step show ?case by simp
qed simp

lemma call_spared:
  assumes "registry_ok nb base pre gone cleared rg" and "leaves_alone sid c" and "\<forall>k \<in> new_ids c. k \<noteq> sid"
  shows "spared sid rg (call_registry env c rg)"
proof (cases c)
  case (CallFindOrCreate og de surface start_fresh unknown started fresh now)
  define ss where "ss = (if start_fresh then [] else List.map snd (rg_sessions rg))"
  have "undisturbed sid rg (fst (findOrCreate (de_options env) rg og de surface start_fresh unknown started fresh now))"
  proof (cases rule: resolve_cases [of ss og de fresh])
    case (reuse s)
    then have "find_session rg (se_id s) = Some s" using held_session_found [OF assms(1)] by (simp add: ss_def split: if_splits)
    with reuse show ?thesis by (auto simp: findOrCreate_def Let_def ss_def [symmetric] undisturbed_def outcome_def)
  next
    case create
    then show ?thesis using assms(3) CallFindOrCreate
      by (auto simp: findOrCreate_def Let_def ss_def [symmetric] undisturbed_def)
  qed
  then show ?thesis by (simp add: CallFindOrCreate spared_def)
next
  case (CallContinue k og de fresh now)
  with assms(1,3) show ?thesis by (simp add: continue_undisturbed spared_def)
next
  case (CallSign k b now fresh)
  with assms(2) show ?thesis
    by (cases rule: sign_session_cases [of "de_parses env" "de_iso env" "de_noble env" "de_options env" rg k b now fresh])
       (simp_all add: undisturbed_def spared_def)
next
  case (CallDiscard k)
  then show ?thesis by (auto simp: discard_session_def spared_def undisturbed_def split: option.split)
next
  case (CallSweep now ttl grace retain)
  have "\<forall>s \<in> set (filter P (List.map snd (rg_sessions rg))). find_session rg (se_id s) = Some s" for P
    using held_session_found [OF assms(1)] by simp
  with sweep_fold_spared CallSweep show ?thesis
    by (simp add: sweep_sessions_def Let_def sweepExpired_filter)
qed (use assms(2) in \<open>simp_all add: spared_def marks_undisturbed append_undisturbed unrecorded_undisturbed undisturbing.arrived
  undisturbing.saved undisturbing.flushed undisturbing.flush_marks\<close>)

text \<open>What happens meanwhile: such calls, and the saving of batches.\<close>

inductive meanwhile :: "device_env \<Rightarrow> jsstring \<Rightarrow> device \<Rightarrow> device \<Rightarrow> bool" for env sid where
  meanwhile_call: "leaves_alone sid c \<Longrightarrow> \<forall>k \<in> new_ids c. never_used dv k \<and> k \<noteq> sid \<Longrightarrow> meanwhile env sid dv
     (dv\<lparr>dv_registry := call_registry env c (dv_registry dv), dv_used := dv_used dv \<union> new_ids c\<rparr>)"
| meanwhile_saving: "process_step env dv dv' \<Longrightarrow> rg_sessions (dv_registry dv') = rg_sessions (dv_registry dv) \<Longrightarrow>
     meanwhile env sid dv dv'"

lemma meanwhile_process: "meanwhile env sid dv dv' \<Longrightarrow> process_step env dv dv'"
  by (induction rule: meanwhile.induct) (auto intro: step_call)

lemma meanwhile_spared:
  assumes "device_ok nb dv" and "meanwhile env sid dv dv'"
  shows "spared sid (dv_registry dv) (dv_registry dv')"
  using assms(2)
proof cases
  case (meanwhile_call c)
  from device_registry_ok [OF assms(1)] obtain base pre gone cleared where
    "registry_ok nb base pre gone cleared (dv_registry dv)" by blast
  with meanwhile_call show ?thesis by (simp add: call_spared)
next
  case meanwhile_saving
  then show ?thesis by (simp add: spared_def undisturbed_def find_session_def)
qed

text \<open>The steps of saving a batch are of that kind.\<close>

lemma splice_sessions: "rg_sessions (foldl splice_pending rg chunks) = rg_sessions rg"
  by (induction chunks arbitrary: rg) (simp_all add: splice_pending_def split: option.split)

lemma saving_meanwhile:
  "dv_flight dv = None \<Longrightarrow> take_batch (dv_registry dv) = (rg, Some fl) \<Longrightarrow>
     meanwhile env sid dv (dv\<lparr>dv_registry := rg, dv_flight := Some (fl, False)\<rparr>)"
  "dv_flight dv = Some (fl, False) \<Longrightarrow> commit_batch (dv_db dv) (jf_batch fl) = Inr db \<Longrightarrow>
     meanwhile env sid dv (dv\<lparr>dv_db := db, dv_flight := Some (fl, True)\<rparr>)"
  "dv_flight dv = Some (fl, True) \<Longrightarrow>
     meanwhile env sid dv (dv\<lparr>dv_registry := batch_saved (dv_registry dv) fl, dv_flight := None\<rparr>)"
  "dv_flight dv = Some (fl, False) \<Longrightarrow>
     meanwhile env sid dv (dv\<lparr>dv_registry := batch_failed (dv_registry dv) fl, dv_flight := None\<rparr>)"
proof -
  show "meanwhile env sid dv (dv\<lparr>dv_registry := rg, dv_flight := Some (fl, False)\<rparr>)"
    if "dv_flight dv = None" "take_batch (dv_registry dv) = (rg, Some fl)"
    by (rule meanwhile_saving [OF step_take [OF that]]) (use that(2) in \<open>auto simp: take_batch_def Let_def split: if_splits\<close>)
  show "meanwhile env sid dv (dv\<lparr>dv_db := db, dv_flight := Some (fl, True)\<rparr>)"
    if "dv_flight dv = Some (fl, False)" "commit_batch (dv_db dv) (jf_batch fl) = Inr db"
    by (rule meanwhile_saving [OF step_commit [OF that]]) simp
  show "meanwhile env sid dv (dv\<lparr>dv_registry := batch_saved (dv_registry dv) fl, dv_flight := None\<rparr>)"
    if "dv_flight dv = Some (fl, True)"
    by (rule meanwhile_saving [OF step_settle [OF that]]) (simp add: batch_saved_def splice_sessions)
  show "meanwhile env sid dv (dv\<lparr>dv_registry := batch_failed (dv_registry dv) fl, dv_flight := None\<rparr>)"
    if "dv_flight dv = Some (fl, False)"
    by (rule meanwhile_saving [OF step_fail [OF that]]) (simp add: batch_failed_def Let_def)
qed

text \<open>
  The save that a request awaits. \<open>persist\<close> enters a waiter. A batch under way when it is called is not the one it
  waits for: when that has ended, \<open>#drainPersistence\<close> takes the next batch with whatever is to be saved then, and
  fulfils or rejects the waiter as that batch is saved or fails; with nothing to save it is fulfilled at once.
\<close>

datatype save_phase = SaveAsked | SaveTaken | SaveDone | SaveFailed

fun save_progress :: "(journal_flight \<times> bool) option \<Rightarrow> (journal_flight \<times> bool) option \<Rightarrow> save_phase \<Rightarrow> save_phase" where
  "save_progress None (Some fl) SaveAsked = SaveTaken"
| "save_progress (Some (fl, True)) None SaveTaken = SaveDone"
| "save_progress (Some (fl, False)) None SaveTaken = SaveFailed"
| "save_progress fl fl' ph = ph"

fun fits_save :: "save_phase \<Rightarrow> sign_reply \<Rightarrow> bool" where
  "fits_save ph SavedOk \<longleftrightarrow> ph = SaveDone"
| "fits_save ph (SaveThrew r) \<longleftrightarrow> ph = SaveFailed"
| "fits_save ph reply \<longleftrightarrow> True"

definition nothing_to_save :: "device \<Rightarrow> bool" where
  "nothing_to_save dv \<longleftrightarrow> dv_flight dv = None \<and> snd (take_batch (dv_registry dv)) = None"

inductive sign_run :: "device_env \<Rightarrow> (producer_error \<Rightarrow> jsstring) \<Rightarrow> jsstring \<Rightarrow> device \<Rightarrow> sign_stage \<Rightarrow> save_phase \<Rightarrow> bool"
  for env say sid where
  run_request: "reachable_device env dv \<Longrightarrow> handleSign env say (dv_registry dv) sid binding tick = (rg, stage) \<Longrightarrow>
     sign_run env say sid (dv\<lparr>dv_registry := rg\<rparr>) stage SaveAsked"
| run_retry: "reachable_device env dv \<Longrightarrow> handleRetry env say (dv_registry dv) sid tick = (rg, stage) \<Longrightarrow>
     sign_run env say sid (dv\<lparr>dv_registry := rg\<rparr>) stage SaveAsked"
| run_meanwhile: "sign_run env say sid dv stage ph \<Longrightarrow> meanwhile env sid dv dv' \<Longrightarrow>
     sign_run env say sid dv' stage (save_progress (dv_flight dv) (dv_flight dv') ph)"
| run_unneeded: "sign_run env say sid dv stage SaveAsked \<Longrightarrow> nothing_to_save dv \<Longrightarrow> sign_run env say sid dv stage SaveDone"
| run_reply: "sign_run env say sid dv stage ph \<Longrightarrow> fits_save ph reply \<Longrightarrow>
     sign_continues env say sid tick (dv_registry dv) stage reply = Some (rg, stage') \<Longrightarrow>
     sign_run env say sid (dv\<lparr>dv_registry := rg\<rparr>) stage' SaveAsked"

definition in_state :: "registry \<Rightarrow> jsstring \<Rightarrow> session_state \<Rightarrow> bool" where
  "in_state rg sid st \<longleftrightarrow> (\<exists>s. find_session rg sid = Some s \<and> se_state s = st)"

definition settled :: "registry \<Rightarrow> jsstring \<Rightarrow> bool" where
  "settled rg sid \<longleftrightarrow> \<not> in_state rg sid Signing \<and> \<not> in_state rg sid Uploading"

lemma undisturbed_state: "undisturbed sid rg rg' \<Longrightarrow> in_state rg' sid st = in_state rg sid st"
  by (cases "find_session rg sid"; cases "find_session rg' sid") (auto simp: undisturbed_def in_state_def outcome_def)

lemma spared_settled: "spared sid rg rg' \<Longrightarrow> settled rg sid \<Longrightarrow> settled rg' sid"
  using undisturbed_state [of sid rg rg'] by (auto simp: settled_def spared_def in_state_def)

definition signed_ok :: "device_env \<Rightarrow> device \<Rightarrow> jsstring \<Rightarrow> signed_draft \<Rightarrow> bool" where
  "signed_ok env dv sid d \<longleftrightarrow> record_ok (de_parses env) (de_noble env) \<lparr>wr_manifest = sd_manifest d, wr_events = device_log dv sid\<rparr>"

text \<open>What a draft was signed over verifies, also when its session is gone.\<close>

definition was_signed :: "device_env \<Rightarrow> signed_draft \<Rightarrow> bool" where
  "was_signed env d \<longleftrightarrow> (\<exists>es. record_ok (de_parses env) (de_noble env) \<lparr>wr_manifest = sd_manifest d, wr_events = es\<rparr>)"

text \<open>How far the events of a frozen session have been saved.\<close>

definition covered :: "device \<Rightarrow> jsstring \<Rightarrow> save_phase \<Rightarrow> bool" where
  "covered dv sid ph = (case ph of
      SaveTaken \<Rightarrow> (case dv_flight dv of
          None \<Rightarrow> False
        | Some (fl, committed) \<Rightarrow> waiting_events dv sid = (if committed then [] else appended (jf_batch fl) sid))
    | SaveDone \<Rightarrow> waiting_events dv sid = []
    | _ \<Rightarrow> True)"

definition frozen_in :: "device_env \<Rightarrow> device \<Rightarrow> jsstring \<Rightarrow> session_state \<Rightarrow> signed_draft \<Rightarrow> bool" where
  "frozen_in env dv sid st d \<longleftrightarrow> was_signed env d \<and> (dropped dv sid \<or> in_state (dv_registry dv) sid st \<and> signed_ok env dv sid d)"

definition has_outcome :: "device \<Rightarrow> jsstring \<Rightarrow> session_state \<times> upload_response option \<times> text_binding option \<Rightarrow> bool" where
  "has_outcome dv sid x \<longleftrightarrow> dropped dv sid \<or> (\<exists>s. find_session (dv_registry dv) sid = Some s \<and> outcome s = x)"

fun stage_ok :: "device_env \<Rightarrow> device \<Rightarrow> jsstring \<Rightarrow> sign_stage \<Rightarrow> save_phase \<Rightarrow> bool" where
  "stage_ok env dv sid (SignSaving d) ph \<longleftrightarrow> frozen_in env dv sid Signing d"
| "stage_ok env dv sid (ObservationFlushing d) ph \<longleftrightarrow> frozen_in env dv sid Signing d"
| "stage_ok env dv sid (FreezeSaving d v) ph \<longleftrightarrow> frozen_in env dv sid Uploading d \<and> (dropped dv sid \<or> covered dv sid ph)"
| "stage_ok env dv sid (UploadPosting d v) ph \<longleftrightarrow> frozen_in env dv sid Uploading d \<and> (dropped dv sid \<or> waiting_events dv sid = [])"
| "stage_ok env dv sid (LinkSaving r b o') ph \<longleftrightarrow> has_outcome dv sid (Uploaded, Some r, b)"
| "stage_ok env dv sid (SignDone (SignUploaded r b o' n)) ph \<longleftrightarrow> has_outcome dv sid (Uploaded, Some r, b)"
| "stage_ok env dv sid (FailureSaving r) ph \<longleftrightarrow> settled (dv_registry dv) sid"
| "stage_ok env dv sid (SignDone (SignFailed r)) ph \<longleftrightarrow> r = not_failed_reason \<or> settled (dv_registry dv) sid"
| "stage_ok env dv sid (GapSaving b) ph \<longleftrightarrow> True"
| "stage_ok env dv sid (SignThrew r) ph \<longleftrightarrow> True"

subsection \<open>The registry calls of a request\<close>

lemma call_steps:
  assumes "new_ids c = {}"
  shows "process_step env dv (dv\<lparr>dv_registry := call_registry env c (dv_registry dv)\<rparr>)"
proof -
  have "dv\<lparr>dv_registry := call_registry env c (dv_registry dv), dv_used := dv_used dv \<union> new_ids c\<rparr>
      = dv\<lparr>dv_registry := call_registry env c (dv_registry dv)\<rparr>" using assms by simp
  then show ?thesis using step_call [of c dv env] assms by simp
qed

lemma call_reachable:
  assumes "reachable_device env dv" and "new_ids c = {}"
  shows "reachable_device env (dv\<lparr>dv_registry := call_registry env c (dv_registry dv)\<rparr>)"
  by (rule reachable_step [OF assms(1) step_process [OF call_steps [OF assms(2)]]])

lemma sign_failed_reachable:
  assumes "reachable_device env dv"
  shows "reachable_device env (dv\<lparr>dv_registry := fst (sign_failed (dv_registry dv) sid reason rejected)\<rparr>)"
proof -
  note failed = call_reachable [OF assms, of "CallFailed sid reason", simplified]
  from call_reachable [OF failed, of "CallRejected sid r" for r, simplified] failed assms show ?thesis
    by (auto simp: sign_failed_def Let_def split: option.split)
qed

lemma runSignUpload_reachable:
  assumes "reachable_device env dv"
  shows "reachable_device env (dv\<lparr>dv_registry := fst (runSignUpload env say (dv_registry dv) sid binding tick)\<rparr>)"
proof -
  note signed = call_reachable [OF assms, of "CallSign sid binding (tk_now tick) (tk_fresh tick)", simplified]
  from sign_failed_reachable [OF signed] signed show ?thesis
    by (auto simp: runSignUpload_def split: prod.split sum.split)
qed

lemma log_of_pending:
  assumes "pending_events rg sid = pending_events (dv_registry dv) sid"
  shows "device_log (dv\<lparr>dv_registry := rg\<rparr>) sid = device_log dv sid" and "waiting_events (dv\<lparr>dv_registry := rg\<rparr>) sid = waiting_events dv sid"
  using assms by (simp_all add: device_log_def waiting_events_def split: option.split)

lemma markUploading_signing:
  assumes "in_state rg sid Signing"
  shows "\<exists>rg'. markUploading rg sid = (rg', Inr ()) \<and> in_state rg' sid Uploading \<and> pending_events rg' = pending_events rg"
  using assms by (auto simp: in_state_def markUploading_def requireInState_def require_session_def and_with_def guard_def)

lemma markUploaded_uploading:
  assumes "find_session rg sid = Some s" and "se_state s = Uploading"
  shows "\<exists>rg'. markUploaded rg sid response now = (rg', Inr ())
     \<and> find_session rg' sid = Some (s\<lparr>se_state := Uploaded, se_response := Some response, se_last_edit := now\<rparr>)"
  using assms by (simp add: markUploaded_def requireInState_def require_session_def and_with_def guard_def)

lemma markFailedUpload_live:
  assumes "find_session rg sid = Some s" and "se_state s = Uploading \<or> se_state s = Signing"
  shows "find_session (fst (markFailedUpload rg sid reason)) sid = Some (s\<lparr>se_state := FailedUpload, se_failure := Some reason\<rparr>)"
  using assms by (auto simp: markFailedUpload_def requireInState_def require_session_def and_with_def guard_def)

lemma markObservationRejected_failed:
  assumes "find_session rg sid = Some s" and "se_state s = FailedUpload"
  shows "in_state (fst (markObservationRejected rg sid r)) sid FailedUpload"
  using assms by (simp add: markObservationRejected_def requireInState_def require_session_def and_with_def guard_def in_state_def Let_def)

lemma in_one_state: "in_state rg sid st \<Longrightarrow> in_state rg sid st' \<Longrightarrow> st = st'"
  by (auto simp: in_state_def)

lemma sign_failed_settled:
  "settled (fst (sign_failed rg sid reason rejected)) sid" "snd (sign_failed rg sid reason rejected) = FailureSaving reason"
proof -
  show "snd (sign_failed rg sid reason rejected) = FailureSaving reason"
    by (simp add: sign_failed_def Let_def split: option.split)
  show "settled (fst (sign_failed rg sid reason rejected)) sid"
  proof (cases "\<exists>s. find_session rg sid = Some s \<and> (se_state s = Uploading \<or> se_state s = Signing)")
    case True
    then obtain s where s: "find_session rg sid = Some s" "se_state s = Uploading \<or> se_state s = Signing" by blast
    note failed = markFailedUpload_live [OF s, of reason]
    have "in_state (fst (sign_failed rg sid reason rejected)) sid FailedUpload"
      using s failed markObservationRejected_failed [OF failed] by (cases rejected) (simp_all add: sign_failed_def Let_def in_state_def)
    then show ?thesis using in_one_state by (fastforce simp: settled_def)
  next
    case False
    then show ?thesis by (auto simp: sign_failed_def settled_def in_state_def split: option.splits)
  qed
qed

lemma runSignUpload_ok:
  assumes "noble_ok (de_noble env)" and "op_journal (de_options env)" and "reachable_device env dv"
    and "runSignUpload env say (dv_registry dv) sid binding tick = (rg, stage)"
  shows "stage_ok env (dv\<lparr>dv_registry := rg\<rparr>) sid stage ph"
proof -
  obtain rg1 res where sign: "sign_session (de_parses env) (de_iso env) (de_noble env) (de_options env) (dv_registry dv) sid binding
      (tk_now tick) (tk_fresh tick) = (rg1, res)" by fastforce
  show ?thesis
  proof (cases res)
    case (Inl e)
    then have "(rg, stage) = sign_failed rg1 sid (say e) None" using assms(4) sign by (simp add: runSignUpload_def)
    then show ?thesis using sign_failed_settled [of rg1 sid "say e" None] by (cases "sign_failed rg1 sid (say e) None") simp
  next
    case (Inr d)
    then have st: "rg = rg1" "stage = SignSaving d" using assms(4) sign by (simp_all add: runSignUpload_def)
    have ok: "signed_ok env dv sid d" using signed_draft_verifies [OF assms(1-3)] sign Inr by (simp add: signed_ok_def)
    from sign_session_Inr [OF sign [unfolded Inr] assms(2)] have
      "pending_events rg1 = pending_events (dv_registry dv)" "in_state rg1 sid Signing" by (auto simp: in_state_def)
    with ok log_of_pending [of rg1 sid dv] show ?thesis by (auto simp: st signed_ok_def frozen_in_def was_signed_def)
  qed
qed

subsection \<open>The stages stay true\<close>

text \<open>Another step of the process keeps the log of a session that is signed, and what of it was saved.\<close>

lemma frozen_log:
  assumes "device_ok nb dv" and "process_step env dv dv'" and "in_state (dv_registry dv) sid st" and "in_state (dv_registry dv') sid st'"
    and "st \<noteq> Active" and "st \<noteq> Uploaded" and "st' \<noteq> Uploaded" and "device_ok nb dv'"
  shows "device_log dv' sid = device_log dv sid" and "waiting_events dv sid = [] \<Longrightarrow> waiting_events dv' sid = []"
proof -
  obtain s s' where s: "find_session (dv_registry dv) sid = Some s" "se_state s = st"
    and s': "find_session (dv_registry dv') sid = Some s'" "se_state s' = st'" using assms(3,4) by (auto simp: in_state_def)
  have held: "held dv sid s" "held dv' sid s'"
    using unfinished_held [OF assms(1) s(1)] unfinished_held [OF assms(8) s'(1)] s(2) s'(2) assms(6,7) by auto
  from process_step_log [OF assms(1,2) held] s(2) assms(5) show log: "device_log dv' sid = device_log dv sid" by auto
  show "waiting_events dv' sid = []" if "waiting_events dv sid = []"
  proof -
    have "device_log dv' sid = stored_rows (dv_db dv) sid" using log that by (simp add: device_log_def)
    moreover obtain more where "stored_rows (dv_db dv') sid = stored_rows (dv_db dv) sid @ more"
      using stored_grows [OF assms(1,2) held(1)] by (auto simp: prefix_def)
    ultimately show ?thesis by (simp add: device_log_def)
  qed
qed

lemma frozen_in_other:
  assumes "device_ok (de_noble env) dv" and "process_step env dv dv'" and "device_ok (de_noble env) dv'"
    and "spared sid (dv_registry dv) (dv_registry dv')" and "\<not> dropped dv sid \<or> dropped dv' sid" and "st = Signing \<or> st = Uploading"
    and "frozen_in env dv sid st d"
  shows "frozen_in env dv' sid st d"
proof (cases "dropped dv' sid")
  case True
  with assms(7) show ?thesis by (simp add: frozen_in_def)
next
  case False
  with assms(4,5,7) have same: "undisturbed sid (dv_registry dv) (dv_registry dv')" and st: "in_state (dv_registry dv) sid st"
    and ok: "signed_ok env dv sid d" by (auto simp: spared_def dropped_def frozen_in_def)
  from undisturbed_state [OF same] st have st': "in_state (dv_registry dv') sid st" by simp
  from frozen_log(1) [OF assms(1,2) st st' _ _ _ assms(3)] assms(6) ok assms(7) st'
  show ?thesis by (auto simp: frozen_in_def signed_ok_def)
qed

text \<open>A batch that is taken carries all that waits; when its transaction completes, nothing waits any more.\<close>

lemma covered_other:
  assumes "device_ok nb dv" and "process_step env dv dv'" and "device_ok nb dv'"
    and "in_state (dv_registry dv) sid Uploading" and "in_state (dv_registry dv') sid Uploading" and "covered dv sid ph"
  shows "covered dv' sid (save_progress (dv_flight dv) (dv_flight dv') ph)"
proof -
  note log = frozen_log [OF assms(1,2,4,5) _ _ _ assms(3), simplified]
  obtain s where s: "find_session (dv_registry dv) sid = Some s" "se_state s = Uploading" using assms(4) by (auto simp: in_state_def)
  have held: "held dv sid s" using unfinished_held [OF assms(1) s(1)] s(2) by simp
  have done': "covered dv' sid SaveDone" if "ph = SaveDone" using that assms(6) log(2) by (simp add: covered_def)
  from assms(2) show ?thesis
  proof cases
    case (step_call c)
    then have "waiting_events dv' sid = waiting_events dv sid" using log(1) by (simp add: device_log_def)
    with step_call assms(6) done' show ?thesis
      by (cases ph; cases "dv_flight dv") (auto simp: covered_def split: option.splits)
  next
    case (step_take rg fl)
    from step_take(2) assms(1) have ok: "registry_ok nb (stored_rows (dv_db dv)) (\<lambda>_. []) {} {} (dv_registry dv)"
      by (simp add: device_ok_def)
    have rg: "pending_events rg = pending_events (dv_registry dv)" "jf_batch fl = batch_of (dv_registry dv)"
      using step_take(3) by (auto simp: take_batch_def pending_events_def fun_eq_iff split: if_splits)
    from batch_of_facts(1) [OF ok, of sid] rg have "waiting_events dv' sid = appended (jf_batch fl) sid"
      by (simp add: step_take(1) waiting_events_def)
    with step_take assms(6) done' show ?thesis by (cases ph) (auto simp: covered_def)
  next
    case (step_commit fl db)
    from assms(1) step_commit(2) have b: "rows_ok (dv_db dv)" "batch_ok (jf_batch fl)"
      by (simp_all add: device_ok_def flight_ok_def Let_def)
    have "stored_rows (dv_db dv') sid = stored_rows (dv_db dv) sid @ appended (jf_batch fl) sid"
      using commit_Inr(2) [OF step_commit(3) b, of sid] held_flight(1) [OF assms(1) held step_commit(2)] step_commit(1) by simp
    then have "appended (jf_batch fl) sid @ waiting_events dv' sid = waiting_events dv sid" using log(1) by (simp add: device_log_def)
    with step_commit assms(6) done' show ?thesis by (cases ph) (auto simp: covered_def)
  next
    case (step_settle fl)
    with assms(6) done' log(2) show ?thesis by (cases ph) (auto simp: covered_def)
  next
    case (step_fail fl)
    with assms(6) done' show ?thesis by (cases ph) (auto simp: covered_def)
  qed
qed

lemma nothing_waits:
  assumes "device_ok nb dv" and "nothing_to_save dv"
  shows "waiting_events dv sid = []"
proof -
  from assms have none: "dv_flight dv = None" "rg_dirty (dv_registry dv) = []"
    by (auto simp: nothing_to_save_def take_batch_def split: if_splits)
  with assms(1) have "registry_ok nb (stored_rows (dv_db dv)) (\<lambda>_. []) {} {} (dv_registry dv)" by (simp add: device_ok_def)
  from pending_is_dirty(1) [OF this, of sid] none show ?thesis by (auto simp: waiting_events_def)
qed

text \<open>A session that is gone does not come back while the process runs.\<close>

lemma meanwhile_dropped:
  assumes "meanwhile env sid dv dv'" and "device_ok nb dv" and "dropped dv sid"
  shows "dropped dv' sid"
proof -
  from meanwhile_spared [OF assms(2,1)] assms(3) show ?thesis by (auto simp: spared_def dropped_def undisturbed_def)
qed

lemma stage_ok_other:
  assumes "noble_ok (de_noble env)" and "op_journal (de_options env)" and "reachable_device env dv" and "meanwhile env sid dv dv'"
    and "stage_ok env dv sid stage ph"
  shows "stage_ok env dv' sid stage (save_progress (dv_flight dv) (dv_flight dv') ph)"
proof -
  note step = meanwhile_process [OF assms(4)]
  have ok: "device_ok (de_noble env) dv" "device_ok (de_noble env) dv'"
    using reachable_device_ok [OF assms(1,2)] assms(3) reachable_step [OF assms(3) step_process [OF step]] by blast+
  note sp = meanwhile_spared [OF ok(1) assms(4)]
  have gone: "\<not> dropped dv sid \<or> dropped dv' sid" using meanwhile_dropped [OF assms(4) ok(1)] by blast
  note frozen = frozen_in_other [OF ok(1) step ok(2) sp gone]
  have states: "in_state (dv_registry dv) sid Uploading" "in_state (dv_registry dv') sid Uploading"
    if "frozen_in env dv sid Uploading d" "\<not> dropped dv' sid" for d
  proof -
    have "undisturbed sid (dv_registry dv) (dv_registry dv')" using sp that(2) by (auto simp: spared_def dropped_def)
    with that gone undisturbed_state show "in_state (dv_registry dv) sid Uploading" "in_state (dv_registry dv') sid Uploading"
      by (auto simp: frozen_in_def)
  qed
  have cov: "dropped dv' sid \<or> covered dv' sid (save_progress (dv_flight dv) (dv_flight dv') ph)"
    if "frozen_in env dv sid Uploading d" "dropped dv sid \<or> covered dv sid ph" for d
    using covered_other [OF ok(1) step ok(2)] states [OF that(1)] that(2) gone by blast
  have saved: "dropped dv' sid \<or> waiting_events dv' sid = []"
    if "frozen_in env dv sid Uploading d" "dropped dv sid \<or> waiting_events dv sid = []" for d
    using frozen_log(2) [OF ok(1) step _ _ _ _ _ ok(2), of sid Uploading Uploading] states [OF that(1)] that(2) gone by auto
  have outcome: "has_outcome dv' sid x" if "has_outcome dv sid x" for x
    using that sp gone by (auto simp: has_outcome_def spared_def undisturbed_def dropped_def)
  show ?thesis
    using assms(5) frozen cov saved outcome spared_settled [OF sp]
    by (cases "(env, dv, sid, stage, ph)" rule: stage_ok.cases) auto
qed

lemma stage_ok_reply:
  assumes "noble_ok (de_noble env)" and "op_journal (de_options env)" and "reachable_device env dv" and "fits_save ph reply"
    and "stage_ok env dv sid stage ph" and "sign_continues env say sid tick (dv_registry dv) stage reply = Some (rg, stage')"
  shows "stage_ok env (dv\<lparr>dv_registry := rg\<rparr>) sid stage' SaveAsked \<and> reachable_device env (dv\<lparr>dv_registry := rg\<rparr>)"
proof -
  have failed: "stage_ok env (dv'\<lparr>dv_registry := rg\<rparr>) sid stage' SaveAsked \<and> reachable_device env (dv'\<lparr>dv_registry := rg\<rparr>)"
    if "sign_failed (dv_registry dv') sid reason rejected = (rg, stage')" "reachable_device env dv'" for dv' reason rejected
    using that sign_failed_settled [of "dv_registry dv'" sid reason rejected] sign_failed_reachable [OF that(2), of sid reason rejected] by simp
  have self: "dv\<lparr>dv_registry := dv_registry dv\<rparr> = dv" by simp
  show ?thesis
    using assms(6)
  proof (cases "(env, say, sid, tick, dv_registry dv, stage, reply)" rule: sign_continues.cases)
    case (1 env' say' sid' tick' rg' binding)
    with assms(6) have "runSignUpload env say (dv_registry dv) sid binding tick = (rg, stage')" by simp
    with runSignUpload_ok [OF assms(1-3) this] runSignUpload_reachable [OF assms(3), of say sid binding tick] show ?thesis by simp
  next
    case (5 env' say' sid' tick' rg' d)
    then have d: "frozen_in env dv sid Signing d" using assms(5) by simp
    note reach = call_reachable [OF assms(3), of "CallUploading sid", simplified]
    show ?thesis
    proof (cases "dropped dv sid")
      case True
      then have "markUploading (dv_registry dv) sid = (dv_registry dv, Inl (UnknownSession sid))"
        by (simp add: dropped_def markUploading_def requireInState_def require_session_def and_with_def)
      with 5 assms(6) have "sign_failed (dv_registry dv) sid (say (UnknownSession sid)) None = (rg, stage')" by simp
      from failed [OF this assms(3)] show ?thesis by simp
    next
      case False
      with d markUploading_signing obtain rg1 where
        m: "markUploading (dv_registry dv) sid = (rg1, Inr ())" "in_state rg1 sid Uploading" "pending_events rg1 = pending_events (dv_registry dv)"
        by (auto simp: frozen_in_def)
      with 5 assms(6) have "rg = rg1" "stage' = FreezeSaving d (getObservationEnvelope (de_options env) (dv_registry dv) sid)" by simp_all
      with m d False log_of_pending [of rg1 sid dv] reach show ?thesis
        by (simp add: signed_ok_def frozen_in_def covered_def)
    qed
  next
    case (8 env' say' sid' tick' rg' d envelope response)
    then have d: "frozen_in env dv sid Uploading d" using assms(5) by simp
    note reach = call_reachable [OF assms(3), of "CallUploaded sid response (tk_now tick)", simplified]
    show ?thesis
    proof (cases "dropped dv sid")
      case True
      then have "markUploaded (dv_registry dv) sid response (tk_now tick) = (dv_registry dv, Inl (UnknownSession sid))"
        by (simp add: dropped_def markUploaded_def requireInState_def require_session_def and_with_def)
      with 8 assms(6) have "sign_failed (dv_registry dv) sid (say (UnknownSession sid)) None = (rg, stage')" by simp
      from failed [OF this assms(3)] show ?thesis by simp
    next
      case False
      then obtain s where s: "find_session (dv_registry dv) sid = Some s" "se_state s = Uploading"
        using d by (auto simp: frozen_in_def in_state_def)
      from markUploaded_uploading [OF s, of response "tk_now tick"] obtain rg1 where
        m: "markUploaded (dv_registry dv) sid response (tk_now tick) = (rg1, Inr ())"
          "find_session rg1 sid = Some (s\<lparr>se_state := Uploaded, se_response := Some response, se_last_edit := tk_now tick\<rparr>)" by blast
      with 8 assms(6) have "rg = rg1" "stage' = LinkSaving response (se_binding s) (so_state (se_obs s) = StateDiverged)"
        by (simp_all add: persistUploadedResult_def)
      with m reach show ?thesis by (simp add: outcome_def has_outcome_def)
    qed
  qed (use assms(3-6) failed [OF _ assms(3)] self in \<open>auto simp: covered_def\<close>)
qed

lemma sign_run_ok:
  assumes "noble_ok (de_noble env)" and "op_journal (de_options env)" and "sign_run env say sid dv stage ph"
  shows "stage_ok env dv sid stage ph \<and> reachable_device env dv"
  using assms(3)
proof induction
  case (run_request dv binding tick rg stage)
  show ?case
  proof (cases "\<exists>s \<in> set_option (find_session (dv_registry dv) sid). se_gap s")
    case True
    note gap = call_reachable [OF run_request(1), of "CallUnrecorded sid (tk_now tick) (tk_trigger tick) (tk_fresh tick)", simplified]
    from run_request(2) True obtain x where
      x: "recordUnrecordedChange (de_noble env) (de_options env) (dv_registry dv) sid (tk_now tick) (tk_trigger tick) (tk_fresh tick) = (rg, x)"
        "stage = (case x of Inl e \<Rightarrow> SignThrew (say e) | Inr _ \<Rightarrow> GapSaving binding)"
      by (auto simp: handleSign_def split: prod.splits sum.splits)
    with gap show ?thesis by (auto split: sum.split)
  next
    case False
    then have "runSignUpload env say (dv_registry dv) sid binding tick = (rg, stage)" using run_request(2) by (simp add: handleSign_def)
    with runSignUpload_ok [OF assms(1,2) run_request(1) this] runSignUpload_reachable [OF run_request(1), of say sid binding tick]
    show ?thesis by simp
  qed
next
  case (run_retry dv tick rg stage)
  have self: "dv\<lparr>dv_registry := dv_registry dv\<rparr> = dv" by simp
  show ?case
  proof (cases "\<exists>s. find_session (dv_registry dv) sid = Some s \<and> se_state s = FailedUpload")
    case True
    then obtain s where "find_session (dv_registry dv) sid = Some s" "se_state s = FailedUpload" by blast
    with run_retry(2) have "runSignUpload env say (dv_registry dv) sid (se_binding s) tick = (rg, stage)" by (simp add: handleRetry_def)
    with runSignUpload_ok [OF assms(1,2) run_retry(1) this] runSignUpload_reachable [OF run_retry(1), of say sid "se_binding s" tick]
    show ?thesis by simp
  next
    case False
    with run_retry(2) have "rg = dv_registry dv"
      "stage = SignDone (SignFailed not_failed_reason) \<or> (\<exists>s r o'. find_session (dv_registry dv) sid = Some s
         \<and> stage = LinkSaving r (se_binding s) o' \<and> outcome s = (Uploaded, Some r, se_binding s))"
      by (auto simp: handleRetry_def persistUploadedResult_def outcome_def split: option.splits if_splits)
    then show ?thesis using run_retry(1) self by (auto simp: has_outcome_def)
  qed
next
  case (run_meanwhile dv stage ph dv')
  then show ?case using stage_ok_other [OF assms(1,2)] reachable_step step_process meanwhile_process by blast
next
  case (run_unneeded dv stage)
  have "device_ok (de_noble env) dv" using reachable_device_ok [OF assms(1,2)] run_unneeded by blast
  then have "waiting_events dv sid = []" by (rule nothing_waits [OF _ run_unneeded(2)])
  with run_unneeded(3) show ?case
    by (cases "(env, dv, sid, stage, SaveDone)" rule: stage_ok.cases) (auto simp: covered_def)
next
  case (run_reply dv stage ph reply tick rg stage')
  then show ?case using stage_ok_reply [OF assms(1,2)] by blast
qed

section \<open>What a request does\<close>

text \<open>Each reply that a request awaits brings it nearer to its end.\<close>

lemma sign_failed_left: "replies_left (snd (sign_failed rg sid reason rejected)) = 1"
  by (simp add: sign_failed_settled(2))

lemma runSignUpload_left: "replies_left (snd (runSignUpload env say rg sid binding tick)) \<le> 5"
  by (auto simp: runSignUpload_def sign_failed_left split: prod.split sum.split)

lemma reply_progress:
  assumes "sign_continues env say sid tick rg stage reply = Some (rg', stage')"
  shows "replies_left stage' < replies_left stage"
proof -
  have failed: "sign_failed rg1 sid1 reason rejected = (rg', stage') \<Longrightarrow> replies_left stage' = 1" for rg1 sid1 reason rejected
    using sign_failed_left [of rg1 sid1 reason rejected] by simp
  show ?thesis
  proof (cases "(env, say, sid, tick, rg, stage, reply)" rule: sign_continues.cases)
    case (1 env' say' sid' tick' rg0 binding)
    then show ?thesis using assms runSignUpload_left [of env say rg sid binding tick] by simp
  qed (use assms failed in \<open>fastforce simp: persistUploadedResult_def Let_def split: prod.splits sum.splits option.splits\<close>)+
qed

lemma reply_awaited: "replies_left stage \<noteq> 0 \<Longrightarrow> \<exists>reply. sign_continues env say sid tick rg stage reply \<noteq> None"
  by (cases stage) (auto intro: exI [of _ SavedOk] exI [of _ Flushed] exI [of _ "PostThrew [] None"])

text \<open>C5: A request to publish sends only what is saved, and leaves its session published or retryable. While a request
  of the extension awaits saves, checkpoints and the upload, the process goes on: edits, checkpoints and saves of all
  sessions, sweeps of expired sessions, discarded sessions, this one included, anything but a second request that
  signs or publishes the same session, which the worker refuses. However these and the awaited steps end: when the
  request uploads, the signed manifest is valid with a log of events, and unless the session has been dropped meanwhile,
  it is frozen and these are exactly its saved events; when it reports success, the session carries the reported response,
  unless it has been dropped; when it reports a failure, the session is not left in the middle of signing or
  uploading; and no request awaits more than six replies.\<close>

theorem sign_request_safe:
  assumes "noble_ok (de_noble env)" and "op_journal (de_options env)" and "sign_run env say sid dv stage ph"
  shows "(\<forall>d v. stage = UploadPosting d v \<longrightarrow>
       (\<exists>es res. verifyRecord (de_parses env) (de_noble env) \<lparr>wr_manifest = sd_manifest d, wr_events = es\<rparr> = Inr res \<and> vr_valid res
          \<and> (dropped dv sid \<or> in_state (dv_registry dv) sid Uploading \<and> es = stored_rows (dv_db dv) sid)))
     \<and> (\<forall>r b o' n. stage = SignDone (SignUploaded r b o' n) \<longrightarrow> dropped dv sid \<or>
          (\<exists>s. find_session (dv_registry dv) sid = Some s \<and> se_state s = Uploaded \<and> se_response s = Some r \<and> se_binding s = b))
     \<and> (\<forall>r. stage = SignDone (SignFailed r) \<longrightarrow> r = not_failed_reason \<or> settled (dv_registry dv) sid)
     \<and> replies_left stage \<le> 6"
proof -
  have ok: "stage_ok env dv sid stage ph" using sign_run_ok [OF assms] by simp
  have valid: "\<exists>res. verifyRecord (de_parses env) (de_noble env) w = Inr res \<and> vr_valid res" if "record_ok (de_parses env) (de_noble env) w" for w
    using that verifyRecord_spec [OF assms(1), of "de_parses env" w] by auto
  have posting: "\<exists>es res. verifyRecord (de_parses env) (de_noble env) \<lparr>wr_manifest = sd_manifest d, wr_events = es\<rparr> = Inr res \<and> vr_valid res
      \<and> (dropped dv sid \<or> in_state (dv_registry dv) sid Uploading \<and> es = stored_rows (dv_db dv) sid)"
    if "stage = UploadPosting d v" for d v
  proof -
    note posted = ok [unfolded that]
    show ?thesis
    proof (cases "dropped dv sid")
      case True
      obtain es where "record_ok (de_parses env) (de_noble env) \<lparr>wr_manifest = sd_manifest d, wr_events = es\<rparr>"
        using posted by (auto simp: frozen_in_def was_signed_def)
      with valid True show ?thesis by blast
    next
      case False
      with posted have "in_state (dv_registry dv) sid Uploading" "signed_ok env dv sid d" "waiting_events dv sid = []"
        by (simp_all add: frozen_in_def)
      moreover from this valid obtain res where
        "verifyRecord (de_parses env) (de_noble env) \<lparr>wr_manifest = sd_manifest d, wr_events = stored_rows (dv_db dv) sid\<rparr> = Inr res"
        "vr_valid res" by (fastforce simp: signed_ok_def device_log_def)
      ultimately show ?thesis by blast
    qed
  qed
  have "replies_left stage \<le> 6" by (cases stage) simp_all
  with ok posting show ?thesis by (auto simp: outcome_def has_outcome_def)
qed

section \<open>A request on the sample device\<close>

definition sample_tick :: call_tick where
  "sample_tick = \<lparr>tk_now = 30, tk_trigger = 30, tk_fresh = js ''u''\<rparr>"

text \<open>A whole save, and a reply.\<close>

definition whole_save :: "device \<Rightarrow> device" where
  "whole_save dv = (case take_batch (dv_registry dv) of
      (rg, None) \<Rightarrow> dv
    | (rg, Some fl) \<Rightarrow> (case commit_batch (dv_db dv) (jf_batch fl) of
          Inl _ \<Rightarrow> dv
        | Inr db \<Rightarrow> dv\<lparr>dv_db := db, dv_registry := batch_saved rg fl\<rparr>))"

definition one_reply :: "sign_reply \<Rightarrow> device \<times> sign_stage \<Rightarrow> device \<times> sign_stage" where
  "one_reply reply x = (case sign_continues sample_env (\<lambda>_. []) sample_session sample_tick (dv_registry (fst x)) (snd x) reply of
      None \<Rightarrow> x
    | Some (rg, stage) \<Rightarrow> ((fst x)\<lparr>dv_registry := rg\<rparr>, stage))"

definition sample_request :: "device \<times> sign_stage" where
  "sample_request = (case handleSign sample_env (\<lambda>_. []) (dv_registry sample_device) sample_session None sample_tick of
      (rg, stage) \<Rightarrow> (sample_device\<lparr>dv_registry := rg\<rparr>, stage))"

definition sample_saved :: "device \<times> sign_stage" where
  "sample_saved = map_prod whole_save (\<lambda>stage. stage) sample_request"

definition sample_posting :: "device \<times> sign_stage" where
  "sample_posting = one_reply SavedOk (map_prod whole_save (\<lambda>stage. stage) (one_reply Flushed (one_reply SavedOk sample_saved)))"

definition sample_run :: "save_phase \<Rightarrow> device \<times> sign_stage \<Rightarrow> bool" where
  "sample_run ph x \<longleftrightarrow> sign_run sample_env (\<lambda>_. []) sample_session (fst x) (snd x) ph \<and> dv_flight (fst x) = None"

definition saves_well :: "device \<Rightarrow> bool" where
  "saves_well dv = (case snd (take_batch (dv_registry dv)) of
      None \<Rightarrow> True
    | Some fl \<Rightarrow> (case commit_batch (dv_db dv) (jf_batch fl) of Inl _ \<Rightarrow> False | Inr _ \<Rightarrow> True))"

lemma sample_run_save:
  assumes "sample_run SaveAsked x" and "saves_well (fst x)"
  shows "sample_run SaveDone (map_prod whole_save (\<lambda>stage. stage) x)"
proof -
  obtain dv stage where x: "x = (dv, stage)" by fastforce
  obtain rg o' where take: "take_batch (dv_registry dv) = (rg, o')" by fastforce
  let ?run = "sign_run sample_env (\<lambda>_. []) sample_session"
  from assms(1) x have dv: "?run dv stage SaveAsked" "dv_flight dv = None" by (simp_all add: sample_run_def)
  show ?thesis
  proof (cases o')
    case None
    with run_unneeded [OF dv(1)] dv(2) take x show ?thesis by (simp add: whole_save_def sample_run_def nothing_to_save_def)
  next
    case (Some fl)
    with assms(2) take x obtain db where db: "commit_batch (dv_db dv) (jf_batch fl) = Inr db"
      by (auto simp: saves_well_def split: sum.splits)
    have "?run (dv\<lparr>dv_registry := rg, dv_flight := Some (fl, False)\<rparr>) stage SaveTaken"
      using run_meanwhile [OF dv(1) saving_meanwhile(1) [OF dv(2) take [unfolded Some]]] dv(2) by simp
    then have "?run (dv\<lparr>dv_registry := rg, dv_db := db, dv_flight := Some (fl, True)\<rparr>) stage SaveTaken"
      using run_meanwhile [OF _ saving_meanwhile(2) [of _ fl db]] db by force
    then have "?run (dv\<lparr>dv_db := db, dv_registry := batch_saved rg fl, dv_flight := None\<rparr>) stage SaveDone"
      using run_meanwhile [OF _ saving_meanwhile(3) [of _ fl]] by force
    moreover have "dv\<lparr>dv_db := db, dv_registry := batch_saved rg fl, dv_flight := None\<rparr> = dv\<lparr>dv_db := db, dv_registry := batch_saved rg fl\<rparr>"
      using dv(2) by simp
    ultimately show ?thesis using take Some db x dv(2) by (simp add: whole_save_def sample_run_def)
  qed
qed

lemma sample_run_reply:
  assumes "sample_run ph x" and "fits_save ph reply"
    and "sign_continues sample_env (\<lambda>_. []) sample_session sample_tick (dv_registry (fst x)) (snd x) reply \<noteq> None"
  shows "sample_run SaveAsked (one_reply reply x)"
  using assms run_reply [of sample_env "\<lambda>_. []" sample_session "fst x" "snd x" ph reply sample_tick]
  by (auto simp: sample_run_def one_reply_def)

lemma sample_posting_runs: "sample_run SaveAsked sample_posting"
proof -
  let ?takes = "\<lambda>x reply. sign_continues sample_env (\<lambda>_. []) sample_session sample_tick (dv_registry (fst x)) (snd x) reply \<noteq> None"
  let ?signed = "one_reply SavedOk sample_saved"
  let ?frozen = "map_prod whole_save (\<lambda>stage. stage) (one_reply Flushed ?signed)"
  have "sample_run SaveAsked sample_request"
    using run_request [OF sample_device_reachable, of "\<lambda>_. []" sample_session None sample_tick]
    by (auto simp: sample_run_def sample_request_def sample_device_def sample_call_def sample_open_def start_device_def split: prod.split)
  moreover have "saves_well (fst sample_request)" by code_simp
  ultimately have saved: "sample_run SaveDone sample_saved" unfolding sample_saved_def by (rule sample_run_save)
  have "?takes sample_saved SavedOk" "?takes ?signed Flushed" "?takes ?frozen SavedOk" by code_simp+
  note takes = this
  have "saves_well (fst (one_reply Flushed ?signed))" by code_simp
  with sample_run_reply [OF sample_run_reply [OF saved _ takes(1)] _ takes(2)] have "sample_run SaveDone ?frozen"
    by (simp add: sample_run_save)
  from sample_run_reply [OF this _ takes(3)] show ?thesis by (simp add: sample_posting_def)
qed

lemma sign_request_safe_witness:
  "\<exists>d v res. snd sample_posting = UploadPosting d v \<and>
     verifyRecord (\<lambda>_. True) sample_noble \<lparr>wr_manifest = sd_manifest d, wr_events = stored_rows (dv_db (fst sample_posting)) sample_session\<rparr> = Inr res
     \<and> vr_valid res"
proof -
  have "case snd sample_posting of UploadPosting d v \<Rightarrow> True | _ \<Rightarrow> False" by code_simp
  then obtain d v where d: "snd sample_posting = UploadPosting d v" by (auto split: sign_stage.splits)
  have "\<not> dropped (fst sample_posting) sample_session" by code_simp
  with sign_request_safe [of sample_env "\<lambda>_. []" sample_session "fst sample_posting" "snd sample_posting" SaveAsked]
    sample_posting_runs sample_noble_ok d show ?thesis by (auto simp: sample_run_def)
qed

lemma acknowledged_edit_recorded_witness:
  "\<exists>rg' e. handleAppend sample_noble journal_options (dv_registry sample_device) sample_session sample_pending None sample_tick
      = (rg', Appended None) \<and> pending_events rg' sample_session = pending_events (dv_registry sample_device) sample_session @ [e]"
proof -
  let ?x = "handleAppend sample_noble journal_options (dv_registry sample_device) sample_session sample_pending None sample_tick"
  have "snd ?x = Appended None" by code_simp
  then have x: "?x = (fst ?x, Appended None)" by (metis prod.collapse)
  from acknowledged_edit_recorded [OF _ x] obtain e where
    "pending_events (fst ?x) sample_session = pending_events (dv_registry sample_device) sample_session @ [e]" by fastforce
  with x show ?thesis by blast
qed

text \<open>The field of the sample session asks again.\<close>

definition sample_message :: register_message where
  "sample_message = \<lparr>rm_origin = sample_origin, rm_descriptor = sample_field, rm_field_is_empty = False, rm_started_at = None,
     rm_activation = None, rm_share = None, rm_resume = None, rm_continue = None\<rparr>"

lemma registration_keeps_site_witness:
  "\<exists>rg' c. handleRegister journal_options (dv_registry sample_device) sample_message sample_tick = (rg', Registered sample_session c)
     \<and> registered_at (dv_registry sample_device) rg' sample_origin sample_session"
proof -
  let ?x = "handleRegister journal_options (dv_registry sample_device) sample_message sample_tick"
  have "snd ?x = Registered sample_session Resumed" by code_simp
  then have x: "?x = (fst ?x, Registered sample_session Resumed)" by (metis prod.collapse)
  have "find_session (dv_registry sample_device) (tk_fresh sample_tick) = None \<and> tk_fresh sample_tick \<noteq> sample_session
     \<and> rg_deleted (dv_registry sample_device) = [] \<and> map_of (jd_sessions (dv_db sample_device)) (tk_fresh sample_tick) = None" by code_simp
  moreover have "dv_used sample_device = {sample_session}" "dv_flight sample_device = None" "dv_db sample_device = empty_db"
    by (simp_all add: sample_device_def sample_call_def sample_open_def start_device_def sample_typing_def)
  ultimately have "never_used sample_device (tk_fresh sample_tick)"
    by (simp add: never_used_def stored_rows_def empty_db_def)
  with registration_keeps_site [OF _ _ sample_device_reachable] x sample_noble_ok
  show ?thesis by (metis (no_types, lifting) sample_env_fields register_message.select_convs(1) sample_message_def)
qed

end
