(* ===== verification/Rich_Index.thy ===== *)
theory Rich_Index
  imports Measured_Input
begin

text \<open>
  The index of a formatted editor (\<open>apps/browser-extension/src/lib/richtext-index.ts\<close>): for every node of the editor's
  document an entry with a numeric weight, the entries of the children of a node in a treap whose nodes carry the
  combined weight of their subtrees. It is kept up to date from the records of the browser's mutation observer.
  An entry's parent pointers are the path to it; entries that left the editor are not kept, as the code only
  looks at them to see that they are not attached.
\<close>

section \<open>Weights\<close>

record weight =
  wt_length :: int
  wt_pending :: bool
  wt_visible :: bool
  wt_semantic :: bool
  wt_firstBlock :: bool
  wt_lastBlock :: bool
  wt_unsupported :: bool

definition empty_weight :: weight where
  "empty_weight = \<lparr>wt_length = 0, wt_pending = False, wt_visible = False, wt_semantic = False, wt_firstBlock = False,
     wt_lastBlock = False, wt_unsupported = False\<rparr>"

definition combine :: "weight \<Rightarrow> weight \<Rightarrow> weight" where
  "combine a b = \<lparr>
     wt_length = wt_length a + wt_length b + (if wt_pending a \<and> wt_visible b then 1 else 0)
       + (if wt_semantic a \<and> wt_semantic b \<and> (wt_lastBlock a \<or> wt_firstBlock b) then 1 else 0),
     wt_pending = (if wt_visible b then wt_pending b else wt_pending a),
     wt_visible = (wt_visible a \<or> wt_visible b),
     wt_semantic = (wt_semantic a \<or> wt_semantic b),
     wt_firstBlock = (if wt_semantic a then wt_firstBlock a else wt_firstBlock b),
     wt_lastBlock = (if wt_semantic b then wt_lastBlock b else wt_lastBlock a),
     wt_unsupported = (wt_unsupported a \<or> wt_unsupported b)\<rparr>"

section \<open>Entries and the treap of children\<close>

datatype node_tag = TextTag | CommentTag | OtherTag | ElementTag jsstring

datatype entry =
    Entry (en_nid: nat) (en_tag: node_tag) (en_text: "numeric_index option") (en_weight: weight) (en_children: links)
and links =
    NoLink
  | Link (lk_entry: entry) (lk_size: nat) (lk_priority: "32 word") (lk_weight: weight) (lk_left: links) (lk_right: links)

fun links_size :: "links \<Rightarrow> nat" where
  "links_size NoLink = 0"
| "links_size (Link e n p w l r) = n"

fun links_weight :: "links \<Rightarrow> weight" where
  "links_weight NoLink = empty_weight"
| "links_weight (Link e n p w l r) = w"

fun update_link :: "links \<Rightarrow> links" where
  "update_link NoLink = NoLink"
| "update_link (Link e n p w l r) = Link e (1 + links_size l + links_size r) p
     (combine (combine (links_weight l) (en_weight e)) (links_weight r)) l r"

fun merge_links :: "links \<Rightarrow> links \<Rightarrow> links" where
  "merge_links NoLink b = b"
| "merge_links a NoLink = a"
| "merge_links (Link e n p w l r) (Link e' n' p' w' l' r') =
     (if p < p' then update_link (Link e n p w l (merge_links r (Link e' n' p' w' l' r')))
      else update_link (Link e' n' p' w' (merge_links (Link e n p w l r) l') r'))"

fun split_links :: "links \<Rightarrow> nat \<Rightarrow> links \<times> links" where
  "split_links NoLink wanted = (NoLink, NoLink)"
| "split_links (Link e n p w l r) wanted =
     (if wanted \<le> links_size l
      then (case split_links l wanted of (a, b) \<Rightarrow> (a, update_link (Link e n p w b r)))
      else (case split_links r (wanted - links_size l - 1) of (a, b) \<Rightarrow> (update_link (Link e n p w l a), b)))"

fun prefix_weight :: "links \<Rightarrow> nat \<Rightarrow> weight" where
  "prefix_weight NoLink wanted = empty_weight"
| "prefix_weight (Link e n p w l r) wanted =
     (if wanted = 0 then empty_weight
      else if wanted \<ge> n then w
      else if wanted \<le> links_size l then prefix_weight l wanted
      else combine (combine (links_weight l) (en_weight e)) (prefix_weight r (wanted - links_size l - 1)))"

fun suffix_weight :: "links \<Rightarrow> nat \<Rightarrow> weight \<times> weight" where
  "suffix_weight NoLink start = (empty_weight, empty_weight)"
| "suffix_weight (Link e n p w l r) start =
     (if start \<le> links_size l
      then (case suffix_weight l start of (a, b) \<Rightarrow> (a, combine (combine b (en_weight e)) (links_weight r)))
      else (case suffix_weight r (start - links_size l - 1) of (a, b) \<Rightarrow> (combine (combine (links_weight l) (en_weight e)) a, b)))"

text \<open>The entries of a treap in order, and the link at a rank, changed with the links above it.\<close>

fun entries :: "links \<Rightarrow> entry list" where
  "entries NoLink = []"
| "entries (Link e n p w l r) = entries l @ e # entries r"

fun change_nth :: "links \<Rightarrow> nat \<Rightarrow> (entry \<Rightarrow> entry) \<Rightarrow> links" where
  "change_nth NoLink i f = NoLink"
| "change_nth (Link e n p w l r) i f = update_link
     (if i < links_size l then Link e n p w (change_nth l i f) r
      else if i = links_size l then Link (f e) n p w l r
      else Link e n p w l (change_nth r (i - links_size l - 1) f))"

text \<open>The ranks of the entries on the path to a node, from the root down.\<close>

fun address :: "nat \<Rightarrow> entry \<Rightarrow> nat list option"
  and address_in :: "nat \<Rightarrow> nat \<Rightarrow> links \<Rightarrow> nat list option" where
  "address k (Entry n t x w cs) = (if k = n then Some [] else address_in k 0 cs)"
| "address_in k base NoLink = None"
| "address_in k base (Link e n p w l r) =
     (case address_in k base l of
        Some a \<Rightarrow> Some a
      | None \<Rightarrow> (case address k e of
          Some a \<Rightarrow> Some ((base + links_size l) # a)
        | None \<Rightarrow> address_in k (base + links_size l + 1) r))"

section \<open>The document\<close>

text \<open>
  Nodes are known by numbers. Of an element the code reads its name and two attributes: \<open>contenteditable\<close>, when
  it is \<open>false\<close>, and \<open>hidden\<close>. The live document is the tree of the editor, first, and the trees that are detached.
\<close>

datatype dom =
    DText nat jsstring
  | DComment nat
  | DOther nat
  | DElement nat jsstring bool bool "dom list"

fun dom_id :: "dom \<Rightarrow> nat" where
  "dom_id (DText n s) = n"
| "dom_id (DComment n) = n"
| "dom_id (DOther n) = n"
| "dom_id (DElement n tag locked hid kids) = n"

fun dom_find :: "nat \<Rightarrow> dom \<Rightarrow> dom option"
  and dom_find_in :: "nat \<Rightarrow> dom list \<Rightarrow> dom option" where
  "dom_find k (DText n s) = (if k = n then Some (DText n s) else None)"
| "dom_find k (DComment n) = (if k = n then Some (DComment n) else None)"
| "dom_find k (DOther n) = (if k = n then Some (DOther n) else None)"
| "dom_find k (DElement n tag locked hid kids) =
     (if k = n then Some (DElement n tag locked hid kids) else dom_find_in k kids)"
| "dom_find_in k [] = None"
| "dom_find_in k (d # ds) = (case dom_find k d of Some x \<Rightarrow> Some x | None \<Rightarrow> dom_find_in k ds)"

fun dom_kids :: "dom \<Rightarrow> dom list" where
  "dom_kids (DElement n tag locked hid kids) = kids"
| "dom_kids d = []"

fun dom_text :: "dom \<Rightarrow> jsstring" where
  "dom_text (DText n s) = s"
| "dom_text d = []"

fun dom_blocked :: "dom \<Rightarrow> bool" where
  "dom_blocked (DElement n tag locked hid kids) \<longleftrightarrow> locked \<or> hid"
| "dom_blocked d \<longleftrightarrow> False"

definition is_child :: "dom list \<Rightarrow> nat \<Rightarrow> nat \<Rightarrow> bool" where
  "is_child live node target \<longleftrightarrow> (\<exists>d \<in> set_option (dom_find_in target live). node \<in> set (List.map dom_id (dom_kids d)))"

definition blocked_now :: "dom list \<Rightarrow> nat \<Rightarrow> bool" where
  "blocked_now live n \<longleftrightarrow> (\<exists>d \<in> set_option (dom_find_in n live). dom_blocked d)"

definition text_now :: "dom list \<Rightarrow> nat \<Rightarrow> jsstring" where
  "text_now live n = (case dom_find_in n live of None \<Rightarrow> [] | Some d \<Rightarrow> dom_text d)"

definition br_tag :: jsstring where "br_tag = js ''BR''"

definition block_tag :: "jsstring \<Rightarrow> bool" where
  "block_tag tag \<longleftrightarrow> tag \<in> set (List.map js [''DIV'', ''P'', ''LI'', ''UL'', ''OL'', ''BLOCKQUOTE'', ''PRE'', ''H1'', ''H2'',
     ''H3'', ''H4'', ''H5'', ''H6''])"

definition unsupported_tag :: "jsstring \<Rightarrow> bool" where
  "unsupported_tag tag \<longleftrightarrow> tag \<in> set (List.map js [''IMG'', ''VIDEO'', ''AUDIO'', ''IFRAME'', ''CANVAS'', ''SVG'', ''MATH'', ''TABLE'',
     ''INPUT'', ''TEXTAREA'', ''HR'', ''SCRIPT'', ''STYLE''])"

section \<open>The weight of an entry\<close>

text \<open>
  \<open>is_root\<close>: the entry is the root that the index holds, which it does not yet while it is built; \<open>outer\<close>: it has no parent.
\<close>

fun own_weight :: "bool \<Rightarrow> bool \<Rightarrow> node_tag \<Rightarrow> bool \<Rightarrow> numeric_index option \<Rightarrow> links \<Rightarrow> weight" where
  "own_weight is_root outer tag blocked (Some ix) cs =
     empty_weight\<lparr>wt_length := index_length ix, wt_semantic := True, wt_visible := ni_utf16Length ix > 0\<rparr>"
| "own_weight is_root outer (ElementTag tag) blocked None cs =
     (links_weight cs)\<lparr>wt_semantic := True, wt_visible := True, wt_firstBlock := block_tag tag, wt_lastBlock := block_tag tag,
        wt_pending := (if tag = br_tag then True else if is_root \<or> block_tag tag then False else wt_pending (links_weight cs)),
        wt_unsupported := (wt_unsupported (links_weight cs) \<or> (\<not> outer \<and> (unsupported_tag tag \<or> blocked)))\<rparr>"
| "own_weight is_root outer CommentTag blocked None cs = empty_weight"
| "own_weight is_root outer tag blocked None cs = empty_weight\<lparr>wt_unsupported := True\<rparr>"

fun reweigh :: "dom list \<Rightarrow> bool \<Rightarrow> entry \<Rightarrow> entry" where
  "reweigh live outer (Entry n t x w cs) = Entry n t x (own_weight outer outer t (blocked_now live n) x cs) cs"

text \<open>Changing an entry and refreshing the weights from it up to the root.\<close>

fun refresh_at :: "dom list \<Rightarrow> bool \<Rightarrow> nat list \<Rightarrow> (entry \<Rightarrow> entry) \<Rightarrow> entry \<Rightarrow> entry" where
  "refresh_at live outer [] f e = reweigh live outer (f e)"
| "refresh_at live outer (i # path) f (Entry n t x w cs) =
     reweigh live outer (Entry n t x w (change_nth cs i (refresh_at live False path f)))"

section \<open>Building and changing the tree\<close>

fun build_entry :: "bool \<Rightarrow> dom \<Rightarrow> 32 word \<Rightarrow> entry \<times> 32 word"
  and build_children :: "dom list \<Rightarrow> links \<Rightarrow> 32 word \<Rightarrow> links \<times> 32 word" where
  "build_entry outer (DText n s) seed =
     (Entry n TextTag (Some (new_index s)) (own_weight False outer TextTag False (Some (new_index s)) NoLink) NoLink, seed)"
| "build_entry outer (DComment n) seed = (Entry n CommentTag None (own_weight False outer CommentTag False None NoLink) NoLink, seed)"
| "build_entry outer (DOther n) seed = (Entry n OtherTag None (own_weight False outer OtherTag False None NoLink) NoLink, seed)"
| "build_entry outer (DElement n tag locked hid kids) seed =
     (case (if tag = br_tag then (NoLink, seed) else build_children kids NoLink seed) of (cs, seed') \<Rightarrow>
        (Entry n (ElementTag tag) None (own_weight False outer (ElementTag tag) (locked \<or> hid) None cs) cs, seed'))"
| "build_children [] cs seed = (cs, seed)"
| "build_children (d # ds) cs seed =
     (case build_entry False d seed of (e, seed1) \<Rightarrow>
        (let seed2 = next_seed seed1 in build_children ds (merge_links cs (Link e 1 seed2 (en_weight e) NoLink NoLink)) seed2))"

text \<open>The nodes that get an entry when a node is built.\<close>

fun built_ids :: "dom \<Rightarrow> nat list" where
  "built_ids (DElement n tag locked hid kids) = n # (if tag = br_tag then [] else concat (List.map built_ids kids))"
| "built_ids d = [dom_id d]"

definition cut_link :: "nat \<Rightarrow> links \<Rightarrow> links" where
  "cut_link i cs = (case split_links cs i of (l, rest) \<Rightarrow> merge_links l (snd (split_links rest 1)))"

definition put_link :: "nat \<Rightarrow> links \<Rightarrow> links \<Rightarrow> links" where
  "put_link i new cs = (case split_links cs i of (l, r) \<Rightarrow> merge_links (merge_links l new) r)"

fun on_children :: "(links \<Rightarrow> links) \<Rightarrow> entry \<Rightarrow> entry" where
  "on_children f (Entry n t x w cs) = Entry n t x w (f cs)"

definition detach :: "dom list \<Rightarrow> entry \<Rightarrow> nat \<Rightarrow> entry" where
  "detach live root k = (case address k root of
      None \<Rightarrow> root
    | Some a \<Rightarrow> if a = [] then root else refresh_at live True (butlast a) (on_children (cut_link (last a))) root)"

definition child_rank :: "entry \<Rightarrow> nat \<Rightarrow> nat \<Rightarrow> nat option" where
  "child_rank root target k = (case (address target root, address k root) of
      (Some ta, Some a) \<Rightarrow> if a \<noteq> [] \<and> butlast a = ta then Some (last a) else None
    | _ \<Rightarrow> None)"

section \<open>Mutation records\<close>

record rich_pending =
  rp_nid :: nat
  rp_intent :: text_intent
  rp_composition :: bool

record rich_index =
  rx_root :: entry
  rx_seed :: "32 word"
  rx_known :: "nat list"
  rx_pending :: "rich_pending option"

datatype mutation_record =
    CharacterData nat
  | Attributes nat
  | ChildList nat "nat list" "nat list" "nat option"

definition new_rich_index :: "dom \<Rightarrow> rich_index" where
  "new_rich_index d = (case build_entry True d 0x12345678 of (e, seed) \<Rightarrow>
     \<lparr>rx_root = e, rx_seed = seed, rx_known = built_ids d, rx_pending = None\<rparr>)"

definition remove_node :: "dom list \<Rightarrow> nat \<Rightarrow> entry \<Rightarrow> nat \<Rightarrow> entry" where
  "remove_node live target root k = (if child_rank root target k = None then root else detach live root k)"

text \<open>Adding one node: the index, the place for the next one, and the texts still to be looked at.\<close>

definition add_node :: "dom list \<Rightarrow> nat \<Rightarrow> rich_index \<times> nat \<times> nat list \<Rightarrow> nat \<Rightarrow> rich_index \<times> nat \<times> nat list" where
  "add_node live target acc node = (case acc of (rx, insertion, texts) \<Rightarrow>
     if \<not> is_child live node target then acc
     else case dom_find_in node live of
       None \<Rightarrow> acc
     | Some d \<Rightarrow>
        (let ids = built_ids d;
             root = foldl (detach live) (rx_root rx) ids;
             built = build_entry False d (rx_seed rx);
             seed = next_seed (snd built);
             link = Link (fst built) 1 seed (en_weight (fst built)) NoLink NoLink;
             root' = (case address target root of
                 None \<Rightarrow> root
               | Some ta \<Rightarrow> refresh_at live True ta (on_children (put_link insertion link)) root)
         in (rx\<lparr>rx_root := root', rx_seed := seed, rx_known := ids @ rx_known rx\<rparr>, insertion + 1,
             filter (\<lambda>n. n \<notin> set ids) texts)))"

definition handle_record :: "dom list \<Rightarrow> rich_index \<times> nat list \<Rightarrow> mutation_record \<Rightarrow> rich_index \<times> nat list" where
  "handle_record live acc r = (case acc of (rx, texts) \<Rightarrow> case r of
       CharacterData k \<Rightarrow> (rx, if k \<in> set (rx_known rx) \<and> k \<notin> set texts then texts @ [k] else texts)
     | Attributes k \<Rightarrow> (case address k (rx_root rx) of
           None \<Rightarrow> (rx, texts)
         | Some a \<Rightarrow> (rx\<lparr>rx_root := refresh_at live True a (\<lambda>e. e) (rx_root rx)\<rparr>, texts))
     | ChildList target removed added prev \<Rightarrow>
        if target \<notin> set (rx_known rx) then (rx, texts)
        else (let rx1 = rx\<lparr>rx_pending := None\<rparr> in
          if address target (rx_root rx) = None then (rx1, texts)
          else (let rx2 = rx1\<lparr>rx_root := foldl (remove_node live target) (rx_root rx1) removed\<rparr>;
                    at = Option.bind prev (child_rank (rx_root rx2) target);
                    insertion = (case at of None \<Rightarrow> 0 | Some i \<Rightarrow> i + 1)
             in (case foldl (add_node live target) (rx2, insertion, texts) added of (rx3, i, texts') \<Rightarrow>
                   (rx3\<lparr>rx_root := (case address target (rx_root rx3) of
                        None \<Rightarrow> rx_root rx3
                      | Some a \<Rightarrow> refresh_at live True a (\<lambda>e. e) (rx_root rx3))\<rparr>, texts')))))"

fun entry_at :: "entry \<Rightarrow> nat list \<Rightarrow> entry option" where
  "entry_at e [] = Some e"
| "entry_at (Entry n t x w cs) (i # path) = (if i < length (entries cs) then entry_at (entries cs ! i) path else None)"

fun set_text :: "numeric_index \<Rightarrow> entry \<Rightarrow> entry" where
  "set_text ix (Entry n t x w cs) = Entry n t (Some ix) w cs"

text \<open>A text whose data changed; \<open>selection\<close> is the anchor of the selection.\<close>

definition handle_text :: "dom list \<Rightarrow> (nat \<times> nat) option \<Rightarrow> rich_index \<Rightarrow> nat \<Rightarrow> index_error + rich_index" where
  "handle_text live selection rx k =
     (case Option.bind (address k (rx_root rx)) (\<lambda>a. map_option (\<lambda>e. (a, e)) (entry_at (rx_root rx) a)) of
        None \<Rightarrow> Inr rx
      | Some (a, e) \<Rightarrow> (case en_text e of
          None \<Rightarrow> Inr rx
        | Some ix \<Rightarrow>
           (let caret = (case selection of Some (n, i) \<Rightarrow> if n = k then Some (int i) else None | None \<Rightarrow> None);
                pending = (case rx_pending rx of Some p \<Rightarrow> if rp_nid p = k then Some p else None | None \<Rightarrow> None)
            in andThen (applyNumericTextInput ix (text_now live k) caret (map_option rp_intent pending)) (\<lambda>ix'.
                 Inr (rx\<lparr>rx_root := refresh_at live True a (set_text ix') (rx_root rx),
                   rx_pending := (case pending of
                       None \<Rightarrow> rx_pending rx
                     | Some p \<Rightarrow> if rp_composition p \<and> caret \<noteq> None
                         then Some (p\<lparr>rp_intent := (rp_intent p)\<lparr>ti_length := ni_utf16Length ix', ti_end := caret\<rparr>\<rparr>)
                         else None)\<rparr>)))))"

definition process_records :: "dom list \<Rightarrow> (nat \<times> nat) option \<Rightarrow> mutation_record list \<Rightarrow> rich_index \<Rightarrow> index_error + rich_index" where
  "process_records live selection records rx =
     (case foldl (handle_record live) (rx, []) records of (rx', texts) \<Rightarrow> run_steps (handle_text live selection) rx' texts)"

section \<open>Reading the index\<close>

text \<open>The loop of \<open>offset\<close> from an entry up to the root: the offset so far, and whether a line break before it is withheld.\<close>

fun block_entry :: "entry \<Rightarrow> bool" where
  "block_entry (Entry n t x w cs) \<longleftrightarrow> (case t of ElementTag tag \<Rightarrow> block_tag tag | _ \<Rightarrow> False)"

definition start_offset :: "entry \<Rightarrow> nat \<Rightarrow> int \<times> bool" where
  "start_offset e index = (case en_text e of
      Some ix \<Rightarrow> (snd (index_offset ix (int index)), False)
    | None \<Rightarrow>
       (let pre = prefix_weight (en_children e) index; rest = snd (suffix_weight (en_children e) index);
            resolved = wt_pending pre \<and> wt_visible (prefix_weight (en_children e) (links_size (en_children e))) \<and> wt_visible rest
        in (wt_length pre + (if resolved then 1 else 0), wt_pending pre \<and> \<not> resolved \<and> \<not> block_entry e)))"

definition climb_step :: "entry \<Rightarrow> nat \<Rightarrow> entry \<Rightarrow> int \<times> bool \<Rightarrow> int \<times> bool" where
  "climb_step parent i e acc = (case acc of (offset, trailing) \<Rightarrow>
     (let pre = prefix_weight (en_children parent) i; after = snd (suffix_weight (en_children parent) (i + 1));
          offset1 = offset + wt_length pre + (if wt_pending pre \<and> wt_visible (en_weight e) then 1 else 0)
            + (if wt_semantic pre \<and> wt_semantic (en_weight e) \<and> (wt_lastBlock pre \<or> wt_firstBlock (en_weight e)) then 1 else 0);
          trailing1 = (trailing \<or> wt_pending pre \<and> \<not> wt_visible (en_weight e));
          resolved = (trailing1 \<and> wt_visible after)
      in (offset1 + (if resolved then 1 else 0), trailing1 \<and> \<not> resolved \<and> \<not> block_entry parent)))"

fun climb :: "entry \<Rightarrow> nat list \<Rightarrow> nat \<Rightarrow> int \<times> bool" where
  "climb e [] index = start_offset e index"
| "climb parent (i # path) index =
     (let e = entries (en_children parent) ! i in climb_step parent i e (climb e path index))"

definition rich_offset :: "entry \<Rightarrow> nat \<times> nat \<Rightarrow> int option" where
  "rich_offset root point = map_option (\<lambda>a. fst (climb root a (snd point))) (address (fst point) root)"

record rich_measurement =
  rm_length :: "int option"
  rm_start :: "int option"
  rm_end :: "int option"

type_synonym dom_range = "(nat \<times> nat) \<times> (nat \<times> nat)"

text \<open>Measuring and preparing, once the records are processed; \<open>selected\<close> is the only range of the selection.\<close>

definition rich_measure :: "rich_index \<Rightarrow> dom_range option \<Rightarrow> dom_range option \<Rightarrow> rich_measurement" where
  "rich_measure rx span selected =
     (if wt_unsupported (en_weight (rx_root rx)) then \<lparr>rm_length = None, rm_start = None, rm_end = None\<rparr>
      else (let sel = (case span of Some r \<Rightarrow> Some r | None \<Rightarrow> selected) in
        \<lparr>rm_length = Some (wt_length (en_weight (rx_root rx))),
         rm_start = Option.bind sel (\<lambda>r. rich_offset (rx_root rx) (fst r)),
         rm_end = Option.bind sel (\<lambda>r. rich_offset (rx_root rx) (snd r))\<rparr>))"

definition rich_prepare :: "rich_index \<Rightarrow> dom_range option \<Rightarrow> jsstring \<Rightarrow> int option \<Rightarrow> bool \<Rightarrow> rich_index" where
  "rich_prepare rx span inputType dataLength composition =
     (let rx1 = rx\<lparr>rx_pending := None\<rparr> in
      case span of
        None \<Rightarrow> rx1
      | Some ((sc, so), (ec, eo)) \<Rightarrow>
          if sc \<noteq> ec then rx1
          else case Option.bind (Option.bind (address sc (rx_root rx)) (entry_at (rx_root rx))) en_text of
            None \<Rightarrow> rx1
          | Some ix \<Rightarrow> rx1\<lparr>rx_pending := Some \<lparr>rp_nid = sc,
              rp_intent = \<lparr>ti_length = ni_utf16Length ix, ti_start = Some (int so), ti_end = Some (int eo),
                ti_inputType = inputType, ti_dataLength = dataLength\<rparr>,
              rp_composition = composition\<rparr>\<rparr>)"

end
