(* ===== verification/Rich_Text.thy ===== *)
theory Rich_Text
  imports Rich_Index
begin

text \<open>
  What the index of a formatted editor measures. A document is rendered by a left to right pass over its nodes, with
  a line break for each \<open>BR\<close> that something visible follows and one between block siblings; the index gives the
  number of rendered code points, and for a point of the document the number of those before it, after any changes
  of the document that it was told of one by one.
\<close>

section \<open>Weights form a monoid\<close>

definition fits :: "weight \<Rightarrow> bool" where
  "fits w \<longleftrightarrow> (wt_pending w \<longrightarrow> wt_visible w) \<and> (wt_firstBlock w \<or> wt_lastBlock w \<longrightarrow> wt_semantic w)"

lemma fits_empty [simp]: "fits empty_weight"
  by (simp add: fits_def empty_weight_def)

lemma fits_combine [simp]: "fits a \<Longrightarrow> fits b \<Longrightarrow> fits (combine a b)"
  by (auto simp: fits_def combine_def)

lemma combine_empty [simp]: "fits a \<Longrightarrow> combine a empty_weight = a" "fits a \<Longrightarrow> combine empty_weight a = a"
  by (auto simp: fits_def combine_def empty_weight_def)

lemma combine_assoc: "fits b \<Longrightarrow> combine (combine a b) c = combine a (combine b c)"
  by (auto simp: fits_def combine_def)

definition weigh_all :: "weight list \<Rightarrow> weight" where
  "weigh_all ws = foldr combine ws empty_weight"

lemma weigh_all_simps [simp]: "weigh_all [] = empty_weight" "weigh_all (w # ws) = combine w (weigh_all ws)"
  by (simp_all add: weigh_all_def)

lemma fits_weigh_all [simp]: "\<forall>w \<in> set ws. fits w \<Longrightarrow> fits (weigh_all ws)"
  by (induction ws) simp_all

lemma weigh_all_append: "\<forall>w \<in> set ws. fits w \<Longrightarrow> \<forall>w \<in> set vs. fits w \<Longrightarrow> weigh_all (ws @ vs) = combine (weigh_all ws) (weigh_all vs)"
  by (induction ws) (simp_all add: combine_assoc)

section \<open>The treap is a list of entries\<close>

fun links_ok :: "links \<Rightarrow> bool" where
  "links_ok NoLink \<longleftrightarrow> True"
| "links_ok (Link e n p w l r) \<longleftrightarrow> links_ok l \<and> links_ok r \<and> fits (en_weight e) \<and> n = 1 + links_size l + links_size r
     \<and> w = combine (combine (links_weight l) (en_weight e)) (links_weight r)"

lemma entries_fit: "links_ok cs \<Longrightarrow> \<forall>e \<in> set (entries cs). fits (en_weight e)"
  by (induction cs rule: entries.induct) auto

lemma some_entries_fit:
  "links_ok cs \<Longrightarrow> \<forall>w \<in> en_weight ` set (take k (entries cs)). fits w" "links_ok cs \<Longrightarrow> \<forall>w \<in> en_weight ` set (drop k (entries cs)). fits w"
  using entries_fit by (auto dest: in_set_takeD in_set_dropD)

lemma links_ok_facts:
  assumes "links_ok cs"
  shows "\<forall>e \<in> set (entries cs). fits (en_weight e)" and "links_size cs = length (entries cs)"
    and "links_weight cs = weigh_all (List.map en_weight (entries cs))"
proof -
  show "\<forall>e \<in> set (entries cs). fits (en_weight e)" by (rule entries_fit [OF assms])
  show "links_size cs = length (entries cs)" using assms by (induction cs rule: entries.induct) auto
  show "links_weight cs = weigh_all (List.map en_weight (entries cs))"
    using assms
  proof (induction cs rule: entries.induct)
    case (2 e n p w l r)
    then have "\<forall>e \<in> set (entries l). fits (en_weight e)" "\<forall>e \<in> set (entries r). fits (en_weight e)" using entries_fit by auto
    with 2 show ?case by (auto simp: weigh_all_append combine_assoc)
  qed simp
qed

lemma update_link_spec [simp]:
  "entries (update_link cs) = entries cs"
  "links_ok l \<Longrightarrow> links_ok r \<Longrightarrow> fits (en_weight e) \<Longrightarrow> links_ok (update_link (Link e n p w l r))"
  by (cases cs) auto

lemma merge_links_spec [simp]:
  "entries (merge_links a b) = entries a @ entries b" "links_ok a \<Longrightarrow> links_ok b \<Longrightarrow> links_ok (merge_links a b)"
  by (induction a b rule: merge_links.induct) (auto simp del: update_link.simps)

lemma split_links_spec:
  assumes "links_ok cs"
  shows "entries (fst (split_links cs k)) = take k (entries cs)" and "entries (snd (split_links cs k)) = drop k (entries cs)"
    and "links_ok (fst (split_links cs k))" and "links_ok (snd (split_links cs k))"
  using assms
proof (induction cs k rule: split_links.induct)
  case (2 e n p w l r k)
  {
    case 1
    with "2.IH" show ?case by (auto simp: take_Cons' links_ok_facts(2) split_beta simp del: update_link.simps)
  next
    case 2
    with "2.IH" show ?case by (auto simp: drop_Cons' links_ok_facts(2) split_beta simp del: update_link.simps)
  next
    case 3
    with "2.IH" show ?case by (auto simp: split_beta simp del: update_link.simps)
  next
    case 4
    with "2.IH" show ?case by (auto simp: split_beta simp del: update_link.simps)
  }
qed simp_all

lemma cut_link_spec:
  assumes "links_ok cs"
  shows "entries (cut_link i cs) = take i (entries cs) @ drop (Suc i) (entries cs)" and "links_ok (cut_link i cs)"
  using split_links_spec [OF assms, of i] split_links_spec [of "snd (split_links cs i)" 1]
  by (simp_all add: cut_link_def split_beta)

lemma put_link_spec:
  assumes "links_ok cs" and "links_ok new"
  shows "entries (put_link i new cs) = take i (entries cs) @ entries new @ drop i (entries cs)" and "links_ok (put_link i new cs)"
  using split_links_spec [OF assms(1), of i] assms(2) by (simp_all add: put_link_def split_beta)

lemma change_nth_spec:
  assumes "links_ok cs" and "i < length (entries cs)" and "fits (en_weight (f (entries cs ! i)))"
  shows "entries (change_nth cs i f) = (entries cs)[i := f (entries cs ! i)]" and "links_ok (change_nth cs i f)"
  using assms
proof (induction cs i f rule: change_nth.induct)
  case (2 e n p w l r i f)
  note IH = "2.IH" and size = links_ok_facts(2) [of l]
  have right: "\<exists>j. i = length (entries l) + 1 + j" if "\<not> i \<le> length (entries l)"
    using that by (intro exI [of _ "i - length (entries l) - 1"]) simp
  {
    case 1
    with IH size right show ?case
      by (cases "i < length (entries l)"; cases "i = length (entries l)")
         (auto simp: nth_append list_update_append simp del: update_link.simps)
  next
    case 2
    with IH size right show ?case
      by (cases "i < length (entries l)"; cases "i = length (entries l)")
         (auto simp: nth_append simp del: update_link.simps)
  }
qed simp_all

lemma prefix_weight_weigh_all:
  assumes "links_ok cs"
  shows "prefix_weight cs k = weigh_all (List.map en_weight (take k (entries cs)))"
  using assms
proof (induction cs k rule: prefix_weight.induct)
  case (2 e n p w l r k)
  note l = links_ok_facts [of l] and r = links_ok_facts [of r] and whole = links_ok_facts [OF "2.prems"]
  consider "k = 0" | "k \<noteq> 0" "n \<le> k" | "k \<noteq> 0" "\<not> n \<le> k" "k \<le> links_size l" | "k \<noteq> 0" "\<not> n \<le> k" "\<not> k \<le> links_size l" by blast
  then show ?case
  proof cases
    case 2
    with whole show ?thesis by (simp del: entries.simps)
  next
    case 3
    with 2 l show ?thesis by simp
  next
    case 4
    with "2.IH"(2) "2.prems" l r some_entries_fit(1) [of r "k - links_size l - 1"] show ?thesis
      by (auto simp: take_Cons' combine_assoc weigh_all_append)
  qed simp
qed simp

lemma suffix_weight_weigh_all:
  assumes "links_ok cs"
  shows "snd (suffix_weight cs k) = weigh_all (List.map en_weight (drop k (entries cs)))"
  using assms
proof (induction cs k rule: suffix_weight.induct)
  case (2 e n p w l r k)
  note l = links_ok_facts [of l] and r = links_ok_facts [of r]
  show ?case
  proof (cases "k \<le> links_size l")
    case True
    with 2 l r some_entries_fit(2) [of l k] show ?thesis by (auto simp: split_beta combine_assoc weigh_all_append)
  next
    case False
    with 2 l show ?thesis by (auto simp: split_beta drop_Cons')
  qed
qed simp

section \<open>Rendering a document\<close>

text \<open>
  A piece of rendered text: code points (a line break is 10), at most one withheld line break, and for a point of
  the document a mark.
\<close>

datatype token = Ch nat | Hold | Mark

record fragment =
  pc_tokens :: "token list"
  pc_visible :: bool
  pc_semantic :: bool
  pc_first :: bool
  pc_last :: bool

definition no_piece :: fragment where
  "no_piece = \<lparr>pc_tokens = [], pc_visible = False, pc_semantic = False, pc_first = False, pc_last = False\<rparr>"

definition resolve :: "token list \<Rightarrow> token list" where
  "resolve ts = List.map (\<lambda>t. if t = Hold then Ch 10 else t) ts"

text \<open>What comes next shows a withheld break when it is visible, and starts a new line at the edge of a block.\<close>

definition joined :: "fragment \<Rightarrow> fragment \<Rightarrow> fragment" where
  "joined a b = \<lparr>
     pc_tokens = (if pc_visible b then resolve (pc_tokens a) else pc_tokens a)
       @ (if pc_semantic a \<and> pc_semantic b \<and> (pc_last a \<or> pc_first b) then [Ch 10] else []) @ pc_tokens b,
     pc_visible = (pc_visible a \<or> pc_visible b),
     pc_semantic = (pc_semantic a \<or> pc_semantic b),
     pc_first = (if pc_semantic a then pc_first a else pc_first b),
     pc_last = (if pc_semantic b then pc_last b else pc_last a)\<rparr>"

definition in_order :: "fragment list \<Rightarrow> fragment" where
  "in_order ps = foldl joined no_piece ps"

text \<open>An element: a \<open>BR\<close> is a withheld break, and a break at the end of a block stays withheld.\<close>

definition element_piece :: "jsstring \<Rightarrow> token list \<Rightarrow> fragment" where
  "element_piece tag ts = \<lparr>pc_tokens = (if block_tag tag then filter (\<lambda>t. t \<noteq> Hold) ts else ts), pc_visible = True, pc_semantic = True,
     pc_first = block_tag tag, pc_last = block_tag tag\<rparr>"

definition text_piece :: "token list \<Rightarrow> bool \<Rightarrow> fragment" where
  "text_piece ts shown = \<lparr>pc_tokens = ts, pc_visible = shown, pc_semantic = True, pc_first = False, pc_last = False\<rparr>"

fun piece :: "dom \<Rightarrow> fragment" where
  "piece (DText n s) = text_piece (List.map Ch (codepoints s)) (s \<noteq> [])"
| "piece (DComment n) = no_piece"
| "piece (DOther n) = no_piece"
| "piece (DElement n tag locked hid kids) =
     element_piece tag (if tag = br_tag then [Hold] else pc_tokens (in_order (List.map piece kids)))"

fun code_points :: "token list \<Rightarrow> nat list" where
  "code_points [] = []"
| "code_points (Ch c # ts) = c # code_points ts"
| "code_points (t # ts) = code_points ts"

definition rendered :: "dom \<Rightarrow> nat list" where
  "rendered d = code_points (pc_tokens (piece d))"

text \<open>The same with a mark at a point: in a text after some code units, in a node after some children.\<close>

definition mark_piece :: fragment where
  "mark_piece = no_piece\<lparr>pc_tokens := [Mark]\<rparr>"

fun marked :: "dom \<Rightarrow> nat list \<Rightarrow> nat \<Rightarrow> fragment" where
  "marked (DText n s) path k = (let j = nat (codepointOffsetOf s (int k)); cs = List.map Ch (codepoints s)
     in text_piece (take j cs @ Mark # drop j cs) (s \<noteq> []))"
| "marked (DComment n) path k = mark_piece"
| "marked (DOther n) path k = mark_piece"
| "marked (DElement n tag locked hid kids) [] k = element_piece tag (if tag = br_tag then [Mark, Hold]
     else pc_tokens (in_order (List.map piece (take k kids) @ mark_piece # List.map piece (drop k kids))))"
| "marked (DElement n tag locked hid kids) (i # path) k =
     element_piece tag (pc_tokens (in_order (List.map piece (take i kids) @ marked (kids ! i) path k # List.map piece (drop (Suc i) kids))))"

definition until_mark :: "token list \<Rightarrow> token list" where
  "until_mark ts = takeWhile (\<lambda>t. t \<noteq> Mark) ts"

definition point_offset :: "dom \<Rightarrow> nat list \<Rightarrow> nat \<Rightarrow> int" where
  "point_offset d path k = int (length (code_points (until_mark (pc_tokens (marked d path k)))))"

subsection \<open>The weight of a piece\<close>

definition holds :: "token list \<Rightarrow> nat" where
  "holds ts = length (filter (\<lambda>t. t = Hold) ts)"

lemma holds_simps [simp]:
  "holds [] = 0" "holds (t # ts) = (if t = Hold then Suc (holds ts) else holds ts)" "holds (ts @ us) = holds ts + holds us"
  by (simp_all add: holds_def)

lemma holds_0 [simp]: "holds ts = 0 \<longleftrightarrow> Hold \<notin> set ts"
  by (induction ts) auto

definition piece_ok :: "fragment \<Rightarrow> bool" where
  "piece_ok p \<longleftrightarrow> holds (pc_tokens p) \<le> 1 \<and> (Hold \<in> set (pc_tokens p) \<longrightarrow> pc_visible p)
     \<and> (pc_first p \<or> pc_last p \<longrightarrow> pc_semantic p)"

definition weight_of :: "fragment \<Rightarrow> bool \<Rightarrow> weight" where
  "weight_of p unsupported = \<lparr>wt_length = int (length (code_points (pc_tokens p))), wt_pending = (Hold \<in> set (pc_tokens p)),
     wt_visible = pc_visible p, wt_semantic = pc_semantic p, wt_firstBlock = pc_first p, wt_lastBlock = pc_last p,
     wt_unsupported = unsupported\<rparr>"

lemma code_points_append [simp]: "code_points (ts @ us) = code_points ts @ code_points us"
  by (induction ts rule: code_points.induct) simp_all

lemma code_points_Ch [simp]: "code_points (List.map Ch cs) = cs"
  by (induction cs) simp_all

lemma resolve_simps [simp]:
  "resolve [] = []" "resolve (t # ts) = (if t = Hold then Ch 10 else t) # resolve ts" "resolve (ts @ us) = resolve ts @ resolve us"
  "Hold \<notin> set (resolve ts)" "Mark \<in> set (resolve ts) \<longleftrightarrow> Mark \<in> set ts"
  by (auto simp: resolve_def)

lemma resolve_length: "length (code_points (resolve ts)) = length (code_points ts) + holds ts"
  by (induction ts rule: code_points.induct) simp_all

lemma one_hold: "holds ts \<le> 1 \<Longrightarrow> holds ts = (if Hold \<in> set ts then 1 else 0)"
  using holds_0 [of ts] by (cases "holds ts") auto

lemma code_points_unheld [simp]: "code_points (filter (\<lambda>t. t \<noteq> Hold) ts) = code_points ts"
  by (induction ts rule: code_points.induct) simp_all

lemma no_holds: "Hold \<notin> set ts \<Longrightarrow> holds ts = 0"
  by simp

lemma unheld [simp]: "holds (filter (\<lambda>t. t \<noteq> Hold) ts) = 0"
  by (simp del: holds_simps)

lemma joined_ok: "piece_ok a \<Longrightarrow> piece_ok b \<Longrightarrow> piece_ok (joined a b)"
  by (cases "pc_visible b") (auto simp: piece_ok_def joined_def no_holds)

lemma weight_joined:
  assumes "piece_ok a" and "piece_ok b"
  shows "weight_of (joined a b) (u \<or> v) = combine (weight_of a u) (weight_of b v)"
proof -
  have "holds (pc_tokens a) = (if Hold \<in> set (pc_tokens a) then 1 else 0)"
    using assms by (intro one_hold) (simp add: piece_ok_def)
  moreover have "pc_visible b" if "Hold \<in> set (pc_tokens b)" using assms(2) that by (simp add: piece_ok_def)
  ultimately show ?thesis
    by (cases "pc_visible b") (auto simp: joined_def weight_of_def combine_def resolve_length)
qed

lemma no_piece_ok [simp]: "piece_ok no_piece" "weight_of no_piece False = empty_weight"
  by (simp_all add: piece_ok_def no_piece_def weight_of_def empty_weight_def)

lemma in_order_append: "in_order (ps @ qs) = foldl joined (in_order ps) qs"
  by (simp add: in_order_def)

lemma in_order_ok: "\<forall>p \<in> set ps. piece_ok p \<Longrightarrow> piece_ok (in_order ps)"
  by (induction ps rule: rev_induct) (simp_all add: in_order_append joined_ok in_order_def)

lemma piece_fits: "piece_ok p \<Longrightarrow> fits (weight_of p u)"
  by (simp add: piece_ok_def fits_def weight_of_def)

lemma weight_in_order:
  assumes "\<forall>p \<in> set ps. piece_ok (fst p)"
  shows "weigh_all (List.map (\<lambda>p. weight_of (fst p) (snd p)) ps) = weight_of (in_order (List.map fst ps)) (\<exists>p \<in> set ps. snd p)"
  using assms
proof (induction ps rule: rev_induct)
  case Nil
  show ?case by (simp add: in_order_def)
next
  case (snoc p ps)
  have "weigh_all (List.map (\<lambda>p. weight_of (fst p) (snd p)) (ps @ [p])) =
      combine (weigh_all (List.map (\<lambda>p. weight_of (fst p) (snd p)) ps)) (weight_of (fst p) (snd p))"
    using snoc.prems piece_fits by (simp add: weigh_all_append)
  also have "\<dots> = weight_of (joined (in_order (List.map fst ps)) (fst p)) ((\<exists>p \<in> set ps. snd p) \<or> snd p)"
    using snoc in_order_ok [of "List.map fst ps"] by (simp add: weight_joined)
  also have "(\<exists>p \<in> set ps. snd p) \<or> snd p \<longleftrightarrow> (\<exists>p \<in> set (ps @ [p]). snd p)" by auto
  finally show ?case by (simp add: in_order_append)
qed

lemma element_piece_ok: "holds ts \<le> 1 \<Longrightarrow> piece_ok (element_piece tag ts)"
  by (simp add: piece_ok_def element_piece_def no_holds)

lemma text_piece_ok: "Hold \<notin> set ts \<Longrightarrow> piece_ok (text_piece ts v)"
  by (simp add: piece_ok_def text_piece_def no_holds)

lemma piece_is_ok [simp]: "piece_ok (piece d)"
proof (induction d rule: piece.induct)
  case (4 n tag locked hid kids)
  show ?case
  proof (cases "tag = br_tag")
    case False
    with 4 have "piece_ok (in_order (List.map piece kids))" by (intro in_order_ok) auto
    with False show ?thesis by (simp add: element_piece_ok piece_ok_def [of "in_order _"])
  qed (simp add: element_piece_ok)
qed (auto intro: text_piece_ok)


section \<open>The index of a document\<close>

fun dom_unsupported :: "dom \<Rightarrow> bool" where
  "dom_unsupported (DElement n tag locked hid kids) \<longleftrightarrow>
     (tag \<noteq> br_tag \<and> (\<exists>d \<in> set kids. dom_unsupported d)) \<or> unsupported_tag tag \<or> locked \<or> hid"
| "dom_unsupported (DOther n) \<longleftrightarrow> True"
| "dom_unsupported d \<longleftrightarrow> False"

definition dom_weight :: "dom \<Rightarrow> weight" where
  "dom_weight d = weight_of (piece d) (dom_unsupported d)"

fun node_tag_of :: "dom \<Rightarrow> node_tag" where
  "node_tag_of (DText n s) = TextTag"
| "node_tag_of (DComment n) = CommentTag"
| "node_tag_of (DOther n) = OtherTag"
| "node_tag_of (DElement n tag locked hid kids) = ElementTag tag"

text \<open>The children that have entries.\<close>

fun kids_built :: "dom \<Rightarrow> dom list" where
  "kids_built (DElement n tag locked hid kids) = (if tag = br_tag then [] else kids)"
| "kids_built d = []"

text \<open>\<open>tracks\<close>: all but the weight of the entry itself.\<close>

inductive tracks :: "entry \<Rightarrow> dom \<Rightarrow> bool" where
  tracks_node: "links_ok cs \<Longrightarrow> list_all2 (\<lambda>e k. tracks e k \<and> en_weight e = dom_weight k) (entries cs) (kids_built d) \<Longrightarrow>
     (case d of DText n s \<Rightarrow> \<exists>ix. x = Some ix \<and> index_for s ix | _ \<Rightarrow> x = None) \<Longrightarrow>
     tracks (Entry (dom_id d) (node_tag_of d) x w cs) d"

inductive_cases tracks_elim: "tracks e d"

lemma tracks_facts:
  assumes "tracks e d"
  shows "en_nid e = dom_id d" and "en_tag e = node_tag_of d" and "links_ok (en_children e)"
    and "length (entries (en_children e)) = length (kids_built d)"
    and "i < length (kids_built d) \<Longrightarrow> tracks (entries (en_children e) ! i) (kids_built d ! i)"
    and "i < length (kids_built d) \<Longrightarrow> en_weight (entries (en_children e) ! i) = dom_weight (kids_built d ! i)"
  using assms by (auto elim!: tracks_elim simp: list_all2_conv_all_nth)

lemma tracks_text: "tracks e (DText n s) \<Longrightarrow> \<exists>ix. en_text e = Some ix \<and> index_for s ix"
  by (auto elim: tracks_elim)

lemma tracks_no_text: "tracks e d \<Longrightarrow> (\<And>n s. d \<noteq> DText n s) \<Longrightarrow> en_text e = None"
  by (cases d) (auto elim: tracks_elim)

lemma child_weights:
  assumes "tracks e d"
  shows "List.map en_weight (entries (en_children e)) = List.map dom_weight (kids_built d)"
  using tracks_facts(4,6) [OF assms] by (intro nth_equalityI) simp_all

lemma weigh_doms: "weigh_all (List.map dom_weight ds) = weight_of (in_order (List.map piece ds)) (\<exists>d \<in> set ds. dom_unsupported d)"
  using weight_in_order [of "List.map (\<lambda>d. (piece d, dom_unsupported d)) ds"]
  by (simp add: comp_def dom_weight_def [abs_def])

text \<open>The weight the code computes from the children is the weight of the rendering.\<close>

lemma own_weight_exact:
  assumes "tracks e d"
  shows "own_weight False False (en_tag e) (dom_blocked d) (en_text e) (en_children e) = dom_weight d"
    and "wt_length (own_weight r u (en_tag e) b (en_text e) (en_children e)) = wt_length (dom_weight d)"
    and "wt_unsupported (own_weight r True (en_tag e) b (en_text e) (en_children e)) =
      (case d of DElement n tag l h kids \<Rightarrow> \<exists>k \<in> set (kids_built d). dom_unsupported k | _ \<Rightarrow> dom_unsupported d)"
proof -
  have w: "links_weight (en_children e) = weight_of (in_order (List.map piece (kids_built d))) (\<exists>k \<in> set (kids_built d). dom_unsupported k)"
    using links_ok_facts(3) [OF tracks_facts(3) [OF assms]] child_weights [OF assms] weigh_doms by simp
  note tag = tracks_facts(2) [OF assms]
  have all: "own_weight False False (en_tag e) (dom_blocked d) (en_text e) (en_children e) = dom_weight d
     \<and> wt_length (own_weight r u (en_tag e) b (en_text e) (en_children e)) = wt_length (dom_weight d)
     \<and> wt_unsupported (own_weight r True (en_tag e) b (en_text e) (en_children e)) =
        (case d of DElement n tag l h kids \<Rightarrow> \<exists>k \<in> set (kids_built d). dom_unsupported k | _ \<Rightarrow> dom_unsupported d)"
  proof (cases d)
    case (DText n s)
    with tracks_text assms obtain ix where ix: "en_text e = Some ix" "index_for s ix" by blast
    with index_length_exact have "index_length ix = int (length (codepoints s))" "ni_utf16Length ix = int (length s)"
      by (simp_all add: codepointCount_def index_for_def)
    with ix DText show ?thesis
      by (simp add: dom_weight_def weight_of_def text_piece_def empty_weight_def image_iff)
  next
    case (DElement n tag locked hid kids)
    with tracks_no_text [OF assms] have x: "en_text e = None" by simp
    show ?thesis
    proof (cases "tag = br_tag")
      case True
      have "\<not> block_tag br_tag" by code_simp
      with True w tag x DElement show ?thesis
        by (simp add: dom_weight_def weight_of_def element_piece_def in_order_def no_piece_def)
    next
      case False
      with w tag x DElement show ?thesis by (simp add: dom_weight_def weight_of_def element_piece_def)
    qed
  qed (use tag tracks_no_text [OF assms] in \<open>simp_all add: dom_weight_def weight_of_def no_piece_def empty_weight_def\<close>)
  then show "own_weight False False (en_tag e) (dom_blocked d) (en_text e) (en_children e) = dom_weight d"
    and "wt_length (own_weight r u (en_tag e) b (en_text e) (en_children e)) = wt_length (dom_weight d)"
    and "wt_unsupported (own_weight r True (en_tag e) b (en_text e) (en_children e)) =
      (case d of DElement n tag l h kids \<Rightarrow> \<exists>k \<in> set (kids_built d). dom_unsupported k | _ \<Rightarrow> dom_unsupported d)"
    by blast+
qed

lemma build_tracks:
  "tracks (fst (build_entry outer d seed)) d
     \<and> en_weight (fst (build_entry outer d seed)) = own_weight False outer (node_tag_of d) (dom_blocked d)
         (en_text (fst (build_entry outer d seed))) (en_children (fst (build_entry outer d seed)))"
  "links_ok cs \<Longrightarrow> links_ok (fst (build_children ds cs seed))
     \<and> (\<exists>es. entries (fst (build_children ds cs seed)) = entries cs @ es \<and> list_all2 (\<lambda>e k. tracks e k \<and> en_weight e = dom_weight k) es ds)"
proof (induction outer d seed and ds cs seed rule: build_entry_build_children.induct)
  case (1 outer n s seed)
  have "index_for s (new_index s)" unfolding new_index_def by (rule reset_index_for)
  then show ?case using tracks_node [of NoLink "DText n s" "Some (new_index s)"] by simp
next
  case (2 outer n seed)
  show ?case using tracks_node [of NoLink "DComment n" None] by simp
next
  case (3 outer n seed)
  show ?case using tracks_node [of NoLink "DOther n" None] by simp
next
  case (4 outer n tag locked hid kids seed)
  let ?d = "DElement n tag locked hid kids"
  define cs where "cs = fst (if tag = br_tag then (NoLink, seed) else build_children kids NoLink seed)"
  have "links_ok cs \<and> list_all2 (\<lambda>e k. tracks e k \<and> en_weight e = dom_weight k) (entries cs) (kids_built ?d)"
    using 4 by (auto simp: cs_def)
  then show ?case using tracks_node [of cs ?d None] by (simp add: cs_def split_beta)
next
  case (6 d ds cs seed)
  obtain e seed1 where e: "build_entry False d seed = (e, seed1)" by fastforce
  let ?link = "Link e 1 (next_seed seed1) (en_weight e) NoLink NoLink"
  have t: "tracks e d" "en_weight e = dom_weight d"
    using "6.IH"(1) e own_weight_exact(1) [of e d] tracks_facts(2) [of e d] by auto
  then have "fits (en_weight e)" by (simp add: dom_weight_def piece_fits)
  with "6.prems" have "links_ok (merge_links cs ?link)" by (intro merge_links_spec) simp_all
  from "6.IH"(2) [OF e [symmetric] refl this] e t show ?case by (auto simp: Let_def)
qed auto

lemma built_weight: "en_weight (fst (build_entry False d seed)) = dom_weight d"
  using build_tracks(1) [of False d seed] own_weight_exact(1) [of _ d] tracks_facts(2) [of _ d] by metis

subsection \<open>Where a node is\<close>

fun dom_path :: "nat \<Rightarrow> dom \<Rightarrow> nat list option"
  and dom_path_in :: "nat \<Rightarrow> nat \<Rightarrow> dom list \<Rightarrow> nat list option" where
  "dom_path k (DElement n tag locked hid kids) =
     (if k = n then Some [] else if tag = br_tag then None else dom_path_in k 0 kids)"
| "dom_path k (DText n s) = (if k = n then Some [] else None)"
| "dom_path k (DComment n) = (if k = n then Some [] else None)"
| "dom_path k (DOther n) = (if k = n then Some [] else None)"
| "dom_path_in k i [] = None"
| "dom_path_in k i (d # ds) = (case dom_path k d of Some a \<Rightarrow> Some (i # a) | None \<Rightarrow> dom_path_in k (Suc i) ds)"

lemma dom_path_eq: "dom_path k d = (if k = dom_id d then Some [] else dom_path_in k 0 (kids_built d))"
  by (cases d) auto

fun search_in :: "nat \<Rightarrow> nat \<Rightarrow> entry list \<Rightarrow> nat list option" where
  "search_in k i [] = None"
| "search_in k i (e # es) = (case address k e of Some a \<Rightarrow> Some (i # a) | None \<Rightarrow> search_in k (Suc i) es)"

lemma search_append:
  "search_in k i (es @ fs) = (case search_in k i es of Some a \<Rightarrow> Some a | None \<Rightarrow> search_in k (i + length es) fs)"
  by (induction es arbitrary: i) (auto split: option.split)

lemma address_search: "links_ok cs \<Longrightarrow> address_in k base cs = search_in k base (entries cs)"
  by (induction cs arbitrary: base rule: entries.induct) (auto simp: search_append links_ok_facts(2) split: option.split)

lemma address_path:
  assumes "tracks e d"
  shows "address k e = dom_path k d"
  using assms
proof induction
  case (tracks_node cs d x w)
  have search: "search_in k i es = dom_path_in k i ds"
    if "list_all2 (\<lambda>e k'. ((tracks e k' \<and> address k e = dom_path k k') \<and> en_weight e = dom_weight k')) es ds" for i es ds
    using that by (induction es ds arbitrary: i rule: list_all2_induct) (auto split: option.split)
  from search [OF tracks_node.IH] tracks_node.hyps(1) show ?case
    by (subst dom_path_eq) (simp add: address_search)
qed

fun path_ok :: "dom \<Rightarrow> nat list \<Rightarrow> bool" where
  "path_ok d [] \<longleftrightarrow> True"
| "path_ok d (i # path) \<longleftrightarrow> i < length (kids_built d) \<and> path_ok (kids_built d ! i) path"

fun dom_at :: "dom \<Rightarrow> nat list \<Rightarrow> dom" where
  "dom_at d [] = d"
| "dom_at d (i # path) = dom_at (kids_built d ! i) path"

lemma dom_path_Some:
  "dom_path k d = Some a \<Longrightarrow> path_ok d a \<and> dom_id (dom_at d a) = k"
  "dom_path_in k i ds = Some a \<Longrightarrow> \<exists>j b. a = (i + j) # b \<and> j < length ds \<and> path_ok (ds ! j) b \<and> dom_id (dom_at (ds ! j) b) = k"
proof (induction k d and k i ds arbitrary: a and a rule: dom_path_dom_path_in.induct)
  case (6 k i d ds)
  show ?case
  proof (cases "dom_path k d")
    case None
    with "6.prems" "6.IH"(2) [OF None, of a] obtain j b where
      "a = (Suc i + j) # b" "j < length ds" "path_ok (ds ! j) b" "dom_id (dom_at (ds ! j) b) = k" by auto
    then show ?thesis by (intro exI [of _ "Suc j"] exI [of _ b]) simp
  next
    case (Some b)
    with 6 show ?thesis by (intro exI [of _ 0] exI [of _ b]) simp
  qed
qed (fastforce split: if_splits)+

end
