(* ===== verification/Rich_Offset.thy ===== *)
theory Rich_Offset
  imports Rich_Text
begin

text \<open>
  The offset of a point of a formatted editor: climbing from a node to the root over the weights of the siblings
  before and after gives the number of code points that the rendering has before the point.
\<close>

section \<open>Rendering with a mark\<close>

lemma until_append: "until_mark (ts @ us) = (if Mark \<in> set ts then until_mark ts else ts @ until_mark us)"
  by (auto simp: until_mark_def takeWhile_append)

lemma until_resolve [simp]: "until_mark (resolve ts) = resolve (until_mark ts)"
  by (induction ts) (simp_all add: until_mark_def)

lemma until_unheld [simp]: "until_mark (filter (\<lambda>t. t \<noteq> Hold) ts) = filter (\<lambda>t. t \<noteq> Hold) (until_mark ts)"
  by (induction ts) (simp_all add: until_mark_def)

lemma until_none: "Mark \<notin> set ts \<Longrightarrow> until_mark ts = ts"
  by (auto simp: until_mark_def intro: takeWhile_eq_all_conv [THEN iffD2])

lemma holds_until: "holds (until_mark ts) \<le> holds ts"
  by (induction ts) (simp_all add: until_mark_def)

lemma resolve_twice [simp]: "resolve (resolve ts) = resolve ts"
  by (simp add: resolve_def)

lemma joined_keeps_mark: "Mark \<in> set (pc_tokens a) \<Longrightarrow> Mark \<in> set (pc_tokens (joined a q))"
  by (simp add: joined_def)

text \<open>What follows the mark only shows a break withheld before it.\<close>

lemma until_rest:
  assumes "Mark \<in> set (pc_tokens a)"
  shows "until_mark (pc_tokens (foldl joined a qs)) =
    (if \<exists>q \<in> set qs. pc_visible q then resolve (until_mark (pc_tokens a)) else until_mark (pc_tokens a))"
  using assms
proof (induction qs arbitrary: a)
  case (Cons q qs)
  from Cons.IH [OF joined_keeps_mark [OF Cons.prems]] Cons.prems show ?case by (auto simp: joined_def until_append)
qed simp

lemma in_order_no_mark: "\<forall>p \<in> set ps. Mark \<notin> set (pc_tokens p) \<Longrightarrow> Mark \<notin> set (pc_tokens (in_order ps))"
proof (induction ps rule: rev_induct)
  case (snoc p ps)
  then show ?case by (simp add: in_order_append joined_def)
qed (simp add: in_order_def no_piece_def)

lemma no_mark: "Mark \<notin> set (pc_tokens (piece d))"
proof (induction d rule: piece.induct)
  case (4 n tag locked hid kids)
  with in_order_no_mark [of "List.map piece kids"] show ?case by (auto simp: element_piece_def)
qed (auto simp: text_piece_def no_piece_def)

lemma in_order_visible: "pc_visible (in_order ps) \<longleftrightarrow> (\<exists>p \<in> set ps. pc_visible p)"
  by (induction ps rule: rev_induct) (auto simp: in_order_append joined_def in_order_def no_piece_def)

definition status :: "token list \<Rightarrow> int \<times> bool" where
  "status ts = (int (length (code_points (until_mark ts))), Hold \<in> set (until_mark ts))"

text \<open>One level: siblings before, the marked piece, siblings after.\<close>

lemma level_status:
  assumes "\<forall>p \<in> set ps. piece_ok p \<and> Mark \<notin> set (pc_tokens p)" and "piece_ok m" and "Mark \<in> set (pc_tokens m)"
  shows "status (pc_tokens (in_order (ps @ m # qs))) =
    (let pre = in_order ps; (offset, held) = status (pc_tokens m); held' = (held \<or> Hold \<in> set (pc_tokens pre) \<and> \<not> pc_visible m);
         shown = (held' \<and> (\<exists>q \<in> set qs. pc_visible q))
     in (offset + int (length (code_points (pc_tokens pre))) + (if Hold \<in> set (pc_tokens pre) \<and> pc_visible m then 1 else 0)
          + (if pc_semantic pre \<and> pc_semantic m \<and> (pc_last pre \<or> pc_first m) then 1 else 0) + (if shown then 1 else 0),
         held' \<and> \<not> shown))"
proof -
  define pre where "pre = in_order ps"
  have pre: "piece_ok pre" "Mark \<notin> set (pc_tokens pre)"
    using assms(1) in_order_ok [of ps] in_order_no_mark [of ps] by (auto simp: pre_def)
  let ?j = "joined pre m"
  have j: "Mark \<in> set (pc_tokens ?j)" using assms(3) by (simp add: joined_def)
  have all: "in_order (ps @ m # qs) = foldl joined ?j qs" by (simp add: in_order_append pre_def)
  have hold: "holds (pc_tokens pre) = (if Hold \<in> set (pc_tokens pre) then 1 else 0)"
    using pre(1) by (intro one_hold) (simp add: piece_ok_def)
  have before: "until_mark (pc_tokens ?j) = (if pc_visible m then resolve (pc_tokens pre) else pc_tokens pre)
      @ (if pc_semantic pre \<and> pc_semantic m \<and> (pc_last pre \<or> pc_first m) then [Ch 10] else []) @ until_mark (pc_tokens m)"
    using pre(2) by (simp add: joined_def until_append)
  have "holds (until_mark (pc_tokens ?j)) \<le> 1"
    using holds_until [of "pc_tokens ?j"] joined_ok [OF pre(1) assms(2)] by (simp add: piece_ok_def)
  then have one: "holds (until_mark (pc_tokens ?j)) = (if Hold \<in> set (until_mark (pc_tokens ?j)) then 1 else 0)" by (rule one_hold)
  have held: "Hold \<in> set (until_mark (pc_tokens ?j)) \<longleftrightarrow>
      Hold \<in> set (until_mark (pc_tokens m)) \<or> Hold \<in> set (pc_tokens pre) \<and> \<not> pc_visible m"
    by (auto simp: before)
  have cps: "int (length (code_points (until_mark (pc_tokens ?j)))) = int (length (code_points (until_mark (pc_tokens m))))
      + int (length (code_points (pc_tokens pre))) + (if Hold \<in> set (pc_tokens pre) \<and> pc_visible m then 1 else 0)
      + (if pc_semantic pre \<and> pc_semantic m \<and> (pc_last pre \<or> pc_first m) then 1 else 0)"
    using hold by (simp add: before resolve_length)
  show ?thesis
    unfolding status_def all until_rest [OF j] pre_def [symmetric] Let_def
    using one by (auto simp: held cps resolve_length)
qed

section \<open>The mark changes nothing else\<close>

lemma foldl_keeps_mark: "Mark \<in> set (pc_tokens a) \<Longrightarrow> Mark \<in> set (pc_tokens (foldl joined a qs))"
  by (induction qs arbitrary: a) (simp_all add: joined_keeps_mark)

lemma in_order_mark: "Mark \<in> set (pc_tokens m) \<Longrightarrow> Mark \<in> set (pc_tokens (in_order (ps @ m # qs)))"
  unfolding in_order_append foldl_Cons by (rule foldl_keeps_mark) (simp add: joined_def)

lemma holds_Ch [simp]: "holds (List.map Ch cs) = 0"
  by (induction cs) simp_all

lemma mark_piece_ok: "piece_ok mark_piece" "Mark \<in> set (pc_tokens mark_piece)"
  by (simp_all add: mark_piece_def piece_ok_def no_piece_def)

lemma marked_like_piece:
  assumes "path_ok d path"
  shows "piece_ok (marked d path k) \<and> Mark \<in> set (pc_tokens (marked d path k))
     \<and> pc_visible (marked d path k) = pc_visible (piece d) \<and> pc_semantic (marked d path k) = pc_semantic (piece d)
     \<and> pc_first (marked d path k) = pc_first (piece d) \<and> pc_last (marked d path k) = pc_last (piece d)"
  using assms
proof (induction d path k rule: marked.induct)
  case (1 n s path k)
  show ?case by (simp add: Let_def text_piece_def piece_ok_def take_map drop_map del: holds_0) (auto simp: image_iff)
next
  case (4 n tag locked hid kids k)
  let ?ps = "List.map piece (take k kids) @ mark_piece # List.map piece (drop k kids)"
  have "piece_ok (in_order ?ps)" by (rule in_order_ok) (use mark_piece_ok in auto)
  moreover have "Mark \<in> set (pc_tokens (in_order ?ps))" by (rule in_order_mark) (use mark_piece_ok in simp)
  ultimately show ?case by (auto simp: element_piece_def piece_ok_def)
next
  case (5 n tag locked hid kids i path k)
  then have tag: "tag \<noteq> br_tag" and i: "i < length kids" "path_ok (kids ! i) path" by (auto split: if_splits)
  let ?m = "marked (kids ! i) path k"
  from 5 tag i have m: "piece_ok ?m" "Mark \<in> set (pc_tokens ?m)" by simp_all
  let ?ps = "List.map piece (take i kids) @ ?m # List.map piece (drop (Suc i) kids)"
  have "piece_ok (in_order ?ps)" by (rule in_order_ok) (use m in auto)
  moreover have "Mark \<in> set (pc_tokens (in_order ?ps))" by (rule in_order_mark) (use m in simp)
  ultimately show ?case by (auto simp: element_piece_def piece_ok_def tag)
qed (simp_all add: mark_piece_ok no_piece_def mark_piece_def piece_ok_def)

text \<open>Without the mark it is the rendering itself.\<close>

definition erase :: "fragment \<Rightarrow> fragment" where
  "erase p = p\<lparr>pc_tokens := filter (\<lambda>t. t \<noteq> Mark) (pc_tokens p)\<rparr>"

lemma erase_resolve: "filter (\<lambda>t. t \<noteq> Mark) (resolve ts) = resolve (filter (\<lambda>t. t \<noteq> Mark) ts)"
  by (induction ts) auto

lemma erase_joined: "erase (joined a b) = joined (erase a) (erase b)"
  by (simp add: erase_def joined_def erase_resolve)

lemma erase_in_order: "erase (in_order ps) = in_order (List.map erase ps)"
  by (induction ps rule: rev_induct) (simp_all add: in_order_append erase_joined, simp add: in_order_def erase_def no_piece_def)

lemma erase_element: "erase (element_piece tag ts) = element_piece tag (filter (\<lambda>t. t \<noteq> Mark) ts)"
  by (simp add: erase_def element_piece_def conj_commute)

lemma erase_piece: "erase (piece d) = piece d"
proof -
  have "filter (\<lambda>t. t \<noteq> Mark) (pc_tokens (piece d)) = pc_tokens (piece d)" using no_mark [of d] by (auto simp: filter_id_conv)
  then show ?thesis by (simp add: erase_def)
qed

lemma erase_tokens: "erase p = q \<Longrightarrow> filter (\<lambda>t. t \<noteq> Mark) (pc_tokens p) = pc_tokens q"
  by (auto simp: erase_def)

lemma joined_no_piece: "piece_ok a \<Longrightarrow> joined a no_piece = a"
  by (auto simp: joined_def no_piece_def piece_ok_def)

lemma marked_erased:
  assumes "path_ok d path"
  shows "erase (marked d path k) = piece d"
  using assms
proof (induction d path k rule: marked.induct)
  case (1 n s path k)
  show ?case by (simp add: Let_def erase_def text_piece_def take_map drop_map filter_map comp_def) (simp flip: map_append)
next
  case (4 n tag locked hid kids k)
  have "piece_ok (in_order (List.map piece (take k kids)))" by (rule in_order_ok) auto
  then have "in_order (List.map piece (take k kids) @ no_piece # List.map piece (drop k kids)) = in_order (List.map piece (take k kids) @ List.map piece (drop k kids))"
    by (simp add: in_order_append joined_no_piece)
  also have "\<dots> = in_order (List.map piece kids)" by (simp flip: map_append)
  finally have "erase (in_order (List.map piece (take k kids) @ mark_piece # List.map piece (drop k kids))) = in_order (List.map piece kids)"
    by (simp add: erase_in_order comp_def erase_piece) (simp add: erase_def mark_piece_def no_piece_def)
  from erase_tokens [OF this] show ?case by (simp add: erase_element)
next
  case (5 n tag locked hid kids i path k)
  then have tag: "tag \<noteq> br_tag" and i: "i < length kids" "path_ok (kids ! i) path" by (auto split: if_splits)
  have "erase (in_order (List.map piece (take i kids) @ marked (kids ! i) path k # List.map piece (drop (Suc i) kids))) = in_order (List.map piece kids)"
    using 5 tag i by (simp add: erase_in_order comp_def erase_piece) (metis id_take_nth_drop list.simps(9) map_append)
  from erase_tokens [OF this] tag show ?case by (simp add: erase_element)
qed (simp_all add: erase_def mark_piece_def no_piece_def)

section \<open>Climbing\<close>

lemma codepoints_take: "length (codepoints (take n s)) \<le> length (codepoints s)"
proof (induction s arbitrary: n rule: codepoints.induct)
  case (1 h l r)
  show ?case
  proof (cases "n < 2")
    case True
    then consider "n = 0" | "n = 1" by linarith
    then show ?thesis by cases simp_all
  next
    case False
    then obtain m where "n = Suc (Suc m)" by (metis add_2_eq_Suc le_Suc_ex not_less)
    with "1.IH"(1) [of m] "1.IH"(2) [of "Suc m"] show ?thesis by simp
  qed
qed (simp_all add: take_Cons')

lemma codepoint_offset_bounds: "0 \<le> codepointOffsetOf s k \<and> codepointOffsetOf s k \<le> int (length (codepoints s))"
  using codepoints_take [of "nat k" s] by (simp add: codepointOffsetOf_def codepointCount_def)

lemma child_totals:
  assumes "tracks e d"
  shows "prefix_weight (en_children e) i = weight_of (in_order (List.map piece (take i (kids_built d)))) (\<exists>k \<in> set (take i (kids_built d)). dom_unsupported k)"
    and "wt_visible (snd (suffix_weight (en_children e) i)) \<longleftrightarrow> (\<exists>k \<in> set (drop i (kids_built d)). pc_visible (piece k))"
proof -
  note ok = tracks_facts(3) [OF assms] and w = child_weights [OF assms]
  have "List.map en_weight (take i (entries (en_children e))) = List.map dom_weight (take i (kids_built d))"
    "List.map en_weight (drop i (entries (en_children e))) = List.map dom_weight (drop i (kids_built d))"
    using w by (metis take_map, metis drop_map)
  then show "prefix_weight (en_children e) i = weight_of (in_order (List.map piece (take i (kids_built d)))) (\<exists>k \<in> set (take i (kids_built d)). dom_unsupported k)"
    and "wt_visible (snd (suffix_weight (en_children e) i)) \<longleftrightarrow> (\<exists>k \<in> set (drop i (kids_built d)). pc_visible (piece k))"
    by (simp_all add: prefix_weight_weigh_all [OF ok] suffix_weight_weigh_all [OF ok] weigh_doms in_order_visible weight_of_def)
qed

lemma block_entry_tag: "tracks e (DElement n tag locked hid kids) \<Longrightarrow> block_entry e = block_tag tag"
  using tracks_facts(2) [of e "DElement n tag locked hid kids"] by (cases e) simp

lemma element_status:
  "status (pc_tokens (element_piece tag ts)) = (fst (status ts), snd (status ts) \<and> \<not> block_tag tag)"
  by (simp add: status_def element_piece_def)

lemma no_children:
  assumes "tracks e d" and "kids_built d = []"
  shows "en_children e = NoLink"
  using tracks_facts(4) [OF assms(1)] assms(2) by (cases "en_children e") simp_all

lemma start_exact:
  assumes "tracks e d"
  shows "start_offset e k = status (pc_tokens (marked d [] k))"
proof (cases d)
  case (DText n s)
  with tracks_text assms obtain ix where "en_text e = Some ix" "index_for s ix" by blast
  moreover from this(2) have "snd (index_offset ix (int k)) = codepointOffsetOf s (int k)" by (rule index_offset_exact(1))
  moreover have "until_mark (take j (List.map Ch cs) @ Mark # us) = List.map Ch (take j cs)" for j cs us
    by (subst until_append) (auto simp: take_map until_mark_def)
  ultimately show ?thesis using codepoint_offset_bounds [of s "int k"]
    by (auto simp: start_offset_def DText Let_def status_def text_piece_def)
next
  case (DElement n tag locked hid kids)
  with tracks_no_text [OF assms] have x: "en_text e = None" by simp
  note block = block_entry_tag [OF assms [unfolded DElement]]
  show ?thesis
  proof (cases "tag = br_tag")
    case True
    with no_children [OF assms] DElement have "en_children e = NoLink" by simp
    with True x DElement show ?thesis
      by (simp add: start_offset_def element_status) (simp add: status_def until_mark_def empty_weight_def)
  next
    case False
    let ?rest = "\<exists>q \<in> set (List.map piece (drop k kids)). pc_visible q"
    have whole: "?rest \<Longrightarrow> pc_visible (in_order (List.map piece (take j kids)))" if "length kids \<le> j" for j
      using that by (auto simp: in_order_visible dest: in_set_dropD)
    have size: "links_size (en_children e) = length kids"
      using links_ok_facts(2) [OF tracks_facts(3) [OF assms]] tracks_facts(4) [OF assms] DElement False by simp
    have "status (pc_tokens (in_order (List.map piece (take k kids) @ mark_piece # List.map piece (drop k kids)))) =
      (let pre = in_order (List.map piece (take k kids)); held = (Hold \<in> set (pc_tokens pre))
       in (int (length (code_points (pc_tokens pre))) + (if held \<and> ?rest then 1 else 0), held \<and> \<not> ?rest))"
      by (subst level_status) (auto simp: mark_piece_ok no_mark Let_def, auto simp: mark_piece_def no_piece_def status_def until_mark_def)
    with whole [OF order_refl] x DElement False block child_totals [OF assms] size show ?thesis
      by (auto simp: start_offset_def Let_def element_status weight_of_def)
  qed
qed (use tracks_no_text [OF assms] no_children [OF assms] in
  \<open>simp_all add: start_offset_def mark_piece_def no_piece_def status_def until_mark_def empty_weight_def\<close>)

lemma climb_exact:
  assumes "tracks e d" and "path_ok d path"
  shows "climb e path k = status (pc_tokens (marked d path k))"
  using assms
proof (induction path arbitrary: e d)
  case Nil
  then show ?case using start_exact by simp
next
  case (Cons i path)
  then have i: "i < length (kids_built d)" "path_ok (kids_built d ! i) path" by simp_all
  then obtain n tag locked hid kids where d: "d = DElement n tag locked hid kids" and tag: "tag \<noteq> br_tag"
    by (cases d) (auto split: if_splits)
  let ?e = "entries (en_children e) ! i" and ?m = "marked (kids ! i) path k"
  note t = tracks_facts(5,6) [OF Cons.prems(1) i(1)] and like = marked_like_piece [OF i(2), of k]
  have IH: "climb ?e path k = status (pc_tokens ?m)" using Cons.IH [OF t(1) i(2)] d tag by simp
  have w: "wt_visible (en_weight ?e) = pc_visible ?m" "wt_semantic (en_weight ?e) = pc_semantic ?m"
    "wt_firstBlock (en_weight ?e) = pc_first ?m"
    using t(2) like d tag by (simp_all add: dom_weight_def weight_of_def)
  obtain offset held where st: "status (pc_tokens ?m) = (offset, held)" by fastforce
  define pre where "pre = in_order (List.map piece (take i kids))"
  define shown where "shown \<longleftrightarrow> (\<exists>q \<in> set (drop (Suc i) kids). pc_visible (piece q))"
  have level: "status (pc_tokens (in_order (List.map piece (take i kids) @ ?m # List.map piece (drop (Suc i) kids)))) =
    (let held' = (held \<or> Hold \<in> set (pc_tokens pre) \<and> \<not> pc_visible ?m); s = (held' \<and> shown)
     in (offset + int (length (code_points (pc_tokens pre))) + (if Hold \<in> set (pc_tokens pre) \<and> pc_visible ?m then 1 else 0)
          + (if pc_semantic pre \<and> pc_semantic ?m \<and> (pc_last pre \<or> pc_first ?m) then 1 else 0) + (if s then 1 else 0),
         held' \<and> \<not> s))"
    using like d tag by (subst level_status) (auto simp: no_mark st pre_def shown_def Let_def)
  have totals: "prefix_weight (en_children e) i = weight_of pre (\<exists>k \<in> set (take i kids). dom_unsupported k)"
    "wt_visible (snd (suffix_weight (en_children e) (i + 1))) \<longleftrightarrow> shown" "block_entry e = block_tag tag"
    using child_totals [OF Cons.prems(1)] d tag block_entry_tag [OF Cons.prems(1) [unfolded d]] by (simp_all add: pre_def shown_def)
  have "climb_step e i ?e (status (pc_tokens ?m)) = status (pc_tokens (element_piece tag
      (pc_tokens (in_order (List.map piece (take i kids) @ ?m # List.map piece (drop (Suc i) kids))))))"
    unfolding element_status level climb_step_def st Let_def prod.case totals w weight_of_def
    by simp
  with IH show ?case by (simp add: d Let_def)
qed

end
