(* ===== verification/Rich_Changes.thy ===== *)
theory Rich_Changes
  imports Rich_Offset
begin

text \<open>
  The index follows the document. Changes of a document, the records that a mutation observer makes of them, and the
  proof that an index that is told of each change measures the changed document; and a batch of records for which it
  does not.
\<close>

section \<open>Changing a document\<close>

fun with_kids :: "dom list \<Rightarrow> dom \<Rightarrow> dom" where
  "with_kids kids (DElement n tag locked hid old) = DElement n tag locked hid kids"
| "with_kids kids d = d"

fun dom_set :: "nat list \<Rightarrow> (dom \<Rightarrow> dom) \<Rightarrow> dom \<Rightarrow> dom" where
  "dom_set [] f d = f d"
| "dom_set (i # path) f d = with_kids ((dom_kids d)[i := dom_set path f (dom_kids d ! i)]) d"

fun dom_ids :: "dom \<Rightarrow> nat list" where
  "dom_ids (DElement n tag locked hid kids) = n # concat (List.map dom_ids kids)"
| "dom_ids d = [dom_id d]"

text \<open>The data of a text, the attributes of an element, or a span of its children.\<close>

datatype dom_change =
    SetText nat jsstring
  | SetFlags nat bool bool
  | SetKids nat nat nat "dom list"

fun change_target :: "dom_change \<Rightarrow> nat" where
  "change_target (SetText k s) = k"
| "change_target (SetFlags k l h) = k"
| "change_target (SetKids k i m new) = k"

fun edit_node :: "dom_change \<Rightarrow> dom \<Rightarrow> dom" where
  "edit_node (SetText k s) (DText n old) = DText n s"
| "edit_node (SetFlags k l h) (DElement n tag locked hid kids) = DElement n tag l h kids"
| "edit_node (SetKids k i m new) d = with_kids (take i (dom_kids d) @ new @ drop (i + m) (dom_kids d)) d"
| "edit_node c d = d"

definition apply_change :: "dom_change \<Rightarrow> dom \<Rightarrow> dom" where
  "apply_change c d = (case dom_path (change_target c) d of None \<Rightarrow> d | Some a \<Rightarrow> dom_set a (edit_node c) d)"

text \<open>The record of a change of \<open>d\<close>.\<close>

fun change_record :: "dom_change \<Rightarrow> dom \<Rightarrow> mutation_record" where
  "change_record (SetText k s) d = CharacterData k"
| "change_record (SetFlags k l h) d = Attributes k"
| "change_record (SetKids k i m new) d =
     (let kids = (case dom_path k d of None \<Rightarrow> [] | Some a \<Rightarrow> dom_kids (dom_at d a))
      in ChildList k (List.map dom_id (take m (drop i kids))) (List.map dom_id new) (if i = 0 then None else Some (dom_id (kids ! (i - 1)))))"

text \<open>
  A possible change: of a node of the right kind, whose new children come from outside the editor, with nodes
  that have numbers of their own.
\<close>

definition change_ok :: "dom_change \<Rightarrow> dom \<Rightarrow> bool" where
  "change_ok c d \<longleftrightarrow> distinct (dom_ids d) \<and> (\<exists>a \<in> set_option (dom_path (change_target c) d).
     case c of
       SetText k s \<Rightarrow> (case dom_at d a of DText n old \<Rightarrow> True | _ \<Rightarrow> False)
     | SetFlags k l h \<Rightarrow> (case dom_at d a of DElement n tag locked hid kids \<Rightarrow> True | _ \<Rightarrow> False)
     | SetKids k i m new \<Rightarrow> (case dom_at d a of DElement n tag locked hid kids \<Rightarrow> tag \<noteq> br_tag \<and> i + m \<le> length kids | _ \<Rightarrow> False)
         \<and> distinct (concat (List.map dom_ids new)) \<and> set (concat (List.map dom_ids new)) \<inter> set (dom_ids d) = {})"

subsection \<open>Paths and numbers\<close>

lemma kids_built_some: "i < length (kids_built d) \<Longrightarrow> \<exists>n tag locked hid kids. d = DElement n tag locked hid kids \<and> tag \<noteq> br_tag \<and> kids_built d = kids"
  by (cases d) (auto split: if_splits)

lemma path_Cons:
  assumes "path_ok d (i # path)"
  obtains n tag locked hid kids where "d = DElement n tag locked hid kids" and "tag \<noteq> br_tag" and "i < length kids" and "path_ok (kids ! i) path"
  using assms kids_built_some [of i d] by auto

lemma path_append:
  assumes "path_ok d a"
  shows "path_ok d (a @ b) \<longleftrightarrow> path_ok (dom_at d a) b" and "dom_at d (a @ b) = dom_at (dom_at d a) b"
  using assms by (induction a arbitrary: d) auto

lemma path_induct [consumes 1, case_names here below]:
  assumes "path_ok d a" and "\<And>d. P d []"
    and "\<And>n tag locked hid kids i a. tag \<noteq> br_tag \<Longrightarrow> i < length kids \<Longrightarrow> path_ok (kids ! i) a \<Longrightarrow> P (kids ! i) a \<Longrightarrow>
      P (DElement n tag locked hid kids) (i # a)"
  shows "P d a"
  using assms(1)
proof (induction a arbitrary: d)
  case (Cons i a)
  from Cons.prems obtain n tag locked hid kids where "d = DElement n tag locked hid kids" "tag \<noteq> br_tag" "i < length kids"
    "path_ok (kids ! i) a" by (rule path_Cons)
  with Cons.IH assms(3) show ?case by simp
qed (rule assms(2))

lemma dom_set_at:
  assumes "path_ok d a"
  shows "dom_at (dom_set a f d) a = f (dom_at d a)" and "path_ok (dom_set a f d) a"
    and "dom_set a g (dom_set a f d) = dom_set a (\<lambda>x. g (f x)) d"
  using assms by (induction d a rule: path_induct) simp_all

lemma dom_set_cong: "path_ok d a \<Longrightarrow> f (dom_at d a) = g (dom_at d a) \<Longrightarrow> dom_set a f d = dom_set a g d"
  by (induction d a rule: path_induct) simp_all

lemma numbers_around:
  assumes "path_ok d a"
  shows "\<exists>P S P' S'. (\<forall>f. dom_ids (dom_set a f d) = P @ dom_ids (f (dom_at d a)) @ S)
    \<and> (\<forall>f. built_ids (dom_set a f d) = P' @ built_ids (f (dom_at d a)) @ S')"
  using assms
proof (induction d a rule: path_induct)
  case (here d)
  show ?case by (intro exI [of _ "[]"]) simp
next
  case (below n tag locked hid kids i a)
  then obtain P S P' S' where IH: "\<And>f. dom_ids (dom_set a f (kids ! i)) = P @ dom_ids (f (dom_at (kids ! i) a)) @ S"
    "\<And>f. built_ids (dom_set a f (kids ! i)) = P' @ built_ids (f (dom_at (kids ! i) a)) @ S'" by blast
  show ?case
    by (intro exI [of _ "n # concat (List.map dom_ids (take i kids)) @ P"] exI [of _ "S @ concat (List.map dom_ids (drop (Suc i) kids))"]
          exI [of _ "n # concat (List.map built_ids (take i kids)) @ P'"] exI [of _ "S' @ concat (List.map built_ids (drop (Suc i) kids))"])
       (use below in \<open>simp add: IH upd_conv_take_nth_drop\<close>)
qed

lemma not_numbered:
  "k \<notin> set (dom_ids d) \<Longrightarrow> dom_find k d = None \<and> dom_path k d = None"
  "\<forall>d \<in> set ds. k \<notin> set (dom_ids d) \<Longrightarrow> dom_find_in k ds = None \<and> dom_path_in k i ds = None"
  by (induction k d and k ds arbitrary: and i rule: dom_find_dom_find_in.induct) auto

lemma find_among:
  assumes "i < length ds" and "\<forall>j < i. k \<notin> set (dom_ids (ds ! j))"
  shows "dom_find k (ds ! i) = Some x \<Longrightarrow> dom_find_in k ds = Some x"
    and "dom_path k (ds ! i) = Some b \<Longrightarrow> dom_path_in k m ds = Some ((m + i) # b)"
proof -
  have none: "\<forall>d \<in> set (take i ds). k \<notin> set (dom_ids d)"
  proof
    fix d assume "d \<in> set (take i ds)"
    then obtain j where "j < i" "d = ds ! j" using assms(1) by (auto simp: in_set_conv_nth)
    with assms(2) show "k \<notin> set (dom_ids d)" by simp
  qed
  have split: "ds = take i ds @ ds ! i # drop (Suc i) ds" using assms(1) by (rule id_take_nth_drop)
  have find: "dom_find_in k (es @ fs) = (case dom_find_in k es of Some y \<Rightarrow> Some y | None \<Rightarrow> dom_find_in k fs)" for es fs
    by (induction es) (simp_all split: option.split)
  have path: "dom_path_in k m (es @ fs) = (case dom_path_in k m es of Some y \<Rightarrow> Some y | None \<Rightarrow> dom_path_in k (m + length es) fs)" for es fs m
    by (induction es arbitrary: m) (auto split: option.split)
  show "dom_find_in k ds = Some x" if "dom_find k (ds ! i) = Some x"
    using not_numbered(2) [OF none] that by (subst split, subst find) simp
  show "dom_path_in k m ds = Some ((m + i) # b)" if "dom_path k (ds ! i) = Some b"
    using not_numbered(2) [OF none] that assms(1) by (subst split, subst path) simp
qed

text \<open>A node is found by its number, and at its path.\<close>

lemma numbered:
  assumes "path_ok d a" and "distinct (dom_ids d)"
  shows "dom_id (dom_at d a) \<in> set (dom_ids d) \<and> dom_find (dom_id (dom_at d a)) d = Some (dom_at d a)
    \<and> dom_path (dom_id (dom_at d a)) d = Some a"
  using assms
proof (induction d a rule: path_induct)
  case (here d)
  show ?case by (cases d) simp_all
next
  case (below n tag locked hid kids i a)
  let ?k = "dom_id (dom_at (kids ! i) a)"
  have split: "kids = take i kids @ kids ! i # drop (Suc i) kids" using below(2) by (rule id_take_nth_drop)
  have dist: "n \<notin> set (concat (List.map dom_ids kids))" "distinct (concat (List.map dom_ids kids))" using below.prems by simp_all
  have "distinct (concat (List.map dom_ids (take i kids)) @ dom_ids (kids ! i) @ concat (List.map dom_ids (drop (Suc i) kids)))"
    using arg_cong [OF split, of "\<lambda>ks. concat (List.map dom_ids ks)"] dist(2) by simp
  then have d: "distinct (dom_ids (kids ! i))" and apart: "set (concat (List.map dom_ids (take i kids))) \<inter> set (dom_ids (kids ! i)) = {}"
    by auto
  with below.IH have k: "?k \<in> set (dom_ids (kids ! i))" "dom_find ?k (kids ! i) = Some (dom_at (kids ! i) a)"
    "dom_path ?k (kids ! i) = Some a" by simp_all
  have "\<forall>j < i. ?k \<notin> set (dom_ids (kids ! j))"
  proof (intro allI impI)
    fix j assume "j < i"
    then have "kids ! j \<in> set (take i kids)" using below(2) by (auto simp: in_set_conv_nth)
    then show "?k \<notin> set (dom_ids (kids ! j))" using apart k(1) by auto
  qed
  from find_among [OF below(2) this] k below(1,2) dist(1) have
    "dom_find_in ?k kids = Some (dom_at (kids ! i) a)" "dom_path_in ?k 0 kids = Some (i # a)" "?k \<noteq> n" by auto
  with below k(1) show ?case by auto
qed

section \<open>Refreshing keeps the index true\<close>

text \<open>The live document agrees on the attributes of the nodes on a path.\<close>

fun live_on :: "dom list \<Rightarrow> dom \<Rightarrow> nat list \<Rightarrow> bool" where
  "live_on live d [] \<longleftrightarrow> blocked_now live (dom_id d) = dom_blocked d"
| "live_on live d (i # a) \<longleftrightarrow> blocked_now live (dom_id d) = dom_blocked d \<and> live_on live (dom_kids d ! i) a"

definition root_weight_ok :: "entry \<Rightarrow> dom \<Rightarrow> bool" where
  "root_weight_ok e d \<longleftrightarrow> wt_length (en_weight e) = wt_length (dom_weight d) \<and> wt_unsupported (en_weight e) =
     (case d of DElement n tag l h kids \<Rightarrow> \<exists>k \<in> set (kids_built d). dom_unsupported k | _ \<Rightarrow> dom_unsupported d)"

lemma reweigh_fields [simp]:
  "en_nid (reweigh live outer e) = en_nid e" "en_tag (reweigh live outer e) = en_tag e" "en_text (reweigh live outer e) = en_text e"
  "en_children (reweigh live outer e) = en_children e"
  "en_weight (reweigh live outer e) = own_weight outer outer (en_tag e) (blocked_now live (en_nid e)) (en_text e) (en_children e)"
  by (cases e; simp)+

lemma tracks_iff:
  "tracks e d \<longleftrightarrow> en_nid e = dom_id d \<and> en_tag e = node_tag_of d \<and> links_ok (en_children e)
     \<and> list_all2 (\<lambda>e k. tracks e k \<and> en_weight e = dom_weight k) (entries (en_children e)) (kids_built d)
     \<and> (case d of DText n s \<Rightarrow> \<exists>ix. en_text e = Some ix \<and> index_for s ix | _ \<Rightarrow> en_text e = None)"
  by (cases e; cases d) (auto elim!: tracks_elim intro!: tracks_node [of _ "DText n s" for n s, simplified]
    tracks_node [of _ "DComment n" for n, simplified] tracks_node [of _ "DOther n" for n, simplified]
    tracks_node [of _ "DElement n tag l h kids" for n tag l h kids, simplified] split: if_splits)

lemma tracks_reweigh:
  assumes "tracks e d"
  shows "tracks (reweigh live outer e) d"
    and "blocked_now live (dom_id d) = dom_blocked d \<Longrightarrow> en_weight (reweigh live False e) = dom_weight d"
    and "root_weight_ok (reweigh live True e) d"
proof -
  show "tracks (reweigh live outer e) d" using assms by (simp add: tracks_iff [of e] tracks_iff [of "reweigh live outer e"] split: dom.splits)
  show "en_weight (reweigh live False e) = dom_weight d" if "blocked_now live (dom_id d) = dom_blocked d"
    using own_weight_exact(1) [OF assms] that tracks_facts(1) [OF assms] by simp
  show "root_weight_ok (reweigh live True e) d" using own_weight_exact(2,3) [OF assms] by (simp add: root_weight_ok_def)
qed

lemma refresh_tracks:
  assumes "path_ok d a" and "tracks e d" and "live_on live (dom_set a f d) a"
    and "\<And>e'. tracks e' (dom_at d a) \<Longrightarrow> tracks (g e') (f (dom_at d a))"
  shows "tracks (refresh_at live outer a g e) (dom_set a f d)"
    and "\<not> outer \<Longrightarrow> en_weight (refresh_at live outer a g e) = dom_weight (dom_set a f d)"
    and "outer \<Longrightarrow> root_weight_ok (refresh_at live outer a g e) (dom_set a f d)"
proof -
  have "tracks (refresh_at live outer a g e) (dom_set a f d)
    \<and> (\<not> outer \<longrightarrow> en_weight (refresh_at live outer a g e) = dom_weight (dom_set a f d))
    \<and> (outer \<longrightarrow> root_weight_ok (refresh_at live outer a g e) (dom_set a f d))"
    using assms
  proof (induction d a arbitrary: e outer rule: path_induct)
    case (here d)
    then have "tracks (g e) (f d)" by simp
    from tracks_reweigh [OF this] here(2) show ?case by auto
  next
    case (below n tag locked hid kids i a)
    let ?d = "DElement n tag locked hid kids" and ?k = "dom_set a f (kids ! i)"
    note kids = tracks_facts [OF below.prems(1)]
    obtain w cs where e: "e = Entry n (ElementTag tag) None w cs"
      using kids(1,2) tracks_no_text [OF below.prems(1)] by (cases e) simp
    let ?e = "refresh_at live False a g (entries cs ! i)"
    have i: "i < length (entries cs)" "links_ok cs" using kids(3,4) below(1,2) e by simp_all
    have child: "tracks ?e ?k" "en_weight ?e = dom_weight ?k"
      using below.IH [of "entries cs ! i" False] kids(5) [of i] below e by simp_all
    then have "fits (en_weight ?e)" by (simp add: dom_weight_def piece_fits)
    note changed = change_nth_spec [OF i(2,1), of "refresh_at live False a g", OF this]
    have "list_all2 (\<lambda>e k. tracks e k \<and> en_weight e = dom_weight k) (entries cs) kids"
      using iffD1 [OF tracks_iff below.prems(1)] below(1) e by simp
    then have "list_all2 (\<lambda>e k. tracks e k \<and> en_weight e = dom_weight k) ((entries cs)[i := ?e]) (kids[i := ?k])"
      using child by (intro list_all2_update_cong) simp_all
    with changed have t: "tracks (Entry n (ElementTag tag) None w (change_nth cs i (refresh_at live False a g))) (DElement n tag locked hid (kids[i := ?k]))"
      using below(1) by (simp add: tracks_iff [of "Entry n (ElementTag tag) None w (change_nth cs i (refresh_at live False a g))"])
    have r: "refresh_at live outer (i # a) g e = reweigh live outer (Entry n (ElementTag tag) None w (change_nth cs i (refresh_at live False a g)))"
      by (simp only: e refresh_at.simps)
    have d: "dom_set (i # a) f ?d = DElement n tag locked hid (kids[i := ?k])" by simp
    have "blocked_now live (dom_id (DElement n tag locked hid (kids[i := ?k]))) = dom_blocked (DElement n tag locked hid (kids[i := ?k]))"
      using below.prems(2) by simp
    with tracks_reweigh [OF t] show ?case
      unfolding r d by (cases outer; simp only: not_True_eq_False not_False_eq_True simp_thms)
  qed
  then show "tracks (refresh_at live outer a g e) (dom_set a f d)"
    and "\<not> outer \<Longrightarrow> en_weight (refresh_at live outer a g e) = dom_weight (dom_set a f d)"
    and "outer \<Longrightarrow> root_weight_ok (refresh_at live outer a g e) (dom_set a f d)" by blast+
qed

text \<open>A node found in the live document has its attributes there.\<close>

lemma live_found:
  assumes "path_ok d a" and "distinct (dom_ids d)"
  shows "dom_find_in (dom_id (dom_at d a)) (d # others) = Some (dom_at d a)"
  using numbered [OF assms] by simp

lemma live_path:
  assumes "path_ok d a" and "distinct (dom_ids d)"
  shows "live_on (d # others) d a"
proof -
  have "live_on live x b" if "path_ok x b" and "\<And>c. path_ok x c \<Longrightarrow> blocked_now live (dom_id (dom_at x c)) = dom_blocked (dom_at x c)" for live x b
    using that
  proof (induction x b rule: path_induct)
    case (here d)
    then show ?case using here [of "[]"] by simp
  next
    case (below n tag locked hid kids i a)
    from below.prems [of "[]"] below.IH below.prems [of "i # c" for c] below(1,2) show ?case by simp
  qed
  from this [OF assms(1)] live_found [OF _ assms(2)] show ?thesis by (simp add: blocked_now_def)
qed

lemma live_on_kept:
  assumes "path_ok d a" and "dom_id (f (dom_at d a)) = dom_id (dom_at d a)" and "dom_blocked (f (dom_at d a)) = dom_blocked (dom_at d a)"
  shows "live_on live (dom_set a f d) a = live_on live d a"
  using assms by (induction d a rule: path_induct) simp_all

end
