(* ===== verification/Rich_Measure.thy ===== *)
theory Rich_Measure
  imports Rich_Changes
begin

text \<open>
  The records of one change keep the index true to the document, so that what is measured then is its rendering;
  what a batch of records can do; and the mutation that is recorded of two measurements (\<open>richMutation\<close> of
  \<open>apps/browser-extension/src/lib/richtext.ts\<close>).
\<close>

section \<open>Following one change\<close>

definition index_true :: "rich_index \<Rightarrow> dom \<Rightarrow> bool" where
  "index_true rx d \<longleftrightarrow> tracks (rx_root rx) d \<and> root_weight_ok (rx_root rx) d \<and> set (built_ids d) \<subseteq> set (rx_known rx)"

lemma dom_set_same: "path_ok d a \<Longrightarrow> dom_set a (\<lambda>x. x) d = d"
  by (induction d a rule: path_induct) simp_all

lemma numbers_of_same:
  assumes "path_ok d a" and "dom_ids (f (dom_at d a)) = dom_ids (dom_at d a)" and "built_ids (f (dom_at d a)) = built_ids (dom_at d a)"
  shows "dom_ids (dom_set a f d) = dom_ids d" and "built_ids (dom_set a f d) = built_ids d"
proof -
  obtain P S P' S' where "\<forall>f. dom_ids (dom_set a f d) = P @ dom_ids (f (dom_at d a)) @ S"
    "\<forall>f. built_ids (dom_set a f d) = P' @ built_ids (f (dom_at d a)) @ S'" using numbers_around [OF assms(1)] by blast
  note this(1) [rule_format, of f] this(1) [rule_format, of "\<lambda>x. x"] this(2) [rule_format, of f] this(2) [rule_format, of "\<lambda>x. x"]
  with assms dom_set_same [OF assms(1)] show "dom_ids (dom_set a f d) = dom_ids d" and "built_ids (dom_set a f d) = built_ids d"
    by simp_all
qed

lemma built_numbers: "set (built_ids d) \<subseteq> set (dom_ids d)"
  by (induction d rule: dom_ids.induct) auto

lemma built_here: "path_ok d a \<Longrightarrow> dom_id (dom_at d a) \<in> set (built_ids d)"
proof (induction d a rule: path_induct)
  case (here d)
  then show ?case by (cases d) simp_all
qed auto

lemma entry_at_tracks:
  assumes "path_ok d a" and "tracks e d"
  shows "\<exists>e'. entry_at e a = Some e' \<and> tracks e' (dom_at d a)"
  using assms
proof (induction d a arbitrary: e rule: path_induct)
  case (below n tag locked hid kids i a)
  from tracks_facts(4,5) [OF below.prems] below.IH below(1,2) show ?case by (cases e) fastforce
qed simp

subsection \<open>Text and attributes\<close>

definition caret_in :: "(nat \<times> nat) option \<Rightarrow> nat \<Rightarrow> int option" where
  "caret_in selection k = (case selection of Some (n, i) \<Rightarrow> if n = k then Some (int i) else None | None \<Rightarrow> None)"

definition intent_for :: "rich_index \<Rightarrow> nat \<Rightarrow> text_intent option" where
  "intent_for rx k = (case rx_pending rx of Some p \<Rightarrow> if rp_nid p = k then Some (rp_intent p) else None | None \<Rightarrow> None)"

lemma intent_pending:
  "map_option rp_intent (case rx_pending rx of Some p \<Rightarrow> if rp_nid p = k then Some p else None | None \<Rightarrow> None) = intent_for rx k"
  by (simp add: intent_for_def split: option.split)

lemma set_text_tracks:
  assumes "tracks e (DText n old)" and "index_for s ix"
  shows "tracks (set_text ix e) (DText n s)"
  using iffD1 [OF tracks_iff assms(1)] assms(2) by (intro iffD2 [OF tracks_iff]) (cases e; simp)

lemma text_followed:
  assumes "index_true rx d" and "distinct (dom_ids d)" and "path_ok d a" and "dom_at d a = DText k old"
    and "truthful old s (caret_in selection k) (intent_for rx k)"
  shows "\<exists>rx'. process_records (dom_set a (edit_node (SetText k s)) d # others) selection [CharacterData k] rx = Inr rx'
    \<and> index_true rx' (dom_set a (edit_node (SetText k s)) d)"
proof -
  let ?f = "edit_node (SetText k s)" let ?d = "dom_set a ?f d" let ?live = "?d # others"
  note true = assms(1) [unfolded index_true_def]
  have same: "dom_ids ?d = dom_ids d" "built_ids ?d = built_ids d" using numbers_of_same [OF assms(3), of ?f] assms(4) by simp_all
  have known: "k \<in> set (rx_known rx)" using built_here [OF assms(3)] true assms(4) by auto
  have addr: "address k (rx_root rx) = Some a"
    using address_path [of "rx_root rx" d k] numbered [OF assms(3,2)] true assms(4) by simp
  obtain e where e: "entry_at (rx_root rx) a = Some e" "tracks e (DText k old)" using entry_at_tracks [OF assms(3)] true assms(4) by metis
  then obtain ix where ix: "en_text e = Some ix" "index_for old ix" using tracks_text by blast
  have here: "dom_at ?d a = DText k s" "path_ok ?d a" "distinct (dom_ids ?d)" using dom_set_at [OF assms(3)] assms(2,4) same by simp_all
  have now: "text_now ?live k = s" using live_found [OF here(2,3), of others] here(1) by (simp add: text_now_def)
  obtain ix' where ix': "applyNumericTextInput ix s (caret_in selection k) (intent_for rx k) = Inr ix'" "index_for s ix'"
    using apply_index_for [OF ix(2) assms(5)] by blast
  have "live_on ?live ?d a" by (rule live_path [OF here(2,3)])
  then have "tracks (refresh_at ?live True a (set_text ix') (rx_root rx)) ?d" "root_weight_ok (refresh_at ?live True a (set_text ix') (rx_root rx)) ?d"
    using refresh_tracks [OF assms(3), of "rx_root rx" ?live ?f "set_text ix'" True] true assms(4) set_text_tracks ix'(2) by simp_all
  with addr e ix ix' now known same true show ?thesis
    by (simp add: process_records_def handle_record_def handle_text_def Let_def intent_pending index_true_def flip: caret_in_def)
qed

lemma flags_followed:
  assumes "index_true rx d" and "distinct (dom_ids d)" and "path_ok d a" and "dom_at d a = DElement k tag locked hid kids"
  shows "\<exists>rx'. process_records (dom_set a (edit_node (SetFlags k l h)) d # others) selection [Attributes k] rx = Inr rx'
    \<and> index_true rx' (dom_set a (edit_node (SetFlags k l h)) d)"
proof -
  let ?f = "edit_node (SetFlags k l h)" let ?d = "dom_set a ?f d" let ?live = "?d # others"
  note true = assms(1) [unfolded index_true_def]
  have same: "dom_ids ?d = dom_ids d" "built_ids ?d = built_ids d" using numbers_of_same [OF assms(3), of ?f] assms(4) by simp_all
  have addr: "address k (rx_root rx) = Some a"
    using address_path [of "rx_root rx" d k] numbered [OF assms(3,2)] true assms(4) by simp
  have here: "path_ok ?d a" "distinct (dom_ids ?d)" using dom_set_at [OF assms(3)] assms(2) same by simp_all
  have "tracks e' (?f (dom_at d a))" if "tracks e' (dom_at d a)" for e'
    using iffD1 [OF tracks_iff that] assms(4) by (intro iffD2 [OF tracks_iff]) simp
  with refresh_tracks [OF assms(3), of "rx_root rx" ?live ?f "\<lambda>e. e" True] live_path [OF here, of others] true
  have "tracks (refresh_at ?live True a (\<lambda>e. e) (rx_root rx)) ?d" "root_weight_ok (refresh_at ?live True a (\<lambda>e. e) (rx_root rx)) ?d"
    by simp_all
  with addr same true show ?thesis by (simp add: process_records_def handle_record_def index_true_def)
qed

subsection \<open>Children\<close>

definition kids_at :: "nat list \<Rightarrow> dom list \<Rightarrow> dom \<Rightarrow> dom" where
  "kids_at a kids d = dom_set a (with_kids kids) d"

lemma with_kids_twice [simp]: "with_kids ks (with_kids vs d) = with_kids ks d"
  by (cases d) simp_all

lemma kids_at_facts:
  assumes "path_ok d a" and "dom_at d a = DElement k tag locked hid old"
  shows "dom_at (kids_at a kids d) a = DElement k tag locked hid kids" and "path_ok (kids_at a kids d) a"
    and "dom_set a (with_kids kids) (kids_at a vs d) = kids_at a kids d" and "live_on live (kids_at a kids d) a = live_on live d a"
    and "kids_at a old d = d"
proof -
  show "dom_at (kids_at a kids d) a = DElement k tag locked hid kids" "path_ok (kids_at a kids d) a"
    "dom_set a (with_kids kids) (kids_at a vs d) = kids_at a kids d"
    unfolding kids_at_def using assms(2) by (simp_all add: dom_set_at [OF assms(1)])
  show "live_on live (kids_at a kids d) a = live_on live d a"
    unfolding kids_at_def by (rule live_on_kept [OF assms(1)]) (simp_all add: assms(2))
  have "kids_at a old d = dom_set a (\<lambda>x. x) d"
    unfolding kids_at_def by (rule dom_set_cong [OF assms(1)]) (simp add: assms(2))
  then show "kids_at a old d = d" by (simp add: dom_set_same [OF assms(1)])
qed

lemma kids_numbers:
  assumes "path_ok d a" and "dom_at d a = DElement k tag locked hid old" and "tag \<noteq> br_tag"
  shows "\<exists>P S P' S'. (\<forall>kids. dom_ids (kids_at a kids d) = P @ k # concat (List.map dom_ids kids) @ S)
    \<and> (\<forall>kids. built_ids (kids_at a kids d) = P' @ k # concat (List.map built_ids kids) @ S')"
proof -
  obtain P S P' S' where "\<forall>f. dom_ids (dom_set a f d) = P @ dom_ids (f (dom_at d a)) @ S"
    "\<forall>f. built_ids (dom_set a f d) = P' @ built_ids (f (dom_at d a)) @ S'" using numbers_around [OF assms(1)] by blast
  then show ?thesis using assms(2,3)
    by (intro exI [of _ P] exI [of _ S] exI [of _ P'] exI [of _ S']) (simp add: kids_at_def)
qed

text \<open>The situation of a record of changed children: \<open>d\<close> before it, the element at \<open>a\<close>, the live document.\<close>

definition splicing :: "dom \<Rightarrow> nat list \<Rightarrow> nat \<Rightarrow> dom list \<Rightarrow> bool" where
  "splicing d a k live \<longleftrightarrow> path_ok d a \<and> (\<exists>tag locked hid old. dom_at d a = DElement k tag locked hid old \<and> tag \<noteq> br_tag)
     \<and> live_on live d a"

definition follows :: "entry \<Rightarrow> dom \<Rightarrow> bool" where
  "follows e d \<longleftrightarrow> tracks e d \<and> root_weight_ok e d"

lemma child_path:
  assumes "splicing d a k live" and "distinct (dom_ids (kids_at a kids d))" and "tracks root (kids_at a kids d)"
  shows "address k root = Some a" and "i < length kids \<Longrightarrow> address (dom_id (kids ! i)) root = Some (a @ [i])"
proof -
  from assms(1) obtain tag locked hid old where d: "path_ok d a" "dom_at d a = DElement k tag locked hid old" "tag \<noteq> br_tag"
    by (auto simp: splicing_def)
  note at = kids_at_facts(1,2) [OF d(1,2), of kids]
  show "address k root = Some a" using numbered [OF at(2) assms(2)] at(1) address_path [OF assms(3)] by simp
  show "address (dom_id (kids ! i)) root = Some (a @ [i])" if "i < length kids"
  proof -
    have "path_ok (kids_at a kids d) (a @ [i])" "dom_at (kids_at a kids d) (a @ [i]) = kids ! i"
      using that d(3) by (simp_all add: path_append [OF at(2)] at(1))
    with numbered [of "kids_at a kids d" "a @ [i]"] assms(2) address_path [OF assms(3)] show ?thesis by simp
  qed
qed

lemma splice_follows:
  assumes "splicing d a k live" and "tracks root (kids_at a kids d)"
    and "\<And>cs. links_ok cs \<Longrightarrow> list_all2 (\<lambda>e k. tracks e k \<and> en_weight e = dom_weight k) (entries cs) kids \<Longrightarrow>
      links_ok (g cs) \<and> list_all2 (\<lambda>e k. tracks e k \<and> en_weight e = dom_weight k) (entries (g cs)) new"
  shows "follows (refresh_at live True a (on_children g) root) (kids_at a new d)"
proof -
  from assms(1) obtain tag locked hid old where d: "path_ok d a" "dom_at d a = DElement k tag locked hid old" "tag \<noteq> br_tag"
    and live: "live_on live d a" by (auto simp: splicing_def)
  note at = kids_at_facts [OF d(1,2)]
  have step: "tracks (on_children g e) (with_kids new (dom_at (kids_at a kids d) a))" if "tracks e (dom_at (kids_at a kids d) a)" for e
    using iffD1 [OF tracks_iff that] assms(3) d(3)
    by (intro iffD2 [OF tracks_iff]) (cases e; simp add: at(1))
  from refresh_tracks [OF at(2) assms(2), of live "with_kids new" "on_children g" True] step
  show ?thesis by (simp add: at(3,4) live follows_def)
qed

lemma remove_one:
  assumes "splicing d a k live" and "distinct (dom_ids (kids_at a (P @ x # S) d))" and "tracks root (kids_at a (P @ x # S) d)"
  shows "tracks (remove_node live k root (dom_id x)) (kids_at a (P @ S) d)"
proof -
  have "address k root = Some a" "address (dom_id x) root = Some (a @ [length P])"
    using child_path [OF assms(1-3)] child_path(2) [OF assms(1-3), of "length P"] by simp_all
  then have "remove_node live k root (dom_id x) = refresh_at live True a (on_children (cut_link (length P))) root"
    by (simp add: remove_node_def child_rank_def detach_def)
  moreover have "follows (refresh_at live True a (on_children (cut_link (length P))) root) (kids_at a (P @ S) d)"
  proof (rule splice_follows [OF assms(1,3)])
    fix cs assume cs: "links_ok cs" "list_all2 (\<lambda>e k. tracks e k \<and> en_weight e = dom_weight k) (entries cs) (P @ x # S)"
    then obtain es f fs where "entries cs = es @ f # fs" "length es = length P"
      "list_all2 (\<lambda>e k. tracks e k \<and> en_weight e = dom_weight k) es P" "list_all2 (\<lambda>e k. tracks e k \<and> en_weight e = dom_weight k) fs S"
      by (auto simp: list_all2_append2 list_all2_Cons2)
    with cut_link_spec [OF cs(1), of "length P"] show "links_ok (cut_link (length P) cs)
      \<and> list_all2 (\<lambda>e k. tracks e k \<and> en_weight e = dom_weight k) (entries (cut_link (length P) cs)) (P @ S)"
      by (simp add: list_all2_appendI)
  qed
  ultimately show ?thesis by (simp add: follows_def)
qed

lemma fewer_numbers:
  assumes "splicing d a k live" and "distinct (dom_ids (kids_at a (P @ R @ S) d))"
  shows "distinct (dom_ids (kids_at a (P @ S) d))"
proof -
  from assms(1) kids_numbers obtain A B where "\<forall>kids. dom_ids (kids_at a kids d) = A @ k # concat (List.map dom_ids kids) @ B"
    unfolding splicing_def by metis
  with assms(2) show ?thesis by auto
qed

lemma remove_all:
  assumes "splicing d a k live" and "distinct (dom_ids (kids_at a (P @ R @ S) d))" and "tracks root (kids_at a (P @ R @ S) d)"
  shows "tracks (foldl (remove_node live k) root (List.map dom_id R)) (kids_at a (P @ S) d)"
  using assms(2,3)
proof (induction R arbitrary: root)
  case (Cons x R)
  have "tracks (remove_node live k root (dom_id x)) (kids_at a (P @ R @ S) d)"
    using remove_one [OF assms(1), of P x "R @ S" root] Cons.prems by simp
  moreover have "distinct (dom_ids (kids_at a (P @ R @ S) d))"
    using fewer_numbers [OF assms(1), of P "[x]" "R @ S"] Cons.prems by simp
  ultimately show ?case using Cons.IH by simp
qed simp

lemma add_one:
  assumes "splicing d a k live" and "distinct (dom_ids (kids_at a (P @ x # S) d))" and "tracks (rx_root rx) (kids_at a (P @ S) d)"
    and "is_child live (dom_id x) k" and "dom_find_in (dom_id x) live = Some x"
  shows "\<exists>rx'. add_node live k (rx, length P, []) (dom_id x) = (rx', length P + 1, []) \<and> tracks (rx_root rx') (kids_at a (P @ x # S) d)
    \<and> set (rx_known rx') = set (rx_known rx) \<union> set (built_ids x) \<and> rx_pending rx' = rx_pending rx"
proof -
  from assms(1) kids_numbers obtain A B where ids: "\<forall>kids. dom_ids (kids_at a kids d) = A @ k # concat (List.map dom_ids kids) @ B"
    unfolding splicing_def by metis
  have fresh: "j \<notin> set (dom_ids (kids_at a (P @ S) d))" if "j \<in> set (built_ids x)" for j
    using that assms(2) built_numbers [of x] by (auto simp: ids)
  have "foldl (detach live) (rx_root rx) vs = rx_root rx" if "set vs \<subseteq> set (built_ids x)" for vs
    using that
  proof (induction vs)
    case (Cons j vs)
    then have "address j (rx_root rx) = None" using fresh [of j] not_numbered(1) address_path [OF assms(3)] by simp
    with Cons show ?case by (simp add: detach_def)
  qed simp
  then have still: "foldl (detach live) (rx_root rx) (built_ids x) = rx_root rx" by simp
  have dist: "distinct (dom_ids (kids_at a (P @ S) d))" using fewer_numbers [OF assms(1), of P "[x]" S] assms(2) by simp
  note addr = child_path(1) [OF assms(1) dist assms(3)]
  define e where "e = fst (build_entry False x (rx_seed rx))"
  have e: "tracks e x" "en_weight e = dom_weight x" using build_tracks(1) [of False x] built_weight by (simp_all add: e_def)
  define link where "link = Link e (Suc 0) (next_seed (snd (build_entry False x (rx_seed rx)))) (en_weight e) NoLink NoLink"
  have "fits (en_weight e)" using e(2) by (simp add: dom_weight_def piece_fits)
  then have link: "links_ok link" "entries link = [e]" by (simp_all add: link_def)
  have "follows (refresh_at live True a (on_children (put_link (length P) link)) (rx_root rx)) (kids_at a (P @ x # S) d)"
  proof (rule splice_follows [OF assms(1,3)])
    fix cs assume cs: "links_ok cs" "list_all2 (\<lambda>e k. tracks e k \<and> en_weight e = dom_weight k) (entries cs) (P @ S)"
    then obtain es fs where "entries cs = es @ fs" "length es = length P"
      "list_all2 (\<lambda>e k. tracks e k \<and> en_weight e = dom_weight k) es P" "list_all2 (\<lambda>e k. tracks e k \<and> en_weight e = dom_weight k) fs S"
      by (auto simp: list_all2_append2)
    with put_link_spec [OF cs(1) link(1), of "length P"] link(2) e show "links_ok (put_link (length P) link cs)
      \<and> list_all2 (\<lambda>e k. tracks e k \<and> en_weight e = dom_weight k) (entries (put_link (length P) link cs)) (P @ x # S)"
      by (simp add: list_all2_appendI)
  qed
  with addr assms(4,5) still show ?thesis
    by (simp add: add_node_def Let_def e_def [symmetric] link_def [symmetric] follows_def Un_commute)
qed

lemma add_all:
  assumes "splicing d a k live" and "distinct (dom_ids (kids_at a (P @ N @ S) d))" and "tracks (rx_root rx) (kids_at a (P @ S) d)"
    and "\<forall>x \<in> set N. is_child live (dom_id x) k \<and> dom_find_in (dom_id x) live = Some x"
  shows "\<exists>rx'. foldl (add_node live k) (rx, length P, []) (List.map dom_id N) = (rx', length P + length N, [])
    \<and> tracks (rx_root rx') (kids_at a (P @ N @ S) d)
    \<and> set (rx_known rx') = set (rx_known rx) \<union> \<Union> (set (List.map (\<lambda>x. set (built_ids x)) N)) \<and> rx_pending rx' = rx_pending rx"
  using assms(2-4)
proof (induction N arbitrary: rx P)
  case (Cons x N)
  have "distinct (dom_ids (kids_at a (P @ x # S) d))"
    using fewer_numbers [OF assms(1), of "P @ [x]" N S] Cons.prems(1) by simp
  from add_one [OF assms(1) this Cons.prems(2)] Cons.prems(3) obtain rx1 where
    one: "add_node live k (rx, length P, []) (dom_id x) = (rx1, length P + 1, [])" "tracks (rx_root rx1) (kids_at a (P @ x # S) d)"
      "set (rx_known rx1) = set (rx_known rx) \<union> set (built_ids x)" "rx_pending rx1 = rx_pending rx" by auto
  from Cons.IH [of "P @ [x]" rx1] Cons.prems one show ?case by (auto simp: Un_assoc)
qed simp

lemma kids_followed:
  assumes "index_true rx d" and "path_ok d a" and "dom_at d a = DElement k tag locked hid kids" and "tag \<noteq> br_tag"
    and "i + m \<le> length kids" and "distinct (dom_ids d)"
    and "d' = kids_at a (take i kids @ new @ drop (i + m) kids) d" and "distinct (dom_ids d')"
  shows "\<exists>rx'. process_records (d' # others) selection
      [ChildList k (List.map dom_id (take m (drop i kids))) (List.map dom_id new) (if i = 0 then None else Some (dom_id (kids ! (i - 1))))] rx = Inr rx'
    \<and> index_true rx' d'"
proof -
  let ?live = "d' # others"
  let ?P = "take i kids" and ?R = "take m (drop i kids)" and ?S = "drop (i + m) kids"
  note true = assms(1) [unfolded index_true_def] and at = kids_at_facts [OF assms(2,3)]
  have kids: "kids = ?P @ ?R @ ?S" using append_take_drop_id [of m "drop i kids"] by (simp add: add.commute)
  have d: "kids_at a (?P @ ?R @ ?S) d = d" using at(5) kids by simp
  have live: "live_on ?live d' a" unfolding assms(7) by (rule live_path) (use at(2) assms(7,8) in simp_all)
  then have sp: "splicing d a k ?live" using assms(2-4) at(4) by (simp add: splicing_def assms(7))
  have known: "k \<in> set (rx_known rx)" using built_here [OF assms(2)] true assms(3) by auto
  have addr: "address k (rx_root rx) = Some a" using child_path(1) [OF sp, of "?P @ ?R @ ?S"] true assms(6) d by simp
  define root1 where "root1 = foldl (remove_node ?live k) (rx_root rx) (List.map dom_id ?R)"
  have t1: "tracks root1 (kids_at a (?P @ ?S) d)"
    unfolding root1_def by (rule remove_all [OF sp]) (use d true assms(6) in simp_all)
  have dist1: "distinct (dom_ids (kids_at a (?P @ ?S) d))" using fewer_numbers [OF sp, of ?P ?R ?S] d assms(6) by simp
  define at where "at = Option.bind (if i = 0 then None else Some (dom_id (kids ! (i - 1)))) (child_rank root1 k)"
  have ins: "(case at of None \<Rightarrow> 0 | Some j \<Rightarrow> j + 1) = length ?P"
  proof (cases i)
    case (Suc j)
    then have "j < length ?P" using assms(5) by simp
    then have j: "j < length (?P @ ?S)" "kids ! j = (?P @ ?S) ! j" by (simp_all only: length_append trans_less_add1) (simp add: nth_append)
    with child_path(1) [OF sp dist1 t1] child_path(2) [OF sp dist1 t1, of j] have "child_rank root1 k (dom_id (kids ! j)) = Some j"
      by (simp add: child_rank_def)
    with Suc assms(5) show ?thesis by (simp add: at_def)
  qed (simp add: at_def)
  have found: "dom_at d' a = DElement k tag locked hid (?P @ new @ ?S)" "path_ok d' a" using at by (simp_all add: assms(7))
  have "\<forall>x \<in> set new. is_child ?live (dom_id x) k \<and> dom_find_in (dom_id x) ?live = Some x"
  proof
    fix x assume x: "x \<in> set new"
    then obtain j where "j < length (?P @ new @ ?S)" "(?P @ new @ ?S) ! j = x" by (metis in_set_conv_nth set_append UnI1 UnI2)
    then have "path_ok d' (a @ [j])" "dom_at d' (a @ [j]) = x" using assms(4) by (simp_all add: path_append [OF found(2)] found(1))
    from live_found [OF this(1) assms(8), of others] this(2) have "dom_find_in (dom_id x) ?live = Some x" by simp
    moreover have "is_child ?live (dom_id x) k"
      using live_found [OF found(2) assms(8), of others] found(1) x by (auto simp: is_child_def)
    ultimately show "is_child ?live (dom_id x) k \<and> dom_find_in (dom_id x) ?live = Some x" by simp
  qed
  from add_all [OF sp _ _ this, of ?P ?S "rx\<lparr>rx_pending := None, rx_root := root1\<rparr>"] assms(7,8) t1 obtain rx2 where
    add: "foldl (add_node ?live k) (rx\<lparr>rx_pending := None, rx_root := root1\<rparr>, length ?P, []) (List.map dom_id new) = (rx2, length ?P + length new, [])"
    and t2: "tracks (rx_root rx2) d'" and known2: "set (rx_known rx2) = set (rx_known rx) \<union> \<Union> (set (List.map (\<lambda>x. set (built_ids x)) new))"
    by auto
  have addr2: "address k (rx_root rx2) = Some a" using child_path(1) [OF sp _ t2 [unfolded assms(7)]] assms(7,8) by simp
  have "set (built_ids d') \<subseteq> set (rx_known rx2)"
  proof -
    obtain A B where "\<forall>ks. built_ids (kids_at a ks d) = A @ k # concat (List.map built_ids ks) @ B"
      using kids_numbers [OF assms(2-4)] by blast
    then have "built_ids d' = A @ k # concat (List.map built_ids (?P @ new @ ?S)) @ B" "built_ids d = A @ k # concat (List.map built_ids kids) @ B"
      using assms(7) at(5) by metis+
    then have "set (built_ids d') = set A \<union> {k} \<union> \<Union> (set ` built_ids ` (set ?P \<union> set new \<union> set ?S)) \<union> set B"
      "set (built_ids d) = set A \<union> {k} \<union> \<Union> (set ` built_ids ` set kids) \<union> set B" by auto
    moreover have "set ?P \<union> set ?S \<subseteq> set kids" using set_take_subset set_drop_subset by (rule Un_least)
    ultimately have "set (built_ids d') \<subseteq> set (built_ids d) \<union> \<Union> (set (List.map (\<lambda>x. set (built_ids x)) new))" by auto
    also have "\<dots> \<subseteq> set (rx_known rx2)" unfolding known2 using true by (intro Un_mono) simp_all
    finally show ?thesis .
  qed
  moreover have "follows (refresh_at ?live True a (\<lambda>e. e) (rx_root rx2)) d'"
    using refresh_tracks [OF found(2) t2, of ?live "\<lambda>x. x" "\<lambda>e. e" True] live by (simp add: dom_set_same [OF found(2)] follows_def)
  ultimately show ?thesis
    using known addr addr2 add ins
    by (simp add: process_records_def handle_record_def Let_def root1_def [symmetric] at_def [symmetric] index_true_def follows_def)
qed

section \<open>What is measured\<close>

definition editor_unsupported :: "dom \<Rightarrow> bool" where
  "editor_unsupported d \<longleftrightarrow>
     (case d of DElement n tag locked hid kids \<Rightarrow> \<exists>k \<in> set (kids_built d). dom_unsupported k | _ \<Rightarrow> dom_unsupported d)"

definition point_in :: "dom \<Rightarrow> nat \<times> nat \<Rightarrow> int option" where
  "point_in d p = map_option (\<lambda>a. point_offset d a (snd p)) (dom_path (fst p) d)"

definition measured_doc :: "dom \<Rightarrow> dom_range option \<Rightarrow> rich_measurement" where
  "measured_doc d sel = (if editor_unsupported d then \<lparr>rm_length = None, rm_start = None, rm_end = None\<rparr>
     else \<lparr>rm_length = Some (int (length (rendered d))), rm_start = Option.bind sel (\<lambda>r. point_in d (fst r)),
       rm_end = Option.bind sel (\<lambda>r. point_in d (snd r))\<rparr>)"

lemma true_measure:
  assumes "index_true rx d"
  shows "rich_measure rx span selected = measured_doc d (case span of None \<Rightarrow> selected | Some r \<Rightarrow> Some r)"
proof -
  have t: "tracks (rx_root rx) d" and w: "root_weight_ok (rx_root rx) d" using assms by (simp_all add: index_true_def)
  have "rich_offset (rx_root rx) p = point_in d p" for p
    using address_path [OF t, of "fst p"] dom_path_Some(1) [of "fst p" d] climb_exact [OF t, of _ "snd p"]
    by (cases "dom_path (fst p) d") (simp_all add: rich_offset_def point_in_def point_offset_def status_def)
  moreover have "wt_length (dom_weight d) = int (length (rendered d))" by (simp add: dom_weight_def weight_of_def rendered_def)
  ultimately show ?thesis using w
    by (auto simp: rich_measure_def measured_doc_def root_weight_ok_def editor_unsupported_def Let_def split: option.split)
qed

lemma new_index_true: "index_true (new_rich_index d) d"
proof -
  have b: "tracks (fst (build_entry True d seed)) d
     \<and> en_weight (fst (build_entry True d seed)) = own_weight False True (node_tag_of d) (dom_blocked d)
         (en_text (fst (build_entry True d seed))) (en_children (fst (build_entry True d seed)))" for seed
    using build_tracks(1) [of True d seed] .
  then have "root_weight_ok (fst (build_entry True d seed)) d" for seed
    using own_weight_exact(2,3) [of "fst (build_entry True d seed)" d] tracks_facts(2) [of "fst (build_entry True d seed)" d]
    by (simp add: root_weight_ok_def)
  with b show ?thesis by (simp add: index_true_def new_rich_index_def split_beta)
qed

section \<open>A run of changes\<close>

datatype rich_event =
    Changed dom_change "(nat \<times> nat) option" "dom list"
  | Prepared "dom_range option" jsstring "int option" bool
  | PendingCleared

fun rich_step :: "dom \<times> rich_index \<Rightarrow> rich_event \<Rightarrow> index_error + dom \<times> rich_index" where
  "rich_step (d, rx) (Changed c selection others) =
     andThen (process_records (apply_change c d # others) selection [change_record c d] rx) (\<lambda>rx'. Inr (apply_change c d, rx'))"
| "rich_step (d, rx) (Prepared span inputType dataLength composition) = Inr (d, rich_prepare rx span inputType dataLength composition)"
| "rich_step (d, rx) PendingCleared = Inr (d, rx\<lparr>rx_pending := None\<rparr>)"

text \<open>The facts of a prepared input are true of the next change of that text.\<close>

fun possible :: "dom \<times> rich_index \<Rightarrow> rich_event \<Rightarrow> bool" where
  "possible (d, rx) (Changed c selection others) \<longleftrightarrow> change_ok c d \<and>
     (case c of SetText k s \<Rightarrow> \<forall>a \<in> set_option (dom_path k d). truthful (dom_text (dom_at d a)) s (caret_in selection k) (intent_for rx k)
      | _ \<Rightarrow> True)"
| "possible st e \<longleftrightarrow> True"

fun possible_run :: "dom \<times> rich_index \<Rightarrow> rich_event list \<Rightarrow> bool" where
  "possible_run st [] \<longleftrightarrow> True"
| "possible_run st (e # es) \<longleftrightarrow> possible st e \<and> (case rich_step st e of Inl err \<Rightarrow> True | Inr st' \<Rightarrow> possible_run st' es)"

fun doc_after :: "dom \<Rightarrow> rich_event \<Rightarrow> dom" where
  "doc_after d (Changed c selection others) = apply_change c d"
| "doc_after d e = d"

lemma change_followed:
  assumes "index_true rx d" and "possible (d, rx) (Changed c selection others)"
  shows "\<exists>rx'. process_records (apply_change c d # others) selection [change_record c d] rx = Inr rx' \<and> index_true rx' (apply_change c d)"
proof -
  have ok: "change_ok c d" using assms(2) by simp
  then obtain a where a: "dom_path (change_target c) d = Some a" and dist: "distinct (dom_ids d)" by (auto simp: change_ok_def)
  note path = dom_path_Some(1) [OF a]
  show ?thesis
  proof (cases c)
    case (SetText k s)
    with ok a path obtain old where "dom_at d a = DText k old" by (auto simp: change_ok_def split: dom.splits)
    with text_followed [OF assms(1) dist _ this] SetText a path assms(2) show ?thesis by (simp add: apply_change_def)
  next
    case (SetFlags k l h)
    with ok a path obtain tag locked hid kids where "dom_at d a = DElement k tag locked hid kids" by (auto simp: change_ok_def split: dom.splits)
    with flags_followed [OF assms(1) dist _ this] SetFlags a path show ?thesis by (simp add: apply_change_def)
  next
    case (SetKids k i m new)
    with ok a path obtain tag locked hid kids where at: "dom_at d a = DElement k tag locked hid kids" "tag \<noteq> br_tag" "i + m \<le> length kids"
      and new: "distinct (concat (List.map dom_ids new))" "set (concat (List.map dom_ids new)) \<inter> set (dom_ids d) = {}"
      by (auto simp: change_ok_def split: dom.splits)
    let ?d = "kids_at a (take i kids @ new @ drop (i + m) kids) d"
    have d: "apply_change c d = ?d"
      using path a at by (simp add: apply_change_def SetKids kids_at_def) (rule dom_set_cong, simp_all)
    obtain A B where ids: "\<forall>ks. dom_ids (kids_at a ks d) = A @ k # concat (List.map dom_ids ks) @ B"
      using kids_numbers [of d a k tag locked hid kids] path at by blast
    have "dom_ids d = A @ k # concat (List.map dom_ids kids) @ B" using ids kids_at_facts(5) [of d a] path at by metis
    moreover have "kids = take i kids @ take m (drop i kids) @ drop (i + m) kids"
      using append_take_drop_id [of m "drop i kids"] by (simp add: add.commute)
    ultimately have "dom_ids d = A @ k # concat (List.map dom_ids (take i kids)) @ concat (List.map dom_ids (take m (drop i kids)))
        @ concat (List.map dom_ids (drop (i + m) kids)) @ B" by (metis append.assoc concat_append map_append)
    with dist new ids have "distinct (dom_ids ?d)" by auto
    with kids_followed [OF assms(1) _ at dist refl] path a d SetKids at show ?thesis by (simp add: Let_def)
  qed
qed

lemma run_followed:
  assumes "index_true rx d" and "possible_run (d, rx) events"
  shows "\<exists>rx'. run_steps rich_step (d, rx) events = Inr (foldl doc_after d events, rx') \<and> index_true rx' (foldl doc_after d events)"
  using assms
proof (induction events arbitrary: d rx)
  case (Cons e events)
  have "\<exists>rx'. rich_step (d, rx) e = Inr (doc_after d e, rx') \<and> index_true rx' (doc_after d e)"
  proof (cases e)
    case (Changed c selection others)
    with Cons.prems(2) have "possible (d, rx) (Changed c selection others)" by simp
    from change_followed [OF Cons.prems(1) this] Changed show ?thesis by auto
  qed (use Cons.prems(1) in \<open>auto simp: index_true_def rich_prepare_def Let_def split: option.split prod.split\<close>)
  with Cons show ?case by fastforce
qed simp

text \<open>C7: The index of a formatted editor measures exactly what the document shows. Built from a document, and told of
  each of any sequence of changes of texts, attributes and children as it happens, the index
  measures the length of the rendered text, and for each point of the document the number of code points rendered
  before it; or nothing, when the document has parts it cannot measure.\<close>

theorem rich_index_exact:
  assumes "possible_run (d, new_rich_index d) events"
  shows "\<exists>rx. run_steps rich_step (d, new_rich_index d) events = Inr (foldl doc_after d events, rx)
    \<and> (\<forall>span selected. rich_measure rx span selected =
         measured_doc (foldl doc_after d events) (case span of None \<Rightarrow> selected | Some r \<Rightarrow> Some r))"
  using run_followed [OF new_index_true assms] true_measure by blast

section \<open>A sample, and a batch that misplaces a node\<close>

definition sample_element :: "nat \<Rightarrow> string \<Rightarrow> dom list \<Rightarrow> dom" where
  "sample_element n tag kids = DElement n (js tag) False False kids"

definition sample_doc :: dom where
  "sample_doc = sample_element 0 ''DIV'' [sample_element 1 ''DIV'' [DText 2 (js ''ab''), sample_element 3 ''BR'' []]]"

text \<open>The first priorities, so that evaluation need not compute them bit by bit.\<close>

lemma first_priorities [code]:
  "next_seed s =
    (if s = 0x12345678 then 0x87985aa5
     else if s = 0x87985aa5 then 0x155b24a3
     else if s = 0x155b24a3 then 0x4820f4c4
     else if s = 0x4820f4c4 then 0x81b3ac98
     else if s = 0x81b3ac98 then 0x703a0788
     else if s = 0x703a0788 then 0x29a8e24d
     else if s = 0x29a8e24d then 0x89ca4f1d
     else if s = 0x89ca4f1d then 0xc5186e29
     else (let s1 = s XOR push_bit 13 s; s2 = s1 XOR drop_bit 17 s1 in s2 XOR push_bit 5 s2))"
  by (simp add: next_seed_def Let_def)

text \<open>A character typed in the middle of the text, a new paragraph, an element that becomes hidden and is removed.\<close>

definition sample_events :: "rich_event list" where
  "sample_events =
     [Prepared (Some ((2, 1), (2, 1))) (js ''insertText'') None False,
      Changed (SetText 2 (js ''axb'')) (Some (2, 2)) [],
      Changed (SetKids 0 1 0 [sample_element 4 ''P'' [DText 5 (js ''c'')], sample_element 6 ''IMG'' []]) None [],
      Changed (SetFlags 6 False True) None [],
      Changed (SetKids 0 2 1 []) None [sample_element 6 ''IMG'' []]]"

lemma rich_index_exact_witness:
  "\<exists>rx. run_steps rich_step (sample_doc, new_rich_index sample_doc) sample_events = Inr (foldl doc_after sample_doc sample_events, rx)
     \<and> rich_measure rx (Some ((5, 0), (5, 1))) None = \<lparr>rm_length = Some 5, rm_start = Some 4, rm_end = Some 5\<rparr>"
proof -
  have "possible_run (sample_doc, new_rich_index sample_doc) sample_events" by code_simp
  moreover have "measured_doc (foldl doc_after sample_doc sample_events) (Some ((5, 0), (5, 1)))
      = \<lparr>rm_length = Some 5, rm_start = Some 4, rm_end = Some 5\<rparr>" by code_simp
  ultimately show ?thesis using rich_index_exact [of sample_doc sample_events] by fastforce
qed

text \<open>
  Records that are handled together are handled on the document as it is after all of them. When a node was put in
  after one that was itself put in and is gone again, its place is not found, and it is put first.
\<close>

fun records_of :: "dom \<Rightarrow> dom_change list \<Rightarrow> mutation_record list" where
  "records_of d [] = []"
| "records_of d (c # cs) = change_record c d # records_of (apply_change c d) cs"

definition marker_changes :: "dom_change list" where
  "marker_changes = [SetKids 1 1 0 [DText 9 (js '''')], SetKids 1 2 0 [DText 7 (js ''yz'')], SetKids 1 1 1 []]"

definition marker_doc :: dom where
  "marker_doc = sample_element 0 ''DIV'' [sample_element 1 ''P'' [DText 2 (js ''x'')]]"

lemma batch_misplaces:
  "\<exists>rx. process_records (foldl (\<lambda>d c. apply_change c d) marker_doc marker_changes # [DText 9 (js '''')]) None
        (records_of marker_doc marker_changes) (new_rich_index marker_doc) = Inr rx
     \<and> rich_measure rx (Some ((7, 0), (7, 0))) None = \<lparr>rm_length = Some 3, rm_start = Some 0, rm_end = Some 0\<rparr>
     \<and> measured_doc (foldl (\<lambda>d c. apply_change c d) marker_doc marker_changes) (Some ((7, 0), (7, 0)))
         = \<lparr>rm_length = Some 3, rm_start = Some 1, rm_end = Some 1\<rparr>"
proof -
  let ?x = "process_records (foldl (\<lambda>d c. apply_change c d) marker_doc marker_changes # [DText 9 (js '''')]) None
        (records_of marker_doc marker_changes) (new_rich_index marker_doc)"
  have "case ?x of Inl e \<Rightarrow> False
     | Inr rx \<Rightarrow> rich_measure rx (Some ((7, 0), (7, 0))) None = \<lparr>rm_length = Some 3, rm_start = Some 0, rm_end = Some 0\<rparr>" by code_simp
  then obtain rx where "?x = Inr rx" "rich_measure rx (Some ((7, 0), (7, 0))) None = \<lparr>rm_length = Some 3, rm_start = Some 0, rm_end = Some 0\<rparr>"
    by (cases ?x) simp_all
  moreover have "measured_doc (foldl (\<lambda>d c. apply_change c d) marker_doc marker_changes) (Some ((7, 0), (7, 0)))
         = \<lparr>rm_length = Some 3, rm_start = Some 1, rm_end = Some 1\<rparr>" by code_simp
  ultimately show ?thesis by blast
qed

section \<open>The mutation between two measurements\<close>

datatype rich_kind = KindInsert | KindDelete | KindHistory | KindFormat | KindUnknown

record rich_change = rich_measurement +
  rc_source :: source
  rc_kind :: rich_kind

definition unmeasured :: "source \<Rightarrow> pending_mutation" where
  "unmeasured src = \<lparr>pm_op = OpReplace, pm_pos = None, pm_del_len = None, pm_ins_len = None, pm_source = src\<rparr>"

definition richMutation :: "rich_change \<Rightarrow> rich_measurement \<Rightarrow> pending_mutation option" where
  "richMutation old new = (case (rm_length old, rm_length new) of
      (Some l, Some l') \<Rightarrow>
        (let delta = l' - l; net = (netLengthChangeMutation l l')\<lparr>pm_source := rc_source old\<rparr> in
         if rc_kind old = KindFormat \<and> delta = 0 then None
         else if rc_kind old = KindInsert \<or> rc_kind old = KindDelete
         then (case (rm_start old, rm_end old) of
             (Some a, Some b) \<Rightarrow>
               (let del = b - a; ins = delta + del in
                if ins \<ge> 0 \<and> (rc_kind old \<noteq> KindDelete \<or> ins = 0) \<and> rm_start new = Some (a + ins) \<and> rm_end new = rm_start new
                then (if ins = 0 \<and> del = 0 then None
                  else Some \<lparr>pm_op = operationFor ins del, pm_pos = Some a, pm_del_len = Some del, pm_ins_len = Some ins, pm_source = rc_source old\<rparr>)
                else Some net)
           | _ \<Rightarrow> Some net)
         else Some net)
    | _ \<Rightarrow> Some (unmeasured (rc_source old)))"

text \<open>A mutation with a position accounts for the change of length; only a change of nothing records none.\<close>

lemma rich_mutation_accounts:
  "richMutation old new = Some p \<Longrightarrow> pm_pos p = Some a \<Longrightarrow> \<exists>l l' del ins. rm_length old = Some l \<and> rm_length new = Some l'
     \<and> pm_del_len p = Some del \<and> pm_ins_len p = Some ins \<and> l' = l - del + ins \<and> rm_start old = Some a \<and> rm_end old = Some (a + del)
     \<and> rm_start new = Some (a + ins)"
  "richMutation old new = None \<Longrightarrow> \<exists>l. rm_length old = Some l \<and> rm_length new = Some l"
  by (auto simp: richMutation_def Let_def unmeasured_def netLengthChangeMutation_def unknownMutation_def split: option.splits if_splits)

end
