(* ===== verification/Spec2Isabelle.thy ===== *)
theory Spec2Isabelle
  imports Text_Binding Analyzers Paged_Reader Service_Soundness Signed_Records Upload_Resumption Journal_Migration Capture_Cycles Admission Draft_Writer Draft_Adoption Dispatcher Rich_Measure
begin

text \<open>
  A verification library for a system of writing records: evidence of how a text was written (when, where and how
  much was inserted and deleted) that does not contain the text.

  The program. An editor page (\<open>src/apps/web\<close>) or a browser extension (\<open>src/apps/browser-extension\<close>) measures each edit of
  a field in numbers. A registry of sessions (\<open>src/packages/producer-core\<close>) turns the edits into a log of events with
  a hash chain, keeps it in a browser database (\<open>src/packages/browser-storage\<close>), asks a server from time to time to
  observe the tip of the chain, and at the end signs a manifest over the log. The ingest service (\<open>src/apps/ingest-api\<close>)
  verifies a record with the functions of the record format (\<open>src/packages/format\<close>), stores it with its statistics
  (\<open>src/packages/storage\<close>, \<open>src/packages/analyzers\<close>) and gives it out under its hash or a short signature; a reader's
  page verifies it again. The library follows a record along this way, and the properties that span the parts say
  that it arrives: what is captured is what was typed, what is captured is what is signed, what is signed is what is
  published, what is published is what a reader finds valid, and nothing else is.

  Theories and sources.

  Prelude: lemmas on lists, options and maps, and errors as values of a sum (\<open>guard\<close>, \<open>andThen\<close>).
  Js_Value, Canonical_Json, Canonical_Roundtrip, Casefold, Format_Types, Validation, Hash_Chain, Hash_Binding,
  Record_Commitment, Stream_Verifier, Observed_Length, Text_Binding: the record format
  (\<open>packages/format/src/index.ts\<close>, \<open>casefold.ts\<close>): JSON values and their canonical text, the validators of manifests
  and events, the chain and the seal, whole and streaming verification, and the binding of a record to a text.
  Analysis, Analysis_Spec, Analyzers: the accumulator of statistics, its closed form, and the signals read off it.
  Observation, Session_History, Chunked_Store, Record_Store: the in-memory stores (\<open>packages/storage/src\<close>).
  Short_Signature, Chunked_Api, Chunked_Publish, Chunked_Pages, Ingest_Payload, Ingest_Api, Ingest_Publish,
  Ingest_History, Service_Soundness, Admission: the ingest service (\<open>apps/ingest-api/src\<close>).
  Producer_Session, Checkpoint_Client, Session_Registry, Session_Lifecycle, Registry_Invariant: the registry
  (\<open>packages/producer-core/src\<close>). Session_Journal, Journal_Migration, Journal_Upload: the browser's journal and its upload
  (\<open>packages/browser-storage/src\<close>). Recording_Device, Signed_Records, Upload_Resumption: the registry, the journal and
  the service run together. Dispatcher: the requests of the browser extension.
  Numeric_Index, Measured_Input, Write_Capture, Capture_Cycles: the measurement of edits
  (\<open>packages/browser-capture/src\<close>, \<open>apps/web/src/write-capture.ts\<close>). Rich_Index, Rich_Text, Rich_Offset, Rich_Changes,
  Rich_Measure: the index of a formatted editor over its document (\<open>apps/browser-extension/src/lib/richtext-index.ts\<close>,
  \<open>richtext.ts\<close>). Paged_Reader, Draft_Writer, Draft_Adoption: the
  reader and the drafts of the web pages (\<open>apps/web/src/stream-record.ts\<close>, \<open>drafts.ts\<close>).
  Sample_Library: concrete values for witnesses.

  How the code is carried over. A class is a record of its state and its methods are functions from that state to
  the new state and a result; a thrown error is the left of a sum. A JavaScript \<open>Map\<close> is an association list in
  insertion order, a string the list of its UTF-16 code units, an integer an \<open>int\<close> with the bounds that the code checks,
  a 32-bit number of the treap a word. What happens between two awaits is one step: the registry with its saves, the
  draft writer, the upload and the requests of the extension are step relations or functions resumed by answers, and
  their theorems quantify over every order of steps, failures and restarts. A request of the extension that awaits a save
  waits for the batch that \<open>persist\<close> promises it (\<open>save_progress\<close>), among edits, checkpoints, sweeps and discards.
  JavaScript's numbers are doubles: the canonical text of an integer is its decimal digits only for safe integers
  (\<open>safe_json\<close>), which are all that the validators of the format accept.

  What the lemmas show. Each data structure has an invariant that its operations keep (\<open>registry_ok\<close>, \<open>device_ok\<close>, the
  laws of the store); each optimised routine agrees with a plain reference (the treaps with counting in the
  text and with rendering the document, the streaming verifier with \<open>verifyRecord\<close>, chunks with the whole log, the store's maps with a list of records);
  each contract is a locale that is interpreted on the model (\<open>observation_closed\<close> for what checkpoints leave alone, the
  contracts of the store, the journal and the channel), so that a new property of the interleaved system needs
  only the laws of its own steps. Properties of the form that something succeeds name what can refuse it:
  \<open>within_limits\<close>, \<open>may_begin\<close>, \<open>chunks_accepted\<close> and \<open>observable\<close> are the limits of the service that a valid record may still
  exceed, and the bounds of Admission count the floods of clients that make it forget one (\<open>floods\<close>).

  Termination. Loops are structural recursion or have a measure (the pages of a reader, the chunks of an upload, the chain
  of parents of a draft). There is no fuel. The two loops of the source that may not end, the repetition of a rate
  limited request and the lineage of a draft, are partial functions into an option: Journal_Upload
  and Draft_Adoption prove when they return, and exhibit the inputs on which they do not.

  Parameters. What is not code of the repository is an argument with documented laws where they are needed: the hash
  functions and hexadecimal conversions of \<open>@noble/hashes\<close> (\<open>noble_ok\<close>; that hashes do not collide is never assumed, a
  collision is a disjunct of the conclusion), the clock, fresh identifiers (never given twice to sessions of one
  device), \<open>Date.parse\<close> and \<open>toISOString\<close>, Unicode normalization and letter classes, \<open>SHA-256\<close>, the byte length of a
  body, the URL parser, the number in a header, the comparison of names in a locale, and the rounding of a
  percentile rank and of the place of an event in an overview. Every law has an
  instance in a witness. Token buckets are counted in exact rationals where the source has doubles.

  Not modelled, and why. The React pages, the popup and the panel: layout and wording. The listeners of the
  extension in a page: they wire the browser's events; the listeners of the web editor, with the same rules
  for plain text, and the index they read of formatted text are modelled. The PostgreSQL adapters, migrations and maintenance: texts in SQL,
  whose meaning is the database's; the in-memory stores of the same interfaces are modelled, and with them no unique
  violation or removed record occurs. The HTTP server process and the matching of URLs: sockets and static
  files. The charts and summaries of a record: floating point geometry and locale formats. That a session
  is put back when its deletion cannot be saved. Opening and upgrading
  the browser's database, build scripts, the site and the editor plugin: platform or glue.
\<close>

end
